(* ===== verification/Prelude.thy ===== *)
theory Prelude
  imports Complex_Main "HOL-Library.AList"
begin

text \<open>
  Shared vocabulary of the development.  A Rust \<open>HashMap\<close> whose iteration order the code
  can observe is an association list with distinct keys (\<open>hmap\<close>): the order of the list is the
  iteration order of that moment, and since every statement quantifies over the whole state it
  holds for every order.  \<open>hget\<close>, \<open>hput\<close> and \<open>hdel\<close> are \<open>get\<close>, \<open>insert\<close> and \<open>remove\<close>.
  Results are sums, \<open>Inl\<close> for \<open>Err\<close>.
\<close>

named_theorems hmap_simps
named_theorems step_defs
named_theorems inv_intros

type_synonym ('k, 'v) hmap = "('k \<times> 'v) list"
type_synonym timestamp = int
type_synonym duration = int

abbreviation hget :: "('k, 'v) hmap \<Rightarrow> 'k \<Rightarrow> 'v option" where
  "hget \<equiv> map_of"

definition hput :: "'k \<Rightarrow> 'v \<Rightarrow> ('k, 'v) hmap \<Rightarrow> ('k, 'v) hmap" where
  "hput k v m = AList.update k v m"

definition hdel :: "'k \<Rightarrow> ('k, 'v) hmap \<Rightarrow> ('k, 'v) hmap" where
  "hdel k m = AList.delete k m"

definition hkeys :: "('k, 'v) hmap \<Rightarrow> 'k list" where
  "hkeys m = map fst m"

definition hvals :: "('k, 'v) hmap \<Rightarrow> 'v list" where
  "hvals m = map snd m"

abbreviation hwf :: "('k, 'v) hmap \<Rightarrow> bool" where
  "hwf m \<equiv> distinct (map fst m)"

lemma hget_hput [simp, hmap_simps]: "hget (hput k v m) = (hget m)(k \<mapsto> v)"
  by (simp add: hput_def update_conv' fun_eq_iff)

lemma hget_hdel [simp, hmap_simps]: "hget (hdel k m) = (hget m)(k := None)"
  by (simp add: hdel_def delete_conv' fun_eq_iff)

lemma hwf_hput [simp, intro]: "hwf m \<Longrightarrow> hwf (hput k v m)"
  by (simp add: hput_def distinct_update)

lemma hwf_hdel [simp, intro]: "hwf m \<Longrightarrow> hwf (hdel k m)"
  by (simp add: hdel_def distinct_delete)

lemma hget_in_set: "hget m k = Some v \<Longrightarrow> (k, v) \<in> set m"
  by (rule map_of_SomeD)

lemma hget_iff_mem: "hwf m \<Longrightarrow> hget m k = Some v \<longleftrightarrow> (k, v) \<in> set m"
  by auto

lemma hvals_iff: "hwf m \<Longrightarrow> v \<in> set (hvals m) \<longleftrightarrow> (\<exists>k. hget m k = Some v)"
  by (force simp: hvals_def)

lemma set_hdel: "set (hdel k m) = {p \<in> set m. fst p \<noteq> k}"
  by (induction m) (auto simp: hdel_def)

lemma set_hput_subset: "set (hput k v m) \<subseteq> insert (k, v) (set m)"
  by (induction m) (auto simp: hput_def)

lemma length_hput_fresh: "hget m k = None \<Longrightarrow> length (hput k v m) = Suc (length m)"
  by (induction m) (auto simp: hput_def split: if_splits)

lemma length_hput_old: "hget m k = Some w \<Longrightarrow> length (hput k v m) = length m"
  by (induction m) (auto simp: hput_def split: if_splits)

lemma length_hdel_le: "length (hdel k m) \<le> length m"
  by (simp add: hdel_def length_delete_le)

lemma hdel_fresh: "hget m k = None \<Longrightarrow> hdel k m = m"
  by (induction m) (auto simp: hdel_def split: if_splits)

lemma length_hdel_old: "hwf m \<Longrightarrow> hget m k = Some v \<Longrightarrow> Suc (length (hdel k m)) = length m"
proof (induction m)
  case (Cons p m)
  show ?case
  proof (cases "fst p = k")
    case True
    with Cons.prems have "hget m k = None"
      by (auto simp: map_of_eq_None_iff)
    with True show ?thesis by (cases p) (simp add: hdel_def hdel_fresh [unfolded hdel_def])
  next
    case False
    with Cons show ?thesis by (cases p) (auto simp: hdel_def)
  qed
qed simp

text \<open>Counting the values of a map under one insertion.\<close>

definition hcount :: "('v \<Rightarrow> bool) \<Rightarrow> ('k, 'v) hmap \<Rightarrow> nat" where
  "hcount P m = length (filter P (hvals m))"

lemma hput_same: "hget m k = Some v \<Longrightarrow> hput k v m = m"
  by (induction m) (auto simp: hput_def split: if_splits)

lemma hcount_hput_new:
  "hget m k = None \<Longrightarrow> hcount P (hput k v m) = hcount P m + (if P v then 1 else 0)"
  by (induction m) (auto simp: hcount_def hput_def hvals_def split: if_splits)

lemma hcount_hput_old:
  "hget m k = Some w \<Longrightarrow>
   hcount P (hput k v m) + (if P w then 1 else 0) = hcount P m + (if P v then 1 else 0)"
  by (induction m) (auto simp: hcount_def hput_def hvals_def split: if_splits)

lemma hget_Nil [simp]: "hget [] k = None"
  by simp

text \<open>Results: a fallible operation on a state gives an error or a value.\<close>

abbreviation Err :: "'e \<Rightarrow> 'e + 'a" where "Err \<equiv> Inl"
abbreviation Ok :: "'a \<Rightarrow> 'e + 'a" where "Ok \<equiv> Inr"

definition unwrap_or :: "'a option \<Rightarrow> 'a \<Rightarrow> 'a" where
  "unwrap_or x d = (case x of None \<Rightarrow> d | Some v \<Rightarrow> v)"

lemma unwrap_or_simps [simp]: "unwrap_or None d = d" "unwrap_or (Some v) d = v"
  by (simp_all add: unwrap_or_def)

text \<open>\<open>str::contains\<close>: the needle is a contiguous part of the haystack.\<close>

fun str_prefix :: "string \<Rightarrow> string \<Rightarrow> bool" where
  "str_prefix [] ys = True"
| "str_prefix (x # xs) [] = False"
| "str_prefix (x # xs) (y # ys) = (x = y \<and> str_prefix xs ys)"

fun str_contains :: "string \<Rightarrow> string \<Rightarrow> bool" where
  "str_contains [] pat = str_prefix pat []"
| "str_contains (y # ys) pat = (str_prefix pat (y # ys) \<or> str_contains ys pat)"

lemma str_prefix_iff: "str_prefix xs ys \<longleftrightarrow> (\<exists>zs. ys = xs @ zs)"
  by (induction xs ys rule: str_prefix.induct) auto

lemma str_contains_iff: "str_contains ys pat \<longleftrightarrow> (\<exists>us vs. ys = us @ pat @ vs)"
proof (induction ys)
  case Nil
  show ?case by (auto simp: str_prefix_iff)
next
  case (Cons y ys)
  have "(\<exists>us vs. y # ys = us @ pat @ vs) \<longleftrightarrow>
      (\<exists>vs. y # ys = pat @ vs) \<or> (\<exists>us vs. ys = us @ pat @ vs)"
    by (auto simp: Cons_eq_append_conv)
  with Cons.IH show ?case by (simp add: str_prefix_iff)
qed

text \<open>A secondary index: \<open>m\<close> maps a key to the record that carries it, and to nothing else.\<close>

definition index_ok :: "('l \<rightharpoonup> 'r) \<Rightarrow> ('r \<Rightarrow> 'c option) \<Rightarrow> ('c \<rightharpoonup> 'l) \<Rightarrow> bool" where
  "index_ok recs key m \<longleftrightarrow> (\<forall>c l. m c = Some l \<longleftrightarrow> (\<exists>r. recs l = Some r \<and> key r = Some c))"

lemma index_okD: "index_ok recs key m \<Longrightarrow> m c = Some l \<Longrightarrow> \<exists>r. recs l = Some r \<and> key r = Some c"
  by (simp add: index_ok_def)

lemma index_okI: "index_ok recs key m \<Longrightarrow> recs l = Some r \<Longrightarrow> key r = Some c \<Longrightarrow> m c = Some l"
  by (auto simp: index_ok_def)

lemma index_ok_new:
  assumes "index_ok recs key m" "recs l = None" "key r = Some c" "m c = None"
  shows "index_ok (recs(l \<mapsto> r)) key (m(c \<mapsto> l))"
proof -
  have "key r' \<noteq> Some c" if "recs l' = Some r'" for l' r'
    using index_okI [OF assms(1) that] assms(4) by auto
  moreover have "l' \<noteq> l" if "m c' = Some l'" for c' l'
    using index_okD [OF assms(1) that] assms(2) by auto
  ultimately show ?thesis
    using assms by (simp add: index_ok_def)
qed

lemma index_ok_add:
  assumes "index_ok recs key m" "recs l = None" "key r = None"
  shows "index_ok (recs(l \<mapsto> r)) key m"
proof -
  have "l' \<noteq> l" if "m c' = Some l'" for c' l'
    using index_okD [OF assms(1) that] assms(2) by auto
  then show ?thesis using assms by (simp add: index_ok_def)
qed

lemma index_ok_same:
  "index_ok recs key m \<Longrightarrow> recs l = Some r \<Longrightarrow> key r' = key r \<Longrightarrow> index_ok (recs(l \<mapsto> r')) key m"
  by (simp add: index_ok_def)

lemma index_ok_bind:
  assumes "index_ok recs key m" "recs l = Some r" "key r = None" "key r' = Some c" "m c = None"
  shows "index_ok (recs(l \<mapsto> r')) key (m(c \<mapsto> l))"
proof -
  have "key x \<noteq> Some c" if "recs l' = Some x" for l' x
    using index_okI [OF assms(1) that] assms(5) by auto
  moreover have "l' \<noteq> l" if "m c' = Some l'" for c' l'
    using index_okD [OF assms(1) that] assms(2,3) by auto
  ultimately show ?thesis
    using assms by (simp add: index_ok_def)
qed

text \<open>A left fold that keeps a predicate of its state.\<close>

lemma foldl_invariant:
  assumes "P s" and "\<And>s x. x \<in> set xs \<Longrightarrow> P s \<Longrightarrow> P (f s x)"
  shows "P (foldl f s xs)"
  using assms by (induction xs arbitrary: s) auto

end
