(* ===== verification/F64.thy ===== *)
theory F64
  imports Prelude
begin

text \<open>
  The IEEE-754 binary64 numbers behind Rust's \<open>f64\<close>, executable: a value is not-a-number, an
  infinity or a finite rational, and every arithmetic operation computes the exact rational
  result and rounds it to nearest, ties to even, with gradual underflow (52 fraction bits, least
  exponent -1074) and overflow to an infinity at \<open>2 ^ 1024\<close>.  The two zeros are identified: the
  sign of a zero can be seen only by dividing a number by it or reading its bits, and a zero
  divisor is read as \<open>+0.0\<close> here.  \<open>f64_ok\<close> says that a finite value is one binary64 can
  hold; every operation returns such values (\<open>f64_ok_ops\<close>).

  The laws of rounding that the components use (monotone, odd, idempotent) are the locale
  \<open>rounding\<close>, interpreted here on \<open>rnd\<close>.
\<close>

section \<open>Rounding a rational to 53 significant bits\<close>

fun blen :: "nat \<Rightarrow> nat" where
  "blen 0 = 0"
| "blen (Suc n) = Suc (blen (Suc n div 2))"

definition ilog2 :: "rat \<Rightarrow> int" where
  "ilog2 q = (let (n, d) = quotient_of q; k = int (blen (nat n)) - int (blen (nat d))
     in if 2 powi k \<le> q then k else k - 1)"

definition rne :: "rat \<Rightarrow> int" where
  "rne x = (let f = \<lfloor>x\<rfloor>; r = x - of_int f in
     if r < 1 / 2 then f else if 1 / 2 < r then f + 1 else if even f then f else f + 1)"

definition uexp :: "rat \<Rightarrow> int" where
  "uexp q = max (ilog2 \<bar>q\<bar> - 52) (- 1074)"

definition rnd :: "rat \<Rightarrow> rat" where
  "rnd q = (if q = 0 then 0 else of_int (rne (q / 2 powi uexp q)) * 2 powi uexp q)"

subsection \<open>Binary logarithm\<close>

lemma blen_upper: "n < 2 ^ blen n"
proof (induction n rule: blen.induct)
  case (2 n)
  then show ?case by simp
qed simp

lemma blen_lower: "0 < n \<Longrightarrow> 2 ^ (blen n - 1) \<le> n"
proof (induction n rule: blen.induct)
  case (2 n)
  show ?case
  proof (cases "Suc n div 2 = 0")
    case False
    then have "0 < Suc n div 2" by simp
    with "2.IH" have ih: "2 ^ (blen (Suc n div 2) - 1) \<le> Suc n div 2" .
    have "blen (Suc n div 2) \<noteq> 0"
      using False blen_upper [of "Suc n div 2"] by (cases "blen (Suc n div 2)") auto
    then have "(2::nat) ^ blen (Suc n div 2) = 2 * 2 ^ (blen (Suc n div 2) - 1)"
      by (cases "blen (Suc n div 2)") auto
    with ih show ?thesis by simp
  qed auto
qed simp

lemma powi_pos [simp]: "0 < (2::rat) powi k"
  by (simp add: zero_less_power_int)

lemma powi_Suc: "(2::rat) powi (k + 1) = 2 * 2 powi k"
  by (simp add: power_int_add)

lemma powi_mono: "j \<le> k \<Longrightarrow> (2::rat) powi j \<le> 2 powi k"
  by (rule power_int_increasing) auto

lemma powi_diff: "(2::rat) powi j / 2 powi k = 2 powi (j - k)"
  by (simp add: power_int_diff)

lemma powi_less_cancel: "(2::rat) powi j < 2 powi k \<Longrightarrow> j < k"
  using powi_mono [of k j] by (meson linorder_not_less)

lemma powi_nonneg_int: "0 \<le> k \<Longrightarrow> (2::rat) powi k = of_int (2 ^ nat k)"
  by (simp add: power_int_def)

lemma ilog2_spec:
  assumes "0 < q"
  shows "2 powi ilog2 q \<le> q" and "q < 2 powi (ilog2 q + 1)"
proof -
  obtain n d where qd: "quotient_of q = (n, d)" by fastforce
  have d: "0 < d" using quotient_of_denom_pos [OF qd] .
  have q: "q = of_int n / of_int d" using quotient_of_div [OF qd] .
  have n: "0 < n" using assms d by (simp add: q zero_less_divide_iff)
  let ?a = "int (blen (nat n))" and ?b = "int (blen (nat d))"
  have bnd: "2 powi (int (blen m) - 1) \<le> (of_nat m :: rat) \<and> (of_nat m :: rat) < 2 powi int (blen m)"
    if "0 < m" for m
  proof -
    have "blen m \<noteq> 0" using blen_upper [of m] that by (cases "blen m") auto
    then have "(2::rat) powi (int (blen m) - 1) = of_nat (2 ^ (blen m - 1))"
      by (simp add: power_int_def nat_diff_distrib)
    moreover have "(2::rat) powi int (blen m) = of_nat (2 ^ blen m)" by simp
    ultimately show ?thesis
      using blen_lower [OF that] blen_upper [of m] by (simp only: of_nat_le_iff of_nat_less_iff)
  qed
  have nb: "2 powi (?a - 1) \<le> (of_int n :: rat)" "(of_int n :: rat) < 2 powi ?a"
    using bnd [of "nat n"] n by auto
  have db: "2 powi (?b - 1) \<le> (of_int d :: rat)" "(of_int d :: rat) < 2 powi ?b"
    using bnd [of "nat d"] d by auto
  have up: "q < 2 powi (?a - ?b + 1)"
  proof -
    have "q \<le> of_int n / 2 powi (?b - 1)"
      unfolding q using n d db(1) by (intro divide_left_mono) auto
    also have "\<dots> < 2 powi ?a / 2 powi (?b - 1)"
      using nb(2) by (rule divide_strict_right_mono) simp
    finally have "q < 2 powi ?a / 2 powi (?b - 1)" .
    moreover have "?a - (?b - 1) = ?a - ?b + 1" by simp
    ultimately show ?thesis by (simp only: powi_diff)
  qed
  have lo: "2 powi (?a - ?b - 1) \<le> q"
  proof -
    have "2 powi (?a - 1) / 2 powi ?b \<le> of_int n / (2 powi ?b :: rat)"
      using nb(1) by (rule divide_right_mono) simp
    also have "\<dots> \<le> q" unfolding q using n d db(2) by (intro divide_left_mono) auto
    finally have "2 powi (?a - 1) / 2 powi ?b \<le> q" .
    moreover have "?a - 1 - ?b = ?a - ?b - 1" by simp
    ultimately show ?thesis by (simp only: powi_diff)
  qed
  show "2 powi ilog2 q \<le> q" and "q < 2 powi (ilog2 q + 1)"
    using up lo by (auto simp: ilog2_def qd Let_def)
qed

lemma ilog2_mono:
  assumes "0 < p" "p \<le> q"
  shows "ilog2 p \<le> ilog2 q"
proof -
  have "2 powi ilog2 p \<le> p" by (rule ilog2_spec) fact
  also have "\<dots> \<le> q" by fact
  also have "\<dots> < 2 powi (ilog2 q + 1)" using assms by (intro ilog2_spec) auto
  finally show ?thesis by (drule_tac powi_less_cancel) simp
qed

lemma ilog2_eqI:
  assumes "2 powi k \<le> q" "q < 2 powi (k + 1)"
  shows "ilog2 q = k"
proof -
  have "0 < q" using assms(1) powi_pos less_le_trans by blast
  note s = ilog2_spec [OF this]
  have "(2::rat) powi k < 2 powi (ilog2 q + 1)" using assms(1) s(2) by simp
  moreover have "(2::rat) powi ilog2 q < 2 powi (k + 1)" using assms(2) s(1) by simp
  ultimately show ?thesis by (auto dest!: powi_less_cancel)
qed

subsection \<open>Nearest integer, ties to even\<close>

lemma rne_of_int [simp]: "rne (of_int n) = n"
  by (simp add: rne_def)

lemma rne_mono: "x \<le> y \<Longrightarrow> rne x \<le> rne y"
proof -
  assume le: "x \<le> y"
  then have fl: "\<lfloor>x\<rfloor> \<le> \<lfloor>y\<rfloor>" by (rule floor_mono)
  show ?thesis
  proof (cases "\<lfloor>x\<rfloor> = \<lfloor>y\<rfloor>")
    case True
    with le show ?thesis by (auto simp: rne_def Let_def)
  next
    case False
    with fl have "\<lfloor>x\<rfloor> + 1 \<le> \<lfloor>y\<rfloor>" by simp
    then show ?thesis by (auto simp: rne_def Let_def)
  qed
qed

lemma rne_minus: "rne (- x) = - rne x"
proof (cases "x = of_int \<lfloor>x\<rfloor>")
  case True
  then have "rne (- x) = rne (of_int (- \<lfloor>x\<rfloor>))" by simp
  also have "\<dots> = - rne (of_int \<lfloor>x\<rfloor>)" by (simp only: rne_of_int)
  finally show ?thesis using True by simp
next
  case False
  define f where "f = \<lfloor>x\<rfloor>"
  have lt: "of_int f < x" using False of_int_floor_le [of x] unfolding f_def by linarith
  have gt: "x < of_int f + 1" unfolding f_def by linarith
  have fx: "\<lfloor>x\<rfloor> = f" by (simp add: f_def)
  have fm: "\<lfloor>- x\<rfloor> = - f - 1" by (rule floor_unique) (use lt gt in simp_all)
  show ?thesis unfolding rne_def Let_def fx fm using lt gt by auto
qed

lemma rne_error: "\<bar>of_int (rne x) - x\<bar> \<le> 1 / 2"
proof -
  define f where "f = \<lfloor>x\<rfloor>"
  have "of_int f \<le> x" "x < of_int f + 1" unfolding f_def by linarith+
  then show ?thesis by (auto simp: rne_def Let_def abs_if simp flip: f_def)
qed

lemma rne_le: "x \<le> of_int n \<Longrightarrow> rne x \<le> n"
  using rne_mono [of x "of_int n"] by simp

lemma rne_ge: "of_int n \<le> x \<Longrightarrow> n \<le> rne x"
  using rne_mono [of "of_int n" x] by simp

subsection \<open>Laws of rounding\<close>

lemma uexp_minus [simp]: "uexp (- q) = uexp q"
  by (simp add: uexp_def)

lemma rnd_0 [simp]: "rnd 0 = 0"
  by (simp add: rnd_def)

lemma rnd_minus: "rnd (- q) = - rnd q"
proof -
  have "rne (- (q / 2 powi uexp q)) = - rne (q / 2 powi uexp q)" by (rule rne_minus)
  then show ?thesis by (simp add: rnd_def)
qed

lemma rnd_fixI:
  assumes "q = of_int m * 2 powi uexp q"
  shows "rnd q = q"
proof (cases "q = 0")
  case False
  have "q / 2 powi uexp q = of_int m" by (subst assms) simp
  with False assms show ?thesis by (simp add: rnd_def)
qed simp

lemma rnd_dyadic:
  assumes q: "q = of_int m * 2 powi e" and m: "\<bar>m\<bar> \<le> 2 ^ 53" and e: "- 1074 \<le> e"
  shows "rnd q = q"
proof (cases "q = 0")
  case False
  have pos: "0 < \<bar>q\<bar>" using False by simp
  have absq: "\<bar>q\<bar> = of_int \<bar>m\<bar> * 2 powi e" by (simp add: q abs_mult)
  have "\<exists>m'. q = of_int m' * 2 powi uexp q"
  proof (cases "\<bar>m\<bar> < 2 ^ 53")
    case True
    have "\<bar>q\<bar> < of_int (2 ^ 53) * 2 powi e"
      unfolding absq using True by (intro mult_strict_right_mono) (simp_all only: of_int_less_iff powi_pos)
    also have "\<dots> = 2 powi (53 + e)" by (simp add: power_int_add)
    finally have "2 powi ilog2 \<bar>q\<bar> < (2::rat) powi (53 + e)"
      using ilog2_spec(1) [OF pos] by simp
    then have "ilog2 \<bar>q\<bar> \<le> 52 + e" by (auto dest!: powi_less_cancel)
    then have u: "uexp q \<le> e" using e by (simp add: uexp_def)
    have "(2::rat) powi e = 2 powi (e - uexp q) * 2 powi uexp q"
      by (simp flip: power_int_add)
    also have "(2::rat) powi (e - uexp q) = of_int (2 ^ nat (e - uexp q))"
      using u by (intro powi_nonneg_int) simp
    finally have "q = of_int (m * 2 ^ nat (e - uexp q)) * 2 powi uexp q" by (simp add: q)
    then show ?thesis by blast
  next
    case False
    with m have m53: "\<bar>m\<bar> = 2 ^ 53" by simp
    have "\<bar>q\<bar> = 2 powi (53 + e)" unfolding absq m53 by (simp add: power_int_add)
    then have "ilog2 \<bar>q\<bar> = 53 + e" by (intro ilog2_eqI) (simp_all add: power_int_strict_increasing)
    then have u: "uexp q = e + 1" using e by (simp add: uexp_def)
    have "m = sgn m * 2 * 2 ^ 52" using m53 by (simp add: sgn_if abs_if split: if_splits)
    then have "q = of_int (sgn m * 2 ^ 52) * 2 powi (e + 1)"
      unfolding q powi_Suc by (simp add: sgn_if)
    then show ?thesis unfolding u by blast
  qed
  then obtain m' where "q = of_int m' * 2 powi uexp q" ..
  then show ?thesis by (rule rnd_fixI)
qed simp

lemma rnd_idem: "rnd (rnd q) = rnd q"
proof (cases "q = 0")
  case False
  let ?u = "uexp q"
  have pos: "0 < \<bar>q\<bar>" using False by simp
  have "\<bar>q\<bar> < 2 powi (ilog2 \<bar>q\<bar> + 1)" by (rule ilog2_spec) (rule pos)
  also have "\<dots> \<le> 2 powi (53 + ?u)" by (rule powi_mono) (simp add: uexp_def)
  finally have "\<bar>q\<bar> / 2 powi ?u \<le> 2 powi (53 + ?u) / 2 powi ?u"
    by (intro divide_right_mono) simp_all
  then have b: "\<bar>q / 2 powi ?u\<bar> \<le> of_int (2 ^ 53)" by (simp add: power_int_add abs_divide)
  have "rne (q / 2 powi ?u) \<le> 2 ^ 53" using b by (intro rne_le) linarith
  moreover have "- (2 ^ 53) \<le> rne (q / 2 powi ?u)"
  proof (rule rne_ge)
    have "- of_int (2 ^ 53) \<le> q / 2 powi ?u" using b by linarith
    then show "of_int (- (2 ^ 53)) \<le> q / 2 powi ?u" by (simp only: of_int_minus)
  qed
  ultimately have "\<bar>rne (q / 2 powi ?u)\<bar> \<le> 2 ^ 53" by linarith
  moreover have "- 1074 \<le> ?u" by (simp add: uexp_def)
  ultimately show ?thesis
    using False by (intro rnd_dyadic [of _ "rne (q / 2 powi ?u)" ?u]) (simp_all add: rnd_def)
qed simp

lemma rnd_nonneg_aux:
  assumes "0 \<le> q"
  shows "0 \<le> rnd q"
proof -
  have "0 \<le> rne (q / 2 powi uexp q)" by (rule rne_ge) (simp add: assms)
  then show ?thesis by (simp add: rnd_def)
qed

lemma rnd_mono_pos:
  assumes p: "0 < p" and pq: "p \<le> q"
  shows "rnd p \<le> rnd q"
proof (cases "uexp p = uexp q")
  case True
  have "rne (p / 2 powi uexp q) \<le> rne (q / 2 powi uexp q)"
    using pq by (intro rne_mono divide_right_mono) simp_all
  then show ?thesis using p pq True by (simp add: rnd_def)
next
  case False
  have q: "0 < q" using p pq by simp
  have il: "ilog2 p \<le> ilog2 q" using p pq by (rule ilog2_mono)
  with False p q have lt: "ilog2 p + 1 \<le> ilog2 q" and uq: "uexp q = ilog2 q - 52"
    and up: "uexp p \<le> ilog2 q - 53"
    by (auto simp: uexp_def split: if_splits)
  let ?b = "(2::rat) powi ilog2 q"
  have "p < 2 powi (ilog2 p + 1)" by (rule ilog2_spec) (rule p)
  also have "\<dots> \<le> ?b" using lt by (rule powi_mono)
  finally have "p / 2 powi uexp p \<le> ?b / 2 powi uexp p" by (intro divide_right_mono) simp_all
  also have "\<dots> = of_int (2 ^ nat (ilog2 q - uexp p))"
    unfolding powi_diff using up by (intro powi_nonneg_int) simp
  finally have "rne (p / 2 powi uexp p) \<le> 2 ^ nat (ilog2 q - uexp p)" by (rule rne_le)
  then have "of_int (rne (p / 2 powi uexp p)) * (2::rat) powi uexp p
      \<le> of_int (2 ^ nat (ilog2 q - uexp p)) * 2 powi uexp p"
    by (intro mult_right_mono) (simp_all only: of_int_le_iff less_imp_le powi_pos)
  then have "rnd p \<le> of_int (2 ^ nat (ilog2 q - uexp p)) * 2 powi uexp p"
    using p by (simp add: rnd_def)
  also have "\<dots> = 2 powi (ilog2 q - uexp p) * 2 powi uexp p"
    using up by (subst powi_nonneg_int) simp_all
  also have "\<dots> = ?b" by (simp flip: power_int_add)
  finally have a: "rnd p \<le> ?b" .
  have "of_int (2 ^ 52) = ?b / 2 powi uexp q" unfolding uq powi_diff by simp
  also have "\<dots> \<le> q / 2 powi uexp q" using ilog2_spec(1) [OF q] by (intro divide_right_mono) simp_all
  finally have "2 ^ 52 \<le> rne (q / 2 powi uexp q)" by (rule rne_ge)
  then have "of_int (2 ^ 52) * (2::rat) powi uexp q \<le> of_int (rne (q / 2 powi uexp q)) * 2 powi uexp q"
    by (intro mult_right_mono) (simp_all only: of_int_le_iff less_imp_le powi_pos)
  then have "of_int (2 ^ 52) * 2 powi uexp q \<le> rnd q" using q by (simp add: rnd_def)
  moreover have "of_int (2 ^ 52) * 2 powi uexp q = ?b" unfolding uq by (simp add: power_int_diff)
  ultimately show ?thesis using a by simp
qed

lemma rnd_mono: "p \<le> q \<Longrightarrow> rnd p \<le> rnd q"
proof -
  assume le: "p \<le> q"
  consider "0 < p" | "p \<le> 0" "0 \<le> q" | "q < 0" by linarith
  then show ?thesis
  proof cases
    case 1
    then show ?thesis using le by (rule rnd_mono_pos)
  next
    case 2
    then have "0 \<le> rnd (- p)" "0 \<le> rnd q" by (auto intro: rnd_nonneg_aux)
    then show ?thesis by (simp add: rnd_minus)
  next
    case 3
    then have "rnd (- q) \<le> rnd (- p)" using le by (intro rnd_mono_pos) auto
    then show ?thesis by (simp add: rnd_minus)
  qed
qed

text \<open>The relative error of one rounding in the normal range is at most \<open>2 ^ -53\<close>.\<close>

lemma rnd_error_abs: "\<bar>rnd q - q\<bar> \<le> 2 powi uexp q / 2"
proof (cases "q = 0")
  case False
  let ?u = "(2::rat) powi uexp q"
  have "rnd q - q = (of_int (rne (q / ?u)) - q / ?u) * ?u"
    using False by (simp add: rnd_def algebra_simps)
  then have "\<bar>rnd q - q\<bar> = \<bar>of_int (rne (q / ?u)) - q / ?u\<bar> * ?u" by (simp add: abs_mult)
  also have "\<dots> \<le> 1 / 2 * ?u" by (intro mult_right_mono rne_error) simp
  finally show ?thesis by simp
qed simp

lemma rnd_error_rel:
  assumes "2 powi (- 1022) \<le> \<bar>q\<bar>"
  shows "\<bar>rnd q - q\<bar> \<le> 2 powi (- 53) * \<bar>q\<bar>"
proof -
  have pos: "0 < \<bar>q\<bar>" using assms powi_pos less_le_trans by blast
  have "(2::rat) powi (- 1022) < 2 powi (ilog2 \<bar>q\<bar> + 1)"
    using assms ilog2_spec(2) [OF pos] by (rule le_less_trans)
  then have "- 1022 < ilog2 \<bar>q\<bar> + 1" by (rule powi_less_cancel)
  then have "uexp q = ilog2 \<bar>q\<bar> - 52" by (simp add: uexp_def)
  then have "2 powi uexp q / 2 = (2::rat) powi (- 53) * 2 powi ilog2 \<bar>q\<bar>"
    by (simp add: power_int_diff power_int_minus)
  also have "\<dots> \<le> 2 powi (- 53) * \<bar>q\<bar>" by (intro mult_left_mono ilog2_spec(1) pos) simp
  finally show ?thesis using rnd_error_abs [of q] by simp
qed

section \<open>The interface of a rounding\<close>

locale rounding =
  fixes rd :: "rat \<Rightarrow> rat"
  assumes mono: "p \<le> q \<Longrightarrow> rd p \<le> rd q"
    and odd: "rd (- q) = - rd q"
    and idem: "rd (rd q) = rd q"
begin

lemma zero: "rd 0 = 0"
  using odd [of 0] by simp

lemma nonneg: "0 \<le> q \<Longrightarrow> 0 \<le> rd q"
  using mono [of 0 q] by (simp add: zero)

lemma nonpos: "q \<le> 0 \<Longrightarrow> rd q \<le> 0"
  using mono [of q 0] by (simp add: zero)

lemma le_fix: "rd a = a \<Longrightarrow> q \<le> a \<Longrightarrow> rd q \<le> a"
  using mono [of q a] by simp

lemma ge_fix: "rd a = a \<Longrightarrow> a \<le> q \<Longrightarrow> a \<le> rd q"
  using mono [of a q] by simp

lemma sub_between: "rd a = a \<Longrightarrow> 0 \<le> b \<Longrightarrow> b \<le> a \<Longrightarrow> 0 \<le> rd (a - b) \<and> rd (a - b) \<le> a"
  by (simp add: nonneg le_fix)

lemma add_ge: "rd a = a \<Longrightarrow> 0 \<le> b \<Longrightarrow> a \<le> rd (a + b)"
  by (simp add: ge_fix)

lemma sub_le: "rd a = a \<Longrightarrow> 0 \<le> b \<Longrightarrow> rd (a - b) \<le> a"
  by (simp add: le_fix)

lemma abs_fix: "rd a = a \<Longrightarrow> rd \<bar>a\<bar> = \<bar>a\<bar>"
  by (simp add: abs_if odd)

lemma neg_fix: "rd a = a \<Longrightarrow> rd (- a) = - a"
  by (simp add: odd)

end

interpretation rnd: rounding rnd
  by unfold_locales (auto intro: rnd_mono simp: rnd_minus rnd_idem)

section \<open>The operations\<close>

datatype f64 = NaN | NegInf | PosInf | Fin rat

definition f_of :: "rat \<Rightarrow> f64" where
  "f_of q = (let r = rnd q in if 2 ^ 1024 \<le> r then PosInf else if r \<le> - (2 ^ 1024) then NegInf else Fin r)"

fun fneg :: "f64 \<Rightarrow> f64" where
  "fneg NaN = NaN"
| "fneg NegInf = PosInf"
| "fneg PosInf = NegInf"
| "fneg (Fin a) = Fin (- a)"

fun fadd :: "f64 \<Rightarrow> f64 \<Rightarrow> f64" where
  "fadd (Fin a) (Fin b) = f_of (a + b)"
| "fadd NaN y = NaN"
| "fadd x NaN = NaN"
| "fadd PosInf NegInf = NaN"
| "fadd NegInf PosInf = NaN"
| "fadd PosInf y = PosInf"
| "fadd NegInf y = NegInf"
| "fadd x y = y"

definition fsub :: "f64 \<Rightarrow> f64 \<Rightarrow> f64" where
  "fsub x y = fadd x (fneg y)"

definition inf_of :: "rat \<Rightarrow> f64" where
  "inf_of s = (if 0 < s then PosInf else if s < 0 then NegInf else NaN)"

fun fmul :: "f64 \<Rightarrow> f64 \<Rightarrow> f64" where
  "fmul (Fin a) (Fin b) = f_of (a * b)"
| "fmul NaN y = NaN"
| "fmul x NaN = NaN"
| "fmul PosInf (Fin b) = inf_of b"
| "fmul NegInf (Fin b) = inf_of (- b)"
| "fmul (Fin a) PosInf = inf_of a"
| "fmul (Fin a) NegInf = inf_of (- a)"
| "fmul PosInf y = y"
| "fmul NegInf y = fneg y"

fun fdiv :: "f64 \<Rightarrow> f64 \<Rightarrow> f64" where
  "fdiv (Fin a) (Fin b) = (if b = 0 then inf_of a else f_of (a / b))"
| "fdiv NaN y = NaN"
| "fdiv x NaN = NaN"
| "fdiv (Fin a) y = Fin 0"
| "fdiv PosInf (Fin b) = (if 0 \<le> b then PosInf else NegInf)"
| "fdiv NegInf (Fin b) = (if 0 \<le> b then NegInf else PosInf)"
| "fdiv x y = NaN"

fun fabs :: "f64 \<Rightarrow> f64" where
  "fabs NaN = NaN"
| "fabs NegInf = PosInf"
| "fabs PosInf = PosInf"
| "fabs (Fin a) = Fin \<bar>a\<bar>"

fun fle :: "f64 \<Rightarrow> f64 \<Rightarrow> bool" where
  "fle (Fin a) (Fin b) = (a \<le> b)"
| "fle NaN y = False"
| "fle x NaN = False"
| "fle NegInf y = True"
| "fle x PosInf = True"
| "fle x y = False"

fun flt :: "f64 \<Rightarrow> f64 \<Rightarrow> bool" where
  "flt (Fin a) (Fin b) = (a < b)"
| "flt NaN y = False"
| "flt x NaN = False"
| "flt NegInf NegInf = False"
| "flt NegInf y = True"
| "flt PosInf y = False"
| "flt x PosInf = True"
| "flt x y = False"

definition feq :: "f64 \<Rightarrow> f64 \<Rightarrow> bool" where
  "feq x y \<longleftrightarrow> x \<noteq> NaN \<and> x = y"

text \<open>\<open>f64::max\<close> and \<open>f64::min\<close> return the other operand when one is not a number.\<close>

definition fmax :: "f64 \<Rightarrow> f64 \<Rightarrow> f64" where
  "fmax x y = (if x = NaN then y else if y = NaN then x else if flt x y then y else x)"

definition fmin :: "f64 \<Rightarrow> f64 \<Rightarrow> f64" where
  "fmin x y = (if x = NaN then y else if y = NaN then x else if flt y x then y else x)"

definition f0 :: f64 where "f0 = Fin 0"
definition f1 :: f64 where "f1 = Fin 1"
definition f100 :: f64 where "f100 = Fin 100"
definition f_epsilon :: f64 where "f_epsilon = Fin (2 powi (- 52))"

text \<open>A decimal literal is the nearest double; \<open>as f64\<close> of an integer likewise.\<close>

abbreviation f_lit :: "rat \<Rightarrow> f64" where "f_lit \<equiv> f_of"
definition f_int :: "int \<Rightarrow> f64" where "f_int n = f_of (of_int n)"

definition is_finite :: "f64 \<Rightarrow> bool" where
  "is_finite x \<longleftrightarrow> (case x of Fin _ \<Rightarrow> True | _ \<Rightarrow> False)"

definition fsum :: "f64 list \<Rightarrow> f64" where
  "fsum xs = foldl fadd f0 xs"

fun f64_ok :: "f64 \<Rightarrow> bool" where
  "f64_ok (Fin a) = (rnd a = a \<and> \<bar>a\<bar> < 2 ^ 1024)"
| "f64_ok x = True"

section \<open>Lemmas for the components\<close>

lemma is_finite_simps [simp]:
  "is_finite (Fin a)" "\<not> is_finite NaN" "\<not> is_finite PosInf" "\<not> is_finite NegInf"
  by (simp_all add: is_finite_def)

lemma is_finiteE: "is_finite x \<Longrightarrow> (\<And>a. x = Fin a \<Longrightarrow> P) \<Longrightarrow> P"
  by (cases x) auto

lemma f64_ok_f_of [simp]: "f64_ok (f_of q)"
  by (auto simp: f_of_def Let_def rnd_idem abs_if)

lemma f64_ok_neg [simp]: "f64_ok (fneg x) = f64_ok x"
  by (cases x) (auto simp: rnd_minus)

lemma f64_ok_inf_of [simp]: "f64_ok (inf_of q)"
  by (simp add: inf_of_def)

lemma f64_ok_fabs [simp]: "f64_ok x \<Longrightarrow> f64_ok (fabs x)"
  by (cases x) (auto simp: rnd.abs_fix)

lemma f64_ok_fadd [simp]: "f64_ok (fadd (Fin a) (Fin b))"
  by simp

lemma f64_ok_fadd' [simp]: "f64_ok x \<Longrightarrow> f64_ok y \<Longrightarrow> f64_ok (fadd x y)"
  by (cases x; cases y) auto

lemma f64_ok_fsub [simp]: "f64_ok x \<Longrightarrow> f64_ok y \<Longrightarrow> f64_ok (fsub x y)"
  by (simp add: fsub_def)

lemma f64_ok_fmul [simp]: "f64_ok x \<Longrightarrow> f64_ok y \<Longrightarrow> f64_ok (fmul x y)"
  by (cases x; cases y) auto

lemma f64_ok_fdiv [simp]: "f64_ok x \<Longrightarrow> f64_ok y \<Longrightarrow> f64_ok (fdiv x y)"
  by (cases x; cases y) auto

lemma f64_ok_fmax [simp]: "f64_ok x \<Longrightarrow> f64_ok y \<Longrightarrow> f64_ok (fmax x y)"
  by (simp add: fmax_def)

lemma f64_ok_fmin [simp]: "f64_ok x \<Longrightarrow> f64_ok y \<Longrightarrow> f64_ok (fmin x y)"
  by (simp add: fmin_def)

lemma f64_ok_consts [simp]: "f64_ok f0" "f64_ok f1" "f64_ok f100" "f64_ok f_epsilon" "f64_ok (f_int n)"
  by (simp_all add: f0_def f1_def f100_def f_epsilon_def f_int_def
    rnd_dyadic [of 1 1 0] rnd_dyadic [of 100 100 0] rnd_dyadic [of _ 1 "- 52"])

text \<open>Small dyadic numbers are exact, so that closed terms evaluate.\<close>

lemma rnd_numeral [simp]:
  "(numeral n :: int) \<le> 2 ^ 53 \<Longrightarrow> rnd (numeral n) = numeral n"
  by (rule rnd_dyadic [of _ "numeral n" 0]) simp_all

lemma rnd_1 [simp]: "rnd 1 = 1"
  by (rule rnd_dyadic [of _ 1 0]) simp_all

lemma rnd_neg [simp]: "rnd (- q) = - rnd q"
  by (rule rnd_minus)

lemma f_of_rep: "rnd q = q \<Longrightarrow> \<bar>q\<bar> < 2 ^ 1024 \<Longrightarrow> f_of q = Fin q"
  by (auto simp: f_of_def Let_def abs_less_iff)

lemma f_of_0 [simp]: "f_of 0 = Fin 0"
  by (simp add: f_of_rep)

lemma f_of_1 [simp]: "f_of 1 = Fin 1"
  by (simp add: f_of_rep)

lemma f_of_numeral [simp]: "(numeral n :: int) \<le> 2 ^ 53 \<Longrightarrow> f_of (numeral n) = Fin (numeral n)"
proof (rule f_of_rep)
  assume a: "(numeral n :: int) \<le> 2 ^ 53"
  then show "rnd (numeral n) = numeral n" by simp
  have "(of_int (numeral n) :: rat) \<le> of_int (2 ^ 53)" using a by (simp only: of_int_le_iff)
  also have "\<dots> < 2 ^ 1024" by simp
  finally show "\<bar>numeral n :: rat\<bar> < 2 ^ 1024" by simp
qed

lemma f_of_neg: "f_of (- q) = fneg (f_of q)"
  by (auto simp: f_of_def Let_def)

lemma f_of_neg_numeral [simp]:
  "(numeral n :: int) \<le> 2 ^ 53 \<Longrightarrow> f_of (- numeral n) = Fin (- numeral n)"
  by (simp add: f_of_neg)

lemma fadd_NaN: "fadd x NaN = NaN"
  by (cases x) simp_all

lemma fsub_Fin [simp]: "fsub (Fin a) (Fin b) = f_of (a - b)"
  by (simp add: fsub_def)

lemma f_of_cases:
  obtains "f_of q = PosInf" "0 < q" | "f_of q = NegInf" "q < 0" | "f_of q = Fin (rnd q)"
proof (cases "f_of q")
  case PosInf
  then have "2 ^ 1024 \<le> rnd q" by (auto simp: f_of_def Let_def split: if_splits)
  then have "0 < q" using rnd.nonpos [of q] by (rule_tac ccontr) auto
  with PosInf that(1) show ?thesis by blast
next
  case NegInf
  then have "rnd q \<le> - (2 ^ 1024)" by (auto simp: f_of_def Let_def split: if_splits)
  then have "q < 0" using rnd.nonneg [of q] by (rule_tac ccontr) auto
  with NegInf that(2) show ?thesis by blast
qed (auto simp: f_of_def Let_def intro: that split: if_splits)

lemma f_of_nonneg: "0 \<le> q \<Longrightarrow> fle f0 (f_of q)"
  by (rule f_of_cases [of q]) (auto simp: f0_def rnd.nonneg)

lemma f_of_between:
  assumes "f64_ok (Fin a)" "0 \<le> q" "q \<le> a"
  shows "f_of q = Fin (rnd q)" "0 \<le> rnd q" "rnd q \<le> a"
proof -
  from assms show r: "0 \<le> rnd q" "rnd q \<le> a" by (auto intro: rnd.nonneg rnd.le_fix)
  then show "f_of q = Fin (rnd q)" using assms(1) by (auto simp: f_of_def Let_def)
qed

text \<open>Evaluating a rounding: the exponent of the leading bit and the nearest integer.\<close>

lemma rnd_evalI:
  assumes "q \<noteq> 0" "2 powi k \<le> \<bar>q\<bar>" "\<bar>q\<bar> < 2 powi (k + 1)" "e = max (k - 52) (- 1074)"
    "\<bar>q / 2 powi e - of_int m\<bar> < 1 / 2"
  shows "rnd q = of_int m * 2 powi e"
proof -
  have "\<bar>of_int (rne (q / 2 powi e)) - q / 2 powi e\<bar> \<le> 1 / 2" by (rule rne_error)
  with assms(5) have "\<bar>of_int (rne (q / 2 powi e)) - of_int m :: rat\<bar> < 1" by linarith
  then have "\<bar>of_int (rne (q / 2 powi e) - m) :: rat\<bar> < of_int 1" by simp
  then have "\<bar>rne (q / 2 powi e) - m\<bar> < 1" unfolding of_int_abs [symmetric] of_int_less_iff .
  then have "rne (q / 2 powi e) = m" by simp
  then show ?thesis using assms ilog2_eqI [of k "\<bar>q\<bar>"] by (simp add: rnd_def uexp_def)
qed

lemma rnd_lit_001: "rnd (1 / 100) = 5764607523034235 / 576460752303423488"
  by (subst rnd_evalI [of _ "- 7" "- 59" 5764607523034235]) (simp_all add: power_int_minus)

lemma f_lit_001: "f_lit (1 / 100) = Fin (5764607523034235 / 576460752303423488)"
  by (simp add: f_of_def Let_def rnd_lit_001)

text \<open>Amounts on a binary grid add and subtract without rounding while they fit in 53 bits.\<close>

definition grid :: "int \<Rightarrow> f64" where "grid n = Fin (of_int n / 2 ^ 20)"

lemma rnd_grid: "\<bar>n\<bar> \<le> 2 ^ 53 \<Longrightarrow> rnd (of_int n / 2 ^ 20) = of_int n / 2 ^ 20"
proof -
  have "(2::rat) powi (- 20) = inverse (2 ^ 20)" by (simp add: power_int_minus)
  then have "of_int n / 2 ^ 20 = (of_int n * 2 powi (- 20) :: rat)" by (simp only: divide_inverse)
  moreover assume "\<bar>n\<bar> \<le> 2 ^ 53"
  ultimately show ?thesis by (rule rnd_dyadic) simp
qed

lemma f_of_grid: "\<bar>n\<bar> \<le> 2 ^ 53 \<Longrightarrow> f_of (of_int n / 2 ^ 20) = grid n"
proof -
  assume n: "\<bar>n\<bar> \<le> 2 ^ 53"
  then have "(of_int \<bar>n\<bar> :: rat) \<le> of_int (2 ^ 53)" by (simp only: of_int_le_iff)
  then have "\<bar>of_int n / 2 ^ 20 :: rat\<bar> \<le> 2 ^ 53" by simp
  also have "\<dots> < (2::rat) ^ 1024" by simp
  finally show ?thesis using n by (simp only: grid_def f_of_rep rnd_grid)
qed

lemma fadd_grid: "\<bar>a + b\<bar> \<le> 2 ^ 53 \<Longrightarrow> fadd (grid a) (grid b) = grid (a + b)"
  using f_of_grid [of "a + b"] by (simp add: grid_def add_divide_distrib)

lemma fsub_grid: "\<bar>a - b\<bar> \<le> 2 ^ 53 \<Longrightarrow> fsub (grid a) (grid b) = grid (a - b)"
  using f_of_grid [of "a - b"] by (simp add: grid_def diff_divide_distrib)

lemma grid_order [simp]:
  "flt (grid a) (grid b) \<longleftrightarrow> a < b" "fle (grid a) (grid b) \<longleftrightarrow> a \<le> b" "grid a = grid b \<longleftrightarrow> a = b"
  by (simp_all add: grid_def divide_less_cancel divide_le_cancel)

lemma f0_grid: "f0 = grid 0"
  by (simp add: grid_def f0_def)

lemma fmin_grid: "fmin (grid a) (grid b) = grid (min a b)"
  by (auto simp: fmin_def) (auto simp: grid_def)

end
