(* ===== verification/Orders.thy ===== *)
theory Orders
  imports F64
begin

text \<open>
  The vocabulary of the execution layer: \<open>execution/order.rs\<close> (order types, orders, their
  constructors and accessors) and \<open>execution/events.rs\<close> (sides, time in force and the events the
  executors emit), with \<open>ExitMode\<close> of \<open>position/position.rs\<close>.  A JSON context and a
  transaction signature are opaque texts that the code only stores and copies.
\<close>

datatype order_side = Buy | Sell
datatype time_in_force = GoodTilCancelled | ImmediateOrCancel | FillOrKill
datatype exit_mode = Automatic | StrategyManaged
datatype dex_type = PumpFun | Bonk
datatype order_status = Pending | Filled timestamp | Rejected string

type_synonym json = string
type_synonym signature = string

definition default_tif :: time_in_force where "default_tif = GoodTilCancelled"

definition default_signature :: signature where
  "default_signature = replicate 64 (CHR 0x00)"

section \<open>Order types\<close>

datatype order_type =
    MarketBuy f64
  | MarketSell f64 bool
  | LimitBuy f64 f64 time_in_force
  | LimitSell f64 f64 bool time_in_force
  | Cancel string
  | LegacyBuy f64
  | LegacySell f64 bool

fun is_buy :: "order_type \<Rightarrow> bool" where
  "is_buy (MarketBuy q) = True"
| "is_buy (LimitBuy q p t) = True"
| "is_buy (LegacyBuy s) = True"
| "is_buy x = False"

fun is_sell :: "order_type \<Rightarrow> bool" where
  "is_sell (MarketSell a c) = True"
| "is_sell (LimitSell a p c t) = True"
| "is_sell (LegacySell a c) = True"
| "is_sell x = False"

fun is_limit :: "order_type \<Rightarrow> bool" where
  "is_limit (LimitBuy q p t) = True"
| "is_limit (LimitSell a p c t) = True"
| "is_limit x = False"

fun is_cancel :: "order_type \<Rightarrow> bool" where
  "is_cancel (Cancel i) = True"
| "is_cancel x = False"

fun cancel_order_id :: "order_type \<Rightarrow> string option" where
  "cancel_order_id (Cancel i) = Some i"
| "cancel_order_id x = None"

fun is_market :: "order_type \<Rightarrow> bool" where
  "is_market (MarketBuy q) = True"
| "is_market (MarketSell a c) = True"
| "is_market (LegacyBuy s) = True"
| "is_market (LegacySell a c) = True"
| "is_market x = False"

fun limit_price :: "order_type \<Rightarrow> f64 option" where
  "limit_price (LimitBuy q p t) = Some p"
| "limit_price (LimitSell a p c t) = Some p"
| "limit_price x = None"

fun ot_time_in_force :: "order_type \<Rightarrow> time_in_force option" where
  "ot_time_in_force (LimitBuy q p t) = Some t"
| "ot_time_in_force (LimitSell a p c t) = Some t"
| "ot_time_in_force x = None"

fun ot_clear_position :: "order_type \<Rightarrow> bool option" where
  "ot_clear_position (MarketSell a c) = Some c"
| "ot_clear_position (LimitSell a p c t) = Some c"
| "ot_clear_position (LegacySell a c) = Some c"
| "ot_clear_position x = None"

fun quote_amount :: "order_type \<Rightarrow> f64 option" where
  "quote_amount (MarketBuy q) = Some q"
| "quote_amount (LimitBuy q p t) = Some q"
| "quote_amount (LegacyBuy s) = Some s"
| "quote_amount x = None"

fun token_amount :: "order_type \<Rightarrow> f64 option" where
  "token_amount (MarketSell a c) = Some a"
| "token_amount (LimitSell a p c t) = Some a"
| "token_amount (LegacySell a c) = Some a"
| "token_amount x = None"

text \<open>Every order type is exactly one of buy, sell and cancel, and one of market, limit, cancel.\<close>

lemma order_type_trichotomy:
  "is_buy t \<longleftrightarrow> \<not> is_sell t \<and> \<not> is_cancel t" "is_market t \<longleftrightarrow> \<not> is_limit t \<and> \<not> is_cancel t"
  by (cases t; simp)+

lemma quote_amount_iff_buy: "(\<exists>q. quote_amount t = Some q) \<longleftrightarrow> is_buy t"
  by (cases t) auto

lemma cancel_order_id_iff: "(\<exists>i. cancel_order_id t = Some i) \<longleftrightarrow> is_cancel t"
  by (cases t) auto

section \<open>Orders\<close>

record order =
  ord_mint :: string
  ord_market :: "string option"
  ord_order_type :: order_type
  ord_price :: "f64 option"
  ord_status :: order_status
  ord_timestamp :: timestamp
  ord_signal_slot :: "nat option"
  ord_signal_id :: "string option"
  ord_dex_type :: "dex_type option"
  ord_venue_order_id :: "string option"
  ord_exit_mode :: "exit_mode option"
  ord_context :: "json option"

definition new_buy :: "string \<Rightarrow> f64 \<Rightarrow> timestamp \<Rightarrow> string option \<Rightarrow> nat option \<Rightarrow> order" where
  "new_buy mint sol_amount ts signal_id signal_slot =
     \<lparr>ord_mint = mint, ord_market = None, ord_order_type = LegacyBuy sol_amount, ord_price = None,
      ord_status = Pending, ord_timestamp = ts, ord_signal_slot = signal_slot,
      ord_signal_id = signal_id, ord_dex_type = None, ord_venue_order_id = None,
      ord_exit_mode = None, ord_context = None\<rparr>"

definition new_sell ::
  "string \<Rightarrow> f64 \<Rightarrow> bool \<Rightarrow> timestamp \<Rightarrow> string option \<Rightarrow> nat option \<Rightarrow> order" where
  "new_sell mint amount clear ts signal_id signal_slot =
     \<lparr>ord_mint = mint, ord_market = None, ord_order_type = LegacySell amount clear, ord_price = None,
      ord_status = Pending, ord_timestamp = ts, ord_signal_slot = signal_slot,
      ord_signal_id = signal_id, ord_dex_type = None, ord_venue_order_id = None,
      ord_exit_mode = None, ord_context = None\<rparr>"

definition new_limit_buy :: "string \<Rightarrow> string option \<Rightarrow> f64 \<Rightarrow> f64 \<Rightarrow> time_in_force \<Rightarrow> timestamp \<Rightarrow>
    string option \<Rightarrow> nat option \<Rightarrow> order" where
  "new_limit_buy mint market quote_amt limit_prc tif ts signal_id signal_slot =
     \<lparr>ord_mint = mint, ord_market = market, ord_order_type = LimitBuy quote_amt limit_prc tif,
      ord_price = Some limit_prc, ord_status = Pending, ord_timestamp = ts,
      ord_signal_slot = signal_slot, ord_signal_id = signal_id, ord_dex_type = None,
      ord_venue_order_id = None, ord_exit_mode = None, ord_context = None\<rparr>"

definition new_limit_sell :: "string \<Rightarrow> string option \<Rightarrow> f64 \<Rightarrow> f64 \<Rightarrow> bool \<Rightarrow> time_in_force \<Rightarrow>
    timestamp \<Rightarrow> string option \<Rightarrow> nat option \<Rightarrow> order" where
  "new_limit_sell mint market amount limit_prc clear tif ts signal_id signal_slot =
     \<lparr>ord_mint = mint, ord_market = market, ord_order_type = LimitSell amount limit_prc clear tif,
      ord_price = Some limit_prc, ord_status = Pending, ord_timestamp = ts,
      ord_signal_slot = signal_slot, ord_signal_id = signal_id, ord_dex_type = None,
      ord_venue_order_id = None, ord_exit_mode = None, ord_context = None\<rparr>"

definition new_cancel ::
  "string \<Rightarrow> string option \<Rightarrow> string \<Rightarrow> timestamp \<Rightarrow> string option \<Rightarrow> order" where
  "new_cancel mint market order_id ts signal_id =
     \<lparr>ord_mint = mint, ord_market = market, ord_order_type = Cancel order_id, ord_price = None,
      ord_status = Pending, ord_timestamp = ts, ord_signal_slot = None, ord_signal_id = signal_id,
      ord_dex_type = None, ord_venue_order_id = Some order_id, ord_exit_mode = None,
      ord_context = None\<rparr>"

definition is_limit_order :: "order \<Rightarrow> bool" where
  "is_limit_order ord = is_limit (ord_order_type ord)"

definition is_market_order :: "order \<Rightarrow> bool" where
  "is_market_order ord = is_market (ord_order_type ord)"

definition is_cancel_order :: "order \<Rightarrow> bool" where
  "is_cancel_order ord = is_cancel (ord_order_type ord)"

definition with_exit_mode :: "order \<Rightarrow> exit_mode \<Rightarrow> order" where
  "with_exit_mode ord m = ord\<lparr>ord_exit_mode := Some m\<rparr>"

definition with_context :: "order \<Rightarrow> json \<Rightarrow> order" where
  "with_context ord c = ord\<lparr>ord_context := Some c\<rparr>"

section \<open>Events\<close>

datatype limit_order_event =
    OrderPlaced (lo_order_id: string) string "string option" f64 f64 order_side timestamp
      "string option" "json option"
  | OrderPartiallyFilled (lo_order_id: string) string order_side f64 f64 f64 timestamp
      "string option" "exit_mode option"
  | OrderCancelled (lo_order_id: string) "string option" timestamp
  | OrderExpired (lo_order_id: string) timestamp
  | OrderRejected string

fun event_order_id :: "limit_order_event \<Rightarrow> string option" where
  "event_order_id (OrderPlaced i m k p s d t g c) = Some i"
| "event_order_id (OrderPartiallyFilled i m d f r p t g x) = Some i"
| "event_order_id (OrderCancelled i r t) = Some i"
| "event_order_id (OrderExpired i t) = Some i"
| "event_order_id (OrderRejected r) = None"

fun event_is_terminal :: "limit_order_event \<Rightarrow> bool" where
  "event_is_terminal (OrderCancelled i r t) = True"
| "event_is_terminal (OrderExpired i t) = True"
| "event_is_terminal (OrderRejected r) = True"
| "event_is_terminal e = False"

text \<open>The fields of \<open>ExecutionEvent::OrderFilled\<close> that the handler passes on.\<close>

record order_filled =
  of_mint :: string
  of_token_amount_change :: f64
  of_quote_amount_change :: "f64 option"
  of_price :: "f64 option"
  of_timestamp :: timestamp
  of_slippage :: "f64 option"
  of_clear_position :: bool
  of_force_position_clear :: bool
  of_execution_latency_in_slots :: "nat option"
  of_confirmed_slot :: "nat option"
  of_confirmed_signature :: "signature option"
  of_signal_id :: "string option"
  of_exit_mode :: "exit_mode option"

datatype execution_event = ExecOrderFilled order_filled | ExecOrderRejected string string

record redemption_completed =
  rc_market :: string
  rc_up_asset_id :: string
  rc_down_asset_id :: string
  rc_quantity :: f64
  rc_quote_received :: f64
  rc_timestamp :: timestamp

datatype redemption_event =
    RedemptionCompleted redemption_completed
  | RedemptionFailed string string timestamp

fun red_market :: "redemption_event \<Rightarrow> string" where
  "red_market (RedemptionCompleted r) = rc_market r"
| "red_market (RedemptionFailed m r t) = m"

fun red_timestamp :: "redemption_event \<Rightarrow> timestamp" where
  "red_timestamp (RedemptionCompleted r) = rc_timestamp r"
| "red_timestamp (RedemptionFailed m r t) = t"

fun red_is_successful :: "redemption_event \<Rightarrow> bool" where
  "red_is_successful (RedemptionCompleted r) = True"
| "red_is_successful (RedemptionFailed m r t) = False"

end
