(* ===== verification/Machine.thy ===== *)
theory Machine
  imports Prelude
begin

text \<open>
  The contracts that the stateful components share, as locales over a total step function
  \<open>step\<close> (one call of an operation), the arguments \<open>ok\<close> it may get and a state invariant
  \<open>inv\<close>: a \<open>machine\<close> keeps its
  invariant, a \<open>progress_machine\<close> moves along a preorder of states, and a
  \<open>keyed_machine\<close> never changes a record once it is final.  The lemmas lift each contract from
  one step to a run, a list of operations applied left to right.  Every component that promises
  such a contract interprets the locale on its own operations.
\<close>

locale machine =
  fixes step :: "'s \<Rightarrow> 'p \<Rightarrow> 's"
    and ok :: "'p \<Rightarrow> bool"
    and inv :: "'s \<Rightarrow> bool"
  assumes step_inv: "inv s \<Longrightarrow> ok x \<Longrightarrow> inv (step s x)"
begin

lemma run_inv: "inv s \<Longrightarrow> list_all ok ops \<Longrightarrow> inv (foldl step s ops)"
  by (induction ops arbitrary: s) (auto intro: step_inv)

end

locale progress_machine = machine step ok inv for step :: "'s \<Rightarrow> 'p \<Rightarrow> 's" and ok inv +
  fixes le :: "'s \<Rightarrow> 's \<Rightarrow> bool"
  assumes le_refl: "le s s"
    and le_trans: "le s t \<Longrightarrow> le t u \<Longrightarrow> le s u"
    and step_le: "inv s \<Longrightarrow> ok x \<Longrightarrow> le s (step s x)"
begin

lemma run_le: "inv s \<Longrightarrow> list_all ok ops \<Longrightarrow> le s (foldl step s ops)"
proof (induction ops arbitrary: s)
  case Nil
  show ?case by (simp add: le_refl)
next
  case (Cons x ops)
  from Cons.prems have "le s (step s x)" by (auto intro: step_le)
  moreover from Cons.prems have "le (step s x) (foldl step (step s x) ops)"
    by (intro Cons.IH step_inv) auto
  ultimately show ?case by (simp add: le_trans)
qed

end

locale keyed_machine = machine step ok inv for step :: "'s \<Rightarrow> 'p \<Rightarrow> 's" and ok inv +
  fixes look :: "'s \<Rightarrow> 'k \<Rightarrow> 'v option"
    and final :: "'v \<Rightarrow> bool"
  assumes final_kept: "inv s \<Longrightarrow> ok x \<Longrightarrow> look s k = Some v \<Longrightarrow> final v \<Longrightarrow> look (step s x) k = Some v"
begin

definition keeps :: "'s \<Rightarrow> 's \<Rightarrow> bool" where
  "keeps s t \<longleftrightarrow> (\<forall>k v. look s k = Some v \<longrightarrow> final v \<longrightarrow> look t k = Some v)"

lemma keeps_refl: "keeps s s"
  by (simp add: keeps_def)

lemma keeps_trans: "keeps s t \<Longrightarrow> keeps t u \<Longrightarrow> keeps s u"
  by (simp add: keeps_def)

lemma keeps_step: "inv s \<Longrightarrow> ok x \<Longrightarrow> keeps s (step s x)"
  by (simp add: keeps_def final_kept)

end

sublocale keyed_machine \<subseteq> prog: progress_machine step ok inv keeps
  by unfold_locales (auto intro: keeps_refl keeps_trans keeps_step)

context keyed_machine begin

lemma run_final_kept:
  "inv s \<Longrightarrow> list_all ok ops \<Longrightarrow> look s k = Some v \<Longrightarrow> final v \<Longrightarrow> look (foldl step s ops) k = Some v"
  using prog.run_le [of s ops] by (simp add: keeps_def)

end

end
