(* ===== verification/Lifecycle.thy ===== *)
theory Lifecycle
  imports Orders Machine
begin

text \<open>
  The order lifecycle engine, \<open>execution/lifecycle/mod.rs\<close>, \<open>engine.rs\<close> and the counters of
  \<open>metrics.rs\<close>.  The engine state is three hash maps (orders by lifecycle id, client id to
  lifecycle id, venue id to lifecycle id), the optional metrics, the mode label and the policy for
  cancels of unknown orders.  Every operation returns the new engine with its result; an
  \<open>expect\<close> that finds no record is the result \<open>LcPanic\<close>.  A fresh UUID is an argument.
\<close>

section \<open>Data\<close>

datatype terminal_reason = TFilled | TCancelled | TRejected | TExpired

datatype lc_state = SubmitPending | Open | CancelPending | Terminal terminal_reason

fun lc_is_terminal :: "lc_state \<Rightarrow> bool" where
  "lc_is_terminal (Terminal r) = True"
| "lc_is_terminal s = False"

record lc_order =
  lc_lifecycle_id :: string
  lc_client_order_id :: string
  lc_venue_order_id :: "string option"
  lc_mint :: string
  lc_market :: "string option"
  lc_side :: order_side
  lc_price :: f64
  lc_original_size :: f64
  lc_remaining_size :: f64
  lc_time_in_force :: time_in_force
  lc_state :: lc_state
  lc_cancel_requested :: bool
  lc_signal_id :: "string option"

definition lco_is_terminal :: "lc_order \<Rightarrow> bool" where
  "lco_is_terminal ord = lc_is_terminal (lc_state ord)"

datatype lc_order_ref = LifecycleId string | ClientOrderId string | VenueOrderId string

record lc_place_request =
  pr_lifecycle_id :: "string option"
  pr_client_order_id :: string
  pr_mint :: string
  pr_market :: "string option"
  pr_side :: order_side
  pr_price :: f64
  pr_size :: f64
  pr_time_in_force :: time_in_force
  pr_signal_id :: "string option"

datatype unknown_cancel_policy = Strict | Idempotent

datatype lc_error =
    DuplicateLifecycleId string
  | DuplicateClientOrderId string
  | DuplicateVenueOrderId string
  | UnknownOrder lc_order_ref
  | InvalidTransition string lc_state
  | ConflictingVenueOrderId string string
  | InvalidFillSize f64
  | InvalidOrderSize f64

datatype 'a lc_result = LcOk 'a | LcErr lc_error | LcPanic

datatype cancel_outcome = Updated lc_order | IgnoredUnknownOrder

text \<open>Counter vectors map label values to counts, the gauge maps the mode to its last value.\<close>

record lc_metrics =
  m_transitions :: "string list \<Rightarrow> nat"
  m_cancel_requested :: "string list \<Rightarrow> nat"
  m_cancel_terminal :: "string list \<Rightarrow> nat"
  m_terminal_dedup :: "string list \<Rightarrow> nat"
  m_unknown_cancel :: "string list \<Rightarrow> nat"
  m_queue_depth :: "string \<Rightarrow> nat"

record engine =
  orders :: "(string, lc_order) hmap"
  client_to_lifecycle :: "(string, string) hmap"
  venue_to_lifecycle :: "(string, string) hmap"
  metrics :: "lc_metrics option"
  mode_label :: string
  cancel_policy :: unknown_cancel_policy

section \<open>Metrics\<close>

fun state_label :: "lc_state \<Rightarrow> string" where
  "state_label SubmitPending = ''submit_pending''"
| "state_label Open = ''open''"
| "state_label CancelPending = ''cancel_pending''"
| "state_label (Terminal TFilled) = ''terminal_filled''"
| "state_label (Terminal TCancelled) = ''terminal_cancelled''"
| "state_label (Terminal TRejected) = ''terminal_rejected''"
| "state_label (Terminal TExpired) = ''terminal_expired''"

fun reason_label :: "terminal_reason \<Rightarrow> string" where
  "reason_label TFilled = ''filled''"
| "reason_label TCancelled = ''cancelled''"
| "reason_label TRejected = ''rejected''"
| "reason_label TExpired = ''expired''"

fun policy_label :: "unknown_cancel_policy \<Rightarrow> string" where
  "policy_label Strict = ''strict''"
| "policy_label Idempotent = ''idempotent''"

definition inc_counter :: "'l \<Rightarrow> ('l \<Rightarrow> nat) \<Rightarrow> 'l \<Rightarrow> nat" where
  "inc_counter l c = c(l := Suc (c l))"

definition record_transition :: "string \<Rightarrow> lc_state \<Rightarrow> lc_state \<Rightarrow> lc_metrics \<Rightarrow> lc_metrics" where
  "record_transition mode from to m =
     m\<lparr>m_transitions := inc_counter [state_label from, state_label to, mode] (m_transitions m)\<rparr>"

definition record_cancel_requested :: "string \<Rightarrow> lc_state \<Rightarrow> lc_metrics \<Rightarrow> lc_metrics" where
  "record_cancel_requested mode st m =
     m\<lparr>m_cancel_requested := inc_counter [mode, state_label st] (m_cancel_requested m)\<rparr>"

definition record_cancel_terminal :: "string \<Rightarrow> terminal_reason \<Rightarrow> lc_metrics \<Rightarrow> lc_metrics" where
  "record_cancel_terminal mode r m =
     m\<lparr>m_cancel_terminal := inc_counter [mode, reason_label r] (m_cancel_terminal m)\<rparr>"

definition record_terminal_dedup :: "string \<Rightarrow> string \<Rightarrow> lc_metrics \<Rightarrow> lc_metrics" where
  "record_terminal_dedup mode ev m =
     m\<lparr>m_terminal_dedup := inc_counter [mode, ev] (m_terminal_dedup m)\<rparr>"

definition record_unknown_cancel :: "string \<Rightarrow> string \<Rightarrow> lc_metrics \<Rightarrow> lc_metrics" where
  "record_unknown_cancel mode p m =
     m\<lparr>m_unknown_cancel := inc_counter [mode, p] (m_unknown_cancel m)\<rparr>"

definition set_queue_depth :: "string \<Rightarrow> nat \<Rightarrow> lc_metrics \<Rightarrow> lc_metrics" where
  "set_queue_depth mode d m = m\<lparr>m_queue_depth := (m_queue_depth m)(mode := d)\<rparr>"

definition queued_cancel :: "lc_order \<Rightarrow> bool" where
  "queued_cancel ord \<longleftrightarrow> lc_cancel_requested ord \<and> lc_state ord = SubmitPending"

definition queue_depth :: "engine \<Rightarrow> nat" where
  "queue_depth e = length (filter queued_cancel (hvals (orders e)))"

definition on_metrics :: "(string \<Rightarrow> lc_metrics \<Rightarrow> lc_metrics) \<Rightarrow> engine \<Rightarrow> engine" where
  "on_metrics f e = e\<lparr>metrics := map_option (f (mode_label e)) (metrics e)\<rparr>"

definition refresh_queue_depth :: "engine \<Rightarrow> engine" where
  "refresh_queue_depth e = on_metrics (\<lambda>mode. set_queue_depth mode (queue_depth e)) e"

definition emit_transition :: "lc_state \<Rightarrow> lc_state \<Rightarrow> engine \<Rightarrow> engine" where
  "emit_transition from to e =
     (if from = to then e
      else on_metrics (\<lambda>mode m.
        let m' = record_transition mode from to m
        in case to of Terminal r \<Rightarrow> record_cancel_terminal mode r m' | _ \<Rightarrow> m') e)"

definition emit_cancel_requested :: "lc_state \<Rightarrow> engine \<Rightarrow> engine" where
  "emit_cancel_requested from e = on_metrics (\<lambda>mode. record_cancel_requested mode from) e"

definition emit_terminal_dedup :: "string \<Rightarrow> engine \<Rightarrow> engine" where
  "emit_terminal_dedup ev e = on_metrics (\<lambda>mode. record_terminal_dedup mode ev) e"

definition emit_unknown_cancel :: "engine \<Rightarrow> engine" where
  "emit_unknown_cancel e =
     on_metrics (\<lambda>mode. record_unknown_cancel mode (policy_label (cancel_policy e))) e"

section \<open>Operations\<close>

definition engine_new :: engine where
  "engine_new = \<lparr>orders = [], client_to_lifecycle = [], venue_to_lifecycle = [], metrics = None,
     mode_label = ''unknown'', cancel_policy = Idempotent\<rparr>"

definition with_metrics :: "engine \<Rightarrow> lc_metrics \<Rightarrow> string \<Rightarrow> engine" where
  "with_metrics e m mode = refresh_queue_depth (e\<lparr>metrics := Some m, mode_label := mode\<rparr>)"

definition with_unknown_order_cancel_policy :: "engine \<Rightarrow> unknown_cancel_policy \<Rightarrow> engine" where
  "with_unknown_order_cancel_policy e p = e\<lparr>cancel_policy := p\<rparr>"

definition engine_len :: "engine \<Rightarrow> nat" where
  "engine_len e = length (orders e)"

fun resolve_lifecycle_id :: "engine \<Rightarrow> lc_order_ref \<Rightarrow> string option" where
  "resolve_lifecycle_id e (LifecycleId l) = (if hget (orders e) l \<noteq> None then Some l else None)"
| "resolve_lifecycle_id e (ClientOrderId c) = hget (client_to_lifecycle e) c"
| "resolve_lifecycle_id e (VenueOrderId v) = hget (venue_to_lifecycle e) v"

definition engine_get :: "engine \<Rightarrow> lc_order_ref \<Rightarrow> lc_order option" where
  "engine_get e r = Option.bind (resolve_lifecycle_id e r) (hget (orders e))"

definition put_order :: "string \<Rightarrow> lc_order \<Rightarrow> engine \<Rightarrow> engine" where
  "put_order l ord e = e\<lparr>orders := hput l ord (orders e)\<rparr>"

definition ensure_venue_mapping :: "engine \<Rightarrow> string \<Rightarrow> string \<Rightarrow> lc_error + engine" where
  "ensure_venue_mapping e l v =
     (case hget (venue_to_lifecycle e) v of
        Some bound \<Rightarrow> if bound \<noteq> l then Err (DuplicateVenueOrderId v) else Ok e
      | None \<Rightarrow> Ok (e\<lparr>venue_to_lifecycle := hput v l (venue_to_lifecycle e)\<rparr>))"

text \<open>The two ids that disagree, when an order already has a venue id and another one comes.\<close>

definition venue_conflict :: "string option \<Rightarrow> string option \<Rightarrow> (string \<times> string) option" where
  "venue_conflict existing incoming =
     (case (existing, incoming) of
        (Some x, Some y) \<Rightarrow> if x \<noteq> y then Some (x, y) else None
      | _ \<Rightarrow> None)"

definition record_place_request ::
  "string \<Rightarrow> engine \<Rightarrow> lc_place_request \<Rightarrow> engine \<times> lc_order lc_result" where
  "record_place_request uuid e r =
     (if fle (pr_size r) f0 then (e, LcErr (InvalidOrderSize (pr_size r)))
      else if hget (client_to_lifecycle e) (pr_client_order_id r) \<noteq> None
      then (e, LcErr (DuplicateClientOrderId (pr_client_order_id r)))
      else let l = unwrap_or (pr_lifecycle_id r) uuid in
        if hget (orders e) l \<noteq> None then (e, LcErr (DuplicateLifecycleId l))
        else let c = pr_client_order_id r;
          ord = \<lparr>lc_lifecycle_id = l, lc_client_order_id = c, lc_venue_order_id = None,
            lc_mint = pr_mint r, lc_market = pr_market r, lc_side = pr_side r,
            lc_price = pr_price r, lc_original_size = pr_size r, lc_remaining_size = pr_size r,
            lc_time_in_force = pr_time_in_force r, lc_state = SubmitPending,
            lc_cancel_requested = False, lc_signal_id = pr_signal_id r\<rparr>;
          e' = refresh_queue_depth ((put_order l ord e)
            \<lparr>client_to_lifecycle := hput c l (client_to_lifecycle e)\<rparr>)
        in case hget (orders e') l of None \<Rightarrow> (e', LcPanic) | Some ord' \<Rightarrow> (e', LcOk ord'))"

definition record_place_success ::
  "engine \<Rightarrow> lc_order_ref \<Rightarrow> string \<Rightarrow> engine \<times> lc_order lc_result" where
  "record_place_success e r v =
     (case resolve_lifecycle_id e r of None \<Rightarrow> (e, LcErr (UnknownOrder r))
      | Some l \<Rightarrow> (case hget (orders e) l of None \<Rightarrow> (e, LcPanic)
      | Some snap \<Rightarrow>
        if lco_is_terminal snap then (emit_terminal_dedup ''place_success'' e, LcOk snap)
        else case venue_conflict (lc_venue_order_id snap) (Some v) of
          Some (x, y) \<Rightarrow> (e, LcErr (ConflictingVenueOrderId x y))
        | None \<Rightarrow> (case lc_state snap of
            Terminal t \<Rightarrow> (e, LcErr (InvalidTransition ''record_place_success'' (Terminal t)))
          | st \<Rightarrow> (case ensure_venue_mapping e l v of Inl err \<Rightarrow> (e, LcErr err)
            | Inr e1 \<Rightarrow>
              let ord = snap\<lparr>lc_venue_order_id := Some v,
                lc_state := (if st = SubmitPending
                  then (if lc_cancel_requested snap then CancelPending else Open) else st)\<rparr>;
                e2 = put_order l ord e1
              in (refresh_queue_depth (emit_transition st (lc_state ord) e2), LcOk ord)))))"

definition record_place_rejected :: "engine \<Rightarrow> lc_order_ref \<Rightarrow> engine \<times> lc_order lc_result" where
  "record_place_rejected e r =
     (case resolve_lifecycle_id e r of None \<Rightarrow> (e, LcErr (UnknownOrder r))
      | Some l \<Rightarrow> (case hget (orders e) l of None \<Rightarrow> (e, LcPanic)
      | Some snap \<Rightarrow> (case lc_state snap of
          SubmitPending \<Rightarrow>
            let ord = snap\<lparr>lc_state := Terminal TRejected\<rparr>
            in (refresh_queue_depth (emit_transition SubmitPending (Terminal TRejected)
                 (put_order l ord e)), LcOk ord)
        | Terminal t \<Rightarrow> (emit_terminal_dedup ''place_rejected'' e, LcOk snap)
        | st \<Rightarrow> (e, LcErr (InvalidTransition ''record_place_rejected'' st)))))"

definition record_cancel_request ::
  "engine \<Rightarrow> lc_order_ref \<Rightarrow> engine \<times> cancel_outcome lc_result" where
  "record_cancel_request e r =
     (case resolve_lifecycle_id e r of
        None \<Rightarrow> (emit_unknown_cancel e,
          if cancel_policy e = Idempotent then LcOk IgnoredUnknownOrder else LcErr (UnknownOrder r))
      | Some l \<Rightarrow> (case hget (orders e) l of None \<Rightarrow> (e, LcPanic)
      | Some snap \<Rightarrow>
        let from = lc_state snap;
          ord = (case from of
              SubmitPending \<Rightarrow> snap\<lparr>lc_cancel_requested := True\<rparr>
            | Open \<Rightarrow> snap\<lparr>lc_cancel_requested := True, lc_state := CancelPending\<rparr>
            | CancelPending \<Rightarrow> snap\<lparr>lc_cancel_requested := True\<rparr>
            | Terminal t \<Rightarrow> snap);
          e1 = put_order l ord e;
          e2 = (if lc_is_terminal from then e1 else emit_cancel_requested from e1)
        in (refresh_queue_depth (emit_transition from (lc_state ord) e2), LcOk (Updated ord))))"

definition record_fill_evidence ::
  "engine \<Rightarrow> lc_order_ref \<Rightarrow> f64 \<Rightarrow> engine \<times> lc_order lc_result" where
  "record_fill_evidence e r filled =
     (if fle filled f0 then (e, LcErr (InvalidFillSize filled))
      else case resolve_lifecycle_id e r of None \<Rightarrow> (e, LcErr (UnknownOrder r))
      | Some l \<Rightarrow> (case hget (orders e) l of None \<Rightarrow> (e, LcPanic)
      | Some snap \<Rightarrow>
        if lco_is_terminal snap then (emit_terminal_dedup ''fill_update'' e, LcOk snap)
        else let from = lc_state snap;
          st = (if from = SubmitPending then Open else from);
          rem = fmax (fsub (lc_remaining_size snap) filled) f0;
          ord = snap\<lparr>lc_remaining_size := rem,
            lc_state := (if fle rem f_epsilon then Terminal TFilled else st)\<rparr>
        in (refresh_queue_depth (emit_transition from (lc_state ord) (put_order l ord e)), LcOk ord)))"

definition record_terminal_evidence ::
  "engine \<Rightarrow> lc_order_ref \<Rightarrow> terminal_reason \<Rightarrow> string option \<Rightarrow> engine \<times> lc_order lc_result" where
  "record_terminal_evidence e r reason venue =
     (case resolve_lifecycle_id e r of None \<Rightarrow> (e, LcErr (UnknownOrder r))
      | Some l \<Rightarrow> (case hget (orders e) l of None \<Rightarrow> (e, LcPanic)
      | Some snap \<Rightarrow>
        if lco_is_terminal snap then (emit_terminal_dedup ''terminal_evidence'' e, LcOk snap)
        else if reason = TCancelled \<and> lc_state snap = SubmitPending \<and> \<not> lc_cancel_requested snap
        then (e, LcErr (InvalidTransition ''record_terminal_evidence(cancelled)'' (lc_state snap)))
        else case venue_conflict (lc_venue_order_id snap) venue of
          Some (x, y) \<Rightarrow> (e, LcErr (ConflictingVenueOrderId x y))
        | None \<Rightarrow> (case (case venue of None \<Rightarrow> Ok e | Some v \<Rightarrow> ensure_venue_mapping e l v) of
            Inl err \<Rightarrow> (e, LcErr err)
          | Inr e1 \<Rightarrow>
            let ord = snap\<lparr>
                lc_venue_order_id := (case venue of None \<Rightarrow> lc_venue_order_id snap | Some v \<Rightarrow> Some v),
                lc_cancel_requested := (reason = TCancelled \<or> lc_cancel_requested snap),
                lc_state := Terminal reason\<rparr>
            in (refresh_queue_depth (emit_transition (lc_state snap) (Terminal reason)
                 (put_order l ord e1)), LcOk ord))))"

definition record_cancel_confirmed ::
  "engine \<Rightarrow> lc_order_ref \<Rightarrow> string option \<Rightarrow> engine \<times> lc_order lc_result" where
  "record_cancel_confirmed e r venue = record_terminal_evidence e r TCancelled venue"

section \<open>Frame facts\<close>

lemma on_metrics_frame [simp]:
  "orders (on_metrics f e) = orders e"
  "client_to_lifecycle (on_metrics f e) = client_to_lifecycle e"
  "venue_to_lifecycle (on_metrics f e) = venue_to_lifecycle e"
  "mode_label (on_metrics f e) = mode_label e"
  "cancel_policy (on_metrics f e) = cancel_policy e"
  "metrics (on_metrics f e) = map_option (f (mode_label e)) (metrics e)"
  by (simp_all add: on_metrics_def)

text \<open>The part of the engine that is not observability.\<close>

definition core :: "engine \<Rightarrow> (string, lc_order) hmap \<times> (string, string) hmap \<times> (string, string) hmap" where
  "core e = (orders e, client_to_lifecycle e, venue_to_lifecycle e)"

lemmas emit_defs = refresh_queue_depth_def emit_transition_def emit_cancel_requested_def
  emit_terminal_dedup_def emit_unknown_cancel_def

lemma core_emit [simp]:
  "core (on_metrics f e) = core e"
  "core (refresh_queue_depth e) = core e"
  "core (emit_transition a b e) = core e"
  "core (emit_cancel_requested a e) = core e"
  "core (emit_terminal_dedup ev e) = core e"
  "core (emit_unknown_cancel e) = core e"
  by (simp_all add: core_def emit_defs)

lemma core_eq_iff:
  "core e = core e' \<longleftrightarrow> orders e = orders e' \<and> client_to_lifecycle e = client_to_lifecycle e' \<and>
    venue_to_lifecycle e = venue_to_lifecycle e'"
  by (simp add: core_def)

lemma core_put_order: "core (put_order l ord e) =
    (hput l ord (orders e), client_to_lifecycle e, venue_to_lifecycle e)"
  by (simp add: core_def put_order_def)

section \<open>The protocol of one order\<close>

text \<open>
  What an operation may do to the record of one order, as a step relation: acknowledge the
  placement, reject it, note a cancel request, apply a fill, finish it.  A record that is
  terminal has no step other than staying.
\<close>

inductive ord_step :: "lc_order \<Rightarrow> lc_order \<Rightarrow> bool" where
  stay: "ord_step ord ord"
| ack: "\<lbrakk>\<not> lco_is_terminal ord; lc_venue_order_id ord \<in> {None, Some v};
     st = (if lc_state ord = SubmitPending
       then (if lc_cancel_requested ord then CancelPending else Open) else lc_state ord)\<rbrakk>
   \<Longrightarrow> ord_step ord (ord\<lparr>lc_venue_order_id := Some v, lc_state := st\<rparr>)"
| reject: "lc_state ord = SubmitPending \<Longrightarrow> ord_step ord (ord\<lparr>lc_state := Terminal TRejected\<rparr>)"
| cancel: "\<lbrakk>\<not> lco_is_terminal ord; st = (if lc_state ord = Open then CancelPending else lc_state ord)\<rbrakk>
   \<Longrightarrow> ord_step ord (ord\<lparr>lc_cancel_requested := True, lc_state := st\<rparr>)"
| fill: "\<lbrakk>\<not> lco_is_terminal ord; \<not> fle filled f0;
     rem = fmax (fsub (lc_remaining_size ord) filled) f0;
     st = (if fle rem f_epsilon then Terminal TFilled
       else if lc_state ord = SubmitPending then Open else lc_state ord)\<rbrakk>
   \<Longrightarrow> ord_step ord (ord\<lparr>lc_remaining_size := rem, lc_state := st\<rparr>)"
| finish: "\<lbrakk>\<not> lco_is_terminal ord;
     reason = TCancelled \<Longrightarrow> lc_state ord = SubmitPending \<Longrightarrow> lc_cancel_requested ord;
     v = lc_venue_order_id ord \<or> lc_venue_order_id ord = None;
     c = (reason = TCancelled \<or> lc_cancel_requested ord)\<rbrakk>
   \<Longrightarrow> ord_step ord (ord\<lparr>lc_venue_order_id := v, lc_cancel_requested := c, lc_state := Terminal reason\<rparr>)"

inductive_cases ord_stepE: "ord_step ord ord'"

text \<open>What an operation may do to the engine: nothing but metrics, a placement, or one order step.\<close>

definition counters :: "engine \<Rightarrow> ((string list \<Rightarrow> nat) \<times> (string \<Rightarrow> nat)) option" where
  "counters e = map_option (\<lambda>m. (m_cancel_terminal m, m_queue_depth m)) (metrics e)"

definition count_terminal :: "string \<Rightarrow> lc_state \<Rightarrow> lc_state \<Rightarrow> (string list \<Rightarrow> nat) \<Rightarrow> string list \<Rightarrow> nat" where
  "count_terminal mode from to ct = (case to of
     Terminal r \<Rightarrow> if from = to then ct else inc_counter [mode, reason_label r] ct | _ \<Rightarrow> ct)"

definition committed :: "lc_state \<Rightarrow> lc_state \<Rightarrow> engine \<Rightarrow> engine \<Rightarrow> bool" where
  "committed from to e e' \<longleftrightarrow> mode_label e' = mode_label e \<and>
     counters e' = map_option (\<lambda>(ct, qd). (count_terminal (mode_label e) from to ct,
       qd(mode_label e := queue_depth e'))) (counters e)"

inductive lc_rel :: "engine \<Rightarrow> engine \<Rightarrow> bool" where
  observe: "\<lbrakk>core e' = core e; mode_label e' = mode_label e; counters e' = counters e\<rbrakk> \<Longrightarrow> lc_rel e e'"
| place: "\<lbrakk>hget (client_to_lifecycle e) (lc_client_order_id ord) = None;
     hget (orders e) (lc_lifecycle_id ord) = None; lc_state ord = SubmitPending;
     \<not> lc_cancel_requested ord; lc_venue_order_id ord = None;
     \<not> fle (lc_original_size ord) f0; lc_remaining_size ord = lc_original_size ord;
     core e' = (hput (lc_lifecycle_id ord) ord (orders e),
       hput (lc_client_order_id ord) (lc_lifecycle_id ord) (client_to_lifecycle e),
       venue_to_lifecycle e); committed SubmitPending SubmitPending e e'\<rbrakk> \<Longrightarrow> lc_rel e e'"
| update: "\<lbrakk>hget (orders e) l = Some snap; ord_step snap ord;
     lc_venue_order_id ord = lc_venue_order_id snap \<and> vmap = venue_to_lifecycle e
     \<or> (\<exists>v. lc_venue_order_id snap \<in> {None, Some v} \<and> lc_venue_order_id ord = Some v \<and>
        (hget (venue_to_lifecycle e) v = None \<and> vmap = hput v l (venue_to_lifecycle e)
         \<or> hget (venue_to_lifecycle e) v = Some l \<and> vmap = venue_to_lifecycle e));
     core e' = (hput l ord (orders e), client_to_lifecycle e, vmap);
     committed (lc_state snap) (lc_state ord) e e'\<rbrakk> \<Longrightarrow> lc_rel e e'"

subsection \<open>Every operation follows the protocol\<close>

lemma ensure_venue_mapping_core:
  "ensure_venue_mapping e l v = Inr e1 \<Longrightarrow>
   orders e1 = orders e \<and> client_to_lifecycle e1 = client_to_lifecycle e \<and>
   metrics e1 = metrics e \<and> mode_label e1 = mode_label e \<and>
   (hget (venue_to_lifecycle e) v = None \<and> venue_to_lifecycle e1 = hput v l (venue_to_lifecycle e) \<or>
    hget (venue_to_lifecycle e) v = Some l \<and> venue_to_lifecycle e1 = venue_to_lifecycle e)"
  by (auto simp: ensure_venue_mapping_def split: option.splits if_splits)

lemma venue_conflict_None:
  "venue_conflict x y = None \<longleftrightarrow> x = None \<or> y = None \<or> x = y"
  by (auto simp: venue_conflict_def split: option.splits)

lemmas op_splits = option.splits sum.splits lc_state.splits prod.splits

lemma counters_emit [simp]:
  "counters (emit_terminal_dedup ev e) = counters e" "mode_label (emit_terminal_dedup ev e) = mode_label e"
  "counters (emit_unknown_cancel e) = counters e" "mode_label (emit_unknown_cancel e) = mode_label e"
  "counters (emit_cancel_requested a e) = counters e" "mode_label (emit_cancel_requested a e) = mode_label e"
  "counters (put_order l ord e) = counters e" "mode_label (put_order l ord e) = mode_label e"
  by (simp_all add: counters_def emit_defs record_terminal_dedup_def record_unknown_cancel_def
    record_cancel_requested_def put_order_def option.map_comp comp_def)

lemma queue_depth_core: "core e = core e' \<Longrightarrow> queue_depth e = queue_depth e'"
  by (simp add: queue_depth_def core_eq_iff)

lemma committed_refresh:
  assumes "counters e2 = counters e" "mode_label e2 = mode_label e"
  shows "committed a b e (refresh_queue_depth (emit_transition a b e2))"
proof -
  let ?e = "refresh_queue_depth (emit_transition a b e2)"
  have q: "queue_depth ?e = queue_depth (emit_transition a b e2)" by (rule queue_depth_core) simp
  have "counters (emit_transition a b e2) = map_option (\<lambda>(ct, qd). (count_terminal (mode_label e2) a b ct, qd)) (counters e2)"
    by (cases "metrics e2"; cases b)
      (simp_all add: counters_def emit_transition_def count_terminal_def record_transition_def
        record_cancel_terminal_def Let_def)
  moreover have "counters ?e = map_option (\<lambda>(ct, qd). (ct, qd(mode_label e2 := queue_depth ?e)))
      (counters (emit_transition a b e2))"
    unfolding q by (cases "metrics (emit_transition a b e2)")
      (simp_all add: counters_def refresh_queue_depth_def set_queue_depth_def emit_transition_def)
  ultimately show ?thesis
    using assms by (cases "counters e")
      (auto simp: committed_def refresh_queue_depth_def emit_transition_def)
qed

lemma rel_observe:
  "lc_rel e e" "lc_rel e (emit_terminal_dedup ev e)" "lc_rel e (emit_unknown_cancel e)"
  by (rule lc_rel.observe; simp)+

lemma rel_commit:
  assumes "hget (orders e) l = Some snap" "ord_step snap ord"
    "lc_venue_order_id ord = lc_venue_order_id snap" "a = lc_state snap" "b = lc_state ord"
  shows "lc_rel e (refresh_queue_depth (emit_transition a b (put_order l ord e)))"
    "lc_rel e (refresh_queue_depth (emit_transition a b (emit_cancel_requested c (put_order l ord e))))"
  unfolding assms(4,5)
  by (rule lc_rel.update [OF assms(1,2)]; simp add: core_put_order assms(3) committed_refresh)+

lemma rel_commit_venue:
  assumes "hget (orders e) l = Some snap" "ord_step snap ord"
    "lc_venue_order_id snap \<in> {None, Some v}" "lc_venue_order_id ord = Some v"
    "ensure_venue_mapping e l v = Inr e1" "a = lc_state snap" "b = lc_state ord"
  shows "lc_rel e (refresh_queue_depth (emit_transition a b (put_order l ord e1)))"
  unfolding assms(6,7)
proof (rule lc_rel.update [OF assms(1,2), of "venue_to_lifecycle e1"])
  note e1 = ensure_venue_mapping_core [OF assms(5)]
  then have "counters e1 = counters e" by (simp add: counters_def)
  with e1 show "committed (lc_state snap) (lc_state ord) e
      (refresh_queue_depth (emit_transition (lc_state snap) (lc_state ord) (put_order l ord e1)))"
    by (intro committed_refresh) simp_all
qed (use assms(3,4) ensure_venue_mapping_core [OF assms(5)] in \<open>auto simp: core_put_order\<close>)

lemma place_request_rel: "lc_rel e (fst (record_place_request uuid e r))"
proof -
  let ?l = "unwrap_or (pr_lifecycle_id r) uuid"
  let ?ord = "\<lparr>lc_lifecycle_id = ?l, lc_client_order_id = pr_client_order_id r,
    lc_venue_order_id = None, lc_mint = pr_mint r, lc_market = pr_market r, lc_side = pr_side r,
    lc_price = pr_price r, lc_original_size = pr_size r, lc_remaining_size = pr_size r,
    lc_time_in_force = pr_time_in_force r, lc_state = SubmitPending,
    lc_cancel_requested = False, lc_signal_id = pr_signal_id r\<rparr>"
  let ?e = "(put_order ?l ?ord e)\<lparr>client_to_lifecycle := hput (pr_client_order_id r) ?l (client_to_lifecycle e)\<rparr>"
  have "committed SubmitPending SubmitPending e (refresh_queue_depth (emit_transition SubmitPending SubmitPending ?e))"
    by (rule committed_refresh) (simp_all add: counters_def put_order_def)
  then have "lc_rel e (refresh_queue_depth ?e)"
    if "\<not> fle (pr_size r) f0" "hget (client_to_lifecycle e) (pr_client_order_id r) = None"
      "hget (orders e) ?l = None"
    by (intro lc_rel.place [of _ ?ord]) (use that in \<open>auto simp: core_def put_order_def emit_defs\<close>)
  then show ?thesis
    unfolding record_place_request_def Let_def
    by (auto intro: rel_observe split: option.split)
qed

lemma place_success_rel: "lc_rel e (fst (record_place_success e r v))"
proof (cases "engine_get e r")
  case None
  then show ?thesis unfolding record_place_success_def
    by (auto intro: rel_observe simp: engine_get_def bind_eq_None_conv split: option.split)
next
  case (Some snap)
  then obtain l where l: "resolve_lifecycle_id e r = Some l" "hget (orders e) l = Some snap"
    by (auto simp: engine_get_def bind_eq_Some_conv)
  let ?ord = "snap\<lparr>lc_venue_order_id := Some v, lc_state := (if lc_state snap = SubmitPending
     then (if lc_cancel_requested snap then CancelPending else Open) else lc_state snap)\<rparr>"
  have upd: "lc_rel e (refresh_queue_depth (emit_transition st (lc_state ?ord) (put_order l ?ord e1)))"
    if "\<not> lco_is_terminal snap" "venue_conflict (lc_venue_order_id snap) (Some v) = None"
      "ensure_venue_mapping e l v = Inr e1" "st = lc_state snap" for st e1
  proof (rule rel_commit_venue [OF l(2)])
    show v: "lc_venue_order_id snap \<in> {None, Some v}" using that(2) by (auto simp: venue_conflict_None)
    show "ord_step snap ?ord" by (rule ord_step.ack [OF that(1) v refl])
  qed (simp_all add: that)
  show ?thesis
    using upd [OF _ _ _ refl] unfolding record_place_success_def
    by (cases "lc_state snap") (auto simp: l Let_def intro: rel_observe split: option.split sum.split)
qed

lemma place_rejected_rel: "lc_rel e (fst (record_place_rejected e r))"
proof -
  have "lc_rel e (refresh_queue_depth (emit_transition a b
      (put_order l (snap\<lparr>lc_state := Terminal TRejected\<rparr>) e)))"
    if "hget (orders e) l = Some snap" "lc_state snap = SubmitPending"
      "a = SubmitPending" "b = Terminal TRejected" for a b l snap
    by (rule rel_commit [OF that(1) ord_step.reject [OF that(2)]]) (simp_all add: that)
  then show ?thesis unfolding record_place_rejected_def Let_def
    by (auto intro: rel_observe split: option.split lc_state.split)
qed

lemma cancel_request_rel: "lc_rel e (fst (record_cancel_request e r))"
proof -
  let ?ord = "\<lambda>snap. case lc_state snap of
              SubmitPending \<Rightarrow> snap\<lparr>lc_cancel_requested := True\<rparr>
            | Open \<Rightarrow> snap\<lparr>lc_cancel_requested := True, lc_state := CancelPending\<rparr>
            | CancelPending \<Rightarrow> snap\<lparr>lc_cancel_requested := True\<rparr>
            | Terminal t \<Rightarrow> snap"
  have upd: "ord_step snap (?ord snap)" for snap
  proof (cases "lco_is_terminal snap")
    case True
    then show ?thesis
      by (cases "lc_state snap") (auto simp: lco_is_terminal_def intro: ord_step.stay)
  next
    case False
    then have "?ord snap = snap\<lparr>lc_cancel_requested := True,
        lc_state := (if lc_state snap = Open then CancelPending else lc_state snap)\<rparr>"
      by (cases "lc_state snap") (auto simp: lco_is_terminal_def)
    then show ?thesis using ord_step.cancel [OF False refl] by simp
  qed
  have v: "lc_venue_order_id (?ord snap) = lc_venue_order_id snap" for snap
    by (auto split: lc_state.split)
  show ?thesis
    unfolding record_cancel_request_def Let_def
    using rel_commit [OF _ upd v refl refl] by (auto intro: rel_observe split: option.split)
qed

lemma fill_evidence_rel: "lc_rel e (fst (record_fill_evidence e r filled))"
proof -
  have "lc_rel e (refresh_queue_depth (emit_transition a b (put_order l (snap\<lparr>lc_remaining_size :=
        fmax (fsub (lc_remaining_size snap) filled) f0,
      lc_state := (if fle (fmax (fsub (lc_remaining_size snap) filled) f0) f_epsilon
        then Terminal TFilled else if lc_state snap = SubmitPending then Open else lc_state snap)\<rparr>) e)))"
    if "hget (orders e) l = Some snap" "\<not> lco_is_terminal snap" "\<not> fle filled f0" "a = lc_state snap"
      "b = (if fle (fmax (fsub (lc_remaining_size snap) filled) f0) f_epsilon
        then Terminal TFilled else if lc_state snap = SubmitPending then Open else lc_state snap)" for a b l snap
    by (rule rel_commit [OF that(1) ord_step.fill [OF that(2,3) refl refl]]) (simp_all add: that)
  then show ?thesis unfolding record_fill_evidence_def Let_def
    by (simp add: rel_observe split: option.split)
qed

lemma terminal_evidence_rel: "lc_rel e (fst (record_terminal_evidence e r reason venue))"
proof (cases "engine_get e r")
  case None
  then show ?thesis unfolding record_terminal_evidence_def
    by (auto intro: rel_observe simp: engine_get_def bind_eq_None_conv split: option.split)
next
  case (Some snap)
  then obtain l where l: "resolve_lifecycle_id e r = Some l" "hget (orders e) l = Some snap"
    by (auto simp: engine_get_def bind_eq_Some_conv)
  let ?v = "case venue of None \<Rightarrow> lc_venue_order_id snap | Some v \<Rightarrow> Some v"
  let ?ord = "snap\<lparr>lc_venue_order_id := ?v,
    lc_cancel_requested := (reason = TCancelled \<or> lc_cancel_requested snap), lc_state := Terminal reason\<rparr>"
  have upd: "lc_rel e (refresh_queue_depth (emit_transition a b (put_order l ?ord e1)))"
    if t: "\<not> lco_is_terminal snap"
      and c: "\<not> (reason = TCancelled \<and> lc_state snap = SubmitPending \<and> \<not> lc_cancel_requested snap)"
      and v: "venue_conflict (lc_venue_order_id snap) venue = None"
      and m: "(case venue of None \<Rightarrow> Ok e | Some v \<Rightarrow> ensure_venue_mapping e l v) = Inr e1"
      and ab: "a = lc_state snap" "b = Terminal reason"
    for a b e1
  proof -
    have "?v = lc_venue_order_id snap \<or> lc_venue_order_id snap = None"
      using v by (auto simp: venue_conflict_None split: option.split)
    then have s: "ord_step snap ?ord" using c by (intro ord_step.finish [OF t _ _ refl]) auto
    show ?thesis
    proof (cases venue)
      case None
      with m show ?thesis using rel_commit(1) [OF l(2) s] ab by simp
    next
      case (Some w)
      with v have "lc_venue_order_id snap \<in> {None, Some w}" by (auto simp: venue_conflict_None)
      with Some m show ?thesis using rel_commit_venue [OF l(2) s, of w] ab by simp
    qed
  qed
  show ?thesis
    unfolding record_terminal_evidence_def
    by (simp add: l Let_def rel_observe split: option.split sum.split prod.split)
      (use upd in \<open>auto split: option.splits\<close>)
qed

section \<open>Runs\<close>

datatype lc_op =
    OpPlace string lc_place_request
  | OpSuccess lc_order_ref string
  | OpReject lc_order_ref
  | OpCancel lc_order_ref
  | OpCancelConfirmed lc_order_ref "string option"
  | OpFill lc_order_ref f64
  | OpTerminal lc_order_ref terminal_reason "string option"

fun lc_apply :: "engine \<Rightarrow> lc_op \<Rightarrow> engine" where
  "lc_apply e (OpPlace u r) = fst (record_place_request u e r)"
| "lc_apply e (OpSuccess r v) = fst (record_place_success e r v)"
| "lc_apply e (OpReject r) = fst (record_place_rejected e r)"
| "lc_apply e (OpCancel r) = fst (record_cancel_request e r)"
| "lc_apply e (OpCancelConfirmed r v) = fst (record_cancel_confirmed e r v)"
| "lc_apply e (OpFill r q) = fst (record_fill_evidence e r q)"
| "lc_apply e (OpTerminal r t v) = fst (record_terminal_evidence e r t v)"

lemma lc_apply_rel: "lc_rel e (lc_apply e x)"
  by (cases x) (simp_all add: place_request_rel place_success_rel place_rejected_rel
    cancel_request_rel fill_evidence_rel terminal_evidence_rel record_cancel_confirmed_def)

section \<open>Invariant\<close>

definition order_inv :: "lc_order \<Rightarrow> bool" where
  "order_inv ord \<longleftrightarrow> \<not> fle (lc_original_size ord) f0 \<and>
     (f64_ok (lc_original_size ord) \<longrightarrow> f64_ok (lc_remaining_size ord) \<and>
       (lc_original_size ord \<noteq> NaN \<longrightarrow>
         fle f0 (lc_remaining_size ord) \<and> fle (lc_remaining_size ord) (lc_original_size ord))) \<and>
     (lc_state ord \<in> {CancelPending, Terminal TCancelled} \<longrightarrow> lc_cancel_requested ord)"

text \<open>
  The three maps agree: a record is filed under its own lifecycle id, and the client and venue
  maps are exactly the inverse of the ids the records carry.
\<close>

definition lc_inv :: "engine \<Rightarrow> bool" where
  "lc_inv e \<longleftrightarrow>
     (\<forall>l ord. hget (orders e) l = Some ord \<longrightarrow> lc_lifecycle_id ord = l \<and> order_inv ord) \<and>
     index_ok (hget (orders e)) (\<lambda>ord. Some (lc_client_order_id ord)) (hget (client_to_lifecycle e)) \<and>
     index_ok (hget (orders e)) lc_venue_order_id (hget (venue_to_lifecycle e))"

fun lc_rank :: "lc_state \<Rightarrow> nat" where
  "lc_rank SubmitPending = 0"
| "lc_rank Open = 1"
| "lc_rank CancelPending = 2"
| "lc_rank (Terminal r) = 3"

text \<open>How a record may evolve: identity fixed, everything else only forward.\<close>

definition ident :: "lc_order \<Rightarrow> _" where
  "ident a = (lc_lifecycle_id a, lc_client_order_id a, lc_mint a, lc_market a, lc_side a, lc_price a,
     lc_original_size a, lc_time_in_force a, lc_signal_id a)"

definition shrinks :: "lc_order \<Rightarrow> f64 \<Rightarrow> f64 \<Rightarrow> bool" where
  "shrinks a x y \<longleftrightarrow> (f64_ok (lc_original_size a) \<and> lc_original_size a \<noteq> NaN \<longrightarrow> fle y x \<or> y = x)"

definition ord_le :: "lc_order \<Rightarrow> lc_order \<Rightarrow> bool" where
  "ord_le a b \<longleftrightarrow> ident b = ident a \<and>
     (lc_venue_order_id a = None \<or> lc_venue_order_id b = lc_venue_order_id a) \<and>
     (lc_cancel_requested a \<longrightarrow> lc_cancel_requested b) \<and>
     lc_rank (lc_state a) \<le> lc_rank (lc_state b) \<and>
     (lco_is_terminal a \<longrightarrow> b = a) \<and>
     shrinks a (lc_remaining_size a) (lc_remaining_size b)"

lemma fle_trans: "fle x y \<Longrightarrow> fle y z \<Longrightarrow> fle x z"
  by (cases x; cases y; cases z) auto

lemma fmax_sub_step:
  assumes "f64_ok x" "fle f0 x" "\<not> fle y f0"
  shows "fle f0 (fmax (fsub x y) f0)" "fle (fmax (fsub x y) f0) x"
proof -
  have "fle f0 (fmax (fsub x y) f0) \<and> fle (fmax (fsub x y) f0) x"
  proof (cases x)
    case (Fin a)
    with assms have a: "0 \<le> a" "rnd a = a" "\<bar>a\<bar> < 2 ^ 1024" by (auto simp: f0_def)
    show ?thesis
    proof (cases y)
      case (Fin b)
      with assms have b: "0 < b" by (simp add: f0_def)
      have "f_of (a - b) \<noteq> PosInf"
      proof
        assume "f_of (a - b) = PosInf"
        then have "2 ^ 1024 \<le> rnd (a - b)" by (auto simp: f_of_def Let_def split: if_splits)
        also have "\<dots> \<le> a" using a b by (intro rnd.sub_le) auto
        finally show False using a by simp
      qed
      then show ?thesis using \<open>x = Fin a\<close> Fin a b
        by (cases rule: f_of_cases [of "a - b"]) (auto simp: fmax_def f0_def intro: rnd.sub_le)
    qed (use \<open>x = Fin a\<close> a assms(3) in \<open>auto simp: fsub_def fmax_def f0_def\<close>)
  qed (use assms in \<open>cases y; auto simp: fsub_def fmax_def f0_def\<close>)+
  then show "fle f0 (fmax (fsub x y) f0)" "fle (fmax (fsub x y) f0) x" by auto
qed

lemma shrinks_refl [simp]: "shrinks a x x"
  by (simp add: shrinks_def)

lemma shrinks_trans: "shrinks a x y \<Longrightarrow> shrinks a y z \<Longrightarrow> shrinks a x z"
  unfolding shrinks_def using fle_trans by blast

lemma lc_rank_le_3 [simp]: "lc_rank s \<le> 3"
  by (cases s) auto

lemma live_rank: "\<not> lco_is_terminal a \<Longrightarrow> lc_rank (lc_state a) \<le> 2"
  by (cases "lc_state a") (auto simp: lco_is_terminal_def)

lemma ord_step_le: "ord_step a b \<Longrightarrow> order_inv a \<Longrightarrow> ord_le a b"
proof (induction rule: ord_step.induct)
  case (fill ord filled rem st)
  have "shrinks ord (lc_remaining_size ord) rem"
    using fill fmax_sub_step(2) by (auto simp: order_inv_def shrinks_def)
  then show ?case using fill by (simp add: ord_le_def ident_def)
next
  case (ack ord v st)
  then show ?case by (simp add: ord_le_def ident_def) auto
next
  case (finish ord reason v c)
  then show ?case by (auto simp: ord_le_def ident_def)
qed (simp_all add: ord_le_def ident_def lco_is_terminal_def)

lemma ord_step_inv: "ord_step a b \<Longrightarrow> order_inv a \<Longrightarrow> order_inv b"
proof (induction rule: ord_step.induct)
  case (fill ord filled rem st)
  have "f64_ok rem" if "f64_ok (lc_original_size ord)"
  proof -
    have "f64_ok (lc_remaining_size ord)" using that fill by (simp add: order_inv_def)
    then have "f64_ok (fsub (lc_remaining_size ord) filled)"
      by (cases "lc_remaining_size ord"; cases filled) (auto simp: fsub_def)
    then show ?thesis by (simp add: fill)
  qed
  moreover have "fle f0 rem \<and> fle rem (lc_original_size ord)"
    if "f64_ok (lc_original_size ord)" "lc_original_size ord \<noteq> NaN"
  proof -
    have r: "f64_ok (lc_remaining_size ord)" "fle f0 (lc_remaining_size ord)"
      "fle (lc_remaining_size ord) (lc_original_size ord)"
      using that fill by (auto simp: order_inv_def)
    with fmax_sub_step [OF r(1,2) fill(2)] show ?thesis
      unfolding fill(3) by (blast intro: fle_trans)
  qed
  ultimately show ?case using fill by (auto simp: order_inv_def)
qed (auto simp: order_inv_def lco_is_terminal_def split: if_splits)

lemma lc_rel_inv: "lc_rel e e' \<Longrightarrow> lc_inv e \<Longrightarrow> lc_inv e'"
proof (induction rule: lc_rel.induct)
  case (observe e' e)
  then show ?case by (simp add: lc_inv_def core_eq_iff)
next
  case (place e ord e')
  have "order_inv ord" using place by (cases "lc_original_size ord") (auto simp: order_inv_def f0_def)
  moreover have e': "orders e' = hput (lc_lifecycle_id ord) ord (orders e)"
    "client_to_lifecycle e' = hput (lc_client_order_id ord) (lc_lifecycle_id ord) (client_to_lifecycle e)"
    "venue_to_lifecycle e' = venue_to_lifecycle e"
    using place(8) by (auto simp: core_def)
  ultimately show ?case
    using place(1,2,5) \<open>lc_inv e\<close> by (auto simp: lc_inv_def e' intro: index_ok_new index_ok_add)
next
  case (update e l snap ord vmap e')
  have inv: "order_inv snap" "lc_lifecycle_id snap = l" using update by (auto simp: lc_inv_def)
  note le = ord_step_le [OF update(2) inv(1)] and oi = ord_step_inv [OF update(2) inv(1)]
  have ids: "lc_lifecycle_id ord = l" "lc_client_order_id ord = lc_client_order_id snap"
    using le inv by (auto simp: ord_le_def ident_def)
  have e': "orders e' = hput l ord (orders e)" "client_to_lifecycle e' = client_to_lifecycle e"
    "venue_to_lifecycle e' = vmap" using update(4) by (auto simp: core_def)
  have ix: "index_ok (hget (orders e)) (\<lambda>ord. Some (lc_client_order_id ord)) (hget (client_to_lifecycle e))"
    "index_ok (hget (orders e)) lc_venue_order_id (hget (venue_to_lifecycle e))"
    using update by (auto simp: lc_inv_def)
  have "index_ok ((hget (orders e))(l \<mapsto> ord)) lc_venue_order_id (hget vmap)"
    using update(3) index_ok_same [OF ix(2) update(1), of ord] index_ok_bind [OF ix(2) update(1), of ord]
      index_okI [OF ix(2) update(1)] index_okD [OF ix(2)] update(1) by fastforce
  moreover have "index_ok ((hget (orders e))(l \<mapsto> ord)) (\<lambda>ord. Some (lc_client_order_id ord))
      (hget (client_to_lifecycle e))"
    by (rule index_ok_same [OF ix(1) update(1)]) (simp add: ids)
  ultimately show ?case using \<open>lc_inv e\<close> ids oi by (simp add: lc_inv_def e')
qed


subsection \<open>The contracts of the engine\<close>

text \<open>Records only move forward, and no id binding is ever lost.\<close>

definition engine_le :: "engine \<Rightarrow> engine \<Rightarrow> bool" where
  "engine_le e e' \<longleftrightarrow>
     (\<forall>l a. hget (orders e) l = Some a \<longrightarrow> (\<exists>b. hget (orders e') l = Some b \<and> ord_le a b)) \<and>
     hget (client_to_lifecycle e) \<subseteq>\<^sub>m hget (client_to_lifecycle e') \<and>
     hget (venue_to_lifecycle e) \<subseteq>\<^sub>m hget (venue_to_lifecycle e')"

lemma ord_le_refl [simp]: "ord_le a a"
  by (simp add: ord_le_def)

lemma ord_le_trans:
  assumes "ord_le a b" "ord_le b c"
  shows "ord_le a c"
proof -
  have "shrinks a (lc_remaining_size b) (lc_remaining_size c)"
    using assms by (simp add: ord_le_def ident_def shrinks_def)
  with assms have "shrinks a (lc_remaining_size a) (lc_remaining_size c)"
    by (auto simp: ord_le_def intro: shrinks_trans)
  moreover have "lco_is_terminal a \<longrightarrow> c = a" "lc_rank (lc_state a) \<le> lc_rank (lc_state c)"
    using assms by (simp_all add: ord_le_def)
  moreover have "lc_venue_order_id a = None \<or> lc_venue_order_id c = lc_venue_order_id a"
    using assms by (auto simp: ord_le_def)
  ultimately show ?thesis using assms by (simp add: ord_le_def)
qed

lemma engine_le_refl: "engine_le e e"
  by (auto simp: engine_le_def)

lemma engine_le_trans: "engine_le e f \<Longrightarrow> engine_le f g \<Longrightarrow> engine_le e g"
  unfolding engine_le_def by (meson map_le_trans ord_le_trans)

lemma lc_rel_le: "lc_rel e e' \<Longrightarrow> lc_inv e \<Longrightarrow> engine_le e e'"
proof (induction rule: lc_rel.induct)
  case (observe e' e)
  then show ?case by (simp add: engine_le_def core_eq_iff)
next
  case (place e ord e')
  then show ?case by (auto simp: engine_le_def core_def map_le_def)
next
  case (update e l snap ord vmap e')
  then have "ord_le snap ord" by (auto simp: lc_inv_def intro: ord_step_le)
  with update show ?case by (auto simp: engine_le_def core_def map_le_def)
qed

lemma engine_le_terminal:
  "engine_le e e' \<Longrightarrow> hget (orders e) l = Some a \<Longrightarrow> lco_is_terminal a \<Longrightarrow> hget (orders e') l = Some a"
  by (fastforce simp: engine_le_def ord_le_def)

interpretation lc: progress_machine lc_apply "\<lambda>_. True" lc_inv engine_le
  by unfold_locales (auto intro: lc_rel_inv lc_rel_le lc_apply_rel engine_le_refl engine_le_trans)

interpretation lck: keyed_machine lc_apply "\<lambda>_. True" lc_inv "\<lambda>e. hget (orders e)" lco_is_terminal
  by unfold_locales (auto intro: engine_le_terminal lc_rel_le lc_apply_rel)

lemma lc_inv_new [simp]: "lc_inv engine_new"
  by (simp add: lc_inv_def engine_new_def index_ok_def)

lemma lc_inv_with_metrics [simp]: "lc_inv (with_metrics e m mode) = lc_inv e"
  by (simp add: lc_inv_def with_metrics_def refresh_queue_depth_def)

lemma resolve_total:
  assumes "lc_inv e" "resolve_lifecycle_id e r = Some l"
  obtains ord where "hget (orders e) l = Some ord"
  using assms by (cases r) (auto simp: lc_inv_def dest: index_okD split: if_splits)

text \<open>
  What the metrics promise while they are attached: the gauge is the number of queued cancels,
  and for every terminal reason the counter is the number of records that ended for that reason,
  so each record is counted once.
\<close>

definition metrics_inv :: "string \<Rightarrow> engine \<Rightarrow> bool" where
  "metrics_inv mode e \<longleftrightarrow> mode_label e = mode \<and> (\<exists>ct qd. counters e = Some (ct, qd) \<and>
     qd mode = queue_depth e \<and>
     (\<forall>t. ct [mode, reason_label t] = hcount (\<lambda>ord. lc_state ord = Terminal t) (orders e)))"

lemma reason_label_inj: "reason_label s = reason_label t \<longleftrightarrow> s = t"
  by (cases s; cases t) auto

lemma count_terminal_at: "count_terminal mode a b ct [mode, reason_label t] =
    ct [mode, reason_label t] + (if b = Terminal t \<and> a \<noteq> b then 1 else 0)"
  by (cases b) (auto simp: count_terminal_def inc_counter_def reason_label_inj)

lemma ord_step_terminal: "ord_step a b \<Longrightarrow> lco_is_terminal a \<Longrightarrow> b = a"
  by (induction rule: ord_step.induct) (auto simp: lco_is_terminal_def)

lemma lc_rel_metrics: "lc_rel e e' \<Longrightarrow> metrics_inv mode e \<Longrightarrow> metrics_inv mode e'"
proof (induction rule: lc_rel.induct)
  case (observe e' e)
  then show ?case by (simp add: metrics_inv_def core_eq_iff queue_depth_def)
next
  case (place e ord e')
  have "hcount (\<lambda>ord. lc_state ord = Terminal t) (orders e') =
      hcount (\<lambda>ord. lc_state ord = Terminal t) (orders e)" for t
    using place(2,3,8) by (simp add: core_def hcount_hput_new)
  with place show ?case
    by (auto simp: metrics_inv_def committed_def count_terminal_def split: option.splits)
next
  case (update e l snap ord vmap e')
  have cnt: "hcount (\<lambda>ord. lc_state ord = Terminal t) (orders e') +
      (if lc_state snap = Terminal t then 1 else 0) =
      hcount (\<lambda>ord. lc_state ord = Terminal t) (orders e) + (if lc_state ord = Terminal t then 1 else 0)" for t
    using update(4) hcount_hput_old [OF update(1), of "\<lambda>ord. lc_state ord = Terminal t" ord]
    by (simp add: core_def)
  have stay: "lc_state ord = lc_state snap" if "lc_is_terminal (lc_state snap)"
    using ord_step_terminal [OF update(2)] that by (simp add: lco_is_terminal_def)
  obtain ct qd where c: "counters e = Some (ct, qd)" and m: "mode_label e = mode"
    and ct: "\<And>t. ct [mode, reason_label t] = hcount (\<lambda>ord. lc_state ord = Terminal t) (orders e)"
    using \<open>metrics_inv mode e\<close> by (auto simp: metrics_inv_def)
  let ?ct = "count_terminal mode (lc_state snap) (lc_state ord) ct"
  have "counters e' = Some (?ct, qd(mode := queue_depth e'))" "mode_label e' = mode"
    using update(5) c m by (auto simp: committed_def)
  moreover have "?ct [mode, reason_label t] = hcount (\<lambda>ord. lc_state ord = Terminal t) (orders e')" for t
    unfolding count_terminal_at ct
    using cnt [of t] stay by (cases "lc_state snap = Terminal t"; cases "lc_state ord = Terminal t") auto
  ultimately show ?case by (simp add: metrics_inv_def)
qed

interpretation lcm: machine lc_apply "\<lambda>_. True" "metrics_inv mode" for mode
  by unfold_locales (rule lc_rel_metrics [OF lc_apply_rel])

definition zero_metrics :: lc_metrics where
  "zero_metrics = \<lparr>m_transitions = (\<lambda>_. 0), m_cancel_requested = (\<lambda>_. 0), m_cancel_terminal = (\<lambda>_. 0),
     m_terminal_dedup = (\<lambda>_. 0), m_unknown_cancel = (\<lambda>_. 0), m_queue_depth = (\<lambda>_. 0)\<rparr>"

lemma metrics_inv_start: "metrics_inv mode (with_metrics engine_new zero_metrics mode)"
  by (simp add: metrics_inv_def with_metrics_def engine_new_def refresh_queue_depth_def counters_def
    zero_metrics_def set_queue_depth_def queue_depth_def hvals_def hcount_def)

subsection \<open>Resolved calls\<close>

lemma engine_get_resolved:
  "engine_get e r = Some ord \<longleftrightarrow> (\<exists>l. resolve_lifecycle_id e r = Some l \<and> hget (orders e) l = Some ord)"
  by (simp add: engine_get_def bind_eq_Some_conv)

lemma resolve_core: "core e = core e' \<Longrightarrow> resolve_lifecycle_id e r = resolve_lifecycle_id e' r"
  by (cases r) (simp_all add: core_eq_iff)

lemma not_panic_if_inv:
  assumes "lc_inv e"
  shows "snd (record_place_request u e q) \<noteq> LcPanic" "snd (record_place_success e r v) \<noteq> LcPanic"
    "snd (record_place_rejected e r) \<noteq> LcPanic" "snd (record_cancel_request e r) \<noteq> LcPanic"
    "snd (record_fill_evidence e r f) \<noteq> LcPanic" "snd (record_terminal_evidence e r t w) \<noteq> LcPanic"
proof -
  have ex: "hget (orders e) l \<noteq> None" if "resolve_lifecycle_id e r = Some l" for l
    using resolve_total [OF assms that] by auto
  show "snd (record_place_request u e q) \<noteq> LcPanic"
    by (simp add: record_place_request_def Let_def put_order_def emit_defs)
  show "snd (record_place_success e r v) \<noteq> LcPanic"
    using ex by (auto simp: record_place_success_def Let_def split: op_splits)
  show "snd (record_place_rejected e r) \<noteq> LcPanic"
    using ex by (auto simp: record_place_rejected_def Let_def split: op_splits)
  show "snd (record_cancel_request e r) \<noteq> LcPanic"
    using ex by (auto simp: record_cancel_request_def Let_def split: option.splits)
  show "snd (record_fill_evidence e r f) \<noteq> LcPanic"
    using ex by (auto simp: record_fill_evidence_def Let_def split: option.splits)
  show "snd (record_terminal_evidence e r t w) \<noteq> LcPanic"
    using ex by (auto simp: record_terminal_evidence_def Let_def split: option.splits sum.splits)
qed

subsection \<open>What the calls return\<close>

lemma get_put_order:
  assumes "engine_get e r = Some snap" "core e2 = core (put_order l ord e)"
    "resolve_lifecycle_id e r = Some l"
  shows "engine_get e2 r = Some ord"
  using assms by (cases r) (auto simp: engine_get_def bind_eq_Some_conv core_eq_iff put_order_def split: if_splits)

lemma resolve_bind:
  assumes "resolve_lifecycle_id e r = Some l" "hget (venue_to_lifecycle e) v = None"
  shows "resolve_lifecycle_id (e\<lparr>venue_to_lifecycle := hput v k (venue_to_lifecycle e)\<rparr>) r = Some l"
proof (cases r)
  case (VenueOrderId x)
  with assms have "x \<noteq> v" by auto
  with VenueOrderId assms show ?thesis by simp
qed (use assms in simp_all)

lemma fmax_fsub_Fin:
  assumes "f64_ok (Fin a)" "0 \<le> a" "0 < b"
  shows "fmax (fsub (Fin a) (Fin b)) f0 = Fin (if b \<le> a then rnd (a - b) else 0)"
proof (cases "b \<le> a")
  case True
  then have "f_of (a - b) = Fin (rnd (a - b))" "0 \<le> rnd (a - b)"
    using f_of_between [of a "a - b"] assms by auto
  with True show ?thesis by (auto simp: fmax_def f0_def)
next
  case False
  then have "rnd (a - b) \<le> 0" by (intro rnd.nonpos) simp
  with False show ?thesis by (cases rule: f_of_cases [of "a - b"]) (auto simp: fmax_def f0_def)
qed

lemma fill_result:
  assumes "engine_get e r = Some ord" "\<not> lco_is_terminal ord" "\<not> fle q f0"
  shows "\<exists>l. resolve_lifecycle_id e r = Some l \<and>
    record_fill_evidence e r q =
      (let rem = fmax (fsub (lc_remaining_size ord) q) f0;
         ord' = ord\<lparr>lc_remaining_size := rem, lc_state := (if fle rem f_epsilon then Terminal TFilled
           else if lc_state ord = SubmitPending then Open else lc_state ord)\<rparr>
       in (refresh_queue_depth (emit_transition (lc_state ord) (lc_state ord') (put_order l ord' e)), LcOk ord'))"
  using assms by (auto simp: record_fill_evidence_def engine_get_resolved Let_def)

definition demo_engine :: engine where
  "demo_engine = fst (record_cancel_request (fst (record_place_request ''u1'' engine_new
     \<lparr>pr_lifecycle_id = None, pr_client_order_id = ''c1'', pr_mint = ''m'', pr_market = None,
      pr_side = Buy, pr_price = Fin (1 / 2), pr_size = Fin 10, pr_time_in_force = GoodTilCancelled,
      pr_signal_id = None\<rparr>)) (ClientOrderId ''c1''))"

definition demo_order :: lc_order where
  "demo_order = \<lparr>lc_lifecycle_id = ''u1'', lc_client_order_id = ''c1'', lc_venue_order_id = None,
     lc_mint = ''m'', lc_market = None, lc_side = Buy, lc_price = Fin (1 / 2),
     lc_original_size = Fin 10, lc_remaining_size = Fin 10, lc_time_in_force = GoodTilCancelled,
     lc_state = SubmitPending, lc_cancel_requested = True, lc_signal_id = None\<rparr>"

lemma demo_engine_eq: "demo_engine = \<lparr>orders = [(''u1'', demo_order)], client_to_lifecycle = [(''c1'', ''u1'')],
    venue_to_lifecycle = [], metrics = None, mode_label = ''unknown'', cancel_policy = Idempotent\<rparr>"
  by (simp add: demo_engine_def demo_order_def record_place_request_def record_cancel_request_def
    engine_new_def put_order_def hput_def emit_defs on_metrics_def f0_def Let_def)

lemma demo_get: "engine_get demo_engine (ClientOrderId ''c1'') = Some demo_order"
  by (simp add: demo_engine_eq engine_get_def)

lemma demo_order_simps [simp]:
  "lc_state demo_order = SubmitPending" "lc_cancel_requested demo_order"
  "lc_venue_order_id demo_order = None" "lc_remaining_size demo_order = Fin 10"
  "\<not> lco_is_terminal demo_order" "lc_original_size demo_order = Fin 10"
  by (simp_all add: demo_order_def lco_is_terminal_def)

lemma demo_inv: "lc_inv demo_engine"
proof -
  have "demo_engine = foldl lc_apply engine_new [OpPlace ''u1''
     \<lparr>pr_lifecycle_id = None, pr_client_order_id = ''c1'', pr_mint = ''m'', pr_market = None,
      pr_side = Buy, pr_price = Fin (1 / 2), pr_size = Fin 10, pr_time_in_force = GoodTilCancelled,
      pr_signal_id = None\<rparr>, OpCancel (ClientOrderId ''c1'')]"
    by (simp add: demo_engine_def)
  also have "lc_inv \<dots>" by (rule lc.run_inv) (simp_all add: list_all_iff)
  finally show ?thesis .
qed

section \<open>Properties\<close>

text \<open>C1. After any sequence of lifecycle calls on a new engine the three maps of the engine
  agree (every record is filed under its own id; the client and venue maps are exact inverses of
  the ids the records carry), remaining sizes lie between zero and the original size, and an order
  that is cancel-pending or cancelled had a cancel requested.\<close>

theorem lifecycle_invariant: "lc_inv (foldl lc_apply engine_new ops)"
  by (rule lc.run_inv) (simp_all add: list_all_iff)

text \<open>No call panics: every \<open>expect\<close> of the engine finds its record, whatever calls came before.\<close>

theorem lifecycle_never_panics:
  "let e = foldl lc_apply engine_new ops in
     snd (record_place_request u e q) \<noteq> LcPanic \<and> snd (record_place_success e r v) \<noteq> LcPanic \<and>
     snd (record_place_rejected e r) \<noteq> LcPanic \<and> snd (record_cancel_request e r) \<noteq> LcPanic \<and>
     snd (record_cancel_confirmed e r w) \<noteq> LcPanic \<and> snd (record_fill_evidence e r f) \<noteq> LcPanic \<and>
     snd (record_terminal_evidence e r t w) \<noteq> LcPanic"
proof -
  have "lc_inv (foldl lc_apply engine_new ops)" by (rule lc.run_inv) (simp_all add: list_all_iff)
  from not_panic_if_inv [OF this] show ?thesis by (simp add: Let_def record_cancel_confirmed_def)
qed

text \<open>C2. Records only move forward: after more calls every record is still there with the same
  identity, price and original size, its venue id once set and its cancel request once made stay,
  its state never moves back, a terminal record is unchanged in every field, and no client or venue
  id is ever rebound.\<close>

theorem lifecycle_moves_forward:
  "engine_le (foldl lc_apply engine_new ops) (foldl lc_apply engine_new (ops @ later))"
  unfolding foldl_append by (rule lc.run_le) (simp_all add: list_all_iff lc.run_inv)

text \<open>A terminal record is frozen: no sequence of calls changes it.\<close>

theorem terminal_is_final:
  "lc_inv e \<Longrightarrow> hget (orders e) l = Some ord \<Longrightarrow> lco_is_terminal ord \<Longrightarrow>
   hget (orders (foldl lc_apply e ops)) l = Some ord"
  by (rule lck.run_final_kept) (simp_all add: list_all_iff)

text \<open>With fresh metrics attached, after any calls the queue-depth gauge is the number of
  cancels queued behind an unacknowledged placement, and the terminal counter of each reason is
  exactly the number of orders that ended for that reason: every order is counted once, however
  often the terminal evidence was repeated.\<close>

theorem terminal_counted_once:
  "let e = foldl lc_apply (with_metrics engine_new zero_metrics mode) ops in
     \<exists>m. metrics e = Some m \<and> m_queue_depth m mode = queue_depth e \<and>
       m_cancel_terminal m [mode, reason_label t] =
         hcount (\<lambda>ord. lc_state ord = Terminal t) (orders e)"
proof -
  have "metrics_inv mode (foldl lc_apply (with_metrics engine_new zero_metrics mode) ops)"
    by (rule lcm.run_inv [OF metrics_inv_start]) (simp add: list_all_iff)
  then show ?thesis by (auto simp: metrics_inv_def counters_def Let_def)
qed

text \<open>A fill of a live order subtracts the filled size from the remaining size, rounded once
  and never below zero; the order is Filled exactly when at most the machine epsilon remains, and a
  placement that is still unacknowledged becomes Open.\<close>

theorem fill_effect:
  assumes "engine_get e r = Some ord" "\<not> lco_is_terminal ord"
    "lc_remaining_size ord = Fin a" "f64_ok (Fin a)" "0 \<le> a" "0 < b"
  shows "let rem = (if b \<le> a then rnd (a - b) else 0);
      ord' = ord\<lparr>lc_remaining_size := Fin rem, lc_state := (if rem \<le> 2 powi (- 52) then Terminal TFilled
        else if lc_state ord = SubmitPending then Open else lc_state ord)\<rparr>
    in 0 \<le> rem \<and> rem \<le> a \<and> snd (record_fill_evidence e r (Fin b)) = LcOk ord' \<and>
       engine_get (fst (record_fill_evidence e r (Fin b))) r = Some ord'"
proof -
  have "\<not> fle (Fin b) f0" using assms by (simp add: f0_def)
  from fill_result [OF assms(1,2) this] obtain l where l: "resolve_lifecycle_id e r = Some l"
    and eq: "record_fill_evidence e r (Fin b) =
      (let rem = fmax (fsub (lc_remaining_size ord) (Fin b)) f0;
         ord' = ord\<lparr>lc_remaining_size := rem, lc_state := (if fle rem f_epsilon then Terminal TFilled
           else if lc_state ord = SubmitPending then Open else lc_state ord)\<rparr>
       in (refresh_queue_depth (emit_transition (lc_state ord) (lc_state ord') (put_order l ord' e)), LcOk ord'))"
    by blast
  have "0 \<le> (if b \<le> a then rnd (a - b) else 0)" "(if b \<le> a then rnd (a - b) else 0) \<le> a"
    using assms rnd.sub_between [of a b] by auto
  then show ?thesis
    unfolding eq Let_def assms(3) fmax_fsub_Fin [OF assms(4-6)]
    using get_put_order [OF assms(1) _ l] by (simp add: f_epsilon_def)
qed

theorem fill_effect_witness:
  "engine_get (fst (record_fill_evidence demo_engine (ClientOrderId ''c1'') (Fin 4))) (ClientOrderId ''c1'') =
     Some (demo_order\<lparr>lc_remaining_size := Fin 6, lc_state := Open\<rparr>)"
  using fill_effect [OF demo_get, of 10 4] by (simp add: Let_def power_int_minus)

text \<open>A cancel queued behind an unacknowledged placement is honoured by the acknowledgement:
  the order goes to CancelPending and carries its venue id.\<close>

theorem queued_cancel_survives_ack:
  assumes "engine_get e r = Some ord" "lc_state ord = SubmitPending" "lc_cancel_requested ord"
    "lc_venue_order_id ord = None" "hget (venue_to_lifecycle e) v = None"
  shows "engine_get (fst (record_place_success e r v)) r =
    Some (ord\<lparr>lc_venue_order_id := Some v, lc_state := CancelPending\<rparr>)"
proof -
  obtain l where l: "resolve_lifecycle_id e r = Some l" "hget (orders e) l = Some ord"
    using assms(1) by (auto simp: engine_get_resolved)
  let ?e = "e\<lparr>venue_to_lifecycle := hput v l (venue_to_lifecycle e)\<rparr>"
  let ?ord = "ord\<lparr>lc_venue_order_id := Some v, lc_state := CancelPending\<rparr>"
  have eq: "fst (record_place_success e r v) =
      refresh_queue_depth (emit_transition SubmitPending CancelPending (put_order l ?ord ?e))"
    using assms l by (simp add: record_place_success_def lco_is_terminal_def venue_conflict_def
      ensure_venue_mapping_def Let_def)
  have res: "resolve_lifecycle_id ?e r = Some l" using l(1) assms(5) by (rule resolve_bind)
  have get: "engine_get ?e r = Some ord" using res l(2) by (simp add: engine_get_resolved)
  show ?thesis unfolding eq by (rule get_put_order [OF get _ res]) simp
qed

theorem queued_cancel_survives_ack_witness:
  "engine_get (fst (record_place_success demo_engine (ClientOrderId ''c1'') ''v1'')) (ClientOrderId ''c1'') =
     Some (demo_order\<lparr>lc_venue_order_id := Some ''v1'', lc_state := CancelPending\<rparr>)"
  by (rule queued_cancel_survives_ack [OF demo_get]) (simp_all add: demo_engine_eq)

text \<open>A partial fill that overtakes the acknowledgement drops the queued cancel: the fill makes
  the order Open, and the later acknowledgement leaves it Open although its cancel request is still
  recorded (compare C7).\<close>

theorem queued_cancel_lost_by_fill:
  assumes "engine_get e r = Some ord" "lc_state ord = SubmitPending" "lc_cancel_requested ord"
    "lc_venue_order_id ord = None" "hget (venue_to_lifecycle e) v = None"
    "\<not> fle q f0" "\<not> fle (fmax (fsub (lc_remaining_size ord) q) f0) f_epsilon"
  shows "\<exists>ord'. engine_get (fst (record_place_success (fst (record_fill_evidence e r q)) r v)) r = Some ord' \<and>
     lc_state ord' = Open \<and> lc_cancel_requested ord' \<and> lc_venue_order_id ord' = Some v"
proof -
  let ?o1 = "ord\<lparr>lc_remaining_size := fmax (fsub (lc_remaining_size ord) q) f0, lc_state := Open\<rparr>"
  have live: "\<not> lco_is_terminal ord" using assms(2) by (simp add: lco_is_terminal_def)
  obtain l where l: "resolve_lifecycle_id e r = Some l"
    and fl: "fst (record_fill_evidence e r q) =
      refresh_queue_depth (emit_transition SubmitPending Open (put_order l ?o1 e))"
    using fill_result [OF assms(1) live assms(6)] assms(2,7) by (auto simp: Let_def)
  let ?e1 = "fst (record_fill_evidence e r q)"
  have g1: "engine_get ?e1 r = Some ?o1" using get_put_order [OF assms(1) _ l] fl by simp
  have c1: "core ?e1 = core (put_order l ?o1 e)" unfolding fl by simp
  have l1: "resolve_lifecycle_id ?e1 r = Some l" "hget (orders ?e1) l = Some ?o1"
    "venue_to_lifecycle ?e1 = venue_to_lifecycle e"
    using c1 l by (cases r; auto simp: core_eq_iff put_order_def split: if_splits)+
  let ?e2 = "?e1\<lparr>venue_to_lifecycle := hput v l (venue_to_lifecycle e)\<rparr>"
  let ?o2 = "?o1\<lparr>lc_venue_order_id := Some v, lc_state := Open\<rparr>"
  have eq: "fst (record_place_success ?e1 r v) =
      refresh_queue_depth (emit_transition Open Open (put_order l ?o2 ?e2))"
    using assms(4,5) l1 by (simp add: record_place_success_def lco_is_terminal_def venue_conflict_def
      ensure_venue_mapping_def Let_def)
  have res: "resolve_lifecycle_id ?e2 r = Some l"
    using resolve_bind [OF l1(1), of v l] assms(5) by (simp only: l1(3))
  have get: "engine_get ?e2 r = Some ?o1" using res l1(2) by (simp add: engine_get_resolved)
  have "engine_get (fst (record_place_success ?e1 r v)) r = Some ?o2"
    unfolding eq by (rule get_put_order [OF get _ res]) simp
  with assms(3) show ?thesis by simp
qed

theorem queued_cancel_lost_by_fill_witness:
  "\<exists>ord'. engine_get (fst (record_place_success (fst (record_fill_evidence demo_engine
       (ClientOrderId ''c1'') (Fin 4))) (ClientOrderId ''c1'') ''v1'')) (ClientOrderId ''c1'') = Some ord' \<and>
     lc_state ord' = Open \<and> lc_cancel_requested ord' \<and> lc_venue_order_id ord' = Some ''v1''"
  by (rule queued_cancel_lost_by_fill [OF demo_get])
    (simp_all add: demo_engine_eq f0_def f_epsilon_def fmax_def power_int_minus)

text \<open>Terminal evidence is idempotent: once an order is terminal, any further evidence, fill,
  acknowledgement, rejection or cancel for it succeeds with the record unchanged and changes nothing
  in the engine but its metrics.\<close>

theorem terminal_evidence_idempotent:
  assumes "engine_get e r = Some ord" "lco_is_terminal ord" "\<not> fle q f0"
  shows "snd (record_terminal_evidence e r t w) = LcOk ord \<and> core (fst (record_terminal_evidence e r t w)) = core e \<and>
     snd (record_fill_evidence e r q) = LcOk ord \<and> core (fst (record_fill_evidence e r q)) = core e \<and>
     snd (record_place_success e r v) = LcOk ord \<and> core (fst (record_place_success e r v)) = core e \<and>
     snd (record_place_rejected e r) = LcOk ord \<and> core (fst (record_place_rejected e r)) = core e \<and>
     snd (record_cancel_request e r) = LcOk (Updated ord) \<and>
     (\<forall>s. engine_get (fst (record_cancel_request e r)) s = engine_get e s)"
proof -
  obtain l where l: "resolve_lifecycle_id e r = Some l" "hget (orders e) l = Some ord"
    using assms(1) by (auto simp: engine_get_resolved)
  obtain tr where st: "lc_state ord = Terminal tr"
    using assms(2) by (cases "lc_state ord") (auto simp: lco_is_terminal_def)
  have "engine_get (fst (record_cancel_request e r)) s = engine_get e s" for s
  proof -
    have "core (fst (record_cancel_request e r)) = core (put_order l ord e)"
      using l st by (simp add: record_cancel_request_def Let_def)
    then have "hget (orders (fst (record_cancel_request e r))) = hget (orders e)"
      "client_to_lifecycle (fst (record_cancel_request e r)) = client_to_lifecycle e"
      "venue_to_lifecycle (fst (record_cancel_request e r)) = venue_to_lifecycle e"
      using l by (auto simp: core_eq_iff put_order_def)
    then show ?thesis by (cases s) (simp_all add: engine_get_def)
  qed
  then show ?thesis
    using assms l st
    by (simp add: record_terminal_evidence_def record_fill_evidence_def record_place_success_def
      record_place_rejected_def record_cancel_request_def Let_def)
qed

text \<open>A fill whose size is not a number passes the positive-size guard and closes the whole
  order as Filled with nothing remaining, whatever was left of it.\<close>

theorem nan_fill_closes_order:
  assumes "engine_get e r = Some ord" "\<not> lco_is_terminal ord"
  shows "snd (record_fill_evidence e r NaN) =
    LcOk (ord\<lparr>lc_remaining_size := f0, lc_state := Terminal TFilled\<rparr>)"
proof -
  have n: "fmax (fsub x NaN) f0 = f0" for x by (cases x) (auto simp: fsub_def fmax_def)
  have "\<not> fle NaN f0" "fle f0 f_epsilon" by (simp_all add: f0_def f_epsilon_def)
  then show ?thesis using fill_result [OF assms, of NaN] by (auto simp: n Let_def)
qed

theorem nan_fill_closes_order_witness:
  "snd (record_fill_evidence demo_engine (ClientOrderId ''c1'') NaN) =
    LcOk (demo_order\<lparr>lc_remaining_size := f0, lc_state := Terminal TFilled\<rparr>)"
  by (rule nan_fill_closes_order [OF demo_get]) simp

text \<open>A call that returns an error leaves every record and both id maps as they were.\<close>

theorem errors_change_nothing:
  "(snd (record_place_request u e q) = LcErr x \<longrightarrow> core (fst (record_place_request u e q)) = core e) \<and>
   (snd (record_place_success e r v) = LcErr x \<longrightarrow> core (fst (record_place_success e r v)) = core e) \<and>
   (snd (record_place_rejected e r) = LcErr x \<longrightarrow> core (fst (record_place_rejected e r)) = core e) \<and>
   (snd (record_cancel_request e r) = LcErr x \<longrightarrow> core (fst (record_cancel_request e r)) = core e) \<and>
   (snd (record_fill_evidence e r f) = LcErr x \<longrightarrow> core (fst (record_fill_evidence e r f)) = core e) \<and>
   (snd (record_terminal_evidence e r t w) = LcErr x \<longrightarrow> core (fst (record_terminal_evidence e r t w)) = core e)"
proof (intro conjI impI)
  show "core (fst (record_place_request u e q)) = core e" if "snd (record_place_request u e q) = LcErr x"
    using that by (auto simp: record_place_request_def Let_def split: if_splits option.splits)
  show "core (fst (record_place_success e r v)) = core e" if "snd (record_place_success e r v) = LcErr x"
    using that by (auto simp: record_place_success_def Let_def split: if_splits op_splits)
  show "core (fst (record_place_rejected e r)) = core e" if "snd (record_place_rejected e r) = LcErr x"
    using that by (auto simp: record_place_rejected_def Let_def split: if_splits op_splits)
  show "core (fst (record_cancel_request e r)) = core e" if "snd (record_cancel_request e r) = LcErr x"
    using that by (auto simp: record_cancel_request_def Let_def split: if_splits option.splits)
  show "core (fst (record_fill_evidence e r f)) = core e" if "snd (record_fill_evidence e r f) = LcErr x"
    using that by (auto simp: record_fill_evidence_def Let_def split: if_splits option.splits)
  show "core (fst (record_terminal_evidence e r t w)) = core e"
    if "snd (record_terminal_evidence e r t w) = LcErr x"
    using that by (auto simp: record_terminal_evidence_def Let_def split: if_splits option.splits sum.splits)
qed

theorem errors_change_nothing_witness:
  "core (fst (record_terminal_evidence engine_new (LifecycleId ''x'') TFilled None)) = core engine_new"
  using errors_change_nothing [where e = engine_new and r = "LifecycleId ''x''" and t = TFilled and w = None
    and x = "UnknownOrder (LifecycleId ''x'')"]
  by (simp add: record_terminal_evidence_def engine_new_def)

theorem terminal_is_final_witness:
  "hget (orders (foldl lc_apply (fst (record_fill_evidence demo_engine (ClientOrderId ''c1'') (Fin 10)))
     [OpCancel (ClientOrderId ''c1''), OpFill (ClientOrderId ''c1'') (Fin 3)])) ''u1'' =
   Some (demo_order\<lparr>lc_remaining_size := Fin 0, lc_state := Terminal TFilled\<rparr>)"
proof (rule terminal_is_final)
  show "lc_inv (fst (record_fill_evidence demo_engine (ClientOrderId ''c1'') (Fin 10)))"
    using lc_rel_inv [OF fill_evidence_rel demo_inv] .
  show "hget (orders (fst (record_fill_evidence demo_engine (ClientOrderId ''c1'') (Fin 10)))) ''u1'' =
      Some (demo_order\<lparr>lc_remaining_size := Fin 0, lc_state := Terminal TFilled\<rparr>)"
    by (simp add: demo_engine_eq record_fill_evidence_def f0_def f_epsilon_def fmax_def
      put_order_def hput_def emit_defs Let_def)
qed (simp add: lco_is_terminal_def)

theorem terminal_evidence_idempotent_witness:
  "snd (record_place_rejected (fst (record_fill_evidence demo_engine (ClientOrderId ''c1'') NaN)) (ClientOrderId ''c1'')) =
    LcOk (demo_order\<lparr>lc_remaining_size := f0, lc_state := Terminal TFilled\<rparr>)"
proof -
  have "engine_get (fst (record_fill_evidence demo_engine (ClientOrderId ''c1'') NaN)) (ClientOrderId ''c1'') =
      Some (demo_order\<lparr>lc_remaining_size := f0, lc_state := Terminal TFilled\<rparr>)"
    by (simp add: demo_engine_eq record_fill_evidence_def f0_def f_epsilon_def fmax_def fsub_def
      put_order_def hput_def emit_defs engine_get_def Let_def)
  from terminal_evidence_idempotent [OF this, of "Fin 1"] show ?thesis
    by (simp add: lco_is_terminal_def f0_def)
qed

end
