(* ===== verification/PositionState.thy ===== *)
theory PositionState
  imports Orders "HOL-Library.Word"
begin

text \<open>
  The data of the position manager: \<open>position/position.rs\<close> (positions), \<open>position/events.rs\<close>
  (the events it emits), \<open>position/errors.rs\<close>, \<open>position/pending_order.rs\<close> (pending and in-flight
  orders), \<open>signal/redemption.rs\<close> and \<open>signal/intent.rs\<close> (redemption policies, quote levels and
  intents) and \<open>position/state.rs\<close> (the state behind the manager's mutex, with its accessors).
  Counters of type \<open>u32\<close> are 32-bit words and wrap, as in a release build.
\<close>

type_synonym u32 = "32 word"

definition position_dust_threshold :: f64 where "position_dust_threshold = f_lit (1 / 1000000)"
definition order_dust_threshold :: f64 where "order_dust_threshold = f_lit (5 / 1000)"

section \<open>Positions and events\<close>

record active_exit_order =
  ae_order_id :: string
  ae_price :: f64
  ae_size :: f64
  ae_placed_at :: timestamp
  ae_side :: order_side

record position =
  pos_mint :: string
  pos_amount :: f64
  pos_entry_price :: "f64 option"
  pos_current_price :: "f64 option"
  pos_current_price_updated_time :: timestamp
  pos_pnl_pct :: "f64 option"
  pos_entry_time :: timestamp
  pos_entry_slot :: nat
  pos_entry_signature :: signature
  pos_signal_id :: "string option"
  pos_sell_failure_count :: u32
  pos_active_exit_order :: "active_exit_order option"
  pos_exit_mode :: exit_mode

datatype exit_reason =
    TakeProfit | StopLoss | ManualClose | MaxSellFailures | Timeout | RedemptionExit | OtherExit string

datatype update_source =
    FillSource f64 f64 order_side "string option"
  | ReconciliationSource f64 f64
  | RedemptionSource f64 f64
  | ManualSource
  | PriceUpdateSource

datatype position_event =
    PositionCreated position f64
  | PositionUpdated position update_source f64
  | PositionClosed position "f64 option" "f64 option" duration "string option" exit_reason f64

datatype position_error =
    InsufficientSolBalance f64 f64
  | PositionNotFound string
  | InvalidEventType
  | OrderRejectedError string string
  | MaxOpenPositionsReached u32
  | ReconciliationFailed string
  | OrderNotFound string
  | InvalidIntent order_side nat bool f64

section \<open>Pending and in-flight orders\<close>

record pending_order =
  po_order_id :: string
  po_mint :: string
  po_market :: "string option"
  po_side :: order_side
  po_price :: f64
  po_original_size :: f64
  po_remaining_size :: f64
  po_placed_at :: timestamp
  po_signal_id :: "string option"
  po_exit_mode :: "exit_mode option"

definition pending_new :: "string \<Rightarrow> string \<Rightarrow> string option \<Rightarrow> order_side \<Rightarrow> f64 \<Rightarrow> f64 \<Rightarrow>
    timestamp \<Rightarrow> string option \<Rightarrow> pending_order" where
  "pending_new oid mint market side price sz placed signal =
     \<lparr>po_order_id = oid, po_mint = mint, po_market = market, po_side = side, po_price = price,
      po_original_size = sz, po_remaining_size = sz, po_placed_at = placed, po_signal_id = signal,
      po_exit_mode = None\<rparr>"

definition pending_with_exit_mode :: "pending_order \<Rightarrow> exit_mode option \<Rightarrow> pending_order" where
  "pending_with_exit_mode p m = p\<lparr>po_exit_mode := m\<rparr>"

definition is_partially_filled :: "pending_order \<Rightarrow> bool" where
  "is_partially_filled p = flt (po_remaining_size p) (po_original_size p)"

definition filled_size :: "pending_order \<Rightarrow> f64" where
  "filled_size p = fsub (po_original_size p) (po_remaining_size p)"

definition fill_percentage :: "pending_order \<Rightarrow> f64" where
  "fill_percentage p = (if feq (po_original_size p) f0 then f0
     else fdiv (filled_size p) (po_original_size p))"

definition apply_partial_fill :: "pending_order \<Rightarrow> f64 \<Rightarrow> pending_order" where
  "apply_partial_fill p q = p\<lparr>po_remaining_size := fmax (fsub (po_remaining_size p) q) f0\<rparr>"

definition tol :: f64 where "tol = f_lit (1 / 100)"

definition close_to :: "f64 \<Rightarrow> f64 \<Rightarrow> bool" where
  "close_to x y = flt (fabs (fsub x y)) tol"

definition matches_level :: "pending_order \<Rightarrow> f64 \<Rightarrow> f64 \<Rightarrow> bool" where
  "matches_level p price sz \<longleftrightarrow> close_to (po_price p) price \<and> close_to (po_remaining_size p) sz"

definition same_price :: "pending_order \<Rightarrow> f64 \<Rightarrow> bool" where
  "same_price p price = close_to (po_price p) price"

record in_flight_order =
  fo_id :: string
  fo_mint :: string
  fo_market :: "string option"
  fo_side :: order_side
  fo_price :: f64
  fo_size :: f64
  fo_submitted_at :: timestamp
  fo_signal_id :: "string option"

definition in_flight_matches_level :: "in_flight_order \<Rightarrow> f64 \<Rightarrow> f64 \<Rightarrow> bool" where
  "in_flight_matches_level p price sz \<longleftrightarrow> close_to (fo_price p) price \<and> close_to (fo_size p) sz"

section \<open>Intents and redemption policies\<close>

record quote_level =
  ql_price :: f64
  ql_size :: f64
  ql_time_in_force :: time_in_force

definition level_gtc :: "f64 \<Rightarrow> f64 \<Rightarrow> quote_level" where
  "level_gtc p s = \<lparr>ql_price = p, ql_size = s, ql_time_in_force = GoodTilCancelled\<rparr>"

record redemption_policy =
  rp_market :: string
  rp_up_asset_id :: string
  rp_down_asset_id :: string
  rp_max_unredeemed_pair_value :: f64

definition pairs_to_redeem :: "redemption_policy \<Rightarrow> f64 \<Rightarrow> f64 \<Rightarrow> f64" where
  "pairs_to_redeem p up_qty down_qty =
     (let paired = fmin up_qty down_qty in
      if flt (rp_max_unredeemed_pair_value p) paired
      then fsub paired (rp_max_unredeemed_pair_value p) else f0)"

record redemption_action =
  ra_market :: string
  ra_up_asset_id :: string
  ra_down_asset_id :: string
  ra_quantity :: f64
  ra_timestamp :: timestamp

record order_intent =
  oi_mint :: string
  oi_market :: "string option"
  oi_bids :: "quote_level list option"
  oi_asks :: "quote_level list option"
  oi_signal_id :: string
  oi_timestamp :: timestamp
  oi_context :: "json option"
  oi_redemption_policy :: "redemption_policy option"

definition intent_new :: "string \<Rightarrow> string option \<Rightarrow> quote_level list option \<Rightarrow> quote_level list option \<Rightarrow>
    string \<Rightarrow> timestamp \<Rightarrow> json option \<Rightarrow> order_intent" where
  "intent_new mint market bids asks sid ts ctx =
     \<lparr>oi_mint = mint, oi_market = market, oi_bids = bids, oi_asks = asks, oi_signal_id = sid,
      oi_timestamp = ts, oi_context = ctx, oi_redemption_policy = None\<rparr>"

definition intent_cancel_all :: "string \<Rightarrow> string option \<Rightarrow> string \<Rightarrow> timestamp \<Rightarrow> order_intent" where
  "intent_cancel_all mint market sid ts =
     \<lparr>oi_mint = mint, oi_market = market, oi_bids = Some [], oi_asks = Some [], oi_signal_id = sid,
      oi_timestamp = ts, oi_context = None, oi_redemption_policy = None\<rparr>"

section \<open>The state\<close>

type_synonym lane_key = "string option \<times> string \<times> order_side"

record pm_state =
  pm_positions :: "(string, position) hmap"
  pm_available_quote :: f64
  pm_pending_sells :: "string set"
  pm_bought_mints :: "string set"
  pm_total_quote_received :: f64
  pm_total_quote_spent :: f64
  pm_total_closed_positions :: u32
  pm_winning_trades :: u32
  pm_pending_limit_orders :: "(string, (string, pending_order) hmap) hmap"
  pm_in_flight_orders :: "(string, (string, in_flight_order) hmap) hmap"
  pm_redemption_policies :: "(string, redemption_policy) hmap"
  pm_intent_debounce :: "(lane_key, quote_level list option) hmap"

definition pm_new :: "f64 \<Rightarrow> pm_state" where
  "pm_new initial_quote =
     \<lparr>pm_positions = [], pm_available_quote = initial_quote, pm_pending_sells = {},
      pm_bought_mints = {}, pm_total_quote_received = f0, pm_total_quote_spent = f0,
      pm_total_closed_positions = 0, pm_winning_trades = 0, pm_pending_limit_orders = [],
      pm_in_flight_orders = [], pm_redemption_policies = [], pm_intent_debounce = []\<rparr>"

definition mark_pending_sell :: "pm_state \<Rightarrow> string \<Rightarrow> pm_state \<times> bool" where
  "mark_pending_sell s mint =
     (if mint \<in> pm_pending_sells s then (s, False)
      else (s\<lparr>pm_pending_sells := insert mint (pm_pending_sells s)\<rparr>, True))"

definition clear_pending_sell :: "pm_state \<Rightarrow> string \<Rightarrow> pm_state \<times> bool" where
  "clear_pending_sell s mint =
     (s\<lparr>pm_pending_sells := pm_pending_sells s - {mint}\<rparr>, mint \<in> pm_pending_sells s)"

definition mark_bought :: "pm_state \<Rightarrow> string \<Rightarrow> pm_state \<times> bool" where
  "mark_bought s mint =
     (if mint \<in> pm_bought_mints s then (s, False)
      else (s\<lparr>pm_bought_mints := insert mint (pm_bought_mints s)\<rparr>, True))"

definition add_pending_order :: "pm_state \<Rightarrow> string \<Rightarrow> string \<Rightarrow> pending_order \<Rightarrow> pm_state" where
  "add_pending_order s mint oid ord = s\<lparr>pm_pending_limit_orders :=
     hput mint (hput oid ord (unwrap_or (hget (pm_pending_limit_orders s) mint) []))
       (pm_pending_limit_orders s)\<rparr>"

text \<open>The loop over all mints stops at the first one that holds the order.\<close>

fun remove_by_id ::
  "string \<Rightarrow> (string, (string, 'o) hmap) hmap \<Rightarrow> (string, (string, 'o) hmap) hmap \<times> 'o option" where
  "remove_by_id oid [] = ([], None)"
| "remove_by_id oid ((mint, os) # rest) =
     (case hget os oid of
        Some ord \<Rightarrow> ((mint, hdel oid os) # rest, Some ord)
      | None \<Rightarrow> let (rest', r) = remove_by_id oid rest in ((mint, os) # rest', r))"

definition remove_pending_order_by_id :: "pm_state \<Rightarrow> string \<Rightarrow> pm_state \<times> pending_order option" where
  "remove_pending_order_by_id s oid =
     (let (m, r) = remove_by_id oid (pm_pending_limit_orders s)
      in (s\<lparr>pm_pending_limit_orders := m\<rparr>, r))"

definition clone_pending_orders :: "pm_state \<Rightarrow> string \<Rightarrow> (string, pending_order) hmap" where
  "clone_pending_orders s mint = unwrap_or (hget (pm_pending_limit_orders s) mint) []"

definition add_in_flight_order :: "pm_state \<Rightarrow> string \<Rightarrow> string \<Rightarrow> in_flight_order \<Rightarrow> pm_state" where
  "add_in_flight_order s mint fid ord = s\<lparr>pm_in_flight_orders :=
     hput mint (hput fid ord (unwrap_or (hget (pm_in_flight_orders s) mint) []))
       (pm_in_flight_orders s)\<rparr>"

definition remove_in_flight_order ::
  "pm_state \<Rightarrow> string \<Rightarrow> string \<Rightarrow> pm_state \<times> in_flight_order option" where
  "remove_in_flight_order s mint fid =
     (case hget (pm_in_flight_orders s) mint of None \<Rightarrow> (s, None)
      | Some os \<Rightarrow> (case hget os fid of None \<Rightarrow> (s, None)
        | Some ord \<Rightarrow> (s\<lparr>pm_in_flight_orders := hput mint (hdel fid os) (pm_in_flight_orders s)\<rparr>, Some ord)))"

definition remove_in_flight_order_by_level ::
  "pm_state \<Rightarrow> string \<Rightarrow> order_side \<Rightarrow> f64 \<Rightarrow> f64 \<Rightarrow> pm_state \<times> in_flight_order option" where
  "remove_in_flight_order_by_level s mint side price sz =
     (case hget (pm_in_flight_orders s) mint of None \<Rightarrow> (s, None)
      | Some os \<Rightarrow>
        (case find (\<lambda>(fid, ord). fo_side ord = side \<and> in_flight_matches_level ord price sz) os of
          None \<Rightarrow> (s, None)
        | Some (fid, ord) \<Rightarrow> remove_in_flight_order s mint fid))"

definition clone_in_flight_orders :: "pm_state \<Rightarrow> string \<Rightarrow> (string, in_flight_order) hmap" where
  "clone_in_flight_orders s mint = unwrap_or (hget (pm_in_flight_orders s) mint) []"

definition set_redemption_policy :: "pm_state \<Rightarrow> redemption_policy \<Rightarrow> pm_state" where
  "set_redemption_policy s p =
     s\<lparr>pm_redemption_policies := hput (rp_market p) p (pm_redemption_policies s)\<rparr>"

end
