(* ===== verification/Reconcile.thy ===== *)
theory Reconcile
  imports PositionState
begin

text \<open>
  The reconciliation engine of intents: \<open>position/reconciliation/validation.rs\<close> and
  \<open>position/reconciliation/engine.rs\<close>.  An intent gives the levels a strategy wants on each side;
  the engine compares them with the live orders of the mint and answers with cancels and placements.
\<close>

section \<open>Validation\<close>

fun validate_levels :: "order_side \<Rightarrow> nat \<Rightarrow> quote_level list \<Rightarrow> position_error + unit" where
  "validate_levels side i [] = Ok ()"
| "validate_levels side i (l # ls) =
     (if fle (ql_price l) f0 then Err (InvalidIntent side i True (ql_price l))
      else if fle (ql_size l) f0 then Err (InvalidIntent side i False (ql_size l))
      else validate_levels side (Suc i) ls)"

definition validate_intent :: "order_intent \<Rightarrow> position_error + unit" where
  "validate_intent i =
     (case (case oi_bids i of None \<Rightarrow> Ok () | Some bids \<Rightarrow> validate_levels Buy 0 bids) of
        Inl e \<Rightarrow> Err e
      | Inr u \<Rightarrow> (case oi_asks i of None \<Rightarrow> Ok () | Some asks \<Rightarrow> validate_levels Sell 0 asks))"

section \<open>The engine\<close>

definition has_matching_level :: "pending_order \<Rightarrow> quote_level list \<Rightarrow> bool" where
  "has_matching_level p desired = list_ex (\<lambda>d. matches_level p (ql_price d) (ql_size d)) desired"

definition has_matching_order :: "quote_level \<Rightarrow> pending_order list \<Rightarrow> bool" where
  "has_matching_order l current = list_ex (\<lambda>c. matches_level c (ql_price l) (ql_size l)) current"

definition create_cancel_order :: "order_intent \<Rightarrow> string \<Rightarrow> order" where
  "create_cancel_order i oid =
     new_cancel (oi_mint i) (oi_market i) oid (oi_timestamp i) (Some (oi_signal_id i))"

definition create_limit_order :: "order_intent \<Rightarrow> quote_level \<Rightarrow> order_side \<Rightarrow> order" where
  "create_limit_order i l side =
     (let ord = with_exit_mode (case side of
            Buy \<Rightarrow> new_limit_buy (oi_mint i) (oi_market i) (fmul (ql_price l) (ql_size l)) (ql_price l)
              (ql_time_in_force l) (oi_timestamp i) (Some (oi_signal_id i)) None
          | Sell \<Rightarrow> new_limit_sell (oi_mint i) (oi_market i) (ql_size l) (ql_price l) False
              (ql_time_in_force l) (oi_timestamp i) (Some (oi_signal_id i)) None) StrategyManaged
      in case oi_context i of None \<Rightarrow> ord | Some c \<Rightarrow> with_context ord c)"

definition reconcile_side ::
  "order_intent \<Rightarrow> pending_order list \<Rightarrow> quote_level list \<Rightarrow> order_side \<Rightarrow> order list" where
  "reconcile_side i current desired side =
     map (\<lambda>p. create_cancel_order i (po_order_id p))
       (filter (\<lambda>p. \<not> has_matching_level p desired) current) @
     map (\<lambda>l. create_limit_order i l side)
       (filter (\<lambda>l. \<not> has_matching_order l current) desired)"

definition side_of :: "order_side \<Rightarrow> (string, pending_order) hmap \<Rightarrow> pending_order list" where
  "side_of side m = filter (\<lambda>p. po_side p = side) (hvals m)"

definition reconcile_desired ::
  "order_intent \<Rightarrow> (string, pending_order) hmap \<Rightarrow> order_side \<Rightarrow> quote_level list option \<Rightarrow> order list" where
  "reconcile_desired i current side desired =
     (case desired of None \<Rightarrow> [] | Some ls \<Rightarrow> reconcile_side i (side_of side current) ls side)"

definition cancel_rank :: "order \<Rightarrow> nat" where
  "cancel_rank ord = (if is_cancel (ord_order_type ord) then 0 else 1)"

definition compute_reconciliation ::
  "order_intent \<Rightarrow> (string, pending_order) hmap \<Rightarrow> position_error + order list" where
  "compute_reconciliation i current =
     (case validate_intent i of
        Inl e \<Rightarrow> Err e
      | Inr u \<Rightarrow> Ok (sort_key cancel_rank
          (reconcile_desired i current Buy (oi_bids i) @ reconcile_desired i current Sell (oi_asks i))))"

section \<open>Lemmas\<close>

lemma sort_two_ranks:
  "sort_key (\<lambda>x. if P x then 0 else (1::nat)) xs = filter P xs @ filter (\<lambda>x. \<not> P x) xs"
proof -
  let ?f = "\<lambda>x. if P x then 0 else (1::nat)"
  have two: "sorted (map ?f ys) \<Longrightarrow> ys = filter P ys @ filter (\<lambda>x. \<not> P x) ys" for ys
  proof (induction ys)
    case (Cons y ys)
    show ?case
    proof (cases "P y")
      case False
      with Cons.prems have "\<forall>z \<in> set ys. \<not> P z" by (auto split: if_splits)
      with False show ?thesis by (simp add: filter_empty_conv filter_id_conv)
    qed (use Cons in auto)
  qed simp
  have st: "filter (\<lambda>y. ?f y = k) (sort_key ?f xs) = filter (\<lambda>y. ?f y = k) xs" for k
    by (rule sort_key_stable)
  have ranks: "(\<lambda>y. ?f y = 0) = P" "(\<lambda>y. ?f y = 1) = (\<lambda>x. \<not> P x)" by (auto simp: fun_eq_iff)
  have "filter P (sort_key ?f xs) = filter P xs" "filter (\<lambda>x. \<not> P x) (sort_key ?f xs) = filter (\<lambda>x. \<not> P x) xs"
    using st [of 0] st [of 1] by (simp_all only: ranks)
  with two [of "sort_key ?f xs"] show ?thesis by (metis sorted_sort_key)
qed

lemma cancel_order_type [simp]:
  "is_cancel (ord_order_type (create_cancel_order i oid))"
  "cancel_order_id (ord_order_type (create_cancel_order i oid)) = Some oid"
  "quote_amount (ord_order_type (create_cancel_order i oid)) = None"
  by (simp_all add: create_cancel_order_def new_cancel_def)

lemma limit_order_type [simp]:
  "ord_order_type (create_limit_order i l Buy) =
     LimitBuy (fmul (ql_price l) (ql_size l)) (ql_price l) (ql_time_in_force l)"
  "ord_order_type (create_limit_order i l Sell) = LimitSell (ql_size l) (ql_price l) False (ql_time_in_force l)"
  by (simp_all add: create_limit_order_def new_limit_buy_def new_limit_sell_def with_exit_mode_def
    with_context_def Let_def split: option.splits)

lemma limit_not_cancel [simp]: "\<not> is_cancel (ord_order_type (create_limit_order i l side))"
  by (cases side) simp_all

definition stale :: "(string, pending_order) hmap \<Rightarrow> order_side \<Rightarrow> quote_level list option \<Rightarrow> string list" where
  "stale current side desired = (case desired of None \<Rightarrow> []
     | Some ls \<Rightarrow> map po_order_id (filter (\<lambda>p. \<not> has_matching_level p ls) (side_of side current)))"

definition missing :: "(string, pending_order) hmap \<Rightarrow> order_side \<Rightarrow> quote_level list option \<Rightarrow> quote_level list" where
  "missing current side desired = (case desired of None \<Rightarrow> []
     | Some ls \<Rightarrow> filter (\<lambda>l. \<not> has_matching_order l (side_of side current)) ls)"

lemma reconcile_desired_split:
  "reconcile_desired i current side desired =
     map (create_cancel_order i) (stale current side desired) @
     map (\<lambda>l. create_limit_order i l side) (missing current side desired)"
  by (simp add: reconcile_desired_def reconcile_side_def stale_def missing_def split: option.splits)

lemma compute_reconciliation_eq:
  "compute_reconciliation i current = (case validate_intent i of Inl e \<Rightarrow> Err e
   | Inr u \<Rightarrow> Ok (map (create_cancel_order i)
         (stale current Buy (oi_bids i) @ stale current Sell (oi_asks i)) @
       map (\<lambda>l. create_limit_order i l Buy) (missing current Buy (oi_bids i)) @
       map (\<lambda>l. create_limit_order i l Sell) (missing current Sell (oi_asks i))))"
  by (simp add: compute_reconciliation_def cancel_rank_def [abs_def] sort_two_ranks reconcile_desired_split
    filter_map comp_def split: sum.splits)

section \<open>The size of a placed level\<close>

text \<open>
  An order to buy carries a quote amount; the executors read the size back as
  \<open>quote_amount / limit_price\<close>, with a second rounding.  For levels of ordinary magnitude the size so read
  still matches the level.
\<close>

definition level_ok :: "quote_level \<Rightarrow> bool" where
  "level_ok l = (case (ql_price l, ql_size l) of
     (Fin p, Fin s) \<Rightarrow> 1 / 2 ^ 20 \<le> p \<and> p \<le> 2 ^ 20 \<and> 1 / 2 ^ 20 \<le> s \<and> s \<le> 2 ^ 30
   | _ \<Rightarrow> False)"

lemma tol_eq: "tol = Fin (5764607523034235 / 576460752303423488)"
  by (simp add: tol_def f_lit_001)

lemma close_to_refl: "is_finite x \<Longrightarrow> close_to x x"
  by (cases x) (simp_all add: close_to_def tol_eq)

lemma rnd_rel:
  assumes "1 / 2 ^ 100 \<le> q"
  shows "rnd q \<le> q + q / 2 ^ 53" "q - q / 2 ^ 53 \<le> rnd q"
proof -
  have e: "1 / 2 ^ 100 = (2::rat) powi (- 100)"
    by (simp only: power_int_minus power_int_numeral divide_inverse mult_1)
  have "(2::rat) powi (- 1022) \<le> 2 powi (- 100)" by (rule powi_mono) simp
  then have "(2::rat) powi (- 1022) \<le> q" using assms unfolding e by (rule order_trans)
  moreover have "q \<le> \<bar>q\<bar>" by simp
  ultimately have "2 powi (- 1022) \<le> \<bar>q\<bar>" by (rule order_trans)
  then have "\<bar>rnd q - q\<bar> \<le> 2 powi (- 53) * \<bar>q\<bar>" by (rule rnd_error_rel)
  moreover have "0 \<le> q" by (rule order_trans [OF _ assms]) simp
  moreover have "2 powi (- 53) = 1 / (2::rat) ^ 53"
    by (simp only: power_int_minus power_int_numeral divide_inverse mult_1)
  ultimately have "\<bar>rnd q - q\<bar> \<le> q / 2 ^ 53" by (simp only: abs_of_nonneg times_divide_eq_left mult_1)
  then show "rnd q \<le> q + q / 2 ^ 53" "q - q / 2 ^ 53 \<le> rnd q" by linarith+
qed

lemma f_of_small: "\<bar>q\<bar> \<le> 2 ^ 100 \<Longrightarrow> f_of q = Fin (rnd q)"
proof -
  assume q: "\<bar>q\<bar> \<le> 2 ^ 100"
  have r: "rnd (2 ^ 100) = 2 ^ 100" by (rule rnd_dyadic [of _ 1 100]) simp_all
  have "rnd q \<le> 2 ^ 100" "- (2 ^ 100) \<le> rnd q"
    using rnd_mono [of q "2 ^ 100"] rnd_mono [of "- (2 ^ 100)" q] q
    by (simp_all only: r rnd_minus abs_le_iff minus_le_iff)
  moreover have "(2::rat) ^ 100 < 2 ^ 1024" by simp
  ultimately show ?thesis by (simp add: f_of_def Let_def)
qed

text \<open>The size of a placed buy differs from the level's size by less than the matching tolerance.\<close>

lemma buy_size_round_trip:
  assumes "1 / 2 ^ 20 \<le> p" "p \<le> 2 ^ 20" "1 / 2 ^ 20 \<le> s" "s \<le> 2 ^ 30"
  shows "close_to (fdiv (fmul (Fin p) (Fin s)) (Fin p)) (Fin s)"
proof -
  have p0: "0 < p" using assms(1) by (rule less_le_trans [rotated]) simp
  let ?q = "rnd (p * s)" and ?r = "rnd (rnd (p * s) / p)"
  define t where "t = ?q / p"
  have ps: "1 / 2 ^ 40 \<le> p * s" "p * s \<le> 2 ^ 50"
    using mult_mono [OF assms(1,3)] mult_mono [OF assms(2,4)] assms(3) p0 by simp_all
  have q: "?q \<le> p * s + p * s / 2 ^ 53" "p * s - p * s / 2 ^ 53 \<le> ?q"
    using rnd_rel [of "p * s"] ps(1) by simp_all
  have d: "t \<le> s + s / 2 ^ 53" "s - s / 2 ^ 53 \<le> t"
    using divide_right_mono [OF q(1), of p] divide_right_mono [OF q(2), of p] p0
    by (simp_all add: t_def add_divide_distrib diff_divide_distrib)
  have lo: "1 / 2 ^ 100 \<le> t" using d(2) assms(3) by simp
  have hi: "t \<le> 2 ^ 31" using d(1) assms(4) by simp
  have r: "?r \<le> t + t / 2 ^ 53" "t - t / 2 ^ 53 \<le> ?r"
    using rnd_rel [OF lo] by (simp_all only: t_def)
  have "?r - s \<le> 1 / 2 ^ 20" "- (?r - s) \<le> 1 / 2 ^ 20" using r d hi assms(4) by simp_all
  then have close: "\<bar>?r - s\<bar> \<le> 1 / 2 ^ 20" by (rule abs_leI)
  moreover have g: "rnd (1 / 2 ^ 20) = 1 / 2 ^ 20" using rnd_grid [of 1] by simp
  ultimately have rr: "rnd (?r - s) \<le> 1 / 2 ^ 20" "- (1 / 2 ^ 20) \<le> rnd (?r - s)"
    using rnd_mono [of "?r - s" "1 / 2 ^ 20"] rnd_mono [of "- (1 / 2 ^ 20)" "?r - s"]
    by (simp_all only: g rnd_minus abs_le_iff minus_le_iff)
  then have "\<bar>rnd (?r - s)\<bar> < 5764607523034235 / 576460752303423488" by (simp add: abs_less_iff)
  moreover have "fmul (Fin p) (Fin s) = Fin ?q" "fdiv (Fin ?q) (Fin p) = Fin ?r"
    using ps hi lo p0 by (auto simp: f_of_small t_def abs_le_iff)
  moreover have "f_of (?r - s) = Fin (rnd (?r - s))"
    by (rule f_of_small) (rule order_trans [OF close], simp)
  ultimately show ?thesis by (simp add: close_to_def tol_eq)
qed

section \<open>Live orders\<close>

definition book_wf :: "(string, pending_order) hmap \<Rightarrow> bool" where
  "book_wf m \<longleftrightarrow> hwf m \<and> (\<forall>k p. hget m k = Some p \<longrightarrow> po_order_id p = k)"

definition live :: "(string, pending_order) hmap \<Rightarrow> pending_order set" where
  "live m = set (hvals m)"

lemma live_iff: "book_wf m \<Longrightarrow> p \<in> live m \<longleftrightarrow> hget m (po_order_id p) = Some p"
  by (auto simp: live_def book_wf_def hvals_iff simp del: map_of_eq_Some_iff)

lemma live_inj: "book_wf m \<Longrightarrow> p \<in> live m \<Longrightarrow> q \<in> live m \<Longrightarrow> po_order_id p = po_order_id q \<Longrightarrow> p = q"
  by (simp add: live_iff)

lemma book_wf_hdel: "book_wf m \<Longrightarrow> book_wf (hdel c m)"
  by (simp add: book_wf_def fun_upd_apply del: map_of_eq_Some_iff)

lemma live_hdel:
  assumes "book_wf m"
  shows "live (hdel c m) = {p \<in> live m. po_order_id p \<noteq> c}"
  using assms book_wf_hdel [OF assms, of c] by (auto simp: live_iff split: if_splits)

lemma book_wf_hput: "book_wf m \<Longrightarrow> po_order_id p = oid \<Longrightarrow> book_wf (hput oid p m)"
  by (simp add: book_wf_def fun_upd_apply del: map_of_eq_Some_iff)

lemma live_hput:
  assumes "book_wf m" "po_order_id p = oid" "hget m oid = None"
  shows "live (hput oid p m) = insert p (live m)"
proof (intro set_eqI)
  fix q
  have "q \<in> live (hput oid p m) \<longleftrightarrow> hget (hput oid p m) (po_order_id q) = Some q"
    by (rule live_iff) (rule book_wf_hput [OF assms(1,2)])
  also have "\<dots> \<longleftrightarrow> q = p \<or> hget m (po_order_id q) = Some q"
    using assms(2,3) by (simp add: fun_upd_apply del: map_of_eq_Some_iff) blast
  finally show "q \<in> live (hput oid p m) \<longleftrightarrow> q \<in> insert p (live m)"
    by (simp add: live_iff [OF assms(1)])
qed

lemma set_side_of: "set (side_of side m) = {p \<in> live m. po_side p = side}"
  by (auto simp: side_of_def live_def)

definition read_back_size :: "order_side \<Rightarrow> quote_level \<Rightarrow> f64" where
  "read_back_size side l =
     (case side of Buy \<Rightarrow> fdiv (fmul (ql_price l) (ql_size l)) (ql_price l) | Sell \<Rightarrow> ql_size l)"

lemma placed_matches:
  assumes "level_ok l" "po_price p = ql_price l" "po_remaining_size p = read_back_size side l"
  shows "matches_level p (ql_price l) (ql_size l)"
proof -
  from assms(1) obtain q s where l: "ql_price l = Fin q" "ql_size l = Fin s"
    and b: "1 / 2 ^ 20 \<le> q" "q \<le> 2 ^ 20" "1 / 2 ^ 20 \<le> s" "s \<le> 2 ^ 30"
    by (cases "ql_price l"; cases "ql_size l") (auto simp: level_ok_def)
  then show ?thesis using buy_size_round_trip [OF b] assms(2,3)
    by (cases side) (simp_all add: matches_level_def read_back_size_def close_to_refl
      del: fmul.simps fdiv.simps)
qed

lemma validate_levels_ok:
  "validate_levels side n ls = Ok () \<longleftrightarrow> list_all (\<lambda>l. \<not> fle (ql_price l) f0 \<and> \<not> fle (ql_size l) f0) ls"
  by (induction ls arbitrary: n) auto

section \<open>Properties\<close>

text \<open>The engine's answer to a valid intent, exactly: first a cancel for every live order of a
  quoted side that matches none of the wanted levels, then a placement for every wanted level that no
  live order of its side matches, bids before asks; a side without levels (\<open>None\<close>) is left alone.\<close>

theorem reconciliation_exact:
  "compute_reconciliation i m = (case validate_intent i of Inl e \<Rightarrow> Err e
   | Inr u \<Rightarrow> Ok (map (create_cancel_order i) (stale m Buy (oi_bids i) @ stale m Sell (oi_asks i)) @
       map (\<lambda>l. create_limit_order i l Buy) (missing m Buy (oi_bids i)) @
       map (\<lambda>l. create_limit_order i l Sell) (missing m Sell (oi_asks i))))"
  by (rule compute_reconciliation_eq)

definition demo_level :: "rat \<Rightarrow> rat \<Rightarrow> quote_level" where
  "demo_level p s = level_gtc (Fin p) (Fin s)"

definition demo_intent :: order_intent where
  "demo_intent = intent_new ''M'' None (Some [demo_level 2 8]) (Some []) ''S'' 5 None"

definition demo_book :: "(string, pending_order) hmap" where
  "demo_book = [(''A'', pending_new ''A'' ''M'' None Buy (Fin 1) (Fin 8) 1 None),
     (''B'', pending_new ''B'' ''M'' None Sell (Fin 4) (Fin 8) 1 None)]"

lemma demo_reconciliation:
  "compute_reconciliation demo_intent demo_book =
     Ok [create_cancel_order demo_intent ''A'', create_cancel_order demo_intent ''B'',
       create_limit_order demo_intent (demo_level 2 8) Buy]"
  by (simp add: compute_reconciliation_eq validate_intent_def demo_intent_def intent_new_def demo_level_def
    level_gtc_def demo_book_def stale_def missing_def side_of_def hvals_def has_matching_level_def
    has_matching_order_def matches_level_def pending_new_def close_to_def tol_eq f0_def f_of_neg)

text \<open>An intent to cancel everything cancels exactly the live orders, bids first, and places nothing.\<close>

theorem cancel_all_exact:
  "compute_reconciliation (intent_cancel_all mint market sid ts) m =
     Ok (map (\<lambda>p. new_cancel mint market (po_order_id p) ts (Some sid)) (side_of Buy m @ side_of Sell m))"
  by (simp add: compute_reconciliation_eq validate_intent_def intent_cancel_all_def stale_def missing_def
    has_matching_level_def create_cancel_order_def comp_def)

text \<open>Validation rejects an intent exactly when some level of a quoted side has a price or a size
  that compares as at most zero; in that case no order is produced.\<close>

theorem validation_exact:
  "(\<exists>os. compute_reconciliation i m = Ok os) \<longleftrightarrow>
     list_all (\<lambda>l. \<not> fle (ql_price l) f0 \<and> \<not> fle (ql_size l) f0)
       (unwrap_or (oi_bids i) [] @ unwrap_or (oi_asks i) [])"
proof -
  have "(\<exists>os. compute_reconciliation i m = Ok os) \<longleftrightarrow> validate_intent i = Ok ()"
    by (auto simp: compute_reconciliation_eq split: sum.splits)
  also have "\<dots> \<longleftrightarrow> validate_levels Buy 0 (unwrap_or (oi_bids i) []) = Ok () \<and>
      validate_levels Sell 0 (unwrap_or (oi_asks i) []) = Ok ()"
    by (auto simp: validate_intent_def split: option.splits sum.splits)
  finally show ?thesis by (simp only: validate_levels_ok list_all_append)
qed

text \<open>A level whose price is not a number passes validation, and no book satisfies it: every
  reconciliation of such an intent places the level again, so the strategy never settles.\<close>

theorem nan_level_placed_forever:
  assumes "oi_bids i = Some ls" "l \<in> set ls" "ql_price l = NaN"
    "compute_reconciliation i m = Ok os"
  shows "create_limit_order i l Buy \<in> set os"
proof -
  have "\<not> has_matching_order l (side_of Buy m)"
    by (auto simp: has_matching_order_def list_ex_iff matches_level_def close_to_def assms(3) fsub_def
      fadd_NaN)
  with assms show ?thesis by (auto simp: compute_reconciliation_eq missing_def split: sum.splits)
qed

theorem nan_level_placed_forever_witness:
  "let i = intent_new ''M'' None (Some [level_gtc NaN (Fin 8)]) None ''S'' 5 None in
   \<exists>os. compute_reconciliation i demo_book = Ok os \<and>
     create_limit_order i (level_gtc NaN (Fin 8)) Buy \<in> set os"
proof -
  let ?i = "intent_new ''M'' None (Some [level_gtc NaN (Fin 8)]) None ''S'' 5 None"
  obtain os where os: "compute_reconciliation ?i demo_book = Ok os"
    by (auto simp: compute_reconciliation_eq validate_intent_def intent_new_def level_gtc_def f0_def)
  moreover have "create_limit_order ?i (level_gtc NaN (Fin 8)) Buy \<in> set os"
    by (rule nan_level_placed_forever [OF _ _ _ os, where ls = "[level_gtc NaN (Fin 8)]"]) (simp_all add: intent_new_def level_gtc_def)
  ultimately show ?thesis by (auto simp: Let_def)
qed

end
