(* ===== verification/Intents.thy ===== *)
theory Intents
  imports Reconcile
begin

text \<open>
  The order book of the position manager: the handler of limit order events
  (\<open>position/orderbook/limit_orders.rs\<close>) and the handler of intents with its quote debounce, its
  in-flight filter and its budget (\<open>position/orderbook/intent.rs\<close>).  Times are in nanoseconds.
\<close>

section \<open>Limit order events\<close>

definition partial_fill_order :: "f64 \<Rightarrow> string \<Rightarrow> (string, pending_order) hmap \<Rightarrow> pending_order \<Rightarrow>
    (string, pending_order) hmap" where
  "partial_fill_order remaining oid os p =
     (if flt remaining order_dust_threshold then hdel oid os
      else hput oid (p\<lparr>po_remaining_size := remaining\<rparr>) os)"

text \<open>The loop over the mints returns at the first one that holds the order.\<close>

fun partial_fill_by_id :: "f64 \<Rightarrow> string \<Rightarrow> (string, (string, pending_order) hmap) hmap \<Rightarrow>
    (string, (string, pending_order) hmap) hmap" where
  "partial_fill_by_id remaining oid [] = []"
| "partial_fill_by_id remaining oid ((mint, os) # rest) =
     (case hget os oid of
        Some p \<Rightarrow> (mint, partial_fill_order remaining oid os p) # rest
      | None \<Rightarrow> (mint, os) # partial_fill_by_id remaining oid rest)"

definition awaiting :: "string option \<Rightarrow> bool" where
  "awaiting reason = (case reason of None \<Rightarrow> False | Some v \<Rightarrow> str_contains v ''awaiting confirmation'')"

fun handle_limit_order_event :: "pm_state \<Rightarrow> limit_order_event \<Rightarrow> pm_state \<times> (position_error + unit)" where
  "handle_limit_order_event s (OrderPlaced oid mint market price sz side ts signal ctx) =
     (let p = pending_new oid mint market side price sz ts signal;
        (s1, removed) = remove_in_flight_order_by_level s mint side price sz
      in (add_pending_order s1 mint oid p, Ok ()))"
| "handle_limit_order_event s (OrderPartiallyFilled oid mint side filled remaining price ts signal mode) =
     (s\<lparr>pm_pending_limit_orders := partial_fill_by_id remaining oid (pm_pending_limit_orders s)\<rparr>, Ok ())"
| "handle_limit_order_event s (OrderCancelled oid reason ts) =
     (if awaiting reason then (s, Ok ()) else (fst (remove_pending_order_by_id s oid), Ok ()))"
| "handle_limit_order_event s (OrderExpired oid ts) = (fst (remove_pending_order_by_id s oid), Ok ())"
| "handle_limit_order_event s (OrderRejected reason) = (s, Ok ())"

section \<open>Debounce\<close>

definition milliseconds :: "64 word \<Rightarrow> duration" where
  "milliseconds ms = sint ms * 1000000"

definition side_has_diff :: "pending_order list \<Rightarrow> quote_level list \<Rightarrow> bool" where
  "side_has_diff current desired \<longleftrightarrow>
     (if length current \<noteq> length desired then True
      else if list_ex (\<lambda>p. \<not> has_matching_level p desired) current then True
      else if list_ex (\<lambda>l. \<not> has_matching_order l current) desired then True
      else False)"

definition max_time :: "timestamp list \<Rightarrow> timestamp option" where
  "max_time ts = (case ts of [] \<Rightarrow> None | t # rest \<Rightarrow> Some (foldl max t rest))"

definition debounce_until :: "pending_order list \<Rightarrow> 64 word \<Rightarrow> timestamp option" where
  "debounce_until pending ms =
     map_option (\<lambda>live_since. live_since + milliseconds ms) (max_time (map po_placed_at pending))"

definition lane_of :: "order_intent \<Rightarrow> order_side \<Rightarrow> lane_key" where
  "lane_of i side = (oi_market i, oi_mint i, side)"

definition lane_pending :: "pm_state \<Rightarrow> lane_key \<Rightarrow> quote_level list option" where
  "lane_pending s k = unwrap_or (hget (pm_intent_debounce s) k) None"

definition set_lane :: "pm_state \<Rightarrow> lane_key \<Rightarrow> quote_level list option \<Rightarrow> pm_state" where
  "set_lane s k v = s\<lparr>pm_intent_debounce := hput k v (pm_intent_debounce s)\<rparr>"

definition debounce_side :: "order_intent \<Rightarrow> order_side \<Rightarrow> quote_level list option \<Rightarrow>
    (string, pending_order) hmap \<Rightarrow> (string, pending_order) hmap \<Rightarrow> pm_state \<Rightarrow> 64 word \<Rightarrow>
    pm_state \<times> quote_level list option" where
  "debounce_side i side desired pending current s ms =
     (let k = lane_of i side; stored = lane_pending s k;
        pending_side = side_of side pending; current_side = side_of side current;
        until = debounce_until pending_side ms
      in if desired = Some [] then (set_lane s k None, desired)
      else (case desired of
          None \<Rightarrow>
            if stored \<noteq> None \<and> (case until of None \<Rightarrow> True | Some d \<Rightarrow> d \<le> oi_timestamp i)
            then (set_lane s k None, stored)
            else (set_lane s k stored, None)
        | Some levels \<Rightarrow>
            let has_change = side_has_diff current_side levels;
              within_window = (case until of None \<Rightarrow> False | Some d \<Rightarrow> oi_timestamp i < d)
            in if has_change \<and> within_window then (set_lane s k (Some levels), None)
               else (set_lane s k None, Some levels)))"

definition apply_intent_debounce :: "order_intent \<Rightarrow> (string, pending_order) hmap \<Rightarrow>
    (string, pending_order) hmap \<Rightarrow> pm_state \<Rightarrow> 64 word option \<Rightarrow> pm_state \<times> order_intent" where
  "apply_intent_debounce i pending current s min_ms =
     (case min_ms of
        Some ms \<Rightarrow>
          if ms > 0 then
            let (s1, bids) = debounce_side i Buy (oi_bids i) pending current s ms;
              (s2, asks) = debounce_side i Sell (oi_asks i) pending current s1 ms
            in (s2, i\<lparr>oi_bids := bids, oi_asks := asks\<rparr>)
          else (s, i)
      | None \<Rightarrow> (s, i))"

section \<open>Intents\<close>

definition in_flight_prefix :: string where "in_flight_prefix = ''in_flight:''"

definition synthetic_pending :: "string \<Rightarrow> in_flight_order \<Rightarrow> pending_order" where
  "synthetic_pending fid f = pending_new (in_flight_prefix @ fid) (fo_mint f) (fo_market f) (fo_side f)
     (fo_price f) (fo_size f) (fo_submitted_at f) (fo_signal_id f)"

definition current_orders ::
  "(string, pending_order) hmap \<Rightarrow> (string, in_flight_order) hmap \<Rightarrow> (string, pending_order) hmap" where
  "current_orders pending in_flight =
     foldl (\<lambda>m (fid, f). hput (in_flight_prefix @ fid) (synthetic_pending fid f) m) pending in_flight"

definition keep_confirmed :: "order \<Rightarrow> bool" where
  "keep_confirmed ord = (case cancel_order_id (ord_order_type ord) of
     Some oid \<Rightarrow> \<not> str_prefix in_flight_prefix oid | None \<Rightarrow> True)"

fun retain_affordable :: "f64 \<Rightarrow> order list \<Rightarrow> order list" where
  "retain_affordable remaining [] = []"
| "retain_affordable remaining (ord # os) =
     (if is_cancel (ord_order_type ord) then ord # retain_affordable remaining os
      else (case quote_amount (ord_order_type ord) of
          Some q \<Rightarrow> if flt remaining q then retain_affordable remaining os
            else ord # retain_affordable (fsub remaining q) os
        | None \<Rightarrow> ord # retain_affordable remaining os))"

definition reconcile_intent ::
  "pm_state \<Rightarrow> 64 word option \<Rightarrow> order_intent \<Rightarrow> pm_state \<times> (position_error + order list)" where
  "reconcile_intent s min_ms i =
     (let pending = unwrap_or (hget (pm_pending_limit_orders s) (oi_mint i)) [];
        in_flight = unwrap_or (hget (pm_in_flight_orders s) (oi_mint i)) [];
        current = current_orders pending in_flight;
        (s', effective) = apply_intent_debounce i pending current s min_ms
      in (s', case compute_reconciliation effective current of
          Inl e \<Rightarrow> Err e
        | Inr os \<Rightarrow> Ok (retain_affordable (pm_available_quote s) (filter keep_confirmed os))))"

section \<open>Lemmas\<close>

lemma retain_affordable_subset: "set (retain_affordable q os) \<subseteq> set os"
  by (induction os arbitrary: q) (auto split: option.splits)

lemma retain_affordable_cancels:
  "filter (\<lambda>ord. is_cancel (ord_order_type ord)) (retain_affordable q os) =
   filter (\<lambda>ord. is_cancel (ord_order_type ord)) os"
  by (induction os arbitrary: q) (auto split: option.splits)

lemma current_orders_wf:
  assumes "book_wf pending"
  shows "book_wf (current_orders pending in_flight)"
  unfolding current_orders_def
  by (rule foldl_invariant [of book_wf]) (auto simp: assms book_wf_hput synthetic_pending_def pending_new_def)

lemma current_orders_other:
  assumes "\<not> str_prefix in_flight_prefix oid"
  shows "hget (current_orders pending in_flight) oid = hget pending oid"
  unfolding current_orders_def
  by (rule foldl_invariant [of "\<lambda>m. hget m oid = hget pending oid"])
    (use assms in \<open>auto simp: str_prefix_iff\<close>)

lemma foldl_max_ge: "t \<le> foldl max t (ts :: timestamp list)" "u \<in> set ts \<Longrightarrow> u \<le> foldl max t ts"
proof -
  have "\<forall>t. t \<le> foldl max t (ts :: timestamp list) \<and> (\<forall>u \<in> set ts. u \<le> foldl max t ts)"
  proof (induction ts)
    case (Cons v ts)
    show ?case using Cons [rule_format, of "max _ v"] by fastforce
  qed simp
  then show "t \<le> foldl max t ts" "u \<in> set ts \<Longrightarrow> u \<le> foldl max t ts" by auto
qed

lemma max_time_ge: "u \<in> set ts \<Longrightarrow> \<exists>m. max_time ts = Some m \<and> u \<le> m"
  using foldl_max_ge by (cases ts) (auto simp: max_time_def)

lemma debounce_until_ge:
  assumes "p \<in> set ps"
  obtains d where "debounce_until ps ms = Some d" "po_placed_at p + milliseconds ms \<le> d"
proof -
  have "po_placed_at p \<in> set (map po_placed_at ps)" using assms by simp
  from max_time_ge [OF this] obtain m where "max_time (map po_placed_at ps) = Some m" "po_placed_at p \<le> m"
    by blast
  then have "debounce_until ps ms = Some (m + milliseconds ms)"
    "po_placed_at p + milliseconds ms \<le> m + milliseconds ms" by (simp_all only: debounce_until_def option.map add_le_cancel_right)
  then show thesis by (rule that)
qed

lemma debounce_side_safe:
  assumes "snd (debounce_side i side desired pending current s ms) = Some ls" "desired \<noteq> Some []"
    "side_has_diff (side_of side current) ls \<or> desired = None" "p \<in> set (side_of side pending)"
  shows "po_placed_at p + milliseconds ms \<le> oi_timestamp i"
proof -
  obtain d where d: "debounce_until (side_of side pending) ms = Some d"
    "po_placed_at p + milliseconds ms \<le> d" by (rule debounce_until_ge [OF assms(4)])
  have "d \<le> oi_timestamp i"
    using assms(1-3) by (auto simp: debounce_side_def d(1) Let_def split: option.splits if_splits)
  with d(2) show ?thesis by (rule order_trans)
qed

lemma stale_has_diff: "oid \<in> set (stale current side (Some ls)) \<Longrightarrow> side_has_diff (side_of side current) ls"
  by (auto simp: stale_def side_has_diff_def list_ex_iff)

section \<open>Properties of intents\<close>

text \<open>An intent never cancels what the venue has not confirmed: every cancel it produces names an
  order of the mint's pending orders, under an id that is not one of the synthetic in-flight ids.\<close>

theorem intent_cancels_confirmed_only:
  assumes "hget (pm_pending_limit_orders s) (oi_mint i) = Some pending" "book_wf pending"
    "reconcile_intent s min_ms i = (s', Ok os)" "ord \<in> set os"
    "cancel_order_id (ord_order_type ord) = Some oid"
  shows "\<not> str_prefix in_flight_prefix oid \<and> (\<exists>p. hget pending oid = Some p)"
proof -
  let ?cur = "current_orders pending (unwrap_or (hget (pm_in_flight_orders s) (oi_mint i)) [])"
  obtain e os' where e: "compute_reconciliation e ?cur = Ok os'" "ord \<in> set (filter keep_confirmed os')"
    using assms(1,3,4) retain_affordable_subset
    by (fastforce simp: reconcile_intent_def Let_def split: prod.splits sum.splits)
  then have np: "\<not> str_prefix in_flight_prefix oid" using assms(5) by (simp add: keep_confirmed_def)
  from e have "oid \<in> set (stale ?cur Buy (oi_bids e) @ stale ?cur Sell (oi_asks e))"
    using assms(5) by (auto simp: compute_reconciliation_eq dest!: arg_cong [of _ _ cancel_order_id] split: sum.splits)
  then obtain p where "p \<in> live ?cur" "po_order_id p = oid"
    by (auto simp: stale_def set_side_of split: option.splits)
  then have "hget ?cur oid = Some p" using live_iff [OF current_orders_wf [OF assms(2)]] by blast
  then show ?thesis using np current_orders_other [OF np] by auto
qed

text \<open>C30. Quotes live their minimum lifetime: with a debounce of \<open>ms\<close> milliseconds, an intent cancels a
  pending order only when the order has been live that long, unless the intent asks to clear the
  order's whole side.\<close>

theorem quote_lifetime_respected:
  assumes "hget (pm_pending_limit_orders s) (oi_mint i) = Some pending" "book_wf pending"
    and r: "reconcile_intent s (Some ms) i = (s', Ok os)" "ms > 0" "ord \<in> set os"
    and c: "cancel_order_id (ord_order_type ord) = Some oid" "hget pending oid = Some p"
    and d: "(case po_side p of Buy \<Rightarrow> oi_bids i | Sell \<Rightarrow> oi_asks i) \<noteq> Some []"
  shows "po_placed_at p + milliseconds ms \<le> oi_timestamp i"
proof -
  let ?cur = "current_orders pending (unwrap_or (hget (pm_in_flight_orders s) (oi_mint i)) [])"
  obtain s1 bids where 1: "debounce_side i Buy (oi_bids i) pending ?cur s ms = (s1, bids)" by fastforce
  obtain s2 asks where 2: "debounce_side i Sell (oi_asks i) pending ?cur s1 ms = (s2, asks)" by fastforce
  let ?e = "i\<lparr>oi_bids := bids, oi_asks := asks\<rparr>"
  obtain os' where e: "compute_reconciliation ?e ?cur = Ok os'" "ord \<in> set (filter keep_confirmed os')"
    using assms(1) r retain_affordable_subset
    by (fastforce simp: reconcile_intent_def apply_intent_debounce_def Let_def 1 2 split: prod.splits sum.splits)
  then have np: "\<not> str_prefix in_flight_prefix oid" using c(1) by (simp add: keep_confirmed_def)
  note w = current_orders_wf [OF assms(2)]
  have p: "p \<in> live ?cur" "po_order_id p = oid"
    using c(2) np assms(2) live_iff [OF w] by (auto simp: current_orders_other book_wf_def simp del: map_of_eq_Some_iff)
  have pp: "p \<in> set (side_of (po_side p) pending)"
    using c(2) p(2) live_iff [OF assms(2)] by (simp add: set_side_of)
  have side: "oid \<in> set (stale ?cur sd ls) \<Longrightarrow> po_side p = sd \<and> ls \<noteq> None" for sd ls
    using live_inj [OF w p(1)] p(2) by (auto simp: stale_def set_side_of split: option.splits)
  from e have "oid \<in> set (stale ?cur Buy bids) \<or> oid \<in> set (stale ?cur Sell asks)"
    using c(1) by (auto simp: compute_reconciliation_eq dest!: arg_cong [of _ _ cancel_order_id] split: sum.splits)
  then show ?thesis
  proof
    assume a: "oid \<in> set (stale ?cur Buy bids)"
    then obtain ls where "bids = Some ls" "po_side p = Buy" using side by blast
    with a d pp 1 show ?thesis
      using debounce_side_safe [of i Buy "oi_bids i" pending ?cur s ms ls p] stale_has_diff by auto
  next
    assume a: "oid \<in> set (stale ?cur Sell asks)"
    then obtain ls where "asks = Some ls" "po_side p = Sell" using side by blast
    with a d pp 2 show ?thesis
      using debounce_side_safe [of i Sell "oi_asks i" pending ?cur s1 ms ls p] stale_has_diff by auto
  qed
qed

definition demo_in_flight :: in_flight_order where
  "demo_in_flight = \<lparr>fo_id = ''F'', fo_mint = ''M'', fo_market = None, fo_side = Buy, fo_price = Fin 1,
     fo_size = Fin 8, fo_submitted_at = 3, fo_signal_id = None\<rparr>"

definition demo_state :: pm_state where
  "demo_state = (pm_new (Fin 20))\<lparr>pm_pending_limit_orders := [(''M'', demo_book)]\<rparr>"

text \<open>The demo intent cancels both pending orders of the demo book and buys 8 at 2.\<close>

lemma demo_reconcile_intent:
  "reconcile_intent demo_state None demo_intent = (demo_state,
     Ok [create_cancel_order demo_intent ''A'', create_cancel_order demo_intent ''B'',
       create_limit_order demo_intent (demo_level 2 8) Buy])"
proof -
  have h: "hget (pm_pending_limit_orders demo_state) (oi_mint demo_intent) = Some demo_book"
    "hget (pm_in_flight_orders demo_state) (oi_mint demo_intent) = None" "pm_available_quote demo_state = Fin 20"
    by (simp_all add: demo_state_def demo_intent_def intent_new_def pm_new_def)
  have "ql_price (demo_level 2 8) = Fin 2" "ql_size (demo_level 2 8) = Fin 8"
    by (simp_all add: demo_level_def level_gtc_def)
  then show ?thesis
    by (simp add: reconcile_intent_def h current_orders_def apply_intent_debounce_def demo_reconciliation
      Let_def keep_confirmed_def in_flight_prefix_def)
qed

lemma demo_book_wf: "book_wf demo_book"
  by (simp add: book_wf_def demo_book_def pending_new_def)

theorem intent_cancels_confirmed_only_witness: "\<exists>p. hget demo_book ''A'' = Some p"
  using intent_cancels_confirmed_only [OF _ demo_book_wf demo_reconcile_intent,
      of "create_cancel_order demo_intent ''A''" "''A''"]
  by (simp add: demo_state_def demo_intent_def intent_new_def)

definition late_intent :: order_intent where
  "late_intent = demo_intent\<lparr>oi_timestamp := 2000000\<rparr>"

lemma late_reconcile_intent:
  "\<exists>s' os. reconcile_intent demo_state (Some 1) late_intent = (s', Ok os) \<and>
     create_cancel_order late_intent ''A'' \<in> set os"
proof -
  have h: "hget (pm_pending_limit_orders demo_state) (oi_mint late_intent) = Some demo_book"
    "hget (pm_in_flight_orders demo_state) (oi_mint late_intent) = None" "pm_available_quote demo_state = Fin 20"
    by (simp_all add: demo_state_def late_intent_def demo_intent_def intent_new_def pm_new_def)
  have u: "debounce_until (side_of Buy demo_book) 1 = Some 1000001"
    by (simp add: debounce_until_def side_of_def demo_book_def hvals_def pending_new_def milliseconds_def max_time_def)
  have i: "oi_bids late_intent = Some [demo_level 2 8]" "oi_asks late_intent = Some []" "oi_timestamp late_intent = 2000000"
    by (simp_all add: late_intent_def demo_intent_def intent_new_def)
  have b: "snd (apply_intent_debounce late_intent demo_book demo_book demo_state (Some 1)) = late_intent"
    using i by (simp add: apply_intent_debounce_def debounce_side_def u Let_def)
  obtain s' where s': "apply_intent_debounce late_intent demo_book demo_book demo_state (Some 1) = (s', late_intent)"
    using b by (metis prod.collapse)
  have c: "compute_reconciliation late_intent demo_book = Ok [create_cancel_order late_intent ''A'',
      create_cancel_order late_intent ''B'', create_limit_order late_intent (demo_level 2 8) Buy]"
    by (simp add: compute_reconciliation_eq validate_intent_def late_intent_def demo_intent_def intent_new_def
      demo_level_def level_gtc_def demo_book_def stale_def missing_def side_of_def hvals_def
      has_matching_level_def has_matching_order_def matches_level_def pending_new_def close_to_def tol_eq
      f0_def f_of_neg)
  have q: "ql_price (demo_level 2 8) = Fin 2" "ql_size (demo_level 2 8) = Fin 8"
    by (simp_all add: demo_level_def level_gtc_def)
  show ?thesis
    by (simp add: reconcile_intent_def h current_orders_def s' c Let_def keep_confirmed_def in_flight_prefix_def q)
qed

theorem quote_lifetime_respected_witness: "1 + milliseconds 1 \<le> 2000000"
proof -
  obtain s' os where r: "reconcile_intent demo_state (Some 1) late_intent = (s', Ok os)"
    "create_cancel_order late_intent ''A'' \<in> set os" using late_reconcile_intent by blast
  show ?thesis
    using quote_lifetime_respected [OF _ demo_book_wf r(1) _ r(2), of "''A''"
      "pending_new ''A'' ''M'' None Buy (Fin 1) (Fin 8) 1 None"]
    by (simp add: demo_state_def late_intent_def demo_intent_def intent_new_def demo_book_def pending_new_def)
qed

section \<open>The budget\<close>

definition spend :: "f64 \<Rightarrow> order list \<Rightarrow> f64" where
  "spend q os = foldl (\<lambda>r ord. case quote_amount (ord_order_type ord) of Some a \<Rightarrow> fsub r a | None \<Rightarrow> r) q os"

lemma cancel_no_quote: "is_cancel t \<Longrightarrow> quote_amount t = None"
  by (cases t) simp_all

lemma spend_retained:
  assumes "list_all (\<lambda>ord. case quote_amount (ord_order_type ord) of Some a \<Rightarrow> a = NaN \<or> fle f0 a | None \<Rightarrow> True) os"
    "list_all (\<lambda>ord. quote_amount (ord_order_type ord) \<noteq> Some NaN) (retain_affordable (Fin v) os)"
    "0 \<le> v" "f64_ok (Fin v)"
  shows "\<exists>r. spend (Fin v) (retain_affordable (Fin v) os) = Fin r \<and> 0 \<le> r \<and> r \<le> v"
  using assms
proof (induction os arbitrary: v)
  case (Cons ord os)
  show ?case
  proof (cases "quote_amount (ord_order_type ord)")
    case None
    then have r: "retain_affordable (Fin v) (ord # os) = ord # retain_affordable (Fin v) os" by simp
    with Cons.prems have "\<exists>r. spend (Fin v) (retain_affordable (Fin v) os) = Fin r \<and> 0 \<le> r \<and> r \<le> v"
      by (intro Cons.IH) (simp_all only: list.pred_inject)
    with None show ?thesis unfolding r by (simp add: spend_def)
  next
    case (Some a)
    then have nc: "\<not> is_cancel (ord_order_type ord)" using cancel_no_quote by fastforce
    show ?thesis
    proof (cases "flt (Fin v) a")
      case True
      with Cons Some nc show ?thesis by simp
    next
      case False
      with Cons.prems Some nc obtain x where x: "a = Fin x" "0 \<le> x" "x \<le> v"
        by (cases a) (auto simp: f0_def)
      have d: "f_of (v - x) = Fin (rnd (v - x))" "0 \<le> rnd (v - x)" "rnd (v - x) \<le> v"
        using f_of_between [OF Cons.prems(4), of "v - x"] x by auto
      have "f64_ok (Fin (rnd (v - x)))" using f64_ok_f_of [of "v - x"] by (simp only: d(1))
      with Cons.IH [of "rnd (v - x)"] Cons.prems Some nc False x d
      obtain r where "spend (Fin (rnd (v - x))) (retain_affordable (Fin (rnd (v - x))) os) = Fin r"
        "0 \<le> r" "r \<le> rnd (v - x)" by auto
      with d Some nc False x show ?thesis by (simp add: spend_def)
    qed
  qed
qed (simp add: spend_def)

lemma fmul_positive: "\<not> fle a f0 \<Longrightarrow> \<not> fle b f0 \<Longrightarrow> fmul a b = NaN \<or> fle f0 (fmul a b)"
  using f_of_nonneg by (cases a; cases b) (auto simp: f0_def inf_of_def)

lemma compute_quotes_positive:
  assumes "compute_reconciliation i m = Ok os" "ord \<in> set os" "quote_amount (ord_order_type ord) = Some a"
  shows "a = NaN \<or> fle f0 a"
proof -
  from assms obtain l where l: "l \<in> set (missing m Buy (oi_bids i))" "a = fmul (ql_price l) (ql_size l)"
    "validate_intent i = Inr ()"
    by (auto simp: compute_reconciliation_eq split: sum.splits)
  then have "\<not> fle (ql_price l) f0" "\<not> fle (ql_size l) f0"
    by (auto simp: missing_def validate_intent_def validate_levels_ok list_all_iff
      split: option.splits sum.splits)
  from fmul_positive [OF this] show ?thesis by (simp only: l(2))
qed

text \<open>C37. Buys stay within the balance: subtracting the quote amounts of the orders an intent produces
  from the available balance, in order and with the code's rounding, never goes below zero, as long as
  none of the amounts is NaN.  (Cancels are never dropped for lack of money.)\<close>

theorem buys_within_balance:
  assumes "reconcile_intent s min_ms i = (s', Ok os)"
    "pm_available_quote s = Fin v" "0 \<le> v" "f64_ok (Fin v)"
    "list_all (\<lambda>ord. quote_amount (ord_order_type ord) \<noteq> Some NaN) os"
  shows "\<exists>r. spend (pm_available_quote s) os = Fin r \<and> 0 \<le> r \<and> r \<le> v"
proof -
  from assms(1) obtain e m os' where e: "compute_reconciliation e m = Ok os'"
    "os = retain_affordable (pm_available_quote s) (filter keep_confirmed os')"
    by (auto simp: reconcile_intent_def Let_def split: prod.splits sum.splits)
  have "list_all (\<lambda>ord. case quote_amount (ord_order_type ord) of Some a \<Rightarrow> a = NaN \<or> fle f0 a | None \<Rightarrow> True)
      (filter keep_confirmed os')"
    using compute_quotes_positive [OF e(1)] by (auto simp: list_all_iff split: option.splits)
  from spend_retained [OF this _ assms(3,4)] show ?thesis using assms(2,5) e(2) by simp
qed

theorem buys_within_balance_witness:
  "\<exists>r. spend (Fin 20) [create_cancel_order demo_intent ''A'', create_cancel_order demo_intent ''B'',
     create_limit_order demo_intent (demo_level 2 8) Buy] = Fin r \<and> 0 \<le> r \<and> r \<le> 20"
  using buys_within_balance [OF demo_reconcile_intent, of 20]
  by (simp add: demo_state_def pm_new_def demo_level_def level_gtc_def)

text \<open>A bid whose price is not a number disables the budget: once it is in the list, every later
  buy of the intent is let through, whatever the balance.\<close>

theorem nan_bid_disables_budget:
  assumes "oi_bids i = Some (l # ls)" "ql_price l = NaN"
    "hget (pm_pending_limit_orders s) (oi_mint i) = None" "hget (pm_in_flight_orders s) (oi_mint i) = None"
    "reconcile_intent s None i = (s', Ok os)"
  shows "list_all (\<lambda>l'. create_limit_order i l' Buy \<in> set os) ls"
proof -
  have keep: "retain_affordable NaN xs = xs" for xs
    by (induction xs) (auto simp: fsub_def fadd_NaN split: option.splits)
  obtain rest where "compute_reconciliation i [] = Ok (create_limit_order i l Buy #
      map (\<lambda>l. create_limit_order i l Buy) ls @ rest)"
    using assms by (auto simp: reconcile_intent_def current_orders_def apply_intent_debounce_def
      compute_reconciliation_eq stale_def missing_def side_of_def hvals_def has_matching_order_def Let_def
      split: sum.splits option.splits)
  moreover have kc: "keep_confirmed (create_limit_order i l' Buy)" for l' by (simp add: keep_confirmed_def)
  moreover have "\<not> flt v NaN" "fsub v NaN = NaN" for v
    by (cases v; simp add: fsub_def fadd_NaN)+
  ultimately have "os = create_limit_order i l Buy #
      filter keep_confirmed (map (\<lambda>l. create_limit_order i l Buy) ls @ rest)"
    using assms by (auto simp: reconcile_intent_def current_orders_def apply_intent_debounce_def Let_def keep)
  then show ?thesis by (simp add: list_all_iff kc)
qed

theorem nan_bid_disables_budget_witness:
  "let i = intent_new ''M'' None (Some [level_gtc NaN (Fin 8), level_gtc (Fin 2) (Fin 500)]) None ''S'' 5 None in
   \<exists>os. snd (reconcile_intent (pm_new (Fin 1)) None i) = Ok os \<and>
     create_limit_order i (level_gtc (Fin 2) (Fin 500)) Buy \<in> set os"
proof -
  let ?i = "intent_new ''M'' None (Some [level_gtc NaN (Fin 8), level_gtc (Fin 2) (Fin 500)]) None ''S'' 5 None"
  have "\<exists>os. compute_reconciliation ?i [] = Ok os"
    by (simp add: compute_reconciliation_eq validate_intent_def intent_new_def level_gtc_def f0_def)
  then obtain s' os where r: "reconcile_intent (pm_new (Fin 1)) None ?i = (s', Ok os)"
    by (auto simp: reconcile_intent_def apply_intent_debounce_def current_orders_def pm_new_def Let_def)
  have "create_limit_order ?i (level_gtc (Fin 2) (Fin 500)) Buy \<in> set os"
    using nan_bid_disables_budget [of ?i "level_gtc NaN (Fin 8)" "[level_gtc (Fin 2) (Fin 500)]", OF _ _ _ _ r]
    by (simp add: intent_new_def level_gtc_def pm_new_def)
  with r show ?thesis by (simp add: Let_def)
qed

section \<open>No debounced quote is lost\<close>

definition send_quotes :: "order_intent \<Rightarrow> order_side \<Rightarrow> (string, pending_order) hmap \<Rightarrow>
    (string, pending_order) hmap \<Rightarrow> 64 word \<Rightarrow> pm_state \<Rightarrow> timestamp \<times> quote_level list \<Rightarrow> pm_state" where
  "send_quotes i side pending current ms s u =
     fst (debounce_side (i\<lparr>oi_timestamp := fst u\<rparr>) side (Some (snd u)) pending current s ms)"

lemma lane_pending_set [simp]: "lane_pending (set_lane s k v) k = v"
  by (simp add: lane_pending_def set_lane_def)

lemma lane_of_time [simp]: "lane_of (i\<lparr>oi_timestamp := t\<rparr>) side = lane_of i side"
  by (simp add: lane_of_def)

lemma send_quote_stored:
  assumes "debounce_until (side_of side pending) ms = Some d" "t < d" "ls \<noteq> []"
    "side_has_diff (side_of side current) ls"
  shows "debounce_side (i\<lparr>oi_timestamp := t\<rparr>) side (Some ls) pending current s ms =
    (set_lane s (lane_of i side) (Some ls), None)"
  using assms by (simp add: debounce_side_def Let_def)

lemma send_quotes_stored:
  assumes "debounce_until (side_of side pending) ms = Some d" "us \<noteq> []"
    "list_all (\<lambda>(t, ls). t < d \<and> ls \<noteq> [] \<and> side_has_diff (side_of side current) ls) us"
  shows "lane_pending (foldl (send_quotes i side pending current ms) s us) (lane_of i side) = Some (snd (last us))"
  using assms(2,3)
proof (induction us rule: rev_induct)
  case (snoc u us)
  then obtain t ls where u: "u = (t, ls)" "t < d" "ls \<noteq> []" "side_has_diff (side_of side current) ls"
    by (cases u) (auto simp: list_all_iff)
  have "send_quotes i side pending current ms s' u = set_lane s' (lane_of i side) (Some ls)" for s'
    by (simp only: send_quotes_def u(1) fst_conv snd_conv send_quote_stored [OF assms(1) u(2,3,4)])
  then show ?case by (simp add: u(1))
qed simp

text \<open>No debounced quote is lost: after any number of differing quote updates inside the minimum
  lifetime, the first intent at or after the deadline that leaves the side open gets exactly the levels
  of the last update, and the lane is empty again.\<close>

theorem debounced_quote_delivered:
  assumes "debounce_until (side_of side pending) ms = Some d" "us \<noteq> []"
    "list_all (\<lambda>(t, ls). t < d \<and> ls \<noteq> [] \<and> side_has_diff (side_of side current) ls) us" "d \<le> now"
  shows "case debounce_side (i\<lparr>oi_timestamp := now\<rparr>) side None pending current
      (foldl (send_quotes i side pending current ms) s us) ms of
    (s', r) \<Rightarrow> r = Some (snd (last us)) \<and> lane_pending s' (lane_of i side) = None"
  using send_quotes_stored [OF assms(1-3), of i s] assms(1,4) by (simp add: debounce_side_def Let_def)

theorem debounced_quote_delivered_witness:
  "snd (debounce_side (demo_intent\<lparr>oi_timestamp := 1000001\<rparr>) Buy None demo_book demo_book
     (foldl (send_quotes demo_intent Buy demo_book demo_book 1) demo_state
       [(2, [demo_level 2 8]), (3, [demo_level 2 8, demo_level 4 8])]) 1) = Some [demo_level 2 8, demo_level 4 8]"
proof -
  have s: "side_of Buy demo_book = [pending_new ''A'' ''M'' None Buy (Fin 1) (Fin 8) 1 None]"
    by (simp add: side_of_def demo_book_def hvals_def pending_new_def)
  have d: "debounce_until (side_of Buy demo_book) 1 = Some 1000001"
    by (simp add: s debounce_until_def pending_new_def milliseconds_def max_time_def)
  have x: "side_has_diff (side_of Buy demo_book) [demo_level 2 8]"
    "side_has_diff (side_of Buy demo_book) [demo_level 2 8, demo_level 4 8]"
    by (simp_all add: s side_has_diff_def has_matching_level_def has_matching_order_def matches_level_def
      demo_level_def level_gtc_def pending_new_def close_to_def tol_eq f_of_neg)
  show ?thesis
    using debounced_quote_delivered [OF d, of "[(2, [demo_level 2 8]), (3, [demo_level 2 8, demo_level 4 8])]"
      demo_book 1000001 demo_intent demo_state] x
    by (simp split: prod.splits)
qed

section \<open>The orders that are tracked\<close>

definition book_at :: "(string, (string, pending_order) hmap) hmap \<Rightarrow> string \<times> string \<Rightarrow> pending_order option" where
  "book_at m k = (case hget m (fst k) of None \<Rightarrow> None | Some os \<Rightarrow> hget os (snd k))"

definition tracked :: "pm_state \<Rightarrow> string \<times> string \<Rightarrow> pending_order option" where
  "tracked s = book_at (pm_pending_limit_orders s)"

definition one_mint :: "string \<Rightarrow> (string, (string, pending_order) hmap) hmap \<Rightarrow> bool" where
  "one_mint oid m \<longleftrightarrow> (\<forall>a b. book_at m (a, oid) \<noteq> None \<longrightarrow> book_at m (b, oid) \<noteq> None \<longrightarrow> a = b)"

definition ids_unique :: "pm_state \<Rightarrow> bool" where
  "ids_unique s \<longleftrightarrow> hwf (pm_pending_limit_orders s) \<and> (\<forall>oid. one_mint oid (pm_pending_limit_orders s))"

text \<open>The abstract view: a partial map from mint and order id to orders, and what an event does to it.\<close>

definition on_id :: "string \<Rightarrow> (pending_order \<Rightarrow> pending_order option) \<Rightarrow>
    (string \<times> string \<Rightarrow> pending_order option) \<Rightarrow> string \<times> string \<Rightarrow> pending_order option" where
  "on_id oid f T k = (if snd k = oid then Option.bind (T k) f else T k)"

fun track_event :: "(string \<times> string \<Rightarrow> pending_order option) \<Rightarrow> limit_order_event \<Rightarrow>
    string \<times> string \<Rightarrow> pending_order option" where
  "track_event T (OrderPlaced oid mint market price sz side ts signal ctx) =
     T((mint, oid) \<mapsto> pending_new oid mint market side price sz ts signal)"
| "track_event T (OrderPartiallyFilled oid mint side filled remaining price ts signal mode) =
     on_id oid (\<lambda>p. if flt remaining order_dust_threshold then None
       else Some (p\<lparr>po_remaining_size := remaining\<rparr>)) T"
| "track_event T (OrderCancelled oid reason ts) = (if awaiting reason then T else on_id oid (\<lambda>p. None) T)"
| "track_event T (OrderExpired oid ts) = on_id oid (\<lambda>p. None) T"
| "track_event T (OrderRejected reason) = T"

lemma book_at_Cons: "book_at ((mint, os) # m) (a, oid) = (if a = mint then hget os oid else book_at m (a, oid))"
  by (auto simp: book_at_def)

lemma book_at_absent: "a \<notin> fst ` set m \<Longrightarrow> book_at m (a, oid) = None"
  by (simp add: book_at_def map_of_eq_None_iff [THEN iffD2])

lemma one_mint_Cons:
  assumes "one_mint oid ((mint, os) # m)" "mint \<notin> fst ` set m"
  shows "one_mint oid m" "hget os oid \<noteq> None \<Longrightarrow> book_at m (a, oid) = None"
proof -
  have b: "book_at m (mint, x) = None" for x using assms(2) by (rule book_at_absent)
  show "one_mint oid m"
    using assms(1) b unfolding one_mint_def by (metis book_at_Cons)
  assume "hget os oid \<noteq> None"
  then show "book_at m (a, oid) = None"
    using assms(1) b unfolding one_mint_def by (metis book_at_Cons)
qed

lemma remove_by_id_at:
  "hwf m \<Longrightarrow> one_mint oid m \<Longrightarrow> book_at (fst (remove_by_id oid m)) = on_id oid (\<lambda>p. None) (book_at m)"
proof (induction oid m rule: remove_by_id.induct)
  case (2 oid mint os rest)
  have n: "mint \<notin> fst ` set rest" using 2(2) by simp
  note u = one_mint_Cons [OF 2(3) n]
  show ?case
  proof (cases "hget os oid")
    case None
    with 2(1) [OF None] 2(2) u(1) have "book_at (fst (remove_by_id oid rest)) = on_id oid (\<lambda>p. None) (book_at rest)"
      by simp
    with None show ?thesis
      by (auto simp: fun_eq_iff book_at_Cons on_id_def Let_def split: prod.splits)
  next
    case (Some p)
    with u(2) show ?thesis by (auto simp: fun_eq_iff book_at_Cons on_id_def)
  qed
qed (simp add: fun_eq_iff on_id_def book_at_def)

lemma partial_fill_at:
  "hwf m \<Longrightarrow> one_mint oid m \<Longrightarrow> book_at (partial_fill_by_id remaining oid m) =
     on_id oid (\<lambda>p. if flt remaining order_dust_threshold then None
       else Some (p\<lparr>po_remaining_size := remaining\<rparr>)) (book_at m)"
proof (induction remaining oid m rule: partial_fill_by_id.induct)
  case (2 remaining oid mint os rest)
  have n: "mint \<notin> fst ` set rest" using 2(2) by simp
  note u = one_mint_Cons [OF 2(3) n]
  show ?case
  proof (cases "hget os oid")
    case None
    with 2(1) [OF None] 2(2) u(1) show ?thesis
      by (auto simp: fun_eq_iff book_at_Cons on_id_def)
  next
    case (Some p)
    with u(2) show ?thesis by (auto simp: fun_eq_iff book_at_Cons on_id_def partial_fill_order_def)
  qed
qed (simp add: fun_eq_iff on_id_def book_at_def)

lemma remove_in_flight_frame [simp]:
  "pm_pending_limit_orders (fst (remove_in_flight_order_by_level s mint side price sz)) = pm_pending_limit_orders s"
  by (auto simp: remove_in_flight_order_by_level_def remove_in_flight_order_def split: option.splits)

lemma tracked_event:
  assumes "ids_unique s"
  shows "tracked (fst (handle_limit_order_event s ev)) = track_event (tracked s) ev"
proof (cases ev)
  case (OrderPlaced oid mint market price sz side ts signal ctx)
  have "book_at (hput mint (hput oid p (unwrap_or (hget m mint) [])) m) = (book_at m)((mint, oid) \<mapsto> p)" for p m
    by (auto simp: fun_eq_iff book_at_def split: option.splits)
  with OrderPlaced show ?thesis
    by (auto simp: tracked_def add_pending_order_def Let_def split: prod.splits
      dest: arg_cong [of _ _ "\<lambda>x. pm_pending_limit_orders (fst x)"])
next
  case (OrderPartiallyFilled oid mint side filled remaining price ts signal mode)
  with assms partial_fill_at [of "pm_pending_limit_orders s" oid remaining] show ?thesis
    by (simp add: tracked_def ids_unique_def)
next
  case (OrderCancelled oid reason ts)
  with assms remove_by_id_at [of "pm_pending_limit_orders s" oid] show ?thesis
    by (auto simp: tracked_def ids_unique_def remove_pending_order_by_id_def Let_def split: prod.splits)
next
  case (OrderExpired oid ts)
  with assms remove_by_id_at [of "pm_pending_limit_orders s" oid] show ?thesis
    by (auto simp: tracked_def ids_unique_def remove_pending_order_by_id_def Let_def split: prod.splits)
qed simp

lemma ids_unique_smaller:
  assumes "ids_unique s" "map fst (pm_pending_limit_orders s') = map fst (pm_pending_limit_orders s)"
    "\<And>k. tracked s' k \<noteq> None \<Longrightarrow> tracked s k \<noteq> None"
  shows "ids_unique s'"
  using assms unfolding ids_unique_def one_mint_def tracked_def by (metis (no_types))

lemma partial_fill_keys: "map fst (partial_fill_by_id remaining oid m) = map fst m"
  by (induction remaining oid m rule: partial_fill_by_id.induct) (auto split: option.split)

lemma ids_unique_fill:
  assumes "ids_unique s"
  shows "ids_unique (fst (handle_limit_order_event s (OrderPartiallyFilled oid mint side filled remaining price ts signal mode)))"
proof (rule ids_unique_smaller [OF assms])
  fix k assume "tracked (fst (handle_limit_order_event s
    (OrderPartiallyFilled oid mint side filled remaining price ts signal mode))) k \<noteq> None"
  then show "tracked s k \<noteq> None"
    unfolding tracked_event [OF assms] by (cases "tracked s k") (auto simp: on_id_def split: if_splits)
qed (simp add: partial_fill_keys)

text \<open>The venue gives every order an id of its own: an order is not placed under an id that is pending for
  another mint.  Then no id is ever pending for two mints.\<close>

fun own_id :: "(string \<times> string \<Rightarrow> pending_order option) \<Rightarrow> limit_order_event \<Rightarrow> bool" where
  "own_id T (OrderPlaced oid mint market price sz side ts signal ctx) = (\<forall>a. a \<noteq> mint \<longrightarrow> T (a, oid) = None)"
| "own_id T ev = True"

fun own_ids :: "(string \<times> string \<Rightarrow> pending_order option) \<Rightarrow> limit_order_event list \<Rightarrow> bool" where
  "own_ids T [] = True"
| "own_ids T (ev # evs) = (own_id T ev \<and> own_ids (track_event T ev) evs)"

lemma remove_by_id_keys: "fst ` set (fst (remove_by_id oid m)) = fst ` set m"
  by (induction oid m rule: remove_by_id.induct) (simp_all add: Let_def case_prod_beta split: option.splits)

lemma remove_by_id_hwf: "hwf m \<Longrightarrow> hwf (fst (remove_by_id oid m))"
proof (induction oid m rule: remove_by_id.induct)
  case (2 oid mint os rest)
  then show ?case
    using remove_by_id_keys [of oid rest] by (simp add: Let_def case_prod_beta split: option.splits)
qed simp

lemma track_event_one:
  assumes "\<And>a b. T (a, oid) \<noteq> None \<Longrightarrow> T (b, oid) \<noteq> None \<Longrightarrow> a = b" "own_id T ev"
    "track_event T ev (a, oid) \<noteq> None" "track_event T ev (b, oid) \<noteq> None"
  shows "a = b"
proof (cases ev)
  case (OrderPlaced x mint market price sz side ts signal ctx)
  then show ?thesis using assms by (cases "x = oid"; cases "a = mint"; cases "b = mint") auto
qed (use assms in \<open>auto simp: on_id_def bind_eq_Some_conv split: if_splits\<close>)

lemma ids_unique_event:
  assumes "ids_unique s" "own_id (tracked s) ev"
  shows "ids_unique (fst (handle_limit_order_event s ev))"
proof -
  let ?s = "fst (handle_limit_order_event s ev)"
  have "hwf (pm_pending_limit_orders ?s)"
    using assms(1) remove_by_id_hwf [of "pm_pending_limit_orders s"]
    by (cases ev) (auto simp: ids_unique_def partial_fill_keys add_pending_order_def remove_pending_order_by_id_def
        case_prod_beta Let_def)
  moreover have "one_mint oid (pm_pending_limit_orders ?s)" for oid
    unfolding one_mint_def
    using track_event_one [OF _ assms(2), of oid] assms(1) tracked_event [OF assms(1), of ev]
    by (simp add: tracked_def ids_unique_def one_mint_def)
  ultimately show ?thesis by (simp add: ids_unique_def)
qed

definition apply_limit_events :: "limit_order_event list \<Rightarrow> pm_state \<Rightarrow> pm_state" where
  "apply_limit_events evs s = foldl (\<lambda>s ev. fst (handle_limit_order_event s ev)) s evs"

lemma limit_events_tracked:
  "own_ids (tracked s) evs \<Longrightarrow> ids_unique s \<Longrightarrow>
   tracked (apply_limit_events evs s) = foldl track_event (tracked s) evs \<and> ids_unique (apply_limit_events evs s)"
proof (induction evs arbitrary: s)
  case (Cons ev evs)
  then show ?case
    using ids_unique_event [of s ev] tracked_event [of s ev] by (simp add: apply_limit_events_def)
qed (simp add: apply_limit_events_def)

text \<open>C36. The pending orders implement a plain map: over any limit order events on a new manager in which
  no order is placed under an id that is pending for another mint, the nested maps hold what \<open>track_event\<close>
  makes of an empty map from mint and order id to orders: a placement adds the order, a partial fill sets
  the remaining size or removes the order when only dust is left, an expiry and a confirmed cancel remove
  it, and a cancel that still awaits confirmation, a rejection and an event for an unknown order change
  nothing.\<close>

theorem limit_order_event_refines:
  assumes "own_ids (\<lambda>k. None) evs"
  shows "tracked (apply_limit_events evs (pm_new q)) = foldl track_event (\<lambda>k. None) evs"
proof -
  have "tracked (pm_new q) = (\<lambda>k. None)" "ids_unique (pm_new q)"
    by (auto simp: tracked_def book_at_def pm_new_def ids_unique_def one_mint_def fun_eq_iff)
  then show ?thesis using limit_events_tracked [of "pm_new q" evs] assms by simp
qed

theorem limit_order_event_refines_witness:
  "tracked (apply_limit_events [OrderPlaced ''A'' ''M'' None (grid 1) (grid 8) Sell 2 None None, OrderExpired ''A'' 9]
     (pm_new f0)) = (\<lambda>k. None)"
  using limit_order_event_refines
    [of "[OrderPlaced ''A'' ''M'' None (grid 1) (grid 8) Sell 2 None None, OrderExpired ''A'' 9]" f0]
  by (simp add: on_id_def fun_eq_iff)

end
