(* ===== verification/Exits.thy ===== *)
theory Exits
  imports PositionState
begin

text \<open>
  When positions are opened and closed: the exit strategies of \<open>position/exit_strategy.rs\<close> (the
  trait's two implementations), the timer handler \<open>position/handlers/timer_exit.rs\<close> that turns
  them into sell orders, and the AMM signal handler \<open>position/handlers/amm_signal.rs\<close> that opens
  positions.  The fields of a signal that the handler reads are a record.
\<close>

section \<open>Exit strategies\<close>

record exit_config =
  xc_take_profit_threshold :: f64
  xc_stop_loss_threshold :: f64
  xc_max_holding_period :: duration
  xc_max_sell_failures :: u32

datatype exit_strategy = ConfigurableExit exit_config | NoopExit

definition configurable_should_exit :: "exit_config \<Rightarrow> position \<Rightarrow> timestamp \<Rightarrow> bool" where
  "configurable_should_exit c p now =
     (if (case pos_pnl_pct p of None \<Rightarrow> False | Some pnl_pct \<Rightarrow>
            let pnl_percent = fdiv pnl_pct f100
            in fle (xc_take_profit_threshold c) pnl_percent
               \<or> fle pnl_percent (fneg (xc_stop_loss_threshold c))) then True
      else if now - pos_entry_time p \<ge> xc_max_holding_period c then True
      else xc_max_sell_failures c \<le> pos_sell_failure_count p)"

definition configurable_exit_reason :: "exit_config \<Rightarrow> position \<Rightarrow> timestamp \<Rightarrow> exit_reason" where
  "configurable_exit_reason c p now =
     (let by_pnl = (case pos_pnl_pct p of None \<Rightarrow> None | Some pnl_pct \<Rightarrow>
         let pnl_percent = fdiv pnl_pct f100
         in if fle (xc_take_profit_threshold c) pnl_percent then Some TakeProfit
            else if fle pnl_percent (fneg (xc_stop_loss_threshold c)) then Some StopLoss else None)
      in case by_pnl of Some r \<Rightarrow> r | None \<Rightarrow>
        if now - pos_entry_time p \<ge> xc_max_holding_period c then Timeout
        else if xc_max_sell_failures c \<le> pos_sell_failure_count p then MaxSellFailures
        else ManualClose)"

fun should_exit :: "exit_strategy \<Rightarrow> position \<Rightarrow> timestamp \<Rightarrow> bool" where
  "should_exit (ConfigurableExit c) p now = configurable_should_exit c p now"
| "should_exit NoopExit p now = False"

fun get_exit_reason :: "exit_strategy \<Rightarrow> position \<Rightarrow> timestamp \<Rightarrow> exit_reason" where
  "get_exit_reason (ConfigurableExit c) p now = configurable_exit_reason c p now"
| "get_exit_reason NoopExit p now = ManualClose"

text \<open>
  The contract between the two methods of the trait: a position is to be exited exactly when
  there is a reason other than a manual close.
\<close>

locale exit_policy =
  fixes exits :: "position \<Rightarrow> timestamp \<Rightarrow> bool"
    and reason :: "position \<Rightarrow> timestamp \<Rightarrow> exit_reason"
  assumes exits_iff_reason: "exits p now \<longleftrightarrow> reason p now \<noteq> ManualClose"
begin

lemma reason_automatic: "exits p now \<Longrightarrow> reason p now \<noteq> ManualClose"
  by (simp add: exits_iff_reason)

lemma no_exit_manual: "\<not> exits p now \<Longrightarrow> reason p now = ManualClose"
  by (simp add: exits_iff_reason)

end

lemma configurable_exit_iff:
  "configurable_should_exit c p now \<longleftrightarrow> configurable_exit_reason c p now \<noteq> ManualClose"
  by (auto simp: configurable_should_exit_def configurable_exit_reason_def Let_def split: option.splits)

interpretation xp: exit_policy "should_exit x" "get_exit_reason x" for x
  by unfold_locales (cases x; simp add: configurable_exit_iff)

lemma configurable_reasons:
  "configurable_exit_reason c p now \<in> {TakeProfit, StopLoss, Timeout, MaxSellFailures, ManualClose}"
  by (auto simp: configurable_exit_reason_def Let_def split: option.splits)

section \<open>Timer exits\<close>

definition wants_exit :: "pm_state \<Rightarrow> exit_strategy \<Rightarrow> timestamp \<Rightarrow> string \<times> position \<Rightarrow> bool" where
  "wants_exit s x now mp = (case mp of (mint, p) \<Rightarrow>
     if mint \<in> pm_pending_sells s then False
     else case pos_exit_mode p of
         Automatic \<Rightarrow> should_exit x p now
       | StrategyManaged \<Rightarrow> False)"

definition collect_positions_to_sell ::
  "pm_state \<Rightarrow> exit_strategy \<Rightarrow> timestamp \<Rightarrow> (string \<times> position) list" where
  "collect_positions_to_sell s x now = filter (wants_exit s x now) (pm_positions s)"

definition build_exit_order :: "timestamp \<Rightarrow> string \<times> position \<Rightarrow> order" where
  "build_exit_order now mp = (case mp of (mint, p) \<Rightarrow>
     \<lparr>ord_mint = mint, ord_market = None, ord_order_type = MarketSell (pos_amount p) True,
      ord_price = pos_current_price p, ord_status = Pending, ord_timestamp = now,
      ord_signal_slot = None, ord_signal_id = None, ord_dex_type = None, ord_venue_order_id = None,
      ord_exit_mode = None, ord_context = None\<rparr>)"

definition build_exit_orders :: "(string \<times> position) list \<Rightarrow> timestamp \<Rightarrow> order list" where
  "build_exit_orders ps now = map (build_exit_order now) ps"

definition handle_timer :: "pm_state \<Rightarrow> exit_strategy \<Rightarrow> timestamp \<Rightarrow> position_error + order list" where
  "handle_timer s x now = Ok (build_exit_orders (collect_positions_to_sell s x now) now)"

lemma wants_exit_iff:
  "wants_exit s x now (mint, p) \<longleftrightarrow>
    mint \<notin> pm_pending_sells s \<and> pos_exit_mode p = Automatic \<and> get_exit_reason x p now \<noteq> ManualClose"
  by (cases "pos_exit_mode p") (auto simp: wants_exit_def xp.exits_iff_reason)

section \<open>AMM signals\<close>

record tradable_signal =
  sg_mint :: "string option"
  sg_price :: "f64 option"
  sg_timestamp :: "timestamp option"
  sg_slot :: "nat option"
  sg_signal_id :: string
  sg_context :: "json option"

definition handle_signal ::
  "pm_state \<Rightarrow> f64 \<Rightarrow> u32 \<Rightarrow> tradable_signal \<Rightarrow> position_error + order option" where
  "handle_signal s trade_amount max_open sg =
     (case sg_mint sg of None \<Rightarrow> Ok None
      | Some mint \<Rightarrow>
        if mint = [] then Ok None
        else if (of_nat (length (pm_positions s)) :: u32) \<ge> max_open
        then Err (MaxOpenPositionsReached max_open)
        else if flt (pm_available_quote s) trade_amount
        then Err (InsufficientSolBalance (pm_available_quote s) trade_amount)
        else (case sg_price sg of None \<Rightarrow> Ok None
          | Some price \<Rightarrow> (case sg_timestamp sg of None \<Rightarrow> Ok None
            | Some ts \<Rightarrow> Ok (Some
               \<lparr>ord_mint = mint, ord_market = None, ord_order_type = LegacyBuy trade_amount,
                ord_price = Some price, ord_status = Pending, ord_timestamp = ts,
                ord_signal_slot = sg_slot sg, ord_signal_id = Some (sg_signal_id sg),
                ord_dex_type = None, ord_venue_order_id = None, ord_exit_mode = None,
                ord_context = sg_context sg\<rparr>))))"

section \<open>Properties\<close>

text \<open>The timer sells exactly the positions that are managed automatically, have no sell
  pending and have an automatic reason to exit; each of them gets one market order for its whole
  amount that clears the position, priced at its current price, in the order of the positions.\<close>

theorem timer_orders_exact:
  "\<exists>os. handle_timer s x now = Ok os \<and>
     os = map (build_exit_order now) (filter (\<lambda>(mint, p). mint \<notin> pm_pending_sells s \<and>
       pos_exit_mode p = Automatic \<and> get_exit_reason x p now \<noteq> ManualClose) (pm_positions s)) \<and>
     (\<forall>ord \<in> set os. \<exists>p. (ord_mint ord, p) \<in> set (pm_positions s) \<and>
       ord_order_type ord = MarketSell (pos_amount p) True \<and> ord_price ord = pos_current_price p)"
proof -
  have "wants_exit s x now = (\<lambda>(mint, p). mint \<notin> pm_pending_sells s \<and>
       pos_exit_mode p = Automatic \<and> get_exit_reason x p now \<noteq> ManualClose)"
    by (auto simp: fun_eq_iff wants_exit_iff)
  then show ?thesis
    by (auto simp: handle_timer_def build_exit_orders_def collect_positions_to_sell_def build_exit_order_def)
qed

theorem timer_orders_exact_witness:
  "\<exists>os. handle_timer (pm_new (Fin 10)) NoopExit 0 = Ok os \<and> os = []"
  using timer_orders_exact [of "pm_new (Fin 10)" NoopExit 0] by (auto simp: pm_new_def)

text \<open>A signal opens a trade only within the limits: an order comes out exactly when the signal
  names a mint, a price and a time, fewer positions are open than allowed and the balance is not below
  the trade amount; it is then a buy of that mint for exactly the configured amount at the signal's
  price.\<close>

theorem signal_order_within_limits:
  "handle_signal s trade_amount max_open sg = Ok (Some ord) \<longleftrightarrow>
     (\<exists>mint price ts. sg_mint sg = Some mint \<and> mint \<noteq> [] \<and> sg_price sg = Some price \<and>
        sg_timestamp sg = Some ts \<and> (of_nat (length (pm_positions s)) :: u32) < max_open \<and>
        \<not> flt (pm_available_quote s) trade_amount \<and>
        ord = (new_buy mint trade_amount ts (Some (sg_signal_id sg)) (sg_slot sg))
          \<lparr>ord_price := Some price, ord_context := sg_context sg\<rparr>)"
  by (auto simp: handle_signal_def new_buy_def not_le split: option.splits if_splits)

end
