(* ===== verification/Fills.thy ===== *)
theory Fills
  imports Exits
begin

text \<open>
  Fills of market orders: \<open>position/balance_tracker.rs\<close> (cash flow and trade statistics),
  \<open>position/execution_handler.rs\<close> (opening, averaging and reducing a position) and
  \<open>position/handlers/fills.rs\<close> (the handler that composes them).
\<close>

section \<open>Balance and statistics\<close>

definition quote_change :: "f64 \<Rightarrow> f64 option \<Rightarrow> f64 option \<Rightarrow> f64" where
  "quote_change change quote_amt price =
     (case quote_amt of Some a \<Rightarrow> fabs a
      | None \<Rightarrow> (case price of None \<Rightarrow> f0 | Some p \<Rightarrow> fmul (fabs change) p))"

definition update_quote_balance ::
  "pm_state \<Rightarrow> f64 \<Rightarrow> f64 option \<Rightarrow> f64 option \<Rightarrow> pm_state" where
  "update_quote_balance s change quote_amt price =
     (let qc = quote_change change quote_amt price in
      if flt f0 change
      then s\<lparr>pm_available_quote := fsub (pm_available_quote s) qc,
             pm_total_quote_spent := fadd (pm_total_quote_spent s) qc\<rparr>
      else s\<lparr>pm_available_quote := fadd (pm_available_quote s) qc,
             pm_total_quote_received := fadd (pm_total_quote_received s) qc\<rparr>)"

definition update_trade_statistics :: "pm_state \<Rightarrow> position \<Rightarrow> pm_state" where
  "update_trade_statistics s p =
     s\<lparr>pm_total_closed_positions := pm_total_closed_positions s + 1,
       pm_winning_trades := (if (case pos_pnl_pct p of None \<Rightarrow> False | Some x \<Rightarrow> flt f0 x)
         then pm_winning_trades s + 1 else pm_winning_trades s)\<rparr>"

definition calculate_pnl_pct :: "position \<Rightarrow> f64 option" where
  "calculate_pnl_pct p =
     (case (pos_current_price p, pos_entry_price p) of
        (Some current, Some entry) \<Rightarrow>
          if \<not> feq entry f0 then Some (fmul (fdiv (fsub current entry) entry) f100) else None
      | _ \<Rightarrow> None)"

section \<open>Opening and changing a position\<close>

definition get_or_create_position :: "pm_state \<Rightarrow> string \<Rightarrow> f64 option \<Rightarrow> timestamp \<Rightarrow> string option \<Rightarrow>
    nat option \<Rightarrow> signature option \<Rightarrow> exit_mode option \<Rightarrow> position \<times> bool" where
  "get_or_create_position s mint price ts signal_id slot sig mode =
     (case hget (pm_positions s) mint of
        Some p \<Rightarrow> (p, False)
      | None \<Rightarrow>
         (\<lparr>pos_mint = mint, pos_amount = f0, pos_entry_price = Some f0, pos_current_price = price,
           pos_current_price_updated_time = ts, pos_pnl_pct = Some f0, pos_entry_time = ts,
           pos_entry_slot = unwrap_or slot 0, pos_entry_signature = unwrap_or sig default_signature,
           pos_signal_id = signal_id, pos_sell_failure_count = 0, pos_active_exit_order = None,
           pos_exit_mode = unwrap_or mode Automatic\<rparr>, True))"

definition update_position_for_buy :: "position \<Rightarrow> f64 \<Rightarrow> f64 option \<Rightarrow> position" where
  "update_position_for_buy p change price =
     (case (price, pos_entry_price p) of
        (Some pr, Some ep) \<Rightarrow>
          let total_value = fadd (fmul (pos_amount p) ep) (fmul change pr);
            amount = fadd (pos_amount p) change
          in p\<lparr>pos_amount := amount, pos_entry_price := Some (fdiv total_value amount)\<rparr>
      | _ \<Rightarrow> p)"

definition update_position_for_sell :: "position \<Rightarrow> f64 \<Rightarrow> bool \<Rightarrow> position" where
  "update_position_for_sell p change clear =
     (if clear then p\<lparr>pos_amount := f0\<rparr> else p\<lparr>pos_amount := fadd (pos_amount p) change\<rparr>)"

section \<open>The fill handler\<close>

definition is_dust :: "position \<Rightarrow> bool" where
  "is_dust p = flt (fabs (pos_amount p)) position_dust_threshold"

definition filled_position :: "pm_state \<Rightarrow> order_filled \<Rightarrow> position \<times> bool" where
  "filled_position s f =
     (let change = of_token_amount_change f;
        (p0, was_new) = get_or_create_position s (of_mint f) (of_price f) (of_timestamp f)
          (of_signal_id f) (of_confirmed_slot f) (of_confirmed_signature f) (of_exit_mode f);
        p1 = (if flt f0 change then update_position_for_buy p0 change (of_price f)
              else update_position_for_sell p0 change (of_clear_position f));
        p2 = p1\<lparr>pos_current_price := of_price f\<rparr>
      in (p2\<lparr>pos_pnl_pct := calculate_pnl_pct p2\<rparr>, was_new))"

definition handle_order_filled ::
  "pm_state \<Rightarrow> order_filled \<Rightarrow> exit_strategy \<Rightarrow> pm_state \<times> position_event" where
  "handle_order_filled s f x =
     (let mint = of_mint f; change = of_token_amount_change f;
        s1 = update_quote_balance s change (of_quote_amount_change f) (of_price f);
        s2 = (if flt f0 change
              then s1\<lparr>pm_bought_mints := insert mint (pm_bought_mints s1)\<rparr> else s1);
        (p, was_new) = filled_position s2 f;
        quote = pm_available_quote s2
      in if is_dust p then
           let s3 = update_trade_statistics s2 p;
             s4 = s3\<lparr>pm_pending_sells := pm_pending_sells s3 - {mint}\<rparr>;
             realized = (case (pos_current_price p, pos_entry_price p) of
                 (Some current, Some entry) \<Rightarrow> Some (fmul (fsub current entry) (fabs change))
               | _ \<Rightarrow> map_option fabs (of_quote_amount_change f))
           in (s4\<lparr>pm_positions := hdel mint (pm_positions s4)\<rparr>,
               PositionClosed p realized (pos_pnl_pct p) (of_timestamp f - pos_entry_time p)
                 (pos_signal_id p) (get_exit_reason x p (of_timestamp f)) (pm_available_quote s4))
         else (s2\<lparr>pm_positions := hput mint p (pm_positions s2)\<rparr>,
           if was_new then PositionCreated p quote
           else PositionUpdated p (FillSource (unwrap_or (of_price f) f0) (fabs change)
             (if flt f0 change then Buy else Sell) None) quote))"

fun handle_execution ::
  "pm_state \<Rightarrow> execution_event \<Rightarrow> exit_strategy \<Rightarrow> pm_state \<times> (position_error + position_event)" where
  "handle_execution s (ExecOrderFilled f) x =
     (if of_force_position_clear f then
        (case hget (pm_positions s) (of_mint f) of
           Some p \<Rightarrow>
             (s\<lparr>pm_positions := hdel (of_mint f) (pm_positions s),
                pm_pending_sells := pm_pending_sells s - {of_mint f}\<rparr>,
              Ok (PositionClosed p None None (of_timestamp f - pos_entry_time p) (pos_signal_id p)
                (OtherExit ''force_clear'') (pm_available_quote s)))
         | None \<Rightarrow> (s, Err (PositionNotFound (of_mint f))))
      else let (s', ev) = handle_order_filled s f x in (s', Ok ev))"
| "handle_execution s (ExecOrderRejected mint reason) x =
     (s\<lparr>pm_pending_sells := pm_pending_sells s - {mint}\<rparr>, Err (OrderRejectedError mint reason))"

section \<open>Lemmas\<close>

lemma update_quote_balance_frame [simp]:
  "pm_positions (update_quote_balance s c a p) = pm_positions s"
  "pm_pending_sells (update_quote_balance s c a p) = pm_pending_sells s"
  "pm_bought_mints (update_quote_balance s c a p) = pm_bought_mints s"
  "pm_total_closed_positions (update_quote_balance s c a p) = pm_total_closed_positions s"
  "pm_winning_trades (update_quote_balance s c a p) = pm_winning_trades s"
  "pm_pending_limit_orders (update_quote_balance s c a p) = pm_pending_limit_orders s"
  "pm_in_flight_orders (update_quote_balance s c a p) = pm_in_flight_orders s"
  "pm_redemption_policies (update_quote_balance s c a p) = pm_redemption_policies s"
  "pm_intent_debounce (update_quote_balance s c a p) = pm_intent_debounce s"
  by (simp_all add: update_quote_balance_def Let_def)

lemma update_trade_statistics_frame [simp]:
  "pm_positions (update_trade_statistics s p) = pm_positions s"
  "pm_pending_sells (update_trade_statistics s p) = pm_pending_sells s"
  "pm_bought_mints (update_trade_statistics s p) = pm_bought_mints s"
  "pm_available_quote (update_trade_statistics s p) = pm_available_quote s"
  "pm_total_quote_spent (update_trade_statistics s p) = pm_total_quote_spent s"
  "pm_total_quote_received (update_trade_statistics s p) = pm_total_quote_received s"
  "pm_pending_limit_orders (update_trade_statistics s p) = pm_pending_limit_orders s"
  "pm_in_flight_orders (update_trade_statistics s p) = pm_in_flight_orders s"
  "pm_redemption_policies (update_trade_statistics s p) = pm_redemption_policies s"
  "pm_intent_debounce (update_trade_statistics s p) = pm_intent_debounce s"
  by (simp_all add: update_trade_statistics_def)

lemma filled_position_depends:
  "pm_positions s = pm_positions s' \<Longrightarrow> filled_position s f = filled_position s' f"
  by (simp add: filled_position_def get_or_create_position_def)

lemma filled_position_new: "snd (filled_position s f) \<longleftrightarrow> hget (pm_positions s) (of_mint f) = None"
  by (auto simp: filled_position_def get_or_create_position_def Let_def split: option.splits)

lemma update_position_mint [simp]:
  "pos_mint (update_position_for_buy p c pr) = pos_mint p"
  "pos_mint (update_position_for_sell p c b) = pos_mint p"
  by (auto simp: update_position_for_buy_def update_position_for_sell_def Let_def split: option.splits)

lemma filled_position_mint:
  assumes "\<And>p. hget (pm_positions s) (of_mint f) = Some p \<Longrightarrow> pos_mint p = of_mint f"
  shows "pos_mint (fst (filled_position s f)) = of_mint f"
  using assms by (auto simp: filled_position_def get_or_create_position_def Let_def split: option.splits)


lemma handle_order_filled_closed:
  assumes "filled_position s f = (p, n)" "is_dust p" "handle_order_filled s f x = (s', ev)"
  shows "pm_positions s' = hdel (of_mint f) (pm_positions s)"
    "pm_pending_sells s' = pm_pending_sells s - {of_mint f}"
    "pm_total_closed_positions s' = pm_total_closed_positions s + 1"
    "pm_winning_trades s' = pm_winning_trades s +
       (if \<exists>g. pos_pnl_pct p = Some g \<and> flt f0 g then 1 else 0)"
    "\<exists>g. ev = PositionClosed p g (pos_pnl_pct p) (of_timestamp f - pos_entry_time p) (pos_signal_id p)
       (get_exit_reason x p (of_timestamp f)) (pm_available_quote s')"
proof -
  have e: "filled_position (update_quote_balance s c a q) f = (p, n)"
    "filled_position (update_quote_balance s c a q\<lparr>pm_bought_mints := B\<rparr>) f = (p, n)" for c a q B
    using assms(1) by (simp_all add: filled_position_def get_or_create_position_def)
  from assms(2,3) show "pm_positions s' = hdel (of_mint f) (pm_positions s)"
    "pm_pending_sells s' = pm_pending_sells s - {of_mint f}"
    "pm_total_closed_positions s' = pm_total_closed_positions s + 1"
    "pm_winning_trades s' = pm_winning_trades s +
       (if \<exists>g. pos_pnl_pct p = Some g \<and> flt f0 g then 1 else 0)"
    "\<exists>g. ev = PositionClosed p g (pos_pnl_pct p) (of_timestamp f - pos_entry_time p) (pos_signal_id p)
       (get_exit_reason x p (of_timestamp f)) (pm_available_quote s')"
    by (auto simp: handle_order_filled_def e Let_def update_trade_statistics_def split: option.splits if_splits)
qed

lemma handle_order_filled_kept:
  assumes "filled_position s f = (p, n)" "\<not> is_dust p" "handle_order_filled s f x = (s', ev)"
  shows "pm_positions s' = hput (of_mint f) p (pm_positions s)"
    "pm_pending_sells s' = pm_pending_sells s"
    "pm_total_closed_positions s' = pm_total_closed_positions s"
    "pm_winning_trades s' = pm_winning_trades s"
    "ev = (if n then PositionCreated p (pm_available_quote s')
       else PositionUpdated p (FillSource (unwrap_or (of_price f) f0) (fabs (of_token_amount_change f))
         (if flt f0 (of_token_amount_change f) then Buy else Sell) None) (pm_available_quote s'))"
proof -
  have e: "filled_position (update_quote_balance s c a q) f = (p, n)"
    "filled_position (update_quote_balance s c a q\<lparr>pm_bought_mints := B\<rparr>) f = (p, n)" for c a q B
    using assms(1) by (simp_all add: filled_position_def get_or_create_position_def)
  from assms(2,3) show "pm_positions s' = hput (of_mint f) p (pm_positions s)"
    "pm_pending_sells s' = pm_pending_sells s"
    "pm_total_closed_positions s' = pm_total_closed_positions s"
    "pm_winning_trades s' = pm_winning_trades s"
    "ev = (if n then PositionCreated p (pm_available_quote s')
       else PositionUpdated p (FillSource (unwrap_or (of_price f) f0) (fabs (of_token_amount_change f))
         (if flt f0 (of_token_amount_change f) then Buy else Sell) None) (pm_available_quote s'))"
    by (auto simp: handle_order_filled_def e Let_def split: if_splits)
qed

text \<open>The fields that fills share: cash, marks, and the parts no fill touches.\<close>

lemma handle_order_filled_cash:
  assumes "handle_order_filled s f x = (s', ev)"
  shows "pm_available_quote s' = pm_available_quote (update_quote_balance s
      (of_token_amount_change f) (of_quote_amount_change f) (of_price f))"
    "pm_total_quote_spent s' = pm_total_quote_spent (update_quote_balance s
      (of_token_amount_change f) (of_quote_amount_change f) (of_price f))"
    "pm_total_quote_received s' = pm_total_quote_received (update_quote_balance s
      (of_token_amount_change f) (of_quote_amount_change f) (of_price f))"
    "pm_bought_mints s' = (if flt f0 (of_token_amount_change f)
      then insert (of_mint f) (pm_bought_mints s) else pm_bought_mints s)"
  using assms by (auto simp: handle_order_filled_def Let_def split: prod.splits if_splits)

lemma handle_order_filled_orders:
  assumes "handle_order_filled s f x = (s', ev)"
  shows "pm_pending_limit_orders s' = pm_pending_limit_orders s"
    "pm_in_flight_orders s' = pm_in_flight_orders s"
    "pm_redemption_policies s' = pm_redemption_policies s"
    "pm_intent_debounce s' = pm_intent_debounce s"
  using assms by (auto simp: handle_order_filled_def Let_def split: prod.splits if_splits)
lemma rnd_lit_micro: "rnd (1 / 1000000) = of_int 4722366482869645 * 2 powi (- 72)"
  by (rule rnd_evalI [of _ "- 20" "- 72"]) (simp_all add: power_int_minus)

lemma dust_threshold_eq: "position_dust_threshold = Fin (rnd (1 / 1000000))" "0 < rnd (1 / 1000000)"
  by (simp_all add: position_dust_threshold_def f_of_def Let_def rnd_lit_micro power_int_minus)

lemma dust_zero: "pos_amount p = f0 \<Longrightarrow> is_dust p"
  by (simp add: is_dust_def f0_def dust_threshold_eq)

text \<open>Cash on the grid: one fill moves the balance and one of the two totals by the same amount.\<close>

definition cash_at :: "pm_state \<Rightarrow> int \<Rightarrow> int \<Rightarrow> int \<Rightarrow> bool" where
  "cash_at s v r p \<longleftrightarrow> pm_available_quote s = grid v \<and> pm_total_quote_received s = grid r \<and>
     pm_total_quote_spent s = grid p"

definition fill_cash :: "order_filled \<Rightarrow> f64" where
  "fill_cash f = quote_change (of_token_amount_change f) (of_quote_amount_change f) (of_price f)"

definition apply_fill :: "exit_strategy \<Rightarrow> pm_state \<Rightarrow> order_filled \<Rightarrow> pm_state" where
  "apply_fill x s f = fst (handle_execution s (ExecOrderFilled f) x)"

text \<open>The cash amount of a fill in units of the grid, read from its fields: none when the fill only clears a
  position, else the stated quote amount, else the amount of tokens times the price, else nothing.\<close>

definition cash_units :: "order_filled \<Rightarrow> int \<Rightarrow> bool" where
  "cash_units f n \<longleftrightarrow> 0 \<le> n \<and>
     (if of_force_position_clear f then n = 0
      else case (of_quote_amount_change f, of_price f) of
        (Some q, _) \<Rightarrow> q = grid n \<or> q = fneg (grid n)
      | (None, Some p) \<Rightarrow> fmul (fabs (of_token_amount_change f)) p = grid n
      | (None, None) \<Rightarrow> n = 0)"

text \<open>Buys take tokens in; what they cost is spent, what the other fills bring is received.\<close>

definition spent_units :: "order_filled list \<Rightarrow> int list \<Rightarrow> int" where
  "spent_units fs ns = sum_list (map2 (\<lambda>f n. if flt f0 (of_token_amount_change f) then n else 0) fs ns)"

definition received_units :: "order_filled list \<Rightarrow> int list \<Rightarrow> int" where
  "received_units fs ns = sum_list (map2 (\<lambda>f n. if flt f0 (of_token_amount_change f) then 0 else n) fs ns)"

lemma cash_units_change:
  assumes "cash_units f n" "\<not> of_force_position_clear f"
  shows "fill_cash f = grid n"
  using assms
  by (auto simp: cash_units_def fill_cash_def quote_change_def grid_def f0_def split: option.splits)

lemma apply_fill_cash:
  assumes "cash_at s v r p" "cash_units f n" "\<bar>v\<bar> + n \<le> 2 ^ 53" "0 \<le> r" "r + n \<le> 2 ^ 53" "0 \<le> p" "p + n \<le> 2 ^ 53"
  shows "if flt f0 (of_token_amount_change f) then cash_at (apply_fill x s f) (v - n) r (p + n)
    else cash_at (apply_fill x s f) (v + n) (r + n) p"
proof (cases "of_force_position_clear f")
  case True
  then show ?thesis
    using assms(1,2) by (auto simp: cash_units_def cash_at_def apply_fill_def split: option.split)
next
  case False
  obtain s' ev where h: "handle_order_filled s f x = (s', ev)" by fastforce
  have "\<bar>v - n\<bar> \<le> 2 ^ 53" "\<bar>v + n\<bar> \<le> 2 ^ 53" "\<bar>r + n\<bar> \<le> 2 ^ 53" "\<bar>p + n\<bar> \<le> 2 ^ 53"
    using assms by (auto simp: cash_units_def)
  then show ?thesis
    using assms(1) cash_units_change [OF assms(2) False] False handle_order_filled_cash [OF h] h
    by (auto simp: cash_at_def apply_fill_def update_quote_balance_def fill_cash_def Let_def fadd_grid fsub_grid)
qed

lemma apply_fills_cash:
  assumes "list_all2 cash_units fs ns" "cash_at s v r p" "0 \<le> r" "0 \<le> p"
    "\<bar>v\<bar> + sum_list ns \<le> 2 ^ 53" "r + sum_list ns \<le> 2 ^ 53" "p + sum_list ns \<le> 2 ^ 53"
  shows "cash_at (foldl (apply_fill x) s fs) (v + received_units fs ns - spent_units fs ns)
    (r + received_units fs ns) (p + spent_units fs ns)"
  using assms
proof (induction fs ns arbitrary: s v r p rule: list_all2_induct)
  case Nil
  then show ?case by (simp add: received_units_def spent_units_def)
next
  case (Cons f fs n ns)
  have "list_all (\<lambda>n. 0 \<le> n) ns" using Cons(2) by (induction rule: list_all2_induct) (simp_all add: cash_units_def)
  then have n: "0 \<le> n" "0 \<le> sum_list ns"
    using Cons(1) by (auto simp: cash_units_def list_all_iff intro: sum_list_nonneg)
  note one = apply_fill_cash [OF Cons.prems(1) Cons(1), of x]
  show ?case
  proof (cases "flt f0 (of_token_amount_change f)")
    case True
    then have "cash_at (apply_fill x s f) (v - n) r (p + n)" using one Cons.prems n by simp
    from Cons.IH [OF this] show ?thesis
      using Cons.prems n True by (simp add: received_units_def spent_units_def algebra_simps)
  next
    case False
    then have "cash_at (apply_fill x s f) (v + n) (r + n) p" using one Cons.prems n by simp
    from Cons.IH [OF this] show ?thesis
      using Cons.prems n False by (simp add: received_units_def spent_units_def algebra_simps)
  qed
qed

section \<open>Properties\<close>

text \<open>What one fill does: the mint's position becomes the filled position, or disappears when that
  is dust; every other position stays.  The event says which case it was: a close carries the removed
  position, counts one closed trade and lifts the pending-sell mark, a creation means that the mint was
  not held before, an update that it was; each event carries the balance after the fill.\<close>

theorem market_fill_effect:
  "case handle_order_filled s f x of (s', ev) \<Rightarrow>
     let p = fst (filled_position s f) in
     hget (pm_positions s') = (hget (pm_positions s))(of_mint f := (if is_dust p then None else Some p)) \<and>
     (case ev of
        PositionClosed q g pct h i r av \<Rightarrow> is_dust p \<and> q = p \<and> of_mint f \<notin> pm_pending_sells s' \<and>
          pm_total_closed_positions s' = pm_total_closed_positions s + 1 \<and> av = pm_available_quote s'
      | PositionCreated q av \<Rightarrow> \<not> is_dust p \<and> q = p \<and> hget (pm_positions s) (of_mint f) = None \<and>
          pm_total_closed_positions s' = pm_total_closed_positions s \<and> av = pm_available_quote s'
      | PositionUpdated q src av \<Rightarrow> \<not> is_dust p \<and> q = p \<and> hget (pm_positions s) (of_mint f) \<noteq> None \<and>
          pm_total_closed_positions s' = pm_total_closed_positions s \<and> av = pm_available_quote s')"
proof (cases "handle_order_filled s f x")
  case h: (Pair s' ev)
  obtain p n where p: "filled_position s f = (p, n)" by (cases "filled_position s f")
  show ?thesis
  proof (cases "is_dust p")
    case True
    note c = handle_order_filled_closed [OF p True h]
    from c(5) obtain g where "ev = PositionClosed p g (pos_pnl_pct p) (of_timestamp f - pos_entry_time p)
      (pos_signal_id p) (get_exit_reason x p (of_timestamp f)) (pm_available_quote s')" by blast
    then show ?thesis using True by (simp add: h p c(1-3) Let_def)
  next
    case False
    have n: "n \<longleftrightarrow> hget (pm_positions s) (of_mint f) = None"
      using filled_position_new [of s f] by (simp add: p)
    from False show ?thesis
      by (simp add: h p handle_order_filled_kept [OF p False h] Let_def) (simp add: n)
  qed
qed

text \<open>C33. Cash is conserved: over any sequence of fills whose cash amounts lie on a binary grid and
  together fit the 53 bits of a double, the total spent is the sum over the buys, the total received the
  sum over the other fills, and the available balance is exactly the initial balance plus the one minus
  the other, with no rounding; a fill that only clears a position moves no cash.\<close>

theorem cash_conserved:
  assumes "list_all2 cash_units fs ns" "\<bar>a\<bar> + sum_list ns \<le> 2 ^ 53"
  shows "let s = foldl (apply_fill x) (pm_new (grid a)) fs in
     pm_available_quote s = grid (a + received_units fs ns - spent_units fs ns) \<and>
     pm_total_quote_received s = grid (received_units fs ns) \<and>
     pm_total_quote_spent s = grid (spent_units fs ns)"
proof -
  have "sum_list ns \<le> 2 ^ 53" using assms(2) by linarith
  moreover have "cash_at (pm_new (grid a)) a 0 0" by (simp add: cash_at_def pm_new_def f0_grid)
  ultimately show ?thesis
    using apply_fills_cash [OF assms(1), of "pm_new (grid a)" a 0 0 x] assms(2) by (simp add: cash_at_def Let_def)
qed

definition demo_fill :: "f64 \<Rightarrow> f64 option \<Rightarrow> f64 option \<Rightarrow> order_filled" where
  "demo_fill change quote price = \<lparr>of_mint = ''M'', of_token_amount_change = change,
     of_quote_amount_change = quote, of_price = price, of_timestamp = 7, of_slippage = None,
     of_clear_position = False, of_force_position_clear = False, of_execution_latency_in_slots = None,
     of_confirmed_slot = None, of_confirmed_signature = None, of_signal_id = None, of_exit_mode = None\<rparr>"

theorem cash_conserved_witness:
  "let s = foldl (apply_fill NoopExit) (pm_new (grid (10 * 2 ^ 20)))
       [demo_fill (Fin 5) (Some (grid 3)) None, demo_fill (Fin (- 5)) (Some (grid 4)) None] in
     pm_available_quote s = grid (10 * 2 ^ 20 + 1) \<and> pm_total_quote_received s = grid 4 \<and>
     pm_total_quote_spent s = grid 3"
  using cash_conserved [of "[demo_fill (Fin 5) (Some (grid 3)) None, demo_fill (Fin (- 5)) (Some (grid 4)) None]"
      "[3, 4]" "10 * 2 ^ 20" NoopExit]
  by (simp add: demo_fill_def cash_units_def received_units_def spent_units_def f0_def Let_def)

text \<open>A buy that is filled without a price never becomes a position: on a mint that is not held the
  money is spent, the mint is marked as bought, and the handler reports a closed trade and counts it,
  because the amount of the new position stays zero.\<close>

theorem priceless_buy_is_lost:
  assumes "hget (pm_positions s) (of_mint f) = None" "of_price f = None"
    "of_quote_amount_change f = Some q" "flt f0 (of_token_amount_change f)"
    "handle_order_filled s f x = (s', ev)"
  shows "hget (pm_positions s') (of_mint f) = None \<and> of_mint f \<in> pm_bought_mints s' \<and>
    pm_available_quote s' = fsub (pm_available_quote s) (fabs q) \<and>
    pm_total_closed_positions s' = pm_total_closed_positions s + 1 \<and>
    (\<exists>p g pct h i r av. ev = PositionClosed p g pct h i r av)"
proof -
  obtain p n where p: "filled_position s f = (p, n)" by (cases "filled_position s f")
  have "pos_amount p = f0" using p assms(1,2,4)
    by (auto simp: filled_position_def get_or_create_position_def update_position_for_buy_def Let_def)
  then have d: "is_dust p" by (simp add: dust_zero)
  show ?thesis
    using handle_order_filled_closed [OF p d assms(5)] handle_order_filled_cash [OF assms(5)] assms(2-4)
    by (auto simp: update_quote_balance_def quote_change_def Let_def)
qed

theorem priceless_buy_is_lost_witness:
  "let s' = fst (handle_order_filled (pm_new (Fin 10)) (demo_fill (Fin 5) (Some (Fin 3)) None) NoopExit)
   in hget (pm_positions s') ''M'' = None \<and> pm_available_quote s' = Fin 7 \<and>
     pm_total_closed_positions s' = 1"
  using priceless_buy_is_lost [of "pm_new (Fin 10)" "demo_fill (Fin 5) (Some (Fin 3)) None" "Fin 3" NoopExit
    "fst (handle_order_filled (pm_new (Fin 10)) (demo_fill (Fin 5) (Some (Fin 3)) None) NoopExit)"
    "snd (handle_order_filled (pm_new (Fin 10)) (demo_fill (Fin 5) (Some (Fin 3)) None) NoopExit)"]
  by (simp add: pm_new_def demo_fill_def f0_def Let_def)

end
