(* ===== verification/Redemption.thy ===== *)
theory Redemption
  imports Fills
begin

text \<open>
  Redemption of paired outcome tokens (\<open>position/handlers/redemption.rs\<close>) and the adoption of the
  exchange's view of a position (\<open>position/handlers/reconciliation.rs\<close>).
\<close>

section \<open>Redemption\<close>

definition update_redemption_policy :: "pm_state \<Rightarrow> redemption_policy \<Rightarrow> pm_state" where
  "update_redemption_policy s p = set_redemption_policy s p"

definition held :: "pm_state \<Rightarrow> string \<Rightarrow> f64" where
  "held s asset = (case hget (pm_positions s) asset of None \<Rightarrow> f0 | Some p \<Rightarrow> pos_amount p)"

definition policy_action :: "pm_state \<Rightarrow> timestamp \<Rightarrow> redemption_policy \<Rightarrow> redemption_action option" where
  "policy_action s now p =
     (let to_redeem = pairs_to_redeem p (held s (rp_up_asset_id p)) (held s (rp_down_asset_id p))
      in if flt f0 to_redeem
         then Some \<lparr>ra_market = rp_market p, ra_up_asset_id = rp_up_asset_id p,
                ra_down_asset_id = rp_down_asset_id p, ra_quantity = to_redeem, ra_timestamp = now\<rparr>
         else None)"

definition reconcile_redemption_policies :: "pm_state \<Rightarrow> timestamp \<Rightarrow> redemption_action list" where
  "reconcile_redemption_policies s now =
     List.map_filter (policy_action s now) (hvals (pm_redemption_policies s))"

definition redeem_leg ::
  "pm_state \<Rightarrow> string \<Rightarrow> f64 \<Rightarrow> timestamp \<Rightarrow> position_event list \<Rightarrow> pm_state \<times> position_event list" where
  "redeem_leg s asset qty ts evs =
     (case hget (pm_positions s) asset of
        None \<Rightarrow> (s, evs)
      | Some p \<Rightarrow>
          let p1 = p\<lparr>pos_amount := fsub (pos_amount p) qty\<rparr>;
            p2 = p1\<lparr>pos_pnl_pct := calculate_pnl_pct p1\<rparr>
          in if is_dust p2 then
               (s\<lparr>pm_positions := hdel asset (pm_positions s),
                  pm_pending_sells := pm_pending_sells s - {asset},
                  pm_total_closed_positions := pm_total_closed_positions s + 1\<rparr>,
                evs @ [PositionClosed p2 None None (ts - pos_entry_time p) (pos_signal_id p)
                  RedemptionExit (pm_available_quote s)])
             else
               (s\<lparr>pm_positions := hput asset p2 (pm_positions s)\<rparr>,
                evs @ [PositionUpdated p2 (RedemptionSource (pos_amount p) qty)
                  (pm_available_quote s)]))"

fun handle_redemption ::
  "pm_state \<Rightarrow> redemption_event \<Rightarrow> pm_state \<times> (position_error + position_event list)" where
  "handle_redemption s (RedemptionCompleted r) =
     (let s1 = s\<lparr>pm_available_quote := fadd (pm_available_quote s) (rc_quote_received r),
            pm_total_quote_received := fadd (pm_total_quote_received s) (rc_quote_received r)\<rparr>;
        (s2, evs) = redeem_leg s1 (rc_up_asset_id r) (rc_quantity r) (rc_timestamp r) [];
        (s3, evs') = redeem_leg s2 (rc_down_asset_id r) (rc_quantity r) (rc_timestamp r) evs
      in (s3, Ok evs'))"
| "handle_redemption s (RedemptionFailed market reason ts) = (s, Ok [])"

section \<open>Reconciliation with the exchange\<close>

text \<open>\<open>ExchangePosition\<close> of \<open>position/position_query.rs\<close>.\<close>

record exchange_position =
  xp_asset_id :: string
  xp_market_id :: "string option"
  xp_amount :: f64
  xp_entry_price :: "f64 option"
  xp_timestamp :: timestamp

definition adopt_position :: "position \<Rightarrow> exchange_position \<Rightarrow> position" where
  "adopt_position p x =
     (let p1 = p\<lparr>pos_amount := xp_amount x,
            pos_entry_price := (case xp_entry_price x of None \<Rightarrow> pos_entry_price p | Some e \<Rightarrow> Some e),
            pos_current_price_updated_time := xp_timestamp x\<rparr>
      in p1\<lparr>pos_pnl_pct := calculate_pnl_pct p1\<rparr>)"

definition exchange_to_position :: "exchange_position \<Rightarrow> position" where
  "exchange_to_position x =
     \<lparr>pos_mint = xp_asset_id x, pos_amount = xp_amount x, pos_entry_price = xp_entry_price x,
      pos_current_price = xp_entry_price x, pos_current_price_updated_time = xp_timestamp x,
      pos_pnl_pct = None, pos_entry_time = xp_timestamp x, pos_entry_slot = 0,
      pos_entry_signature = default_signature, pos_signal_id = None, pos_sell_failure_count = 0,
      pos_active_exit_order = None, pos_exit_mode = Automatic\<rparr>"

definition reconcile_position ::
  "pm_state \<Rightarrow> exchange_position \<Rightarrow> pm_state \<times> (position_error + position_event)" where
  "reconcile_position s x =
     (let previous = held s (xp_asset_id x);
        drift = fsub (xp_amount x) previous;
        p = (case hget (pm_positions s) (xp_asset_id x) of
               Some p \<Rightarrow> adopt_position p x | None \<Rightarrow> exchange_to_position x)
      in (s\<lparr>pm_positions := hput (xp_asset_id x) p (pm_positions s)\<rparr>,
          Ok (PositionUpdated p (ReconciliationSource previous drift) (pm_available_quote s))))"






section \<open>Lemmas\<close>

definition redeemed :: "f64 \<Rightarrow> position \<Rightarrow> position" where
  "redeemed qty p = (let p1 = p\<lparr>pos_amount := fsub (pos_amount p) qty\<rparr>
     in p1\<lparr>pos_pnl_pct := calculate_pnl_pct p1\<rparr>)"

definition leg_left :: "f64 \<Rightarrow> position option \<Rightarrow> position option" where
  "leg_left qty r = (case r of None \<Rightarrow> None
     | Some p \<Rightarrow> if is_dust (redeemed qty p) then None else Some (redeemed qty p))"

lemma redeem_leg_positions:
  "hget (pm_positions (fst (redeem_leg s asset qty ts evs))) =
     (hget (pm_positions s))(asset := leg_left qty (hget (pm_positions s) asset))"
  by (auto simp: redeem_leg_def leg_left_def redeemed_def Let_def fun_eq_iff split: option.splits)

lemma redeem_leg_frame [simp]:
  "pm_available_quote (fst (redeem_leg s asset qty ts evs)) = pm_available_quote s"
  "pm_total_quote_received (fst (redeem_leg s asset qty ts evs)) = pm_total_quote_received s"
  "pm_total_quote_spent (fst (redeem_leg s asset qty ts evs)) = pm_total_quote_spent s"
  "pm_winning_trades (fst (redeem_leg s asset qty ts evs)) = pm_winning_trades s"
  "pm_bought_mints (fst (redeem_leg s asset qty ts evs)) = pm_bought_mints s"
  "pm_pending_limit_orders (fst (redeem_leg s asset qty ts evs)) = pm_pending_limit_orders s"
  "pm_in_flight_orders (fst (redeem_leg s asset qty ts evs)) = pm_in_flight_orders s"
  "pm_redemption_policies (fst (redeem_leg s asset qty ts evs)) = pm_redemption_policies s"
  "pm_intent_debounce (fst (redeem_leg s asset qty ts evs)) = pm_intent_debounce s"
  by (simp_all add: redeem_leg_def Let_def split: option.splits)

lemma handle_redemption_fst:
  "fst (handle_redemption s (RedemptionCompleted r)) =
     fst (redeem_leg (fst (redeem_leg (s\<lparr>pm_available_quote := fadd (pm_available_quote s) (rc_quote_received r),
            pm_total_quote_received := fadd (pm_total_quote_received s) (rc_quote_received r)\<rparr>)
         (rc_up_asset_id r) (rc_quantity r) (rc_timestamp r) []))
       (rc_down_asset_id r) (rc_quantity r) (rc_timestamp r)
       (snd (redeem_leg (s\<lparr>pm_available_quote := fadd (pm_available_quote s) (rc_quote_received r),
            pm_total_quote_received := fadd (pm_total_quote_received s) (rc_quote_received r)\<rparr>)
         (rc_up_asset_id r) (rc_quantity r) (rc_timestamp r) [])))"
  by (simp add: Let_def split: prod.splits)

lemma redemption_positions:
  "rc_up_asset_id r \<noteq> rc_down_asset_id r \<Longrightarrow>
   hget (pm_positions (fst (handle_redemption s (RedemptionCompleted r)))) =
     (hget (pm_positions s))(
       rc_up_asset_id r := leg_left (rc_quantity r) (hget (pm_positions s) (rc_up_asset_id r)),
       rc_down_asset_id r := leg_left (rc_quantity r) (hget (pm_positions s) (rc_down_asset_id r)))"
  by (simp only: handle_redemption_fst redeem_leg_positions) simp

lemma held_leg_left:
  assumes "hget (pm_positions s) asset = Some p"
  shows "(case leg_left q (Some p) of None \<Rightarrow> f0 | Some p' \<Rightarrow> pos_amount p') =
    (if is_dust (redeemed q p) then f0 else fsub (held s asset) q)"
  using assms by (simp add: leg_left_def redeemed_def held_def Let_def)

section \<open>Properties\<close>

text \<open>A completed redemption of a pair credits the quote received, takes the redeemed quantity from
  the two legs (a leg that is left with dust is removed, a leg that is not held is skipped), and touches
  no other position, no order and no total of money spent.\<close>

theorem redemption_effect:
  assumes "rc_up_asset_id r \<noteq> rc_down_asset_id r"
  shows "case handle_redemption s (RedemptionCompleted r) of (s', res) \<Rightarrow>
     pm_available_quote s' = fadd (pm_available_quote s) (rc_quote_received r) \<and>
     pm_total_quote_received s' = fadd (pm_total_quote_received s) (rc_quote_received r) \<and>
     pm_total_quote_spent s' = pm_total_quote_spent s \<and>
     pm_pending_limit_orders s' = pm_pending_limit_orders s \<and> (\<exists>evs. res = Ok evs) \<and>
     hget (pm_positions s') = (hget (pm_positions s))(
       rc_up_asset_id r := leg_left (rc_quantity r) (hget (pm_positions s) (rc_up_asset_id r)),
       rc_down_asset_id r := leg_left (rc_quantity r) (hget (pm_positions s) (rc_down_asset_id r)))"
proof -
  have "\<exists>evs. snd (handle_redemption s (RedemptionCompleted r)) = Ok evs"
    by (simp add: Let_def split: prod.splits)
  moreover note redemption_positions [OF assms, of s]
  moreover have "pm_available_quote (fst (handle_redemption s (RedemptionCompleted r))) =
      fadd (pm_available_quote s) (rc_quote_received r)"
    "pm_total_quote_received (fst (handle_redemption s (RedemptionCompleted r))) =
      fadd (pm_total_quote_received s) (rc_quote_received r)"
    "pm_total_quote_spent (fst (handle_redemption s (RedemptionCompleted r))) = pm_total_quote_spent s"
    "pm_pending_limit_orders (fst (handle_redemption s (RedemptionCompleted r))) =
      pm_pending_limit_orders s"
    by (simp_all add: handle_redemption_fst del: handle_redemption.simps)
  ultimately show ?thesis by (simp only: case_prod_beta)
qed

text \<open>One redemption satisfies the policy: when the quantities and the limit lie on the binary grid,
  and the venue redeems exactly the quantity the policy asked for, the policy asks for nothing more.\<close>

theorem redemption_satisfies_policy:
  assumes held: "held s (rp_up_asset_id p) = grid a" "held s (rp_down_asset_id p) = grid b"
    and bounds: "\<bar>a\<bar> \<le> 2 ^ 52" "\<bar>b\<bar> \<le> 2 ^ 52" "rp_max_unredeemed_pair_value p = grid m"
      "0 \<le> m" "m \<le> 2 ^ 52"
    and act: "policy_action s now p = Some act" "rp_up_asset_id p \<noteq> rp_down_asset_id p"
    and r: "rc_up_asset_id r = ra_up_asset_id act" "rc_down_asset_id r = ra_down_asset_id act"
      "rc_quantity r = ra_quantity act"
  shows "policy_action (fst (handle_redemption s (RedemptionCompleted r))) later p = None"
proof -
  let ?s = "fst (handle_redemption s (RedemptionCompleted r))"
  let ?q = "min a b - m"
  have q: "rc_quantity r = grid ?q" "m < min a b" and
    ids: "rc_up_asset_id r = rp_up_asset_id p" "rc_down_asset_id r = rp_down_asset_id p"
    using act r bounds by (auto simp: policy_action_def held pairs_to_redeem_def fmin_grid fsub_grid
      f0_grid Let_def split: if_splits)
  from q(2) bounds(4) held obtain u d where ud: "hget (pm_positions s) (rp_up_asset_id p) = Some u"
    "hget (pm_positions s) (rp_down_asset_id p) = Some d"
    by (auto simp: held_def f0_grid split: option.splits)
  have sub: "fsub (grid a) (grid ?q) = grid (a - ?q)" "fsub (grid b) (grid ?q) = grid (b - ?q)"
    using bounds q(2) by (intro fsub_grid; simp add: min_def split: if_splits)+
  have "held ?s (rp_up_asset_id p) \<in> {grid 0, grid (a - ?q)}"
    "held ?s (rp_down_asset_id p) \<in> {grid 0, grid (b - ?q)}"
    unfolding held_def [of ?s] redemption_positions [OF act(2) [folded ids]]
    using held_leg_left [OF ud(1), of "grid ?q"] held_leg_left [OF ud(2), of "grid ?q"] act(2)
    by (simp_all add: ids ud q(1) held f0_grid sub split: if_splits)
  then obtain x y where "held ?s (rp_up_asset_id p) = grid x" "held ?s (rp_down_asset_id p) = grid y"
    "\<not> (m < x \<and> m < y)" using bounds(4) by (auto simp: min_def split: if_splits)
  then show ?thesis
    by (auto simp: policy_action_def pairs_to_redeem_def fmin_grid bounds(3) f0_grid Let_def
      simp del: handle_redemption.simps)
qed

definition demo_policy :: redemption_policy where
  "demo_policy = \<lparr>rp_market = ''K'', rp_up_asset_id = ''U'', rp_down_asset_id = ''D'',
     rp_max_unredeemed_pair_value = grid (2 ^ 20)\<rparr>"

definition demo_position :: "string \<Rightarrow> f64 \<Rightarrow> position" where
  "demo_position mint amount = \<lparr>pos_mint = mint, pos_amount = amount, pos_entry_price = None,
     pos_current_price = None, pos_current_price_updated_time = 0, pos_pnl_pct = None, pos_entry_time = 0,
     pos_entry_slot = 0, pos_entry_signature = [], pos_signal_id = None, pos_sell_failure_count = 0,
     pos_active_exit_order = None, pos_exit_mode = Automatic\<rparr>"

definition demo_pairs :: pm_state where
  "demo_pairs = (pm_new (grid 0))\<lparr>pm_positions :=
     [(''U'', demo_position ''U'' (grid (5 * 2 ^ 20))), (''D'', demo_position ''D'' (grid (3 * 2 ^ 20)))]\<rparr>"

definition demo_redeemed :: redemption_completed where
  "demo_redeemed = \<lparr>rc_market = ''K'', rc_up_asset_id = ''U'', rc_down_asset_id = ''D'',
     rc_quantity = grid (2 * 2 ^ 20), rc_quote_received = grid (2 * 2 ^ 20), rc_timestamp = 9\<rparr>"

theorem redemption_effect_witness:
  "pm_available_quote (fst (handle_redemption demo_pairs (RedemptionCompleted demo_redeemed))) =
     grid (2 * 2 ^ 20)"
  using redemption_effect [of demo_redeemed demo_pairs]
  by (simp add: demo_redeemed_def demo_pairs_def pm_new_def fadd_grid del: handle_redemption.simps
    split: prod.splits)

theorem redemption_satisfies_policy_witness:
  "policy_action (fst (handle_redemption demo_pairs (RedemptionCompleted demo_redeemed))) 10 demo_policy = None"
  by (rule redemption_satisfies_policy [where a = "5 * 2 ^ 20" and b = "3 * 2 ^ 20" and m = "2 ^ 20" and now = 8
    and act = "\<lparr>ra_market = ''K'', ra_up_asset_id = ''U'', ra_down_asset_id = ''D'',
      ra_quantity = grid (2 * 2 ^ 20), ra_timestamp = 8\<rparr>"])
    (simp_all add: demo_pairs_def demo_redeemed_def demo_policy_def demo_position_def pm_new_def held_def
      policy_action_def pairs_to_redeem_def fmin_grid fsub_grid f0_grid)

section \<open>The sweep\<close>












definition demo_report :: "string \<Rightarrow> f64 \<Rightarrow> exchange_position" where
  "demo_report a q = \<lparr>xp_asset_id = a, xp_market_id = None, xp_amount = q, xp_entry_price = None, xp_timestamp = 3\<rparr>"


text \<open>A position that the exchange reports as zero stays open: adopting it stores a position of
  amount zero, which keeps counting against the limit on open positions.\<close>

theorem zero_report_stays_open:
  assumes "xp_amount x = f0"
  shows "\<exists>p. hget (pm_positions (fst (reconcile_position s x))) (xp_asset_id x) = Some p \<and> pos_amount p = f0"
  using assms by (auto simp: reconcile_position_def adopt_position_def exchange_to_position_def Let_def
    split: option.splits)

theorem zero_report_stays_open_witness:
  "\<exists>p. hget (pm_positions (fst (reconcile_position demo_pairs (demo_report ''U'' f0)))) ''U'' = Some p \<and>
     pos_amount p = f0"
  using zero_report_stays_open [of "demo_report ''U'' f0" demo_pairs] by (simp add: demo_report_def)

end
