(* ===== verification/Manager.thy ===== *)
theory Manager
  imports Intents Redemption Machine
begin

text \<open>
  The in-memory position manager (\<open>position/in_mem_manager.rs\<close>): every method of the
  \<open>PositionManager\<close> trait runs with the state's mutex held, so a method is a function on the state
  and the interleavings of concurrent callers are the sequences of method calls (\<open>pm_op\<close>).
\<close>

section \<open>The methods\<close>

record pm_config =
  cfg_trade_amount :: f64
  cfg_max_holding_period :: duration
  cfg_max_open_positions :: u32
  cfg_exit_strategy :: exit_strategy
  cfg_min_quote_lifetime_ms :: "64 word option"

definition position_value :: "position \<Rightarrow> f64 option" where
  "position_value p = map_option (fmul (pos_amount p)) (pos_current_price p)"

definition get_total_pnl :: "pm_state \<Rightarrow> f64" where
  "get_total_pnl s =
     (let net_cash_flow = fsub (pm_total_quote_received s) (pm_total_quote_spent s);
        inventory_mtm = fsum (List.map_filter position_value (hvals (pm_positions s)))
      in fadd net_cash_flow inventory_mtm)"

definition position_unrealized :: "position \<Rightarrow> f64 option" where
  "position_unrealized p = (case (pos_current_price p, pos_entry_price p) of
     (Some current, Some entry) \<Rightarrow> Some (fmul (pos_amount p) (fsub current entry)) | _ \<Rightarrow> None)"

definition get_total_unrealized_pnl :: "pm_state \<Rightarrow> f64" where
  "get_total_unrealized_pnl s = fsum (List.map_filter position_unrealized (hvals (pm_positions s)))"

definition get_open_position_count :: "pm_state \<Rightarrow> u32" where
  "get_open_position_count s = of_nat (length (pm_positions s))"

definition try_mark_for_buying :: "pm_state \<Rightarrow> string \<Rightarrow> pm_state \<times> bool" where
  "try_mark_for_buying s mint =
     (if mint \<in> pm_bought_mints s then (s, False)
      else (s\<lparr>pm_bought_mints := insert mint (pm_bought_mints s)\<rparr>, True))"

definition remove_position :: "pm_state \<Rightarrow> string \<Rightarrow> pm_state \<times> position option" where
  "remove_position s mint =
     (s\<lparr>pm_positions := hdel mint (pm_positions s)\<rparr>, hget (pm_positions s) mint)"

text \<open>The methods that edit one position share its lookup.\<close>

definition edit_position ::
  "pm_state \<Rightarrow> string \<Rightarrow> (position \<Rightarrow> position) \<Rightarrow> pm_state \<times> (position_error + position)" where
  "edit_position s mint f =
     (case hget (pm_positions s) mint of
        Some p \<Rightarrow> (s\<lparr>pm_positions := hput mint (f p) (pm_positions s)\<rparr>, Ok (f p))
      | None \<Rightarrow> (s, Err (PositionNotFound mint)))"

definition reprice :: "f64 \<Rightarrow> timestamp \<Rightarrow> position \<Rightarrow> position" where
  "reprice price ts p =
     (let p1 = p\<lparr>pos_current_price := Some price, pos_current_price_updated_time := ts\<rparr>
      in p1\<lparr>pos_pnl_pct := calculate_pnl_pct p1\<rparr>)"

definition update_price ::
  "pm_state \<Rightarrow> string \<Rightarrow> f64 \<Rightarrow> timestamp \<Rightarrow> pm_state \<times> (position_error + position_event)" where
  "update_price s mint price ts =
     (case edit_position s mint (reprice price ts) of
        (s', Inr p) \<Rightarrow> (s', Ok (PositionUpdated p PriceUpdateSource (pm_available_quote s)))
      | (s', Inl e) \<Rightarrow> (s', Err e))"

definition try_mark_pending_sell :: "pm_state \<Rightarrow> string \<Rightarrow> pm_state \<times> bool" where
  "try_mark_pending_sell s mint =
     (if mint \<in> pm_pending_sells s then (s, False)
      else (s\<lparr>pm_pending_sells := insert mint (pm_pending_sells s)\<rparr>, True))"

definition release_pending_sell :: "pm_state \<Rightarrow> string \<Rightarrow> pm_state" where
  "release_pending_sell s mint = s\<lparr>pm_pending_sells := pm_pending_sells s - {mint}\<rparr>"

definition increment_sell_failure_count :: "pm_state \<Rightarrow> string \<Rightarrow> pm_state \<times> (position_error + position)" where
  "increment_sell_failure_count s mint =
     edit_position s mint (\<lambda>p. p\<lparr>pos_sell_failure_count := pos_sell_failure_count p + 1\<rparr>)"

definition add_orphan_position :: "pm_state \<Rightarrow> string \<Rightarrow> 64 word \<Rightarrow> timestamp \<Rightarrow> pm_state" where
  "add_orphan_position s mint amount now =
     (let p = \<lparr>pos_mint = mint, pos_amount = f_int (uint amount), pos_entry_price = None,
            pos_current_price = None, pos_current_price_updated_time = now, pos_pnl_pct = None,
            pos_entry_time = now, pos_entry_slot = 0, pos_entry_signature = default_signature,
            pos_signal_id = None, pos_sell_failure_count = 0, pos_active_exit_order = None,
            pos_exit_mode = Automatic\<rparr>
      in s\<lparr>pm_bought_mints := insert mint (pm_bought_mints s),
           pm_positions := hput mint p (pm_positions s)\<rparr>)"

definition sync_available_quote :: "pm_state \<Rightarrow> f64 \<Rightarrow> pm_state" where
  "sync_available_quote s actual = s\<lparr>pm_available_quote := actual\<rparr>"

definition set_active_exit_order ::
  "pm_state \<Rightarrow> string \<Rightarrow> active_exit_order \<Rightarrow> pm_state \<times> (position_error + position)" where
  "set_active_exit_order s mint ord = edit_position s mint (\<lambda>p. p\<lparr>pos_active_exit_order := Some ord\<rparr>)"

definition clear_active_exit_order :: "pm_state \<Rightarrow> string \<Rightarrow> pm_state \<times> (position_error + position)" where
  "clear_active_exit_order s mint = edit_position s mint (\<lambda>p. p\<lparr>pos_active_exit_order := None\<rparr>)"

definition get_active_exit_order :: "pm_state \<Rightarrow> string \<Rightarrow> active_exit_order option" where
  "get_active_exit_order s mint = Option.bind (hget (pm_positions s) mint) pos_active_exit_order"

definition set_exit_mode :: "pm_state \<Rightarrow> string \<Rightarrow> exit_mode \<Rightarrow> pm_state \<times> (position_error + position)" where
  "set_exit_mode s mint mode = edit_position s mint (\<lambda>p. p\<lparr>pos_exit_mode := mode\<rparr>)"

definition register_in_flight_order :: "pm_state \<Rightarrow> string \<Rightarrow> in_flight_order \<Rightarrow> pm_state" where
  "register_in_flight_order s fid ord = add_in_flight_order s (fo_mint ord) fid ord"

definition get_position_quantity :: "pm_state \<Rightarrow> string \<Rightarrow> f64" where
  "get_position_quantity s asset = held s asset"

section \<open>Calls\<close>

datatype pm_op =
    OpMarkBuy string | OpRemovePosition string | OpExecution execution_event
  | OpUpdatePrice string f64 timestamp | OpMarkSell string | OpClearSell string
  | OpSellFailed string | OpOrphan string "64 word" timestamp | OpSyncQuote f64
  | OpSetExitOrder string active_exit_order | OpClearExitOrder string | OpSetExitMode string exit_mode
  | OpRegisterInFlight string in_flight_order | OpRemoveInFlight string string
  | OpRemoveInFlightLevel string order_side f64 f64 | OpIntent order_intent
  | OpLimitEvent limit_order_event | OpReconcile exchange_position
  | OpPolicy redemption_policy | OpRedemption redemption_event

fun pm_apply :: "pm_config \<Rightarrow> pm_state \<Rightarrow> pm_op \<Rightarrow> pm_state" where
  "pm_apply c s (OpMarkBuy m) = fst (try_mark_for_buying s m)"
| "pm_apply c s (OpRemovePosition m) = fst (remove_position s m)"
| "pm_apply c s (OpExecution e) = fst (handle_execution s e (cfg_exit_strategy c))"
| "pm_apply c s (OpUpdatePrice m p t) = fst (update_price s m p t)"
| "pm_apply c s (OpMarkSell m) = fst (try_mark_pending_sell s m)"
| "pm_apply c s (OpClearSell m) = release_pending_sell s m"
| "pm_apply c s (OpSellFailed m) = fst (increment_sell_failure_count s m)"
| "pm_apply c s (OpOrphan m a t) = add_orphan_position s m a t"
| "pm_apply c s (OpSyncQuote q) = sync_available_quote s q"
| "pm_apply c s (OpSetExitOrder m ord) = fst (set_active_exit_order s m ord)"
| "pm_apply c s (OpClearExitOrder m) = fst (clear_active_exit_order s m)"
| "pm_apply c s (OpSetExitMode m x) = fst (set_exit_mode s m x)"
| "pm_apply c s (OpRegisterInFlight i ord) = register_in_flight_order s i ord"
| "pm_apply c s (OpRemoveInFlight m i) = fst (remove_in_flight_order s m i)"
| "pm_apply c s (OpRemoveInFlightLevel m sd p z) = fst (remove_in_flight_order_by_level s m sd p z)"
| "pm_apply c s (OpIntent i) = fst (reconcile_intent s (cfg_min_quote_lifetime_ms c) i)"
| "pm_apply c s (OpLimitEvent e) = fst (handle_limit_order_event s e)"
| "pm_apply c s (OpReconcile x) = fst (reconcile_position s x)"
| "pm_apply c s (OpPolicy p) = update_redemption_policy s p"
| "pm_apply c s (OpRedemption e) = fst (handle_redemption s e)"

section \<open>The invariant\<close>

definition positions_ok :: "(string, position) hmap \<Rightarrow> bool" where
  "positions_ok m \<longleftrightarrow> hwf m \<and> (\<forall>k p. hget m k = Some p \<longrightarrow> pos_mint p = k)"

definition books_ok :: "(string, (string, pending_order) hmap) hmap \<Rightarrow> bool" where
  "books_ok m \<longleftrightarrow> hwf m \<and> (\<forall>k b. hget m k = Some b \<longrightarrow> book_wf b)"

definition in_flight_ok :: "(string, (string, in_flight_order) hmap) hmap \<Rightarrow> bool" where
  "in_flight_ok m \<longleftrightarrow> hwf m \<and> (\<forall>k b. hget m k = Some b \<longrightarrow> hwf b)"

definition policies_ok :: "(string, redemption_policy) hmap \<Rightarrow> bool" where
  "policies_ok m \<longleftrightarrow> hwf m \<and> (\<forall>k p. hget m k = Some p \<longrightarrow> rp_market p = k)"

definition lanes_ok :: "(lane_key, quote_level list option) hmap \<Rightarrow> bool" where
  "lanes_ok m \<longleftrightarrow> hwf m \<and> (\<forall>k. hget m k \<noteq> Some (Some []))"

definition pm_inv :: "pm_state \<Rightarrow> bool" where
  "pm_inv s \<longleftrightarrow> positions_ok (pm_positions s) \<and> books_ok (pm_pending_limit_orders s) \<and>
     in_flight_ok (pm_in_flight_orders s) \<and> policies_ok (pm_redemption_policies s) \<and>
     lanes_ok (pm_intent_debounce s)"

lemma positions_ok_hput [intro]: "positions_ok m \<Longrightarrow> pos_mint p = k \<Longrightarrow> positions_ok (hput k p m)"
  by (auto simp: positions_ok_def simp del: map_of_eq_Some_iff)

lemma positions_ok_hdel [intro]: "positions_ok m \<Longrightarrow> positions_ok (hdel k m)"
  by (auto simp: positions_ok_def simp del: map_of_eq_Some_iff split: if_splits)

lemma positions_ok_mint: "positions_ok m \<Longrightarrow> hget m k = Some p \<Longrightarrow> pos_mint p = k"
  unfolding positions_ok_def by blast

lemma books_ok_hput [intro]: "books_ok m \<Longrightarrow> book_wf b \<Longrightarrow> books_ok (hput k b m)"
  by (auto simp: books_ok_def simp del: map_of_eq_Some_iff)

lemma books_ok_book: "books_ok m \<Longrightarrow> hget m k = Some b \<Longrightarrow> book_wf b"
  unfolding books_ok_def by blast

lemma in_flight_ok_hput [intro]: "in_flight_ok m \<Longrightarrow> hwf b \<Longrightarrow> in_flight_ok (hput k b m)"
  by (auto simp: in_flight_ok_def simp del: map_of_eq_Some_iff)

lemma in_flight_ok_at: "in_flight_ok m \<Longrightarrow> hget m k = Some b \<Longrightarrow> hwf b"
  unfolding in_flight_ok_def by blast

lemma lanes_ok_hput [intro]: "lanes_ok m \<Longrightarrow> v \<noteq> Some [] \<Longrightarrow> lanes_ok (hput k v m)"
  by (auto simp: lanes_ok_def simp del: map_of_eq_Some_iff)

section \<open>Every method keeps the invariant\<close>

lemma pm_inv_positions: "pm_inv s \<Longrightarrow> positions_ok m \<Longrightarrow> pm_inv (s\<lparr>pm_positions := m\<rparr>)"
  by (simp add: pm_inv_def)

lemma pm_inv_cong:
  assumes "pm_inv s" "pm_positions t = pm_positions s"
    "pm_pending_limit_orders t = pm_pending_limit_orders s" "pm_in_flight_orders t = pm_in_flight_orders s"
    "pm_redemption_policies t = pm_redemption_policies s" "pm_intent_debounce t = pm_intent_debounce s"
  shows "pm_inv t"
  using assms by (simp add: pm_inv_def)

lemma edit_position_inv:
  assumes "pm_inv s" "\<And>p. pos_mint (f p) = pos_mint p"
  shows "pm_inv (fst (edit_position s mint f))"
proof (cases "hget (pm_positions s) mint")
  case (Some p)
  have "pos_mint p = mint" using assms(1) Some by (auto simp: pm_inv_def intro: positions_ok_mint)
  then have "positions_ok (hput mint (f p) (pm_positions s))"
    using assms by (intro positions_ok_hput) (auto simp: pm_inv_def)
  with assms(1) Some show ?thesis by (simp add: edit_position_def pm_inv_positions)
qed (use assms in \<open>simp add: edit_position_def\<close>)

lemma handle_execution_inv:
  assumes "pm_inv s"
  shows "pm_inv (fst (handle_execution s e x))"
proof (cases e)
  case (ExecOrderFilled f)
  show ?thesis
  proof (cases "of_force_position_clear f")
    case True
    show ?thesis
    proof (cases "hget (pm_positions s) (of_mint f)")
      case (Some p)
      have "positions_ok (hdel (of_mint f) (pm_positions s))" using assms by (auto simp: pm_inv_def)
      with assms Some True ExecOrderFilled show ?thesis by (simp add: pm_inv_def)
    qed (use assms ExecOrderFilled True in simp)
  next
    case False
    obtain s' ev where h: "handle_order_filled s f x = (s', ev)" by fastforce
    obtain p n where p: "filled_position s f = (p, n)" by fastforce
    have "pos_mint p = of_mint f"
      using filled_position_mint [of s f] assms p positions_ok_mint by (auto simp: pm_inv_def)
    then have "positions_ok (pm_positions s')"
      using handle_order_filled_closed(1) [OF p _ h] handle_order_filled_kept(1) [OF p _ h] assms
      by (cases "is_dust p") (auto simp: pm_inv_def)
    with assms handle_order_filled_orders [OF h] have "pm_inv s'" by (simp add: pm_inv_def)
    with ExecOrderFilled False h show ?thesis by simp
  qed
qed (use assms in \<open>simp add: pm_inv_def\<close>)

lemma redeem_leg_inv:
  assumes "pm_inv s"
  shows "pm_inv (fst (redeem_leg s asset q ts evs))"
proof (cases "hget (pm_positions s) asset")
  case (Some p)
  have m: "pos_mint p = asset" using assms Some by (auto simp: pm_inv_def intro: positions_ok_mint)
  have "positions_ok (pm_positions (fst (redeem_leg s asset q ts evs)))"
    using assms Some m unfolding redeem_leg_def by (auto simp: Let_def pm_inv_def)
  with assms show ?thesis by (simp add: pm_inv_def)
qed (use assms in \<open>simp add: redeem_leg_def\<close>)

lemma handle_redemption_inv:
  assumes "pm_inv s"
  shows "pm_inv (fst (handle_redemption s e))"
proof (cases e)
  case (RedemptionCompleted r)
  have "pm_inv (s\<lparr>pm_available_quote := a, pm_total_quote_received := b\<rparr>)" for a b
    using assms by (simp add: pm_inv_def)
  with RedemptionCompleted show ?thesis by (simp only: handle_redemption_fst redeem_leg_inv)
qed (use assms in simp)

lemma reconcile_position_inv:
  assumes "pm_inv s"
  shows "pm_inv (fst (reconcile_position s x))"
proof -
  have "pos_mint (adopt_position p x) = pos_mint p" for p by (simp add: adopt_position_def Let_def)
  moreover have "pos_mint (exchange_to_position x) = xp_asset_id x" by (simp add: exchange_to_position_def)
  ultimately show ?thesis
    using assms positions_ok_mint
    by (auto simp: reconcile_position_def Let_def pm_inv_def split: option.splits)
qed

lemma add_pending_order_inv:
  assumes "pm_inv s" "po_order_id p = oid"
  shows "pm_inv (add_pending_order s mint oid p)"
proof -
  have "book_wf (unwrap_or (hget (pm_pending_limit_orders s) mint) [])"
    using assms(1) books_ok_book by (cases "hget (pm_pending_limit_orders s) mint") (auto simp: pm_inv_def book_wf_def)
  with assms show ?thesis by (auto simp: add_pending_order_def pm_inv_def intro: book_wf_hput)
qed

lemma remove_in_flight_order_inv: "pm_inv s \<Longrightarrow> pm_inv (fst (remove_in_flight_order s mint fid))"
  using in_flight_ok_at by (auto simp: remove_in_flight_order_def pm_inv_def split: option.splits)

lemma remove_in_flight_level_inv:
  "pm_inv s \<Longrightarrow> pm_inv (fst (remove_in_flight_order_by_level s mint side price sz))"
  by (auto simp: remove_in_flight_order_by_level_def remove_in_flight_order_inv split: option.splits)

lemma books_ok_Cons:
  "books_ok ((k, b) # m) \<longleftrightarrow> book_wf b \<and> k \<notin> fst ` set m \<and> books_ok m"
proof -
  have "hget m k = None" if "k \<notin> fst ` set m" using that by (simp add: map_of_eq_None_iff)
  then show ?thesis by (auto simp: books_ok_def simp del: map_of_eq_Some_iff)
qed

lemma remove_by_id_ok: "books_ok m \<Longrightarrow> books_ok (fst (remove_by_id oid m))"
proof (induction oid m rule: remove_by_id.induct)
  case (2 oid mint os rest)
  then show ?case
    using remove_by_id_keys [of oid rest]
    by (simp add: books_ok_Cons book_wf_hdel Let_def case_prod_beta split: option.splits)
qed (simp add: books_ok_def)

lemma partial_fill_ok: "books_ok m \<Longrightarrow> books_ok (partial_fill_by_id r oid m)"
proof (induction r oid m rule: partial_fill_by_id.induct)
  case (2 r oid mint os rest)
  have "book_wf (partial_fill_order r oid os p)" if "hget os oid = Some p" "book_wf os" for p
  proof -
    have "po_order_id p = oid" using that by (simp add: book_wf_def del: map_of_eq_Some_iff)
    then show ?thesis using that(2) by (simp add: partial_fill_order_def book_wf_hdel book_wf_hput)
  qed
  with 2 show ?case
    using arg_cong [OF partial_fill_keys [of r oid rest], of set] by (auto simp: books_ok_Cons split: option.splits)
qed (simp add: books_ok_def)

lemma remove_pending_inv: "pm_inv s \<Longrightarrow> pm_inv (fst (remove_pending_order_by_id s oid))"
  using remove_by_id_ok [of "pm_pending_limit_orders s" oid]
  by (auto simp: remove_pending_order_by_id_def pm_inv_def Let_def split: prod.splits)

lemma handle_limit_order_event_inv:
  assumes "pm_inv s"
  shows "pm_inv (fst (handle_limit_order_event s e))"
proof (cases e)
  case (OrderPlaced oid mint market price sz side ts signal ctx)
  with remove_in_flight_level_inv [OF assms, of mint side price sz] show ?thesis
    by (auto simp: Let_def pending_new_def intro!: add_pending_order_inv split: prod.splits)
next
  case (OrderPartiallyFilled oid mint side filled remaining price ts signal mode)
  with assms partial_fill_ok show ?thesis by (simp add: pm_inv_def)
qed (use assms remove_pending_inv in auto)

lemma lanes_ok_at: "lanes_ok m \<Longrightarrow> hget m k \<noteq> Some (Some [])"
  unfolding lanes_ok_def by blast

lemma debounce_side_state:
  assumes "lanes_ok (pm_intent_debounce s)"
  shows "lanes_ok (pm_intent_debounce (fst (debounce_side i side desired pending current s ms)))"
    "\<exists>v. fst (debounce_side i side desired pending current s ms) = set_lane s (lane_of i side) v"
proof -
  have "lane_pending s (lane_of i side) \<noteq> Some []"
    using lanes_ok_at [OF assms, of "lane_of i side"] unfolding lane_pending_def unwrap_or_def
    by (cases "hget (pm_intent_debounce s) (lane_of i side)") (simp_all del: map_of_eq_Some_iff)
  with assms show "lanes_ok (pm_intent_debounce (fst (debounce_side i side desired pending current s ms)))"
    by (auto simp: debounce_side_def set_lane_def Let_def split: option.splits)
  show "\<exists>v. fst (debounce_side i side desired pending current s ms) = set_lane s (lane_of i side) v"
    by (auto simp: debounce_side_def Let_def split: option.splits)
qed

lemma debounce_side_inv:
  assumes "pm_inv s"
  shows "pm_inv (fst (debounce_side i side desired pending current s ms))"
proof -
  from debounce_side_state(2) [of s i side desired pending current ms] assms
  obtain v where "fst (debounce_side i side desired pending current s ms) = set_lane s (lane_of i side) v"
    by (auto simp: pm_inv_def)
  with debounce_side_state(1) [of s i side desired pending current ms] assms show ?thesis
    by (simp add: pm_inv_def set_lane_def)
qed

lemma reconcile_intent_inv:
  assumes "pm_inv s"
  shows "pm_inv (fst (reconcile_intent s ms i))"
proof -
  have "pm_inv (fst (apply_intent_debounce i pending current s ms))" for pending current
    using debounce_side_inv [OF debounce_side_inv [OF assms]] assms
    by (auto simp: apply_intent_debounce_def split: option.splits prod.splits
      intro: back_subst [of pm_inv]) (metis fst_conv)
  then show ?thesis by (simp add: reconcile_intent_def Let_def split: prod.splits) (metis fst_conv)
qed

lemma pm_apply_inv: "pm_inv s \<Longrightarrow> pm_inv (pm_apply c s x)"
proof (cases x)
  case (OpOrphan m a t)
  then show "pm_inv s \<Longrightarrow> ?thesis" by (auto simp: add_orphan_position_def Let_def pm_inv_def)
next
  case (OpRemovePosition m)
  then show "pm_inv s \<Longrightarrow> ?thesis" by (auto simp: remove_position_def pm_inv_def)
next
  case (OpRegisterInFlight i ord)
  then show "pm_inv s \<Longrightarrow> ?thesis"
    using in_flight_ok_at by (auto simp: register_in_flight_order_def add_in_flight_order_def pm_inv_def
      unwrap_or_def split: option.splits)
next
  case (OpPolicy p)
  then show "pm_inv s \<Longrightarrow> ?thesis"
    by (auto simp: update_redemption_policy_def set_redemption_policy_def pm_inv_def policies_ok_def
      simp del: map_of_eq_Some_iff)
next
  case (OpUpdatePrice m p t)
  then show "pm_inv s \<Longrightarrow> ?thesis"
    using edit_position_inv [of s "reprice p t" m]
    by (auto simp: update_price_def reprice_def Let_def split: prod.splits sum.splits)
qed (auto simp: try_mark_for_buying_def try_mark_pending_sell_def release_pending_sell_def
  sync_available_quote_def increment_sell_failure_count_def set_active_exit_order_def
  clear_active_exit_order_def set_exit_mode_def handle_execution_inv handle_redemption_inv
  reconcile_position_inv handle_limit_order_event_inv reconcile_intent_inv remove_in_flight_order_inv
  remove_in_flight_level_inv simp del: handle_execution.simps handle_redemption.simps
  handle_limit_order_event.simps intro: edit_position_inv pm_inv_cong)

section \<open>Marks\<close>

lemma pm_new_inv: "pm_inv (pm_new q)"
  by (simp add: pm_inv_def pm_new_def positions_ok_def books_ok_def in_flight_ok_def policies_ok_def lanes_ok_def)

definition marks :: "pm_state \<Rightarrow> string set \<times> string set" where
  "marks s = (pm_bought_mints s, pm_pending_sells s)"

lemma marks_edit [simp]: "marks (fst (edit_position s m f)) = marks s"
  by (simp add: edit_position_def marks_def split: option.splits)

lemma marks_update_price [simp]: "marks (fst (update_price s m p t)) = marks s"
proof (cases "edit_position s m (reprice p t)")
  case (Pair s' r)
  then have "marks s' = marks s" using marks_edit [of s m "reprice p t"] by simp
  with Pair show ?thesis by (simp add: update_price_def split: sum.splits)
qed

lemma marks_reconcile_position [simp]: "marks (fst (reconcile_position s x)) = marks s"
  by (simp add: reconcile_position_def marks_def Let_def)

lemma marks_remove_in_flight [simp]: "marks (fst (remove_in_flight_order s m i)) = marks s"
  by (simp add: remove_in_flight_order_def marks_def split: option.splits)

lemma marks_remove_level [simp]: "marks (fst (remove_in_flight_order_by_level s m sd p z)) = marks s"
  by (auto simp: remove_in_flight_order_by_level_def split: option.splits)

lemma marks_add_pending [simp]: "marks (add_pending_order s m i p) = marks s"
  by (simp add: add_pending_order_def marks_def)

lemma marks_remove_pending [simp]: "marks (fst (remove_pending_order_by_id s i)) = marks s"
  by (simp add: remove_pending_order_by_id_def marks_def Let_def case_prod_beta)

lemma marks_limit_event [simp]: "marks (fst (handle_limit_order_event s e)) = marks s"
proof (cases e)
  case (OrderPartiallyFilled oid mint side filled remaining price ts signal mode)
  then show ?thesis by (simp add: marks_def)
qed (simp_all add: Let_def case_prod_beta)

lemma marks_debounce [simp]: "marks (fst (debounce_side i side desired pending current s ms)) = marks s"
  by (auto simp: debounce_side_def Let_def set_lane_def marks_def split: option.splits)

lemma marks_reconcile_intent [simp]: "marks (fst (reconcile_intent s ms i)) = marks s"
proof -
  have "marks (fst (apply_intent_debounce i pending current s ms)) = marks s" for pending current
    by (simp add: apply_intent_debounce_def Let_def case_prod_beta split: option.splits)
  then show ?thesis by (simp add: reconcile_intent_def Let_def case_prod_beta)
qed

text \<open>The methods that may take the mark of a pending sell off a mint.\<close>

fun releases :: "string \<Rightarrow> pm_op \<Rightarrow> bool" where
  "releases m (OpClearSell m') = (m' = m)"
| "releases m (OpExecution (ExecOrderFilled f)) = (of_mint f = m)"
| "releases m (OpExecution (ExecOrderRejected m' r)) = (m' = m)"
| "releases m (OpRedemption (RedemptionCompleted r)) = (rc_up_asset_id r = m \<or> rc_down_asset_id r = m)"
| "releases m op = False"

lemma fill_marks:
  assumes "handle_order_filled s f x = (s', ev)"
  shows "pm_pending_sells s - {of_mint f} \<subseteq> pm_pending_sells s'"
proof -
  obtain p n where p: "filled_position s f = (p, n)" by fastforce
  from handle_order_filled_closed(2) [OF p _ assms] handle_order_filled_kept(2) [OF p _ assms] show ?thesis
    by (cases "is_dust p") auto
qed

lemma redeem_leg_sells:
  "pm_pending_sells s - {asset} \<subseteq> pm_pending_sells (fst (redeem_leg s asset q ts evs))"
  by (auto simp: redeem_leg_def Let_def split: option.splits)

lemma pm_apply_bought: "pm_bought_mints s \<subseteq> pm_bought_mints (pm_apply c s x)"
proof (cases x)
  case (OpExecution e)
  show ?thesis
  proof (cases e)
    case (ExecOrderFilled f)
    obtain s' ev where h: "handle_order_filled s f (cfg_exit_strategy c) = (s', ev)" by fastforce
    from handle_order_filled_cash(4) [OF h] ExecOrderFilled OpExecution show ?thesis
      by (auto simp: h split: option.splits)
  qed (use OpExecution in simp)
next
  case (OpRedemption e)
  then show ?thesis by (cases e) (simp_all only: pm_apply.simps handle_redemption_fst redeem_leg_frame, simp_all)
next
  case (OpLimitEvent e)
  then show ?thesis using marks_limit_event [of s e] by (simp add: marks_def)
next
  case (OpIntent i)
  then show ?thesis using marks_reconcile_intent [of s "cfg_min_quote_lifetime_ms c" i] by (simp add: marks_def)
next
  case (OpReconcile y)
  then show ?thesis using marks_reconcile_position [of s y] by (simp add: marks_def)
next
  case (OpUpdatePrice m p t)
  then show ?thesis using marks_update_price [of s m p t] by (simp add: marks_def)
next
  case (OpRemoveInFlight m i)
  then show ?thesis using marks_remove_in_flight [of s m i] by (simp add: marks_def)
next
  case (OpRemoveInFlightLevel m sd p z)
  then show ?thesis using marks_remove_level [of s m sd p z] by (simp add: marks_def)
qed (auto simp: try_mark_for_buying_def try_mark_pending_sell_def release_pending_sell_def
  sync_available_quote_def add_orphan_position_def Let_def remove_position_def update_redemption_policy_def
  set_redemption_policy_def register_in_flight_order_def add_in_flight_order_def
  increment_sell_failure_count_def set_active_exit_order_def clear_active_exit_order_def set_exit_mode_def
  edit_position_def split: option.splits)

lemma pm_apply_sells:
  assumes "\<not> releases m x" "m \<in> pm_pending_sells s"
  shows "m \<in> pm_pending_sells (pm_apply c s x)"
proof (cases x)
  case (OpExecution e)
  show ?thesis
  proof (cases e)
    case (ExecOrderFilled f)
    obtain s' ev where h: "handle_order_filled s f (cfg_exit_strategy c) = (s', ev)" by fastforce
    from fill_marks [OF h] ExecOrderFilled OpExecution assms show ?thesis
      by (auto simp: h split: option.splits)
  qed (use OpExecution assms in auto)
next
  case (OpRedemption e)
  show ?thesis
  proof (cases e)
    case (RedemptionCompleted r)
    with assms OpRedemption have n: "m \<noteq> rc_up_asset_id r" "m \<noteq> rc_down_asset_id r" by auto
    have up: "m \<in> pm_pending_sells t \<Longrightarrow> m \<in> pm_pending_sells (fst (redeem_leg t (rc_up_asset_id r) q ts evs))"
      for t q ts evs using redeem_leg_sells [of t "rc_up_asset_id r"] n by blast
    have down: "m \<in> pm_pending_sells t \<Longrightarrow> m \<in> pm_pending_sells (fst (redeem_leg t (rc_down_asset_id r) q ts evs))"
      for t q ts evs using redeem_leg_sells [of t "rc_down_asset_id r"] n by blast
    from assms(2) show ?thesis unfolding OpRedemption RedemptionCompleted pm_apply.simps handle_redemption_fst
      by (intro down up) simp
  qed (use OpRedemption assms in simp)
next
  case (OpLimitEvent e)
  then show ?thesis using marks_limit_event [of s e] assms by (simp add: marks_def)
next
  case (OpIntent i)
  then show ?thesis using marks_reconcile_intent [of s "cfg_min_quote_lifetime_ms c" i] assms by (simp add: marks_def)
next
  case (OpReconcile y)
  then show ?thesis using marks_reconcile_position [of s y] assms by (simp add: marks_def)
next
  case (OpUpdatePrice k p t)
  then show ?thesis using marks_update_price [of s k p t] assms by (simp add: marks_def)
next
  case (OpRemoveInFlight k i)
  then show ?thesis using marks_remove_in_flight [of s k i] assms by (simp add: marks_def)
next
  case (OpRemoveInFlightLevel k sd p z)
  then show ?thesis using marks_remove_level [of s k sd p z] assms by (simp add: marks_def)
qed (use assms in \<open>auto simp: try_mark_for_buying_def try_mark_pending_sell_def release_pending_sell_def
  sync_available_quote_def add_orphan_position_def Let_def remove_position_def update_redemption_policy_def
  set_redemption_policy_def register_in_flight_order_def add_in_flight_order_def
  increment_sell_failure_count_def set_active_exit_order_def clear_active_exit_order_def set_exit_mode_def
  edit_position_def split: option.splits\<close>)

section \<open>The contracts\<close>

interpretation pm: progress_machine "pm_apply c" "\<lambda>_. True" pm_inv "\<lambda>s t. pm_bought_mints s \<subseteq> pm_bought_mints t" for c
  by unfold_locales (auto intro: pm_apply_inv subsetD [OF pm_apply_bought])

interpretation pms: machine "pm_apply c" "\<lambda>x. \<not> releases m x" "\<lambda>s. m \<in> pm_pending_sells s" for c m
  by unfold_locales (rule pm_apply_sells)

text \<open>How many calls of a run take the mark of a mint for buying.\<close>

fun buy_marks :: "pm_config \<Rightarrow> string \<Rightarrow> pm_state \<Rightarrow> pm_op list \<Rightarrow> nat" where
  "buy_marks c m s [] = 0"
| "buy_marks c m s (x # xs) =
     (if x = OpMarkBuy m \<and> snd (try_mark_for_buying s m) then 1 else 0) + buy_marks c m (pm_apply c s x) xs"

lemma buy_marks_bought: "m \<in> pm_bought_mints s \<Longrightarrow> buy_marks c m s xs = 0"
proof (induction xs arbitrary: s)
  case (Cons x xs)
  have "m \<in> pm_bought_mints (pm_apply c s x)" using Cons.prems pm_apply_bought by blast
  with Cons show ?case by (simp add: try_mark_for_buying_def)
qed simp

section \<open>Properties\<close>

text \<open>C31. After any sequence of method calls on a new manager its maps are consistent: positions are
  filed under their own mint, pending orders under their own id and policies under their market, keys
  are unique on both levels of the nested maps, and no lane holds an empty debounced update.\<close>

theorem manager_invariant: "pm_inv (foldl (pm_apply c) (pm_new q) ops)"
  by (rule pm.run_inv) (simp_all add: pm_new_inv list_all_iff)

text \<open>A mint is bought at most once: over any sequence of calls, in any interleaving, at most one
  caller gets the buy mark of a mint, and none after a fill has bought it.\<close>

theorem bought_at_most_once: "buy_marks c m s ops \<le> (if m \<in> pm_bought_mints s then 0 else 1)"
proof (cases "m \<in> pm_bought_mints s")
  case False
  then show ?thesis
  proof (induction ops arbitrary: s)
    case (Cons x xs)
    show ?case
    proof (cases "m \<in> pm_bought_mints (pm_apply c s x)")
      case True
      then show ?thesis using Cons.prems by (simp add: buy_marks_bought)
    next
      case False
      then have "\<not> (x = OpMarkBuy m \<and> snd (try_mark_for_buying s m))"
        by (auto simp: try_mark_for_buying_def split: if_splits)
      with Cons.IH [OF False] False Cons.prems show ?thesis by auto
    qed
  qed simp
qed (simp add: buy_marks_bought)

text \<open>C32. The pending-sell mark is a lock: once a caller has it, no other call gets it until a call
  that may release it (clearing the mark, a fill or a rejection of that mint, a redemption of it)
  comes.\<close>

theorem pending_sell_is_a_lock:
  assumes "try_mark_pending_sell s m = (s', True)" "list_all (\<lambda>x. \<not> releases m x) ops"
  shows "\<not> snd (try_mark_pending_sell (foldl (pm_apply c) s' ops) m)"
proof -
  have "m \<in> pm_pending_sells s'" using assms(1) by (auto simp: try_mark_pending_sell_def split: if_splits)
  from pms.run_inv [OF this assms(2), of c] show ?thesis by (simp add: try_mark_pending_sell_def)
qed

definition demo_config :: pm_config where
  "demo_config = \<lparr>cfg_trade_amount = Fin 1, cfg_max_holding_period = 60, cfg_max_open_positions = 2,
     cfg_exit_strategy = NoopExit, cfg_min_quote_lifetime_ms = None\<rparr>"

theorem pending_sell_is_a_lock_witness:
  "\<not> snd (try_mark_pending_sell (foldl (pm_apply demo_config)
     ((pm_new (Fin 1))\<lparr>pm_pending_sells := {''M''}\<rparr>) [OpClearSell ''N'', OpSyncQuote (Fin 3)]) ''M'')"
  by (rule pending_sell_is_a_lock [of "pm_new (Fin 1)"]) (simp_all add: try_mark_pending_sell_def pm_new_def)

text \<open>Calls that edit a position fail exactly when the mint is not held, with
  \<open>PositionNotFound\<close> and an unchanged state, and otherwise change that position only.\<close>

theorem edits_touch_one_position:
  "case edit_position s m f of
     (s', Inl e) \<Rightarrow> hget (pm_positions s) m = None \<and> e = PositionNotFound m \<and> s' = s
   | (s', Inr p) \<Rightarrow> (\<exists>p0. hget (pm_positions s) m = Some p0 \<and> p = f p0) \<and>
       hget (pm_positions s') = (hget (pm_positions s))(m \<mapsto> p) \<and>
       s' = s\<lparr>pm_positions := pm_positions s'\<rparr>"
  by (simp add: edit_position_def split: option.splits)

end
