(* ===== verification/Sorted_Map.thy ===== *)
theory Sorted_Map
  imports Prelude
begin

text \<open>
  Rust's \<open>BTreeMap\<close> as the list of its entries in ascending key order, with the operations the order
  book uses: \<open>insert\<close>, \<open>remove\<close>, \<open>pop_first\<close>, \<open>pop_last\<close>, \<open>range\<close> and iteration from both ends.  An order
  book reads one side of a map from its best price on; the locale \<open>best_first\<close> states what trimming a
  side promises, and both sides interpret it.
\<close>

type_synonym ('k, 'v) smap = "('k \<times> 'v) list"

fun bt_insert :: "'k::linorder \<Rightarrow> 'v \<Rightarrow> ('k, 'v) smap \<Rightarrow> ('k, 'v) smap" where
  "bt_insert k v [] = [(k, v)]"
| "bt_insert k v ((k', v') # m) =
     (if k < k' then (k, v) # (k', v') # m
      else if k = k' then (k, v) # m
      else (k', v') # bt_insert k v m)"

fun bt_remove :: "'k::linorder \<Rightarrow> ('k, 'v) smap \<Rightarrow> ('k, 'v) smap" where
  "bt_remove k [] = []"
| "bt_remove k ((k', v') # m) = (if k = k' then m else (k', v') # bt_remove k m)"

definition bt_range :: "'k::linorder \<Rightarrow> 'k \<Rightarrow> ('k, 'v) smap \<Rightarrow> ('k, 'v) smap" where
  "bt_range lo hi m = filter (\<lambda>(k, v). lo \<le> k \<and> k \<le> hi) m"

definition pop_first :: "('k, 'v) smap \<Rightarrow> ('k, 'v) smap" where
  "pop_first m = tl m"

definition pop_last :: "('k, 'v) smap \<Rightarrow> ('k, 'v) smap" where
  "pop_last m = butlast m"

definition bt_wf :: "('k::linorder, 'v) smap \<Rightarrow> bool" where
  "bt_wf m \<longleftrightarrow> sorted_wrt (<) (map fst m)"

lemma bt_wf_Nil [simp]: "bt_wf []"
  by (simp add: bt_wf_def)

lemma bt_wf_Cons: "bt_wf (p # m) \<longleftrightarrow> (\<forall>q \<in> set m. fst p < fst q) \<and> bt_wf m"
  by (auto simp: bt_wf_def)

lemma set_bt_insert: "set (bt_insert k v m) \<subseteq> insert (k, v) (set m)"
  by (induction k v m rule: bt_insert.induct) auto

lemma set_bt_remove: "set (bt_remove k m) \<subseteq> set m"
  by (induction k m rule: bt_remove.induct) auto

lemma bt_wf_insert [simp]: "bt_wf m \<Longrightarrow> bt_wf (bt_insert k v m)"
proof (induction k v m rule: bt_insert.induct)
  case (2 k v k' v' m)
  then show ?case using set_bt_insert [of k v m] by (fastforce simp: bt_wf_Cons)
qed (simp add: bt_wf_Cons)

lemma bt_wf_remove [simp]: "bt_wf m \<Longrightarrow> bt_wf (bt_remove k m)"
proof (induction k m rule: bt_remove.induct)
  case (2 k k' v' m)
  then show ?case using set_bt_remove [of k m] by (auto simp: bt_wf_Cons)
qed simp

lemma bt_wf_get_Cons:
  "bt_wf ((k', v') # m) \<Longrightarrow> k \<le> k' \<Longrightarrow> map_of m k = None"
  by (auto simp: bt_wf_Cons map_of_eq_None_iff)

lemma get_bt_insert [simp]: "bt_wf m \<Longrightarrow> map_of (bt_insert k v m) = (map_of m)(k \<mapsto> v)"
  by (induction k v m rule: bt_insert.induct) (auto simp: bt_wf_Cons fun_eq_iff)

lemma get_bt_remove [simp]: "bt_wf m \<Longrightarrow> map_of (bt_remove k m) = (map_of m)(k := None)"
proof (induction k m rule: bt_remove.induct)
  case (2 k k' v' m)
  then show ?case using bt_wf_get_Cons [of k' v' m k] by (auto simp: bt_wf_Cons fun_eq_iff)
qed simp

lemma bt_wf_distinct: "bt_wf m \<Longrightarrow> distinct (map fst m)"
  by (simp add: bt_wf_def strict_sorted_iff)

lemma bt_wf_take [simp]: "bt_wf m \<Longrightarrow> bt_wf (take n m)"
  by (simp add: bt_wf_def take_map [symmetric] sorted_wrt_take)

lemma bt_wf_drop [simp]: "bt_wf m \<Longrightarrow> bt_wf (drop n m)"
  by (simp add: bt_wf_def drop_map [symmetric] sorted_wrt_drop)

lemma pop_first_n: "(pop_first ^^ n) m = drop n m"
  by (induction n) (simp_all add: pop_first_def tl_drop drop_Suc)

lemma pop_last_n: "(pop_last ^^ n) m = take (length m - n) m"
  by (induction n) (auto simp: pop_last_def butlast_take min_def)

text \<open>A part of a map that keeps distinct keys is a submap.\<close>

lemma map_of_sublist_le: "distinct (map fst m) \<Longrightarrow> set m' \<subseteq> set m \<Longrightarrow> map_of m' \<subseteq>\<^sub>m map_of m"
  unfolding map_le_def by (metis domIff map_of_SomeD map_of_is_SomeI not_None_eq subsetD)

lemma map_le_upd: "m \<subseteq>\<^sub>m m' \<Longrightarrow> m(k := v) \<subseteq>\<^sub>m m'(k := v)"
  by (auto simp: map_le_def)

section \<open>The best entries first\<close>

locale best_first =
  fixes top :: "('k::linorder, 'v) smap \<Rightarrow> ('k \<times> 'v) list"
    and trim :: "nat \<Rightarrow> ('k, 'v) smap \<Rightarrow> ('k, 'v) smap"
    and better :: "'k \<Rightarrow> 'k \<Rightarrow> bool"
  assumes top_set: "set (top m) = set m"
    and top_length: "length (top m) = length m"
    and top_sorted: "bt_wf m \<Longrightarrow> sorted_wrt better (map fst (top m))"
    and trim_wf: "bt_wf m \<Longrightarrow> bt_wf (trim n m)"
    and top_trim: "top (trim n m) = take n (top m)"
    and better_irrefl: "\<not> better k k"
    and better_trans: "better a b \<Longrightarrow> better b c \<Longrightarrow> better a c"
begin

lemma trim_length: "length (trim n m) = min n (length m)"
  using top_length [of "trim n m"] by (simp add: top_trim top_length)

lemma trim_subset: "set (trim n m) \<subseteq> set m"
  by (metis top_trim top_set set_take_subset)

lemma trim_le: "bt_wf m \<Longrightarrow> map_of (trim n m) \<subseteq>\<^sub>m map_of m"
  by (intro map_of_sublist_le bt_wf_distinct trim_subset)

lemma best_is_best:
  assumes "bt_wf m" "top m = p # ps" "q \<in> set m" "fst q \<noteq> fst p"
  shows "better (fst p) (fst q)"
proof -
  have "sorted_wrt better (map fst (p # ps))" using top_sorted [OF assms(1)] assms(2) by simp
  moreover have "q \<in> set (p # ps)" using top_set [of m] assms(2,3) by simp
  ultimately show ?thesis using assms(4) by auto
qed

lemma best_none: "top m = [] \<longleftrightarrow> m = []"
  using top_length [of m] by auto

text \<open>Trimming keeps the best: what it drops is worse than everything it keeps.\<close>

lemma trim_keeps_best:
  assumes "bt_wf m" "p \<in> set (trim n m)" "q \<in> set m" "q \<notin> set (trim n m)"
  shows "better (fst p) (fst q)"
proof -
  have s: "sorted_wrt better (map fst (take n (top m)) @ map fst (drop n (top m)))"
    using top_sorted [OF assms(1)] by (simp flip: map_append)
  have "p \<in> set (take n (top m))" using assms(2) top_set [of "trim n m"] by (simp add: top_trim)
  moreover have "q \<in> set (drop n (top m))"
    using assms(3,4) top_set [of m] top_set [of "trim n m"] append_take_drop_id [of n "top m"]
    by (metis Un_iff set_append top_trim)
  ultimately show ?thesis using s by (auto simp: sorted_wrt_append)
qed

lemma trim_small: "length m \<le> n \<Longrightarrow> bt_wf m \<Longrightarrow> map_of (trim n m) = map_of m"
  using top_set [of m] top_set [of "trim n m"] map_of_inject_set [OF bt_wf_distinct bt_wf_distinct, of "trim n m" m]
  by (simp add: top_trim top_length trim_wf)

end

end
