(* ===== verification/Ticks.thy ===== *)
theory Ticks
  imports Prelude "HOL-Library.Word"
begin

text \<open>
  The fixed-point numbers of the client library: the integer types and conversions of
  \<open>polyfill-rs/src/types.rs\<close> and the integer functions of \<open>utils.rs\<close> (module \<open>math\<close>).  Prices are
  32-bit and quantities 64-bit words with the wrap-around of a release build.  The decimal type of the
  public interface is third-party code: a conversion takes as its argument \<open>scaled\<close> what the code
  asks of it, multiplying by the scale factor, rounding and narrowing to 64 bits.
\<close>

type_synonym price = "32 word"
type_synonym qty = "64 word"

section \<open>Conversions\<close>

definition min_price_ticks :: price where "min_price_ticks = 1"
definition max_price_ticks :: price where "max_price_ticks = - 1"
definition max_qty :: qty where "max_qty = 4611686018427387903"
definition scale_factor :: int where "scale_factor = 10000"

definition decimal_to_price :: "('d \<Rightarrow> 64 word option) \<Rightarrow> 'd \<Rightarrow> string + price" where
  "decimal_to_price scaled d =
     (case scaled d of
        None \<Rightarrow> Err ''Price too large or negative''
      | Some n \<Rightarrow>
          if n < ucast min_price_ticks then Ok min_price_ticks
          else if n > ucast max_price_ticks then Err ''Price exceeds maximum''
          else Ok (ucast n))"

text \<open>\<open>i64::abs\<close> wraps at the smallest value.\<close>

definition abs_i64 :: "64 word \<Rightarrow> 64 word" where
  "abs_i64 n = (if sint n < 0 then - n else n)"

definition decimal_to_qty :: "('d \<Rightarrow> 64 word option) \<Rightarrow> 'd \<Rightarrow> string + qty" where
  "decimal_to_qty scaled d =
     (case scaled d of
        None \<Rightarrow> Err ''Quantity too large''
      | Some n \<Rightarrow> if sint (abs_i64 n) > sint max_qty then Err ''Quantity exceeds maximum'' else Ok n)"

definition is_price_tick_aligned :: "('d \<Rightarrow> 64 word option) \<Rightarrow> 'd \<Rightarrow> 'd \<Rightarrow> bool" where
  "is_price_tick_aligned scaled d tick =
     (case decimal_to_price scaled tick of Inl e \<Rightarrow> False
      | Inr tick_ticks \<Rightarrow> (case decimal_to_price scaled d of Inl e \<Rightarrow> False
        | Inr ticks \<Rightarrow> if tick_ticks = 0 then True else ticks mod tick_ticks = 0))"

section \<open>Integer arithmetic on prices\<close>

definition round_to_tick_fast :: "price \<Rightarrow> price \<Rightarrow> price" where
  "round_to_tick_fast p tick =
     (if tick = 0 then p
      else let half_tick = tick div 2 in (p + half_tick) div tick * tick)"

text \<open>Division of 64-bit integers truncates towards zero.\<close>

definition div_i64 :: "64 word \<Rightarrow> int \<Rightarrow> 64 word" where
  "div_i64 n k = (if sint n < 0 then - word_of_int (- sint n div k) else word_of_int (sint n div k))"

definition notional_fast :: "price \<Rightarrow> qty \<Rightarrow> qty" where
  "notional_fast p q = div_i64 (ucast p * q) scale_factor"

definition spread_pct_fast :: "price \<Rightarrow> price \<Rightarrow> price option" where
  "spread_pct_fast bid ask =
     (if bid = 0 \<or> ask \<le> bid then None
      else let spread = ask - bid;
        spread_bps = (ucast spread * 10000) div (ucast bid :: 64 word)
      in Some (ucast spread_bps))"

definition mid_price_fast :: "price \<Rightarrow> price \<Rightarrow> price option" where
  "mid_price_fast bid ask =
     (if bid = 0 \<or> ask = 0 \<or> ask \<le> bid then None
      else let sum = (ucast bid :: 64 word) + ucast ask in Some (ucast (sum div 2)))"

definition spread_fast :: "price \<Rightarrow> price \<Rightarrow> price option" where
  "spread_fast bid ask = (if ask \<le> bid then None else Some (ask - bid))"

definition is_valid_price_fast :: "price \<Rightarrow> price \<Rightarrow> price \<Rightarrow> bool" where
  "is_valid_price_fast p lo hi \<longleftrightarrow> lo \<le> p \<and> p \<le> hi"

section \<open>The arithmetic on numbers\<close>

lemma half_sum: "a < b \<Longrightarrow> a \<le> (a + b) div 2 \<and> (a + b) div 2 < (b :: nat)"
  by presburger

lemma unat_price_less: "unat (p :: price) < 4294967296"
proof -
  have "unat p < 2 ^ LENGTH(32)" by (rule unsigned_less)
  then show ?thesis by simp
qed

lemma unat_price_wide [simp]: "unat (ucast (p :: price) :: 64 word) = unat p"
  using unat_price_less [of p] by (simp add: unsigned_ucast_eq take_bit_nat_eq_self_iff)

lemma unat_wide_sum: "unat ((ucast (p :: price) :: 64 word) + ucast q) = unat p + unat (q :: price)"
  using unat_price_less [of p] unat_price_less [of q] by (simp add: unat_word_ariths)

lemma unat_narrow: "unat (w :: 64 word) < 4294967296 \<Longrightarrow> unat (ucast w :: price) = unat w"
  by (simp add: unsigned_ucast_eq take_bit_nat_eq_self_iff)

lemma mid_price_value:
  assumes "mid_price_fast bid ask = Some m"
  shows "unat m = (unat bid + unat ask) div 2" "unat bid \<le> unat m" "unat m < unat ask"
proof -
  have lt: "unat bid < unat ask" and m: "m = ucast (((ucast bid :: 64 word) + ucast ask) div 2)"
    using assms by (auto simp: mid_price_fast_def Let_def word_less_nat_alt word_le_nat_alt split: if_splits)
  have "unat (((ucast bid :: 64 word) + ucast ask) div 2) = (unat bid + unat ask) div 2"
    by (simp add: unat_div unat_wide_sum)
  with half_sum [OF lt] unat_price_less [of ask] show *: "unat m = (unat bid + unat ask) div 2"
    unfolding m by (subst unat_narrow) auto
  show "unat bid \<le> unat m" "unat m < unat ask"
    using half_sum [OF lt] unfolding * by blast+
qed

lemma spread_value: "spread_fast bid ask = Some s \<Longrightarrow> unat s = unat ask - unat bid \<and> unat bid < unat ask"
  by (auto simp: spread_fast_def unat_sub_if_size word_le_nat_alt split: if_splits)

lemma round_nearest:
  fixes p t :: nat
  assumes "0 < t"
  shows "t dvd (p + t div 2) div t * t" "(p + t div 2) div t * t \<le> p + t div 2"
    "2 * p \<le> 2 * ((p + t div 2) div t * t) + t"
proof -
  show "t dvd (p + t div 2) div t * t" by simp
  have *: "(p + t div 2) mod t < t" "(p + t div 2) div t * t + (p + t div 2) mod t = p + t div 2"
    using assms by simp_all
  then show "(p + t div 2) div t * t \<le> p + t div 2" by linarith
  show "2 * p \<le> 2 * ((p + t div 2) div t * t) + t" using * by linarith
qed

lemma close_int:
  assumes "x \<le> p + t div 2" "2 * p \<le> 2 * x + t"
  shows "2 * \<bar>int x - int p\<bar> \<le> int t"
proof -
  have "t div 2 * 2 \<le> t" by simp
  with assms(1) have "2 * x \<le> 2 * p + t" by linarith
  then have "2 * int x \<le> 2 * int p + int t" "2 * int p \<le> 2 * int x + int t"
    using assms(2) by linarith+
  then show ?thesis by (cases "x \<le> p") simp_all
qed

lemma round_to_tick_value:
  assumes "tick \<noteq> 0" "unat p + unat tick div 2 < 4294967296"
  shows "unat (round_to_tick_fast p tick) = (unat p + unat tick div 2) div unat tick * unat tick"
proof -
  have "0 < unat tick" using assms(1) by (simp add: unat_gt_0)
  then have "(unat p + unat tick div 2) div unat tick * unat tick < 4294967296"
    using round_nearest(2) [of "unat tick" "unat p"] assms(2) by linarith
  moreover have "(unat p + unat tick div 2) div unat tick < 4294967296"
    using div_le_dividend [of "unat p + unat tick div 2" "unat tick"] assms(2) by linarith
  ultimately show ?thesis
    using assms by (simp add: round_to_tick_fast_def Let_def unat_word_ariths unat_div)
qed

lemma spread_pct_value:
  assumes "spread_pct_fast bid ask = Some s"
  shows "unat s = (unat ask - unat bid) * 10000 div unat bid mod 4294967296"
proof -
  have lt: "unat bid < unat ask" and s: "s = ucast ((ucast (ask - bid) * 10000) div (ucast bid :: 64 word))"
    using assms by (auto simp: spread_pct_fast_def Let_def word_less_nat_alt word_le_nat_alt split: if_splits)
  have sub: "unat (ask - bid) = unat ask - unat bid"
    using lt by (simp add: unat_sub_if_size)
  have "(unat ask - unat bid) * 10000 < 18446744073709551616"
    using unat_price_less [of ask] by linarith
  then have "unat ((ucast (ask - bid) * 10000) div (ucast bid :: 64 word)) = (unat ask - unat bid) * 10000 div unat bid"
    by (simp add: unat_div unat_word_ariths sub)
  then show ?thesis unfolding s by (simp add: unsigned_ucast_eq take_bit_eq_mod)
qed

section \<open>Properties of the arithmetic\<close>

text \<open>Rounding to the tick, with the wrap-around of 32-bit prices: unless price plus half a tick passes
  the largest price, the result is a multiple of the tick at most half a tick away from the price; the
  largest price itself rounds to zero on a tick of ten.\<close>

theorem rounding_nearest_unless_wrapped:
  "(tick = 0 \<or> unat p + unat tick div 2 \<ge> 2 ^ 32 \<or>
     (unat tick dvd unat (round_to_tick_fast p tick) \<and>
      2 * \<bar>int (unat (round_to_tick_fast p tick)) - int (unat p)\<bar> \<le> int (unat tick))) \<and>
   round_to_tick_fast max_price_ticks 10 = 0"
proof -
  have "unat tick dvd unat (round_to_tick_fast p tick) \<and>
      2 * \<bar>int (unat (round_to_tick_fast p tick)) - int (unat p)\<bar> \<le> int (unat tick)"
    if t: "tick \<noteq> 0" and b: "unat p + unat tick div 2 < 4294967296"
  proof -
    have "0 < unat tick" using t by (simp add: unat_gt_0)
    note r = round_nearest [OF this, of "unat p"]
    show ?thesis unfolding round_to_tick_value [OF t b] using r(1) close_int [OF r(2,3)] by blast
  qed
  moreover have "round_to_tick_fast max_price_ticks 10 = 0"
    by (simp add: round_to_tick_fast_def max_price_ticks_def Let_def)
  ultimately show ?thesis by (auto simp: not_less)
qed

text \<open>The relative spread is in basis points of the bid, rounded down, modulo $2^{32}$: exact while the
  spread is less than 429496 times the bid, and truncated beyond: a bid of one tick against the largest
  price reports 4294947296 basis points where the spread is 42949672940000.\<close>

theorem spread_pct_exact_unless_truncated:
  assumes "spread_pct_fast bid ask = Some s"
  shows "unat s = (unat ask - unat bid) * 10000 div unat bid mod 2 ^ 32 \<and>
    ((unat ask - unat bid) \<ge> 429496 * unat bid \<or> unat s = (unat ask - unat bid) * 10000 div unat bid) \<and>
    spread_pct_fast 1 max_price_ticks = Some 4294947296"
proof -
  have "spread_pct_fast 1 max_price_ticks = Some 4294947296"
    by (simp add: spread_pct_fast_def max_price_ticks_def Let_def word_le_nat_alt
      unsigned_minus_1_eq_mask mask_eq_exp_minus_1)
  note v = spread_pct_value [OF assms]
  have "(unat ask - unat bid) * 10000 div unat bid < 4294967296" if "unat ask - unat bid < 429496 * unat bid"
    using that by (intro less_mult_imp_div_less) linarith
  then have "unat ask - unat bid \<ge> 429496 * unat bid \<or> unat s = (unat ask - unat bid) * 10000 div unat bid"
    unfolding v by (cases "unat ask - unat bid < 429496 * unat bid") simp_all
  with v \<open>spread_pct_fast 1 _ = _\<close> show ?thesis by simp
qed

theorem spread_pct_exact_unless_truncated_witness:
  "spread_pct_fast 6500 6700 = Some 307 \<and> unat (307 :: price) = (6700 - 6500) * 10000 div 6500"
proof -
  have "spread_pct_fast 6500 6700 = Some 307"
    by (simp add: spread_pct_fast_def Let_def)
  with spread_pct_exact_unless_truncated [OF this] show ?thesis by simp
qed

lemma sint_range: "- 9223372036854775808 \<le> sint (n :: qty)" "sint (n :: qty) < 9223372036854775808"
  using sint_ge [of n] sint_lt [of n] by simp_all

text \<open>Quantities are checked by their wrapping absolute value: what \<open>decimal_to_qty\<close> accepts lies within
  the maximum on both sides, except the smallest 64-bit integer, whose absolute value is negative and which
  it accepts.\<close>

theorem quantity_bounded_but_smallest:
  "(decimal_to_qty scaled d = Ok q \<longleftrightarrow>
      scaled d = Some q \<and> (\<bar>sint q\<bar> \<le> sint max_qty \<or> sint q = - (2 ^ 63)))"
proof -
  have "sint (abs_i64 n) = (if sint n = - 9223372036854775808 then sint n else \<bar>sint n\<bar>)" for n
    using sint_range [of n] by (auto simp: abs_i64_def sint_word_minus signed_take_bit_int_eq_self_iff)
  then show ?thesis
    by (auto simp: decimal_to_qty_def max_qty_def split: option.splits)
qed

text \<open>The example in the comment of \<open>notional_fast\<close> is off by a factor of ten thousand.\<close>

lemma notional_example: "notional_fast 6543 1000000 = 654300"
  by (simp add: notional_fast_def div_i64_def scale_factor_def)

end
