(* ===== verification/Book.thy ===== *)
theory Book
  imports Sorted_Map Machine Ticks
begin

text \<open>
  The order book of the client library, \<open>polyfill-rs/src/book.rs\<close>: the book, its deltas
  (\<open>types.rs\<close>) and the manager of books.  The decimal type of the public interface and the hash of a
  token id are third-party code: the functions that touch them take what they call as arguments (\<open>pd\<close>
  and \<open>qd\<close> from ticks and units, \<open>scaled\<close> to 64 bits, \<open>hash\<close>).
\<close>

datatype poly_side = BUY | SELL

datatype book_error = ValidationError string | TokenNotFound string

section \<open>Deltas and the book\<close>

record 'd order_delta =
  od_token_id :: string
  od_timestamp :: timestamp
  od_side :: poly_side
  od_price :: 'd
  od_size :: 'd
  od_sequence :: "64 word"

record fast_delta =
  fd_token_id_hash :: "64 word"
  fd_timestamp :: timestamp
  fd_side :: poly_side
  fd_price :: price
  fd_size :: qty
  fd_sequence :: "64 word"

definition from_order_delta :: "(string \<Rightarrow> 64 word) \<Rightarrow> ('d \<Rightarrow> 64 word option) \<Rightarrow> ('d \<Rightarrow> 64 word option) \<Rightarrow>
    'd order_delta \<Rightarrow> 'd option \<Rightarrow> string + fast_delta" where
  "from_order_delta hash pscaled qscaled d tick =
     (if (case tick of None \<Rightarrow> False | Some t \<Rightarrow> \<not> is_price_tick_aligned pscaled (od_price d) t)
      then Err ''Price not aligned to tick size''
      else (case decimal_to_price pscaled (od_price d) of Inl e \<Rightarrow> Err e
        | Inr p \<Rightarrow> (case decimal_to_qty qscaled (od_size d) of Inl e \<Rightarrow> Err e
          | Inr q \<Rightarrow> Ok \<lparr>fd_token_id_hash = hash (od_token_id d), fd_timestamp = od_timestamp d,
              fd_side = od_side d, fd_price = p, fd_size = q, fd_sequence = od_sequence d\<rparr>)))"

definition is_removal :: "fast_delta \<Rightarrow> bool" where
  "is_removal d \<longleftrightarrow> fd_size d = 0"

record lob =
  ob_token_id :: string
  ob_token_id_hash :: "64 word"
  ob_sequence :: "64 word"
  ob_timestamp :: timestamp
  ob_bids :: "(price, qty) smap"
  ob_asks :: "(price, qty) smap"
  ob_tick_size_ticks :: "price option"
  ob_max_depth :: nat

definition lob_new :: "(string \<Rightarrow> 64 word) \<Rightarrow> timestamp \<Rightarrow> string \<Rightarrow> nat \<Rightarrow> lob" where
  "lob_new hash now token depth =
     \<lparr>ob_token_id = token, ob_token_id_hash = hash token, ob_sequence = 0, ob_timestamp = now,
      ob_bids = [], ob_asks = [], ob_tick_size_ticks = None, ob_max_depth = depth\<rparr>"

definition lob_clear :: "lob \<Rightarrow> lob" where
  "lob_clear b = b\<lparr>ob_bids := [], ob_asks := []\<rparr>"

definition set_tick_size_ticks :: "lob \<Rightarrow> price \<Rightarrow> lob" where
  "set_tick_size_ticks b t = b\<lparr>ob_tick_size_ticks := Some t\<rparr>"

definition set_tick_size :: "('d \<Rightarrow> 64 word option) \<Rightarrow> lob \<Rightarrow> 'd \<Rightarrow> lob \<times> (book_error + unit)" where
  "set_tick_size scaled b d =
     (case decimal_to_price scaled d of
        Inl e \<Rightarrow> (b, Err (ValidationError ''Invalid tick size''))
      | Inr t \<Rightarrow> (set_tick_size_ticks b t, Ok ()))"

section \<open>Reading the book\<close>

text \<open>\<open>next_back\<close> of the bids and \<open>next\<close> of the asks; the levels from the best price on.\<close>

definition bids_desc :: "lob \<Rightarrow> (price \<times> qty) list" where
  "bids_desc b = rev (ob_bids b)"

definition first_of :: "'a list \<Rightarrow> 'a option" where
  "first_of xs = (case xs of [] \<Rightarrow> None | x # rest \<Rightarrow> Some x)"

definition best_bid_fast :: "lob \<Rightarrow> (price \<times> qty) option" where
  "best_bid_fast b = first_of (bids_desc b)"

definition best_ask_fast :: "lob \<Rightarrow> (price \<times> qty) option" where
  "best_ask_fast b = first_of (ob_asks b)"

definition to_level :: "(price \<Rightarrow> 'd) \<Rightarrow> (qty \<Rightarrow> 'd) \<Rightarrow> price \<times> qty \<Rightarrow> 'd \<times> 'd" where
  "to_level pd qd l = (pd (fst l), qd (snd l))"

definition best_bid :: "(price \<Rightarrow> 'd) \<Rightarrow> (qty \<Rightarrow> 'd) \<Rightarrow> lob \<Rightarrow> ('d \<times> 'd) option" where
  "best_bid pd qd b = map_option (to_level pd qd) (first_of (bids_desc b))"

definition best_ask :: "(price \<Rightarrow> 'd) \<Rightarrow> (qty \<Rightarrow> 'd) \<Rightarrow> lob \<Rightarrow> ('d \<times> 'd) option" where
  "best_ask pd qd b = map_option (to_level pd qd) (first_of (ob_asks b))"

definition best_prices_fast :: "lob \<Rightarrow> (price \<times> price) option" where
  "best_prices_fast b =
     (case first_of (bids_desc b) of None \<Rightarrow> None
      | Some bid \<Rightarrow> (case first_of (ob_asks b) of None \<Rightarrow> None | Some ask \<Rightarrow> Some (fst bid, fst ask)))"

definition lob_spread_fast :: "lob \<Rightarrow> price option" where
  "lob_spread_fast b = (case best_prices_fast b of None \<Rightarrow> None | Some (bid, ask) \<Rightarrow> spread_fast bid ask)"

definition lob_mid_price_fast :: "lob \<Rightarrow> price option" where
  "lob_mid_price_fast b = (case best_prices_fast b of None \<Rightarrow> None | Some (bid, ask) \<Rightarrow> mid_price_fast bid ask)"

definition lob_spread :: "(price \<Rightarrow> 'd) \<Rightarrow> lob \<Rightarrow> 'd option" where
  "lob_spread pd b = map_option pd (lob_spread_fast b)"

definition lob_mid_price :: "(price \<Rightarrow> 'd) \<Rightarrow> lob \<Rightarrow> 'd option" where
  "lob_mid_price pd b = map_option pd (lob_mid_price_fast b)"

definition bids_fast :: "lob \<Rightarrow> nat option \<Rightarrow> (price \<times> qty) list" where
  "bids_fast b depth = take (unwrap_or depth (ob_max_depth b)) (bids_desc b)"

definition asks_fast :: "lob \<Rightarrow> nat option \<Rightarrow> (price \<times> qty) list" where
  "asks_fast b depth = take (unwrap_or depth (ob_max_depth b)) (ob_asks b)"

definition lob_bids :: "(price \<Rightarrow> 'd) \<Rightarrow> (qty \<Rightarrow> 'd) \<Rightarrow> lob \<Rightarrow> nat option \<Rightarrow> ('d \<times> 'd) list" where
  "lob_bids pd qd b depth = map (to_level pd qd) (take (unwrap_or depth (ob_max_depth b)) (bids_desc b))"

definition lob_asks :: "(price \<Rightarrow> 'd) \<Rightarrow> (qty \<Rightarrow> 'd) \<Rightarrow> lob \<Rightarrow> nat option \<Rightarrow> ('d \<times> 'd) list" where
  "lob_asks pd qd b depth = map (to_level pd qd) (take (unwrap_or depth (ob_max_depth b)) (ob_asks b))"

record 'd book_snapshot =
  bs_token_id :: string
  bs_timestamp :: timestamp
  bs_bids :: "('d \<times> 'd) list"
  bs_asks :: "('d \<times> 'd) list"
  bs_sequence :: "64 word"

definition lob_snapshot :: "(price \<Rightarrow> 'd) \<Rightarrow> (qty \<Rightarrow> 'd) \<Rightarrow> lob \<Rightarrow> 'd book_snapshot" where
  "lob_snapshot pd qd b = \<lparr>bs_token_id = ob_token_id b, bs_timestamp = ob_timestamp b,
     bs_bids = lob_bids pd qd b None, bs_asks = lob_asks pd qd b None, bs_sequence = ob_sequence b\<rparr>"

definition liquidity_at_price :: "('d \<Rightarrow> 64 word option) \<Rightarrow> (qty \<Rightarrow> 'd) \<Rightarrow> 'd \<Rightarrow> lob \<Rightarrow> 'd \<Rightarrow> poly_side \<Rightarrow> 'd" where
  "liquidity_at_price scaled qd zero b p side =
     (case decimal_to_price scaled p of Inl e \<Rightarrow> zero
      | Inr ticks \<Rightarrow> qd (unwrap_or (map_of (case side of BUY \<Rightarrow> ob_asks b | SELL \<Rightarrow> ob_bids b) ticks) 0))"

text \<open>\<open>BTreeMap::range\<close> panics on a range whose start lies after its end: \<open>None\<close>.\<close>

definition liquidity_in_range ::
  "('d \<Rightarrow> 64 word option) \<Rightarrow> (qty \<Rightarrow> 'd) \<Rightarrow> 'd \<Rightarrow> lob \<Rightarrow> 'd \<Rightarrow> 'd \<Rightarrow> poly_side \<Rightarrow> 'd option" where
  "liquidity_in_range scaled qd zero b lo hi side =
     (case decimal_to_price scaled lo of Inl e \<Rightarrow> Some zero
      | Inr lo_ticks \<Rightarrow> (case decimal_to_price scaled hi of Inl e \<Rightarrow> Some zero
        | Inr hi_ticks \<Rightarrow>
            if lo_ticks > hi_ticks then None
            else Some (qd (sum_list (map snd (case side of
                BUY \<Rightarrow> bt_range lo_ticks hi_ticks (ob_asks b)
              | SELL \<Rightarrow> rev (bt_range lo_ticks hi_ticks (ob_bids b))))))))"

definition lob_is_stale :: "timestamp \<Rightarrow> duration \<Rightarrow> lob \<Rightarrow> bool" where
  "lob_is_stale now max_age b \<longleftrightarrow> now - ob_timestamp b > max_age"

definition lob_is_valid :: "('d \<Rightarrow> 'd \<Rightarrow> bool) \<Rightarrow> (price \<Rightarrow> 'd) \<Rightarrow> (qty \<Rightarrow> 'd) \<Rightarrow> lob \<Rightarrow> bool" where
  "lob_is_valid lt pd qd b =
     (case (best_bid pd qd b, best_ask pd qd b) of
        (Some bid, Some ask) \<Rightarrow> lt (fst bid) (fst ask) | _ \<Rightarrow> True)"

section \<open>Applying deltas\<close>

definition apply_bid_delta_fast :: "lob \<Rightarrow> price \<Rightarrow> qty \<Rightarrow> lob" where
  "apply_bid_delta_fast b p q =
     (if q = 0 then b\<lparr>ob_bids := bt_remove p (ob_bids b)\<rparr>
      else b\<lparr>ob_bids := bt_insert p q (ob_bids b)\<rparr>)"

definition apply_ask_delta_fast :: "lob \<Rightarrow> price \<Rightarrow> qty \<Rightarrow> lob" where
  "apply_ask_delta_fast b p q =
     (if q = 0 then b\<lparr>ob_asks := bt_remove p (ob_asks b)\<rparr>
      else b\<lparr>ob_asks := bt_insert p q (ob_asks b)\<rparr>)"

definition trim_bids :: "nat \<Rightarrow> (price, qty) smap \<Rightarrow> (price, qty) smap" where
  "trim_bids n m = (if length m > n then (pop_first ^^ (length m - n)) m else m)"

definition trim_asks :: "nat \<Rightarrow> (price, qty) smap \<Rightarrow> (price, qty) smap" where
  "trim_asks n m = (if length m > n then (pop_last ^^ (length m - n)) m else m)"

definition trim_depth :: "lob \<Rightarrow> lob" where
  "trim_depth b = b\<lparr>ob_bids := trim_bids (ob_max_depth b) (ob_bids b),
     ob_asks := trim_asks (ob_max_depth b) (ob_asks b)\<rparr>"

definition misaligned :: "lob \<Rightarrow> price \<Rightarrow> bool" where
  "misaligned b p = (case ob_tick_size_ticks b of None \<Rightarrow> False | Some t \<Rightarrow> t > 0 \<and> p mod t \<noteq> 0)"

definition apply_delta_fast :: "lob \<Rightarrow> fast_delta \<Rightarrow> lob \<times> (book_error + unit)" where
  "apply_delta_fast b d =
     (if fd_sequence d \<le> ob_sequence b then (b, Ok ())
      else if fd_token_id_hash d \<noteq> ob_token_id_hash b then (b, Err (ValidationError ''Token ID mismatch''))
      else if misaligned b (fd_price d) then (b, Err (ValidationError ''Price not aligned to tick size''))
      else let b1 = b\<lparr>ob_sequence := fd_sequence d, ob_timestamp := fd_timestamp d\<rparr>;
        b2 = (case fd_side d of
            BUY \<Rightarrow> apply_bid_delta_fast b1 (fd_price d) (fd_size d)
          | SELL \<Rightarrow> apply_ask_delta_fast b1 (fd_price d) (fd_size d))
      in (trim_depth b2, Ok ()))"

definition apply_delta :: "(string \<Rightarrow> 64 word) \<Rightarrow> ('d \<Rightarrow> 64 word option) \<Rightarrow> ('d \<Rightarrow> 64 word option) \<Rightarrow>
    (price \<Rightarrow> 'd) \<Rightarrow> lob \<Rightarrow> 'd order_delta \<Rightarrow> lob \<times> (book_error + unit)" where
  "apply_delta hash pscaled qscaled pd b d =
     (case from_order_delta hash pscaled qscaled d (map_option pd (ob_tick_size_ticks b)) of
        Inl e \<Rightarrow> (b, Err (ValidationError (''Invalid delta: '' @ e)))
      | Inr fd \<Rightarrow> apply_delta_fast b fd)"

section \<open>The manager\<close>

record book_manager =
  bm_books :: "(string, lob) hmap"
  bm_max_depth :: nat

definition bm_new :: "nat \<Rightarrow> book_manager" where
  "bm_new depth = \<lparr>bm_books = [], bm_max_depth = depth\<rparr>"

definition get_or_create_book ::
  "(string \<Rightarrow> 64 word) \<Rightarrow> timestamp \<Rightarrow> book_manager \<Rightarrow> string \<Rightarrow> book_manager \<times> lob" where
  "get_or_create_book hash now m token =
     (case hget (bm_books m) token of
        Some b \<Rightarrow> (m, b)
      | None \<Rightarrow> let b = lob_new hash now token (bm_max_depth m)
          in (m\<lparr>bm_books := hput token b (bm_books m)\<rparr>, b))"

definition bm_apply_delta :: "(string \<Rightarrow> 64 word) \<Rightarrow> ('d \<Rightarrow> 64 word option) \<Rightarrow> ('d \<Rightarrow> 64 word option) \<Rightarrow>
    (price \<Rightarrow> 'd) \<Rightarrow> book_manager \<Rightarrow> 'd order_delta \<Rightarrow> book_manager \<times> (book_error + unit)" where
  "bm_apply_delta hash pscaled qscaled pd m d =
     (case hget (bm_books m) (od_token_id d) of
        None \<Rightarrow> (m, Err (TokenNotFound (''No book found for token: '' @ od_token_id d)))
      | Some b \<Rightarrow> (case apply_delta hash pscaled qscaled pd b d of
          (b', r) \<Rightarrow> (m\<lparr>bm_books := hput (od_token_id d) b' (bm_books m)\<rparr>, r)))"

definition bm_get_book ::
  "(price \<Rightarrow> 'd) \<Rightarrow> (qty \<Rightarrow> 'd) \<Rightarrow> book_manager \<Rightarrow> string \<Rightarrow> book_error + 'd book_snapshot" where
  "bm_get_book pd qd m token =
     (case hget (bm_books m) token of
        None \<Rightarrow> Err (TokenNotFound (''No book found for token: '' @ token))
      | Some b \<Rightarrow> Ok (lob_snapshot pd qd b))"

definition get_all_books :: "(price \<Rightarrow> 'd) \<Rightarrow> (qty \<Rightarrow> 'd) \<Rightarrow> book_manager \<Rightarrow> 'd book_snapshot list" where
  "get_all_books pd qd m = map (lob_snapshot pd qd) (hvals (bm_books m))"

definition cleanup_stale_books :: "timestamp \<Rightarrow> duration \<Rightarrow> book_manager \<Rightarrow> book_manager \<times> nat" where
  "cleanup_stale_books now max_age m =
     (let kept = filter (\<lambda>(t, b). \<not> lob_is_stale now max_age b) (bm_books m)
      in (m\<lparr>bm_books := kept\<rparr>, length (bm_books m) - length kept))"

section \<open>The two sides\<close>

lemma trim_bids_drop: "trim_bids n m = drop (length m - n) m"
  by (simp add: trim_bids_def pop_first_n)

lemma trim_asks_take: "trim_asks n m = take n m"
  by (simp add: trim_asks_def pop_last_n)

interpretation bids: best_first rev trim_bids "(>)"
proof
  show "rev (trim_bids n m) = take n (rev m)" for n m
    by (cases "n \<le> length m") (simp_all add: trim_bids_drop rev_drop)
qed (auto simp: trim_bids_drop bt_wf_def [of m for m] rev_map [symmetric] sorted_wrt_rev
  intro: bt_wf_drop [unfolded bt_wf_def])

interpretation asks: best_first "\<lambda>m. m" trim_asks "(<)"
  by unfold_locales (auto simp: trim_asks_take bt_wf_def intro: bt_wf_take [unfolded bt_wf_def])

definition side_update :: "('k::linorder, qty) smap \<Rightarrow> 'k \<Rightarrow> qty \<Rightarrow> ('k, qty) smap" where
  "side_update m p q = (if q = 0 then bt_remove p m else bt_insert p q m)"

definition level_map :: "('k \<rightharpoonup> qty) \<Rightarrow> 'k \<Rightarrow> qty \<Rightarrow> 'k \<rightharpoonup> qty" where
  "level_map m p q = m(p := if q = 0 then None else Some q)"

lemma side_update_get: "bt_wf m \<Longrightarrow> map_of (side_update m p q) = level_map (map_of m) p q"
  by (simp add: side_update_def level_map_def)

lemma side_update_wf: "bt_wf m \<Longrightarrow> bt_wf (side_update m p q)"
  by (simp add: side_update_def)

lemma side_update_set: "set (side_update m p q) \<subseteq> (if q = 0 then {} else {(p, q)}) \<union> set m"
  using set_bt_insert [of p q m] set_bt_remove [of p m] by (auto simp: side_update_def)

lemma length_bt_remove: "length (bt_remove k m) \<le> length m"
  by (induction k m rule: bt_remove.induct) auto

lemma length_bt_insert: "length (bt_insert k v m) \<le> Suc (length m)"
  by (induction k v m rule: bt_insert.induct) auto

lemma side_update_length: "length (side_update m p q) \<le> Suc (length m)"
  using length_bt_remove [of p m] length_bt_insert [of p q m] by (auto simp: side_update_def)

section \<open>One delta\<close>

definition accepts :: "lob \<Rightarrow> fast_delta \<Rightarrow> bool" where
  "accepts b d \<longleftrightarrow> ob_sequence b < fd_sequence d \<and> fd_token_id_hash d = ob_token_id_hash b \<and>
     \<not> misaligned b (fd_price d)"

abbreviation delta_step :: "lob \<Rightarrow> fast_delta \<Rightarrow> lob" where
  "delta_step b d \<equiv> fst (apply_delta_fast b d)"

lemma delta_rejected: "\<not> accepts b d \<Longrightarrow> delta_step b d = b"
  by (auto simp: accepts_def apply_delta_fast_def)

lemma delta_accepted:
  assumes "accepts b d"
  shows "delta_step b d = b\<lparr>ob_sequence := fd_sequence d, ob_timestamp := fd_timestamp d,
    ob_bids := trim_bids (ob_max_depth b) (if fd_side d = BUY then side_update (ob_bids b) (fd_price d) (fd_size d) else ob_bids b),
    ob_asks := trim_asks (ob_max_depth b) (if fd_side d = SELL then side_update (ob_asks b) (fd_price d) (fd_size d) else ob_asks b)\<rparr>"
  using assms by (cases "fd_side d") (auto simp: accepts_def apply_delta_fast_def trim_depth_def
    apply_bid_delta_fast_def apply_ask_delta_fast_def side_update_def Let_def not_le)

definition lob_level_ok :: "lob \<Rightarrow> price \<times> qty \<Rightarrow> bool" where
  "lob_level_ok b l \<longleftrightarrow> snd l \<noteq> 0 \<and> \<not> misaligned b (fst l)"

definition lob_wf :: "lob \<Rightarrow> bool" where
  "lob_wf b \<longleftrightarrow> bt_wf (ob_bids b) \<and> bt_wf (ob_asks b) \<and>
     length (ob_bids b) \<le> ob_max_depth b \<and> length (ob_asks b) \<le> ob_max_depth b \<and>
     (\<forall>l \<in> set (ob_bids b) \<union> set (ob_asks b). lob_level_ok b l)"

lemma delta_step_frame [simp]:
  "ob_max_depth (delta_step b d) = ob_max_depth b" "ob_token_id (delta_step b d) = ob_token_id b"
  "ob_tick_size_ticks (delta_step b d) = ob_tick_size_ticks b"
  "ob_token_id_hash (delta_step b d) = ob_token_id_hash b"
  by (cases "accepts b d"; simp add: delta_accepted delta_rejected)+

lemma lob_level_ok_step [simp]: "lob_level_ok (delta_step b d) = lob_level_ok b"
  by (simp add: lob_level_ok_def [abs_def] misaligned_def)

lemma side_update_levels:
  assumes "accepts b d" "\<forall>l \<in> set m. lob_level_ok b l"
  shows "\<forall>l \<in> set (side_update m (fd_price d) (fd_size d)). lob_level_ok b l"
  using assms side_update_set [of m "fd_price d" "fd_size d"]
  by (fastforce simp: accepts_def lob_level_ok_def split: if_splits)

lemma lob_wf_step: "lob_wf b \<Longrightarrow> lob_wf (delta_step b d)"
proof (cases "accepts b d")
  case True
  assume wf: "lob_wf b"
  let ?B = "if fd_side d = BUY then side_update (ob_bids b) (fd_price d) (fd_size d) else ob_bids b"
  let ?A = "if fd_side d = SELL then side_update (ob_asks b) (fd_price d) (fd_size d) else ob_asks b"
  have w: "bt_wf ?B" "bt_wf ?A" using wf by (auto simp: lob_wf_def side_update_wf)
  have lv: "\<forall>l \<in> set ?B. lob_level_ok b l" "\<forall>l \<in> set ?A. lob_level_ok b l"
    using wf side_update_levels [OF True] by (auto simp: lob_wf_def)
  have e: "ob_bids (delta_step b d) = trim_bids (ob_max_depth b) ?B"
    "ob_asks (delta_step b d) = trim_asks (ob_max_depth b) ?A"
    by (simp_all add: delta_accepted [OF True])
  show ?thesis
    using bids.trim_wf [OF w(1)] asks.trim_wf [OF w(2)] lv bids.trim_subset [of "ob_max_depth b" ?B]
      asks.trim_subset [of "ob_max_depth b" ?A]
    unfolding lob_wf_def lob_level_ok_step delta_step_frame e
    by (auto simp: bids.trim_length asks.trim_length subset_iff)
qed (simp add: delta_rejected)

lemma delta_step_sequence: "ob_sequence b \<le> ob_sequence (delta_step b d)"
  by (cases "accepts b d") (auto simp: delta_accepted delta_rejected accepts_def)

interpretation lob: progress_machine delta_step "\<lambda>_. True" lob_wf "\<lambda>b b'. ob_sequence b \<le> ob_sequence b'"
  by unfold_locales (auto intro: lob_wf_step delta_step_sequence order_trans)

section \<open>The specification: a book without a depth limit\<close>

record book_spec =
  sp_sequence :: "64 word"
  sp_bids :: "price \<rightharpoonup> qty"
  sp_asks :: "price \<rightharpoonup> qty"

definition spec_step :: "64 word \<Rightarrow> (price \<Rightarrow> bool) \<Rightarrow> book_spec \<Rightarrow> fast_delta \<Rightarrow> book_spec" where
  "spec_step hash bad sp d =
     (if sp_sequence sp < fd_sequence d \<and> fd_token_id_hash d = hash \<and> \<not> bad (fd_price d)
      then (case fd_side d of
          BUY \<Rightarrow> sp\<lparr>sp_sequence := fd_sequence d, sp_bids := level_map (sp_bids sp) (fd_price d) (fd_size d)\<rparr>
        | SELL \<Rightarrow> sp\<lparr>sp_sequence := fd_sequence d, sp_asks := level_map (sp_asks sp) (fd_price d) (fd_size d)\<rparr>)
      else sp)"

definition spec_of :: "lob \<Rightarrow> book_spec" where
  "spec_of b = \<lparr>sp_sequence = ob_sequence b, sp_bids = map_of (ob_bids b), sp_asks = map_of (ob_asks b)\<rparr>"

definition sound :: "lob \<Rightarrow> book_spec \<Rightarrow> bool" where
  "sound b sp \<longleftrightarrow> sp_sequence sp = ob_sequence b \<and> map_of (ob_bids b) \<subseteq>\<^sub>m sp_bids sp \<and> map_of (ob_asks b) \<subseteq>\<^sub>m sp_asks sp"

lemma level_map_le: "m \<subseteq>\<^sub>m m' \<Longrightarrow> level_map m p q \<subseteq>\<^sub>m level_map m' p q"
  by (simp add: level_map_def map_le_upd)

lemma sound_step:
  assumes "lob_wf b" "sound b sp"
  shows "sound (delta_step b d) (spec_step (ob_token_id_hash b) (misaligned b) sp d)"
proof (cases "accepts b d")
  case True
  have w: "bt_wf (ob_bids b)" "bt_wf (ob_asks b)" using assms(1) by (simp_all add: lob_wf_def)
  have "map_of (trim_bids n (side_update (ob_bids b) p q)) \<subseteq>\<^sub>m level_map (sp_bids sp) p q"
    "map_of (trim_bids n (ob_bids b)) \<subseteq>\<^sub>m sp_bids sp" for n p q
    using bids.trim_le [OF side_update_wf [OF w(1), of p q], of n] bids.trim_le [OF w(1), of n]
      level_map_le [of "map_of (ob_bids b)" "sp_bids sp" p q] assms(2)
    by (auto simp: sound_def side_update_get [OF w(1)] intro: map_le_trans)
  moreover have "map_of (trim_asks n (side_update (ob_asks b) p q)) \<subseteq>\<^sub>m level_map (sp_asks sp) p q"
    "map_of (trim_asks n (ob_asks b)) \<subseteq>\<^sub>m sp_asks sp" for n p q
    using asks.trim_le [OF side_update_wf [OF w(2), of p q], of n] asks.trim_le [OF w(2), of n]
      level_map_le [of "map_of (ob_asks b)" "sp_asks sp" p q] assms(2)
    by (auto simp: sound_def side_update_get [OF w(2)] intro: map_le_trans)
  ultimately show ?thesis
    using True assms(2) by (cases "fd_side d") (simp_all add: sound_def delta_accepted spec_step_def accepts_def)
next
  case False
  with assms(2) show ?thesis by (auto simp: delta_rejected spec_step_def accepts_def sound_def)
qed

definition run_spec :: "lob \<Rightarrow> fast_delta list \<Rightarrow> book_spec" where
  "run_spec b ds = foldl (spec_step (ob_token_id_hash b) (misaligned b)) (spec_of b) ds"

lemma misaligned_step [simp]: "misaligned (delta_step b d) = misaligned b"
  by (simp add: misaligned_def [abs_def])

lemma sound_run:
  "lob_wf b \<Longrightarrow> sound b sp \<Longrightarrow>
   sound (foldl delta_step b ds) (foldl (spec_step (ob_token_id_hash b) (misaligned b)) sp ds)"
proof (induction ds arbitrary: b sp)
  case (Cons d ds)
  from Cons.IH [OF lob_wf_step [OF Cons.prems(1)] sound_step [OF Cons.prems], of d]
  show ?case by simp
qed simp

lemma exact_step:
  assumes "lob_wf b" "length (ob_bids b) < ob_max_depth b" "length (ob_asks b) < ob_max_depth b"
  shows "spec_of (delta_step b d) = spec_step (ob_token_id_hash b) (misaligned b) (spec_of b) d"
    "length (ob_bids (delta_step b d)) \<le> Suc (length (ob_bids b))"
    "length (ob_asks (delta_step b d)) \<le> Suc (length (ob_asks b))"
proof -
  have w: "bt_wf (ob_bids b)" "bt_wf (ob_asks b)" using assms(1) by (simp_all add: lob_wf_def)
  have l: "length (side_update (ob_bids b) p q) \<le> ob_max_depth b"
    "length (side_update (ob_asks b) p q) \<le> ob_max_depth b" for p q
    using side_update_length [of "ob_bids b" p q] side_update_length [of "ob_asks b" p q] assms(2,3)
    by linarith+
  have t: "trim_bids (ob_max_depth b) m = m" "trim_asks (ob_max_depth b) m = m" if "length m \<le> ob_max_depth b" for m
    using that by (simp_all add: trim_bids_drop trim_asks_take)
  show "spec_of (delta_step b d) = spec_step (ob_token_id_hash b) (misaligned b) (spec_of b) d"
  proof (cases "accepts b d")
    case True
    then show ?thesis using assms(2,3)
      by (cases "fd_side d") (simp_all add: spec_of_def spec_step_def delta_accepted accepts_def t l
        side_update_get w)
  qed (auto simp: delta_rejected spec_step_def spec_of_def accepts_def)
  have s: "length (trim_bids n (side_update (ob_bids b) p q)) \<le> Suc (length (ob_bids b))"
    "length (trim_asks n (side_update (ob_asks b) p q)) \<le> Suc (length (ob_asks b))"
    "length (trim_bids n (ob_bids b)) \<le> Suc (length (ob_bids b))"
    "length (trim_asks n (ob_asks b)) \<le> Suc (length (ob_asks b))" for n p q
    using side_update_length [of "ob_bids b" p q] side_update_length [of "ob_asks b" p q]
    by (simp_all add: bids.trim_length asks.trim_length min.coboundedI2)
  show "length (ob_bids (delta_step b d)) \<le> Suc (length (ob_bids b))"
    using s(1) [of "ob_max_depth b" "fd_price d" "fd_size d"] s(3) [of "ob_max_depth b"]
    by (cases "accepts b d") (simp_all add: delta_accepted delta_rejected)
  show "length (ob_asks (delta_step b d)) \<le> Suc (length (ob_asks b))"
    using s(2) [of "ob_max_depth b" "fd_price d" "fd_size d"] s(4) [of "ob_max_depth b"]
    by (cases "accepts b d") (simp_all add: delta_accepted delta_rejected)
qed

lemma exact_run:
  "lob_wf b \<Longrightarrow> length (ob_bids b) + length ds \<le> ob_max_depth b \<Longrightarrow>
   length (ob_asks b) + length ds \<le> ob_max_depth b \<Longrightarrow>
   spec_of (foldl delta_step b ds) = run_spec b ds"
proof (induction ds arbitrary: b)
  case (Cons d ds)
  have lt: "length (ob_bids b) < ob_max_depth b" "length (ob_asks b) < ob_max_depth b"
    using Cons.prems by simp_all
  note e = exact_step [OF Cons.prems(1) lt, of d]
  have "spec_of (foldl delta_step (delta_step b d) ds) = run_spec (delta_step b d) ds"
    using e(2,3) Cons.prems by (intro Cons.IH lob_wf_step) auto
  then show ?case by (simp add: run_spec_def e(1))
qed (simp add: run_spec_def)

definition lob_start :: "lob \<Rightarrow> bool" where
  "lob_start b \<longleftrightarrow> ob_bids b = [] \<and> ob_asks b = []"

lemma lob_start_wf: "lob_start b \<Longrightarrow> lob_wf b"
  by (simp add: lob_start_def lob_wf_def)

lemma first_of_Some: "first_of xs = Some x \<longleftrightarrow> (\<exists>ys. xs = x # ys)"
  by (cases xs) (simp_all add: first_of_def)

lemma best_bid_iff:
  assumes "lob_wf b"
  shows "best_bid_fast b = Some (p, q) \<longleftrightarrow>
    map_of (ob_bids b) p = Some q \<and> dom (map_of (ob_bids b)) \<subseteq> {..p}"
proof -
  have w: "bt_wf (ob_bids b)" "distinct (map fst (ob_bids b))"
    using assms bt_wf_distinct by (auto simp: lob_wf_def)
  show ?thesis
  proof
    assume "best_bid_fast b = Some (p, q)"
    then obtain ys where ys: "rev (ob_bids b) = (p, q) # ys"
      by (auto simp: best_bid_fast_def bids_desc_def first_of_Some)
    then have "(p, q) \<in> set (ob_bids b)" by (metis list.set_intros(1) set_rev)
    moreover have "fst x \<le> p" if "x \<in> set (ob_bids b)" for x
      using bids.best_is_best [OF w(1) ys that] by (cases "fst x = p") auto
    ultimately show "map_of (ob_bids b) p = Some q \<and> dom (map_of (ob_bids b)) \<subseteq> {..p}"
      using w(2) by (auto simp: dom_map_of_conv_image_fst)
  next
    assume a: "map_of (ob_bids b) p = Some q \<and> dom (map_of (ob_bids b)) \<subseteq> {..p}"
    then have m: "(p, q) \<in> set (ob_bids b)" by (auto dest: map_of_SomeD)
    then obtain x ys where ys: "rev (ob_bids b) = x # ys" by (cases "rev (ob_bids b)") auto
    have "x \<in> set (ob_bids b)" using ys by (metis list.set_intros(1) set_rev)
    then have "fst x \<le> p" using a by (auto simp: dom_map_of_conv_image_fst)
    with bids.best_is_best [OF w(1) ys m] have "fst x = p" by fastforce
    with \<open>x \<in> set (ob_bids b)\<close> m w(2) have "x = (p, q)" by (metis eq_key_imp_eq_value prod.collapse)
    with ys show "best_bid_fast b = Some (p, q)" by (simp add: best_bid_fast_def bids_desc_def first_of_def)
  qed
qed

lemma best_ask_iff:
  assumes "lob_wf b"
  shows "best_ask_fast b = Some (p, q) \<longleftrightarrow>
    map_of (ob_asks b) p = Some q \<and> dom (map_of (ob_asks b)) \<subseteq> {p..}"
proof -
  have w: "bt_wf (ob_asks b)" "distinct (map fst (ob_asks b))"
    using assms bt_wf_distinct by (auto simp: lob_wf_def)
  show ?thesis
  proof
    assume "best_ask_fast b = Some (p, q)"
    then obtain ys where ys: "ob_asks b = (p, q) # ys"
      by (auto simp: best_ask_fast_def first_of_Some)
    moreover have "p \<le> fst x" if "x \<in> set (ob_asks b)" for x
      using asks.best_is_best [OF w(1) ys that] by (cases "fst x = p") auto
    ultimately show "map_of (ob_asks b) p = Some q \<and> dom (map_of (ob_asks b)) \<subseteq> {p..}"
      using w(2) by (auto simp: dom_map_of_conv_image_fst)
  next
    assume a: "map_of (ob_asks b) p = Some q \<and> dom (map_of (ob_asks b)) \<subseteq> {p..}"
    then have m: "(p, q) \<in> set (ob_asks b)" by (auto dest: map_of_SomeD)
    then obtain x ys where ys: "ob_asks b = x # ys" by (cases "ob_asks b") auto
    then have "x \<in> set (ob_asks b)" by simp
    then have "p \<le> fst x" using a by (auto simp: dom_map_of_conv_image_fst)
    with asks.best_is_best [OF w(1) ys m] have "fst x = p" by fastforce
    with \<open>x \<in> set (ob_asks b)\<close> m w(2) have "x = (p, q)" by (metis eq_key_imp_eq_value prod.collapse)
    with ys show "best_ask_fast b = Some (p, q)" by (simp add: best_ask_fast_def first_of_def)
  qed
qed

section \<open>Properties\<close>

text \<open>Over any deltas, accepted, late, foreign or misaligned, both sides of the book stay sorted by price
  without duplicates, within the depth limit, free of empty levels and aligned to the tick size, and the
  sequence number never falls.\<close>

theorem book_invariant:
  assumes "lob_start b"
  shows "lob_wf (foldl delta_step b ds) \<and> ob_sequence b \<le> ob_sequence (foldl delta_step b ds)"
  using lob.run_inv [of b ds] lob.run_le [of b ds] lob_start_wf [OF assms] by (simp add: list_all_iff)

definition demo_lob :: lob where
  "demo_lob = set_tick_size_ticks (lob_new (\<lambda>t. 7) 0 ''T'' 1) 10"

definition demo_delta :: "poly_side \<Rightarrow> price \<Rightarrow> qty \<Rightarrow> 64 word \<Rightarrow> fast_delta" where
  "demo_delta side p q n = \<lparr>fd_token_id_hash = 7, fd_timestamp = 1, fd_side = side, fd_price = p,
     fd_size = q, fd_sequence = n\<rparr>"

lemma demo_lob_start: "lob_start demo_lob"
  by (simp add: demo_lob_def lob_start_def lob_new_def set_tick_size_ticks_def)

theorem book_invariant_witness:
  "lob_wf (foldl delta_step demo_lob [demo_delta BUY 100 5 1, demo_delta BUY 105 5 2])"
  using book_invariant [OF demo_lob_start] by blast

text \<open>C40. The book is right: it shows no level that a book without a depth limit would not show with the
  same size, and while no more deltas have come than the book is deep it shows exactly the levels
  of that book.\<close>

theorem book_refines_unlimited:
  assumes "lob_start b"
  shows "sound (foldl delta_step b ds) (run_spec b ds) \<and>
    (length ds > ob_max_depth b \<or> spec_of (foldl delta_step b ds) = run_spec b ds)"
proof -
  note wf = lob_start_wf [OF assms]
  have "sound b (spec_of b)" by (simp add: sound_def spec_of_def)
  then have "sound (foldl delta_step b ds) (run_spec b ds)"
    unfolding run_spec_def by (rule sound_run [OF wf])
  moreover have "spec_of (foldl delta_step b ds) = run_spec b ds" if "length ds \<le> ob_max_depth b"
    using that assms by (intro exact_run [OF wf]) (simp_all add: lob_start_def)
  ultimately show ?thesis by linarith
qed

theorem book_refines_unlimited_witness:
  "spec_of (foldl delta_step demo_lob [demo_delta BUY 100 5 1]) = run_spec demo_lob [demo_delta BUY 100 5 1]"
  using book_refines_unlimited [OF demo_lob_start, of "[demo_delta BUY 100 5 1]"]
  by (simp add: demo_lob_def lob_new_def set_tick_size_ticks_def)

text \<open>The best prices are best: in a well-formed book \<open>best_bid_fast\<close> is the level with the highest
  bid price and \<open>best_ask_fast\<close> the one with the lowest ask price.\<close>

theorem best_prices_are_best:
  assumes "lob_wf b"
  shows "(best_bid_fast b = Some (p, q) \<longleftrightarrow>
      map_of (ob_bids b) p = Some q \<and> dom (map_of (ob_bids b)) \<subseteq> {..p}) \<and>
    (best_ask_fast b = Some (p, q) \<longleftrightarrow>
      map_of (ob_asks b) p = Some q \<and> dom (map_of (ob_asks b)) \<subseteq> {p..})"
  using best_bid_iff [OF assms] best_ask_iff [OF assms] by blast

theorem best_prices_are_best_witness:
  "best_bid_fast (delta_step demo_lob (demo_delta BUY 100 5 1)) = Some (100, 5)"
  using best_prices_are_best [of "delta_step demo_lob (demo_delta BUY 100 5 1)" 100 5]
    lob_wf_step [OF lob_start_wf [OF demo_lob_start], of "demo_delta BUY 100 5 1"]
  by (simp add: apply_delta_fast_def demo_lob_def demo_delta_def lob_new_def set_tick_size_ticks_def
    misaligned_def apply_bid_delta_fast_def trim_depth_def trim_bids_def trim_asks_def Let_def)

text \<open>Trimming forgets: in a book of depth one a better bid evicts the live bid of 100, and when the
  better one is withdrawn the book shows no bid at all, although the bid of 100 was never withdrawn.\<close>

theorem trimmed_bid_is_forgotten:
  "let ds = [demo_delta BUY 100 5 1, demo_delta BUY 110 5 2, demo_delta BUY 110 0 3] in
     best_bid_fast (foldl delta_step demo_lob ds) = None \<and> sp_bids (run_spec demo_lob ds) 100 = Some 5"
  by (simp add: Let_def run_spec_def spec_of_def spec_step_def level_map_def apply_delta_fast_def demo_lob_def
    demo_delta_def lob_new_def set_tick_size_ticks_def misaligned_def apply_bid_delta_fast_def trim_depth_def
    trim_bids_def trim_asks_def best_bid_fast_def bids_desc_def first_of_def pop_first_def word_le_nat_alt word_less_nat_alt)

text \<open>Late and repeated deltas do nothing: after a delta has been applied, applying it again, or any
  delta with a sequence number not above it, leaves the book as it is and reports success.\<close>

theorem late_delta_ignored:
  assumes "accepts b d" "fd_sequence d' \<le> fd_sequence d"
  shows "apply_delta_fast (delta_step b d) d' = (delta_step b d, Ok ())"
  using assms by (simp add: delta_accepted apply_delta_fast_def [of _ d'])

theorem late_delta_ignored_witness:
  "apply_delta_fast (delta_step demo_lob (demo_delta BUY 100 5 3)) (demo_delta BUY 90 5 2) =
     (delta_step demo_lob (demo_delta BUY 100 5 3), Ok ())"
  by (rule late_delta_ignored) (simp_all add: accepts_def demo_lob_def demo_delta_def lob_new_def
    set_tick_size_ticks_def misaligned_def)

text \<open>Mid price and spread are exact: when the book quotes them, the mid price is half the sum of the best
  prices rounded down, at or above the bid and strictly below the ask, and the spread is their difference;
  neither ever wraps.\<close>

theorem mid_and_spread_exact:
  assumes "best_prices_fast b = Some (bid, ask)" "lob_mid_price_fast b = Some m"
  shows "unat m = (unat bid + unat ask) div 2 \<and> bid \<le> m \<and> m < ask \<and>
    (\<exists>s. lob_spread_fast b = Some s \<and> unat bid + unat s = unat ask)"
proof -
  have m: "mid_price_fast bid ask = Some m" using assms by (simp add: lob_mid_price_fast_def)
  note v = mid_price_value [OF m]
  have "bid < ask" using v(2,3) by (simp add: word_less_nat_alt)
  then have s: "lob_spread_fast b = Some (ask - bid)" using assms(1)
    by (simp add: lob_spread_fast_def spread_fast_def not_le)
  then have "spread_fast bid ask = Some (ask - bid)" using \<open>bid < ask\<close> by (simp add: spread_fast_def not_le)
  with spread_value have "unat bid + unat (ask - bid) = unat ask" by fastforce
  with s v show ?thesis by (auto simp: word_le_nat_alt word_less_nat_alt)
qed

definition demo_crossed :: "price \<Rightarrow> price \<Rightarrow> lob" where
  "demo_crossed bid ask = demo_lob\<lparr>ob_bids := [(bid, 5)], ob_asks := [(ask, 5)]\<rparr>"

theorem mid_and_spread_exact_witness:
  "lob_mid_price_fast (demo_crossed 6500 6701) = Some 6600 \<and>
   unat (6600 :: price) = (unat (6500 :: price) + unat (6701 :: price)) div 2"
proof -
  have 1: "best_prices_fast (demo_crossed 6500 6701) = Some (6500, 6701)"
    by (simp add: demo_crossed_def best_prices_fast_def bids_desc_def first_of_def)
  then have 2: "lob_mid_price_fast (demo_crossed 6500 6701) = Some 6600"
    by (simp add: lob_mid_price_fast_def mid_price_fast_def)
  from mid_and_spread_exact [OF 1 2] 2 show ?thesis by blast
qed

section \<open>The manager of books\<close>

datatype 'd bm_op = BmCreate timestamp string | BmDelta "'d order_delta" | BmCleanup timestamp duration

primrec bm_apply :: "(string \<Rightarrow> 64 word) \<Rightarrow> ('d \<Rightarrow> 64 word option) \<Rightarrow> ('d \<Rightarrow> 64 word option) \<Rightarrow>
    (price \<Rightarrow> 'd) \<Rightarrow> book_manager \<Rightarrow> 'd bm_op \<Rightarrow> book_manager" where
  "bm_apply hash ps qs pd m (BmCreate now t) = fst (get_or_create_book hash now m t)"
| "bm_apply hash ps qs pd m (BmDelta d) = fst (bm_apply_delta hash ps qs pd m d)"
| "bm_apply hash ps qs pd m (BmCleanup now age) = fst (cleanup_stale_books now age m)"

definition book_of :: "(string \<Rightarrow> 64 word) \<Rightarrow> string \<Rightarrow> lob \<Rightarrow> bool" where
  "book_of hash t b \<longleftrightarrow> ob_token_id b = t \<and> ob_token_id_hash b = hash t \<and> ob_tick_size_ticks b = None \<and> lob_wf b"

definition bm_wf :: "(string \<Rightarrow> 64 word) \<Rightarrow> book_manager \<Rightarrow> bool" where
  "bm_wf hash m \<longleftrightarrow> hwf (bm_books m) \<and> (\<forall>t b. hget (bm_books m) t = Some b \<longrightarrow> book_of hash t b)"

lemma from_order_delta_hash:
  "from_order_delta hash ps qs d tick = Ok fd \<Longrightarrow>
   fd_token_id_hash fd = hash (od_token_id d) \<and> fd_sequence fd = od_sequence d \<and> fd_side fd = od_side d"
  by (auto simp: from_order_delta_def split: if_splits sum.splits)

lemma apply_delta_cases:
  obtains e where "apply_delta hash ps qs pd b d = (b, Err e)"
  | fd where "from_order_delta hash ps qs d (map_option pd (ob_tick_size_ticks b)) = Ok fd"
      "apply_delta hash ps qs pd b d = apply_delta_fast b fd"
  by (cases "from_order_delta hash ps qs d (map_option pd (ob_tick_size_ticks b))")
     (auto simp: apply_delta_def)

lemma book_of_delta: "book_of hash t b \<Longrightarrow> book_of hash t (fst (apply_delta hash ps qs pd b d))"
  by (cases rule: apply_delta_cases [of hash ps qs pd b d]) (auto simp: book_of_def intro: lob_wf_step)

lemma book_of_new: "book_of hash t (lob_new hash now t depth)"
  by (simp add: book_of_def lob_new_def lob_wf_def)

lemma bm_delta_books:
  "bm_books (fst (bm_apply_delta hash ps qs pd m d)) =
     (case hget (bm_books m) (od_token_id d) of None \<Rightarrow> bm_books m
      | Some b \<Rightarrow> hput (od_token_id d) (fst (apply_delta hash ps qs pd b d)) (bm_books m))"
  by (simp add: bm_apply_delta_def case_prod_beta split: option.splits)

lemma bm_create_books:
  "bm_books (fst (get_or_create_book hash now m t)) =
     (case hget (bm_books m) t of None \<Rightarrow> hput t (lob_new hash now t (bm_max_depth m)) (bm_books m)
      | Some b \<Rightarrow> bm_books m)"
  by (simp add: get_or_create_book_def Let_def split: option.splits)

lemma hget_filter: "hwf m \<Longrightarrow> hget (filter (\<lambda>(k, v). P v) m) k = (case hget m k of None \<Rightarrow> None | Some v \<Rightarrow> if P v then Some v else None)"
  by (induction m) (auto split: option.splits simp: map_of_eq_None_iff dest: map_of_SomeD)

lemma bm_cleanup_books:
  "bm_books (fst (cleanup_stale_books now age m)) = filter (\<lambda>(t, b). \<not> lob_is_stale now age b) (bm_books m)"
  by (simp add: cleanup_stale_books_def Let_def)

lemma bm_wf_apply: "bm_wf hash m \<Longrightarrow> bm_wf hash (bm_apply hash ps qs pd m op)"
proof (cases op)
  case (BmCreate now t)
  assume "bm_wf hash m"
  then show ?thesis unfolding BmCreate bm_wf_def bm_apply.simps bm_create_books
    using book_of_new by (auto split: option.splits if_splits simp del: map_of_eq_Some_iff)
next
  case (BmDelta d)
  assume "bm_wf hash m"
  then show ?thesis unfolding BmDelta bm_wf_def bm_apply.simps bm_delta_books
    by (auto intro: book_of_delta split: option.splits if_splits simp del: map_of_eq_Some_iff)
next
  case (BmCleanup now age)
  assume wf: "bm_wf hash m"
  then show ?thesis
    by (auto simp: BmCleanup bm_wf_def bm_cleanup_books hget_filter distinct_map_filter
      simp del: map_of_eq_Some_iff split: option.splits if_splits)
qed

interpretation bm: machine "bm_apply hash ps qs pd" "\<lambda>_. True" "bm_wf hash"
  for hash :: "string \<Rightarrow> 64 word" and ps qs :: "'d \<Rightarrow> 64 word option" and pd
  by unfold_locales (rule bm_wf_apply)

text \<open>The manager keeps its books apart: after any operations every book is filed under its own token,
  is well formed and has no tick size; a delta for a token that has a book is never refused for its token or
  its alignment, only for its numbers, and it changes no other book.\<close>

theorem manager_of_books:
  fixes hash :: "string \<Rightarrow> 64 word" and ps qs :: "'d \<Rightarrow> 64 word option" and pd :: "price \<Rightarrow> 'd" and depth :: nat
  defines "run \<equiv> foldl (bm_apply hash ps qs pd) (bm_new depth)"
  assumes "hget (bm_books (run ops)) (od_token_id d) = Some b"
  shows "book_of hash (od_token_id d) b \<and>
    (snd (bm_apply_delta hash ps qs pd (run ops) d) = Ok () \<or>
     (\<exists>e. e \<in> {''Price too large or negative'', ''Price exceeds maximum'', ''Quantity too large'',
          ''Quantity exceeds maximum''} \<and>
       snd (bm_apply_delta hash ps qs pd (run ops) d) = Err (ValidationError (''Invalid delta: '' @ e)))) \<and>
    (t = od_token_id d \<or>
       hget (bm_books (fst (bm_apply_delta hash ps qs pd (run ops) d))) t = hget (bm_books (run ops)) t)"
proof -
  have "bm_wf hash (bm_new depth)" by (simp add: bm_wf_def bm_new_def)
  then have wf: "bm_wf hash (run ops)" unfolding run_def by (rule bm.run_inv) (simp add: list_all_iff)
  with assms(2) have b: "book_of hash (od_token_id d) b" by (simp add: bm_wf_def)
  have r: "snd (bm_apply_delta hash ps qs pd (run ops) d) = snd (apply_delta hash ps qs pd b d)"
    using assms(2) by (simp add: bm_apply_delta_def case_prod_beta)
  have tick: "ob_tick_size_ticks b = None" "ob_token_id_hash b = hash (od_token_id d)"
    using b by (simp_all add: book_of_def)
  have "snd (apply_delta hash ps qs pd b d) = Ok () \<or>
     (\<exists>e. e \<in> {''Price too large or negative'', ''Price exceeds maximum'', ''Quantity too large'',
        ''Quantity exceeds maximum''} \<and>
       snd (apply_delta hash ps qs pd b d) = Err (ValidationError (''Invalid delta: '' @ e)))"
    using tick by (auto simp: apply_delta_def from_order_delta_def apply_delta_fast_def misaligned_def Let_def
      decimal_to_price_def decimal_to_qty_def split: sum.splits option.splits if_splits)
  then show ?thesis
    using b assms(2) unfolding r bm_delta_books by (auto simp del: map_of_eq_Some_iff)
qed

definition demo_od :: "int order_delta" where
  "demo_od = \<lparr>od_token_id = ''T'', od_timestamp = 1, od_side = SELL, od_price = 650, od_size = 30, od_sequence = 1\<rparr>"

theorem manager_of_books_witness:
  "book_of (\<lambda>t. of_nat (length t)) ''T'' (lob_new (\<lambda>t. of_nat (length t)) 0 ''T'' 5) \<and>
   hget (bm_books (fst (bm_apply_delta (\<lambda>t. of_nat (length t)) (\<lambda>d. Some (word_of_int d)) (\<lambda>d. Some (word_of_int d)) uint
      (foldl (bm_apply (\<lambda>t. of_nat (length t)) (\<lambda>d. Some (word_of_int d)) (\<lambda>d. Some (word_of_int d)) uint)
        (bm_new 5) [BmCreate 0 ''T'']) demo_od))) ''U'' = None"
proof -
  let ?h = "\<lambda>t :: string. of_nat (length t) :: 64 word"
  let ?s = "\<lambda>d. Some (word_of_int d :: 64 word)"
  let ?m = "foldl (bm_apply ?h ?s ?s uint) (bm_new 5) [BmCreate 0 ''T'']"
  have m: "bm_books ?m = [(''T'', lob_new ?h 0 ''T'' 5)]"
    by (simp add: bm_new_def get_or_create_book_def hput_def Let_def)
  then have h: "hget (bm_books ?m) (od_token_id demo_od) = Some (lob_new ?h 0 ''T'' 5)"
    by (simp add: demo_od_def)
  have "hget (bm_books ?m) ''U'' = None" unfolding m by simp
  moreover have tok: "od_token_id demo_od = ''T''" and ne: "''U'' \<noteq> ''T''" by (simp_all add: demo_od_def)
  moreover note p = manager_of_books [OF h, of "''U''"]
  ultimately show ?thesis using p [THEN conjunct1] p [THEN conjunct2, THEN conjunct2] unfolding tok
    by (simp only: simp_thms)
qed

end
