(* ===== verification/Paper.thy ===== *)
theory Paper
  imports Lifecycle Intents
begin

text \<open>
  The paper trading executor, \<open>execution/paper/executor.rs\<close> with the counters of \<open>metrics.rs\<close>: limit
  orders kept in memory, acknowledged, cancelled and filled against the trades of a live feed, with the
  lifecycle engine as the authority on their state.  Arguments of the model: the clock (\<open>now\<close>), the
  latencies the random generator draws (\<open>lat\<close>, one per order and call, 64-bit milliseconds), the clock
  time of a trade (chrono's \<open>from_timestamp_millis\<close>) and the fresh UUID of the engine.  The engine's
  panics, which \<open>Lifecycle\<close> shows unreachable, end a call here as its errors do.
\<close>

section \<open>Data\<close>

record latency_config =
  lat_min_place :: "64 word"
  lat_max_place :: "64 word"
  lat_min_cancel :: "64 word option"
  lat_max_cancel :: "64 word option"

record paper_config =
  pc_enforce_inventory :: bool
  pc_latency :: "latency_config option"

record paper_order =
  pp_order_id :: string
  pp_mint :: string
  pp_market :: "string option"
  pp_side :: order_side
  pp_price :: f64
  pp_original_size :: f64
  pp_remaining_size :: f64
  pp_placed_at :: timestamp
  pp_time_in_force :: time_in_force
  pp_signal_id :: "string option"
  pp_exit_mode :: "exit_mode option"
  pp_context :: "json option"
  pp_eligible_at :: timestamp
  pp_cancel_confirm_at :: "timestamp option"

record paper_metrics =
  px_placed :: "string \<Rightarrow> nat"
  px_cancelled :: nat
  px_filled :: "string \<Rightarrow> nat"
  px_volume :: "string \<Rightarrow> f64"
  px_latency :: "f64 list"
  px_gauge :: nat

record paper =
  pe_pending :: "(string, paper_order) hmap"
  pe_counter :: "64 word"
  pe_config :: paper_config
  pe_metrics :: "paper_metrics option"
  pe_engine :: engine

datatype trade_side = TradeBuy | TradeSell

record trade =
  tr_asset_id :: string
  tr_side :: trade_side
  tr_price :: f64
  tr_size :: f64
  tr_timestamp :: int

datatype paper_error =
    NotALimitOrder order_type
  | PlaceRequestFailed lc_error
  | PlaceSuccessFailed lc_error
  | UnexpectedState string lc_state
  | CancelRequestFailed lc_error
  | CancelConfirmFailed lc_error
  | FillEvidenceFailed lc_error
  | EnginePanic

definition paper_config_default :: paper_config where
  "paper_config_default = \<lparr>pc_enforce_inventory = True, pc_latency = None\<rparr>"

definition paper_with_config :: "paper_config \<Rightarrow> paper" where
  "paper_with_config c = \<lparr>pe_pending = [], pe_counter = 1, pe_config = c, pe_metrics = None,
     pe_engine = engine_new\<rparr>"

definition paper_with_metrics :: "paper \<Rightarrow> paper_metrics \<Rightarrow> paper" where
  "paper_with_metrics s m = s\<lparr>pe_metrics := Some m\<rparr>"

fun side_to_str :: "order_side \<Rightarrow> string" where
  "side_to_str Buy = ''buy''"
| "side_to_str Sell = ''sell''"

section \<open>Metrics\<close>

definition record_order_placed :: "string \<Rightarrow> paper_metrics \<Rightarrow> paper_metrics" where
  "record_order_placed side m = m\<lparr>px_placed := inc_counter side (px_placed m)\<rparr>"

definition record_order_cancelled :: "paper_metrics \<Rightarrow> paper_metrics" where
  "record_order_cancelled m = m\<lparr>px_cancelled := Suc (px_cancelled m)\<rparr>"

definition record_fill :: "string \<Rightarrow> f64 \<Rightarrow> f64 \<Rightarrow> paper_metrics \<Rightarrow> paper_metrics" where
  "record_fill side amount latency m = m\<lparr>px_filled := inc_counter side (px_filled m),
     px_volume := (px_volume m)(side := fadd (px_volume m side) amount), px_latency := px_latency m @ [latency]\<rparr>"

definition set_pending_orders :: "nat \<Rightarrow> paper_metrics \<Rightarrow> paper_metrics" where
  "set_pending_orders n m = m\<lparr>px_gauge := n\<rparr>"

definition on_paper_metrics :: "(paper_metrics \<Rightarrow> paper_metrics) \<Rightarrow> paper \<Rightarrow> paper" where
  "on_paper_metrics f s = s\<lparr>pe_metrics := map_option f (pe_metrics s)\<rparr>"

section \<open>Reading\<close>

definition get_pending_orders :: "paper \<Rightarrow> paper_order list" where
  "get_pending_orders s = hvals (pe_pending s)"

definition get_pending_order :: "paper \<Rightarrow> string \<Rightarrow> paper_order option" where
  "get_pending_order s oid = hget (pe_pending s) oid"

definition pending_order_count :: "paper \<Rightarrow> nat" where
  "pending_order_count s = length (pe_pending s)"

definition defers :: "paper \<Rightarrow> bool" where
  "defers s \<longleftrightarrow> pc_latency (pe_config s) \<noteq> None"

section \<open>Ids and times\<close>

fun digits :: "nat \<Rightarrow> string" where
  "digits n = (if n < 10 then [char_of (48 + n)] else digits (n div 10) @ [char_of (48 + n mod 10)])"

declare digits.simps [simp del]

definition generate_order_id :: "paper \<Rightarrow> paper \<times> string" where
  "generate_order_id s = (s\<lparr>pe_counter := pe_counter s + 1\<rparr>, ''paper-order-'' @ digits (unat (pe_counter s)))"

definition compute_eligibility_time :: "64 word \<Rightarrow> paper \<Rightarrow> timestamp \<Rightarrow> timestamp" where
  "compute_eligibility_time lat s ts =
     (case pc_latency (pe_config s) of Some c \<Rightarrow> ts + milliseconds lat | None \<Rightarrow> ts)"

definition sample_cancel_latency_ms :: "64 word \<Rightarrow> paper \<Rightarrow> 64 word option" where
  "sample_cancel_latency_ms lat s = map_option (\<lambda>c. lat) (pc_latency (pe_config s))"

definition compute_cancel_confirmation_time :: "64 word \<Rightarrow> paper \<Rightarrow> timestamp \<Rightarrow> timestamp option" where
  "compute_cancel_confirmation_time lat s base =
     map_option (\<lambda>ms. base + milliseconds ms) (sample_cancel_latency_ms lat s)"

text \<open>The time a cancel is scheduled for: never later than one already scheduled.\<close>

definition schedule_cancel :: "64 word \<Rightarrow> paper \<Rightarrow> timestamp \<Rightarrow> paper_order \<Rightarrow> timestamp" where
  "schedule_cancel lat s base p =
     (let candidate = unwrap_or (compute_cancel_confirmation_time lat s base) base
      in case pp_cancel_confirm_at p of None \<Rightarrow> candidate | Some existing \<Rightarrow> min existing candidate)"

section \<open>Calls of the lifecycle engine\<close>

definition on_engine :: "(engine \<Rightarrow> engine \<times> 'a lc_result) \<Rightarrow> (lc_error \<Rightarrow> paper_error) \<Rightarrow> paper \<Rightarrow>
    paper \<times> (paper_error + 'a)" where
  "on_engine f wrap s = (case f (pe_engine s) of (e, r) \<Rightarrow> (s\<lparr>pe_engine := e\<rparr>,
     case r of LcOk x \<Rightarrow> Ok x | LcErr err \<Rightarrow> Err (wrap err) | LcPanic \<Rightarrow> Err EnginePanic))"

definition lifecycle_order_ref :: "string \<Rightarrow> lc_order_ref" where
  "lifecycle_order_ref oid = ClientOrderId oid"

definition lifecycle_record_place_request ::
  "string \<Rightarrow> string \<Rightarrow> paper_order \<Rightarrow> paper \<Rightarrow> paper \<times> (paper_error + lc_order)" where
  "lifecycle_record_place_request uuid oid p =
     on_engine (\<lambda>e. record_place_request uuid e
       \<lparr>pr_lifecycle_id = Some (''paper-'' @ oid), pr_client_order_id = oid, pr_mint = pp_mint p,
        pr_market = pp_market p, pr_side = pp_side p, pr_price = pp_price p, pr_size = pp_original_size p,
        pr_time_in_force = pp_time_in_force p, pr_signal_id = pp_signal_id p\<rparr>) PlaceRequestFailed"

definition lifecycle_record_place_success :: "string \<Rightarrow> paper \<Rightarrow> paper \<times> (paper_error + lc_state)" where
  "lifecycle_record_place_success oid s =
     (case on_engine (\<lambda>e. record_place_success e (lifecycle_order_ref oid) oid) PlaceSuccessFailed s of
        (s', r) \<Rightarrow> (s', map_sum id lc_state r))"

definition lifecycle_record_cancel_request_state ::
  "string \<Rightarrow> paper \<Rightarrow> paper \<times> (paper_error + lc_state option)" where
  "lifecycle_record_cancel_request_state oid s =
     (case on_engine (\<lambda>e. record_cancel_request e (lifecycle_order_ref oid)) CancelRequestFailed s of
        (s', r) \<Rightarrow> (s', map_sum id (\<lambda>x. case x of Updated ord \<Rightarrow> Some (lc_state ord) | IgnoredUnknownOrder \<Rightarrow> None) r))"

definition lifecycle_state :: "paper \<Rightarrow> string \<Rightarrow> lc_state option" where
  "lifecycle_state s oid = map_option lc_state (engine_get (pe_engine s) (lifecycle_order_ref oid))"

definition lifecycle_record_cancel_confirmed :: "string \<Rightarrow> paper \<Rightarrow> paper \<times> (paper_error + bool)" where
  "lifecycle_record_cancel_confirmed oid s =
     (let previous = lifecycle_state s oid
      in case on_engine (\<lambda>e. record_cancel_confirmed e (lifecycle_order_ref oid) (Some oid)) CancelConfirmFailed s of
        (s', r) \<Rightarrow> (s', map_sum id (\<lambda>ord. previous \<noteq> Some (Terminal TCancelled) \<and>
           lc_state ord = Terminal TCancelled) r))"

definition lifecycle_record_fill_evidence ::
  "string \<Rightarrow> f64 \<Rightarrow> paper \<Rightarrow> paper \<times> (paper_error + lc_state \<times> f64)" where
  "lifecycle_record_fill_evidence oid amount s =
     (case on_engine (\<lambda>e. record_fill_evidence e (lifecycle_order_ref oid) amount) FillEvidenceFailed s of
        (s', r) \<Rightarrow> (s', map_sum id (\<lambda>ord. (lc_state ord, lc_remaining_size ord)) r))"

definition put_pending :: "string \<Rightarrow> paper_order \<Rightarrow> paper \<Rightarrow> paper" where
  "put_pending oid p s = s\<lparr>pe_pending := hput oid p (pe_pending s)\<rparr>"

definition drop_pending :: "string \<Rightarrow> paper \<Rightarrow> paper" where
  "drop_pending oid s = s\<lparr>pe_pending := hdel oid (pe_pending s)\<rparr>"

section \<open>Fills from a trade\<close>

text \<open>The locals of \<open>check_fills_from_trade\<close>, with the executor itself.\<close>

record fill_pass =
  fp_paper :: paper
  fp_events :: "limit_order_event list"
  fp_inventory :: "(string, f64) hmap"
  fp_quote :: f64
  fp_remove :: "string list"

text \<open>The acknowledgement that a latency defers: the new lifecycle state, or none when it fails.\<close>

definition acknowledge_order ::
  "64 word \<Rightarrow> timestamp \<Rightarrow> string \<Rightarrow> paper_order \<Rightarrow> fill_pass \<Rightarrow> fill_pass \<times> lc_state option" where
  "acknowledge_order lat ts oid p a =
     (case lifecycle_record_place_success oid (fp_paper a) of
        (s, Inl err) \<Rightarrow> (a\<lparr>fp_paper := s\<rparr>, None)
      | (s, Inr st) \<Rightarrow>
          if st = Open then
            (a\<lparr>fp_paper := on_paper_metrics (record_order_placed (side_to_str (pp_side p))) s,
               fp_events := fp_events a @ [OrderPlaced oid (pp_mint p) (pp_market p) (pp_price p)
                 (pp_original_size p) (pp_side p) ts (pp_signal_id p) (pp_context p)]\<rparr>, Some st)
          else if st = CancelPending then
            let base = max ts (pp_eligible_at p) in
            (a\<lparr>fp_paper := put_pending oid (p\<lparr>pp_cancel_confirm_at := Some (schedule_cancel lat s base p)\<rparr>) s\<rparr>,
             Some st)
          else (a\<lparr>fp_paper := s\<rparr>, Some st))"

text \<open>The confirmation of a cancel: true when the order is done with.\<close>

definition confirm_cancel ::
  "64 word \<Rightarrow> timestamp \<Rightarrow> string \<Rightarrow> paper_order \<Rightarrow> fill_pass \<Rightarrow> fill_pass \<times> bool" where
  "confirm_cancel lat ts oid p a =
     (let s = fp_paper a;
        base = max ts (pp_eligible_at p);
        due = (case pp_cancel_confirm_at p of Some t \<Rightarrow> t
          | None \<Rightarrow> unwrap_or (compute_cancel_confirmation_time lat s base) base);
        s1 = put_pending oid (p\<lparr>pp_cancel_confirm_at := Some due\<rparr>) s
      in if ts < due then (a\<lparr>fp_paper := s1\<rparr>, False)
         else case lifecycle_record_cancel_confirmed oid s1 of
           (s2, r) \<Rightarrow>
             (if r = Ok True
              then a\<lparr>fp_paper := on_paper_metrics record_order_cancelled s2,
                fp_events := fp_events a @ [OrderCancelled oid (Some ''User cancelled'') due],
                fp_remove := fp_remove a @ [oid]\<rparr>
              else a\<lparr>fp_paper := s2, fp_remove := fp_remove a @ [oid]\<rparr>, True))"

definition should_fill :: "paper_order \<Rightarrow> trade \<Rightarrow> bool" where
  "should_fill p tr = (case (pp_side p, tr_side tr) of
     (Buy, TradeSell) \<Rightarrow> fle (tr_price tr) (pp_price p)
   | (Sell, TradeBuy) \<Rightarrow> fle (pp_price p) (tr_price tr)
   | _ \<Rightarrow> False)"

definition available_inventory :: "(string, f64) hmap \<Rightarrow> paper_order \<Rightarrow> fill_pass \<Rightarrow> f64" where
  "available_inventory inventory p a =
     fadd (unwrap_or (hget inventory (pp_mint p)) f0) (unwrap_or (hget (fp_inventory a) (pp_mint p)) f0)"

definition fill_size :: "trade \<Rightarrow> (string, f64) hmap \<Rightarrow> f64 \<Rightarrow> paper_order \<Rightarrow> fill_pass \<Rightarrow> f64 option" where
  "fill_size tr inventory available_quote p a =
     (let limited = pc_enforce_inventory (pe_config (fp_paper a)) \<and> pp_side p = Sell;
        available = available_inventory inventory p a
      in if limited \<and> fle available f0 then None
      else let size0 = fmin (pp_remaining_size p) (tr_size tr);
        size1 = (if limited then fmin size0 available else size0);
        quote_required = fmul size1 (pp_price p);
        effective = fadd available_quote (fp_quote a);
        short = pp_side p = Buy \<and> flt effective quote_required;
        affordable = fdiv effective (pp_price p)
      in if short \<and> fle affordable f0 then None
      else let size2 = (if short then fmin size1 affordable else size1)
        in if fle size2 f0 then None else Some size2)"

text \<open>The accounting of a fill within the pass.\<close>

definition track_fill :: "paper_order \<Rightarrow> f64 \<Rightarrow> fill_pass \<Rightarrow> fill_pass" where
  "track_fill p q a =
     (let m = pp_mint p; old = unwrap_or (hget (fp_inventory a) m) f0; cost = fmul q (pp_price p)
      in if pp_side p = Sell
         then a\<lparr>fp_inventory := hput m (fsub old q) (fp_inventory a), fp_quote := fadd (fp_quote a) cost\<rparr>
         else a\<lparr>fp_inventory := hput m (fadd old q) (fp_inventory a), fp_quote := fsub (fp_quote a) cost\<rparr>)"

definition fill_latency_ms :: "timestamp \<Rightarrow> paper_order \<Rightarrow> f64" where
  "fill_latency_ms ts p = f_int (max 0 ((ts - pp_placed_at p) div 1000000))"

definition apply_fill :: "timestamp \<Rightarrow> string \<Rightarrow> paper_order \<Rightarrow> f64 \<Rightarrow> fill_pass \<Rightarrow> fill_pass" where
  "apply_fill ts oid p q a =
     (case lifecycle_record_fill_evidence oid q (fp_paper a) of
        (s, Inl err) \<Rightarrow> a\<lparr>fp_paper := s\<rparr>
      | (s, Inr (st, rem)) \<Rightarrow>
          let a1 = a\<lparr>fp_paper := put_pending oid (p\<lparr>pp_remaining_size := rem\<rparr>) s\<rparr>
          in if st \<in> {Terminal TCancelled, Terminal TRejected, Terminal TExpired}
             then a1\<lparr>fp_remove := fp_remove a1 @ [oid]\<rparr>
             else let a2 = track_fill p q a1;
               s2 = on_paper_metrics (record_fill (side_to_str (pp_side p)) q (fill_latency_ms ts p)) (fp_paper a2);
               full = fle rem f0;
               event = OrderPartiallyFilled oid (pp_mint p) (pp_side p) q (if full then f0 else rem)
                 (pp_price p) ts (pp_signal_id p) (pp_exit_mode p)
             in a2\<lparr>fp_paper := s2, fp_events := fp_events a2 @ [event],
               fp_remove := (if full then fp_remove a2 @ [oid] else fp_remove a2)\<rparr>)"

definition try_fill :: "timestamp \<Rightarrow> trade \<Rightarrow> (string, f64) hmap \<Rightarrow> f64 \<Rightarrow> string \<Rightarrow> paper_order \<Rightarrow> lc_state \<Rightarrow>
    fill_pass \<Rightarrow> fill_pass" where
  "try_fill ts tr inventory available_quote oid p st a =
     (if st \<notin> {Open, CancelPending} then a
      else if pp_mint p \<noteq> tr_asset_id tr then a
      else if ts < pp_eligible_at p then a
      else if \<not> should_fill p tr then a
      else case fill_size tr inventory available_quote p a of None \<Rightarrow> a
        | Some q \<Rightarrow> apply_fill ts oid p q a)"

definition settle_order :: "64 word \<Rightarrow> timestamp \<Rightarrow> trade \<Rightarrow> (string, f64) hmap \<Rightarrow> f64 \<Rightarrow> string \<Rightarrow> lc_state \<Rightarrow>
    fill_pass \<Rightarrow> fill_pass" where
  "settle_order lat ts tr inventory available_quote oid st a =
     (case hget (pe_pending (fp_paper a)) oid of None \<Rightarrow> a
      | Some p \<Rightarrow>
        if st = CancelPending then
          (case confirm_cancel lat ts oid p a of (a1, done) \<Rightarrow>
             if done then a1
             else case hget (pe_pending (fp_paper a1)) oid of None \<Rightarrow> a1
               | Some p1 \<Rightarrow> try_fill ts tr inventory available_quote oid p1 st a1)
        else try_fill ts tr inventory available_quote oid p st a)"

definition check_order :: "(string \<Rightarrow> 64 word) \<Rightarrow> timestamp \<Rightarrow> trade \<Rightarrow> (string, f64) hmap \<Rightarrow> f64 \<Rightarrow>
    fill_pass \<Rightarrow> string \<Rightarrow> fill_pass" where
  "check_order lat ts tr inventory available_quote a oid =
     (case hget (pe_pending (fp_paper a)) oid of None \<Rightarrow> a
      | Some p \<Rightarrow> (case lifecycle_state (fp_paper a) oid of None \<Rightarrow> a
        | Some st \<Rightarrow>
          if st = SubmitPending \<and> pp_eligible_at p \<le> ts
          then (case acknowledge_order (lat oid) ts oid p a of
              (a1, None) \<Rightarrow> a1
            | (a1, Some st1) \<Rightarrow> settle_order (lat oid) ts tr inventory available_quote oid st1 a1)
          else settle_order (lat oid) ts tr inventory available_quote oid st a))"

definition trade_time :: "(int \<Rightarrow> timestamp option) \<Rightarrow> timestamp \<Rightarrow> trade \<Rightarrow> timestamp" where
  "trade_time from_millis now tr = unwrap_or (from_millis (tr_timestamp tr)) now"

definition fill_pass_start :: "paper \<Rightarrow> fill_pass" where
  "fill_pass_start s = \<lparr>fp_paper = s, fp_events = [], fp_inventory = [], fp_quote = f0, fp_remove = []\<rparr>"

definition check_fills_from_trade :: "(string \<Rightarrow> 64 word) \<Rightarrow> (int \<Rightarrow> timestamp option) \<Rightarrow> timestamp \<Rightarrow> paper \<Rightarrow>
    trade \<Rightarrow> (string, f64) hmap \<Rightarrow> f64 \<Rightarrow> paper \<times> limit_order_event list" where
  "check_fills_from_trade lat from_millis now s tr inventory available_quote =
     (let ts = trade_time from_millis now tr;
        a = foldl (check_order lat ts tr inventory available_quote) (fill_pass_start s) (hkeys (pe_pending s));
        s1 = foldl (\<lambda>s oid. drop_pending oid s) (fp_paper a) (fp_remove a)
      in (on_paper_metrics (set_pending_orders (length (pe_pending s1))) s1, fp_events a))"

section \<open>The executor's operations\<close>

definition execute_market_order :: "order \<Rightarrow> execution_event" where
  "execute_market_order ord = ExecOrderRejected (ord_mint ord) ''Paper trading mode only supports limit orders''"

fun limit_terms :: "order_type \<Rightarrow> (f64 \<times> f64 \<times> order_side \<times> time_in_force) option" where
  "limit_terms (LimitBuy quote lp tif) = Some (fdiv quote lp, lp, Buy, tif)"
| "limit_terms (LimitSell amount lp clear tif) = Some (amount, lp, Sell, tif)"
| "limit_terms t = None"

definition execute_limit_order ::
  "string \<Rightarrow> 64 word \<Rightarrow> paper \<Rightarrow> order \<Rightarrow> paper \<times> (paper_error + limit_order_event)" where
  "execute_limit_order uuid lat s ord =
     (case limit_terms (ord_order_type ord) of None \<Rightarrow> (s, Err (NotALimitOrder (ord_order_type ord)))
      | Some (amount, lp, side, tif) \<Rightarrow>
        (case generate_order_id s of (s1, oid) \<Rightarrow>
          let p = \<lparr>pp_order_id = oid, pp_mint = ord_mint ord, pp_market = ord_market ord, pp_side = side,
              pp_price = lp, pp_original_size = amount, pp_remaining_size = amount,
              pp_placed_at = ord_timestamp ord, pp_time_in_force = tif, pp_signal_id = ord_signal_id ord,
              pp_exit_mode = ord_exit_mode ord, pp_context = ord_context ord,
              pp_eligible_at = compute_eligibility_time lat s1 (ord_timestamp ord), pp_cancel_confirm_at = None\<rparr>;
            placed = OrderPlaced oid (ord_mint ord) (ord_market ord) lp amount side (ord_timestamp ord)
              (ord_signal_id ord) (ord_context ord)
          in case lifecycle_record_place_request uuid oid p s1 of
              (s2, Inl err) \<Rightarrow> (s2, Err err)
            | (s2, Inr lc) \<Rightarrow>
              (case (if defers s2 then (s2, Ok Open) else lifecycle_record_place_success oid s2) of
                 (s3, Inl err) \<Rightarrow> (s3, Err err)
               | (s3, Inr st) \<Rightarrow>
                 if st \<noteq> Open then (s3, Err (UnexpectedState oid st))
                 else let s4 = put_pending oid p s3 in
                   (on_paper_metrics (\<lambda>m. set_pending_orders (length (pe_pending s4))
                       (if defers s2 then m else record_order_placed (side_to_str side) m)) s4, Ok placed))))"

text \<open>
  \<open>cancel_order\<close> asks the engine first and then takes the lock of the pending orders: other calls may
  run between \<open>cancel_begin\<close> and \<open>cancel_finish\<close>.
\<close>

definition already_removed :: "string \<Rightarrow> timestamp \<Rightarrow> limit_order_event" where
  "already_removed oid now = OrderCancelled oid (Some ''Order already removed (filled or cancelled)'') now"

definition cancel_begin :: "timestamp \<Rightarrow> paper \<Rightarrow> string \<Rightarrow> paper \<times> (paper_error + limit_order_event option)" where
  "cancel_begin now s oid =
     (case lifecycle_record_cancel_request_state oid s of
        (s1, Inl err) \<Rightarrow> (s1, Err err)
      | (s1, Inr None) \<Rightarrow> (s1, Ok (Some (already_removed oid now)))
      | (s1, Inr (Some st)) \<Rightarrow>
          (s1, Ok (if lc_is_terminal st then Some (already_removed oid now) else None)))"

definition cancel_finish :: "64 word \<Rightarrow> timestamp \<Rightarrow> paper \<Rightarrow> string \<Rightarrow> paper \<times> (paper_error + limit_order_event)" where
  "cancel_finish lat now s oid =
     (case hget (pe_pending s) oid of None \<Rightarrow> (s, Ok (already_removed oid now))
      | Some p \<Rightarrow>
        if defers s then
          let due = schedule_cancel lat s (max (pp_eligible_at p) now) p
          in (put_pending oid (p\<lparr>pp_cancel_confirm_at := Some due\<rparr>) s,
              Ok (OrderCancelled oid (Some ''User cancelled'') due))
        else (case lifecycle_record_cancel_confirmed oid (drop_pending oid s) of
            (s1, Inl err) \<Rightarrow> (s1, Err err)
          | (s1, Inr emitted) \<Rightarrow>
              (on_paper_metrics (\<lambda>m. set_pending_orders (length (pe_pending s1)) (record_order_cancelled m)) s1,
               Ok (OrderCancelled oid (Some ''User cancelled'') now))))"

definition cancel_order :: "64 word \<Rightarrow> timestamp \<Rightarrow> paper \<Rightarrow> string \<Rightarrow> paper \<times> (paper_error + limit_order_event)" where
  "cancel_order lat now s oid =
     (case cancel_begin now s oid of
        (s1, Inl err) \<Rightarrow> (s1, Err err)
      | (s1, Inr (Some event)) \<Rightarrow> (s1, Ok event)
      | (s1, Inr None) \<Rightarrow> cancel_finish lat now s1 oid)"

definition execute_redemption :: "redemption_action \<Rightarrow> redemption_event" where
  "execute_redemption act = RedemptionCompleted \<lparr>rc_market = ra_market act, rc_up_asset_id = ra_up_asset_id act,
     rc_down_asset_id = ra_down_asset_id act, rc_quantity = ra_quantity act,
     rc_quote_received = ra_quantity act, rc_timestamp = ra_timestamp act\<rparr>"

end
