(* ===== verification/Client_View.thy ===== *)
theory Client_View
  imports Lifecycle
begin

text \<open>
  The lifecycle engine as its clients see it, by client order id: what each call does to the record of
  its own id, and that it leaves the records of all other ids alone.  The paper and the backtest
  executor both keep their books against this view.
\<close>

abbreviation look :: "engine \<Rightarrow> string \<Rightarrow> lc_order option" where
  "look e c \<equiv> engine_get e (ClientOrderId c)"

text \<open>An engine call for client id \<open>c\<close> changes at most the record of \<open>c\<close>, and that by \<open>R\<close>.\<close>

definition steps_by :: "(lc_order \<Rightarrow> lc_order \<Rightarrow> bool) \<Rightarrow> string \<Rightarrow> engine \<Rightarrow> engine \<Rightarrow> bool" where
  "steps_by R c e e' \<longleftrightarrow> core e' = core e \<or>
     (\<exists>l snap ord. hget (client_to_lifecycle e) c = Some l \<and> hget (orders e) l = Some snap \<and>
        orders e' = hput l ord (orders e) \<and> client_to_lifecycle e' = client_to_lifecycle e \<and> R snap ord)"

definition quiet :: "lc_order \<Rightarrow> lc_order \<Rightarrow> bool" where
  "quiet a b \<longleftrightarrow> ident b = ident a \<and> lc_remaining_size b = lc_remaining_size a \<and> (lco_is_terminal a \<longrightarrow> b = a)"

lemma look_core: "core e' = core e \<Longrightarrow> look e' d = look e d"
  by (simp add: engine_get_def core_eq_iff)

lemma steps_by_other:
  assumes "lc_inv e" "steps_by R c e e'" "d \<noteq> c"
  shows "look e' d = look e d"
proof (cases "core e' = core e")
  case False
  then obtain l snap ord where l: "hget (client_to_lifecycle e) c = Some l" "hget (orders e) l = Some snap"
    "orders e' = hput l ord (orders e)" "client_to_lifecycle e' = client_to_lifecycle e"
    using assms(2) by (auto simp: steps_by_def)
  have ix: "index_ok (hget (orders e)) (\<lambda>ord. Some (lc_client_order_id ord)) (hget (client_to_lifecycle e))"
    using assms(1) by (simp add: lc_inv_def)
  have "hget (client_to_lifecycle e) d \<noteq> Some l"
    using index_okD [OF ix l(1)] index_okD [OF ix, of d l] l(2) assms(3) by auto
  then show ?thesis by (cases "hget (client_to_lifecycle e) d") (auto simp: engine_get_def l)
qed (rule look_core)

lemma steps_by_self:
  assumes "steps_by R c e e'"
  shows "look e' c = look e c \<or> (\<exists>snap ord. look e c = Some snap \<and> look e' c = Some ord \<and> R snap ord)"
  using assms look_core [of e' e c] by (auto simp: steps_by_def engine_get_def)

lemma steps_by_stay:
  "steps_by R c e e" "steps_by R c e (emit_terminal_dedup ev e)" "steps_by R c e (emit_unknown_cancel e)"
  by (simp_all add: steps_by_def)

lemma steps_by_commit:
  assumes "hget (client_to_lifecycle e) c = Some l" "hget (orders e) l = Some snap" "R snap ord"
    "orders e1 = orders e" "client_to_lifecycle e1 = client_to_lifecycle e"
  shows "steps_by R c e (refresh_queue_depth (emit_transition a b (put_order l ord e1)))"
    "steps_by R c e (refresh_queue_depth (emit_transition a b (emit_cancel_requested st (put_order l ord e1))))"
  unfolding steps_by_def using assms by (auto simp: put_order_def emit_defs)

lemma quiet_success: "steps_by quiet c e (fst (record_place_success e (ClientOrderId c) v))"
proof (cases "look e c")
  case None
  then show ?thesis
    by (auto simp: record_place_success_def engine_get_def bind_eq_None_conv intro: steps_by_stay split: option.split)
next
  case (Some snap)
  then obtain l where l: "hget (client_to_lifecycle e) c = Some l" "hget (orders e) l = Some snap"
    by (auto simp: engine_get_def bind_eq_Some_conv)
  have q: "quiet snap (snap\<lparr>lc_venue_order_id := Some v, lc_state := st\<rparr>)" if "\<not> lco_is_terminal snap" for st
    using that by (simp add: quiet_def ident_def)
  have "steps_by quiet c e (refresh_queue_depth (emit_transition a b (put_order l
      (snap\<lparr>lc_venue_order_id := Some v, lc_state := st\<rparr>) e1)))"
    if "\<not> lco_is_terminal snap" "ensure_venue_mapping e l v = Inr e1" for a b st e1
    using steps_by_commit(1) [of e c l snap quiet, OF l q [OF that(1)]] ensure_venue_mapping_core [OF that(2)] by blast
  then show ?thesis unfolding record_place_success_def Let_def
    by (cases "lc_state snap") (auto simp: l intro: steps_by_stay split: option.split sum.split)
qed

lemma quiet_cancel: "steps_by quiet c e (fst (record_cancel_request e (ClientOrderId c)))"
proof -
  have q: "quiet snap (case lc_state snap of
              SubmitPending \<Rightarrow> snap\<lparr>lc_cancel_requested := True\<rparr>
            | Open \<Rightarrow> snap\<lparr>lc_cancel_requested := True, lc_state := CancelPending\<rparr>
            | CancelPending \<Rightarrow> snap\<lparr>lc_cancel_requested := True\<rparr>
            | Terminal t \<Rightarrow> snap)" for snap
    by (cases "lc_state snap") (auto simp: quiet_def ident_def lco_is_terminal_def)
  show ?thesis unfolding record_cancel_request_def Let_def
    using steps_by_commit [of e c _ _ quiet, OF _ _ q refl refl] by (auto intro: steps_by_stay split: option.split)
qed

lemma quiet_confirm: "steps_by quiet c e (fst (record_cancel_confirmed e (ClientOrderId c) w))"
proof (cases "look e c")
  case None
  then show ?thesis
    by (auto simp: record_cancel_confirmed_def record_terminal_evidence_def engine_get_def bind_eq_None_conv
      intro: steps_by_stay split: option.split)
next
  case (Some snap)
  then obtain l where l: "hget (client_to_lifecycle e) c = Some l" "hget (orders e) l = Some snap"
    by (auto simp: engine_get_def bind_eq_Some_conv)
  have q: "quiet snap (snap\<lparr>lc_venue_order_id := v, lc_cancel_requested := r, lc_state := st\<rparr>)"
    "quiet snap (snap\<lparr>lc_cancel_requested := r, lc_state := st\<rparr>)" if "\<not> lco_is_terminal snap" for st v r
    using that by (simp_all add: quiet_def ident_def)
  note c = steps_by_commit(1) [of e c l snap quiet, OF l]
  have "steps_by quiet c e (refresh_queue_depth (emit_transition a b (put_order l
      (snap\<lparr>lc_venue_order_id := v, lc_cancel_requested := r, lc_state := st\<rparr>) e1)))"
    if "\<not> lco_is_terminal snap" "ensure_venue_mapping e l u = Inr e1" for a b st v u r e1
    using c [OF q(1) [OF that(1)]] ensure_venue_mapping_core [OF that(2)] by blast
  moreover have "steps_by quiet c e (refresh_queue_depth (emit_transition a b (put_order l
      (snap\<lparr>lc_cancel_requested := r, lc_state := st\<rparr>) e)))" if "\<not> lco_is_terminal snap" for a b st r
    by (rule c [OF q(2) [OF that] refl refl])
  ultimately show ?thesis unfolding record_cancel_confirmed_def record_terminal_evidence_def Let_def
    by (cases w) (auto simp: l intro: steps_by_stay split: option.split sum.split)
qed

definition filled_by :: "f64 \<Rightarrow> lc_order \<Rightarrow> lc_order \<Rightarrow> bool" where
  "filled_by q a b \<longleftrightarrow> \<not> lco_is_terminal a \<and> (let rem = fmax (fsub (lc_remaining_size a) q) f0
     in b = a\<lparr>lc_remaining_size := rem, lc_state := (if fle rem f_epsilon then Terminal TFilled
       else if lc_state a = SubmitPending then Open else lc_state a)\<rparr>)"

lemma fill_steps: "steps_by (filled_by q) c e (fst (record_fill_evidence e (ClientOrderId c) q))"
proof (cases "look e c")
  case None
  then show ?thesis
    by (auto simp: record_fill_evidence_def engine_get_def bind_eq_None_conv intro: steps_by_stay split: option.split)
next
  case (Some snap)
  then obtain l where l: "hget (client_to_lifecycle e) c = Some l" "hget (orders e) l = Some snap"
    by (auto simp: engine_get_def bind_eq_Some_conv)
  show ?thesis
  proof (cases "lco_is_terminal snap \<or> fle q f0")
    case True
    then show ?thesis using l by (auto simp: record_fill_evidence_def intro: steps_by_stay)
  next
    case False
    with fill_result [OF Some, of q] l show ?thesis
      by (auto simp: Let_def filled_by_def intro!: steps_by_commit(1))
  qed
qed

lemma fill_returns:
  assumes "snd (record_fill_evidence e (ClientOrderId c) q) = LcOk ord"
  shows "look (fst (record_fill_evidence e (ClientOrderId c) q)) c = Some ord"
proof -
  obtain snap where snap: "look e c = Some snap" and q: "\<not> fle q f0"
    using assms by (auto simp: record_fill_evidence_def engine_get_def split: option.splits if_splits)
  show ?thesis
  proof (cases "lco_is_terminal snap")
    case True
    with snap q assms have "ord = snap" "core (fst (record_fill_evidence e (ClientOrderId c) q)) = core e"
      by (auto simp: record_fill_evidence_def engine_get_def bind_eq_Some_conv)
    then show ?thesis using look_core [of _ e c] snap by simp
  next
    case False
    obtain l where l: "resolve_lifecycle_id e (ClientOrderId c) = Some l"
      and f: "core (fst (record_fill_evidence e (ClientOrderId c) q)) = core (put_order l ord e)"
      using fill_result [OF snap False q] assms by (auto simp: Let_def)
    show ?thesis by (rule get_put_order [OF snap f l])
  qed
qed

lemma place_looks:
  assumes "snd (record_place_request u e r) = LcOk ord"
  shows "look e (pr_client_order_id r) = None"
    "look (fst (record_place_request u e r)) (pr_client_order_id r) = Some ord"
    "lc_mint ord = pr_mint r \<and> lc_side ord = pr_side r \<and> lc_price ord = pr_price r \<and>
       lc_original_size ord = pr_size r \<and> lc_remaining_size ord = pr_size r \<and> lc_state ord = SubmitPending"
  using assms by (auto simp: record_place_request_def engine_get_def emit_defs put_order_def Let_def
    split: option.splits if_splits)

lemma place_other:
  assumes "look e d = Some ord"
  shows "look (fst (record_place_request u e r)) d = Some ord"
proof -
  obtain l where "hget (client_to_lifecycle e) d = Some l" "hget (orders e) l = Some ord"
    using assms by (auto simp: engine_get_def bind_eq_Some_conv)
  then show ?thesis
    by (auto simp: record_place_request_def engine_get_def emit_defs put_order_def Let_def split: option.splits)
qed

lemma quiet_kept:
  assumes "steps_by quiet c e e'" "lc_inv e" "look e d = Some ord"
  shows "\<exists>ord'. look e' d = Some ord' \<and> quiet ord ord'"
proof (cases "d = c")
  case True
  then show ?thesis using steps_by_self [OF assms(1)] assms(3) by (auto simp: quiet_def)
next
  case False
  then show ?thesis using steps_by_other [OF assms(2,1)] assms(3) by (auto simp: quiet_def)
qed

lemma confirm_rel: "lc_rel e (fst (record_cancel_confirmed e r w))"
  by (simp add: record_cancel_confirmed_def terminal_evidence_rel)

lemma look_forward:
  assumes "engine_le e e'" "look e c = Some ord" "lco_is_terminal ord"
  shows "look e' c = Some ord"
proof -
  obtain l where l: "hget (client_to_lifecycle e) c = Some l" "hget (orders e) l = Some ord"
    using assms(2) by (auto simp: engine_get_def bind_eq_Some_conv)
  then have "hget (client_to_lifecycle e') c = Some l"
    using assms(1) by (auto simp: engine_le_def map_le_def dom_def)
  with engine_le_terminal [OF assms(1) l(2) assms(3)] show ?thesis by (simp add: engine_get_def)
qed

section \<open>Clients that use one id for an order on both sides\<close>

text \<open>
  A simulated venue gives an order the id its client gave it.  Then no call about a known order can fail:
  the venue id never conflicts, and cancels are confirmed only after the acknowledgement.
\<close>

definition own_venues :: "engine \<Rightarrow> bool" where
  "own_venues e \<longleftrightarrow> (\<forall>l ord v. hget (orders e) l = Some ord \<longrightarrow> lc_venue_order_id ord = Some v \<longrightarrow>
     v = lc_client_order_id ord)"

definition sim_engine :: "engine \<Rightarrow> bool" where
  "sim_engine e \<longleftrightarrow> lc_inv e \<and> own_venues e \<and> cancel_policy e = Idempotent"

definition known :: "engine \<Rightarrow> string \<Rightarrow> bool" where
  "known e c \<longleftrightarrow> look e c \<noteq> None"

definition booked :: "engine \<Rightarrow> string \<Rightarrow> bool" where
  "booked e c \<longleftrightarrow> (\<exists>ord. look e c = Some ord \<and> lc_state ord \<noteq> SubmitPending)"

lemma booked_known: "booked e c \<Longrightarrow> known e c"
  by (auto simp: booked_def known_def)

lemma look_le:
  assumes "engine_le e e'" "look e c = Some a"
  shows "\<exists>b. look e' c = Some b \<and> ord_le a b"
proof -
  obtain l where l: "hget (client_to_lifecycle e) c = Some l" "hget (orders e) l = Some a"
    using assms(2) by (auto simp: engine_get_def bind_eq_Some_conv)
  then have "hget (client_to_lifecycle e') c = Some l"
    using assms(1) by (auto simp: engine_le_def map_le_def dom_def)
  with assms(1) l(2) show ?thesis by (auto simp: engine_le_def engine_get_def)
qed

lemma known_le: "engine_le e e' \<Longrightarrow> known e c \<Longrightarrow> known e' c"
  using look_le by (fastforce simp: known_def)

lemma booked_le: "engine_le e e' \<Longrightarrow> booked e c \<Longrightarrow> booked e' c"
proof -
  assume le: "engine_le e e'" and "booked e c"
  then obtain a b where a: "look e c = Some a" "lc_state a \<noteq> SubmitPending" and b: "look e' c = Some b" "ord_le a b"
    unfolding booked_def using look_le [OF le] by blast
  from b(2) have "lc_rank (lc_state a) \<le> lc_rank (lc_state b)" by (simp add: ord_le_def)
  with a(2) have "lc_state b \<noteq> SubmitPending" by (cases "lc_state a") auto
  with b(1) show ?thesis by (auto simp: booked_def)
qed

lemma look_split:
  assumes "lc_inv e" "look e c = Some snap"
  obtains l where "hget (client_to_lifecycle e) c = Some l" "hget (orders e) l = Some snap"
    "lc_client_order_id snap = c"
proof -
  obtain l where l: "hget (client_to_lifecycle e) c = Some l" "hget (orders e) l = Some snap"
    using assms(2) by (auto simp: engine_get_def bind_eq_Some_conv)
  have "index_ok (hget (orders e)) (\<lambda>ord. Some (lc_client_order_id ord)) (hget (client_to_lifecycle e))"
    using assms(1) by (simp add: lc_inv_def)
  from index_okD [OF this l(1)] l(2) have "lc_client_order_id snap = c" by auto
  with that l show ?thesis by blast
qed

lemma own_venue_free:
  assumes "lc_inv e" "own_venues e" "hget (client_to_lifecycle e) c = Some l"
  shows "hget (venue_to_lifecycle e) c \<in> {None, Some l}"
proof (cases "hget (venue_to_lifecycle e) c")
  case (Some b)
  have vi: "index_ok (hget (orders e)) lc_venue_order_id (hget (venue_to_lifecycle e))"
    and ci: "index_ok (hget (orders e)) (\<lambda>ord. Some (lc_client_order_id ord)) (hget (client_to_lifecycle e))"
    using assms(1) by (simp_all add: lc_inv_def)
  obtain r where r: "hget (orders e) b = Some r" "lc_venue_order_id r = Some c" using index_okD [OF vi Some] by blast
  with assms(2) have "lc_client_order_id r = c" by (auto simp: own_venues_def)
  with index_okI [OF ci r(1)] assms(3) Some show ?thesis by auto
qed simp

lemma own_venue_mapping:
  assumes "lc_inv e" "own_venues e" "hget (client_to_lifecycle e) c = Some l"
  obtains e1 where "ensure_venue_mapping e l c = Inr e1" "orders e1 = orders e"
    "client_to_lifecycle e1 = client_to_lifecycle e" "cancel_policy e1 = cancel_policy e"
  using own_venue_free [OF assms] that by (auto simp: ensure_venue_mapping_def)

lemma own_venues_put:
  assumes "own_venues e" "orders e' = hput l ord (orders e)"
    "lc_venue_order_id ord \<in> {None, Some (lc_client_order_id ord)}"
  shows "own_venues e'"
  using assms by (auto simp: own_venues_def simp del: map_of_eq_Some_iff split: if_splits)

lemma commit_frame [simp]:
  "orders (refresh_queue_depth e) = orders e" "orders (emit_transition a b e) = orders e"
  "orders (emit_cancel_requested a e) = orders e" "orders (emit_terminal_dedup ev e) = orders e"
  "client_to_lifecycle (refresh_queue_depth e) = client_to_lifecycle e"
  "client_to_lifecycle (emit_transition a b e) = client_to_lifecycle e"
  "client_to_lifecycle (emit_cancel_requested a e) = client_to_lifecycle e"
  "client_to_lifecycle (emit_terminal_dedup ev e) = client_to_lifecycle e"
  "cancel_policy (refresh_queue_depth e) = cancel_policy e" "cancel_policy (emit_transition a b e) = cancel_policy e"
  "cancel_policy (emit_cancel_requested a e) = cancel_policy e" "cancel_policy (emit_terminal_dedup ev e) = cancel_policy e"
  "orders (emit_unknown_cancel e) = orders e" "cancel_policy (emit_unknown_cancel e) = cancel_policy e"
  "orders (put_order l ord e) = hput l ord (orders e)"
  "client_to_lifecycle (put_order l ord e) = client_to_lifecycle e" "cancel_policy (put_order l ord e) = cancel_policy e"
  by (simp_all add: emit_defs put_order_def)

lemma own_venue:
  "own_venues e \<Longrightarrow> hget (orders e) l = Some ord \<Longrightarrow> lc_venue_order_id ord \<in> {None, Some (lc_client_order_id ord)}"
  by (cases "lc_venue_order_id ord") (auto simp: own_venues_def)

text \<open>What a successful call about a known id leaves: the engine still in order, and the record it returned.\<close>

definition serves :: "string \<Rightarrow> engine \<Rightarrow> engine \<times> lc_order lc_result \<Rightarrow> lc_order \<Rightarrow> bool" where
  "serves c e res ord \<longleftrightarrow> snd res = LcOk ord \<and> look (fst res) c = Some ord \<and> own_venues (fst res) \<and>
     cancel_policy (fst res) = cancel_policy e"

lemma serves_same:
  assumes "own_venues e" "look e c = Some snap"
  shows "serves c e (emit_terminal_dedup ev e, LcOk snap) snap"
  using assms look_core [of "emit_terminal_dedup ev e" e c] by (simp add: serves_def own_venues_def)

lemma serves_commit:
  assumes "own_venues e" "hget (client_to_lifecycle e) c = Some l" "orders e1 = orders e"
    "client_to_lifecycle e1 = client_to_lifecycle e" "cancel_policy e1 = cancel_policy e"
    "lc_venue_order_id ord \<in> {None, Some (lc_client_order_id ord)}"
  shows "serves c e (refresh_queue_depth (emit_transition a b (put_order l ord e1)), LcOk ord) ord"
  using assms own_venues_put [OF assms(1) _ assms(6), of "refresh_queue_depth (emit_transition a b (put_order l ord e1))" l]
  by (simp add: serves_def engine_get_def)

lemma client_success:
  assumes "lc_inv e" "own_venues e" "look e c = Some snap"
  shows "\<exists>ord. serves c e (record_place_success e (ClientOrderId c) c) ord \<and> lc_state ord \<noteq> SubmitPending"
proof -
  obtain l where l: "hget (client_to_lifecycle e) c = Some l" "hget (orders e) l = Some snap"
    "lc_client_order_id snap = c" using look_split [OF assms(1,3)] .
  obtain e1 where e1: "ensure_venue_mapping e l c = Inr e1" "orders e1 = orders e"
    "client_to_lifecycle e1 = client_to_lifecycle e" "cancel_policy e1 = cancel_policy e"
    using own_venue_mapping [OF assms(1,2) l(1)] .
  have nc: "venue_conflict (lc_venue_order_id snap) (Some c) = None"
    using own_venue [OF assms(2) l(2)] l(3) by (auto simp: venue_conflict_None)
  show ?thesis
  proof (cases "lco_is_terminal snap")
    case True
    then have "lc_state snap \<noteq> SubmitPending" by (auto simp: lco_is_terminal_def)
    with serves_same [OF assms(2,3)] True show ?thesis
      by (auto simp: record_place_success_def l intro!: exI [of _ snap])
  next
    case False
    let ?ord = "snap\<lparr>lc_venue_order_id := Some c, lc_state := (if lc_state snap = SubmitPending
      then (if lc_cancel_requested snap then CancelPending else Open) else lc_state snap)\<rparr>"
    have "record_place_success e (ClientOrderId c) c =
        (refresh_queue_depth (emit_transition (lc_state snap) (lc_state ?ord) (put_order l ?ord e1)), LcOk ?ord)"
      using False by (cases "lc_state snap") (simp_all add: record_place_success_def l lco_is_terminal_def nc e1 Let_def)
    moreover have "serves c e (refresh_queue_depth (emit_transition a b (put_order l ?ord e1)), LcOk ?ord) ?ord" for a b
      by (rule serves_commit [OF assms(2) l(1) e1(2-4)]) (simp add: l(3))
    moreover have "lc_state ?ord \<noteq> SubmitPending" by simp
    ultimately show ?thesis by metis
  qed
qed

lemma client_confirm:
  assumes "lc_inv e" "own_venues e" "look e c = Some snap" "lc_state snap \<noteq> SubmitPending"
  shows "\<exists>ord. serves c e (record_cancel_confirmed e (ClientOrderId c) (Some c)) ord"
proof -
  obtain l where l: "hget (client_to_lifecycle e) c = Some l" "hget (orders e) l = Some snap"
    "lc_client_order_id snap = c" using look_split [OF assms(1,3)] .
  obtain e1 where e1: "ensure_venue_mapping e l c = Inr e1" "orders e1 = orders e"
    "client_to_lifecycle e1 = client_to_lifecycle e" "cancel_policy e1 = cancel_policy e"
    using own_venue_mapping [OF assms(1,2) l(1)] .
  have nc: "venue_conflict (lc_venue_order_id snap) (Some c) = None"
    using own_venue [OF assms(2) l(2)] l(3) by (auto simp: venue_conflict_None)
  show ?thesis
  proof (cases "lco_is_terminal snap")
    case True
    with serves_same [OF assms(2,3)] show ?thesis
      by (auto simp: record_cancel_confirmed_def record_terminal_evidence_def l intro!: exI [of _ snap])
  next
    case False
    show ?thesis
      by (rule exI, simp add: record_cancel_confirmed_def record_terminal_evidence_def l False nc e1 Let_def assms(4),
        rule serves_commit [OF assms(2) l(1) e1(2-4)], simp add: l(3))
  qed
qed

lemma client_fill:
  assumes "lc_inv e" "own_venues e" "look e c = Some snap" "\<not> fle q f0"
  shows "\<exists>ord. serves c e (record_fill_evidence e (ClientOrderId c) q) ord"
proof -
  obtain l where l: "hget (client_to_lifecycle e) c = Some l" "hget (orders e) l = Some snap"
    "lc_client_order_id snap = c" using look_split [OF assms(1,3)] .
  show ?thesis
  proof (cases "lco_is_terminal snap")
    case True
    with serves_same [OF assms(2,3)] assms(4) show ?thesis
      by (auto simp: record_fill_evidence_def l intro!: exI [of _ snap])
  next
    case False
    let ?rem = "fmax (fsub (lc_remaining_size snap) q) f0"
    let ?ord = "snap\<lparr>lc_remaining_size := ?rem, lc_state := (if fle ?rem f_epsilon then Terminal TFilled
      else if lc_state snap = SubmitPending then Open else lc_state snap)\<rparr>"
    have "record_fill_evidence e (ClientOrderId c) q =
        (refresh_queue_depth (emit_transition (lc_state snap) (lc_state ?ord) (put_order l ?ord e)), LcOk ?ord)"
      using False assms(4) by (simp add: record_fill_evidence_def l Let_def)
    moreover have "serves c e (refresh_queue_depth (emit_transition a b (put_order l ?ord e)), LcOk ?ord) ?ord" for a b
      by (rule serves_commit [OF assms(2) l(1) refl refl refl]) (use own_venue [OF assms(2) l(2)] in simp)
    ultimately show ?thesis by metis
  qed
qed

lemma client_cancel:
  assumes "lc_inv e" "own_venues e" "cancel_policy e = Idempotent"
  shows "\<exists>x. snd (record_cancel_request e (ClientOrderId c)) = LcOk x"
    "own_venues (fst (record_cancel_request e (ClientOrderId c)))"
    "cancel_policy (fst (record_cancel_request e (ClientOrderId c))) = Idempotent"
proof -
  have "\<exists>x. snd (record_cancel_request e (ClientOrderId c)) = LcOk x \<and>
    own_venues (fst (record_cancel_request e (ClientOrderId c))) \<and>
    cancel_policy (fst (record_cancel_request e (ClientOrderId c))) = Idempotent"
  proof (cases "look e c")
    case None
    have ci: "index_ok (hget (orders e)) (\<lambda>ord. Some (lc_client_order_id ord)) (hget (client_to_lifecycle e))"
      using assms(1) by (simp add: lc_inv_def)
    have "hget (orders e) l \<noteq> None" if "hget (client_to_lifecycle e) c = Some l" for l
      using index_okD [OF ci that] by auto
    with None have "hget (client_to_lifecycle e) c = None"
      by (cases "hget (client_to_lifecycle e) c") (auto simp: engine_get_def bind_eq_None_conv)
    then show ?thesis using assms by (simp add: record_cancel_request_def own_venues_def)
  next
    case (Some snap)
    obtain l where l: "hget (client_to_lifecycle e) c = Some l" "hget (orders e) l = Some snap"
      "lc_client_order_id snap = c" using look_split [OF assms(1) Some] .
    let ?ord = "case lc_state snap of
              SubmitPending \<Rightarrow> snap\<lparr>lc_cancel_requested := True\<rparr>
            | Open \<Rightarrow> snap\<lparr>lc_cancel_requested := True, lc_state := CancelPending\<rparr>
            | CancelPending \<Rightarrow> snap\<lparr>lc_cancel_requested := True\<rparr>
            | Terminal t \<Rightarrow> snap"
    have "lc_venue_order_id ?ord \<in> {None, Some (lc_client_order_id ?ord)}"
      using own_venue [OF assms(2) l(2)] by (cases "lc_state snap") simp_all
    then show ?thesis
      using assms(3) own_venues_put [OF assms(2), of _ l ?ord] by (simp add: record_cancel_request_def l Let_def)
  qed
  then show "\<exists>x. snd (record_cancel_request e (ClientOrderId c)) = LcOk x"
    "own_venues (fst (record_cancel_request e (ClientOrderId c)))"
    "cancel_policy (fst (record_cancel_request e (ClientOrderId c))) = Idempotent" by blast+
qed

lemma request_own_venues: "own_venues e \<Longrightarrow> own_venues (fst (record_place_request u e r))"
  "cancel_policy (fst (record_place_request u e r)) = cancel_policy e"
  by (auto simp: record_place_request_def Let_def own_venues_def simp del: map_of_eq_Some_iff
    split: option.split if_splits)

lemma sim_engine_new: "sim_engine engine_new"
  by (simp add: sim_engine_def own_venues_def) (simp add: engine_new_def)

end
