(* ===== verification/Paper_Pass.thy ===== *)
theory Paper_Pass
  imports Paper Client_View
begin

text \<open>
  The proofs about the paper executor (\<open>Paper\<close>): the invariant that ties
  pending orders to lifecycle records, one order and a whole pass of a trade, the operations as a
  machine, and the properties.
\<close>

section \<open>Invariant\<close>

definition agrees :: "paper_order \<Rightarrow> lc_order \<Rightarrow> bool" where
  "agrees p ord \<longleftrightarrow> lc_mint ord = pp_mint p \<and> lc_side ord = pp_side p \<and> lc_price ord = pp_price p \<and>
     lc_original_size ord = pp_original_size p \<and> lc_remaining_size ord = pp_remaining_size p"

text \<open>Every pending order is filed under its id and has a lifecycle record with the same terms.\<close>

definition paper_inv :: "paper \<Rightarrow> bool" where
  "paper_inv s \<longleftrightarrow> lc_inv (pe_engine s) \<and> hwf (pe_pending s) \<and>
     (\<forall>oid p. hget (pe_pending s) oid = Some p \<longrightarrow> pp_order_id p = oid \<and>
        (\<exists>ord. look (pe_engine s) oid = Some ord \<and> agrees p ord))"

definition static :: "paper_order \<Rightarrow> paper_order" where
  "static p = p\<lparr>pp_remaining_size := f0, pp_cancel_confirm_at := None\<rparr>"

lemma static_fields:
  "static p' = static p \<Longrightarrow> pp_order_id p' = pp_order_id p \<and> pp_mint p' = pp_mint p \<and> pp_side p' = pp_side p \<and>
     pp_price p' = pp_price p \<and> pp_original_size p' = pp_original_size p \<and> pp_eligible_at p' = pp_eligible_at p"
  by (cases p; cases p') (simp add: static_def)

lemma static_upd [simp]:
  "static (p\<lparr>pp_remaining_size := r\<rparr>) = static p" "static (p\<lparr>pp_cancel_confirm_at := t\<rparr>) = static p"
  by (simp_all add: static_def)

lemma wrapper_frame [simp]:
  "pe_pending (fst (lifecycle_record_place_success oid s)) = pe_pending s"
  "pe_config (fst (lifecycle_record_place_success oid s)) = pe_config s"
  "pe_pending (fst (lifecycle_record_cancel_request_state oid s)) = pe_pending s"
  "pe_config (fst (lifecycle_record_cancel_request_state oid s)) = pe_config s"
  "pe_pending (fst (lifecycle_record_cancel_confirmed oid s)) = pe_pending s"
  "pe_config (fst (lifecycle_record_cancel_confirmed oid s)) = pe_config s"
  "pe_pending (fst (lifecycle_record_fill_evidence oid q s)) = pe_pending s"
  "pe_config (fst (lifecycle_record_fill_evidence oid q s)) = pe_config s"
  "pe_pending (fst (lifecycle_record_place_request u oid p s)) = pe_pending s"
  "pe_config (fst (lifecycle_record_place_request u oid p s)) = pe_config s"
  by (simp_all add: lifecycle_record_place_success_def lifecycle_record_cancel_request_state_def
    lifecycle_record_cancel_confirmed_def lifecycle_record_fill_evidence_def
    lifecycle_record_place_request_def on_engine_def case_prod_beta Let_def)

lemma wrapper_engine [simp]:
  "pe_engine (fst (lifecycle_record_place_success oid s)) = fst (record_place_success (pe_engine s) (ClientOrderId oid) oid)"
  "pe_engine (fst (lifecycle_record_cancel_request_state oid s)) = fst (record_cancel_request (pe_engine s) (ClientOrderId oid))"
  "pe_engine (fst (lifecycle_record_cancel_confirmed oid s)) = fst (record_cancel_confirmed (pe_engine s) (ClientOrderId oid) (Some oid))"
  "pe_engine (fst (lifecycle_record_fill_evidence oid q s)) = fst (record_fill_evidence (pe_engine s) (ClientOrderId oid) q)"
  by (simp_all add: lifecycle_record_place_success_def lifecycle_record_cancel_request_state_def
    lifecycle_record_cancel_confirmed_def lifecycle_record_fill_evidence_def
    on_engine_def lifecycle_order_ref_def case_prod_beta Let_def)

lemma paper_frame [simp]:
  "pe_pending (on_paper_metrics f s) = pe_pending s" "pe_config (on_paper_metrics f s) = pe_config s"
  "pe_engine (on_paper_metrics f s) = pe_engine s"
  "pe_config (put_pending oid p s) = pe_config s" "pe_engine (put_pending oid p s) = pe_engine s"
  "pe_pending (put_pending oid p s) = hput oid p (pe_pending s)"
  "pe_config (drop_pending oid s) = pe_config s" "pe_engine (drop_pending oid s) = pe_engine s"
  "pe_pending (drop_pending oid s) = hdel oid (pe_pending s)"
  by (simp_all add: on_paper_metrics_def put_pending_def drop_pending_def)

lemma inv_metrics [simp]: "paper_inv (on_paper_metrics f s) = paper_inv s"
  by (simp add: paper_inv_def)

lemma inv_drop: "paper_inv s \<Longrightarrow> paper_inv (drop_pending oid s)"
  by (auto simp: paper_inv_def simp del: map_of_eq_Some_iff split: if_splits)

lemma agrees_quiet: "agrees p ord \<Longrightarrow> quiet ord ord' \<Longrightarrow> agrees p ord'"
  by (simp add: agrees_def quiet_def ident_def)

lemma inv_quiet:
  assumes "paper_inv s" "pe_pending s' = pe_pending s" "lc_rel (pe_engine s) (pe_engine s')"
    "steps_by quiet c (pe_engine s) (pe_engine s')"
  shows "paper_inv s'"
proof -
  have i: "lc_inv (pe_engine s)" using assms(1) by (simp add: paper_inv_def)
  have "\<exists>ord. look (pe_engine s') oid = Some ord \<and> agrees p ord"
    if "hget (pe_pending s) oid = Some p" for oid p
    using assms(1) that quiet_kept [OF assms(4) i, of oid] agrees_quiet unfolding paper_inv_def by blast
  then show ?thesis
    using assms(1,2) lc_rel_inv [OF assms(3) i] unfolding paper_inv_def by auto
qed

lemma inv_wrappers:
  assumes "paper_inv s"
  shows "paper_inv (fst (lifecycle_record_place_success oid s))"
    "paper_inv (fst (lifecycle_record_cancel_request_state oid s))"
    "paper_inv (fst (lifecycle_record_cancel_confirmed oid s))"
  by (rule inv_quiet [OF assms, where c = oid]; simp add: place_success_rel cancel_request_rel confirm_rel
    quiet_success quiet_cancel quiet_confirm)+

lemma inv_put:
  assumes "paper_inv s" "hget (pe_pending s) oid = Some p" "static p' = static p"
    "pp_remaining_size p' = pp_remaining_size p"
  shows "paper_inv (put_pending oid p' s)"
  using assms static_fields [OF assms(3)]
  by (auto simp: paper_inv_def agrees_def simp del: map_of_eq_Some_iff split: if_splits)

lemma wrappers_le:
  assumes "paper_inv s"
  shows "engine_le (pe_engine s) (pe_engine (fst (lifecycle_record_place_success oid s)))"
    "engine_le (pe_engine s) (pe_engine (fst (lifecycle_record_cancel_request_state oid s)))"
    "engine_le (pe_engine s) (pe_engine (fst (lifecycle_record_cancel_confirmed oid s)))"
    "engine_le (pe_engine s) (pe_engine (fst (lifecycle_record_fill_evidence oid q s)))"
  using assms by (auto simp: paper_inv_def intro: lc_rel_le place_success_rel cancel_request_rel confirm_rel
    fill_evidence_rel)

section \<open>One order in a pass\<close>

fun is_fill :: "limit_order_event \<Rightarrow> bool" where
  "is_fill (OrderPartiallyFilled i m d q r p t g x) = True"
| "is_fill ev = False"

text \<open>A pass touches order \<open>oid\<close> only: the others, the terms of \<open>oid\<close> and the books stay in order.\<close>

definition touches :: "string \<Rightarrow> fill_pass \<Rightarrow> fill_pass \<Rightarrow> bool" where
  "touches oid a a' \<longleftrightarrow> paper_inv (fp_paper a') \<and> pe_config (fp_paper a') = pe_config (fp_paper a) \<and>
     (\<forall>k. k \<noteq> oid \<longrightarrow> hget (pe_pending (fp_paper a')) k = hget (pe_pending (fp_paper a)) k) \<and>
     map_option static (hget (pe_pending (fp_paper a')) oid) = map_option static (hget (pe_pending (fp_paper a)) oid) \<and>
     engine_le (pe_engine (fp_paper a)) (pe_engine (fp_paper a')) \<and>
     set (fp_remove a') \<subseteq> insert oid (set (fp_remove a))"

text \<open>Without a fill, only acknowledgements and cancels are reported and nothing is accounted.\<close>

definition idles :: "string \<Rightarrow> fill_pass \<Rightarrow> fill_pass \<Rightarrow> bool" where
  "idles oid a a' \<longleftrightarrow> touches oid a a' \<and> fp_inventory a' = fp_inventory a \<and> fp_quote a' = fp_quote a \<and>
     map_option pp_remaining_size (hget (pe_pending (fp_paper a')) oid) =
       map_option pp_remaining_size (hget (pe_pending (fp_paper a)) oid) \<and>
     (\<exists>evs. fp_events a' = fp_events a @ evs \<and> (\<forall>ev \<in> set evs. \<not> is_fill ev))"

lemma touches_trans: "touches oid a b \<Longrightarrow> touches oid b c \<Longrightarrow> touches oid a c"
  by (auto simp: touches_def intro: engine_le_trans)

lemma idles_trans: "idles oid a b \<Longrightarrow> idles oid b c \<Longrightarrow> idles oid a c"
  unfolding idles_def by (force intro: touches_trans)

lemma idles_refl: "paper_inv (fp_paper a) \<Longrightarrow> idles oid a a"
  by (auto simp: idles_def touches_def engine_le_refl)

lemma idles_engine:
  assumes "paper_inv s" "pe_pending s = pe_pending (fp_paper a)" "pe_config s = pe_config (fp_paper a)"
    "engine_le (pe_engine (fp_paper a)) (pe_engine s)"
  shows "idles oid a (a\<lparr>fp_paper := s\<rparr>)" "idles oid a (a\<lparr>fp_paper := s, fp_remove := fp_remove a @ [oid]\<rparr>)"
    "\<not> is_fill ev \<Longrightarrow> idles oid a (a\<lparr>fp_paper := s, fp_events := fp_events a @ [ev]\<rparr>)"
    "\<not> is_fill ev \<Longrightarrow> idles oid a (a\<lparr>fp_paper := s, fp_events := fp_events a @ [ev], fp_remove := fp_remove a @ [oid]\<rparr>)"
  using assms by (auto simp: idles_def touches_def)

lemma idles_put:
  assumes "paper_inv s" "pe_pending s = pe_pending (fp_paper a)" "pe_config s = pe_config (fp_paper a)"
    "engine_le (pe_engine (fp_paper a)) (pe_engine s)" "hget (pe_pending (fp_paper a)) oid = Some p"
  shows "idles oid a (a\<lparr>fp_paper := put_pending oid (p\<lparr>pp_cancel_confirm_at := t\<rparr>) s\<rparr>)"
  using assms inv_put [OF assms(1), of oid p "p\<lparr>pp_cancel_confirm_at := t\<rparr>"]
  by (auto simp: idles_def touches_def)

lemma acknowledge_idles:
  assumes "paper_inv (fp_paper a)" "hget (pe_pending (fp_paper a)) oid = Some p"
  shows "idles oid a (fst (acknowledge_order lat ts oid p a))"
proof -
  obtain s r where s: "lifecycle_record_place_success oid (fp_paper a) = (s, r)" by fastforce
  then have f: "paper_inv s" "pe_pending s = pe_pending (fp_paper a)" "pe_config s = pe_config (fp_paper a)"
    "engine_le (pe_engine (fp_paper a)) (pe_engine s)"
    using inv_wrappers(1) [OF assms(1), of oid] wrapper_frame(1,2) [of oid "fp_paper a"]
      wrappers_le(1) [OF assms(1), of oid] by simp_all
  then have m: "paper_inv (on_paper_metrics g s)" "pe_pending (on_paper_metrics g s) = pe_pending (fp_paper a)"
    "pe_config (on_paper_metrics g s) = pe_config (fp_paper a)"
    "engine_le (pe_engine (fp_paper a)) (pe_engine (on_paper_metrics g s))" for g by simp_all
  show ?thesis
    using idles_engine [OF f] idles_engine(3) [OF m] idles_put [OF f assms(2)]
    by (auto simp: acknowledge_order_def s Let_def split: sum.split)
qed

lemma confirm_idles:
  assumes "paper_inv (fp_paper a)" "hget (pe_pending (fp_paper a)) oid = Some p"
  shows "idles oid a (fst (confirm_cancel lat ts oid p a))"
proof -
  let ?due = "case pp_cancel_confirm_at p of Some t \<Rightarrow> t
    | None \<Rightarrow> unwrap_or (compute_cancel_confirmation_time lat (fp_paper a) (max ts (pp_eligible_at p)))
        (max ts (pp_eligible_at p))"
  let ?s1 = "put_pending oid (p\<lparr>pp_cancel_confirm_at := Some ?due\<rparr>) (fp_paper a)"
  have put: "idles oid a (a\<lparr>fp_paper := ?s1\<rparr>)" by (rule idles_put [OF assms(1) refl refl engine_le_refl assms(2)])
  then have i1: "paper_inv ?s1" by (simp add: idles_def touches_def)
  obtain s2 r where s2: "lifecycle_record_cancel_confirmed oid ?s1 = (s2, r)" by fastforce
  then have f: "paper_inv s2" "pe_pending s2 = pe_pending ?s1" "pe_config s2 = pe_config ?s1"
    "engine_le (pe_engine ?s1) (pe_engine s2)"
    using inv_wrappers(3) [OF i1, of oid] wrapper_frame(5,6) [of oid ?s1] wrappers_le(3) [OF i1, of oid]
    by simp_all
  then have m: "paper_inv (on_paper_metrics g s2)" "pe_pending (on_paper_metrics g s2) = pe_pending ?s1"
    "pe_config (on_paper_metrics g s2) = pe_config ?s1"
    "engine_le (pe_engine ?s1) (pe_engine (on_paper_metrics g s2))" for g by simp_all
  let ?a1 = "a\<lparr>fp_paper := ?s1\<rparr>"
  have "idles oid ?a1 (?a1\<lparr>fp_paper := s2, fp_remove := fp_remove ?a1 @ [oid]\<rparr>)"
    by (rule idles_engine(2)) (use f in simp_all)
  moreover have "idles oid ?a1 (?a1\<lparr>fp_paper := on_paper_metrics g s2, fp_events := fp_events ?a1 @ [OrderCancelled oid x d],
      fp_remove := fp_remove ?a1 @ [oid]\<rparr>)" for g x d
    by (rule idles_engine(4)) (use m in simp_all)
  ultimately show ?thesis
    using put idles_trans [OF put] s2
    by (auto simp: confirm_cancel_def Let_def)
qed

lemma inv_fill:
  assumes "paper_inv s" "hget (pe_pending s) oid = Some p"
    "lifecycle_record_fill_evidence oid q s = (s', Inr (st, rem))"
  shows "paper_inv (put_pending oid (p\<lparr>pp_remaining_size := rem\<rparr>) s')"
proof -
  have i: "lc_inv (pe_engine s)" using assms(1) by (simp add: paper_inv_def)
  let ?e = "fst (record_fill_evidence (pe_engine s) (ClientOrderId oid) q)"
  have e: "pe_engine s' = ?e" "pe_pending s' = pe_pending s"
    using wrapper_engine(4) [of oid q s] wrapper_frame(7) [of oid q s] assms(3) by simp_all
  obtain ord where ord: "look ?e oid = Some ord" "lc_remaining_size ord = rem"
    using assms(3) fill_returns [of "pe_engine s" oid q]
    by (auto simp: lifecycle_record_fill_evidence_def on_engine_def lifecycle_order_ref_def
      split: prod.splits lc_result.splits)
  obtain old where old: "look (pe_engine s) oid = Some old" "agrees p old" "pp_order_id p = oid"
    using assms(1,2) by (auto simp: paper_inv_def simp del: map_of_eq_Some_iff)
  have "agrees (p\<lparr>pp_remaining_size := rem\<rparr>) ord"
    using steps_by_self [OF fill_steps, of "pe_engine s" oid q] ord old
    by (auto simp: agrees_def filled_by_def Let_def)
  moreover have "look ?e k = look (pe_engine s) k" if "k \<noteq> oid" for k
    by (rule steps_by_other [OF i fill_steps that])
  moreover have "lc_inv ?e" by (rule lc_rel_inv [OF fill_evidence_rel i])
  ultimately show ?thesis
    using assms(1) ord(1) old(3) e unfolding paper_inv_def
    by (simp del: map_of_eq_Some_iff)
qed

lemma inv_fill_error:
  assumes "paper_inv s" "lifecycle_record_fill_evidence oid q s = (s', Inl err)"
  shows "paper_inv s'"
proof -
  have "snd (record_fill_evidence (pe_engine s) (ClientOrderId oid) q) \<noteq> LcOk x" for x
    using assms(2) by (auto simp: lifecycle_record_fill_evidence_def on_engine_def lifecycle_order_ref_def
      split: prod.splits lc_result.splits)
  moreover have "fst (record_fill_evidence e r q) = e \<or> (\<exists>x. snd (record_fill_evidence e r q) = LcOk x)" for e r
    by (simp add: record_fill_evidence_def Let_def split: option.split)
  ultimately have "fst (record_fill_evidence (pe_engine s) (ClientOrderId oid) q) = pe_engine s" by blast
  with wrapper_engine(4) [of oid q s] wrapper_frame(7) [of oid q s] assms show ?thesis
    by (simp add: paper_inv_def)
qed

text \<open>A fill reports one event, or nothing when the engine refuses it or the order is already done.\<close>

lemma apply_fill_effect:
  assumes "paper_inv (fp_paper a)" "hget (pe_pending (fp_paper a)) oid = Some p"
  assumes a'_def: "a' = apply_fill ts oid p q a"
  shows "touches oid a a' \<and>
    ((fp_events a' = fp_events a \<and> fp_inventory a' = fp_inventory a \<and> fp_quote a' = fp_quote a) \<or>
     (\<exists>rem. fp_events a' = fp_events a @ [OrderPartiallyFilled oid (pp_mint p) (pp_side p) q rem (pp_price p) ts
          (pp_signal_id p) (pp_exit_mode p)] \<and>
        fp_inventory a' = fp_inventory (track_fill p q a) \<and> fp_quote a' = fp_quote (track_fill p q a)))"
proof (cases "lifecycle_record_fill_evidence oid q (fp_paper a)")
  case (Pair s r)
  have f: "pe_pending s = pe_pending (fp_paper a)" "pe_config s = pe_config (fp_paper a)"
    "engine_le (pe_engine (fp_paper a)) (pe_engine s)"
    using wrapper_frame(7,8) [of oid q "fp_paper a"] Pair wrappers_le(4) [OF assms(1), of oid q] by simp_all
  show ?thesis
  proof (cases r)
    case (Inl err)
    with inv_fill_error [OF assms(1)] Pair f show ?thesis
      by (auto simp: a'_def apply_fill_def touches_def)
  next
    case (Inr x)
    obtain st rem where x: "x = (st, rem)" by (cases x)
    note i = inv_fill [OF assms(1,2) Pair [unfolded Inr x]]
    have t: "touches oid a b" if "paper_inv (fp_paper b) = paper_inv (put_pending oid (p\<lparr>pp_remaining_size := rem\<rparr>) s)"
      "pe_config (fp_paper b) = pe_config s"
      "pe_pending (fp_paper b) = hput oid (p\<lparr>pp_remaining_size := rem\<rparr>) (pe_pending s)"
      "pe_engine (fp_paper b) = pe_engine s" "set (fp_remove b) \<subseteq> insert oid (set (fp_remove a))" for b
      using i that assms(2) f by (simp add: touches_def)
    have tr: "fp_events (track_fill p q b) = fp_events b" "fp_remove (track_fill p q b) = fp_remove b" "fp_paper (track_fill p q b) = fp_paper b"
      "fp_inventory (track_fill p q (a\<lparr>fp_paper := y\<rparr>)) = fp_inventory (track_fill p q a)"
      "fp_quote (track_fill p q (a\<lparr>fp_paper := y\<rparr>)) = fp_quote (track_fill p q a)" for b y
      by (simp_all add: track_fill_def Let_def)
    have "touches oid a a'"
      by (rule t) (auto simp: a'_def apply_fill_def Pair Inr x Let_def tr)
    moreover have "(fp_events a' = fp_events a \<and> fp_inventory a' = fp_inventory a \<and> fp_quote a' = fp_quote a) \<or>
     (\<exists>rem. fp_events a' = fp_events a @ [OrderPartiallyFilled oid (pp_mint p) (pp_side p) q rem (pp_price p) ts
          (pp_signal_id p) (pp_exit_mode p)] \<and>
        fp_inventory a' = fp_inventory (track_fill p q a) \<and> fp_quote a' = fp_quote (track_fill p q a))"
      by (simp add: a'_def apply_fill_def Pair Inr x Let_def tr)
    ultimately show ?thesis by blast
  qed
qed

text \<open>What a pass does to one order: it idles, and then perhaps fills it.\<close>

definition may_fill :: "timestamp \<Rightarrow> trade \<Rightarrow> (string, f64) hmap \<Rightarrow> f64 \<Rightarrow> string \<Rightarrow> paper_order \<Rightarrow> f64 \<Rightarrow> fill_pass \<Rightarrow> bool" where
  "may_fill ts tr inventory aq oid p q a \<longleftrightarrow> hget (pe_pending (fp_paper a)) oid = Some p \<and>
     pp_mint p = tr_asset_id tr \<and> pp_eligible_at p \<le> ts \<and> should_fill p tr \<and> fill_size tr inventory aq p a = Some q"

lemma try_fill_cases:
  assumes "hget (pe_pending (fp_paper a)) oid = Some p"
  shows "try_fill ts tr inventory aq oid p st a = a \<or>
    (\<exists>q. may_fill ts tr inventory aq oid p q a \<and> try_fill ts tr inventory aq oid p st a = apply_fill ts oid p q a)"
  using assms by (auto simp: try_fill_def may_fill_def split: option.splits)

lemma check_order_cases:
  assumes "paper_inv (fp_paper a)" "hget (pe_pending (fp_paper a)) oid \<noteq> None"
  assumes a'_def: "a' = check_order lat ts tr inventory aq a oid"
  shows "\<exists>b. idles oid a b \<and> (a' = b \<or> (\<exists>p q. may_fill ts tr inventory aq oid p q b \<and> a' = apply_fill ts oid p q b))"
proof -
  have settle: "\<exists>c. idles oid b c \<and> (settle_order l ts tr inventory aq oid st b = c \<or>
      (\<exists>p q. may_fill ts tr inventory aq oid p q c \<and> settle_order l ts tr inventory aq oid st b = apply_fill ts oid p q c))"
    if "paper_inv (fp_paper b)" for b l st
  proof (cases "hget (pe_pending (fp_paper b)) oid")
    case None
    with that show ?thesis by (auto simp: settle_order_def intro: idles_refl)
  next
    case (Some p)
    obtain c fin where c: "confirm_cancel l ts oid p b = (c, fin)" by fastforce
    note i = confirm_idles [OF that Some, of l ts, unfolded c fst_conv]
    show ?thesis
      using i idles_refl [OF that, of oid] try_fill_cases [of b oid p ts tr inventory aq st] Some
        try_fill_cases [of c oid _ ts tr inventory aq st] c
      by (cases "st = CancelPending"; cases "hget (pe_pending (fp_paper c)) oid"; cases fin)
        (auto simp: settle_order_def simp del: map_of_eq_Some_iff)
  qed
  obtain p where p: "hget (pe_pending (fp_paper a)) oid = Some p" using assms(2) by blast
  obtain b r where b: "acknowledge_order (lat oid) ts oid p a = (b, r)" by fastforce
  note i = acknowledge_idles [OF assms(1) p, of "lat oid" ts, unfolded b fst_conv]
  then have ib: "paper_inv (fp_paper b)" by (simp add: idles_def touches_def)
  have via: "\<exists>c. idles oid a c \<and> (settle_order l ts tr inventory aq oid st b = c \<or>
      (\<exists>p q. may_fill ts tr inventory aq oid p q c \<and> settle_order l ts tr inventory aq oid st b = apply_fill ts oid p q c))" for l st
    using settle [OF ib, of l st] idles_trans [OF i] by blast
  show ?thesis
    using settle [OF assms(1), of "lat oid"] via [of "lat oid"] idles_refl [OF assms(1), of oid] i
    unfolding a'_def check_order_def p option.case b
    by (cases "lifecycle_state (fp_paper a) oid"; cases r) (auto split: if_splits)
qed

section \<open>A whole pass\<close>

lemma fmin_le:
  "y \<noteq> NaN \<Longrightarrow> fle (fmin x y) y" "x \<noteq> NaN \<Longrightarrow> fle (fmin x y) x"
  by (cases x; cases y; simp add: fmin_def)+

text \<open>What a fill event must satisfy with respect to the pending order \<open>p\<close> it fills.\<close>

fun legal_fill :: "timestamp \<Rightarrow> trade \<Rightarrow> paper_order \<Rightarrow> limit_order_event \<Rightarrow> bool" where
  "legal_fill ts tr p (OrderPartiallyFilled oid mint side q rem price t sig em) \<longleftrightarrow>
     oid = pp_order_id p \<and> mint = pp_mint p \<and> side = pp_side p \<and> price = pp_price p \<and> t = ts \<and>
     pp_mint p = tr_asset_id tr \<and> pp_eligible_at p \<le> ts \<and> should_fill p tr \<and> \<not> fle q f0 \<and>
     (tr_size tr \<noteq> NaN \<longrightarrow> fle q (tr_size tr)) \<and>
     (pp_remaining_size p \<noteq> NaN \<longrightarrow> fle q (pp_remaining_size p))"
| "legal_fill ts tr p ev \<longleftrightarrow> False"

lemma fmin_cap: "fle x z \<Longrightarrow> fle (fmin x y) z"
  by (cases x; cases y; cases z; auto simp: fmin_def)

lemma fill_size_caps:
  assumes "fill_size tr inventory aq p a = Some q"
  shows "\<not> fle q f0" "tr_size tr \<noteq> NaN \<Longrightarrow> fle q (tr_size tr)"
    "pp_remaining_size p \<noteq> NaN \<Longrightarrow> fle q (pp_remaining_size p)"
    "pc_enforce_inventory (pe_config (fp_paper a)) \<Longrightarrow> pp_side p = Sell \<Longrightarrow>
       \<not> fle (available_inventory inventory p a) f0 \<and>
       q = fmin (fmin (pp_remaining_size p) (tr_size tr)) (available_inventory inventory p a)"
  using assms by (auto simp: fill_size_def Let_def intro: fmin_cap fmin_le split: if_splits)

lemma track_fill_same:
  assumes "fp_inventory b = fp_inventory a" "fp_quote b = fp_quote a" "static p' = static p"
  shows "fp_inventory (track_fill p' q b) = fp_inventory (track_fill p q a)"
    "fp_quote (track_fill p' q b) = fp_quote (track_fill p q a)"
  using assms static_fields [OF assms(3)] by (simp_all add: track_fill_def Let_def)

text \<open>The fill of \<open>p\<close> by \<open>q\<close> that an event reports, with its accounting.\<close>

definition fills :: "timestamp \<Rightarrow> trade \<Rightarrow> (string, f64) hmap \<Rightarrow> paper_order \<Rightarrow> fill_pass \<Rightarrow> limit_order_event \<Rightarrow>
    fill_pass \<Rightarrow> bool" where
  "fills ts tr inventory p a ev a' \<longleftrightarrow> legal_fill ts tr p ev \<and>
     (\<exists>q rem sig em. ev = OrderPartiallyFilled (pp_order_id p) (pp_mint p) (pp_side p) q rem (pp_price p) ts sig em \<and>
       fp_inventory a' = fp_inventory (track_fill p q a) \<and>
       (pc_enforce_inventory (pe_config (fp_paper a)) \<and> pp_side p = Sell \<longrightarrow>
          \<not> fle (available_inventory inventory p a) f0 \<and>
          q = fmin (fmin (pp_remaining_size p) (tr_size tr)) (available_inventory inventory p a)))"

definition fill_events :: "limit_order_event list \<Rightarrow> limit_order_event list" where
  "fill_events evs = filter is_fill evs"

lemma fill_events_append [simp]: "fill_events (xs @ ys) = fill_events xs @ fill_events ys" "fill_events [] = []"
  by (simp_all add: fill_events_def)

lemma check_order_step:
  assumes "paper_inv (fp_paper a)" "hget (pe_pending (fp_paper a)) oid = Some p"
    "a' = check_order lat ts tr inventory aq a oid"
  shows "touches oid a a' \<and> (\<exists>evs. fp_events a' = fp_events a @ evs \<and>
    (fill_events evs = [] \<and> fp_inventory a' = fp_inventory a \<or>
     (\<exists>ev. fill_events evs = [ev] \<and> fills ts tr inventory p a ev a')))"
proof -
  obtain b where b: "idles oid a b"
    and cs: "a' = b \<or> (\<exists>p q. may_fill ts tr inventory aq oid p q b \<and> a' = apply_fill ts oid p q b)"
    using check_order_cases [OF assms(1) _ assms(3)] assms(2) by auto
  obtain evs where evs: "fp_events b = fp_events a @ evs" "fill_events evs = []"
    and same: "fp_inventory b = fp_inventory a" "fp_quote b = fp_quote a" and t: "touches oid a b"
    using b by (auto simp: idles_def fill_events_def filter_empty_conv)
  show ?thesis
  proof (cases "a' = b")
    case False
    with cs obtain p' q where m: "may_fill ts tr inventory aq oid p' q b" and a': "a' = apply_fill ts oid p' q b"
      by blast
    have p': "hget (pe_pending (fp_paper b)) oid = Some p'" using m by (simp add: may_fill_def)
    have st: "static p' = static p" and rem: "pp_remaining_size p' = pp_remaining_size p"
      using b p' assms(2) by (auto simp: idles_def touches_def)
    have cfg: "pe_config (fp_paper b) = pe_config (fp_paper a)" and inv: "paper_inv (fp_paper b)"
      using t by (simp_all add: touches_def)
    have oid: "pp_order_id p = oid" using assms(1,2) by (auto simp: paper_inv_def simp del: map_of_eq_Some_iff)
    note fs = static_fields [OF st]
    have av: "available_inventory inventory p' b = available_inventory inventory p a"
      using fs by (simp add: available_inventory_def same)
    have sf: "should_fill p' tr = should_fill p tr" using fs by (cases "pp_side p"; cases "tr_side tr") (simp_all add: should_fill_def)
    have sz: "fill_size tr inventory aq p' b = Some q" using m by (simp add: may_fill_def)
    note caps = fill_size_caps [OF sz, unfolded rem av cfg]
    have fl: "fills ts tr inventory p a (OrderPartiallyFilled oid (pp_mint p) (pp_side p) q r (pp_price p) ts s e) a'"
      if "fp_inventory a' = fp_inventory (track_fill p' q b)" for r s e
      using that m fs sf caps track_fill_same(1) [OF same st]
      by (auto simp: fills_def may_fill_def oid)
    show ?thesis
      using apply_fill_effect [OF inv p' a'] touches_trans [OF t] evs fl fs same
      by (auto simp: fill_events_def)
  qed (use evs same t in auto)
qed

lemma pass_fold:
  assumes "paper_inv (fp_paper a)" "distinct ids" "\<And>k. k \<in> set ids \<Longrightarrow> hget P k \<noteq> None"
    "\<And>k. k \<in> set ids \<Longrightarrow> hget (pe_pending (fp_paper a)) k = hget P k"
  shows "let a' = foldl (check_order lat ts tr inventory aq) a ids in
    paper_inv (fp_paper a') \<and> pe_config (fp_paper a') = pe_config (fp_paper a) \<and>
    engine_le (pe_engine (fp_paper a)) (pe_engine (fp_paper a')) \<and>
    (\<exists>evs. fp_events a' = fp_events a @ evs \<and> distinct (map lo_order_id (fill_events evs)) \<and>
      (\<forall>ev \<in> set (fill_events evs). lo_order_id ev \<in> set ids \<and>
        (\<exists>p. hget P (lo_order_id ev) = Some p \<and> legal_fill ts tr p ev)))"
  using assms
proof (induction ids arbitrary: a)
  case (Cons k ids)
  obtain p where p: "hget P k = Some p" using Cons.prems(3) [of k] by auto
  let ?b = "check_order lat ts tr inventory aq a k"
  obtain evs where t: "touches k a ?b" and evs: "fp_events ?b = fp_events a @ evs"
    and one: "fill_events evs = [] \<or> (\<exists>ev. fill_events evs = [ev] \<and> legal_fill ts tr p ev)"
    using check_order_step [OF Cons.prems(1) _ refl, of k p lat ts tr inventory aq] Cons.prems(4) [of k] p
    by (auto simp: fills_def)
  have b: "paper_inv (fp_paper ?b)" "pe_config (fp_paper ?b) = pe_config (fp_paper a)"
    "engine_le (pe_engine (fp_paper a)) (pe_engine (fp_paper ?b))"
    using t by (simp_all add: touches_def)
  have others: "hget (pe_pending (fp_paper ?b)) j = hget P j" if "j \<in> set ids" for j
  proof -
    have "j \<noteq> k" using that Cons.prems(2) by auto
    with t that Cons.prems(4) [of j] show ?thesis by (simp add: touches_def)
  qed
  have "pp_order_id p = k"
    using Cons.prems(1) Cons.prems(4) [of k] p by (auto simp: paper_inv_def simp del: map_of_eq_Some_iff)
  then have id: "lo_order_id ev = k" if "legal_fill ts tr p ev" for ev using that by (cases ev) auto
  show ?case
    using Cons.IH [OF b(1) _ _ others] Cons.prems(2,3) b(2) one id p
      engine_le_trans [OF b(3)]
    by (auto simp: Let_def evs)
qed (simp add: engine_le_refl)

lemma drop_all_inv: "paper_inv s \<Longrightarrow> paper_inv (foldl (\<lambda>s oid. drop_pending oid s) s ids)"
  by (rule foldl_invariant) (auto intro: inv_drop)

lemma pass_ids: "paper_inv s \<Longrightarrow> distinct (hkeys (pe_pending s)) \<and> (k \<in> set (hkeys (pe_pending s)) \<longrightarrow> hget (pe_pending s) k \<noteq> None)"
  by (auto simp: paper_inv_def hkeys_def map_of_eq_None_iff)

lemma check_fills_inv: "paper_inv s \<Longrightarrow> paper_inv (fst (check_fills_from_trade lat fm now s tr inventory aq))"
  using pass_fold [of "fill_pass_start s" "hkeys (pe_pending s)" "pe_pending s" lat "trade_time fm now tr" tr inventory aq]
    pass_ids [of s] drop_all_inv
  by (auto simp: check_fills_from_trade_def fill_pass_start_def Let_def)

section \<open>Runs\<close>

datatype paper_op =
    PxPlace string "64 word" order
  | PxCancel "64 word" timestamp string
  | PxCancelBegin timestamp string
  | PxCancelFinish "64 word" timestamp string
  | PxTrade "string \<Rightarrow> 64 word" "int \<Rightarrow> timestamp option" timestamp trade "(string, f64) hmap" f64

primrec paper_apply :: "paper \<Rightarrow> paper_op \<Rightarrow> paper" where
  "paper_apply s (PxPlace u l ord) = fst (execute_limit_order u l s ord)"
| "paper_apply s (PxCancel l now oid) = fst (cancel_order l now s oid)"
| "paper_apply s (PxCancelBegin now oid) = fst (cancel_begin now s oid)"
| "paper_apply s (PxCancelFinish l now oid) = fst (cancel_finish l now s oid)"
| "paper_apply s (PxTrade lat fm now tr inventory aq) = fst (check_fills_from_trade lat fm now s tr inventory aq)"

definition paper_le :: "paper \<Rightarrow> paper \<Rightarrow> bool" where
  "paper_le s s' \<longleftrightarrow> pe_config s' = pe_config s \<and> engine_le (pe_engine s) (pe_engine s')"

definition good :: "paper \<Rightarrow> paper \<Rightarrow> bool" where
  "good s s' \<longleftrightarrow> paper_inv s' \<and> paper_le s s'"

lemma paper_le_trans: "paper_le s t \<Longrightarrow> paper_le t u \<Longrightarrow> paper_le s u"
  by (auto simp: paper_le_def intro: engine_le_trans)

lemma good_trans: "good s t \<Longrightarrow> good t u \<Longrightarrow> good s u"
  by (auto simp: good_def intro: paper_le_trans)

lemma good_refl: "paper_inv s \<Longrightarrow> good s s"
  by (simp add: good_def paper_le_def engine_le_refl)

lemma good_metrics [simp]: "good s (on_paper_metrics f s') = good s s'"
  by (simp add: good_def paper_le_def)

lemma good_wrappers:
  assumes "paper_inv s"
  shows "good s (fst (lifecycle_record_place_success oid s))"
    "good s (fst (lifecycle_record_cancel_request_state oid s))"
    "good s (fst (lifecycle_record_cancel_confirmed oid s))"
  using inv_wrappers [OF assms, of oid] wrappers_le [OF assms, of oid] by (simp_all add: good_def paper_le_def)

lemma good_drop: "paper_inv s \<Longrightarrow> good s (drop_pending oid s)"
  by (simp add: good_def paper_le_def inv_drop engine_le_refl)

lemma good_begin: "paper_inv s \<Longrightarrow> good s (fst (cancel_begin now s oid))"
  using good_wrappers(2) [of s oid]
  by (auto simp: cancel_begin_def case_prod_beta split: sum.splits option.splits)

lemma good_finish:
  assumes "paper_inv s"
  shows "good s (fst (cancel_finish lat now s oid))"
proof (cases "hget (pe_pending s) oid")
  case (Some p)
  have "good s (put_pending oid (p\<lparr>pp_cancel_confirm_at := t\<rparr>) s)" for t
    using inv_put [OF assms Some, of "p\<lparr>pp_cancel_confirm_at := t\<rparr>"]
    by (simp add: good_def paper_le_def engine_le_refl)
  moreover have "good s (fst (lifecycle_record_cancel_confirmed oid (drop_pending oid s)))"
    using good_trans [OF good_drop good_wrappers(3)] assms inv_drop by blast
  ultimately show ?thesis
    using Some by (auto simp: cancel_finish_def case_prod_beta Let_def split: sum.splits)
qed (simp add: cancel_finish_def good_refl assms)

lemma good_cancel: "paper_inv s \<Longrightarrow> good s (fst (cancel_order lat now s oid))"
proof -
  assume i: "paper_inv s"
  obtain s1 r where s1: "cancel_begin now s oid = (s1, r)" by fastforce
  then have g: "good s s1" using good_begin [OF i, of now oid] by simp
  then have "good s (fst (cancel_finish lat now s1 oid))"
    using good_trans good_finish by (auto simp: good_def)
  with g show ?thesis by (auto simp: cancel_order_def s1 split: sum.splits option.splits)
qed

lemma good_trade: "paper_inv s \<Longrightarrow> good s (fst (check_fills_from_trade lat fm now s tr inventory aq))"
proof -
  assume i: "paper_inv s"
  let ?a = "foldl (check_order lat (trade_time fm now tr) tr inventory aq) (fill_pass_start s) (hkeys (pe_pending s))"
  have a: "good s (fp_paper ?a)"
    using pass_fold [of "fill_pass_start s" "hkeys (pe_pending s)" "pe_pending s" lat "trade_time fm now tr" tr inventory aq]
      pass_ids [OF i] i by (simp add: good_def paper_le_def fill_pass_start_def Let_def)
  have "good s (foldl (\<lambda>s oid. drop_pending oid s) (fp_paper ?a) ids)" for ids
  proof (rule foldl_invariant [of "good s", OF a])
    show "good s (drop_pending oid t)" if "good s t" for t oid
      using that good_trans [OF that good_drop, of oid] by (simp add: good_def)
  qed
  then show ?thesis by (simp add: check_fills_from_trade_def Let_def)
qed

lemma place_request_inv:
  assumes "paper_inv s" "lifecycle_record_place_request u oid p s = (s', r)"
  shows "good s s'"
proof -
  have i: "lc_inv (pe_engine s)" using assms(1) by (simp add: paper_inv_def)
  have "\<exists>q. pe_engine (fst (lifecycle_record_place_request u oid p s)) = fst (record_place_request u (pe_engine s) q)"
    by (auto simp: lifecycle_record_place_request_def on_engine_def case_prod_beta)
  then obtain q where e: "pe_engine s' = fst (record_place_request u (pe_engine s) q)"
    using assms(2) by auto
  have f: "pe_pending s' = pe_pending s" "pe_config s' = pe_config s"
    using wrapper_frame(9,10) [of u oid p s] assms(2) by simp_all
  note rel = place_request_rel [of "pe_engine s" u q]
  show ?thesis
    using assms(1) lc_rel_inv [OF rel i] lc_rel_le [OF rel i] place_other [of "pe_engine s" _ _ u q]
    unfolding good_def paper_le_def paper_inv_def e f by (simp del: map_of_eq_Some_iff) blast
qed

lemma place_request_agrees:
  assumes "lifecycle_record_place_request u oid p s = (s', Inr lc)" "pp_remaining_size p = pp_original_size p"
  shows "look (pe_engine s) oid = None" "look (pe_engine s') oid = Some lc" "agrees p lc" "lc_state lc = SubmitPending"
proof -
  let ?q = "\<lparr>pr_lifecycle_id = Some (''paper-'' @ oid), pr_client_order_id = oid, pr_mint = pp_mint p,
        pr_market = pp_market p, pr_side = pp_side p, pr_price = pp_price p, pr_size = pp_original_size p,
        pr_time_in_force = pp_time_in_force p, pr_signal_id = pp_signal_id p\<rparr>"
  have e: "pe_engine s' = fst (record_place_request u (pe_engine s) ?q)"
    "snd (record_place_request u (pe_engine s) ?q) = LcOk lc"
    using assms(1) by (auto simp: lifecycle_record_place_request_def on_engine_def split: prod.splits lc_result.splits)
  from place_looks [OF e(2)] assms(2)
  show "look (pe_engine s) oid = None" "look (pe_engine s') oid = Some lc" "agrees p lc" "lc_state lc = SubmitPending"
    by (simp_all add: e(1) agrees_def)
qed

lemma good_put_new:
  assumes "paper_inv s" "look (pe_engine s) oid = Some lc" "agrees p lc" "pp_order_id p = oid"
  shows "good s (put_pending oid p s)"
  using assms by (auto simp: good_def paper_le_def paper_inv_def engine_le_refl simp del: map_of_eq_Some_iff)

lemma good_place:
  assumes "paper_inv s"
  shows "good s (fst (execute_limit_order u lat s ord))"
proof (cases "limit_terms (ord_order_type ord)")
  case (Some t)
  obtain amount lp side tif where t: "t = (amount, lp, side, tif)" by (cases t)
  obtain s1 oid where g: "generate_order_id s = (s1, oid)" by fastforce
  then have s1: "good s s1" using good_refl [OF assms]
    by (auto simp: generate_order_id_def good_def paper_inv_def paper_le_def)
  then have i1: "paper_inv s1" by (simp add: good_def)
  define p where "p = \<lparr>pp_order_id = oid, pp_mint = ord_mint ord, pp_market = ord_market ord, pp_side = side,
              pp_price = lp, pp_original_size = amount, pp_remaining_size = amount,
              pp_placed_at = ord_timestamp ord, pp_time_in_force = tif, pp_signal_id = ord_signal_id ord,
              pp_exit_mode = ord_exit_mode ord, pp_context = ord_context ord,
              pp_eligible_at = compute_eligibility_time lat s1 (ord_timestamp ord), pp_cancel_confirm_at = None\<rparr>"
  obtain s2 r where s2: "lifecycle_record_place_request u oid p s1 = (s2, r)" by fastforce
  have g2: "good s s2" using good_trans [OF s1 place_request_inv [OF i1 s2]] .
  show ?thesis
  proof (cases r)
    case (Inl err)
    with g2 Some t g s2 show ?thesis by (simp add: execute_limit_order_def p_def Let_def)
  next
    case (Inr lc)
    have rs: "pp_remaining_size p = pp_original_size p" "pp_order_id p = oid" by (simp_all add: p_def)
    note ag = place_request_agrees [OF s2 [unfolded Inr] rs(1)]
    obtain s3 q where s3: "(if defers s2 then (s2, Ok Open) else lifecycle_record_place_success oid s2) = (s3, q)"
      by fastforce
    have i2: "paper_inv s2" using g2 by (simp add: good_def)
    have g3: "good s s3" using g2 good_trans [OF g2 good_wrappers(1) [OF i2, of oid]] s3
      by (auto split: if_splits)
    then have i3: "paper_inv s3" by (simp add: good_def)
    have "\<exists>lc'. look (pe_engine s3) oid = Some lc' \<and> quiet lc lc'"
    proof (cases "defers s2")
      case True
      with s3 ag(2) show ?thesis by (auto simp: quiet_def)
    next
      case False
      then have "s3 = fst (lifecycle_record_place_success oid s2)" using s3 by simp
      moreover have "lc_inv (pe_engine s2)" using i2 by (simp add: paper_inv_def)
      ultimately show ?thesis using quiet_kept [OF quiet_success _ ag(2)] by simp
    qed
    then have "good s (put_pending oid p s3)"
      using good_trans [OF g3 good_put_new [OF i3 _ _ rs(2)]] agrees_quiet [OF ag(3)] by blast
    with g3 Some t g s2 s3 Inr show ?thesis
      by (auto simp: execute_limit_order_def p_def [symmetric] Let_def split: sum.splits)
  qed
qed (simp add: execute_limit_order_def good_refl assms)

lemma good_apply: "paper_inv s \<Longrightarrow> good s (paper_apply s x)"
  by (cases x) (simp_all add: good_place good_cancel good_begin good_finish good_trade)

interpretation paper: progress_machine paper_apply "\<lambda>_. True" paper_inv paper_le
proof
  show "paper_le s t \<Longrightarrow> paper_le t u \<Longrightarrow> paper_le s u" for s t u by (rule paper_le_trans)
  show "paper_le s s" for s by (simp add: paper_le_def engine_le_refl)
qed (use good_apply in \<open>auto simp: good_def\<close>)

lemma paper_start: "paper_inv (paper_with_config c)"
  by (simp add: paper_inv_def paper_with_config_def)

text \<open>The branch of \<open>LcPanic\<close> is dead: on a well-formed executor no engine call panics.\<close>

lemma wrappers_no_panic:
  assumes "paper_inv s"
  shows "snd (lifecycle_record_place_request u oid p s) \<noteq> Inl EnginePanic"
    "snd (lifecycle_record_place_success oid s) \<noteq> Inl EnginePanic"
    "snd (lifecycle_record_cancel_request_state oid s) \<noteq> Inl EnginePanic"
    "snd (lifecycle_record_cancel_confirmed oid s) \<noteq> Inl EnginePanic"
    "snd (lifecycle_record_fill_evidence oid q s) \<noteq> Inl EnginePanic"
proof -
  have i: "lc_inv (pe_engine s)" using assms by (simp add: paper_inv_def)
  have m: "map_sum id f r \<noteq> Inl EnginePanic" if "r \<noteq> Inl EnginePanic" for f :: "'x \<Rightarrow> 'y" and r
    using that by (cases r) auto
  have w: "snd (on_engine f wrap s) \<noteq> Inl EnginePanic"
    if "snd (f (pe_engine s)) \<noteq> LcPanic" "\<And>x. wrap x \<noteq> EnginePanic" for f :: "engine \<Rightarrow> engine \<times> 'x lc_result" and wrap
    using that by (cases "f (pe_engine s)") (auto simp: on_engine_def split: lc_result.splits)
  show "snd (lifecycle_record_place_request u oid p s) \<noteq> Inl EnginePanic"
    unfolding lifecycle_record_place_request_def by (rule w) (simp_all add: not_panic_if_inv [OF i])
  show "snd (lifecycle_record_place_success oid s) \<noteq> Inl EnginePanic"
    unfolding lifecycle_record_place_success_def case_prod_beta snd_conv
    by (intro m w) (simp_all add: not_panic_if_inv [OF i])
  show "snd (lifecycle_record_cancel_request_state oid s) \<noteq> Inl EnginePanic"
    unfolding lifecycle_record_cancel_request_state_def case_prod_beta snd_conv
    by (intro m w) (simp_all add: not_panic_if_inv [OF i])
  show "snd (lifecycle_record_cancel_confirmed oid s) \<noteq> Inl EnginePanic"
    unfolding lifecycle_record_cancel_confirmed_def Let_def case_prod_beta snd_conv
    by (intro m w) (simp_all add: not_panic_if_inv [OF i] record_cancel_confirmed_def)
  show "snd (lifecycle_record_fill_evidence oid q s) \<noteq> Inl EnginePanic"
    unfolding lifecycle_record_fill_evidence_def case_prod_beta snd_conv
    by (intro m w) (simp_all add: not_panic_if_inv [OF i])
qed

section \<open>Inventory\<close>

fun val :: "f64 \<Rightarrow> rat" where
  "val (Fin a) = a" | "val _ = 0"

fun sold_by :: "string \<Rightarrow> limit_order_event \<Rightarrow> rat" where
  "sold_by m (OrderPartiallyFilled oid mint side q rem price t sig em) = (if mint = m \<and> side = Sell then val q else 0)"
| "sold_by m ev = 0"

definition sold :: "string \<Rightarrow> limit_order_event list \<Rightarrow> rat" where
  "sold m evs = sum_list (map (sold_by m) (fill_events evs))"

lemma sold_append [simp]: "sold m (xs @ ys) = sold m xs + sold m ys" "sold m [] = 0"
  by (simp_all add: sold_def)

lemma sold_fill_events: "sold m (fill_events evs) = sold m evs"
  by (simp add: sold_def fill_events_def)

definition sold_so_far :: "string \<Rightarrow> int \<Rightarrow> fill_pass \<Rightarrow> bool" where
  "sold_so_far m k a \<longleftrightarrow> (\<exists>j. 0 \<le> j \<and> j \<le> max 0 k \<and>
     unwrap_or (hget (fp_inventory a) m) f0 = grid (- j) \<and> sold m (fp_events a) = of_int j / 2 ^ 20)"

lemma fill_sold:
  assumes "fills ts tr inventory p a ev a'" "fill_events evs = [ev]" "fp_events a' = fp_events a @ evs"
    "sold_so_far m k a" "tr_side tr = TradeBuy" "pc_enforce_inventory (pe_config (fp_paper a))"
    "hget inventory m = Some (grid k)" "\<bar>k\<bar> \<le> 2 ^ 52" "tr_size tr = grid t"
    "pp_mint p = m \<Longrightarrow> pp_remaining_size p = grid r"
  shows "sold_so_far m k a'"
proof -
  obtain j where j: "0 \<le> j" "j \<le> max 0 k" "unwrap_or (hget (fp_inventory a) m) f0 = grid (- j)"
    "sold m (fp_events a) = of_int j / 2 ^ 20" using assms(4) by (auto simp: sold_so_far_def)
  obtain q rem sig em where ev: "ev = OrderPartiallyFilled (pp_order_id p) (pp_mint p) (pp_side p) q rem (pp_price p) ts sig em"
    and inv: "fp_inventory a' = fp_inventory (track_fill p q a)" and lf: "legal_fill ts tr p ev"
    and cap: "pp_side p = Sell \<Longrightarrow> \<not> fle (available_inventory inventory p a) f0 \<and>
          q = fmin (fmin (pp_remaining_size p) (tr_size tr)) (available_inventory inventory p a)"
    using assms(1,6) by (auto simp: fills_def)
  have side: "pp_side p = Sell" using lf assms(5) by (auto simp: ev should_fill_def split: order_side.splits)
  have sold: "sold m evs = (if pp_mint p = m then val q else 0)"
    using assms(2) sold_fill_events [of m evs, symmetric] by (simp add: sold_def fill_events_def ev side)
  have inv': "fp_inventory a' = hput (pp_mint p) (fsub (unwrap_or (hget (fp_inventory a) (pp_mint p)) f0) q) (fp_inventory a)"
    unfolding inv by (simp add: track_fill_def side Let_def)
  show ?thesis
  proof (cases "pp_mint p = m")
    case True
    have "available_inventory inventory p a = grid (k - j)"
      using assms(7,8) True j fadd_grid [of k "- j"] by (simp add: available_inventory_def)
    then have q: "q = grid (min (min r t) (k - j))" and pos: "0 < k - j"
      using cap [OF side] assms(9) assms(10) [OF True] by (auto simp: fmin_grid f0_grid)
    have "0 < min (min r t) (k - j)" using lf q by (simp add: ev f0_grid del: min_less_iff_conj)
    moreover have "fsub (grid (- j)) q = grid (- (j + min (min r t) (k - j)))"
      using fsub_grid [of "- j" "min (min r t) (k - j)"] assms(8) j pos calculation by (simp add: q)
    ultimately show ?thesis
      using j pos sold True unfolding sold_so_far_def inv'
      by (intro exI [of _ "j + min (min r t) (k - j)"])
        (simp add: assms(3) q grid_def add_divide_distrib)
  next
    case False
    with j sold show ?thesis unfolding sold_so_far_def inv' by (auto simp: assms(3))
  qed
qed

lemma pass_sold:
  assumes "paper_inv (fp_paper a)" "distinct ids" "\<And>i. i \<in> set ids \<Longrightarrow> hget P i \<noteq> None"
    "\<And>i. i \<in> set ids \<Longrightarrow> hget (pe_pending (fp_paper a)) i = hget P i"
    "sold_so_far m k a" "tr_side tr = TradeBuy" "pc_enforce_inventory (pe_config (fp_paper a))"
    "hget inventory m = Some (grid k)" "\<bar>k\<bar> \<le> 2 ^ 52" "tr_size tr = grid t"
    "\<And>i p. hget P i = Some p \<Longrightarrow> pp_mint p = m \<Longrightarrow> \<exists>r. pp_remaining_size p = grid r"
  shows "sold_so_far m k (foldl (check_order lat ts tr inventory aq) a ids)"
  using assms(1-7)
proof (induction ids arbitrary: a)
  case (Cons i ids)
  obtain p where p: "hget P i = Some p" using Cons.prems(3) [of i] by auto
  let ?b = "check_order lat ts tr inventory aq a i"
  have pa: "hget (pe_pending (fp_paper a)) i = Some p" using Cons.prems(4) [of i] p by simp
  obtain evs where t: "touches i a ?b" and evs: "fp_events ?b = fp_events a @ evs"
    and one: "fill_events evs = [] \<and> fp_inventory ?b = fp_inventory a \<or>
      (\<exists>ev. fill_events evs = [ev] \<and> fills ts tr inventory p a ev ?b)"
    using check_order_step [OF Cons.prems(1) pa refl, of lat ts tr inventory aq] by blast
  obtain r where r: "pp_mint p = m \<Longrightarrow> pp_remaining_size p = grid r" using assms(11) [OF p] by blast
  have none: "sold m evs = 0" if "fill_events evs = []" using that by (simp add: sold_def)
  have "sold_so_far m k ?b"
    using one
  proof
    assume "fill_events evs = [] \<and> fp_inventory ?b = fp_inventory a"
    with Cons.prems(5) none show ?thesis by (simp add: sold_so_far_def evs)
  next
    assume "\<exists>ev. fill_events evs = [ev] \<and> fills ts tr inventory p a ev ?b"
    then obtain ev where e: "fill_events evs = [ev]" "fills ts tr inventory p a ev ?b" by blast
    show ?thesis
      by (rule fill_sold [OF e(2,1) evs Cons.prems(5-7) assms(8-10) r])
  qed
  moreover have "paper_inv (fp_paper ?b)" "pc_enforce_inventory (pe_config (fp_paper ?b))"
    using t Cons.prems(7) by (simp_all add: touches_def)
  moreover have "hget (pe_pending (fp_paper ?b)) j = hget P j" if "j \<in> set ids" for j
  proof -
    have "j \<noteq> i" using that Cons.prems(2) by auto
    with t that Cons.prems(4) [of j] show ?thesis by (simp add: touches_def)
  qed
  ultimately show ?case using Cons.IH [of ?b] Cons.prems(2,3,6) by simp
qed simp

section \<open>Orders that are closed but stay pending\<close>

text \<open>What an operation never removes: an order whose lifecycle is over.\<close>

definition closed_pending :: "string \<Rightarrow> paper_order \<Rightarrow> lc_order \<Rightarrow> paper \<Rightarrow> bool" where
  "closed_pending oid p ord s \<longleftrightarrow> paper_inv s \<and> hget (pe_pending s) oid = Some p \<and>
     look (pe_engine s) oid = Some ord \<and> lco_is_terminal ord"

lemma closed_good:
  assumes "good s s'" "closed_pending oid p ord s" "hget (pe_pending s') oid = hget (pe_pending s) oid"
  shows "closed_pending oid p ord s'"
  using assms look_forward [of "pe_engine s" "pe_engine s'" oid ord]
  by (simp add: closed_pending_def good_def paper_le_def)

lemma closed_check_self:
  assumes "closed_pending oid p ord (fp_paper a)"
  shows "check_order lat ts tr inventory aq a oid = a"
proof -
  obtain t where "lc_state ord = Terminal t"
    using assms by (cases "lc_state ord") (auto simp: closed_pending_def lco_is_terminal_def)
  with assms show ?thesis
    by (auto simp: closed_pending_def check_order_def lifecycle_state_def lifecycle_order_ref_def
      settle_order_def try_fill_def)
qed

lemma closed_pass:
  assumes "closed_pending oid p ord (fp_paper a)" "oid \<notin> set (fp_remove a)" "distinct ids"
    "\<And>i. i \<in> set ids \<Longrightarrow> hget (pe_pending (fp_paper a)) i \<noteq> None"
  shows "closed_pending oid p ord (fp_paper (foldl (check_order lat ts tr inventory aq) a ids)) \<and>
    oid \<notin> set (fp_remove (foldl (check_order lat ts tr inventory aq) a ids))"
  using assms
proof (induction ids arbitrary: a)
  case (Cons i ids)
  let ?b = "check_order lat ts tr inventory aq a i"
  have "closed_pending oid p ord (fp_paper ?b) \<and> oid \<notin> set (fp_remove ?b) \<and>
     (\<forall>j \<in> set ids. hget (pe_pending (fp_paper ?b)) j \<noteq> None)"
  proof (cases "i = oid")
    case True
    with closed_check_self [OF Cons.prems(1)] Cons.prems show ?thesis by auto
  next
    case False
    obtain q where q: "hget (pe_pending (fp_paper a)) i = Some q" using Cons.prems(4) [of i] by auto
    have i: "paper_inv (fp_paper a)" using Cons.prems(1) by (simp add: closed_pending_def)
    have t: "touches i a ?b" using check_order_step [OF i q refl] by blast
    then have g: "good (fp_paper a) (fp_paper ?b)" by (simp add: touches_def good_def paper_le_def)
    have other: "hget (pe_pending (fp_paper ?b)) j = hget (pe_pending (fp_paper a)) j" if "j \<noteq> i" for j
      using t that by (simp add: touches_def)
    have "set (fp_remove ?b) \<subseteq> insert i (set (fp_remove a))" using t by (simp add: touches_def)
    moreover have "\<forall>j \<in> set ids. hget (pe_pending (fp_paper ?b)) j \<noteq> None"
    proof
      fix j assume j: "j \<in> set ids"
      with Cons.prems(3) have "j \<noteq> i" by auto
      with other j Cons.prems(4) [of j] show "hget (pe_pending (fp_paper ?b)) j \<noteq> None" by simp
    qed
    ultimately show ?thesis
      using closed_good [OF g Cons.prems(1) other] False Cons.prems(2) by auto
  qed
  then show ?case using Cons.IH [of ?b] Cons.prems(3) by auto
qed simp

lemma closed_trade:
  assumes "closed_pending oid p ord s"
  shows "closed_pending oid p ord (fst (check_fills_from_trade lat fm now s tr inventory aq))"
proof -
  have i: "paper_inv s" using assms by (simp add: closed_pending_def)
  let ?a = "foldl (check_order lat (trade_time fm now tr) tr inventory aq) (fill_pass_start s) (hkeys (pe_pending s))"
  have a: "closed_pending oid p ord (fp_paper ?a) \<and> oid \<notin> set (fp_remove ?a)"
    using closed_pass [of oid p ord "fill_pass_start s" "hkeys (pe_pending s)"] pass_ids [OF i] assms
    by (simp add: fill_pass_start_def)
  have "closed_pending oid p ord (foldl (\<lambda>s oid. drop_pending oid s) (fp_paper ?a) (fp_remove ?a))"
    by (rule foldl_invariant) (use a in \<open>auto simp: closed_pending_def inv_drop\<close>)
  then show ?thesis
    by (simp add: check_fills_from_trade_def Let_def closed_pending_def)
qed

lemma closed_begin:
  assumes "closed_pending oid p ord s"
  shows "closed_pending oid p ord (fst (cancel_begin now s k))"
    "snd (cancel_begin now s oid) = Ok (Some (already_removed oid now))"
proof -
  have i: "paper_inv s" using assms by (simp add: closed_pending_def)
  have "pe_pending (fst (cancel_begin now s k)) = pe_pending s"
    using wrapper_frame(3) [of k s] by (auto simp: cancel_begin_def case_prod_beta split: sum.splits option.splits)
  then show "closed_pending oid p ord (fst (cancel_begin now s k))"
    by (intro closed_good [OF good_begin [OF i] assms]) simp
  obtain l t where "hget (client_to_lifecycle (pe_engine s)) oid = Some l" "hget (orders (pe_engine s)) l = Some ord"
    "lc_state ord = Terminal t"
    using assms by (cases "lc_state ord") (auto simp: closed_pending_def engine_get_def bind_eq_Some_conv lco_is_terminal_def)
  then show "snd (cancel_begin now s oid) = Ok (Some (already_removed oid now))"
    by (simp add: cancel_begin_def lifecycle_record_cancel_request_state_def on_engine_def lifecycle_order_ref_def
      record_cancel_request_def Let_def)
qed

lemma finish_other:
  "k \<noteq> oid \<Longrightarrow> hget (pe_pending (fst (cancel_finish lat now s k))) oid = hget (pe_pending s) oid"
  using wrapper_frame(5) [of k "drop_pending k s"]
  by (auto simp: cancel_finish_def case_prod_beta Let_def split: option.split sum.split)

lemma closed_cancel:
  assumes "closed_pending oid p ord s"
  shows "closed_pending oid p ord (fst (cancel_order lat now s k))"
proof (cases "k = oid")
  case True
  obtain s1 r where b: "cancel_begin now s oid = (s1, r)" by fastforce
  with closed_begin(1) [OF assms, of now oid] closed_begin(2) [OF assms, of now] True show ?thesis
    by (simp add: cancel_order_def)
next
  case False
  have i: "paper_inv s" using assms by (simp add: closed_pending_def)
  obtain s1 r where b: "cancel_begin now s k = (s1, r)" by fastforce
  then have c1: "closed_pending oid p ord s1" using closed_begin(1) [OF assms, of now k] by simp
  then have i1: "paper_inv s1" by (simp add: closed_pending_def)
  have "closed_pending oid p ord (fst (cancel_finish lat now s1 k))"
    by (rule closed_good [OF good_finish [OF i1] c1 finish_other [OF False]])
  with c1 b show ?thesis by (auto simp: cancel_order_def split: sum.splits option.splits)
qed

lemma place_pending:
  assumes "hget (pe_pending (fst (execute_limit_order u lat s ord))) k \<noteq> hget (pe_pending s) k"
  shows "look (pe_engine s) k = None"
proof -
  obtain s1 oid where g: "generate_order_id s = (s1, oid)" by fastforce
  then have e: "pe_engine s1 = pe_engine s" "pe_pending s1 = pe_pending s" by (auto simp: generate_order_id_def)
  obtain amount lp side tif where t: "limit_terms (ord_order_type ord) = Some (amount, lp, side, tif)"
    using assms by (cases "limit_terms (ord_order_type ord)") (auto simp: execute_limit_order_def)
  define p where "p = \<lparr>pp_order_id = oid, pp_mint = ord_mint ord, pp_market = ord_market ord, pp_side = side,
              pp_price = lp, pp_original_size = amount, pp_remaining_size = amount,
              pp_placed_at = ord_timestamp ord, pp_time_in_force = tif, pp_signal_id = ord_signal_id ord,
              pp_exit_mode = ord_exit_mode ord, pp_context = ord_context ord,
              pp_eligible_at = compute_eligibility_time lat s1 (ord_timestamp ord), pp_cancel_confirm_at = None\<rparr>"
  obtain s2 r where s2: "lifecycle_record_place_request u oid p s1 = (s2, r)" by fastforce
  have e2: "pe_pending s2 = pe_pending s" using wrapper_frame(9) [of u oid p s1] s2 e by simp
  have rs: "pp_remaining_size p = pp_original_size p" by (simp add: p_def)
  show ?thesis
  proof (cases r)
    case (Inl err)
    with assms e2 show ?thesis by (simp add: execute_limit_order_def g t s2 p_def [symmetric] Let_def)
  next
    case (Inr lc)
    have "k = oid"
    proof (rule ccontr)
      assume "k \<noteq> oid"
      with assms e2 wrapper_frame(1) [of oid s2] Inr show False
        by (simp add: execute_limit_order_def g t s2 p_def [symmetric] Let_def case_prod_beta
          split: sum.splits if_splits)
    qed
    with place_request_agrees(1) [OF s2 [unfolded Inr] rs] e show ?thesis by simp
  qed
qed

lemma closed_place:
  assumes "closed_pending oid p ord s"
  shows "closed_pending oid p ord (fst (execute_limit_order u lat s o'))"
proof -
  have "paper_inv s" "look (pe_engine s) oid \<noteq> None" using assms by (simp_all add: closed_pending_def)
  with place_pending [of u lat s o' oid] show ?thesis by (blast intro: closed_good [OF good_place assms])
qed

fun splits_cancel :: "paper_op \<Rightarrow> bool" where
  "splits_cancel (PxCancelFinish l now oid) = True"
| "splits_cancel x = False"

lemma closed_apply: "closed_pending oid p ord s \<Longrightarrow> \<not> splits_cancel x \<Longrightarrow> closed_pending oid p ord (paper_apply s x)"
  by (cases x) (simp_all add: closed_place closed_cancel closed_begin closed_trade)

interpretation closed: machine paper_apply "\<lambda>x. \<not> splits_cancel x" "closed_pending oid p ord" for oid p ord
  by unfold_locales (rule closed_apply)

section \<open>Properties\<close>

text \<open>A concrete run: a sell order of one unit and the machine epsilon, and a trade of one unit.\<close>

definition demo_sell :: "rat \<Rightarrow> order" where
  "demo_sell q = new_limit_sell ''m'' None (Fin q) (Fin (1 / 2)) False GoodTilCancelled 0 None None"

definition demo_trade :: trade where
  "demo_trade = \<lparr>tr_asset_id = ''m'', tr_side = TradeBuy, tr_price = Fin (1 / 2), tr_size = Fin 1, tr_timestamp = 5\<rparr>"

definition demo_oid :: string where "demo_oid = ''paper-order-1''"

definition demo_paper :: "rat \<Rightarrow> paper" where
  "demo_paper q = paper_apply (paper_with_config paper_config_default) (PxPlace ''u'' 0 (demo_sell q))"

definition demo_paper_order :: "rat \<Rightarrow> paper_order" where
  "demo_paper_order q = \<lparr>pp_order_id = demo_oid, pp_mint = ''m'', pp_market = None, pp_side = Sell,
     pp_price = Fin (1 / 2), pp_original_size = Fin q, pp_remaining_size = Fin q, pp_placed_at = 0,
     pp_time_in_force = GoodTilCancelled, pp_signal_id = None, pp_exit_mode = None, pp_context = None,
     pp_eligible_at = 0, pp_cancel_confirm_at = None\<rparr>"

definition demo_lc :: "rat \<Rightarrow> lc_order" where
  "demo_lc q = \<lparr>lc_lifecycle_id = ''paper-'' @ demo_oid, lc_client_order_id = demo_oid, lc_venue_order_id = Some demo_oid,
     lc_mint = ''m'', lc_market = None, lc_side = Sell, lc_price = Fin (1 / 2), lc_original_size = Fin q,
     lc_remaining_size = Fin q, lc_time_in_force = GoodTilCancelled, lc_state = Open,
     lc_cancel_requested = False, lc_signal_id = None\<rparr>"

lemma demo_generate: "pe_counter s = 1 \<Longrightarrow> generate_order_id s = (s\<lparr>pe_counter := 2\<rparr>, demo_oid)"
  by (simp add: generate_order_id_def demo_oid_def digits.simps char_of_def bit_0)

lemma demo_paper_eq:
  assumes "0 < q"
  shows "demo_paper q = \<lparr>pe_pending = [(demo_oid, demo_paper_order q)], pe_counter = 2,
    pe_config = paper_config_default, pe_metrics = None,
    pe_engine = \<lparr>orders = [(''paper-'' @ demo_oid, demo_lc q)], client_to_lifecycle = [(demo_oid, ''paper-'' @ demo_oid)],
      venue_to_lifecycle = [(demo_oid, ''paper-'' @ demo_oid)], metrics = None, mode_label = ''unknown'',
      cancel_policy = Idempotent\<rparr>\<rparr>"
  using assms
  by (simp add: demo_paper_def demo_paper_order_def demo_lc_def demo_sell_def new_limit_sell_def paper_with_config_def paper_config_default_def
    execute_limit_order_def demo_generate lifecycle_record_place_request_def
    lifecycle_record_place_success_def on_engine_def record_place_request_def record_place_success_def engine_new_def
    put_order_def hput_def emit_defs on_metrics_def f0_def Let_def compute_eligibility_time_def
    lifecycle_order_ref_def venue_conflict_def ensure_venue_mapping_def lco_is_terminal_def put_pending_def
    on_paper_metrics_def defers_def)

text \<open>The books of the paper executor agree: after any operations, cancels interleaved at their lock
  included, every pending order is filed under its id and has a lifecycle record with the same market side,
  price, size and remaining size; and over further operations lifecycle records only move forward.\<close>

theorem paper_books_agree:
  "let s = foldl paper_apply (paper_with_config c) ops in
     paper_inv s \<and> paper_le s (foldl paper_apply s later)"
proof -
  have "paper_inv (foldl paper_apply (paper_with_config c) ops)"
    by (rule paper.run_inv [OF paper_start]) (simp add: list_all_iff)
  with paper.run_le show ?thesis by (simp add: Let_def list_all_iff)
qed

text \<open>C39. Every simulated fill is legal: a trade fills each order at most once, and only an order that was
  pending for the traded asset, was eligible by the time of the trade and is crossed by its price, at the
  order's own price, for a positive size of at most the trade's and the order's remaining size.\<close>

theorem paper_fills_legal:
  "let s = foldl paper_apply (paper_with_config c) ops;
       evs = fill_events (snd (check_fills_from_trade lat fm now s tr inventory aq)) in
     distinct (map lo_order_id evs) \<and>
     list_all (\<lambda>ev. \<exists>p. hget (pe_pending s) (lo_order_id ev) = Some p \<and>
       legal_fill (trade_time fm now tr) tr p ev) evs"
proof -
  let ?s = "foldl paper_apply (paper_with_config c) ops"
  have i: "paper_inv ?s" by (rule paper.run_inv [OF paper_start]) (simp add: list_all_iff)
  show ?thesis
    using pass_fold [of "fill_pass_start ?s" "hkeys (pe_pending ?s)" "pe_pending ?s" lat "trade_time fm now tr" tr
        inventory aq] pass_ids [OF i] i
    by (auto simp: Let_def fill_pass_start_def check_fills_from_trade_def list_all_iff)
qed

text \<open>No naked shorts: with the inventory constraint, on sizes of the binary grid, one trade never sells
  more of an asset than the inventory held.\<close>

theorem no_naked_shorts:
  assumes "pc_enforce_inventory c" "hget inventory m = Some (grid k)" "\<bar>k\<bar> \<le> 2 ^ 52" "tr_size tr = grid t"
    "\<And>oid p. hget (pe_pending (foldl paper_apply (paper_with_config c) ops)) oid = Some p \<Longrightarrow> pp_mint p = m \<Longrightarrow>
       \<exists>r. pp_remaining_size p = grid r"
  shows "sold m (snd (check_fills_from_trade lat fm now (foldl paper_apply (paper_with_config c) ops) tr inventory aq))
    \<le> max 0 (of_int k / 2 ^ 20)"
proof -
  let ?s = "foldl paper_apply (paper_with_config c) ops"
  let ?ts = "trade_time fm now tr"
  let ?a = "foldl (check_order lat ?ts tr inventory aq) (fill_pass_start ?s) (hkeys (pe_pending ?s))"
  have i: "paper_inv ?s" by (rule paper.run_inv [OF paper_start]) (simp add: list_all_iff)
  have "paper_le (paper_with_config c) ?s" by (rule paper.run_le [OF paper_start]) (simp add: list_all_iff)
  then have e: "pc_enforce_inventory (pe_config ?s)"
    using assms(1) by (simp add: paper_le_def paper_with_config_def)
  have evs: "snd (check_fills_from_trade lat fm now ?s tr inventory aq) = fp_events ?a"
    by (simp add: check_fills_from_trade_def Let_def)
  show ?thesis
  proof (cases "tr_side tr")
    case TradeBuy
    have "sold_so_far m k (fill_pass_start ?s)"
      by (auto simp: sold_so_far_def fill_pass_start_def f0_grid intro: exI [of _ 0])
    then have "sold_so_far m k ?a"
      using pass_ids [OF i] i e
      by (intro pass_sold [of "fill_pass_start ?s" _ "pe_pending ?s", OF _ _ _ _ _ TradeBuy _ assms(2-5)])
        (auto simp: fill_pass_start_def)
    then obtain j where "j \<le> max 0 k" "sold m (fp_events ?a) = of_int j / 2 ^ 20" by (auto simp: sold_so_far_def)
    then show ?thesis unfolding evs by (cases "0 \<le> k") (auto simp: divide_right_mono max_def)
  next
    case TradeSell
    have "list_all (\<lambda>ev. \<exists>p. legal_fill ?ts tr p ev) (fill_events (fp_events ?a))"
      using pass_fold [of "fill_pass_start ?s" "hkeys (pe_pending ?s)" "pe_pending ?s" lat ?ts tr inventory aq]
        pass_ids [OF i] i by (auto simp: Let_def fill_pass_start_def list_all_iff)
    moreover have "sold_by m ev = 0" if "legal_fill ?ts tr p ev" for p ev
      using that TradeSell by (cases ev) (auto simp: should_fill_def)
    ultimately have "list_all (\<lambda>ev. sold_by m ev = 0) (fill_events (fp_events ?a))" by (auto simp: list_all_iff)
    moreover have "sum_list (map f xs) = (0 :: rat)" if "list_all (\<lambda>x. f x = 0) xs" for f and xs :: "limit_order_event list"
      using that by (induction xs) auto
    ultimately have "sold m (fp_events ?a) = 0" by (simp add: sold_def)
    then show ?thesis unfolding evs by simp
  qed
qed

theorem no_naked_shorts_witness:
  "sold ''m'' (snd (check_fills_from_trade (\<lambda>_. 0) Some 0 (demo_paper 1) demo_trade [(''m'', Fin 10)] (Fin 0))) \<le> 10"
proof -
  have g: "grid (10 * 2 ^ 20) = Fin 10" "grid (2 ^ 20) = Fin 1" by (simp_all add: grid_def)
  have s: "demo_paper 1 = foldl paper_apply (paper_with_config paper_config_default) [PxPlace ''u'' 0 (demo_sell 1)]"
    by (simp add: demo_paper_def)
  have "sold ''m'' (snd (check_fills_from_trade (\<lambda>_. 0) Some 0 (foldl paper_apply (paper_with_config paper_config_default)
      [PxPlace ''u'' 0 (demo_sell 1)]) demo_trade [(''m'', Fin 10)] (Fin 0))) \<le> max 0 (of_int (10 * 2 ^ 20) / 2 ^ 20)"
  proof (rule no_naked_shorts)
    show "hget [(''m'', Fin 10)] ''m'' = Some (grid (10 * 2 ^ 20))" "tr_size demo_trade = grid (2 ^ 20)"
      unfolding g by (simp_all add: demo_trade_def)
    show "\<exists>r. pp_remaining_size p = grid r" if "hget (pe_pending (foldl paper_apply
        (paper_with_config paper_config_default) [PxPlace ''u'' 0 (demo_sell 1)])) oid = Some p" for oid p
      using that g(2) unfolding s [symmetric]
      by (auto simp: demo_paper_eq demo_paper_order_def split: if_splits intro: exI [of _ "2 ^ 20"])
  qed (simp_all add: paper_config_default_def)
  then show ?thesis unfolding s by simp
qed

text \<open>A closed order is never removed: when a fill leaves at most the machine epsilon of an order, its
  lifecycle is over but it stays among the pending orders, unfillable, through every later placement, trade
  and cancel; cancelling it reports that it has already been removed.\<close>

theorem closed_order_stays_pending:
  assumes "paper_inv s" "hget (pe_pending s) oid = Some p" "look (pe_engine s) oid = Some ord"
    "lco_is_terminal ord" "list_all (\<lambda>x. \<not> splits_cancel x) ops"
  shows "hget (pe_pending (foldl paper_apply s ops)) oid = Some p \<and>
    snd (cancel_order lat now (foldl paper_apply s ops) oid) = Ok (already_removed oid now)"
proof -
  have "closed_pending oid p ord s" using assms by (simp add: closed_pending_def)
  from closed.run_inv [OF this assms(5)] have c: "closed_pending oid p ord (foldl paper_apply s ops)" .
  obtain s1 r where b: "cancel_begin now (foldl paper_apply s ops) oid = (s1, r)" by fastforce
  with closed_begin(2) [OF c, of now] c show ?thesis by (simp add: cancel_order_def closed_pending_def)
qed


lemma demo_dust: "rnd (1 / 4503599627370496) = 1 / 4503599627370496"
proof -
  have "rnd (2 powi (- 52)) = 2 powi (- 52)" using f64_ok_consts(4) by (simp only: f_epsilon_def f64_ok.simps)
  moreover have "(2 :: rat) powi (- 52) = 1 / 4503599627370496" by simp
  ultimately show ?thesis by (simp only:)
qed

theorem closed_order_stays_pending_witness:
  "\<exists>p. pp_remaining_size p = Fin (2 powi (- 52)) \<and>
     hget (pe_pending (paper_apply (paper_apply (demo_paper (4503599627370497 / 4503599627370496))
       (PxTrade (\<lambda>_. 0) Some 5 demo_trade [(''m'', Fin 10)] (Fin 0))) (PxCancel 0 9 demo_oid))) demo_oid = Some p"
proof -
  let ?q = "4503599627370497 / 4503599627370496 :: rat"
  let ?s = "paper_apply (demo_paper ?q) (PxTrade (\<lambda>_. 0) Some 5 demo_trade [(''m'', Fin 10)] (Fin 0))"
  have q: "0 < ?q" by simp
  have "paper_inv (demo_paper ?q)" unfolding demo_paper_def using good_apply [OF paper_start] unfolding good_def by blast
  then have i: "paper_inv ?s" using good_apply unfolding good_def by blast
  have p: "hget (pe_pending ?s) demo_oid = Some (demo_paper_order ?q\<lparr>pp_remaining_size := Fin (1 / 4503599627370496)\<rparr>) \<and>
    look (pe_engine ?s) demo_oid = Some (demo_lc ?q\<lparr>lc_remaining_size := Fin (1 / 4503599627370496),
      lc_state := Terminal TFilled\<rparr>)"
    unfolding demo_paper_eq [OF q]
    by (simp add: check_fills_from_trade_def hkeys_def fill_pass_start_def trade_time_def
      check_order_def lifecycle_state_def engine_get_def lifecycle_order_ref_def settle_order_def try_fill_def
      should_fill_def fill_size_def Let_def demo_trade_def available_inventory_def demo_paper_order_def demo_lc_def
      paper_config_default_def f0_def fmin_def apply_fill_def lifecycle_record_fill_evidence_def on_engine_def
      record_fill_evidence_def lco_is_terminal_def fmax_def emit_defs put_order_def on_metrics_def hput_def put_pending_def
      track_fill_def on_paper_metrics_def f_of_rep demo_dust f_epsilon_def)
  show ?thesis
    using closed_order_stays_pending [OF i conjunct1 [OF p] conjunct2 [OF p], of "[PxCancel 0 9 demo_oid]"]
    by (simp add: lco_is_terminal_def)
qed

end
