(* ===== verification/Backtest.thy ===== *)
theory Backtest
  imports Paper "HOL-Library.List_Lexorder" "HOL-Library.Char_ord"
begin

text \<open>
  The backtest executor, \<open>execution/backtest/executor.rs\<close> with \<open>types.rs\<close>, \<open>config.rs\<close>, \<open>latency.rs\<close>,
  \<open>market_registry.rs\<close>, \<open>quote_lifecycle.rs\<close> and \<open>fill_engine.rs\<close> of its directory: market orders at the
  last price with slippage, limit orders as quotes in lanes (one per market, asset and side) that are
  placed, go live, are cancelled and replaced after simulated latencies, and fills against recorded trades
  including the mirrored trades of the complementary asset.  Arguments of the model: the latencies drawn
  for an order in a call (\<open>draws\<close>, place and cancel, 64-bit milliseconds), the wall clock, chrono's
  conversion of milliseconds and the fresh UUID of the engine.  The operator \<open>?\<close> is \<open>and_then\<close>: an error
  ends the call, and the state keeps what was changed before it.
\<close>

section \<open>Data\<close>

record bt_order =
  bo_order_id :: string
  bo_mint :: string
  bo_market :: "string option"
  bo_side :: order_side
  bo_price :: f64
  bo_original_size :: f64
  bo_remaining_size :: f64
  bo_placed_at :: timestamp
  bo_time_in_force :: time_in_force
  bo_signal_id :: "string option"
  bo_exit_mode :: "exit_mode option"
  bo_context :: "json option"
  bo_eligible_at :: timestamp
  bo_active_until :: "timestamp option"

record quote_lane_key =
  qk_market :: "string option"
  qk_mint :: string
  qk_side :: order_side

record quote_request =
  qr_mint :: string
  qr_market :: "string option"
  qr_side :: order_side
  qr_price :: f64
  qr_size :: f64
  qr_time_in_force :: time_in_force
  qr_signal_id :: "string option"
  qr_exit_mode :: "exit_mode option"
  qr_context :: "json option"

record scheduled_quote =
  sq_order_id :: string
  sq_quote :: quote_request

datatype lane_state =
    LaneIdle
  | LanePlacing scheduled_quote timestamp "timestamp option"
  | LaneLive string
  | LaneCanceling string timestamp "scheduled_quote option"

record backtest =
  be_last_prices :: "(string, f64) hmap"
  be_buy_slippage :: f64
  be_sell_slippage :: f64
  be_pending :: "(string, bt_order) hmap"
  be_counter :: "64 word"
  be_enforce :: bool
  be_latency :: "latency_config option"
  be_lanes :: "(quote_lane_key, lane_state) hmap"
  be_order_lane :: "(string, quote_lane_key) hmap"
  be_now :: "timestamp option"
  be_market_assets :: "(string, string \<times> string option) hmap"
  be_complement :: "(string, string) hmap"
  be_engine :: engine

record draws =
  dr_place :: "64 word"
  dr_cancel :: "64 word"

datatype bt_error =
    BtNotALimitOrder order_type
  | BtPlaceRequest lc_error
  | BtPlaceSuccess lc_error
  | BtCancelRequest lc_error
  | BtCancelConfirmed lc_error
  | BtFillEvidence lc_error
  | BtStayedSubmitPending string
  | BtUnexpectedState string lc_state
  | BtNoPriceData string
  | BtCancelIsNotMarket string
  | BtEnginePanic

type_synonym 'a bt_run = "backtest \<times> (bt_error + 'a)"

definition and_then :: "'s \<times> ('e + 'a) \<Rightarrow> ('s \<Rightarrow> 'a \<Rightarrow> 's \<times> ('e + 'b)) \<Rightarrow> 's \<times> ('e + 'b)" where
  "and_then m f = (case m of (s, Inl e) \<Rightarrow> (s, Inl e) | (s, Inr x) \<Rightarrow> f s x)"

text \<open>A loop whose body may fail and reports events.\<close>

fun try_fold :: "('s \<Rightarrow> 'x \<Rightarrow> 's \<times> ('e + 'ev list)) \<Rightarrow> 's \<Rightarrow> 'x list \<Rightarrow> 's \<times> ('e + 'ev list)" where
  "try_fold f s [] = (s, Ok [])"
| "try_fold f s (x # xs) = and_then (f s x) (\<lambda>s' evs. and_then (try_fold f s' xs) (\<lambda>s'' evs'. (s'', Ok (evs @ evs'))))"

section \<open>Building\<close>

record bt_builder =
  bb_buy_slippage :: f64
  bb_sell_slippage :: f64
  bb_enforce :: bool
  bb_latency :: "latency_config option"

definition builder_new :: bt_builder where
  "builder_new = \<lparr>bb_buy_slippage = f0, bb_sell_slippage = f0, bb_enforce = True, bb_latency = None\<rparr>"

definition builder_buy_slippage :: "f64 \<Rightarrow> bt_builder \<Rightarrow> bt_builder" where
  "builder_buy_slippage x b = b\<lparr>bb_buy_slippage := x\<rparr>"

definition builder_sell_slippage :: "f64 \<Rightarrow> bt_builder \<Rightarrow> bt_builder" where
  "builder_sell_slippage x b = b\<lparr>bb_sell_slippage := x\<rparr>"

definition builder_slippage :: "f64 \<Rightarrow> bt_builder \<Rightarrow> bt_builder" where
  "builder_slippage x b = b\<lparr>bb_buy_slippage := x, bb_sell_slippage := x\<rparr>"

definition builder_enforce :: "bool \<Rightarrow> bt_builder \<Rightarrow> bt_builder" where
  "builder_enforce x b = b\<lparr>bb_enforce := x\<rparr>"

definition builder_latency :: "latency_config option \<Rightarrow> bt_builder \<Rightarrow> bt_builder" where
  "builder_latency x b = b\<lparr>bb_latency := x\<rparr>"

definition builder_build :: "bt_builder \<Rightarrow> backtest" where
  "builder_build b = \<lparr>be_last_prices = [], be_buy_slippage = bb_buy_slippage b, be_sell_slippage = bb_sell_slippage b,
     be_pending = [], be_counter = 1, be_enforce = bb_enforce b, be_latency = bb_latency b, be_lanes = [],
     be_order_lane = [], be_now = None, be_market_assets = [], be_complement = [], be_engine = engine_new\<rparr>"

section \<open>Small operations\<close>

definition bt_last_price :: "backtest \<Rightarrow> string \<Rightarrow> f64 option" where
  "bt_last_price s mint = hget (be_last_prices s) mint"

definition bt_generate_order_id :: "backtest \<Rightarrow> backtest \<times> string" where
  "bt_generate_order_id s = (s\<lparr>be_counter := be_counter s + 1\<rparr>, ''bt-order-'' @ digits (unat (be_counter s)))"

definition bt_pending_orders :: "backtest \<Rightarrow> bt_order list" where
  "bt_pending_orders s = hvals (be_pending s)"

definition bt_pending_order :: "backtest \<Rightarrow> string \<Rightarrow> bt_order option" where
  "bt_pending_order s oid = hget (be_pending s) oid"

definition bt_defers :: "backtest \<Rightarrow> bool" where
  "bt_defers s \<longleftrightarrow> be_latency s \<noteq> None"

definition set_current_time :: "timestamp \<Rightarrow> backtest \<Rightarrow> backtest" where
  "set_current_time now s = s\<lparr>be_now := Some now\<rparr>"

definition current_time :: "timestamp \<Rightarrow> backtest \<Rightarrow> timestamp" where
  "current_time clock s = unwrap_or (be_now s) clock"

definition place_latency_ms :: "draws \<Rightarrow> backtest \<Rightarrow> 64 word" where
  "place_latency_ms d s = (case be_latency s of Some c \<Rightarrow> dr_place d | None \<Rightarrow> 0)"

definition cancel_latency_ms :: "draws \<Rightarrow> backtest \<Rightarrow> 64 word" where
  "cancel_latency_ms d s = (case be_latency s of Some c \<Rightarrow> dr_cancel d | None \<Rightarrow> 0)"

definition bt_eligibility_time :: "draws \<Rightarrow> backtest \<Rightarrow> timestamp \<Rightarrow> timestamp" where
  "bt_eligibility_time d s ts = ts + milliseconds (place_latency_ms d s)"

fun flip_trade_side :: "trade_side \<Rightarrow> trade_side" where
  "flip_trade_side TradeBuy = TradeSell"
| "flip_trade_side TradeSell = TradeBuy"

text \<open>The two assets of a market, in the order they were first seen, and their pairing.\<close>

definition record_market_asset :: "string \<Rightarrow> string \<Rightarrow> backtest \<Rightarrow> backtest" where
  "record_market_asset market asset s =
     (let entry = unwrap_or (hget (be_market_assets s) market) (asset, None);
        s1 = s\<lparr>be_market_assets := hput market entry (be_market_assets s)\<rparr>
      in if fst entry = asset then s1
      else if snd entry = Some asset then s1
      else let second = unwrap_or (snd entry) asset
        in s1\<lparr>be_market_assets := hput market (fst entry, Some second) (be_market_assets s1),
              be_complement := hput second (fst entry) (hput (fst entry) second (be_complement s1))\<rparr>)"

definition complement_asset_id :: "backtest \<Rightarrow> string \<Rightarrow> string option" where
  "complement_asset_id s asset = hget (be_complement s) asset"

definition handle_token_trade :: "string \<Rightarrow> f64 option \<Rightarrow> backtest \<Rightarrow> backtest" where
  "handle_token_trade base_mint spot s =
     (case spot of Some price \<Rightarrow> s\<lparr>be_last_prices := hput base_mint price (be_last_prices s)\<rparr> | None \<Rightarrow> s)"

definition handle_orderbook_snapshot :: "string \<Rightarrow> string \<Rightarrow> backtest \<Rightarrow> backtest" where
  "handle_orderbook_snapshot market asset s = record_market_asset market asset s"

section \<open>Market orders\<close>

text \<open>The base amount, the executed price, whether to clear the position, and the slippage.\<close>

fun market_terms :: "f64 \<Rightarrow> f64 \<Rightarrow> f64 \<Rightarrow> order_type \<Rightarrow> (bt_error + (f64 \<times> f64 \<times> bool \<times> f64))" where
  "market_terms buy sell price (LegacyBuy amount) = Ok (amount, fmul price (fadd f1 buy), False, buy)"
| "market_terms buy sell price (MarketBuy amount) = Ok (amount, fmul price (fadd f1 buy), False, buy)"
| "market_terms buy sell price (LegacySell amount clear) = Ok (fneg amount, fmul price (fsub f1 sell), clear, sell)"
| "market_terms buy sell price (MarketSell amount clear) = Ok (fneg amount, fmul price (fsub f1 sell), clear, sell)"
| "market_terms buy sell price (LimitBuy quote lp tif) = Ok (quote, lp, False, f0)"
| "market_terms buy sell price (LimitSell amount lp clear tif) = Ok (fneg amount, lp, clear, f0)"
| "market_terms buy sell price (Cancel oid) = Err (BtCancelIsNotMarket oid)"

definition bt_execute_market_order :: "backtest \<Rightarrow> order \<Rightarrow> bt_error + execution_event" where
  "bt_execute_market_order s ord =
     (case hget (be_last_prices s) (ord_mint ord) of None \<Rightarrow> Err (BtNoPriceData (ord_mint ord))
      | Some price \<Rightarrow>
        (case market_terms (be_buy_slippage s) (be_sell_slippage s) price (ord_order_type ord) of
           Inl err \<Rightarrow> Err err
         | Inr (amount, executed, clear, slippage) \<Rightarrow> Ok (ExecOrderFilled
             \<lparr>of_mint = ord_mint ord, of_token_amount_change = amount, of_quote_amount_change = None,
              of_price = Some executed, of_timestamp = ord_timestamp ord, of_slippage = Some slippage,
              of_clear_position = clear, of_force_position_clear = False, of_execution_latency_in_slots = None,
              of_confirmed_slot = Some 0, of_confirmed_signature = Some default_signature,
              of_signal_id = None, of_exit_mode = ord_exit_mode ord\<rparr>)))"

definition bt_execute_redemption :: "redemption_action \<Rightarrow> redemption_event" where
  "bt_execute_redemption act = RedemptionCompleted \<lparr>rc_market = ra_market act, rc_up_asset_id = ra_up_asset_id act,
     rc_down_asset_id = ra_down_asset_id act, rc_quantity = ra_quantity act,
     rc_quote_received = ra_quantity act, rc_timestamp = ra_timestamp act\<rparr>"

section \<open>Calls of the lifecycle engine\<close>

definition bt_on_engine :: "(engine \<Rightarrow> engine \<times> 'a lc_result) \<Rightarrow> (lc_error \<Rightarrow> bt_error) \<Rightarrow> backtest \<Rightarrow> 'a bt_run" where
  "bt_on_engine f wrap s = (case f (be_engine s) of (e, r) \<Rightarrow> (s\<lparr>be_engine := e\<rparr>,
     case r of LcOk x \<Rightarrow> Ok x | LcErr err \<Rightarrow> Err (wrap err) | LcPanic \<Rightarrow> Err BtEnginePanic))"

definition bt_place_request :: "string \<Rightarrow> string \<Rightarrow> quote_request \<Rightarrow> backtest \<Rightarrow> unit bt_run" where
  "bt_place_request uuid oid q s =
     and_then (bt_on_engine (\<lambda>e. record_place_request uuid e
       \<lparr>pr_lifecycle_id = Some (''backtest-'' @ oid), pr_client_order_id = oid, pr_mint = qr_mint q,
        pr_market = qr_market q, pr_side = qr_side q, pr_price = qr_price q, pr_size = qr_size q,
        pr_time_in_force = qr_time_in_force q, pr_signal_id = qr_signal_id q\<rparr>) BtPlaceRequest s) (\<lambda>s lc. (s, Ok ()))"

definition bt_place_success :: "string \<Rightarrow> backtest \<Rightarrow> lc_state bt_run" where
  "bt_place_success oid s =
     and_then (bt_on_engine (\<lambda>e. record_place_success e (ClientOrderId oid) oid) BtPlaceSuccess s)
       (\<lambda>s lc. (s, Ok (lc_state lc)))"

definition bt_cancel_request :: "string \<Rightarrow> backtest \<Rightarrow> unit bt_run" where
  "bt_cancel_request oid s =
     and_then (bt_on_engine (\<lambda>e. record_cancel_request e (ClientOrderId oid)) BtCancelRequest s) (\<lambda>s x. (s, Ok ()))"

definition bt_cancel_confirmed :: "string \<Rightarrow> backtest \<Rightarrow> bool bt_run" where
  "bt_cancel_confirmed oid s =
     (let previous = map_option lc_state (engine_get (be_engine s) (ClientOrderId oid))
      in and_then (bt_on_engine (\<lambda>e. record_cancel_confirmed e (ClientOrderId oid) (Some oid)) BtCancelConfirmed s)
        (\<lambda>s lc. (s, Ok (previous \<noteq> Some (Terminal TCancelled) \<and> lc_state lc = Terminal TCancelled))))"

definition bt_fill_evidence :: "string \<Rightarrow> f64 \<Rightarrow> backtest \<Rightarrow> (lc_state \<times> f64) bt_run" where
  "bt_fill_evidence oid q s =
     and_then (bt_on_engine (\<lambda>e. record_fill_evidence e (ClientOrderId oid) q) BtFillEvidence s)
       (\<lambda>s lc. (s, Ok (lc_state lc, lc_remaining_size lc)))"

section \<open>Quotes\<close>

definition quote_lane_key_of :: "string \<Rightarrow> string option \<Rightarrow> order_side \<Rightarrow> quote_lane_key" where
  "quote_lane_key_of mint market side = \<lparr>qk_market = market, qk_mint = mint, qk_side = side\<rparr>"

definition pending_order_from_scheduled ::
  "scheduled_quote \<Rightarrow> timestamp \<Rightarrow> timestamp \<Rightarrow> timestamp option \<Rightarrow> bt_order" where
  "pending_order_from_scheduled sq placed_at eligible_at active_until =
     (let q = sq_quote sq in
      \<lparr>bo_order_id = sq_order_id sq, bo_mint = qr_mint q, bo_market = qr_market q, bo_side = qr_side q,
       bo_price = qr_price q, bo_original_size = qr_size q, bo_remaining_size = qr_size q, bo_placed_at = placed_at,
       bo_time_in_force = qr_time_in_force q, bo_signal_id = qr_signal_id q, bo_exit_mode = qr_exit_mode q,
       bo_context = qr_context q, bo_eligible_at = eligible_at, bo_active_until = active_until\<rparr>)"

definition nearly_equal :: "f64 \<Rightarrow> f64 \<Rightarrow> f64 \<Rightarrow> f64 \<Rightarrow> bool" where
  "nearly_equal lhs rhs abs_epsilon rel_epsilon =
     (let diff = fabs (fsub lhs rhs); scale = fmax (fabs lhs) (fabs rhs)
      in fle diff (fmax abs_epsilon (fmul rel_epsilon scale)))"

definition price_match_epsilon :: f64 where "price_match_epsilon = f_lit (1 / 10 ^ 9)"
definition size_match_abs_epsilon :: f64 where "size_match_abs_epsilon = f_lit (1 / 10 ^ 6)"
definition size_match_rel_epsilon :: f64 where "size_match_rel_epsilon = f_lit (1 / 10 ^ 9)"

definition quote_matches_live_order :: "quote_request \<Rightarrow> bt_order \<Rightarrow> bool" where
  "quote_matches_live_order q p \<longleftrightarrow> qr_mint q = bo_mint p \<and> qr_market q = bo_market p \<and> qr_side q = bo_side p \<and>
     qr_time_in_force q = bo_time_in_force p \<and>
     nearly_equal (qr_price q) (bo_price p) price_match_epsilon price_match_epsilon \<and>
     nearly_equal (qr_size q) (bo_remaining_size p) size_match_abs_epsilon size_match_rel_epsilon"

definition bt_put :: "string \<Rightarrow> bt_order \<Rightarrow> backtest \<Rightarrow> backtest" where
  "bt_put oid p s = s\<lparr>be_pending := hput oid p (be_pending s)\<rparr>"

definition bt_drop :: "string \<Rightarrow> backtest \<Rightarrow> backtest" where
  "bt_drop oid s = s\<lparr>be_pending := hdel oid (be_pending s)\<rparr>"

definition file_order :: "string \<Rightarrow> quote_lane_key \<Rightarrow> backtest \<Rightarrow> backtest" where
  "file_order oid key s = s\<lparr>be_order_lane := hput oid key (be_order_lane s)\<rparr>"

definition unfile_order :: "string \<Rightarrow> backtest \<Rightarrow> backtest" where
  "unfile_order oid s = s\<lparr>be_order_lane := hdel oid (be_order_lane s)\<rparr>"

definition put_lane :: "quote_lane_key \<Rightarrow> lane_state \<Rightarrow> backtest \<Rightarrow> backtest" where
  "put_lane key st s = s\<lparr>be_lanes := hput key st (be_lanes s)\<rparr>"

definition set_active_until :: "string \<Rightarrow> timestamp \<Rightarrow> backtest \<Rightarrow> backtest" where
  "set_active_until oid t s =
     (case hget (be_pending s) oid of Some p \<Rightarrow> bt_put oid (p\<lparr>bo_active_until := Some t\<rparr>) s | None \<Rightarrow> s)"

definition placed_event :: "scheduled_quote \<Rightarrow> timestamp \<Rightarrow> limit_order_event" where
  "placed_event sq now = (let q = sq_quote sq in OrderPlaced (sq_order_id sq) (qr_mint q) (qr_market q) (qr_price q)
     (qr_size q) (qr_side q) now (qr_signal_id q) (qr_context q))"

definition user_cancelled :: "string \<Rightarrow> timestamp \<Rightarrow> limit_order_event" where
  "user_cancelled oid now = OrderCancelled oid (Some ''User cancelled'') now"

definition confirm_cancelled :: "string \<Rightarrow> timestamp \<Rightarrow> backtest \<Rightarrow> limit_order_event list bt_run" where
  "confirm_cancelled oid now s =
     and_then (bt_cancel_confirmed oid s) (\<lambda>s emitted. (s, Ok (if emitted then [user_cancelled oid now] else [])))"

section \<open>Time\<close>

text \<open>A quote whose placement latency has passed.\<close>

definition activate_placing :: "draws \<Rightarrow> timestamp \<Rightarrow> quote_lane_key \<Rightarrow> scheduled_quote \<Rightarrow> timestamp \<Rightarrow>
    timestamp option \<Rightarrow> backtest \<Rightarrow> limit_order_event list bt_run" where
  "activate_placing d now key sq live_at cancel_at s =
     (let oid = sq_order_id sq in and_then (bt_place_success oid s) (\<lambda>s st. case st of
        Open \<Rightarrow>
          let s1 = file_order oid key (bt_put oid (pending_order_from_scheduled sq now live_at None) s)
          in (case cancel_at of
            None \<Rightarrow> (put_lane key (LaneLive oid) s1, Ok [placed_event sq now])
          | Some deadline \<Rightarrow>
              if deadline \<le> now
              then and_then (confirm_cancelled oid now (unfile_order oid (bt_drop oid s1)))
                (\<lambda>s evs. (put_lane key LaneIdle s, Ok (placed_event sq now # evs)))
              else (put_lane key (LaneCanceling oid deadline None) (set_active_until oid deadline s1),
                Ok [placed_event sq now]))
      | CancelPending \<Rightarrow>
          let remove_at = unwrap_or cancel_at (now + milliseconds (cancel_latency_ms d s))
          in if remove_at \<le> now
             then and_then (confirm_cancelled oid now (unfile_order oid s)) (\<lambda>s evs. (put_lane key LaneIdle s, Ok evs))
             else (put_lane key (LaneCanceling oid remove_at None)
               (file_order oid key (bt_put oid (pending_order_from_scheduled sq now live_at (Some remove_at)) s)), Ok [])
      | Terminal t \<Rightarrow> (put_lane key LaneIdle (unfile_order oid s), Ok [])
      | SubmitPending \<Rightarrow> (s, Err (BtStayedSubmitPending oid))))"

text \<open>The replacement of a quote that has just been removed, taken out of the state of its lane.\<close>

definition activate_replacement :: "draws \<Rightarrow> timestamp \<Rightarrow> quote_lane_key \<Rightarrow> scheduled_quote \<Rightarrow> backtest \<Rightarrow>
    limit_order_event list bt_run" where
  "activate_replacement d now key sq s =
     (let oid = sq_order_id sq; live_at = now + milliseconds (place_latency_ms d s)
      in if live_at \<le> now then and_then (bt_place_success oid s) (\<lambda>s st. case st of
          Open \<Rightarrow>
            (put_lane key (LaneLive oid)
              (file_order oid key (bt_put oid (pending_order_from_scheduled sq now live_at None) s)),
             Ok [placed_event sq now])
        | CancelPending \<Rightarrow>
            let remove_at = now + milliseconds (cancel_latency_ms d s)
            in if remove_at \<le> now
               then and_then (confirm_cancelled oid now s) (\<lambda>s evs. (put_lane key LaneIdle s, Ok evs))
               else (put_lane key (LaneCanceling oid remove_at None)
                 (file_order oid key (bt_put oid (pending_order_from_scheduled sq now live_at (Some remove_at)) s)), Ok [])
        | Terminal t \<Rightarrow> (put_lane key LaneIdle s, Ok [])
        | SubmitPending \<Rightarrow> (s, Err (BtStayedSubmitPending oid)))
      else (put_lane key (LanePlacing sq live_at None) s, Ok []))"

text \<open>A replacement is taken out of the lane before it is activated.\<close>

definition replace_with :: "draws \<Rightarrow> timestamp \<Rightarrow> quote_lane_key \<Rightarrow> string \<Rightarrow> timestamp \<Rightarrow> scheduled_quote option \<Rightarrow>
    backtest \<Rightarrow> limit_order_event list bt_run" where
  "replace_with d now key oid remove_at repl s =
     (case repl of None \<Rightarrow> (put_lane key LaneIdle s, Ok [])
      | Some sq \<Rightarrow> activate_replacement d now key sq (put_lane key (LaneCanceling oid remove_at None) s))"

definition advance_lane :: "(quote_lane_key \<Rightarrow> draws) \<Rightarrow> timestamp \<Rightarrow> backtest \<Rightarrow> quote_lane_key \<Rightarrow>
    limit_order_event list bt_run" where
  "advance_lane lat now s key =
     (case hget (be_lanes s) key of
        Some (LanePlacing sq live_at cancel_at) \<Rightarrow>
          if now < live_at then (s, Ok []) else activate_placing (lat key) now key sq live_at cancel_at s
      | Some (LaneCanceling oid remove_at repl) \<Rightarrow>
          if remove_at \<le> now
          then and_then (confirm_cancelled oid now (unfile_order oid (bt_drop oid s)))
            (\<lambda>s evs. and_then (replace_with (lat key) now key oid remove_at repl s) (\<lambda>s evs'. (s, Ok (evs @ evs'))))
          else (set_active_until oid remove_at s, Ok [])
      | _ \<Rightarrow> (s, Ok []))"

definition advance_time :: "(quote_lane_key \<Rightarrow> draws) \<Rightarrow> timestamp \<Rightarrow> backtest \<Rightarrow> limit_order_event list bt_run" where
  "advance_time lat now s =
     (let s1 = set_current_time now s in try_fold (advance_lane lat now) s1 (hkeys (be_lanes s1)))"

section \<open>Placing and cancelling\<close>

text \<open>The quote enters its lane; the id returned is that of the order it becomes part of.\<close>

definition enter_lane :: "string \<Rightarrow> draws \<Rightarrow> timestamp \<Rightarrow> timestamp \<Rightarrow> quote_lane_key \<Rightarrow> string \<Rightarrow> quote_request \<Rightarrow>
    backtest \<Rightarrow> string bt_run" where
  "enter_lane uuid d ts live_at key oid q s =
     (let st = unwrap_or (hget (be_lanes s) key) LaneIdle; s = put_lane key st s
      in case st of
        LaneIdle \<Rightarrow> and_then (bt_place_request uuid oid q s) (\<lambda>s _.
          (file_order oid key (put_lane key (LanePlacing \<lparr>sq_order_id = oid, sq_quote = q\<rparr> live_at None) s), Ok oid))
      | LanePlacing sq live_from cancel_at \<Rightarrow>
          (put_lane key (LanePlacing (sq\<lparr>sq_quote := q\<rparr>) live_from cancel_at) s, Ok (sq_order_id sq))
      | LaneLive live_id \<Rightarrow>
          if (case hget (be_pending s) live_id of None \<Rightarrow> False | Some p \<Rightarrow> quote_matches_live_order q p)
          then (s, Ok live_id)
          else and_then (bt_place_request uuid oid q s) (\<lambda>s _.
            let remove_at = ts + milliseconds (cancel_latency_ms d s)
            in (file_order oid key (put_lane key
                 (LaneCanceling live_id remove_at (Some \<lparr>sq_order_id = oid, sq_quote = q\<rparr>))
                 (set_active_until live_id remove_at s)), Ok oid))
      | LaneCanceling old remove_at (Some sq) \<Rightarrow>
          (put_lane key (LaneCanceling old remove_at (Some (sq\<lparr>sq_quote := q\<rparr>))) s, Ok (sq_order_id sq))
      | LaneCanceling old remove_at None \<Rightarrow> and_then (bt_place_request uuid oid q s) (\<lambda>s _.
          (file_order oid key (put_lane key
             (LaneCanceling old remove_at (Some \<lparr>sq_order_id = oid, sq_quote = q\<rparr>)) s), Ok oid)))"

text \<open>Without latencies the order is on the book at once.\<close>

definition place_at_once :: "string \<Rightarrow> draws \<Rightarrow> timestamp \<Rightarrow> string \<Rightarrow> quote_request \<Rightarrow> backtest \<Rightarrow> string bt_run" where
  "place_at_once uuid d ts oid q s =
     (let eligible_at = bt_eligibility_time d s ts
      in and_then (bt_place_request uuid oid q s) (\<lambda>s _. and_then (bt_place_success oid s) (\<lambda>s st.
        if st \<noteq> Open then (s, Err (BtUnexpectedState oid st))
        else (bt_put oid (pending_order_from_scheduled \<lparr>sq_order_id = oid, sq_quote = q\<rparr> ts eligible_at None) s, Ok oid))))"

definition execute_limit_order_with_lifecycle ::
  "string \<Rightarrow> draws \<Rightarrow> backtest \<Rightarrow> order \<Rightarrow> limit_order_event bt_run" where
  "execute_limit_order_with_lifecycle uuid d s ord =
     (case limit_terms (ord_order_type ord) of None \<Rightarrow> (s, Err (BtNotALimitOrder (ord_order_type ord)))
      | Some (amount, lp, side, tif) \<Rightarrow>
        let ts = ord_timestamp ord;
          q = \<lparr>qr_mint = ord_mint ord, qr_market = ord_market ord, qr_side = side, qr_price = lp, qr_size = amount,
            qr_time_in_force = tif, qr_signal_id = ord_signal_id ord, qr_exit_mode = ord_exit_mode ord,
            qr_context = ord_context ord\<rparr>
        in case bt_generate_order_id (set_current_time ts s) of (s, oid) \<Rightarrow>
          and_then (if bt_defers s
              then enter_lane uuid d ts (bt_eligibility_time d s ts)
                (quote_lane_key_of (ord_mint ord) (ord_market ord) side) oid q s
              else place_at_once uuid d ts oid q s)
            (\<lambda>s oid. (s, Ok (placed_event \<lparr>sq_order_id = oid, sq_quote = q\<rparr> ts))))"

text \<open>What a cancel does to the lane of its order.\<close>

definition cancel_in_lane :: "string \<Rightarrow> timestamp \<Rightarrow> quote_lane_key \<Rightarrow> backtest \<Rightarrow> backtest" where
  "cancel_in_lane oid remove_at key s =
     (case hget (be_lanes s) key of
        Some (LanePlacing sq live_at cancel_at) \<Rightarrow>
          if sq_order_id sq = oid
          then put_lane key (LanePlacing sq live_at
            (Some (case cancel_at of Some existing \<Rightarrow> min existing remove_at | None \<Rightarrow> remove_at))) s
          else s
      | Some (LaneLive live_id) \<Rightarrow>
          if live_id = oid
          then put_lane key (LaneCanceling oid remove_at None) (set_active_until oid remove_at s)
          else s
      | _ \<Rightarrow> s)"

definition cancel_order_with_lifecycle ::
  "draws \<Rightarrow> timestamp \<Rightarrow> backtest \<Rightarrow> string \<Rightarrow> limit_order_event bt_run" where
  "cancel_order_with_lifecycle d clock s oid =
     (let now = current_time clock s; remove_at = now + milliseconds (cancel_latency_ms d s)
      in case (if bt_defers s then hget (be_order_lane s) oid else None) of
        Some key \<Rightarrow> and_then (bt_cancel_request oid (cancel_in_lane oid remove_at key s))
          (\<lambda>s _. (s, Ok (user_cancelled oid remove_at)))
      | None \<Rightarrow> and_then (bt_cancel_request oid s) (\<lambda>s _.
          case hget (be_pending s) oid of None \<Rightarrow> (s, Ok (already_removed oid now))
          | Some p \<Rightarrow> and_then (bt_cancel_confirmed oid (bt_drop oid s)) (\<lambda>s _. (s, Ok (user_cancelled oid now)))))"

section \<open>Fills from a trade\<close>

text \<open>The locals of the fill engine, with the executor itself; events are the results of its steps.\<close>

record bt_pass =
  ba_exec :: backtest
  ba_inventory :: "(string, f64) hmap"
  ba_quote :: f64
  ba_remove :: "string list"

definition fclamp01 :: "f64 \<Rightarrow> f64" where
  "fclamp01 x = (if flt x f0 then f0 else if flt f1 x then f1 else x)"

text \<open>The trade as an order sees it: itself, or mirrored when it was on the complementary asset.\<close>

definition effective_trade :: "trade \<Rightarrow> bool \<Rightarrow> trade_side \<times> f64" where
  "effective_trade tr direct = (if direct then (tr_side tr, tr_price tr)
     else (flip_trade_side (tr_side tr), fclamp01 (fsub f1 (tr_price tr))))"

definition crosses :: "bt_order \<Rightarrow> trade_side \<times> f64 \<Rightarrow> bool" where
  "crosses p et = (case (bo_side p, fst et) of
     (Buy, TradeSell) \<Rightarrow> fle (snd et) (bo_price p)
   | (Sell, TradeBuy) \<Rightarrow> fle (bo_price p) (snd et)
   | _ \<Rightarrow> False)"

definition bt_available :: "(string, f64) hmap \<Rightarrow> bt_order \<Rightarrow> bt_pass \<Rightarrow> f64" where
  "bt_available inventory p a =
     fadd (unwrap_or (hget inventory (bo_mint p)) f0) (unwrap_or (hget (ba_inventory a) (bo_mint p)) f0)"

definition bt_fill_size :: "trade \<Rightarrow> (string, f64) hmap \<Rightarrow> f64 \<Rightarrow> bt_order \<Rightarrow> bt_pass \<Rightarrow> f64 option" where
  "bt_fill_size tr inventory available_quote p a =
     (let limited = be_enforce (ba_exec a) \<and> bo_side p = Sell;
        available = bt_available inventory p a
      in if limited \<and> fle available f0 then None
      else let size0 = fmin (bo_remaining_size p) (tr_size tr);
        size1 = (if limited then fmin size0 available else size0);
        quote_required = fmul size1 (bo_price p);
        effective = fadd available_quote (ba_quote a);
        short = bo_side p = Buy \<and> flt effective quote_required;
        affordable = fdiv effective (bo_price p)
      in if short \<and> fle affordable f0 then None
      else let size2 = (if short then fmin size1 affordable else size1)
        in if fle size2 f0 then None else Some size2)"

definition bt_track_fill :: "bt_order \<Rightarrow> f64 \<Rightarrow> bt_pass \<Rightarrow> bt_pass" where
  "bt_track_fill p q a =
     (let m = bo_mint p; old = unwrap_or (hget (ba_inventory a) m) f0; cost = fmul q (bo_price p)
      in if bo_side p = Sell
         then a\<lparr>ba_inventory := hput m (fsub old q) (ba_inventory a), ba_quote := fadd (ba_quote a) cost\<rparr>
         else a\<lparr>ba_inventory := hput m (fadd old q) (ba_inventory a), ba_quote := fsub (ba_quote a) cost\<rparr>)"

text \<open>The size the engine accepted is what is filled.\<close>

definition bt_apply_fill :: "timestamp \<Rightarrow> string \<Rightarrow> bt_order \<Rightarrow> f64 \<Rightarrow> bt_pass \<Rightarrow>
    bt_pass \<times> (bt_error + limit_order_event list)" where
  "bt_apply_fill ts oid p q a =
     (case bt_fill_evidence oid q (ba_exec a) of
        (s, Inl err) \<Rightarrow> (a\<lparr>ba_exec := s\<rparr>, Err err)
      | (s, Inr (st, rem)) \<Rightarrow>
          let applied = fmax (fsub (bo_remaining_size p) rem) f0
          in if fle applied f0 then (a\<lparr>ba_exec := s\<rparr>, Ok [])
          else let a1 = a\<lparr>ba_exec := bt_put oid (p\<lparr>bo_remaining_size := rem\<rparr>) s\<rparr>
          in if st \<in> {Terminal TCancelled, Terminal TRejected, Terminal TExpired} then (a1, Ok [])
          else let a2 = bt_track_fill p applied a1; full = st = Terminal TFilled
          in (if full then a2\<lparr>ba_remove := ba_remove a2 @ [oid]\<rparr> else a2,
              Ok [OrderPartiallyFilled oid (bo_mint p) (bo_side p) applied (if full then f0 else rem) (bo_price p) ts
                (bo_signal_id p) (bo_exit_mode p)]))"

definition try_fill_order :: "timestamp \<Rightarrow> trade \<Rightarrow> string option \<Rightarrow> (string, f64) hmap \<Rightarrow> f64 \<Rightarrow> bt_pass \<Rightarrow> string \<Rightarrow>
    bt_pass \<times> (bt_error + limit_order_event list)" where
  "try_fill_order ts tr mirror inventory available_quote a oid =
     (case hget (be_pending (ba_exec a)) oid of None \<Rightarrow> (a, Ok [])
      | Some p \<Rightarrow>
        let direct = bo_mint p = tr_asset_id tr
        in if \<not> direct \<and> mirror \<noteq> Some (bo_mint p) then (a, Ok [])
        else if ts < bo_eligible_at p then (a, Ok [])
        else if (case bo_active_until p of Some t \<Rightarrow> t \<le> ts | None \<Rightarrow> False) then (a, Ok [])
        else if \<not> crosses p (effective_trade tr direct) then (a, Ok [])
        else case bt_fill_size tr inventory available_quote p a of None \<Rightarrow> (a, Ok [])
          | Some q \<Rightarrow> bt_apply_fill ts oid p q a)"

text \<open>The lane of a filled order: idle, or on to the replacement that was waiting for the cancel.\<close>

definition release_filled :: "(quote_lane_key \<Rightarrow> draws) \<Rightarrow> timestamp \<Rightarrow> backtest \<Rightarrow> string \<Rightarrow>
    limit_order_event list bt_run" where
  "release_filled lat ts s oid =
     (case hget (be_order_lane s) oid of None \<Rightarrow> (s, Ok [])
      | Some key \<Rightarrow> let s = unfile_order oid s in
        (case hget (be_lanes s) key of
           Some (LaneLive live_id) \<Rightarrow> (put_lane key LaneIdle s, Ok [])
         | Some (LaneCanceling old remove_at repl) \<Rightarrow> replace_with (lat key) ts key old remove_at repl s
         | _ \<Rightarrow> (s, Ok [])))"

definition bt_pass_start :: "backtest \<Rightarrow> bt_pass" where
  "bt_pass_start s = \<lparr>ba_exec = s, ba_inventory = [], ba_quote = f0, ba_remove = []\<rparr>"

definition fill_all :: "timestamp \<Rightarrow> trade \<Rightarrow> string option \<Rightarrow> (string, f64) hmap \<Rightarrow> f64 \<Rightarrow> backtest \<Rightarrow>
    bt_pass \<times> (bt_error + limit_order_event list)" where
  "fill_all ts tr mirror inventory available_quote s =
     try_fold (try_fill_order ts tr mirror inventory available_quote) (bt_pass_start s) (sort (hkeys (be_pending s)))"

definition handle_polymarket_trade :: "(quote_lane_key \<Rightarrow> draws) \<Rightarrow> (quote_lane_key \<Rightarrow> draws) \<Rightarrow>
    (int \<Rightarrow> timestamp option) \<Rightarrow> timestamp \<Rightarrow> string \<Rightarrow> backtest \<Rightarrow> trade \<Rightarrow> (string, f64) hmap \<Rightarrow> f64 \<Rightarrow>
    limit_order_event list bt_run" where
  "handle_polymarket_trade lat lat' from_millis clock market s tr inventory available_quote =
     (let s = record_market_asset market (tr_asset_id tr) s;
        mirror = complement_asset_id s (tr_asset_id tr);
        ts = trade_time from_millis clock tr
      in and_then (if bt_defers s then advance_time lat ts s else (set_current_time ts s, Ok [])) (\<lambda>s evs.
        case fill_all ts tr mirror inventory available_quote s of
          (a, Inl err) \<Rightarrow> (ba_exec a, Err err)
        | (a, Inr evs') \<Rightarrow>
            let s = foldl (\<lambda>s oid. bt_drop oid s) (ba_exec a) (ba_remove a)
            in and_then (try_fold (release_filled lat' ts) s (ba_remove a)) (\<lambda>s evs''. (s, Ok (evs @ evs' @ evs'')))))"

text \<open>The trait method drops the error: \<open>unwrap_or_default\<close>.\<close>

definition bt_check_fills_from_trade :: "(quote_lane_key \<Rightarrow> draws) \<Rightarrow> (quote_lane_key \<Rightarrow> draws) \<Rightarrow>
    (int \<Rightarrow> timestamp option) \<Rightarrow> timestamp \<Rightarrow> string \<Rightarrow> backtest \<Rightarrow> trade \<Rightarrow> (string, f64) hmap \<Rightarrow> f64 \<Rightarrow>
    backtest \<times> limit_order_event list" where
  "bt_check_fills_from_trade lat lat' from_millis clock market s tr inventory available_quote =
     (case handle_polymarket_trade lat lat' from_millis clock market s tr inventory available_quote of
        (s, Inl err) \<Rightarrow> (s, []) | (s, Inr evs) \<Rightarrow> (s, evs))"

end
