(* ===== verification/Backtest_Lanes.thy ===== *)
theory Backtest_Lanes
  imports Backtest Client_View Paper_Pass
begin

text \<open>
  The proofs about the backtest executor (\<open>Backtest\<close>): runs that cannot fail (\<open>runs\<close>, a weakest
  precondition), the invariant that ties lanes, pending orders, the order index and the lifecycle engine
  together, and that every operation keeps it.  A lane is opened (\<open>open_lane\<close>: its order is gone) and
  closed again; in between, the orders that a trade has filled form the set \<open>X\<close>.
\<close>

section \<open>Runs that succeed\<close>

text \<open>The weakest precondition of a fallible run that must not fail.\<close>

definition runs :: "'s \<times> ('e + 'a) \<Rightarrow> ('s \<Rightarrow> 'a \<Rightarrow> bool) \<Rightarrow> bool" where
  "runs m Q \<longleftrightarrow> (case m of (s, Inl e) \<Rightarrow> False | (s, Inr x) \<Rightarrow> Q s x)"

lemma runs_return [simp]: "runs (s, Ok x) Q \<longleftrightarrow> Q s x" "\<not> runs (s, Err e) Q"
  by (simp_all add: runs_def)

lemma runs_then: "runs m P \<Longrightarrow> (\<And>s x. P s x \<Longrightarrow> runs (f s x) Q) \<Longrightarrow> runs (and_then m f) Q"
  by (cases m; cases "snd m") (simp_all add: runs_def and_then_def)

lemma runs_weaken: "runs m P \<Longrightarrow> (\<And>s x. P s x \<Longrightarrow> Q s x) \<Longrightarrow> runs m Q"
  by (auto simp: runs_def split: prod.splits sum.splits)

lemma runs_try_fold:
  assumes "\<And>s x. x \<in> set xs \<Longrightarrow> I s \<Longrightarrow> runs (f s x) (\<lambda>s' evs. I s')" "I s"
  shows "runs (try_fold f s xs) (\<lambda>s' evs. I s')"
  using assms by (induction xs arbitrary: s) (auto intro!: runs_then [where P = "\<lambda>s evs. I s"])

section \<open>Engine calls\<close>

text \<open>A call that changes the engine only, and moves it forward.\<close>

definition eng_step :: "backtest \<Rightarrow> backtest \<Rightarrow> bool" where
  "eng_step s s' \<longleftrightarrow> (\<exists>e. s' = s\<lparr>be_engine := e\<rparr> \<and> sim_engine e \<and> engine_le (be_engine s) e)"

lemma eng_stepI: "sim_engine e \<Longrightarrow> engine_le (be_engine s) e \<Longrightarrow> eng_step s (s\<lparr>be_engine := e\<rparr>)"
  by (auto simp: eng_step_def)

lemma eng_step_refl: "sim_engine (be_engine s) \<Longrightarrow> eng_step s s"
  by (auto simp: eng_step_def engine_le_refl intro!: exI [of _ "be_engine s"])

lemma eng_step_frame:
  assumes "eng_step s s'"
  shows "be_pending s' = be_pending s" "be_lanes s' = be_lanes s" "be_order_lane s' = be_order_lane s"
    "be_latency s' = be_latency s" "sim_engine (be_engine s')" "engine_le (be_engine s) (be_engine s')"
    "be_enforce s' = be_enforce s" "be_complement s' = be_complement s"
  using assms by (auto simp: eng_step_def)

lemma on_engine_serves:
  assumes "sim_engine (be_engine s)" "serves c (be_engine s) (f (be_engine s)) ord"
    "lc_rel (be_engine s) (fst (f (be_engine s)))"
  shows "runs (bt_on_engine f wrap s) (\<lambda>s' lc. eng_step s s' \<and> lc = ord \<and> look (be_engine s') c = Some ord)"
proof -
  obtain e r where f: "f (be_engine s) = (e, r)" by fastforce
  have "lc_inv (be_engine s)" using assms(1) by (simp add: sim_engine_def)
  with assms lc_rel_inv lc_rel_le show ?thesis
    by (auto simp: f runs_def bt_on_engine_def serves_def eng_step_def sim_engine_def)
qed

lemma success_runs:
  assumes "sim_engine (be_engine s)" "known (be_engine s) oid"
  shows "runs (bt_place_success oid s) (\<lambda>s' st. eng_step s s' \<and> booked (be_engine s') oid \<and> st \<noteq> SubmitPending)"
proof -
  obtain ord where o: "serves oid (be_engine s) (record_place_success (be_engine s) (ClientOrderId oid) oid) ord"
    "lc_state ord \<noteq> SubmitPending"
    using client_success [of "be_engine s" oid] assms by (auto simp: sim_engine_def known_def)
  show ?thesis unfolding bt_place_success_def
    by (rule runs_then, rule on_engine_serves [of s oid "\<lambda>e. record_place_success e (ClientOrderId oid) oid" ord, OF assms(1) o(1) place_success_rel]) (use o(2) in \<open>auto simp: booked_def\<close>)
qed

lemma confirm_runs:
  assumes "sim_engine (be_engine s)" "booked (be_engine s) oid"
  shows "runs (confirm_cancelled oid now s) (\<lambda>s' evs. eng_step s s' \<and> (\<forall>ev \<in> set evs. ev = user_cancelled oid now))"
proof -
  obtain ord where o: "serves oid (be_engine s) (record_cancel_confirmed (be_engine s) (ClientOrderId oid) (Some oid)) ord"
    using client_confirm [of "be_engine s" oid] assms by (auto simp: sim_engine_def booked_def)
  have "runs (bt_cancel_confirmed oid s) (\<lambda>s' b. eng_step s s')"
    unfolding bt_cancel_confirmed_def Let_def
    by (rule runs_then, rule on_engine_serves [of s oid "\<lambda>e. record_cancel_confirmed e (ClientOrderId oid) (Some oid)" ord, OF assms(1) o confirm_rel]) auto
  then show ?thesis unfolding confirm_cancelled_def by (rule runs_then) auto
qed

lemma cancel_confirmed_runs:
  "sim_engine (be_engine s) \<Longrightarrow> booked (be_engine s) oid \<Longrightarrow> runs (bt_cancel_confirmed oid s) (\<lambda>s' b. eng_step s s')"
  using confirm_runs [of s oid undefined] unfolding confirm_cancelled_def
  by (auto simp: runs_def and_then_def split: prod.splits sum.splits)

lemma fill_runs:
  assumes "sim_engine (be_engine s)" "booked (be_engine s) oid" "\<not> fle q f0"
  shows "runs (bt_fill_evidence oid q s) (\<lambda>s' x. eng_step s s')"
proof -
  obtain ord where o: "serves oid (be_engine s) (record_fill_evidence (be_engine s) (ClientOrderId oid) q) ord"
    using client_fill [of "be_engine s" oid _ q] assms by (auto simp: sim_engine_def booked_def)
  show ?thesis unfolding bt_fill_evidence_def
    by (rule runs_then, rule on_engine_serves [of s oid "\<lambda>e. record_fill_evidence e (ClientOrderId oid) q" ord, OF assms(1) o fill_evidence_rel]) auto
qed

lemma cancel_request_runs:
  assumes "sim_engine (be_engine s)"
  shows "runs (bt_cancel_request oid s) (\<lambda>s' x. eng_step s s')"
proof -
  obtain e r where f: "record_cancel_request (be_engine s) (ClientOrderId oid) = (e, r)" by fastforce
  have i: "lc_inv (be_engine s)" "own_venues (be_engine s)" "cancel_policy (be_engine s) = Idempotent"
    using assms by (simp_all add: sim_engine_def)
  note c = client_cancel [OF i, of oid, unfolded f]
  have "lc_rel (be_engine s) e" using cancel_request_rel [of "be_engine s" "ClientOrderId oid"] f by simp
  then have "sim_engine e" "engine_le (be_engine s) e"
    using c(2,3) lc_rel_inv [OF _ i(1)] lc_rel_le [OF _ i(1)] by (simp_all add: sim_engine_def)
  from eng_stepI [OF this] c(1) show ?thesis
    by (auto simp: bt_cancel_request_def bt_on_engine_def f and_then_def)
qed

text \<open>Only a placement can be refused: by its size, or by an id that is already known.\<close>

lemma request_cases:
  assumes "sim_engine (be_engine s)" "bt_place_request u oid q s = (s', r)"
  shows "eng_step s s'" "r = Ok () \<Longrightarrow> known (be_engine s') oid \<and> \<not> known (be_engine s) oid"
proof -
  let ?q = "\<lparr>pr_lifecycle_id = Some (''backtest-'' @ oid), pr_client_order_id = oid, pr_mint = qr_mint q,
        pr_market = qr_market q, pr_side = qr_side q, pr_price = qr_price q, pr_size = qr_size q,
        pr_time_in_force = qr_time_in_force q, pr_signal_id = qr_signal_id q\<rparr>"
  obtain e x where e: "record_place_request u (be_engine s) ?q = (e, x)" by fastforce
  have i: "lc_inv (be_engine s)" using assms(1) by (simp add: sim_engine_def)
  have rel: "lc_rel (be_engine s) e" using place_request_rel [of "be_engine s" u ?q] e by simp
  have s': "s' = s\<lparr>be_engine := e\<rparr>"
    using assms(2) unfolding bt_place_request_def bt_on_engine_def e by (cases x) (auto simp: and_then_def)
  have "sim_engine e"
    using assms(1) lc_rel_inv [OF rel i] request_own_venues [where e = "be_engine s" and u = u and r = ?q, unfolded e fst_conv]
    by (simp add: sim_engine_def)
  then show "eng_step s s'" unfolding s' by (rule eng_stepI) (rule lc_rel_le [OF rel i])
  show "known (be_engine s') oid \<and> \<not> known (be_engine s) oid" if r: "r = Ok ()"
  proof -
    obtain ord where "x = LcOk ord"
      using assms(2) r unfolding bt_place_request_def bt_on_engine_def e by (cases x) (auto simp: and_then_def)
    with place_looks(1,2) [where u = u and e = "be_engine s" and r = ?q and ord = ord, unfolded e] show ?thesis
      by (simp add: s' known_def)
  qed
qed

section \<open>The invariant of the lanes\<close>

definition key_of :: "bt_order \<Rightarrow> quote_lane_key" where
  "key_of p = quote_lane_key_of (bo_mint p) (bo_market p) (bo_side p)"

definition key_of_quote :: "scheduled_quote \<Rightarrow> quote_lane_key" where
  "key_of_quote sq = quote_lane_key_of (qr_mint (sq_quote sq)) (qr_market (sq_quote sq)) (qr_side (sq_quote sq))"

text \<open>The order that a lane has on the book.\<close>

fun lane_order :: "lane_state \<Rightarrow> string option" where
  "lane_order (LaneLive oid) = Some oid"
| "lane_order (LaneCanceling oid t repl) = Some oid"
| "lane_order st = None"

text \<open>The quote that a lane has waiting.\<close>

fun lane_quote :: "lane_state \<Rightarrow> scheduled_quote option" where
  "lane_quote (LanePlacing sq live_at cancel_at) = Some sq"
| "lane_quote (LaneCanceling oid t repl) = repl"
| "lane_quote st = None"

text \<open>
  The orders \<open>X\<close> have been filled and dropped, and their lanes not yet released.  A lane knows its order by
  id, the order is filed under the lane, is past submission and is pending with the lane's key; a waiting
  quote is for this lane, known to the engine, filed and not pending.
\<close>

definition lane_ok :: "string set \<Rightarrow> backtest \<Rightarrow> quote_lane_key \<Rightarrow> lane_state \<Rightarrow> bool" where
  "lane_ok X s key st \<longleftrightarrow>
     (\<forall>oid. lane_order st = Some oid \<longrightarrow> hget (be_order_lane s) oid = Some key \<and> booked (be_engine s) oid \<and>
        (case hget (be_pending s) oid of None \<Rightarrow> oid \<in> X | Some p \<Rightarrow> key_of p = key)) \<and>
     (\<forall>sq. lane_quote st = Some sq \<longrightarrow> hget (be_order_lane s) (sq_order_id sq) = Some key \<and> key_of_quote sq = key \<and>
        known (be_engine s) (sq_order_id sq) \<and> hget (be_pending s) (sq_order_id sq) = None \<and> sq_order_id sq \<notin> X)"

definition holds :: "backtest \<Rightarrow> quote_lane_key \<Rightarrow> string \<Rightarrow> bool" where
  "holds s key oid \<longleftrightarrow> (\<exists>st. hget (be_lanes s) key = Some st \<and> lane_order st = Some oid)"

definition bt_inv :: "string set \<Rightarrow> backtest \<Rightarrow> bool" where
  "bt_inv X s \<longleftrightarrow> sim_engine (be_engine s) \<and> hwf (be_pending s) \<and>
     (\<forall>oid p. hget (be_pending s) oid = Some p \<longrightarrow> bo_order_id p = oid \<and> booked (be_engine s) oid \<and>
        (bt_defers s \<longrightarrow> holds s (key_of p) oid)) \<and>
     (\<forall>key st. hget (be_lanes s) key = Some st \<longrightarrow> lane_ok X s key st) \<and>
     (\<forall>oid key. hget (be_order_lane s) oid = Some key \<longrightarrow> known (be_engine s) oid) \<and>
     (\<forall>x \<in> X. hget (be_pending s) x = None \<and>
        (bt_defers s \<longrightarrow> (\<exists>key. hget (be_order_lane s) x = Some key \<and> holds s key x))) \<and>
     (\<not> bt_defers s \<longrightarrow> be_lanes s = [] \<and> be_order_lane s = [])"

lemma bt_start: "bt_inv {} (builder_build b)"
  by (simp add: bt_inv_def builder_build_def sim_engine_new)

text \<open>The invariant reads only part of the state, and the engine only through what moves forward.\<close>

lemma bt_inv_frame:
  assumes "bt_inv X s" "be_pending s' = be_pending s" "be_lanes s' = be_lanes s"
    "be_order_lane s' = be_order_lane s" "be_latency s' = be_latency s" "sim_engine (be_engine s')"
    "engine_le (be_engine s) (be_engine s')"
  shows "bt_inv X s'"
proof -
  note k = known_le [OF assms(7)] booked_le [OF assms(7)]
  have d: "bt_defers s' = bt_defers s" by (simp add: bt_defers_def assms(5))
  have h: "holds s' key oid = holds s key oid" for key oid by (simp add: holds_def assms(3))
  have l: "lane_ok X s' key st" if "hget (be_lanes s) key = Some st" for key st
  proof -
    have "lane_ok X s key st" using assms(1) that unfolding bt_inv_def by blast
    then show ?thesis using k unfolding lane_ok_def assms(2,4) by blast
  qed
  show ?thesis
    using assms(1) l unfolding bt_inv_def d h assms(2-4)
    by (elim conjE, intro conjI) (use assms(6) k in \<open>(assumption | blast)+\<close>)
qed

lemma bt_inv_eng: "bt_inv X s \<Longrightarrow> eng_step s s' \<Longrightarrow> bt_inv X s'"
  using bt_inv_frame [of X s s'] eng_step_frame [of s s'] by blast

text \<open>
  What one lane does to the state: its own orders may come and go, those filed under other lanes stay.
\<close>

lemma lane_update:
  assumes inv: "bt_inv X s" and defers: "bt_defers s"
    and engine: "sim_engine (be_engine s')" "engine_le (be_engine s) (be_engine s')"
    and config: "be_latency s' = be_latency s" "hwf (be_pending s')"
    and lanes: "hget (be_lanes s') = (hget (be_lanes s))(key \<mapsto> st)"
    and others: "\<And>i k. hget (be_order_lane s) i = Some k \<Longrightarrow> k \<noteq> key \<Longrightarrow>
      hget (be_order_lane s') i = Some k \<and> hget (be_pending s') i = hget (be_pending s) i"
    and own: "\<And>i. hget (be_order_lane s) i \<in> {None, Some key} \<Longrightarrow>
      hget (be_order_lane s') i \<in> {None, Some key} \<and> (hget (be_order_lane s') i \<noteq> None \<longrightarrow> known (be_engine s') i) \<and>
      (\<forall>p. hget (be_pending s') i = Some p \<longrightarrow> bo_order_id p = i \<and> lane_order st = Some i)"
    and lane: "lane_ok X' s' key st"
    and X: "X' \<subseteq> X" "\<And>x. x \<in> X \<Longrightarrow> x \<notin> X' \<Longrightarrow> hget (be_order_lane s) x = Some key"
      "\<And>x. x \<in> X' \<Longrightarrow> hget (be_order_lane s) x = Some key \<Longrightarrow>
        hget (be_pending s') x = None \<and> lane_order st = Some x \<and> hget (be_order_lane s') x = Some key"
  shows "bt_inv X' s'"
proof -
  have d: "bt_defers s'" using defers by (simp add: bt_defers_def config)
  note k = known_le [OF engine(2)] booked_le [OF engine(2)]
  have old: "lane_ok X s k st'" if "hget (be_lanes s) k = Some st'" for k st'
    using inv that unfolding bt_inv_def by blast
  have filed: "hget (be_order_lane s) i = Some (key_of p)" if "hget (be_pending s) i = Some p" for i p
  proof -
    have "holds s (key_of p) i" using inv that defers unfolding bt_inv_def by blast
    then obtain st' where "hget (be_lanes s) (key_of p) = Some st'" "lane_order st' = Some i" by (auto simp: holds_def)
    with old [of "key_of p" st'] show ?thesis by (auto simp: lane_ok_def)
  qed
  have h: "holds s' k i" if "holds s k i" "k \<noteq> key" for k i using that by (auto simp: holds_def lanes)
  have hk: "holds s' key i" if "lane_order st = Some i" for i using that by (auto simp: holds_def lanes)
  have pend: "bo_order_id p = i \<and> booked (be_engine s') i \<and> holds s' (key_of p) i" if "hget (be_pending s') i = Some p" for i p
  proof (cases "\<exists>k. hget (be_order_lane s) i = Some k \<and> k \<noteq> key")
    case True
    then obtain k where k': "hget (be_order_lane s) i = Some k" "k \<noteq> key" by blast
    with others [OF this] that have p: "hget (be_pending s) i = Some p" by simp
    with inv defers have "bo_order_id p = i" "booked (be_engine s) i" "holds s (key_of p) i"
      unfolding bt_inv_def by blast+
    with h k filed [OF p] k' show ?thesis by auto
  next
    case False
    then have "hget (be_order_lane s) i \<in> {None, Some key}" by (cases "hget (be_order_lane s) i") auto
    from own [OF this] that have "bo_order_id p = i" "lane_order st = Some i" by blast+
    with lane hk that show ?thesis by (auto simp: lane_ok_def)
  qed
  have ok: "lane_ok X' s' k st'" if "hget (be_lanes s') k = Some st'" for k st'
  proof (cases "k = key")
    case True
    with that lane lanes show ?thesis by simp
  next
    case False
    with that lanes have "lane_ok X s k st'" using old by simp
    moreover have "x \<in> X'" if "x \<in> X" "hget (be_order_lane s) x = Some k" for x using X(2) [of x] that False by auto
    moreover have "x \<notin> X'" if "x \<notin> X" for x using X(1) that by blast
    ultimately show ?thesis
      unfolding lane_ok_def using others [OF _ False] k by (auto split: option.splits)
  qed
  have reg: "known (be_engine s') i" if "hget (be_order_lane s') i = Some k'" for i k'
  proof (cases "\<exists>k. hget (be_order_lane s) i = Some k \<and> k \<noteq> key")
    case True
    with inv k show ?thesis unfolding bt_inv_def by blast
  next
    case False
    then have "hget (be_order_lane s) i \<in> {None, Some key}" by (cases "hget (be_order_lane s) i") auto
    from own [OF this] that show ?thesis by blast
  qed
  have drop: "hget (be_pending s') x = None \<and> (\<exists>k. hget (be_order_lane s') x = Some k \<and> holds s' k x)" if x: "x \<in> X'" for x
  proof -
    have "x \<in> X" using X(1) x by blast
    then obtain k where n: "hget (be_pending s) x = None" and "hget (be_order_lane s) x = Some k" "holds s k x"
      using inv defers unfolding bt_inv_def by blast
    then show ?thesis
      using others [of x k] h X(3) [OF x] hk by (cases "k = key") auto
  qed
  show ?thesis
    unfolding bt_inv_def using engine(1) config(2) pend ok reg drop d by blast
qed

section \<open>The steps of a lane\<close>

lemma bt_frame [simp]:
  "be_engine (bt_put i p s) = be_engine s" "be_lanes (bt_put i p s) = be_lanes s"
  "be_order_lane (bt_put i p s) = be_order_lane s" "be_latency (bt_put i p s) = be_latency s"
  "be_pending (bt_put i p s) = hput i p (be_pending s)"
  "be_engine (bt_drop i s) = be_engine s" "be_lanes (bt_drop i s) = be_lanes s"
  "be_order_lane (bt_drop i s) = be_order_lane s" "be_latency (bt_drop i s) = be_latency s"
  "be_pending (bt_drop i s) = hdel i (be_pending s)"
  "be_engine (file_order i k s) = be_engine s" "be_lanes (file_order i k s) = be_lanes s"
  "be_order_lane (file_order i k s) = hput i k (be_order_lane s)" "be_latency (file_order i k s) = be_latency s"
  "be_pending (file_order i k s) = be_pending s"
  "be_engine (unfile_order i s) = be_engine s" "be_lanes (unfile_order i s) = be_lanes s"
  "be_order_lane (unfile_order i s) = hdel i (be_order_lane s)" "be_latency (unfile_order i s) = be_latency s"
  "be_pending (unfile_order i s) = be_pending s"
  "be_engine (put_lane k st s) = be_engine s" "be_lanes (put_lane k st s) = hput k st (be_lanes s)"
  "be_order_lane (put_lane k st s) = be_order_lane s" "be_latency (put_lane k st s) = be_latency s"
  "be_pending (put_lane k st s) = be_pending s"
  by (simp_all add: bt_put_def bt_drop_def file_order_def unfile_order_def put_lane_def)

lemma set_active_frame [simp]:
  "be_engine (set_active_until i t s) = be_engine s" "be_lanes (set_active_until i t s) = be_lanes s"
  "be_order_lane (set_active_until i t s) = be_order_lane s" "be_latency (set_active_until i t s) = be_latency s"
  by (simp_all add: set_active_until_def split: option.split)

lemma set_active_pending:
  "hget (be_pending (set_active_until i t s)) j =
     (if j = i then map_option (\<lambda>p. p\<lparr>bo_active_until := Some t\<rparr>) (hget (be_pending s) i) else hget (be_pending s) j)"
  "hwf (be_pending s) \<Longrightarrow> hwf (be_pending (set_active_until i t s))"
  by (auto simp: set_active_until_def split: option.split)

lemma from_scheduled [simp]:
  "key_of (pending_order_from_scheduled sq a b c) = key_of_quote sq"
  "bo_order_id (pending_order_from_scheduled sq a b c) = sq_order_id sq"
  by (simp_all add: pending_order_from_scheduled_def key_of_def key_of_quote_def Let_def)

lemma key_of_upd [simp]:
  "key_of (p\<lparr>bo_active_until := t\<rparr>) = key_of p" "key_of (p\<lparr>bo_remaining_size := r\<rparr>) = key_of p"
  by (simp_all add: key_of_def)

text \<open>What the invariant says about one lane.\<close>

lemma bt_invD:
  assumes "bt_inv X s"
  shows "sim_engine (be_engine s)" "hwf (be_pending s)"
    "hget (be_pending s) i = Some p \<Longrightarrow> bo_order_id p = i \<and> booked (be_engine s) i"
    "hget (be_lanes s) key = Some st \<Longrightarrow> lane_ok X s key st"
    "hget (be_order_lane s) i = Some k \<Longrightarrow> known (be_engine s) i"
    "x \<in> X \<Longrightarrow> hget (be_pending s) x = None"
    "hget (be_lanes s) key = Some st \<Longrightarrow> bt_defers s"
  using assms unfolding bt_inv_def by (auto simp del: map_of_eq_Some_iff)

lemma pending_filed:
  assumes "bt_inv X s" "bt_defers s" "hget (be_pending s) i = Some p"
  shows "hget (be_order_lane s) i = Some (key_of p)" "holds s (key_of p) i"
proof -
  show h: "holds s (key_of p) i" using assms unfolding bt_inv_def by blast
  then show "hget (be_order_lane s) i = Some (key_of p)"
    using bt_invD(4) [OF assms(1)] by (auto simp: holds_def lane_ok_def simp del: map_of_eq_Some_iff)
qed

text \<open>A lane whose order, if any, is gone: what is still filed under its key is not on the book.\<close>

definition cleared :: "string set \<Rightarrow> backtest \<Rightarrow> quote_lane_key \<Rightarrow> bool" where
  "cleared X s key \<longleftrightarrow> (\<forall>i. hget (be_order_lane s) i \<in> {None, Some key} \<longrightarrow> hget (be_pending s) i = None \<and> i \<notin> X)"

text \<open>
  A state that satisfies the invariant but for the lane \<open>key\<close>, whose waiting quote \<open>sq\<close> is about to be
  activated or whose lane is about to become idle.
\<close>

definition open_lane :: "string set \<Rightarrow> backtest \<Rightarrow> quote_lane_key \<Rightarrow> scheduled_quote option \<Rightarrow> bool" where
  "open_lane X s key w \<longleftrightarrow> bt_defers s \<and> bt_inv X (put_lane key LaneIdle s) \<and> cleared X s key \<and>
     (\<forall>sq. w = Some sq \<longrightarrow> hget (be_order_lane s) (sq_order_id sq) = Some key \<and> key_of_quote sq = key \<and>
        known (be_engine s) (sq_order_id sq))"

lemma open_engine:
  assumes "open_lane X s key w" "eng_step s s'"
  shows "open_lane X s' key w"
proof -
  note f = eng_step_frame [OF assms(2)]
  have "bt_inv X (put_lane key LaneIdle s')"
    by (rule bt_inv_frame [of X "put_lane key LaneIdle s"]) (use assms(1) f in \<open>auto simp: open_lane_def\<close>)
  then show ?thesis
    using assms(1) f known_le [OF f(6)] by (auto simp: open_lane_def cleared_def bt_defers_def)
qed

text \<open>Closing the lane again with any state that fits.\<close>

lemma close_lane:
  assumes o: "open_lane X s key w"
    and s': "be_engine s' = be_engine s" "be_latency s' = be_latency s" "hwf (be_pending s')"
      "hget (be_lanes s') = (hget (be_lanes s))(key \<mapsto> st)"
    and others: "\<And>i k. hget (be_order_lane s) i = Some k \<Longrightarrow> k \<noteq> key \<Longrightarrow>
      hget (be_order_lane s') i = Some k \<and> hget (be_pending s') i = hget (be_pending s) i"
    and own: "\<And>i. hget (be_order_lane s) i \<in> {None, Some key} \<Longrightarrow>
      hget (be_order_lane s') i \<in> {None, Some key} \<and> (hget (be_order_lane s') i \<noteq> None \<longrightarrow> known (be_engine s) i) \<and>
      (\<forall>p. hget (be_pending s') i = Some p \<longrightarrow> bo_order_id p = i \<and> lane_order st = Some i)"
    and lane: "lane_ok X s' key st"
  shows "bt_inv X s'"
proof (rule lane_update [of X "put_lane key LaneIdle s" _ key st])
  show "bt_inv X (put_lane key LaneIdle s)" using o by (simp add: open_lane_def)
  then show "sim_engine (be_engine s')" using s'(1) bt_invD(1) by fastforce
  show "hget (be_lanes s') = (hget (be_lanes (put_lane key LaneIdle s)))(key \<mapsto> st)"
    using s'(4) by (simp add: fun_eq_iff)
  show "hget (be_pending s') x = None \<and> lane_order st = Some x \<and> hget (be_order_lane s') x = Some key"
    if "x \<in> X" "hget (be_order_lane (put_lane key LaneIdle s)) x = Some key" for x
    using o that by (auto simp: open_lane_def cleared_def)
qed (use o s' others own lane in \<open>auto simp: open_lane_def bt_defers_def engine_le_refl\<close>)

lemma hput_hput [simp]: "hput k v (hput k w m) = hput k v m"
  by (induction m) (auto simp: hput_def)

lemma put_lane_put_lane [simp]: "put_lane key st (put_lane key st' s) = put_lane key st s"
  by (simp add: put_lane_def)

lemma lane_ok_idle [simp]: "lane_ok X s key LaneIdle"
  by (simp add: lane_ok_def)

lemma open_overwrite: "open_lane X s key w \<Longrightarrow> open_lane X (put_lane key st s) key w"
  by (simp add: open_lane_def cleared_def bt_defers_def)

lemma pending_here:
  assumes "bt_inv X s" "hget (be_lanes s) key = Some st" "hget (be_pending s) i = Some p"
    "hget (be_order_lane s) i \<in> {None, Some key}"
  shows "lane_order st = Some i"
  using pending_filed [OF assms(1) bt_invD(7) [OF assms(1,2)] assms(3)] assms(2,4) by (auto simp: holds_def)

lemma dropped_here:
  assumes "bt_inv X s" "hget (be_lanes s) key = Some st" "i \<in> X" "hget (be_order_lane s) i \<in> {None, Some key}"
  shows "lane_order st = Some i"
proof -
  obtain k where "hget (be_order_lane s) i = Some k" "holds s k i"
    using assms(1,3) bt_invD(7) [OF assms(1,2)] unfolding bt_inv_def by blast
  with assms(2,4) show ?thesis by (auto simp: holds_def)
qed

text \<open>A lane is open when its order has been removed; a lane without an order is open as it is.\<close>

lemma open_removed:
  assumes inv: "bt_inv X s" and st: "hget (be_lanes s) key = Some st" and oid: "lane_order st = Some oid"
    and s1: "be_engine s1 = be_engine s" "be_lanes s1 = be_lanes s" "be_latency s1 = be_latency s"
      "hget (be_order_lane s1) = (hget (be_order_lane s))(oid := None)"
      "hget (be_pending s1) = (hget (be_pending s))(oid := None)" "hwf (be_pending s1)"
  shows "open_lane (X - {oid}) s1 key (lane_quote st)"
proof -
  note ok = bt_invD(4) [OF inv st]
  have filed: "hget (be_order_lane s) oid = Some key" using ok oid by (simp add: lane_ok_def)
  have gone: "hget (be_pending s) i = None" "i \<notin> X" if "hget (be_order_lane s) i \<in> {None, Some key}" "i \<noteq> oid" for i
  proof -
    show "hget (be_pending s) i = None"
    proof (cases "hget (be_pending s) i")
      case (Some p)
      from pending_here [OF inv st this that(1)] oid that(2) show ?thesis by simp
    qed
    show "i \<notin> X"
    proof
      assume "i \<in> X"
      from dropped_here [OF inv st this that(1)] oid that(2) show False by simp
    qed
  qed
  have neq: "sq_order_id sq \<noteq> oid" if "lane_quote st = Some sq" for sq
  proof
    assume "sq_order_id sq = oid"
    with ok that oid show False by (auto simp: lane_ok_def split: option.splits)
  qed
  have d: "bt_defers s1" using bt_invD(7) [OF inv st] by (simp add: bt_defers_def s1)
  have "bt_inv (X - {oid}) (put_lane key LaneIdle s1)"
    by (rule lane_update [OF inv bt_invD(7) [OF inv st], of _ key LaneIdle])
      (use s1 gone filed bt_invD(1,5) [OF inv] in \<open>auto simp: engine_le_refl\<close>)
  moreover have "cleared (X - {oid}) s1 key"
    using gone s1 by (auto simp: cleared_def)
  ultimately show ?thesis
    using d ok neq by (auto simp: open_lane_def s1 lane_ok_def)
qed

lemma open_waiting:
  assumes inv: "bt_inv X s" and st: "hget (be_lanes s) key = Some st" and none: "lane_order st = None"
  shows "open_lane X s key (lane_quote st)"
proof -
  note ok = bt_invD(4) [OF inv st]
  have gone: "hget (be_pending s) i = None" "i \<notin> X" if i: "hget (be_order_lane s) i \<in> {None, Some key}" for i
  proof -
    show "hget (be_pending s) i = None"
      using pending_here [OF inv st _ i] none by (cases "hget (be_pending s) i") auto
    show "i \<notin> X" using dropped_here [OF inv st _ i] none by (cases "i \<in> X") auto
  qed
  have "bt_inv X (put_lane key LaneIdle s)"
    by (rule lane_update [OF inv bt_invD(7) [OF inv st], of _ key LaneIdle])
      (use gone bt_invD(1,2,5) [OF inv] in \<open>auto simp: engine_le_refl\<close>)
  with gone ok bt_invD(7) [OF inv st] show ?thesis
    by (auto simp: open_lane_def cleared_def lane_ok_def)
qed

text \<open>The three ways to leave an open lane: with an order on the book, with a quote waiting, and idle.\<close>

lemma close_booked:
  assumes o: "open_lane X s key (Some sq)" and b: "booked (be_engine s) (sq_order_id sq)"
    and p: "bo_order_id p = sq_order_id sq" "key_of p = key"
    and st: "lane_order st = Some (sq_order_id sq)" "lane_quote st = None"
    and s': "be_engine s' = be_engine s" "be_latency s' = be_latency s" "hwf (be_pending s')"
      "hget (be_lanes s') = (hget (be_lanes s))(key \<mapsto> st)"
      "hget (be_order_lane s') = (hget (be_order_lane s))(sq_order_id sq \<mapsto> key)"
      "hget (be_pending s') = (hget (be_pending s))(sq_order_id sq \<mapsto> p)"
  shows "bt_inv X s'"
proof (rule close_lane [OF o s'(1-4)])
  have f: "hget (be_order_lane s) (sq_order_id sq) = Some key" and c: "cleared X s key"
    and i: "bt_inv X (put_lane key LaneIdle s)"
    using o by (auto simp: open_lane_def)
  show "lane_ok X s' key st" using b p st s' by (simp add: lane_ok_def)
  show "hget (be_order_lane s') j = Some k \<and> hget (be_pending s') j = hget (be_pending s) j"
    if "hget (be_order_lane s) j = Some k" "k \<noteq> key" for j k
    using that f s' by auto
  show "hget (be_order_lane s') j \<in> {None, Some key} \<and> (hget (be_order_lane s') j \<noteq> None \<longrightarrow> known (be_engine s) j) \<and>
      (\<forall>q. hget (be_pending s') j = Some q \<longrightarrow> bo_order_id q = j \<and> lane_order st = Some j)"
    if "hget (be_order_lane s) j \<in> {None, Some key}" for j
    using that c s' st p booked_known [OF b] bt_invD(5) [OF i, of j] by (auto simp: cleared_def simp del: map_of_eq_Some_iff)
qed

lemma close_waiting:
  assumes o: "open_lane X s key (Some sq)"
  shows "bt_inv X (put_lane key (LanePlacing sq live_at cancel_at) s)"
proof (rule close_lane [OF o])
  have f: "hget (be_order_lane s) (sq_order_id sq) = Some key" and c: "cleared X s key"
    and i: "bt_inv X (put_lane key LaneIdle s)" and k: "key_of_quote sq = key" "known (be_engine s) (sq_order_id sq)"
    using o by (auto simp: open_lane_def)
  show "hwf (be_pending (put_lane key (LanePlacing sq live_at cancel_at) s))" using bt_invD(2) [OF i] by simp
  show "lane_ok X (put_lane key (LanePlacing sq live_at cancel_at) s) key (LanePlacing sq live_at cancel_at)"
    using c f k by (auto simp: lane_ok_def cleared_def)
  show "hget (be_order_lane (put_lane key (LanePlacing sq live_at cancel_at) s)) j \<in> {None, Some key} \<and>
      (hget (be_order_lane (put_lane key (LanePlacing sq live_at cancel_at) s)) j \<noteq> None \<longrightarrow> known (be_engine s) j) \<and>
      (\<forall>q. hget (be_pending (put_lane key (LanePlacing sq live_at cancel_at) s)) j = Some q \<longrightarrow>
        bo_order_id q = j \<and> lane_order (LanePlacing sq live_at cancel_at) = Some j)"
    if "hget (be_order_lane s) j \<in> {None, Some key}" for j
    using that c bt_invD(5) [OF i, of j] by (auto simp: cleared_def simp del: map_of_eq_Some_iff)
qed simp_all

lemma open_unfile:
  assumes o: "open_lane X s key w" and f: "hget (be_order_lane s) oid = Some key"
    and s': "be_engine s' = be_engine s" "be_lanes s' = be_lanes s" "be_latency s' = be_latency s" "hwf (be_pending s')"
      "hget (be_order_lane s') = (hget (be_order_lane s))(oid := None)" "hget (be_pending s') = hget (be_pending s)"
  shows "open_lane X s' key None"
proof -
  have c: "cleared X s key" and i: "bt_inv X (put_lane key LaneIdle s)" using o by (auto simp: open_lane_def)
  have "bt_inv X (put_lane key LaneIdle s')"
    by (rule close_lane [OF o])
      (use f s' c bt_invD(5) [OF i] in \<open>auto simp: cleared_def simp del: map_of_eq_Some_iff\<close>)
  moreover have "cleared X s' key" using c f s' by (auto simp: cleared_def)
  ultimately show ?thesis using o by (simp add: open_lane_def bt_defers_def s')
qed

section \<open>Operations\<close>

text \<open>The invariant holds afterwards, and the configuration is as before.\<close>

definition kept :: "string set \<Rightarrow> backtest \<Rightarrow> backtest \<Rightarrow> bool" where
  "kept X s s' \<longleftrightarrow> bt_inv X s' \<and> be_latency s' = be_latency s"

lemma kept_trans: "kept X s t \<Longrightarrow> kept Y t u \<Longrightarrow> kept Y s u"
  by (simp add: kept_def)

lemma open_sim: "open_lane X s key w \<Longrightarrow> sim_engine (be_engine s)"
  using bt_invD(1) [of X "put_lane key LaneIdle s"] by (simp add: open_lane_def)

lemma open_hwf: "open_lane X s key w \<Longrightarrow> hwf (be_pending s)"
  using bt_invD(2) [of X "put_lane key LaneIdle s"] by (simp add: open_lane_def)

lemma activate_placing_runs:
  assumes o: "open_lane X s key (Some sq)"
  shows "runs (activate_placing d now key sq live_at cancel_at s) (\<lambda>s' evs. kept X s s')"
proof -
  let ?oid = "sq_order_id sq"
  have kn: "known (be_engine s) ?oid" and kq: "key_of_quote sq = key" and f: "hget (be_order_lane s) ?oid = Some key"
    using o by (simp_all add: open_lane_def)
  have rest: "runs (case st of
        Open \<Rightarrow>
          let s1 = file_order ?oid key (bt_put ?oid (pending_order_from_scheduled sq now live_at None) t)
          in (case cancel_at of
            None \<Rightarrow> (put_lane key (LaneLive ?oid) s1, Ok [placed_event sq now])
          | Some deadline \<Rightarrow>
              if deadline \<le> now
              then and_then (confirm_cancelled ?oid now (unfile_order ?oid (bt_drop ?oid s1)))
                (\<lambda>s evs. (put_lane key LaneIdle s, Ok (placed_event sq now # evs)))
              else (put_lane key (LaneCanceling ?oid deadline None) (set_active_until ?oid deadline s1),
                Ok [placed_event sq now]))
      | CancelPending \<Rightarrow>
          let remove_at = unwrap_or cancel_at (now + milliseconds (cancel_latency_ms d t))
          in if remove_at \<le> now
             then and_then (confirm_cancelled ?oid now (unfile_order ?oid t)) (\<lambda>s evs. (put_lane key LaneIdle s, Ok evs))
             else (put_lane key (LaneCanceling ?oid remove_at None)
               (file_order ?oid key (bt_put ?oid (pending_order_from_scheduled sq now live_at (Some remove_at)) t)), Ok [])
      | Terminal r \<Rightarrow> (put_lane key LaneIdle (unfile_order ?oid t), Ok [])
      | SubmitPending \<Rightarrow> (t, Err (BtStayedSubmitPending ?oid))) (\<lambda>s' evs. kept X s s')"
    if t: "eng_step s t" "booked (be_engine t) ?oid" "st \<noteq> SubmitPending" for t st
  proof -
    have ot: "open_lane X t key (Some sq)" by (rule open_engine [OF o t(1)])
    have lat: "be_latency t = be_latency s" and ft: "hget (be_order_lane t) ?oid = Some key"
      using eng_step_frame [OF t(1)] f by simp_all
    have np: "hget (be_pending t) ?oid = None" using ot ft by (auto simp: open_lane_def cleared_def)
    let ?p = "pending_order_from_scheduled sq now live_at"
    have booked: "kept X s (put_lane key st' (file_order ?oid key (bt_put ?oid (?p a) t)))"
      if "lane_order st' = Some ?oid" "lane_quote st' = None" for st' a
      unfolding kept_def
      by (rule conjI, rule close_booked [OF ot t(2), of "?p a" st']) (use that kq lat open_hwf [OF ot] in simp_all)
    have active: "kept X s (put_lane key st' (set_active_until ?oid a (file_order ?oid key (bt_put ?oid (?p None) t))))"
      if "lane_order st' = Some ?oid" "lane_quote st' = None" for st' a
      unfolding kept_def
      by (rule conjI, rule close_booked [OF ot t(2), of "?p None\<lparr>bo_active_until := Some a\<rparr>" st'])
        (use that kq lat open_hwf [OF ot] in \<open>auto simp: set_active_pending fun_eq_iff\<close>)
    have idle: "kept X s (put_lane key LaneIdle u)"
      if "eng_step u' u" "be_engine u' = be_engine t" "be_lanes u' = be_lanes t" "be_latency u' = be_latency t"
        "hwf (be_pending u')" "hget (be_order_lane u') = (hget (be_order_lane t))(?oid := None)"
        "hget (be_pending u') = hget (be_pending t)" for u u'
    proof -
      have "open_lane X u key None" by (rule open_engine [OF open_unfile [OF ot ft that(2-7)] that(1)])
      then show ?thesis using eng_step_frame(4) [OF that(1)] that(4) lat by (simp add: kept_def open_lane_def)
    qed
    have conf: "runs (and_then (confirm_cancelled ?oid now u') (\<lambda>s evs. (put_lane key LaneIdle s, Ok (g evs)))) (\<lambda>s' evs. kept X s s')"
      if "be_engine u' = be_engine t" "be_lanes u' = be_lanes t" "be_latency u' = be_latency t"
        "hwf (be_pending u')" "hget (be_order_lane u') = (hget (be_order_lane t))(?oid := None)"
        "hget (be_pending u') = hget (be_pending t)" for u' g
      by (rule runs_then, rule confirm_runs) (use that t(2) open_sim [OF ot] in \<open>auto intro: idle\<close>)
    have stay: "eng_step u u" if "be_engine u = be_engine t" for u
      using open_sim [OF ot] that by (intro eng_step_refl) simp
    have np': "(hget (be_pending t))(?oid := None) = hget (be_pending t)" using np by auto
    show ?thesis
    proof (cases st)
      case Open
      show ?thesis
      proof (cases cancel_at)
        case None
        with Open booked [of "LaneLive ?oid" None] show ?thesis by (simp add: Let_def)
      next
        case (Some deadline)
        let ?u = "unfile_order ?oid (bt_drop ?oid (file_order ?oid key (bt_put ?oid (?p None) t)))"
        have "runs (and_then (confirm_cancelled ?oid now ?u)
            (\<lambda>s evs. (put_lane key LaneIdle s, Ok (placed_event sq now # evs)))) (\<lambda>s' evs. kept X s s')"
          by (rule conf) (use np' open_hwf [OF ot] in simp_all)
        with Open Some active [of "LaneCanceling ?oid deadline None" deadline] show ?thesis by (simp add: Let_def)
      qed
    next
      case CancelPending
      let ?r = "unwrap_or cancel_at (now + milliseconds (cancel_latency_ms d t))"
      have "runs (and_then (confirm_cancelled ?oid now (unfile_order ?oid t))
          (\<lambda>s evs. (put_lane key LaneIdle s, Ok evs))) (\<lambda>s' evs. kept X s s')"
        by (rule conf) (use open_hwf [OF ot] in simp_all)
      with CancelPending booked [of "LaneCanceling ?oid ?r None" "Some ?r"] show ?thesis by (simp add: Let_def)
    next
      case (Terminal r)
      have "kept X s (put_lane key LaneIdle (unfile_order ?oid t))"
        by (rule idle [OF stay]) (use open_hwf [OF ot] in simp_all)
      with Terminal show ?thesis by simp
    qed (use t(3) in simp)
  qed
  show ?thesis unfolding activate_placing_def Let_def
    by (rule runs_then, rule success_runs [OF open_sim [OF o] kn], rule rest [unfolded Let_def]) blast+
qed

lemma activate_replacement_runs:
  assumes o: "open_lane X s key (Some sq)"
  shows "runs (activate_replacement d now key sq s) (\<lambda>s' evs. kept X s s')"
proof -
  let ?oid = "sq_order_id sq"
  let ?p = "pending_order_from_scheduled sq now (now + milliseconds (place_latency_ms d s))"
  have kn: "known (be_engine s) ?oid" and kq: "key_of_quote sq = key"
    using o by (simp_all add: open_lane_def)
  have rest: "runs (case st of
          Open \<Rightarrow>
            (put_lane key (LaneLive ?oid) (file_order ?oid key (bt_put ?oid (?p None) t)), Ok [placed_event sq now])
        | CancelPending \<Rightarrow>
            let remove_at = now + milliseconds (cancel_latency_ms d t)
            in if remove_at \<le> now
               then and_then (confirm_cancelled ?oid now t) (\<lambda>s evs. (put_lane key LaneIdle s, Ok evs))
               else (put_lane key (LaneCanceling ?oid remove_at None)
                 (file_order ?oid key (bt_put ?oid (?p (Some remove_at)) t)), Ok [])
        | Terminal r \<Rightarrow> (put_lane key LaneIdle t, Ok [])
        | SubmitPending \<Rightarrow> (t, Err (BtStayedSubmitPending ?oid))) (\<lambda>s' evs. kept X s s')"
    if t: "eng_step s t" "booked (be_engine t) ?oid" "st \<noteq> SubmitPending" for t st
  proof -
    have ot: "open_lane X t key (Some sq)" by (rule open_engine [OF o t(1)])
    have lat: "be_latency t = be_latency s" using eng_step_frame [OF t(1)] by simp
    have booked: "kept X s (put_lane key st' (file_order ?oid key (bt_put ?oid (?p a) t)))"
      if "lane_order st' = Some ?oid" "lane_quote st' = None" for st' a
      unfolding kept_def
      by (rule conjI, rule close_booked [OF ot t(2), of "?p a" st']) (use that kq lat open_hwf [OF ot] in simp_all)
    have idle: "kept X s (put_lane key LaneIdle u)" if "eng_step t u" for u
      using open_engine [OF ot that] eng_step_frame(4) [OF that] lat by (simp add: kept_def open_lane_def)
    have "runs (and_then (confirm_cancelled ?oid now t) (\<lambda>s evs. (put_lane key LaneIdle s, Ok evs))) (\<lambda>s' evs. kept X s s')"
      by (rule runs_then, rule confirm_runs [OF open_sim [OF ot] t(2)]) (auto intro: idle)
    then show ?thesis
      using t(3) booked idle [OF eng_step_refl [OF open_sim [OF ot]]]
      by (cases st) (simp_all add: Let_def)
  qed
  have wait: "kept X s (put_lane key (LanePlacing sq l None) s)" for l
    using close_waiting [OF o] by (simp add: kept_def)
  show ?thesis
  proof (cases "now + milliseconds (place_latency_ms d s) \<le> now")
    case True
    show ?thesis unfolding activate_replacement_def Let_def if_P [OF True]
      by (rule runs_then, rule success_runs [OF open_sim [OF o] kn], rule rest [unfolded Let_def]) blast+
  qed (simp add: activate_replacement_def Let_def wait)
qed

lemma replace_with_runs:
  assumes "open_lane X s key repl"
  shows "runs (replace_with d now key oid remove_at repl s) (\<lambda>s' evs. kept X s s')"
proof (cases repl)
  case None
  with assms show ?thesis by (simp add: replace_with_def kept_def open_lane_def)
next
  case (Some sq)
  have "open_lane X (put_lane key (LaneCanceling oid remove_at None) s) key (Some sq)"
    using open_overwrite assms Some by blast
  from activate_replacement_runs [OF this, of d now] Some show ?thesis
    by (simp add: replace_with_def kept_def)
qed

text \<open>A pending order may change while it keeps its id and its lane.\<close>

lemma repend_inv:
  assumes i: "bt_inv X s" and p: "hget (be_pending s) oid = Some p"
    and p': "bo_order_id p' = bo_order_id p" "key_of p' = key_of p"
  shows "bt_inv X (bt_put oid p' s)"
proof -
  let ?s = "bt_put oid p' s"
  have d: "bt_defers ?s = bt_defers s" "holds ?s key j = holds s key j" for key j
    by (simp_all add: bt_defers_def holds_def)
  have "lane_ok X ?s key st" if "hget (be_lanes s) key = Some st" for key st
    using bt_invD(4) [OF i that] p p' by (auto simp: lane_ok_def)
  moreover have "bo_order_id q = j \<and> booked (be_engine s) j \<and> (bt_defers s \<longrightarrow> holds s (key_of q) j)"
    if "hget (be_pending ?s) j = Some q" for j q
    using i p p' that unfolding bt_inv_def by (cases "j = oid") (auto simp del: map_of_eq_Some_iff)
  moreover have "hget (be_pending ?s) x = None" if "x \<in> X" for x using bt_invD(6) [OF i that] p by auto
  moreover have "hwf (be_pending ?s)" using bt_invD(2) [OF i] by simp
  ultimately show ?thesis
    using i unfolding bt_inv_def d by (simp del: map_of_eq_Some_iff bt_frame(5))
qed

lemma set_active_inv: "bt_inv X s \<Longrightarrow> bt_inv X (set_active_until oid t s)"
  by (auto simp: set_active_until_def intro: repend_inv split: option.split)

lemma kept_set_active: "bt_inv X s \<Longrightarrow> kept X s (set_active_until oid t s)"
  by (simp add: kept_def set_active_inv)

lemma advance_lane_runs:
  assumes i: "bt_inv {} s"
  shows "runs (advance_lane lat now s key) (\<lambda>s' evs. kept {} s s')"
proof (cases "hget (be_lanes s) key")
  case (Some st)
  note ok = bt_invD(4) [OF i Some]
  show ?thesis
  proof (cases st)
    case (LanePlacing sq live_at cancel_at)
    with open_waiting [OF i Some] have "open_lane {} s key (Some sq)" by simp
    from activate_placing_runs [OF this, of "lat key" now live_at cancel_at] LanePlacing Some i show ?thesis
      by (simp add: advance_lane_def kept_def)
  next
    case (LaneCanceling oid remove_at repl)
    let ?s1 = "unfile_order oid (bt_drop oid s)"
    have o: "open_lane {} ?s1 key repl"
      using open_removed [OF i Some, of oid ?s1] LaneCanceling bt_invD(2) [OF i] by simp
    have b: "booked (be_engine ?s1) oid" using ok LaneCanceling by (simp add: lane_ok_def)
    have "runs (and_then (confirm_cancelled oid now ?s1)
        (\<lambda>s evs. and_then (replace_with (lat key) now key oid remove_at repl s) (\<lambda>s evs'. (s, Ok (evs @ evs')))))
        (\<lambda>s' evs. kept {} s s')"
    proof (rule runs_then, rule confirm_runs [OF open_sim [OF o] b])
      fix t and evs :: "limit_order_event list"
      assume t: "eng_step ?s1 t \<and> (\<forall>ev\<in>set evs. ev = user_cancelled oid now)"
      then have "open_lane {} t key repl" using open_engine [OF o] by blast
      moreover have "be_latency t = be_latency s" using t eng_step_frame(4) by fastforce
      ultimately show "runs (and_then (replace_with (lat key) now key oid remove_at repl t) (\<lambda>s evs'. (s, Ok (evs @ evs'))))
          (\<lambda>s' evs. kept {} s s')"
        by (intro runs_then [OF replace_with_runs]) (auto simp: kept_def)
    qed
    with LaneCanceling Some kept_set_active [OF i] show ?thesis by (simp add: advance_lane_def)
  qed (use Some i in \<open>simp_all add: advance_lane_def kept_def\<close>)
qed (simp add: advance_lane_def kept_def i)

lemma set_time_inv: "bt_inv X s \<Longrightarrow> bt_inv X (set_current_time now s)"
  by (rule bt_inv_frame [of X s]) (simp_all add: set_current_time_def engine_le_refl bt_invD(1))

lemma advance_time_runs:
  assumes "bt_inv {} s"
  shows "runs (advance_time lat now s) (\<lambda>s' evs. kept {} s s')"
  unfolding advance_time_def Let_def
proof (rule runs_try_fold)
  show "kept {} s (set_current_time now s)"
    using set_time_inv [OF assms] by (simp add: kept_def set_current_time_def)
  show "runs (advance_lane lat now t key) (\<lambda>s' evs. kept {} s s')" if "kept {} s t" for t key
    by (rule runs_weaken [OF advance_lane_runs]) (use that in \<open>auto simp: kept_def\<close>)
qed

text \<open>A quote enters its lane, or is refused and leaves the lane as it was.\<close>

lemma enter_open:
  assumes i: "bt_inv {} s" and d: "bt_defers s" and none: "hget (be_lanes s) key = None"
  shows "bt_inv {} (put_lane key LaneIdle s)"
proof (rule lane_update [OF i d, of _ key LaneIdle])
  show "hget (be_order_lane (put_lane key LaneIdle s)) j \<in> {None, Some key} \<and>
      (hget (be_order_lane (put_lane key LaneIdle s)) j \<noteq> None \<longrightarrow> known (be_engine (put_lane key LaneIdle s)) j) \<and>
      (\<forall>p. hget (be_pending (put_lane key LaneIdle s)) j = Some p \<longrightarrow> bo_order_id p = j \<and> lane_order LaneIdle = Some j)"
    if "hget (be_order_lane s) j \<in> {None, Some key}" for j
    using that none pending_filed [OF i d, of j] bt_invD(5) [OF i, of j]
    by (cases "hget (be_pending s) j") (auto simp: holds_def simp del: map_of_eq_Some_iff)
qed (use i d bt_invD(1,2) [OF i] in \<open>auto simp: engine_le_refl\<close>)

text \<open>A new waiting quote in a lane that has none: everything else about the lane stays.\<close>

lemma wait_inv:
  assumes i: "bt_inv {} s" and st: "hget (be_lanes s) key = Some st"
    and new: "lane_order st' = lane_order st" "lane_quote st' = Some sq" "key_of_quote sq = key"
      "known (be_engine s) (sq_order_id sq)" "hget (be_order_lane s) (sq_order_id sq) \<in> {None, Some key}"
      "hget (be_pending s) (sq_order_id sq) = None"
  shows "bt_inv {} (file_order (sq_order_id sq) key (put_lane key st' s))"
proof (rule lane_update [OF i bt_invD(7) [OF i st], of _ key st'])
  note ok = bt_invD(4) [OF i st]
  show "lane_ok {} (file_order (sq_order_id sq) key (put_lane key st' s)) key st'"
    using ok new by (auto simp: lane_ok_def)
  show "hget (be_order_lane (file_order (sq_order_id sq) key (put_lane key st' s))) j \<in> {None, Some key} \<and>
      (hget (be_order_lane (file_order (sq_order_id sq) key (put_lane key st' s))) j \<noteq> None \<longrightarrow>
        known (be_engine (file_order (sq_order_id sq) key (put_lane key st' s))) j) \<and>
      (\<forall>p. hget (be_pending (file_order (sq_order_id sq) key (put_lane key st' s))) j = Some p \<longrightarrow>
        bo_order_id p = j \<and> lane_order st' = Some j)"
    if "hget (be_order_lane s) j \<in> {None, Some key}" for j
    using that new bt_invD(5) [OF i, of j] bt_invD(3) [OF i, of j] pending_here [OF i st _ that]
    by (auto simp del: map_of_eq_Some_iff)
qed (use new bt_invD(1,2,7) [OF i] st in \<open>auto simp: engine_le_refl\<close>)

lemma requote_inv:
  assumes i: "bt_inv {} s" and st: "hget (be_lanes s) key = Some st" and sq: "lane_quote st = Some sq"
    and new: "lane_order st' = lane_order st" "lane_quote st' = Some (sq\<lparr>sq_quote := q\<rparr>)"
      "quote_lane_key_of (qr_mint q) (qr_market q) (qr_side q) = key"
  shows "bt_inv {} (put_lane key st' s)"
proof -
  note ok = bt_invD(4) [OF i st]
  have "bt_inv {} (file_order (sq_order_id sq) key (put_lane key st' s))"
    using wait_inv [OF i st new(1,2)] ok sq new(3) by (auto simp: lane_ok_def key_of_quote_def)
  moreover have "hget (be_order_lane s) (sq_order_id sq) = Some key" using ok sq by (simp add: lane_ok_def)
  then have "hput (sq_order_id sq) key (be_order_lane s) = be_order_lane s" by (rule hput_same)
  ultimately show ?thesis by (simp add: file_order_def put_lane_def)
qed

section \<open>Placing and cancelling\<close>

lemma enter_lane_inv:
  assumes i: "bt_inv {} s" and d: "bt_defers s"
    and q: "quote_lane_key_of (qr_mint q) (qr_market q) (qr_side q) = key"
  shows "kept {} s (fst (enter_lane u dr ts live_at key oid q s))"
proof -
  define st where "st = unwrap_or (hget (be_lanes s) key) LaneIdle"
  define s1 where "s1 = put_lane key st s"
  have st: "hget (be_lanes s1) key = Some st" by (simp add: s1_def)
  have i1: "bt_inv {} s1"
  proof (cases "hget (be_lanes s) key")
    case None
    with enter_open [OF i d] show ?thesis by (simp add: s1_def st_def)
  next
    case (Some st')
    with i show ?thesis by (simp add: s1_def st_def put_lane_def hput_same)
  qed
  have lat: "be_latency s1 = be_latency s" by (simp add: s1_def)
  have k1: "kept {} s s1" using i1 lat by (simp add: kept_def)
  have requote: "kept {} s (put_lane key st' s1)"
    if "lane_quote st = Some sq" "lane_order st' = lane_order st" "lane_quote st' = Some (sq\<lparr>sq_quote := q\<rparr>)" for sq st'
    using requote_inv [OF i1 st that q] lat by (simp add: kept_def)
  obtain t r where t: "bt_place_request u oid q s1 = (t, r)" by fastforce
  note et = request_cases(1) [OF bt_invD(1) [OF i1] t]
  have it: "bt_inv {} t" by (rule bt_inv_eng [OF i1 et])
  have kt: "kept {} s t" using it eng_step_frame(4) [OF et] lat by (simp add: kept_def)
  have wait: "kept {} s (file_order oid key (put_lane key st' t'))"
    if "r = Ok ()" "t' = t \<or> (\<exists>i a. t' = set_active_until i a t)" "lane_order st' = lane_order st"
      "lane_quote st' = Some \<lparr>sq_order_id = oid, sq_quote = q\<rparr>" for st' t'
  proof -
    have new: "known (be_engine t) oid" "\<not> known (be_engine s1) oid"
      using request_cases(2) [OF bt_invD(1) [OF i1] t that(1)] by simp_all
    have fresh: "hget (be_order_lane s1) oid = None" "hget (be_pending s1) oid = None"
      using new(2) bt_invD(5) [OF i1, of oid] bt_invD(3) [OF i1, of oid] booked_known
      by (cases "hget (be_order_lane s1) oid"; cases "hget (be_pending s1) oid"; auto simp del: map_of_eq_Some_iff)+
    have t': "bt_inv {} t'" "be_lanes t' = be_lanes s1" "be_order_lane t' = be_order_lane s1" "be_engine t' = be_engine t"
      "hget (be_pending t') oid = None" "be_latency t' = be_latency s"
      using that(2) it set_active_inv [OF it] eng_step_frame [OF et] fresh lat by (auto simp: set_active_pending)
    show ?thesis
      using wait_inv [OF t'(1), of key st st' "\<lparr>sq_order_id = oid, sq_quote = q\<rparr>"] st that(3,4) q new(1) fresh(1) t'
      by (simp add: key_of_quote_def kept_def)
  qed
  have same: "enter_lane u dr ts live_at key oid q s = (case st of
        LaneIdle \<Rightarrow> and_then (t, r) (\<lambda>s _.
          (file_order oid key (put_lane key (LanePlacing \<lparr>sq_order_id = oid, sq_quote = q\<rparr> live_at None) s), Ok oid))
      | LanePlacing sq live_from cancel_at \<Rightarrow>
          (put_lane key (LanePlacing (sq\<lparr>sq_quote := q\<rparr>) live_from cancel_at) s1, Ok (sq_order_id sq))
      | LaneLive live_id \<Rightarrow>
          if (case hget (be_pending s1) live_id of None \<Rightarrow> False | Some p \<Rightarrow> quote_matches_live_order q p)
          then (s1, Ok live_id)
          else and_then (t, r) (\<lambda>s _.
            let remove_at = ts + milliseconds (cancel_latency_ms dr s)
            in (file_order oid key (put_lane key
                 (LaneCanceling live_id remove_at (Some \<lparr>sq_order_id = oid, sq_quote = q\<rparr>))
                 (set_active_until live_id remove_at s)), Ok oid))
      | LaneCanceling old remove_at (Some sq) \<Rightarrow>
          (put_lane key (LaneCanceling old remove_at (Some (sq\<lparr>sq_quote := q\<rparr>))) s1, Ok (sq_order_id sq))
      | LaneCanceling old remove_at None \<Rightarrow> and_then (t, r) (\<lambda>s _.
          (file_order oid key (put_lane key
             (LaneCanceling old remove_at (Some \<lparr>sq_order_id = oid, sq_quote = q\<rparr>)) s), Ok oid)))"
    by (simp only: enter_lane_def st_def [symmetric] s1_def [symmetric] Let_def t)
  show ?thesis
  proof (cases r)
    case (Inl err)
    with same kt k1 requote show ?thesis
      by (cases st) (simp_all add: and_then_def split: option.split)
  next
    case (Inr x)
    then have r: "r = Ok ()" by simp
    have active: "kept {} s (file_order oid key (put_lane key st' (set_active_until a b t)))"
      if "lane_order st' = lane_order st" "lane_quote st' = Some \<lparr>sq_order_id = oid, sq_quote = q\<rparr>" for st' a b
      using wait [OF r _ that] by blast
    show ?thesis
      using same k1 requote wait [OF r, of t] active
      by (cases st) (simp_all add: and_then_def r Let_def split: option.split)
  qed
qed

lemma place_at_once_inv:
  assumes i: "bt_inv {} s" and d: "\<not> bt_defers s"
  shows "kept {} s (fst (place_at_once u dr ts oid q s))"
proof -
  obtain t r where t: "bt_place_request u oid q s = (t, r)" by fastforce
  note et = request_cases(1) [OF bt_invD(1) [OF i] t]
  have it: "bt_inv {} t" by (rule bt_inv_eng [OF i et])
  have kt: "kept {} s t" using it eng_step_frame(4) [OF et] by (simp add: kept_def)
  show ?thesis
  proof (cases r)
    case (Inl err)
    with t kt show ?thesis by (simp add: place_at_once_def and_then_def)
  next
    case (Inr x)
    then have "r = Ok ()" by simp
    from request_cases(2) [OF bt_invD(1) [OF i] t this] have kn: "known (be_engine t) oid" by simp
    obtain v st where v: "bt_place_success oid t = (v, Inr st)" "eng_step t v" "booked (be_engine v) oid"
      using success_runs [OF bt_invD(1) [OF it] kn] by (auto simp: runs_def split: prod.splits sum.splits)
    have iv: "bt_inv {} v" by (rule bt_inv_eng [OF it v(2)])
    have lv: "be_latency v = be_latency s" using eng_step_frame(4) [OF v(2)] kt by (simp add: kept_def)
    have dv: "\<not> bt_defers v" using d lv by (simp add: bt_defers_def)
    have "bt_inv {} (bt_put oid p v)" if "bo_order_id p = oid" for p
      using iv dv v(3) that bt_invD(2) [OF iv] unfolding bt_inv_def
      by (auto simp: bt_defers_def simp del: map_of_eq_Some_iff split: if_splits)
    with iv lv Inr t v show ?thesis
      by (simp add: place_at_once_def and_then_def kept_def Let_def)
  qed
qed

lemma place_inv:
  assumes i: "bt_inv {} s"
  shows "kept {} s (fst (execute_limit_order_with_lifecycle u dr s ord))"
proof (cases "limit_terms (ord_order_type ord)")
  case None
  with i show ?thesis by (simp add: execute_limit_order_with_lifecycle_def kept_def)
next
  case (Some x)
  obtain amount lp side tif where x: "x = (amount, lp, side, tif)" by (cases x)
  obtain s1 oid where g: "bt_generate_order_id (set_current_time (ord_timestamp ord) s) = (s1, oid)" by fastforce
  have i1: "bt_inv {} s1" and l1: "be_latency s1 = be_latency s"
    using g bt_invD(1) [OF i]
    by (auto simp: bt_generate_order_id_def set_current_time_def engine_le_refl intro!: bt_inv_frame [OF i])
  have f: "fst (and_then m (\<lambda>s oid. (s, Ok (g oid)))) = fst m" for m :: "backtest \<times> (bt_error + string)"
    and g :: "string \<Rightarrow> limit_order_event"
    by (auto simp: and_then_def split: prod.split sum.split)
  have e: "kept {} s (fst (enter_lane u dr ts a (quote_lane_key_of (qr_mint q) (qr_market q) (qr_side q)) oid q s1))"
    if "bt_defers s1" for ts a q
    using enter_lane_inv [OF i1 that refl] l1 by (simp add: kept_def)
  have p: "kept {} s (fst (place_at_once u dr ts oid q s1))" if "\<not> bt_defers s1" for ts q
    using place_at_once_inv [OF i1 that] l1 by (simp add: kept_def)
  let ?q = "\<lparr>qr_mint = ord_mint ord, qr_market = ord_market ord, qr_side = side, qr_price = lp, qr_size = amount,
            qr_time_in_force = tif, qr_signal_id = ord_signal_id ord, qr_exit_mode = ord_exit_mode ord,
            qr_context = ord_context ord\<rparr>"
  show ?thesis
    using e [of "ord_timestamp ord" "bt_eligibility_time dr s1 (ord_timestamp ord)" ?q] p [of "ord_timestamp ord" ?q]
    by (simp add: execute_limit_order_with_lifecycle_def Some x g f Let_def)
qed

lemma cancel_in_lane_inv:
  assumes i: "bt_inv {} s"
  shows "kept {} s (cancel_in_lane oid remove_at key s)"
proof (cases "hget (be_lanes s) key")
  case (Some st)
  note ok = bt_invD(4) [OF i Some]
  show ?thesis
  proof (cases st)
    case (LanePlacing sq live_at cancel_at)
    then have "bt_inv {} (put_lane key (LanePlacing sq live_at c) s)" for c
      using requote_inv [OF i Some, of sq "LanePlacing sq live_at c" "sq_quote sq"] ok
      by (simp add: lane_ok_def key_of_quote_def)
    with LanePlacing Some i show ?thesis by (simp add: cancel_in_lane_def kept_def)
  next
    case (LaneLive live_id)
    have "bt_inv {} (put_lane key (LaneCanceling live_id remove_at None) (set_active_until live_id remove_at s))"
    proof (rule lane_update [OF set_active_inv [OF i, of live_id remove_at], of _ key "LaneCanceling live_id remove_at None"])
      show "bt_defers (set_active_until live_id remove_at s)"
        using bt_invD(7) [OF i Some] by (simp add: bt_defers_def)
      let ?s = "put_lane key (LaneCanceling live_id remove_at None) (set_active_until live_id remove_at s)"
      have "lane_ok {} (set_active_until live_id remove_at s) key st"
        using bt_invD(4) [OF set_active_inv [OF i]] Some by simp
      then show "lane_ok {} ?s key (LaneCanceling live_id remove_at None)"
        using LaneLive by (simp add: lane_ok_def)
      show "hget (be_order_lane ?s) j \<in> {None, Some key} \<and> (hget (be_order_lane ?s) j \<noteq> None \<longrightarrow> known (be_engine ?s) j) \<and>
        (\<forall>p. hget (be_pending ?s) j = Some p \<longrightarrow> bo_order_id p = j \<and> lane_order (LaneCanceling live_id remove_at None) = Some j)"
        if "hget (be_order_lane (set_active_until live_id remove_at s)) j \<in> {None, Some key}" for j
        using that pending_here [OF set_active_inv [OF i, of live_id remove_at], of key st j] Some LaneLive
          bt_invD(3,5) [OF set_active_inv [OF i, of live_id remove_at], of j]
        by (auto simp del: map_of_eq_Some_iff)
    qed (use bt_invD(1,2) [OF set_active_inv [OF i, of live_id remove_at]] in \<open>auto simp: engine_le_refl\<close>)
    with LaneLive Some i show ?thesis by (cases "live_id = oid") (simp_all add: cancel_in_lane_def kept_def)
  qed (use Some i in \<open>simp_all add: cancel_in_lane_def kept_def\<close>)
qed (simp add: cancel_in_lane_def kept_def i)

text \<open>A cancel never fails; without latencies the order leaves the book at once.\<close>

lemma cancel_runs:
  assumes i: "bt_inv {} s"
  shows "runs (cancel_order_with_lifecycle dr clock s oid) (\<lambda>s' ev. kept {} s s')"
proof (cases "if bt_defers s then hget (be_order_lane s) oid else None")
  case (Some key)
  have "runs (and_then (bt_cancel_request oid (cancel_in_lane oid a key s)) (\<lambda>s _. (s, Ok (user_cancelled oid a))))
      (\<lambda>s' ev. kept {} s s')" for a
  proof (rule runs_then)
    have k: "kept {} s (cancel_in_lane oid a key s)" by (rule cancel_in_lane_inv [OF i])
    then show "runs (bt_cancel_request oid (cancel_in_lane oid a key s)) (\<lambda>s' x. kept {} s s')"
      by (intro runs_weaken [OF cancel_request_runs]) (auto simp: kept_def bt_invD(1) eng_step_frame(4) intro: bt_inv_eng)
  qed simp
  with Some show ?thesis by (simp add: cancel_order_with_lifecycle_def Let_def)
next
  case None
  have "runs (and_then (bt_cancel_request oid s) (\<lambda>s _.
          case hget (be_pending s) oid of None \<Rightarrow> (s, Ok (already_removed oid now))
          | Some p \<Rightarrow> and_then (bt_cancel_confirmed oid (bt_drop oid s)) (\<lambda>s _. (s, Ok (user_cancelled oid now)))))
      (\<lambda>s' ev. kept {} s s')" for now
  proof (rule runs_then, rule cancel_request_runs [OF bt_invD(1) [OF i]])
    fix t x assume t: "eng_step s t"
    have it: "bt_inv {} t" by (rule bt_inv_eng [OF i t])
    have lt: "be_latency t = be_latency s" by (rule eng_step_frame(4) [OF t])
    show "runs (case hget (be_pending t) oid of None \<Rightarrow> (t, Ok (already_removed oid now))
          | Some p \<Rightarrow> and_then (bt_cancel_confirmed oid (bt_drop oid t)) (\<lambda>s _. (s, Ok (user_cancelled oid now))))
      (\<lambda>s' ev. kept {} s s')"
    proof (cases "hget (be_pending t) oid")
      case (Some p)
      have nd: "\<not> bt_defers t"
      proof
        assume "bt_defers t"
        with pending_filed(1) [OF it this Some] None lt eng_step_frame(3) [OF t] show False by (simp add: bt_defers_def)
      qed
      have "bt_inv {} (bt_drop oid t)"
        using it nd bt_invD(2) [OF it] unfolding bt_inv_def
        by (auto simp: bt_defers_def simp del: map_of_eq_Some_iff split: if_splits)
      moreover from bt_invD(3) [OF it Some] have "booked (be_engine (bt_drop oid t)) oid" by simp
      ultimately have "runs (bt_cancel_confirmed oid (bt_drop oid t)) (\<lambda>s' b. kept {} s s')"
        using lt by (intro runs_weaken [OF cancel_confirmed_runs])
          (use bt_invD(1) [OF it] in \<open>auto simp: kept_def dest: eng_step_frame(4) intro: bt_inv_eng\<close>)
      with Some show ?thesis by (simp, intro runs_then) auto
    qed (simp add: kept_def it lt)
  qed
  with None show ?thesis by (simp add: cancel_order_with_lifecycle_def Let_def)
qed

section \<open>Trades\<close>

definition terms :: "bt_order \<Rightarrow> bt_order" where
  "terms p = p\<lparr>bo_remaining_size := f0\<rparr>"

lemma terms_upd [simp]: "terms (p\<lparr>bo_remaining_size := r\<rparr>) = terms p"
  by (simp add: terms_def)

lemma terms_fields:
  "terms p' = terms p \<Longrightarrow> bo_order_id p' = bo_order_id p \<and> bo_mint p' = bo_mint p \<and> bo_side p' = bo_side p \<and>
     bo_price p' = bo_price p \<and> bo_eligible_at p' = bo_eligible_at p \<and> bo_active_until p' = bo_active_until p"
  by (cases p; cases p') (simp add: terms_def)

text \<open>
  What a fill event must satisfy with respect to the pending order \<open>p\<close> it fills: the trade was on its
  asset or mirrored from the complement, it crosses the order's price, and the order was on the book.
\<close>

fun bt_legal_fill :: "timestamp \<Rightarrow> trade \<Rightarrow> string option \<Rightarrow> bt_order \<Rightarrow> limit_order_event \<Rightarrow> bool" where
  "bt_legal_fill ts tr mirror p (OrderPartiallyFilled oid mint side q rem price t sig em) \<longleftrightarrow>
     oid = bo_order_id p \<and> mint = bo_mint p \<and> side = bo_side p \<and> price = bo_price p \<and> t = ts \<and>
     (bo_mint p = tr_asset_id tr \<or> mirror = Some (bo_mint p)) \<and>
     crosses p (effective_trade tr (bo_mint p = tr_asset_id tr)) \<and> bo_eligible_at p \<le> ts \<and>
     (\<forall>u. bo_active_until p = Some u \<longrightarrow> ts < u) \<and> \<not> fle q f0"
| "bt_legal_fill ts tr mirror p ev \<longleftrightarrow> False"

lemma legal_terms:
  assumes "terms p' = terms p" "bt_legal_fill ts tr mirror p' ev"
  shows "bt_legal_fill ts tr mirror p ev"
proof -
  have "crosses p' et = crosses p et" for et
    using terms_fields [OF assms(1)] by (cases "bo_side p"; cases "fst et") (simp_all add: crosses_def)
  with assms(2) terms_fields [OF assms(1)] show ?thesis by (cases ev) auto
qed

text \<open>One order of the pass: the others and its own terms stay, and at most one fill of it is reported.\<close>

definition fill_post :: "timestamp \<Rightarrow> trade \<Rightarrow> string option \<Rightarrow> string \<Rightarrow> bt_pass \<Rightarrow> bt_pass \<Rightarrow> limit_order_event list \<Rightarrow> bool" where
  "fill_post ts tr mirror oid a a' evs \<longleftrightarrow> kept {} (ba_exec a) (ba_exec a') \<and>
     (\<forall>k. map_option terms (hget (be_pending (ba_exec a')) k) = map_option terms (hget (be_pending (ba_exec a)) k)) \<and>
     (ba_remove a' = ba_remove a \<or> ba_remove a' = ba_remove a @ [oid] \<and> hget (be_pending (ba_exec a)) oid \<noteq> None) \<and>
     (evs = [] \<or> (\<exists>p ev. evs = [ev] \<and> hget (be_pending (ba_exec a)) oid = Some p \<and> bt_legal_fill ts tr mirror p ev))"

lemma fill_postD:
  assumes "fill_post ts tr mirror oid a a' evs"
  shows "kept {} (ba_exec a) (ba_exec a')"
    "\<forall>k. map_option terms (hget (be_pending (ba_exec a')) k) = map_option terms (hget (be_pending (ba_exec a)) k)"
    "ba_remove a' = ba_remove a \<or> ba_remove a' = ba_remove a @ [oid] \<and> hget (be_pending (ba_exec a)) oid \<noteq> None"
    "evs = [] \<or> (\<exists>p ev. evs = [ev] \<and> hget (be_pending (ba_exec a)) oid = Some p \<and> bt_legal_fill ts tr mirror p ev)"
  using assms by (simp_all add: fill_post_def)

lemma fill_post_refl: "bt_inv {} (ba_exec a) \<Longrightarrow> fill_post ts tr mirror oid a a []"
  by (simp add: fill_post_def kept_def)

lemma track_frame [simp]:
  "ba_exec (bt_track_fill p q a) = ba_exec a" "ba_remove (bt_track_fill p q a) = ba_remove a"
  by (simp_all add: bt_track_fill_def Let_def)

lemma bt_fill_positive: "bt_fill_size tr inventory aq p a = Some q \<Longrightarrow> \<not> fle q f0"
  by (simp add: bt_fill_size_def Let_def split: if_splits)

lemma apply_fill_runs:
  assumes i: "bt_inv {} (ba_exec a)" and p: "hget (be_pending (ba_exec a)) oid = Some p" and q: "\<not> fle q f0"
    and legal: "bo_mint p = tr_asset_id tr \<or> mirror = Some (bo_mint p)"
      "crosses p (effective_trade tr (bo_mint p = tr_asset_id tr))" "bo_eligible_at p \<le> ts"
      "\<And>u. bo_active_until p = Some u \<Longrightarrow> ts < u"
  shows "runs (bt_apply_fill ts oid p q a) (fill_post ts tr mirror oid a)"
proof -
  have oid: "bo_order_id p = oid" and b: "booked (be_engine (ba_exec a)) oid" using bt_invD(3) [OF i p] by simp_all
  obtain t st rem where t: "bt_fill_evidence oid q (ba_exec a) = (t, Inr (st, rem))" and e: "eng_step (ba_exec a) t"
    using fill_runs [OF bt_invD(1) [OF i] b q] by (auto simp: runs_def split: prod.splits sum.splits)
  have it: "bt_inv {} t" by (rule bt_inv_eng [OF i e])
  have pt: "be_pending t = be_pending (ba_exec a)" "be_latency t = be_latency (ba_exec a)"
    using eng_step_frame [OF e] by simp_all
  have iu: "bt_inv {} (bt_put oid (p\<lparr>bo_remaining_size := rem\<rparr>) t)"
    by (rule repend_inv [OF it]) (use p pt in simp_all)
  let ?q = "fmax (fsub (bo_remaining_size p) rem) f0"
  show ?thesis
  proof (cases "fle ?q f0")
    case True
    with it pt t show ?thesis by (simp add: bt_apply_fill_def fill_post_def kept_def Let_def)
  next
    case False
    have "bt_legal_fill ts tr mirror p (OrderPartiallyFilled oid (bo_mint p) (bo_side p) ?q r (bo_price p) ts s em)" for r s em
      using False legal oid by simp
    with iu pt p t False show ?thesis
      by (simp add: bt_apply_fill_def fill_post_def kept_def Let_def)
  qed
qed

lemma fill_attempt_cases:
  assumes "hget (be_pending (ba_exec a)) oid = Some p"
  assumes r_def: "r = try_fill_order ts tr mirror inventory aq a oid"
  shows "r = (a, Ok []) \<or> (\<exists>q. \<not> fle q f0 \<and> (bo_mint p = tr_asset_id tr \<or> mirror = Some (bo_mint p)) \<and>
      crosses p (effective_trade tr (bo_mint p = tr_asset_id tr)) \<and> bo_eligible_at p \<le> ts \<and>
      (\<forall>u. bo_active_until p = Some u \<longrightarrow> ts < u) \<and> r = bt_apply_fill ts oid p q a)"
proof -
  have "r = (a, Ok []) \<or> (\<exists>q. bt_fill_size tr inventory aq p a = Some q \<and> (bo_mint p = tr_asset_id tr \<or> mirror = Some (bo_mint p)) \<and>
      crosses p (effective_trade tr (bo_mint p = tr_asset_id tr)) \<and> bo_eligible_at p \<le> ts \<and>
      (\<forall>u. bo_active_until p = Some u \<longrightarrow> ts < u) \<and> r = bt_apply_fill ts oid p q a)"
    using assms(1) unfolding r_def try_fill_order_def
    by (cases "bo_active_until p"; cases "bt_fill_size tr inventory aq p a") (auto simp: Let_def not_less not_le)
  with bt_fill_positive show ?thesis by blast
qed

lemma try_fill_runs:
  assumes i: "bt_inv {} (ba_exec a)"
  shows "runs (try_fill_order ts tr mirror inventory aq a oid) (fill_post ts tr mirror oid a)"
proof (cases "hget (be_pending (ba_exec a)) oid")
  case (Some p)
  show ?thesis
    using fill_attempt_cases [OF Some refl, of ts tr mirror inventory aq] apply_fill_runs [OF i Some, of _ tr mirror ts]
      fill_post_refl [OF i, of ts tr mirror oid] by auto
qed (simp add: try_fill_order_def fill_post_refl [OF i])

definition pass_post :: "timestamp \<Rightarrow> trade \<Rightarrow> string option \<Rightarrow> string list \<Rightarrow> bt_pass \<Rightarrow> bt_pass \<Rightarrow> limit_order_event list \<Rightarrow> bool" where
  "pass_post ts tr mirror ids a a' evs \<longleftrightarrow> kept {} (ba_exec a) (ba_exec a') \<and>
     (\<forall>k. map_option terms (hget (be_pending (ba_exec a')) k) = map_option terms (hget (be_pending (ba_exec a)) k)) \<and>
     (\<exists>new. ba_remove a' = ba_remove a @ new \<and> distinct new \<and> set new \<subseteq> set ids \<and>
        (\<forall>k \<in> set new. hget (be_pending (ba_exec a)) k \<noteq> None)) \<and>
     sorted_wrt (<) (map lo_order_id evs) \<and> lo_order_id ` set evs \<subseteq> set ids \<and>
     (\<forall>ev \<in> set evs. \<exists>p. hget (be_pending (ba_exec a)) (lo_order_id ev) = Some p \<and> bt_legal_fill ts tr mirror p ev)"

lemma pass_postD:
  assumes "pass_post ts tr mirror ids a a' evs"
  shows "kept {} (ba_exec a) (ba_exec a')"
    "\<forall>k. map_option terms (hget (be_pending (ba_exec a')) k) = map_option terms (hget (be_pending (ba_exec a)) k)"
    "\<exists>new. ba_remove a' = ba_remove a @ new \<and> distinct new \<and> set new \<subseteq> set ids \<and>
        (\<forall>k \<in> set new. hget (be_pending (ba_exec a)) k \<noteq> None)"
    "sorted_wrt (<) (map lo_order_id evs)" "lo_order_id ` set evs \<subseteq> set ids"
    "ev \<in> set evs \<Longrightarrow> \<exists>p. hget (be_pending (ba_exec a)) (lo_order_id ev) = Some p \<and> bt_legal_fill ts tr mirror p ev"
  using assms by (simp_all add: pass_post_def)

lemma legal_id: "bt_legal_fill ts tr mirror p ev \<Longrightarrow> lo_order_id ev = bo_order_id p \<and> is_fill ev"
  by (cases ev) auto

lemma map_option_terms:
  assumes "\<forall>k. map_option terms (hget m' k) = map_option terms (hget m k)" "hget m' k = Some p'"
  obtains p where "hget m k = Some p" "terms p' = terms p"
proof -
  have "map_option terms (hget m k) = Some (terms p')" using spec [OF assms(1), of k] assms(2) by simp
  then obtain p where "hget m k = Some p" "terms p' = terms p" by (cases "hget m k") auto
  with that show ?thesis by blast
qed

lemma pass_runs:
  assumes "bt_inv {} (ba_exec a)" "sorted_wrt (<) ids"
  shows "runs (try_fold (try_fill_order ts tr mirror inventory aq) a ids) (pass_post ts tr mirror ids a)"
  using assms
proof (induction ids arbitrary: a)
  case Nil
  then show ?case by (simp add: pass_post_def kept_def)
next
  case (Cons k ids)
  have "runs (and_then (try_fold (try_fill_order ts tr mirror inventory aq) b ids) (\<lambda>s'' evs'. (s'', Ok (evs @ evs'))))
      (pass_post ts tr mirror (k # ids) a)" if b: "fill_post ts tr mirror k a b evs" for b evs
  proof (rule runs_then)
    have ib: "bt_inv {} (ba_exec b)" using b by (simp add: fill_post_def kept_def)
    show "runs (try_fold (try_fill_order ts tr mirror inventory aq) b ids) (pass_post ts tr mirror ids b)"
      using Cons.IH [OF ib] Cons.prems(2) by simp
    fix c evs'
    assume c: "pass_post ts tr mirror ids b c evs'"
    have tb: "\<forall>j. map_option terms (hget (be_pending (ba_exec b)) j) = map_option terms (hget (be_pending (ba_exec a)) j)"
      and rb: "ba_remove b = ba_remove a \<or> ba_remove b = ba_remove a @ [k] \<and> hget (be_pending (ba_exec a)) k \<noteq> None"
      and eb: "evs = [] \<or> (\<exists>p ev. evs = [ev] \<and> hget (be_pending (ba_exec a)) k = Some p \<and> bt_legal_fill ts tr mirror p ev)"
      using fill_postD [OF b] by simp_all
    obtain new where new: "ba_remove c = ba_remove b @ new" "distinct new" "set new \<subseteq> set ids"
      "\<forall>j \<in> set new. hget (be_pending (ba_exec b)) j \<noteq> None"
      using pass_postD(3) [OF c] by (elim exE conjE)
    have nk: "k \<notin> set ids" using Cons.prems(2) by auto
    have na: "\<forall>j \<in> set new. hget (be_pending (ba_exec a)) j \<noteq> None"
    proof
      fix j assume "j \<in> set new"
      then have "map_option terms (hget (be_pending (ba_exec b)) j) \<noteq> None" using new(4) by simp
      then show "hget (be_pending (ba_exec a)) j \<noteq> None" using spec [OF tb, of j] by simp
    qed
    have rc: "\<exists>new. ba_remove c = ba_remove a @ new \<and> distinct new \<and> set new \<subseteq> set (k # ids) \<and>
        (\<forall>j \<in> set new. hget (be_pending (ba_exec a)) j \<noteq> None)"
      using rb
    proof
      assume "ba_remove b = ba_remove a"
      with new na show ?thesis by (intro exI [of _ new]) auto
    next
      assume "ba_remove b = ba_remove a @ [k] \<and> hget (be_pending (ba_exec a)) k \<noteq> None"
      with new na nk show ?thesis by (intro exI [of _ "k # new"]) auto
    qed
    have idk: "lo_order_id ev = k" if "hget (be_pending (ba_exec a)) k = Some p" "bt_legal_fill ts tr mirror p ev" for p ev
      using bt_invD(3) [OF Cons.prems(1) that(1)] legal_id [OF that(2)] by simp
    have lc: "\<exists>p. hget (be_pending (ba_exec a)) (lo_order_id ev) = Some p \<and> bt_legal_fill ts tr mirror p ev"
      if in_evs: "ev \<in> set evs'" for ev
    proof -
      obtain p' where "hget (be_pending (ba_exec b)) (lo_order_id ev) = Some p'" "bt_legal_fill ts tr mirror p' ev"
        using pass_postD(6) [OF c in_evs] by (elim exE conjE)
      note p' = this
      obtain p where "hget (be_pending (ba_exec a)) (lo_order_id ev) = Some p" "terms p' = terms p"
        using map_option_terms [OF tb p'(1)] .
      with legal_terms p'(2) show ?thesis by blast
    qed
    have sc: "sorted_wrt (<) (map lo_order_id evs')" "lo_order_id ` set evs' \<subseteq> set ids"
      by (rule pass_postD(4,5) [OF c])+
    have less: "k < j" if "j \<in> set ids" for j using Cons.prems(2) that by simp
    have ev: "sorted_wrt (<) (map lo_order_id (evs @ evs')) \<and> lo_order_id ` set (evs @ evs') \<subseteq> set (k # ids) \<and>
      (\<forall>ev \<in> set (evs @ evs'). \<exists>p. hget (be_pending (ba_exec a)) (lo_order_id ev) = Some p \<and> bt_legal_fill ts tr mirror p ev)"
      using eb
    proof
      assume "evs = []"
      with sc lc show ?thesis by auto
    next
      assume "\<exists>p ev. evs = [ev] \<and> hget (be_pending (ba_exec a)) k = Some p \<and> bt_legal_fill ts tr mirror p ev"
      then obtain p ev where p: "evs = [ev]" "hget (be_pending (ba_exec a)) k = Some p" "bt_legal_fill ts tr mirror p ev" by blast
      have "k < lo_order_id ev'" if "ev' \<in> set evs'" for ev' using sc(2) that less by auto
      with p idk [OF p(2,3)] sc lc show ?thesis by auto
    qed
    have tc: "\<forall>j. map_option terms (hget (be_pending (ba_exec c)) j) = map_option terms (hget (be_pending (ba_exec a)) j)"
      using pass_postD(2) [OF c] tb by simp
    have "kept {} (ba_exec a) (ba_exec c)"
      by (rule kept_trans [OF fill_postD(1) [OF b] pass_postD(1) [OF c]])
    with rc ev tc show "runs (c, Ok (evs @ evs')) (pass_post ts tr mirror (k # ids) a)"
      unfolding runs_return pass_post_def by blast
  qed
  then show ?case
    by (simp, intro runs_then [OF try_fill_runs [OF Cons.prems(1)]])
qed

text \<open>Filled orders leave the book, then their lanes are released one by one.\<close>

lemma drop_inv:
  assumes i: "bt_inv X s" and p: "hget (be_pending s) oid \<noteq> None"
  shows "bt_inv (insert oid X) (bt_drop oid s)"
proof -
  obtain p where p: "hget (be_pending s) oid = Some p" using p by blast
  let ?s = "bt_drop oid s"
  have d: "bt_defers ?s = bt_defers s" "holds ?s key j = holds s key j" for key j
    by (simp_all add: bt_defers_def holds_def)
  have "lane_ok (insert oid X) ?s key st" if "hget (be_lanes s) key = Some st" for key st
    using bt_invD(4) [OF i that] p by (auto simp: lane_ok_def simp del: map_of_eq_Some_iff split: option.splits)
  moreover have "bo_order_id q = j \<and> booked (be_engine s) j \<and> (bt_defers s \<longrightarrow> holds s (key_of q) j)"
    if "hget (be_pending ?s) j = Some q" for j q
    using i that unfolding bt_inv_def by (auto simp del: map_of_eq_Some_iff split: if_splits)
  moreover have "hget (be_pending ?s) x = None \<and>
      (bt_defers s \<longrightarrow> (\<exists>key. hget (be_order_lane s) x = Some key \<and> holds s key x))" if "x \<in> insert oid X" for x
    using i that pending_filed [OF i _ p] unfolding bt_inv_def by (cases "x = oid") auto
  moreover have "hwf (be_pending ?s)" using bt_invD(2) [OF i] by simp
  ultimately show ?thesis
    using i unfolding bt_inv_def d by (simp del: map_of_eq_Some_iff bt_frame(10))
qed

lemma drop_all_runs:
  assumes "bt_inv X s" "distinct ids" "\<forall>k \<in> set ids. hget (be_pending s) k \<noteq> None"
  shows "kept (X \<union> set ids) s (foldl (\<lambda>s oid. bt_drop oid s) s ids)"
  using assms
proof (induction ids arbitrary: X s)
  case (Cons k ids)
  have "bt_inv (insert k X) (bt_drop k s)" by (rule drop_inv) (use Cons.prems in auto)
  moreover have "\<forall>j \<in> set ids. hget (be_pending (bt_drop k s)) j \<noteq> None" using Cons.prems(2,3) by auto
  ultimately show ?case using Cons.IH [of "insert k X" "bt_drop k s"] Cons.prems(2) by (simp add: kept_def)
qed (simp add: kept_def)

lemma release_runs:
  assumes i: "bt_inv X s" and x: "oid \<in> X"
  shows "runs (release_filled lat ts s oid) (\<lambda>s' evs. kept (X - {oid}) s s')"
proof (cases "bt_defers s")
  case True
  obtain key st where k: "hget (be_order_lane s) oid = Some key" "hget (be_lanes s) key = Some st" "lane_order st = Some oid"
    using i x True unfolding bt_inv_def holds_def by blast
  have n: "hget (be_pending s) oid = None" by (rule bt_invD(6) [OF i x])
  have o: "open_lane (X - {oid}) (unfile_order oid s) key (lane_quote st)"
    by (rule open_removed [OF i k(2,3)]) (use n bt_invD(2) [OF i] in \<open>auto simp: fun_eq_iff\<close>)
  show ?thesis
  proof (cases st)
    case (LaneLive live_id)
    with o k show ?thesis by (simp add: release_filled_def kept_def open_lane_def)
  next
    case (LaneCanceling old remove_at repl)
    with replace_with_runs [of "X - {oid}" "unfile_order oid s" key repl "lat key" ts old remove_at] o k show ?thesis
      by (simp add: release_filled_def kept_def)
  qed (use k in simp_all)
next
  case False
  with i have "be_lanes s = []" "be_order_lane s = []" unfolding bt_inv_def by blast+
  with i False have "bt_inv (X - {oid}) s" unfolding bt_inv_def by auto
  with \<open>be_order_lane s = []\<close> show ?thesis by (simp add: release_filled_def kept_def)
qed

lemma release_all_runs:
  assumes "bt_inv (set ids) s" "distinct ids"
  shows "runs (try_fold (release_filled lat ts) s ids) (\<lambda>s' evs. kept {} s s')"
  using assms
proof (induction ids arbitrary: s)
  case (Cons k ids)
  have "set (k # ids) - {k} = set ids" using Cons.prems(2) by auto
  with release_runs [OF Cons.prems(1), of k lat ts]
  have "runs (release_filled lat ts s k) (\<lambda>s' evs. kept (set ids) s s')" by simp
  then show ?case
  proof (simp, rule runs_then)
    fix t evs assume t: "kept (set ids) s t"
    show "runs (and_then (try_fold (release_filled lat ts) t ids) (\<lambda>s'' evs'. (s'', Ok (evs @ evs')))) (\<lambda>s' evs. kept {} s s')"
      by (rule runs_then, rule Cons.IH) (use t Cons.prems(2) in \<open>auto simp: kept_def\<close>)
  qed
qed (simp add: kept_def)

text \<open>Time alone reports acknowledgements and cancels, never a fill.\<close>

definition calm :: "'s \<times> ('e + limit_order_event list) \<Rightarrow> bool" where
  "calm m \<longleftrightarrow> (\<forall>evs. snd m = Ok evs \<longrightarrow> fill_events evs = [])"

lemma calm_return [simp]: "calm (s, Ok evs) \<longleftrightarrow> fill_events evs = []" "calm (s, Err e)"
  by (simp_all add: calm_def)

lemma calm_then: "(\<And>s x. calm (f s x)) \<Longrightarrow> calm (and_then m f)"
  by (cases m; cases "snd m") (simp_all add: and_then_def)

lemma calm_append:
  assumes "calm m" "\<And>s. calm (g s)"
  shows "calm (and_then m (\<lambda>s evs. and_then (g s) (\<lambda>s evs'. (s, Ok (evs @ evs')))))"
proof (cases m)
  case (Pair t r)
  show ?thesis
  proof (cases r)
    case (Inr evs)
    obtain u q where "g t = (u, q)" by fastforce
    with assms(1) assms(2) [of t] Pair Inr show ?thesis by (cases q) (simp_all add: and_then_def)
  qed (simp add: Pair and_then_def)
qed

lemma calm_events [simp]:
  "fill_events (placed_event sq now # evs) = fill_events evs" "fill_events (user_cancelled oid now # evs) = fill_events evs"
  by (simp_all add: fill_events_def placed_event_def user_cancelled_def Let_def)

lemma calm_confirm:
  assumes "\<And>s evs. fill_events evs = [] \<Longrightarrow> calm (f s evs)"
  shows "calm (and_then (confirm_cancelled oid now s) f)"
  using assms by (cases "bt_cancel_confirmed oid s"; cases "snd (bt_cancel_confirmed oid s)")
    (simp_all add: confirm_cancelled_def and_then_def)

lemma calm_placing: "calm (activate_placing d now key sq live_at cancel_at s)"
  unfolding activate_placing_def Let_def
  by (rule calm_then) (auto intro!: calm_confirm split: lc_state.split option.split)

lemma calm_replacement: "calm (activate_replacement d now key sq s)"
  unfolding activate_replacement_def Let_def
  by (auto intro!: calm_then calm_confirm split: lc_state.split)

lemma calm_replace_with: "calm (replace_with d now key oid remove_at repl s)"
  by (simp add: replace_with_def calm_replacement split: option.split)

lemma calm_lane: "calm (advance_lane lat now s key)"
proof -
  have "calm (and_then (confirm_cancelled oid now t) (\<lambda>s evs. and_then (replace_with d now key oid a repl s)
      (\<lambda>s evs'. (s, Ok (evs @ evs')))))" for oid t d a repl
    by (rule calm_append) (use calm_confirm [of "\<lambda>s evs. (s, Ok evs)" oid now t] calm_replace_with in
        \<open>auto simp: and_then_def calm_def split: prod.splits sum.splits\<close>)
  then show ?thesis by (simp add: advance_lane_def calm_placing split: option.split lane_state.split)
qed

lemma calm_release: "calm (release_filled lat ts s oid)"
  by (simp add: release_filled_def Let_def calm_replace_with split: option.split lane_state.split)

lemma calm_try_fold: "(\<And>s x. calm (f s x)) \<Longrightarrow> calm (try_fold f s xs)"
  by (induction xs arbitrary: s) (simp_all add: calm_append)

lemma runs_calm: "runs m P \<Longrightarrow> calm m \<Longrightarrow> runs m (\<lambda>s evs. P s evs \<and> fill_events evs = [])"
  by (auto simp: runs_def calm_def split: prod.splits sum.splits)

lemma market_frame:
  "bt_inv X s \<Longrightarrow> bt_inv X (record_market_asset m a s)" "be_latency (record_market_asset m a s) = be_latency s"
  "be_pending (record_market_asset m a s) = be_pending s"
  by (rule bt_inv_frame [of X s]; simp add: record_market_asset_def Let_def engine_le_refl bt_invD(1))
    (simp_all add: record_market_asset_def Let_def)

text \<open>The executor when the pass of a trade starts: the market is noted and time has advanced.\<close>

definition before_pass :: "(quote_lane_key \<Rightarrow> draws) \<Rightarrow> timestamp \<Rightarrow> string \<Rightarrow> backtest \<Rightarrow> trade \<Rightarrow> limit_order_event list bt_run" where
  "before_pass lat ts market s tr =
     (let s = record_market_asset market (tr_asset_id tr) s
      in if bt_defers s then advance_time lat ts s else (set_current_time ts s, Ok []))"

definition fills_in_order :: "timestamp \<Rightarrow> trade \<Rightarrow> string option \<Rightarrow> backtest \<Rightarrow> limit_order_event list \<Rightarrow> bool" where
  "fills_in_order ts tr mirror s evs \<longleftrightarrow> sorted_wrt (<) (map lo_order_id (fill_events evs)) \<and>
     list_all (\<lambda>ev. \<exists>p. hget (be_pending s) (lo_order_id ev) = Some p \<and> bt_legal_fill ts tr mirror p ev) (fill_events evs)"

lemma before_pass_runs:
  assumes "bt_inv {} s"
  shows "runs (before_pass lat ts market s tr) (\<lambda>s' evs. kept {} s s' \<and> fill_events evs = [])"
proof -
  let ?s = "record_market_asset market (tr_asset_id tr) s"
  note i = market_frame(1) [OF assms, of market "tr_asset_id tr"]
  have c: "calm (advance_time lat ts ?s)"
    by (simp add: advance_time_def Let_def calm_try_fold calm_lane)
  have "runs (advance_time lat ts ?s) (\<lambda>s' evs. kept {} s s' \<and> fill_events evs = [])"
    by (rule runs_weaken [OF runs_calm [OF advance_time_runs [OF i] c]]) (simp add: kept_def market_frame(2))
  moreover have "kept {} s (set_current_time ts ?s)"
    using set_time_inv [OF i] by (simp add: kept_def set_current_time_def market_frame(2))
  ultimately show ?thesis by (simp add: before_pass_def Let_def)
qed

lemma fill_events_id: "\<forall>ev \<in> set evs. is_fill ev \<Longrightarrow> fill_events evs = evs"
  by (simp add: fill_events_def filter_id_conv)

lemma trade_runs:
  fixes ts mirror
  assumes i: "bt_inv {} s" and ts: "ts = trade_time fm clock tr"
    and mirror: "mirror = complement_asset_id (record_market_asset market (tr_asset_id tr) s) (tr_asset_id tr)"
  shows "runs (handle_polymarket_trade lat lat' fm clock market s tr inventory aq) (\<lambda>s' evs. kept {} s s' \<and>
    fills_in_order ts tr mirror (fst (before_pass lat ts market s tr)) evs)"
proof -
  obtain t evs where b: "before_pass lat ts market s tr = (t, Inr evs)" and kt: "kept {} s t" and q: "fill_events evs = []"
    using before_pass_runs [OF i, of lat ts market tr] by (auto simp: runs_def split: prod.splits sum.splits)
  have it: "bt_inv {} t" using kt by (simp add: kept_def)
  have "sorted_wrt (<) (sort (hkeys (be_pending t)))"
    using bt_invD(2) [OF it] by (simp add: strict_sorted_iff hkeys_def)
  then have "runs (fill_all ts tr mirror inventory aq t) (pass_post ts tr mirror (sort (hkeys (be_pending t))) (bt_pass_start t))"
    unfolding fill_all_def by (intro pass_runs) (simp_all add: bt_pass_start_def it)
  then obtain a evs' where a: "fill_all ts tr mirror inventory aq t = (a, Inr evs')"
    and p: "pass_post ts tr mirror (sort (hkeys (be_pending t))) (bt_pass_start t) a evs'"
    by (auto simp: runs_def split: prod.splits sum.splits)
  have e: "ba_exec (bt_pass_start t) = t" "ba_remove (bt_pass_start t) = []" by (simp_all add: bt_pass_start_def)
  have ka: "kept {} t (ba_exec a)" using pass_postD(1) [OF p] e by simp
  have rem: "distinct (ba_remove a)" "\<forall>k \<in> set (ba_remove a). hget (be_pending t) k \<noteq> None"
    using pass_postD(3) [OF p] unfolding e by auto
  have rem': "\<forall>k \<in> set (ba_remove a). hget (be_pending (ba_exec a)) k \<noteq> None"
  proof
    fix k assume "k \<in> set (ba_remove a)"
    then have "map_option terms (hget (be_pending t) k) \<noteq> None" using rem(2) by simp
    then show "hget (be_pending (ba_exec a)) k \<noteq> None"
      using spec [OF pass_postD(2) [OF p], of k] unfolding e by (cases "hget (be_pending (ba_exec a)) k") auto
  qed
  let ?u = "foldl (\<lambda>s oid. bt_drop oid s) (ba_exec a) (ba_remove a)"
  have ku: "kept (set (ba_remove a)) t ?u"
    using drop_all_runs [of "{}", OF _ rem(1) rem'] ka by (auto simp: kept_def)
  have cr: "calm (try_fold (release_filled lat' ts) ?u (ba_remove a))"
    by (intro calm_try_fold) (rule calm_release)
  have rr: "runs (try_fold (release_filled lat' ts) ?u (ba_remove a)) (\<lambda>s' evs. kept {} s s' \<and> fill_events evs = [])"
    by (rule runs_weaken [OF runs_calm [OF release_all_runs cr]]) (use ku rem(1) kt in \<open>auto simp: kept_def\<close>)
  have "\<forall>ev \<in> set evs'. is_fill ev" using pass_postD(6) [OF p] legal_id by blast
  then have fe: "fill_events evs' = evs'" by (rule fill_events_id)
  have ok: "fills_in_order ts tr mirror t (evs @ evs' @ evs'')" if "fill_events evs'' = []" for evs''
    using that q fe pass_postD(4,6) [OF p] unfolding e by (simp add: fills_in_order_def list_all_iff)
  have body: "runs (and_then (try_fold (release_filled lat' ts) ?u (ba_remove a)) (\<lambda>s evs''. (s, Ok (evs @ evs' @ evs''))))
      (\<lambda>s' evs. kept {} s s' \<and> fills_in_order ts tr mirror t evs)"
    by (rule runs_then [OF rr]) (use ok in simp)
  have "handle_polymarket_trade lat lat' fm clock market s tr inventory aq =
      and_then (t, Inr evs) (\<lambda>s evs. case fill_all ts tr mirror inventory aq s of
          (a, Inl err) \<Rightarrow> (ba_exec a, Err err)
        | (a, Inr evs') \<Rightarrow>
            let s = foldl (\<lambda>s oid. bt_drop oid s) (ba_exec a) (ba_remove a)
            in and_then (try_fold (release_filled lat' ts) s (ba_remove a)) (\<lambda>s evs''. (s, Ok (evs @ evs' @ evs''))))"
    unfolding handle_polymarket_trade_def b [symmetric] before_pass_def Let_def ts mirror by simp
  also have "\<dots> = and_then (try_fold (release_filled lat' ts) ?u (ba_remove a)) (\<lambda>s evs''. (s, Ok (evs @ evs' @ evs'')))"
    unfolding and_then_def [of "(t, Inr evs)"] by (simp add: a)
  finally show ?thesis using body b by simp
qed

end
