(* ===== verification/Backtest_Runs.thy ===== *)
theory Backtest_Runs
  imports Backtest_Lanes
begin

text \<open>
  The backtest executor as a machine: any sequence of placements, cancels, trades, token trades and order
  book snapshots, and the properties that hold over all of them.
\<close>

section \<open>Runs\<close>

datatype bt_op =
    BtPlace string draws order
  | BtCancel draws timestamp string
  | BtTrade "quote_lane_key \<Rightarrow> draws" "quote_lane_key \<Rightarrow> draws" "int \<Rightarrow> timestamp option" timestamp string trade
      "(string, f64) hmap" f64
  | BtTokenTrade string "f64 option"
  | BtSnapshot string string

primrec bt_apply :: "backtest \<Rightarrow> bt_op \<Rightarrow> backtest" where
  "bt_apply s (BtPlace u d ord) = fst (execute_limit_order_with_lifecycle u d s ord)"
| "bt_apply s (BtCancel d clock oid) = fst (cancel_order_with_lifecycle d clock s oid)"
| "bt_apply s (BtTrade lat lat' fm clock market tr inventory aq) =
     fst (bt_check_fills_from_trade lat lat' fm clock market s tr inventory aq)"
| "bt_apply s (BtTokenTrade mint price) = handle_token_trade mint price s"
| "bt_apply s (BtSnapshot market asset) = handle_orderbook_snapshot market asset s"

lemma runs_fst: "runs m (\<lambda>s x. P s \<and> Q s x) \<Longrightarrow> P (fst m)"
  by (auto simp: runs_def split: prod.splits sum.splits)

lemma kept_trade:
  assumes "bt_inv {} s"
  shows "kept {} s (fst (bt_check_fills_from_trade lat lat' fm clock market s tr inventory aq))"
  using runs_fst [OF trade_runs [OF assms refl refl, of lat lat' fm clock market tr inventory aq]]
  by (auto simp: bt_check_fills_from_trade_def split: prod.splits sum.splits)

lemma kept_market: "bt_inv {} s \<Longrightarrow> kept {} s (record_market_asset m a s)"
  by (simp add: kept_def market_frame)

lemma kept_apply: "bt_inv {} s \<Longrightarrow> kept {} s (bt_apply s x)"
proof (cases x)
  case (BtCancel d clock oid)
  assume "bt_inv {} s"
  from runs_fst [of _ "kept {} s" "\<lambda>_ _. True"] cancel_runs [OF this, of d clock oid] BtCancel show ?thesis by simp
next
  case (BtTokenTrade mint price)
  assume "bt_inv {} s"
  with BtTokenTrade show ?thesis
    using bt_inv_frame [of "{}" s "handle_token_trade mint price s"] bt_invD(1) [of "{}" s]
    by (cases price) (simp_all add: handle_token_trade_def kept_def engine_le_refl)
qed (simp_all add: place_inv kept_trade kept_market handle_orderbook_snapshot_def)

definition latency_kept :: "backtest \<Rightarrow> backtest \<Rightarrow> bool" where
  "latency_kept s s' \<longleftrightarrow> be_latency s' = be_latency s"

interpretation bt: progress_machine bt_apply "\<lambda>_. True" "bt_inv {}" latency_kept
  by unfold_locales (use kept_apply in \<open>auto simp: latency_kept_def kept_def\<close>)

lemma bt_reachable: "bt_inv {} (foldl bt_apply (builder_build b) ops)"
  by (rule bt.run_inv [OF bt_start]) (simp add: list_all_iff)

lemma bt_reachable_latency: "be_latency (foldl bt_apply (builder_build b) ops) = bb_latency b"
  using bt.run_le [OF bt_start, of ops b] by (simp add: latency_kept_def list_all_iff builder_build_def)

section \<open>Properties\<close>

text \<open>C34. One quote per lane: in a backtest with latencies, whatever was placed, cancelled, replaced and traded,
  there is at most one pending order for each market, asset and side.\<close>

theorem one_quote_per_lane:
  assumes "bb_latency b = Some c"
  shows "length (filter (\<lambda>p. key_of p = key) (bt_pending_orders (foldl bt_apply (builder_build b) ops))) \<le> 1"
proof -
  let ?s = "foldl bt_apply (builder_build b) ops"
  have i: "bt_inv {} ?s" by (rule bt_reachable)
  have d: "bt_defers ?s" using bt_reachable_latency [of b ops] assms by (simp add: bt_defers_def)
  have same: "x = y" if "x \<in> set (be_pending ?s)" "key_of (snd x) = key" "y \<in> set (be_pending ?s)" "key_of (snd y) = key" for x y
  proof -
    have p: "hget (be_pending ?s) (fst x) = Some (snd x)" "hget (be_pending ?s) (fst y) = Some (snd y)"
      using that bt_invD(2) [OF i] by simp_all
    from pending_filed(2) [OF i d p(1)] pending_filed(2) [OF i d p(2)] that(2,4) have "fst x = fst y"
      by (auto simp: holds_def)
    with p show ?thesis by (simp add: prod_eq_iff)
  qed
  have "distinct (be_pending ?s)" using bt_invD(2) [OF i] by (simp add: distinct_map)
  then have dist: "distinct (filter (\<lambda>x. key_of (snd x) = key) (be_pending ?s))" by simp
  have "length (filter (\<lambda>x. key_of (snd x) = key) (be_pending ?s)) \<le> 1"
  proof (rule ccontr)
    assume "\<not> ?thesis"
    then obtain x y zs where eq: "filter (\<lambda>x. key_of (snd x) = key) (be_pending ?s) = x # y # zs"
      by (cases "filter (\<lambda>x. key_of (snd x) = key) (be_pending ?s)" rule: remdups_adj.cases) auto
    have "x \<in> set (filter (\<lambda>x. key_of (snd x) = key) (be_pending ?s))"
      "y \<in> set (filter (\<lambda>x. key_of (snd x) = key) (be_pending ?s))" by (simp_all only: eq list.set insert_iff simp_thms)
    then have "x = y" unfolding set_filter by (intro same) blast+
    with dist eq show False by simp
  qed
  then show ?thesis by (simp add: bt_pending_orders_def hvals_def filter_map comp_def)
qed

text \<open>Nothing is lost to an error: after any operations a trade and a cancel both succeed, so the default
  that the trait method puts in place of an error is never used and no event of a trade disappears.\<close>

theorem backtest_never_fails:
  "let s = foldl bt_apply (builder_build b) ops in
     (\<exists>s' evs. handle_polymarket_trade lat lat' fm clock market s tr inventory aq = (s', Ok evs) \<and>
        bt_check_fills_from_trade lat lat' fm clock market s tr inventory aq = (s', evs)) \<and>
     (\<exists>s' ev. cancel_order_with_lifecycle d clock s oid = (s', Ok ev))"
proof -
  let ?s = "foldl bt_apply (builder_build b) ops"
  from trade_runs [OF bt_reachable [of b ops] refl refl, of lat lat' fm clock market tr inventory aq]
    cancel_runs [OF bt_reachable [of b ops], of d clock oid]
  show ?thesis
    by (auto simp: Let_def runs_def bt_check_fills_from_trade_def split: prod.splits sum.splits)
qed

text \<open>C35. Every simulated fill of the backtest is legal and the order of fills is fixed: a trade fills orders in
  ascending id order, each at most once, and only orders that were pending when the pass began, for the
  traded asset or its complement with the mirrored price and side, crossed, past their placement latency and
  before the end of their cancel latency, at their own price.\<close>

theorem backtest_fills_legal:
  "let s = foldl bt_apply (builder_build b) ops; ts = trade_time fm clock tr;
       mirror = complement_asset_id (record_market_asset market (tr_asset_id tr) s) (tr_asset_id tr) in
     fills_in_order ts tr mirror (fst (before_pass lat ts market s tr))
       (snd (bt_check_fills_from_trade lat lat' fm clock market s tr inventory aq))"
  using trade_runs [OF bt_reachable [of b ops] refl refl, of lat lat' fm clock market tr inventory aq]
  by (auto simp: Let_def runs_def bt_check_fills_from_trade_def split: prod.splits sum.splits)

section \<open>The sizes that fills report\<close>

lemma fill_evidence_live:
  assumes "sim_engine (be_engine s)" "look (be_engine s) oid = Some ord" "\<not> lco_is_terminal ord" "\<not> fle q f0"
  shows "\<exists>t. bt_fill_evidence oid q s = (t, Inr (if fle (fmax (fsub (lc_remaining_size ord) q) f0) f_epsilon
      then Terminal TFilled else if lc_state ord = SubmitPending then Open else lc_state ord,
      fmax (fsub (lc_remaining_size ord) q) f0))"
proof -
  obtain l where "hget (client_to_lifecycle (be_engine s)) oid = Some l" "hget (orders (be_engine s)) l = Some ord"
    using look_split [OF _ assms(2)] assms(1) by (auto simp: sim_engine_def)
  with assms(3,4) show ?thesis
    by (simp add: bt_fill_evidence_def bt_on_engine_def record_fill_evidence_def and_then_def Let_def)
qed

lemma grid_not_NaN [simp]: "grid a \<noteq> NaN" "NaN \<noteq> grid a"
  by (simp_all add: grid_def)

lemma fmax_grid: "fmax (grid a) f0 = grid (max a 0)"
  by (auto simp: f0_grid fmax_def max_def)

lemma grid_epsilon: "fle (grid k) f_epsilon \<longleftrightarrow> k \<le> 0"
proof -
  have "(of_int k / 2 ^ 20 \<le> (1 / 2 ^ 52 :: rat)) \<longleftrightarrow> of_int (k * 2 ^ 32) \<le> (1 :: rat)"
    by (simp add: field_simps)
  also have "\<dots> \<longleftrightarrow> k * 2 ^ 32 \<le> 1" by linarith
  also have "\<dots> \<longleftrightarrow> k \<le> 0"
    using mult_right_mono [of 1 k "2 ^ 32"] mult_nonpos_nonneg [of k "2 ^ 32"] by fastforce
  finally show ?thesis by (simp add: grid_def f_epsilon_def power_int_minus field_simps)
qed

text \<open>What a fill reports is the difference between what the executor believes was left of the order and what
  the lifecycle engine has left after the fill: on sizes of the binary grid, a trade of size q on an order
  with x pending and y in the engine is reported as x - (y - q).  The two agree unless the order was
  requoted before it went live, which changes x but not y.\<close>

theorem fill_reports_difference:
  assumes "bt_inv {} (ba_exec a)" "look (be_engine (ba_exec a)) oid = Some ord" "\<not> lco_is_terminal ord"
    "bo_remaining_size p = grid x" "lc_remaining_size ord = grid y" "0 < q" "q \<le> y" "y \<le> 2 ^ 52"
    "y - q < x" "x \<le> 2 ^ 52"
  shows "snd (bt_apply_fill ts oid p (grid q) a) =
    Ok [OrderPartiallyFilled oid (bo_mint p) (bo_side p) (grid (x - (y - q))) (grid (y - q)) (bo_price p) ts
      (bo_signal_id p) (bo_exit_mode p)]"
proof -
  have q: "\<not> fle (grid q) f0" using assms(6) by (simp add: f0_grid)
  have rem: "fmax (fsub (grid y) (grid q)) f0 = grid (y - q)"
    using assms(6-8) fsub_grid [of y q] by (simp add: fmax_grid)
  let ?st = "if fle (grid (y - q)) f_epsilon then Terminal TFilled
    else if lc_state ord = SubmitPending then Open else lc_state ord"
  obtain t where t: "bt_fill_evidence oid (grid q) (ba_exec a) = (t, Inr (?st, grid (y - q)))"
    using fill_evidence_live [OF bt_invD(1) [OF assms(1)] assms(2,3) q] unfolding assms(5) rem by blast
  have ap: "fmax (fsub (grid x) (grid (y - q))) f0 = grid (x - (y - q))"
    using assms(6-10) fsub_grid [of x "y - q"] by (simp add: fmax_grid)
  have pos: "\<not> fle (grid (x - (y - q))) f0" using assms(9) by (simp add: f0_grid)
  have st: "?st \<notin> {Terminal TCancelled, Terminal TRejected, Terminal TExpired}"
    using assms(3) by (auto simp: lco_is_terminal_def)
  have full: "(if ?st = Terminal TFilled then f0 else grid (y - q)) = grid (y - q)"
  proof (cases "y = q")
    case True
    then show ?thesis by (simp add: f0_grid)
  next
    case False
    with assms(7) have "\<not> y - q \<le> 0" by simp
    with assms(3) show ?thesis by (auto simp: grid_epsilon lco_is_terminal_def)
  qed
  show ?thesis
    using st full unfolding bt_apply_fill_def t assms(4)
    by (simp only: prod.case sum.case Let_def ap pos if_False snd_conv)
qed

section \<open>A quote placed after a cancel\<close>

lemma enter_placing:
  assumes "hget (be_lanes s) key = Some (LanePlacing sq live_at c)"
  shows "enter_lane u d ts l key oid q s = (put_lane key (LanePlacing (sq\<lparr>sq_quote := q\<rparr>) live_at c) s, Ok (sq_order_id sq))"
  using assms by (simp add: enter_lane_def Let_def)

lemma doomed_placing:
  assumes o: "open_lane {} s key (Some sq)" and due: "deadline \<le> now"
  shows "runs (activate_placing d now key sq live_at (Some deadline) s) (\<lambda>t evs.
    hget (be_lanes t) key = Some LaneIdle \<and> hget (be_pending t) (sq_order_id sq) = None)"
proof -
  let ?oid = "sq_order_id sq"
  have kn: "known (be_engine s) ?oid" and f: "hget (be_order_lane s) ?oid = Some key" and c: "cleared {} s key"
    using o by (simp_all add: open_lane_def)
  have np: "hget (be_pending s) ?oid = None" using c f by (auto simp: cleared_def)
  have conf: "runs (and_then (confirm_cancelled ?oid now u) (\<lambda>s evs. (put_lane key LaneIdle s, Ok (g evs))))
      (\<lambda>t evs. hget (be_lanes t) key = Some LaneIdle \<and> hget (be_pending t) ?oid = None)"
    if "sim_engine (be_engine u)" "booked (be_engine u) ?oid" "hget (be_pending u) ?oid = None" for u g
    by (rule runs_then, rule confirm_runs [OF that(1,2)]) (use that(3) in \<open>auto dest: eng_step_frame(1)\<close>)
  show ?thesis
    unfolding activate_placing_def Let_def
  proof (rule runs_then, rule success_runs [OF open_sim [OF o] kn])
    fix t st assume t: "eng_step s t \<and> booked (be_engine t) ?oid \<and> st \<noteq> SubmitPending"
    then have e: "sim_engine (be_engine t)" "be_pending t = be_pending s" using eng_step_frame(1,5) by blast+
    show "runs (case st of
        Open \<Rightarrow>
          (case Some deadline of
            None \<Rightarrow> (put_lane key (LaneLive ?oid) (file_order ?oid key (bt_put ?oid
              (pending_order_from_scheduled sq now live_at None) t)), Ok [placed_event sq now])
          | Some deadline \<Rightarrow>
              if deadline \<le> now
              then and_then (confirm_cancelled ?oid now (unfile_order ?oid (bt_drop ?oid (file_order ?oid key
                (bt_put ?oid (pending_order_from_scheduled sq now live_at None) t)))))
                (\<lambda>s evs. (put_lane key LaneIdle s, Ok (placed_event sq now # evs)))
              else (put_lane key (LaneCanceling ?oid deadline None) (set_active_until ?oid deadline
                (file_order ?oid key (bt_put ?oid (pending_order_from_scheduled sq now live_at None) t))),
                Ok [placed_event sq now]))
      | CancelPending \<Rightarrow>
          if unwrap_or (Some deadline) (now + milliseconds (cancel_latency_ms d t)) \<le> now
          then and_then (confirm_cancelled ?oid now (unfile_order ?oid t)) (\<lambda>s evs. (put_lane key LaneIdle s, Ok evs))
          else (put_lane key (LaneCanceling ?oid (unwrap_or (Some deadline) (now + milliseconds (cancel_latency_ms d t))) None)
            (file_order ?oid key (bt_put ?oid (pending_order_from_scheduled sq now live_at
              (Some (unwrap_or (Some deadline) (now + milliseconds (cancel_latency_ms d t))))) t)), Ok [])
      | Terminal r \<Rightarrow> (put_lane key LaneIdle (unfile_order ?oid t), Ok [])
      | SubmitPending \<Rightarrow> (t, Err (BtStayedSubmitPending ?oid)))
      (\<lambda>t evs. hget (be_lanes t) key = Some LaneIdle \<and> hget (be_pending t) ?oid = None)"
      using t due np e conf [of "unfile_order ?oid (bt_drop ?oid (file_order ?oid key
          (bt_put ?oid (pending_order_from_scheduled sq now live_at None) t)))" "\<lambda>evs. placed_event sq now # evs"]
        conf [of "unfile_order ?oid t" "\<lambda>evs. evs"]
      by (cases st) simp_all
  qed
qed

text \<open>A quote placed while the quote before it is still being placed and already cancelled is swallowed: the
  call reports an order placed under the id of the cancelled one, with the new price and size, and once the
  cancel is due the lane is idle and no order is on the book.\<close>

theorem cancelled_lane_swallows_quote:
  assumes "bt_inv {} s" "limit_terms (ord_order_type ord) = Some (amount, lp, side, tif)"
    "key = quote_lane_key_of (ord_mint ord) (ord_market ord) side"
    "hget (be_lanes s) key = Some (LanePlacing sq live_at (Some deadline))" "live_at \<le> now" "deadline \<le> now"
  shows "snd (execute_limit_order_with_lifecycle u d s ord) = Ok (OrderPlaced (sq_order_id sq) (ord_mint ord)
      (ord_market ord) lp amount side (ord_timestamp ord) (ord_signal_id ord) (ord_context ord)) \<and>
    (let s' = fst (advance_lane lat now (fst (execute_limit_order_with_lifecycle u d s ord)) key) in
      hget (be_lanes s') key = Some LaneIdle \<and> hget (be_pending s') (sq_order_id sq) = None)"
proof -
  obtain s1 oid where g: "bt_generate_order_id (set_current_time (ord_timestamp ord) s) = (s1, oid)" by fastforce
  have s1: "bt_defers s1" "hget (be_lanes s1) key = Some (LanePlacing sq live_at (Some deadline))"
    using g bt_invD(7) [OF assms(1,4)] assms(4)
    by (auto simp: bt_generate_order_id_def set_current_time_def bt_defers_def)
  let ?q = "\<lparr>qr_mint = ord_mint ord, qr_market = ord_market ord, qr_side = side, qr_price = lp, qr_size = amount,
            qr_time_in_force = tif, qr_signal_id = ord_signal_id ord, qr_exit_mode = ord_exit_mode ord,
            qr_context = ord_context ord\<rparr>"
  let ?st = "LanePlacing (sq\<lparr>sq_quote := ?q\<rparr>) live_at (Some deadline)"
  have x: "execute_limit_order_with_lifecycle u d s ord = (put_lane key ?st s1,
      Ok (placed_event \<lparr>sq_order_id = sq_order_id sq, sq_quote = ?q\<rparr> (ord_timestamp ord)))"
    using assms(2) enter_placing [OF s1(2)] s1(1)
    by (simp add: execute_limit_order_with_lifecycle_def g Let_def and_then_def assms(3) [symmetric])
  have i: "bt_inv {} (put_lane key ?st s1)"
    using place_inv [OF assms(1), of u d ord] x by (simp add: kept_def)
  have o: "open_lane {} (put_lane key ?st s1) key (Some (sq\<lparr>sq_quote := ?q\<rparr>))"
    using open_waiting [OF i, of key ?st] by simp
  show ?thesis
    using doomed_placing [OF o assms(6), of "lat key" live_at] assms(5)
    by (auto simp: x placed_event_def advance_lane_def Let_def runs_def split: prod.splits sum.splits)
qed

section \<open>Complementary assets\<close>

text \<open>The distinct assets of a market in the order they were first seen.\<close>

definition seen :: "string \<Rightarrow> (string \<times> string) list \<Rightarrow> string list" where
  "seen m obs = rev (remdups (rev (map snd (filter (\<lambda>x. fst x = m) obs))))"

definition first_two :: "string list \<Rightarrow> (string \<times> string option) option" where
  "first_two xs = (case xs of [] \<Rightarrow> None | [x] \<Rightarrow> Some (x, None) | x # y # zs \<Rightarrow> Some (x, Some y))"

definition observe_all :: "backtest \<Rightarrow> (string \<times> string) list \<Rightarrow> backtest" where
  "observe_all s obs = foldl (\<lambda>s (m, a). record_market_asset m a s) s obs"

lemma seen_snoc: "seen m (obs @ [(m', a)]) = (if m' = m \<and> a \<notin> set (seen m obs) then seen m obs @ [a] else seen m obs)"
  by (auto simp: seen_def)

lemma seen_distinct: "distinct (seen m obs)"
  by (simp add: seen_def)

lemma first_two_snoc:
  "first_two (xs @ [a]) = (case first_two xs of None \<Rightarrow> Some (a, None) | Some (x, None) \<Rightarrow> Some (x, Some a)
     | Some (x, Some y) \<Rightarrow> Some (x, Some y))"
  by (cases xs; cases "tl xs") (auto simp: first_two_def split: list.splits)

text \<open>Both assets of a market are paired with each other once the second one has been seen.\<close>

definition paired :: "(string \<times> string) list \<Rightarrow> string \<Rightarrow> string \<Rightarrow> bool" where
  "paired obs x y \<longleftrightarrow> (\<exists>m. first_two (seen m obs) \<in> {Some (x, Some y), Some (y, Some x)})"

lemma seen_set: "a \<in> set (seen m obs) \<longleftrightarrow> (m, a) \<in> set obs"
  by (force simp: seen_def)

lemma observe_snoc: "observe_all s (obs @ [(m, a)]) = record_market_asset m a (observe_all s obs)"
  by (simp add: observe_all_def)

lemma registry_entry:
  assumes "be_market_assets s = []"
  shows "hget (be_market_assets (observe_all s obs)) m = first_two (seen m obs)"
proof (induction obs arbitrary: m rule: rev_induct)
  case Nil
  show ?case using assms by (simp add: observe_all_def seen_def first_two_def)
next
  case (snoc x obs)
  obtain k a where x: "x = (k, a)" by (cases x)
  let ?s = "observe_all s obs"
  have k: "hget (be_market_assets ?s) k = first_two (seen k obs)" by (rule snoc.IH)
  have step: "hget (be_market_assets (record_market_asset k a ?s)) k =
      (if a \<notin> set (seen k obs) then first_two (seen k obs @ [a]) else first_two (seen k obs))"
    using k by (cases "seen k obs"; cases "tl (seen k obs)")
      (auto simp: record_market_asset_def Let_def first_two_def)
  have other: "hget (be_market_assets (record_market_asset k a ?s)) j = hget (be_market_assets ?s) j" if "j \<noteq> k" for j
    using that by (simp add: record_market_asset_def Let_def)
  show ?case
    using step other [of m] snoc.IH [of m] by (cases "m = k") (auto simp: x observe_snoc seen_snoc)
qed

lemma paired_seen: "paired obs x y \<Longrightarrow> \<exists>m. (m, x) \<in> set obs \<and> first_two (seen m obs) \<in> {Some (x, Some y), Some (y, Some x)}"
proof -
  assume "paired obs x y"
  then obtain m where m: "first_two (seen m obs) \<in> {Some (x, Some y), Some (y, Some x)}" by (auto simp: paired_def)
  then have "x \<in> set (seen m obs)"
    by (cases "seen m obs"; cases "tl (seen m obs)") (auto simp: first_two_def)
  then have "(m, x) \<in> set obs" by (simp add: seen_set)
  with m show ?thesis by blast
qed

text \<open>One more observation pairs two assets exactly when it is the second distinct one of its market.\<close>

lemma paired_same:
  assumes "\<not> (\<exists>f. seen k obs = [f] \<and> f \<noteq> a)"
  shows "paired (obs @ [(k, a)]) u v = paired obs u v"
proof -
  have "first_two (seen m (obs @ [(k, a)])) \<in> {Some (u, Some v), Some (v, Some u)} \<longleftrightarrow>
      first_two (seen m obs) \<in> {Some (u, Some v), Some (v, Some u)}" for m
    using assms by (cases "m = k"; cases "seen k obs"; cases "tl (seen k obs)") (auto simp: seen_snoc first_two_def)
  then show ?thesis by (simp add: paired_def)
qed

lemma paired_added:
  assumes "seen k obs = [f]" "f \<noteq> a"
  shows "paired (obs @ [(k, a)]) u v \<longleftrightarrow> (u = f \<and> v = a) \<or> (u = a \<and> v = f) \<or> paired obs u v"
proof
  have new: "first_two (seen k (obs @ [(k, a)])) = Some (f, Some a)" and old: "first_two (seen k obs) = Some (f, None)"
    using assms by (simp_all add: seen_snoc first_two_def)
  have other: "seen m (obs @ [(k, a)]) = seen m obs" if "m \<noteq> k" for m using that by (simp add: seen_snoc)
  {
    assume "paired (obs @ [(k, a)]) u v"
    then obtain m where m: "first_two (seen m (obs @ [(k, a)])) \<in> {Some (u, Some v), Some (v, Some u)}"
      by (auto simp: paired_def)
    show "(u = f \<and> v = a) \<or> (u = a \<and> v = f) \<or> paired obs u v"
      using m new other [of m] by (cases "m = k") (auto simp: paired_def)
  }
  assume "(u = f \<and> v = a) \<or> (u = a \<and> v = f) \<or> paired obs u v"
  then show "paired (obs @ [(k, a)]) u v"
  proof (elim disjE)
    assume "paired obs u v"
    then obtain m where m: "first_two (seen m obs) \<in> {Some (u, Some v), Some (v, Some u)}" by (auto simp: paired_def)
    with old have "m \<noteq> k" by auto
    with m other [of m] have "first_two (seen m (obs @ [(k, a)])) \<in> {Some (u, Some v), Some (v, Some u)}" by simp
    then show ?thesis unfolding paired_def by blast
  qed (use new in \<open>auto simp: paired_def\<close>)
qed

lemma complement_step:
  assumes "hget (be_market_assets s) k = first_two (seen k obs)"
    and "\<And>u v. complement_asset_id s u = Some v \<longleftrightarrow> paired obs u v"
  shows "complement_asset_id (record_market_asset k a s) u =
    (case seen k obs of [f] \<Rightarrow> if f = a then complement_asset_id s u
       else if u = a then Some f else if u = f then Some a else complement_asset_id s u
     | _ \<Rightarrow> complement_asset_id s u)"
proof (cases "\<exists>f g zs. seen k obs = f # g # zs")
  case True
  then obtain f g zs where fg: "seen k obs = f # g # zs" by blast
  then have "first_two (seen k obs) = Some (f, Some g)" by (simp add: first_two_def)
  then have "paired obs f g" "paired obs g f" by (auto simp: paired_def)
  then have "complement_asset_id s f = Some g" "complement_asset_id s g = Some f" by (simp_all add: assms(2))
  with assms(1) fg show ?thesis
    by (auto simp: record_market_asset_def Let_def first_two_def complement_asset_id_def)
next
  case False
  with assms(1) show ?thesis
    by (cases "seen k obs"; cases "tl (seen k obs)")
      (auto simp: record_market_asset_def Let_def complement_asset_id_def first_two_def)
qed

text \<open>The registry of complementary assets is the reference definition: when every asset belongs to one
  market, the complement of an asset is the other one of the first two distinct assets seen in its market,
  in whatever order snapshots and trades showed them and however often; a third asset is never paired.\<close>

theorem complement_is_first_two:
  assumes "be_market_assets s = []" "be_complement s = []"
    and "\<And>m m' a. (m, a) \<in> set obs \<Longrightarrow> (m', a) \<in> set obs \<Longrightarrow> m = m'"
  shows "complement_asset_id (observe_all s obs) x = Some y \<longleftrightarrow> paired obs x y"
  using assms(3)
proof (induction obs arbitrary: x y rule: rev_induct)
  case Nil
  show ?case using assms(2) by (simp add: observe_all_def complement_asset_id_def paired_def seen_def first_two_def)
next
  case (snoc z obs)
  obtain k a where z: "z = (k, a)" by (cases z)
  have one: "m = m'" if "(m, b) \<in> set (obs @ [z])" "(m', b) \<in> set (obs @ [z])" for m m' b
    by (rule snoc.prems [OF that])
  have IH: "complement_asset_id (observe_all s obs) u = Some v \<longleftrightarrow> paired obs u v" for u v
    by (rule snoc.IH) (auto intro: one)
  note step = complement_step [OF registry_entry [OF assms(1)] IH, of k a x]
  show ?case
  proof (cases "\<exists>f. seen k obs = [f] \<and> f \<noteq> a")
    case False
    then have "complement_asset_id (record_market_asset k a (observe_all s obs)) x = complement_asset_id (observe_all s obs) x"
      unfolding step by (cases "seen k obs"; cases "tl (seen k obs)") auto
    with IH paired_same [OF False] show ?thesis by (simp add: z observe_snoc [of s obs k a])
  next
    case True
    then obtain f where f: "seen k obs = [f]" "f \<noteq> a" by blast
    have "\<not> paired obs u v" if "u \<in> {f, a}" for u v
    proof
      assume "paired obs u v"
      then obtain m where m: "(m, u) \<in> set obs" "first_two (seen m obs) \<in> {Some (u, Some v), Some (v, Some u)}"
        using paired_seen by blast
      have "m = k" using that one [of m u k] m(1) f(1) seen_set [of f k obs] by (auto simp: z)
      with m(2) f(1) show False by (simp add: first_two_def)
    qed
    with IH [of x y] step f paired_added [OF f, of x y] show ?thesis
      by (auto simp: z observe_snoc [of s obs k a])
  qed
qed

section \<open>A concrete run\<close>

text \<open>
  A sell of 4 units is requoted to 10 while it is still being placed; a trade of one unit follows after
  both have gone live as one order.
\<close>

definition demo_builder :: bt_builder where
  "demo_builder = builder_latency (Some \<lparr>lat_min_place = 1000, lat_max_place = 1000, lat_min_cancel = None,
     lat_max_cancel = None\<rparr>) (builder_enforce False builder_new)"

definition demo_draws :: draws where "demo_draws = \<lparr>dr_place = 1000, dr_cancel = 1000\<rparr>"

definition demo_quote :: "rat \<Rightarrow> order" where
  "demo_quote q = new_limit_sell ''m'' None (Fin q) (Fin (1 / 2)) False GoodTilCancelled 0 None None"

definition demo_key :: quote_lane_key where "demo_key = quote_lane_key_of ''m'' None Sell"

definition demo_id :: string where "demo_id = ''bt-order-1''"

definition demo_placed :: backtest where
  "demo_placed = bt_apply (builder_build demo_builder) (BtPlace ''u'' demo_draws (demo_quote 4))"

definition demo_requoted :: backtest where
  "demo_requoted = bt_apply demo_placed (BtPlace ''u'' demo_draws (demo_quote 10))"

definition demo_buy :: trade where
  "demo_buy = \<lparr>tr_asset_id = ''m'', tr_side = TradeBuy, tr_price = Fin (1 / 2), tr_size = Fin 1, tr_timestamp = 2000000000\<rparr>"

definition demo_live :: backtest where
  "demo_live = fst (before_pass (\<lambda>_. demo_draws) 2000000000 ''k'' demo_requoted demo_buy)"

definition demo_req :: "rat \<Rightarrow> quote_request" where
  "demo_req q = \<lparr>qr_mint = ''m'', qr_market = None, qr_side = Sell, qr_price = Fin (1 / 2), qr_size = Fin q,
     qr_time_in_force = GoodTilCancelled, qr_signal_id = None, qr_exit_mode = None, qr_context = None\<rparr>"

definition demo_record :: "lc_state \<Rightarrow> string option \<Rightarrow> lc_order" where
  "demo_record st v = \<lparr>lc_lifecycle_id = ''backtest-'' @ demo_id, lc_client_order_id = demo_id, lc_venue_order_id = v,
     lc_mint = ''m'', lc_market = None, lc_side = Sell, lc_price = Fin (1 / 2), lc_original_size = Fin 4,
     lc_remaining_size = Fin 4, lc_time_in_force = GoodTilCancelled, lc_state = st,
     lc_cancel_requested = False, lc_signal_id = None\<rparr>"

definition demo_bt_order :: bt_order where
  "demo_bt_order = pending_order_from_scheduled \<lparr>sq_order_id = demo_id, sq_quote = demo_req 10\<rparr> 2000000000 1000000000 None"

lemma demo_next_id: "be_counter s = 1 \<Longrightarrow> bt_generate_order_id s = (s\<lparr>be_counter := 2\<rparr>, demo_id)"
  by (simp add: bt_generate_order_id_def demo_id_def digits.simps char_of_def bit_0)

lemma demo_placed_eq: "demo_placed = (builder_build demo_builder)\<lparr>be_counter := 2, be_now := Some 0,
    be_lanes := [(demo_key, LanePlacing \<lparr>sq_order_id = demo_id, sq_quote = demo_req 4\<rparr> 1000000000 None)],
    be_order_lane := [(demo_id, demo_key)],
    be_engine := engine_new\<lparr>orders := [(''backtest-'' @ demo_id, demo_record SubmitPending None)],
      client_to_lifecycle := [(demo_id, ''backtest-'' @ demo_id)]\<rparr>\<rparr>"
  by (simp add: demo_placed_def demo_quote_def new_limit_sell_def execute_limit_order_with_lifecycle_def
    builder_build_def demo_builder_def builder_latency_def builder_enforce_def builder_new_def set_current_time_def
    demo_next_id bt_defers_def enter_lane_def put_lane_def file_order_def hput_def and_then_def bt_place_request_def
    bt_on_engine_def record_place_request_def engine_new_def put_order_def emit_defs on_metrics_def f0_def Let_def
    bt_eligibility_time_def place_latency_ms_def demo_draws_def milliseconds_def demo_key_def demo_req_def
    demo_record_def demo_id_def)

lemma demo_requoted_eq: "\<exists>n. demo_requoted = demo_placed\<lparr>be_counter := n,
    be_lanes := [(demo_key, LanePlacing \<lparr>sq_order_id = demo_id, sq_quote = demo_req 10\<rparr> 1000000000 None)]\<rparr>"
proof -
  obtain s1 oid where g: "bt_generate_order_id (set_current_time 0 demo_placed) = (s1, oid)" by fastforce
  then have s1: "s1 = demo_placed\<lparr>be_counter := be_counter demo_placed + 1\<rparr>"
    by (auto simp: bt_generate_order_id_def set_current_time_def demo_placed_eq)
  have l: "hget (be_lanes s1) demo_key = Some (LanePlacing \<lparr>sq_order_id = demo_id, sq_quote = demo_req 4\<rparr> 1000000000 None)"
    by (simp add: s1 demo_placed_eq)
  have d: "bt_defers s1"
    by (simp add: s1 demo_placed_eq bt_defers_def builder_build_def demo_builder_def builder_latency_def)
  have "demo_requoted = put_lane demo_key (LanePlacing \<lparr>sq_order_id = demo_id, sq_quote = demo_req 10\<rparr> 1000000000 None) s1"
    using enter_placing [OF l] d
    by (simp add: demo_requoted_def demo_quote_def new_limit_sell_def execute_limit_order_with_lifecycle_def g Let_def
      and_then_def demo_key_def [symmetric] demo_req_def [symmetric])
  then show ?thesis
    by (intro exI [of _ "be_counter s1"])
      (simp add: put_lane_def s1 demo_placed_eq hput_def
        builder_build_def demo_builder_def builder_latency_def builder_enforce_def builder_new_def engine_new_def)
qed

lemma demo_live_facts:
  "hget (be_pending demo_live) demo_id = Some demo_bt_order"
  "look (be_engine demo_live) demo_id = Some (demo_record Open (Some demo_id))"
proof -
  obtain n where n: "demo_requoted = demo_placed\<lparr>be_counter := n,
    be_lanes := [(demo_key, LanePlacing \<lparr>sq_order_id = demo_id, sq_quote = demo_req 10\<rparr> 1000000000 None)]\<rparr>"
    using demo_requoted_eq by blast
  show "hget (be_pending demo_live) demo_id = Some demo_bt_order"
    "look (be_engine demo_live) demo_id = Some (demo_record Open (Some demo_id))"
    by (simp_all add: demo_live_def before_pass_def n demo_placed_eq record_market_asset_def demo_buy_def Let_def
      bt_defers_def builder_build_def demo_builder_def builder_latency_def advance_time_def set_current_time_def hkeys_def
      advance_lane_def activate_placing_def bt_place_success_def bt_on_engine_def record_place_success_def
      engine_new_def lco_is_terminal_def venue_conflict_def ensure_venue_mapping_def put_order_def emit_defs on_metrics_def
      hput_def and_then_def file_order_def put_lane_def bt_put_def engine_get_def demo_record_def demo_bt_order_def)
qed

lemma demo_live_inv: "bt_inv {} demo_live"
proof -
  have "bt_inv {} demo_requoted"
    using bt_reachable [of demo_builder "[BtPlace ''u'' demo_draws (demo_quote 4), BtPlace ''u'' demo_draws (demo_quote 10)]"]
    by (simp add: demo_requoted_def demo_placed_def)
  from before_pass_runs [OF this, of "\<lambda>_. demo_draws" 2000000000 "''k''" demo_buy] show ?thesis
    by (auto simp: demo_live_def runs_def kept_def split: prod.splits sum.splits)
qed

text \<open>In that run the trade of one unit is reported as a fill of seven, and three units are left of ten.\<close>

theorem fill_reports_difference_witness:
  "snd (bt_apply_fill 2000000000 demo_id demo_bt_order (Fin 1) (bt_pass_start demo_live)) =
     Ok [OrderPartiallyFilled demo_id ''m'' Sell (Fin 7) (Fin 3) (Fin (1 / 2)) 2000000000 None None]"
proof -
  have g: "grid (10 * 2 ^ 20) = Fin 10" "grid (4 * 2 ^ 20) = Fin 4" "grid (2 ^ 20) = Fin 1"
    "grid (10 * 2 ^ 20 - (4 * 2 ^ 20 - 2 ^ 20)) = Fin 7" "grid (4 * 2 ^ 20 - 2 ^ 20) = Fin 3"
    by (simp_all add: grid_def)
  have "snd (bt_apply_fill 2000000000 demo_id demo_bt_order (grid (2 ^ 20)) (bt_pass_start demo_live)) =
    Ok [OrderPartiallyFilled demo_id (bo_mint demo_bt_order) (bo_side demo_bt_order)
      (grid (10 * 2 ^ 20 - (4 * 2 ^ 20 - 2 ^ 20))) (grid (4 * 2 ^ 20 - 2 ^ 20)) (bo_price demo_bt_order) 2000000000
      (bo_signal_id demo_bt_order) (bo_exit_mode demo_bt_order)]"
  proof (rule fill_reports_difference)
    show "bt_inv {} (ba_exec (bt_pass_start demo_live))" by (simp add: bt_pass_start_def demo_live_inv)
    show "look (be_engine (ba_exec (bt_pass_start demo_live))) demo_id = Some (demo_record Open (Some demo_id))"
      by (simp add: bt_pass_start_def demo_live_facts)
    show "bo_remaining_size demo_bt_order = grid (10 * 2 ^ 20)" unfolding g
      by (simp add: demo_bt_order_def pending_order_from_scheduled_def demo_req_def)
    show "lc_remaining_size (demo_record Open (Some demo_id)) = grid (4 * 2 ^ 20)" unfolding g
      by (simp add: demo_record_def)
  qed (simp_all add: demo_record_def lco_is_terminal_def)
  then show ?thesis
    unfolding g by (simp add: demo_bt_order_def pending_order_from_scheduled_def demo_req_def)
qed

theorem one_quote_per_lane_witness:
  "length (filter (\<lambda>p. key_of p = demo_key) (bt_pending_orders (foldl bt_apply (builder_build demo_builder)
     [BtPlace ''u'' demo_draws (demo_quote 4), BtPlace ''u'' demo_draws (demo_quote 10),
      BtTrade (\<lambda>_. demo_draws) (\<lambda>_. demo_draws) Some 0 ''k'' demo_buy [] (Fin 0)]))) \<le> 1"
  by (rule one_quote_per_lane) (simp add: demo_builder_def builder_latency_def)

text \<open>The same quote, cancelled before it is live and then requoted: nothing is ever on the book.\<close>

theorem cancelled_lane_swallows_quote_witness:
  "let s = bt_apply demo_placed (BtCancel demo_draws 0 demo_id);
       s' = fst (advance_lane (\<lambda>_. demo_draws) 3000000000
         (fst (execute_limit_order_with_lifecycle ''u'' demo_draws s (demo_quote 10))) demo_key) in
     hget (be_lanes s') demo_key = Some LaneIdle \<and> hget (be_pending s') demo_id = None"
proof -
  let ?s = "bt_apply demo_placed (BtCancel demo_draws 0 demo_id)"
  have i: "bt_inv {} ?s"
    using bt_reachable [of demo_builder "[BtPlace ''u'' demo_draws (demo_quote 4), BtCancel demo_draws 0 demo_id]"]
    by (simp add: demo_placed_def)
  have t: "limit_terms (ord_order_type (demo_quote 10)) = Some (Fin 10, Fin (1 / 2), Sell, GoodTilCancelled)"
    by (simp add: demo_quote_def new_limit_sell_def)
  have k: "demo_key = quote_lane_key_of (ord_mint (demo_quote 10)) (ord_market (demo_quote 10)) Sell"
    by (simp add: demo_key_def demo_quote_def new_limit_sell_def)
  have l: "hget (be_lanes ?s) demo_key =
      Some (LanePlacing \<lparr>sq_order_id = demo_id, sq_quote = demo_req 4\<rparr> 1000000000 (Some 1000000000))"
    by (simp add: demo_placed_eq cancel_order_with_lifecycle_def bt_defers_def builder_build_def demo_builder_def
      builder_latency_def cancel_in_lane_def bt_cancel_request_def bt_on_engine_def record_cancel_request_def engine_new_def
      demo_record_def put_order_def emit_defs on_metrics_def hput_def and_then_def put_lane_def current_time_def
      cancel_latency_ms_def demo_draws_def milliseconds_def Let_def)
  show ?thesis
    using cancelled_lane_swallows_quote [OF i t k l, of 3000000000 "''u''" demo_draws "\<lambda>_. demo_draws"]
    by (simp add: Let_def)
qed

theorem complement_is_first_two_witness:
  "complement_asset_id (observe_all (builder_build builder_new) [(''k'', ''up''), (''k'', ''dn''), (''k'', ''up''), (''k'', ''z'')])
     ''dn'' = Some ''up''"
proof -
  let ?obs = "[(''k'', ''up''), (''k'', ''dn''), (''k'', ''up''), (''k'', ''z'')]"
  have "complement_asset_id (observe_all (builder_build builder_new) ?obs) ''dn'' = Some ''up'' \<longleftrightarrow> paired ?obs ''dn'' ''up''"
    by (rule complement_is_first_two) (auto simp: builder_build_def)
  moreover have "paired ?obs ''dn'' ''up''"
    unfolding paired_def by (rule exI [of _ "''k''"]) (simp add: seen_def first_two_def)
  ultimately show ?thesis by simp
qed

end
