(* ===== verification/Safe_Codec.thy ===== *)
theory Safe_Codec
  imports Prelude "HOL-Library.Word"
begin

text \<open>
  The transactions of the Safe wallet: the call structures that \<open>client/polymarket/abi.rs\<close>
  declares, the builders and the packed multisend format of \<open>encode.rs\<close>, and the addresses of
  \<open>constants.rs\<close>.  An address is its 20 bytes, a \<open>FixedBytes<32>\<close> its 32 bytes and a \<open>U256\<close> a
  256-bit word.  The ABI encoder that the \<open>sol!\<close> macro generates is third-party code: it is the
  argument \<open>abi\<close> of every builder.  \<open>decode_packed\<close> is not in the repository: it is the reference
  reader of the packed format (operation, address, value, length, data), against which the writer
  is proved.
\<close>

type_synonym byte = "8 word"
type_synonym bytes = "byte list"
type_synonym address = bytes
type_synonym bytes32 = bytes
type_synonym u256 = "256 word"

section \<open>Contract calls and addresses\<close>

datatype sol_call =
    Approve address u256
  | TokenTransfer address u256
  | SetApprovalForAll address bool
  | SafeTransferFrom address address u256 u256 bytes
  | SplitPosition address bytes32 bytes32 "u256 list" u256
  | MergePositions address bytes32 bytes32 "u256 list" u256
  | CtfRedeemPositions address bytes32 bytes32 "u256 list"
  | CtfBalanceOf address u256
  | NegRiskRedeemPositions bytes32 "u256 list"
  | ConvertPositions bytes32 u256 u256
  | SafeNonce
  | GetTransactionHash address u256 bytes byte u256 u256 u256 address address u256
  | ExecTransaction address u256 bytes byte u256 u256 u256 address address bytes
  | MultiSend bytes

definition usdc_address :: address where
  "usdc_address = [0x27, 0x91, 0xbc, 0xa1, 0xf2, 0xde, 0x46, 0x61, 0xed, 0x88,
     0xa3, 0x0c, 0x99, 0xa7, 0xa9, 0x44, 0x9a, 0xa8, 0x41, 0x74]"

definition ctf_address :: address where
  "ctf_address = [0x4D, 0x97, 0xDC, 0xd9, 0x7e, 0xC9, 0x45, 0xf4, 0x0c, 0xF6,
     0x5F, 0x87, 0x09, 0x7A, 0xCe, 0x5E, 0xA0, 0x47, 0x60, 0x45]"

definition neg_risk_adapter_address :: address where
  "neg_risk_adapter_address = [0xd9, 0x1E, 0x80, 0xcF, 0x2E, 0x7b, 0xe2, 0xe1, 0x62, 0xc6,
     0x51, 0x3c, 0xeD, 0x06, 0xf1, 0xdD, 0x0d, 0xA3, 0x52, 0x96]"

definition safe_multisend_address :: address where
  "safe_multisend_address = [0xA2, 0x38, 0xCB, 0xeb, 0x14, 0x2c, 0x10, 0xEf, 0x7A, 0xd8,
     0x44, 0x2C, 0x6D, 0x1f, 0x9E, 0x89, 0xe0, 0x7e, 0x77, 0x61]"

definition zero_address :: address where "zero_address = replicate 20 0"
definition zero_bytes32 :: bytes32 where "zero_bytes32 = replicate 32 0"
definition binary_partition :: "u256 list" where "binary_partition = [1, 2]"

section \<open>Calldata\<close>

definition encode_erc20_approve :: "(sol_call \<Rightarrow> bytes) \<Rightarrow> address \<Rightarrow> u256 \<Rightarrow> bytes" where
  "encode_erc20_approve abi spender amount = abi (Approve spender amount)"

definition encode_erc20_transfer :: "(sol_call \<Rightarrow> bytes) \<Rightarrow> address \<Rightarrow> u256 \<Rightarrow> bytes" where
  "encode_erc20_transfer abi to amount = abi (TokenTransfer to amount)"

definition encode_erc1155_approve :: "(sol_call \<Rightarrow> bytes) \<Rightarrow> address \<Rightarrow> bool \<Rightarrow> bytes" where
  "encode_erc1155_approve abi operator approved = abi (SetApprovalForAll operator approved)"

definition encode_erc1155_transfer ::
  "(sol_call \<Rightarrow> bytes) \<Rightarrow> address \<Rightarrow> address \<Rightarrow> u256 \<Rightarrow> u256 \<Rightarrow> bytes" where
  "encode_erc1155_transfer abi from to i amount = abi (SafeTransferFrom from to i amount [])"

definition encode_split :: "(sol_call \<Rightarrow> bytes) \<Rightarrow> address \<Rightarrow> bytes32 \<Rightarrow> u256 \<Rightarrow> bytes" where
  "encode_split abi collateral_token condition_id amount =
     abi (SplitPosition collateral_token zero_bytes32 condition_id binary_partition amount)"

definition encode_merge :: "(sol_call \<Rightarrow> bytes) \<Rightarrow> address \<Rightarrow> bytes32 \<Rightarrow> u256 \<Rightarrow> bytes" where
  "encode_merge abi collateral_token condition_id amount =
     abi (MergePositions collateral_token zero_bytes32 condition_id binary_partition amount)"

definition encode_redeem :: "(sol_call \<Rightarrow> bytes) \<Rightarrow> address \<Rightarrow> bytes32 \<Rightarrow> bytes" where
  "encode_redeem abi collateral_token condition_id =
     abi (CtfRedeemPositions collateral_token zero_bytes32 condition_id binary_partition)"

definition encode_split_neg_risk :: "(sol_call \<Rightarrow> bytes) \<Rightarrow> bytes32 \<Rightarrow> u256 \<Rightarrow> bytes" where
  "encode_split_neg_risk abi condition_id amount =
     abi (SplitPosition usdc_address zero_bytes32 condition_id binary_partition amount)"

definition encode_merge_neg_risk :: "(sol_call \<Rightarrow> bytes) \<Rightarrow> bytes32 \<Rightarrow> u256 \<Rightarrow> bytes" where
  "encode_merge_neg_risk abi condition_id amount =
     abi (MergePositions usdc_address zero_bytes32 condition_id binary_partition amount)"

definition encode_redeem_neg_risk :: "(sol_call \<Rightarrow> bytes) \<Rightarrow> bytes32 \<Rightarrow> u256 list \<Rightarrow> bytes" where
  "encode_redeem_neg_risk abi condition_id amounts = abi (NegRiskRedeemPositions condition_id amounts)"

definition encode_convert :: "(sol_call \<Rightarrow> bytes) \<Rightarrow> bytes32 \<Rightarrow> u256 \<Rightarrow> u256 \<Rightarrow> bytes" where
  "encode_convert abi market_id index_set amount = abi (ConvertPositions market_id index_set amount)"

section \<open>Safe transactions and the packed multisend format\<close>

datatype operation_type = Call | DelegateCall

fun operation_byte :: "operation_type \<Rightarrow> byte" where
  "operation_byte Call = 0"
| "operation_byte DelegateCall = 1"

record safe_transaction =
  tx_to :: address
  tx_value :: u256
  tx_data :: bytes
  tx_operation :: operation_type

text \<open>The big-endian bytes of a number, as \<open>to_be_bytes\<close> gives them.\<close>

fun be_bytes :: "nat \<Rightarrow> nat \<Rightarrow> bytes" where
  "be_bytes 0 n = []"
| "be_bytes (Suc k) n = be_bytes k (n div 256) @ [of_nat (n mod 256)]"

definition to_be_bytes :: "u256 \<Rightarrow> bytes" where
  "to_be_bytes w = be_bytes 32 (unat w)"

definition encode_packed_transaction :: "safe_transaction \<Rightarrow> bytes" where
  "encode_packed_transaction tx =
     [operation_byte (tx_operation tx)] @ tx_to tx @ to_be_bytes (tx_value tx)
     @ to_be_bytes (of_nat (length (tx_data tx))) @ tx_data tx"

definition packed_transactions :: "safe_transaction list \<Rightarrow> bytes" where
  "packed_transactions txs = foldl (\<lambda>packed tx. packed @ encode_packed_transaction tx) [] txs"

definition encode_multisend :: "(sol_call \<Rightarrow> bytes) \<Rightarrow> safe_transaction list \<Rightarrow> bytes" where
  "encode_multisend abi txs = abi (MultiSend (packed_transactions txs))"

definition aggregate_transaction ::
  "(sol_call \<Rightarrow> bytes) \<Rightarrow> safe_transaction list \<Rightarrow> address \<Rightarrow> safe_transaction" where
  "aggregate_transaction abi txs multisend_address =
     (if length txs = 1 then hd txs
      else \<lparr>tx_to = multisend_address, tx_value = 0, tx_data = encode_multisend abi txs,
            tx_operation = DelegateCall\<rparr>)"

section \<open>Fixed-width fields\<close>

text \<open>
  A field of fixed width: the writer \<open>enc\<close> produces \<open>n\<close> bytes, the reader \<open>dec\<close> recovers every
  value that is \<open>ok\<close>.  The client lemmas say how such a field is read off the front of a stream.
\<close>

locale fixed_field =
  fixes n :: nat and ok :: "'a \<Rightarrow> bool" and enc :: "'a \<Rightarrow> bytes" and dec :: "bytes \<Rightarrow> 'a"
  assumes width: "ok x \<Longrightarrow> length (enc x) = n"
    and recover: "ok x \<Longrightarrow> dec (enc x) = x"
begin

definition field :: "bytes \<Rightarrow> ('a \<times> bytes) option" where
  "field bs = (if length bs < n then None else Some (dec (take n bs), drop n bs))"

lemma field_enc: "ok x \<Longrightarrow> field (enc x @ rest) = Some (x, rest)"
  by (simp add: field_def width recover)

lemma field_shorter: "field bs = Some (x, rest) \<Longrightarrow> length rest + n = length bs"
  by (auto simp: field_def split: if_splits)

lemma enc_inj: "ok x \<Longrightarrow> ok y \<Longrightarrow> enc x = enc y \<Longrightarrow> x = y"
  by (metis recover)

end

definition be_value :: "bytes \<Rightarrow> nat" where
  "be_value bs = foldl (\<lambda>a b. a * 256 + unat b) 0 bs"

lemma length_be_bytes [simp]: "length (be_bytes k n) = k"
  by (induction k arbitrary: n) auto

lemma be_value_append [simp]: "be_value (bs @ [b]) = be_value bs * 256 + unat b"
  by (simp add: be_value_def)

lemma be_value_bytes: "be_value (be_bytes k n) = n mod 256 ^ k"
proof (induction k arbitrary: n)
  case (Suc k)
  have "unat (of_nat (n mod 256) :: byte) = n mod 256" by (simp add: unat_of_nat)
  then show ?case
    by (simp only: be_bytes.simps be_value_append Suc.IH)
      (simp add: mod_mult2_eq mult.commute)
qed (simp add: be_value_def)

lemma be_value_to_be_bytes: "be_value (to_be_bytes w) = unat w"
proof -
  have "unat w < 256 ^ 32" using unsigned_less [of w] by simp
  then show ?thesis by (simp add: to_be_bytes_def be_value_bytes)
qed

interpretation u256_field: fixed_field 32 "\<lambda>_. True" to_be_bytes "\<lambda>bs. of_nat (be_value bs)"
  by unfold_locales (simp_all add: be_value_to_be_bytes, simp add: to_be_bytes_def)

interpretation length_field: fixed_field 32 "\<lambda>n. n < 2 ^ 64" "\<lambda>n. to_be_bytes (of_nat n)" be_value
proof
  fix n :: nat assume "n < 2 ^ 64"
  then have "n < 2 ^ LENGTH(256)" by simp
  then show "be_value (to_be_bytes (of_nat n)) = n"
    by (simp add: be_value_to_be_bytes unat_of_nat)
qed (simp add: to_be_bytes_def)

interpretation address_field: fixed_field 20 "\<lambda>a. length a = 20" "\<lambda>a. a" "\<lambda>bs. bs"
  by unfold_locales simp_all

definition operation_of :: "bytes \<Rightarrow> operation_type" where
  "operation_of bs = (if bs = [0] then Call else DelegateCall)"

interpretation operation_field: fixed_field 1 "\<lambda>_. True" "\<lambda>op. [operation_byte op]" operation_of
proof
  show "operation_of [operation_byte op] = op" for op by (cases op) (simp_all add: operation_of_def)
qed simp

section \<open>The reference reader of the packed format\<close>

definition decode_one :: "bytes \<Rightarrow> (safe_transaction \<times> bytes) option" where
  "decode_one bs =
     Option.bind (operation_field.field bs) (\<lambda>(op, bs).
     Option.bind (address_field.field bs) (\<lambda>(to, bs).
     Option.bind (u256_field.field bs) (\<lambda>(value, bs).
     Option.bind (length_field.field bs) (\<lambda>(n, bs).
       if length bs < n then None
       else Some (\<lparr>tx_to = to, tx_value = value, tx_data = take n bs, tx_operation = op\<rparr>, drop n bs)))))"

lemma decode_one_shorter: "decode_one bs = Some (tx, rest) \<Longrightarrow> length rest < length bs"
  by (auto simp: decode_one_def bind_eq_Some_conv split: if_splits
      dest!: operation_field.field_shorter [simplified] address_field.field_shorter u256_field.field_shorter
        length_field.field_shorter)

function decode_packed :: "bytes \<Rightarrow> safe_transaction list option" where
  "decode_packed bs =
     (if bs = [] then Some []
      else case decode_one bs of
             None \<Rightarrow> None
           | Some (tx, rest) \<Rightarrow> map_option ((#) tx) (decode_packed rest))"
  by pat_completeness auto
termination
  by (relation "measure length") (auto dest: decode_one_shorter)

declare decode_packed.simps [simp del]

text \<open>What the Rust types guarantee of a transaction: 20 address bytes, a length that fits \<open>usize\<close>.\<close>

definition tx_typed :: "safe_transaction \<Rightarrow> bool" where
  "tx_typed tx \<longleftrightarrow> length (tx_to tx) = 20 \<and> length (tx_data tx) < 2 ^ 64"

lemma decode_one_packed:
  "tx_typed tx \<Longrightarrow> decode_one (encode_packed_transaction tx @ rest) = Some (tx, rest)"
  using operation_field.field_enc [of "tx_operation tx"] address_field.field_enc [of "tx_to tx"]
    u256_field.field_enc [of "tx_value tx"] length_field.field_enc [of "length (tx_data tx)"]
  by (simp add: decode_one_def encode_packed_transaction_def tx_typed_def)

lemma encode_packed_not_empty [simp]: "encode_packed_transaction tx \<noteq> []"
  by (simp add: encode_packed_transaction_def)

lemma packed_transactions_concat:
  "packed_transactions txs = concat (map encode_packed_transaction txs)"
proof -
  have "foldl (\<lambda>packed tx. packed @ encode_packed_transaction tx) acc txs
      = acc @ concat (map encode_packed_transaction txs)" for acc
    by (induction txs arbitrary: acc) auto
  then show ?thesis by (simp add: packed_transactions_def)
qed

lemma packed_simps [simp]:
  "packed_transactions [] = []"
  "packed_transactions (tx # txs) = encode_packed_transaction tx @ packed_transactions txs"
  by (simp_all add: packed_transactions_concat)

lemma decode_packed_all:
  "list_all tx_typed txs \<Longrightarrow> decode_packed (packed_transactions txs) = Some txs"
proof (induction txs)
  case (Cons tx txs)
  then show ?case
    by (subst decode_packed.simps) (simp add: decode_one_packed)
qed (simp add: decode_packed.simps)

lemma packed_length:
  "list_all tx_typed txs \<Longrightarrow>
   length (packed_transactions txs) = (\<Sum>tx\<leftarrow>txs. 85 + length (tx_data tx))"
  by (induction txs)
    (auto simp: encode_packed_transaction_def tx_typed_def to_be_bytes_def)

section \<open>Properties\<close>

text \<open>C22. Packing is a round trip: the reference reader of the multisend format recovers exactly
  the list of transactions from the bytes the code writes, so two different batches never have the
  same packed form, and with an ABI encoder that is injective on \<open>multiSend\<close> calls they never
  have the same calldata.\<close>

theorem multisend_roundtrip:
  assumes "list_all tx_typed txs" "list_all tx_typed txs'"
    and abi: "\<And>a b. abi (MultiSend a) = abi (MultiSend b) \<Longrightarrow> a = b"
  shows "decode_packed (packed_transactions txs) = Some txs
    \<and> (encode_multisend abi txs = encode_multisend abi txs' \<longrightarrow> txs = txs')"
proof -
  note d = decode_packed_all [OF assms(1)] decode_packed_all [OF assms(2)]
  show ?thesis using d abi by (metis encode_multisend_def option.inject)
qed

definition demo_abi :: "sol_call \<Rightarrow> bytes" where
  "demo_abi c = (case c of MultiSend b \<Rightarrow> b | _ \<Rightarrow> [])"

definition demo_txs :: "safe_transaction list" where
  "demo_txs =
     [\<lparr>tx_to = ctf_address, tx_value = 0, tx_data = [1, 2, 3], tx_operation = Call\<rparr>,
      \<lparr>tx_to = usdc_address, tx_value = 7, tx_data = [], tx_operation = DelegateCall\<rparr>]"

theorem multisend_roundtrip_witness:
  "decode_packed (packed_transactions demo_txs) = Some demo_txs
   \<and> encode_multisend demo_abi demo_txs \<noteq> encode_multisend demo_abi []"
proof -
  have "list_all tx_typed demo_txs"
    by (simp add: demo_txs_def tx_typed_def ctf_address_def usdc_address_def)
  from multisend_roundtrip [OF this, of "[]" demo_abi]
  have "decode_packed (packed_transactions demo_txs) = Some demo_txs"
    "encode_multisend demo_abi demo_txs = encode_multisend demo_abi [] \<longrightarrow> demo_txs = []"
    by (simp_all add: demo_abi_def)
  then show ?thesis by (auto simp: demo_txs_def)
qed

end
