(* ===== verification/Safe_Client.thy ===== *)
theory Safe_Client
  imports Safe_Codec F64 "HOL-Library.Code_Target_Numeral"
begin

text \<open>
  The Safe wallet client, \<open>client/polymarket/safe_client.rs\<close>: parsing of amounts and identifiers,
  signing, the retry loop of a transaction, the loop that waits for a confirmation, and the
  operations split, merge and redeem.  A string is its UTF-8 bytes.  What lies outside the
  repository is a field of the record \<open>net\<close>, on a state \<open>'w\<close> of the outside world: the JSON
  requests, the transaction provider, the signer, the timer, the ABI encoder, the hex decoder and
  the parser of 256-bit decimals.  A \<open>fault\<close> is an \<open>anyhow\<close> error or a panic.
\<close>

datatype fault = Error string | Panic string

section \<open>Parsing numbers\<close>

text \<open>\<open>u64::from_str_radix\<close>: an optional plus sign, at least one digit, no overflow.\<close>

definition digit_value :: "nat \<Rightarrow> char \<Rightarrow> nat option" where
  "digit_value radix c =
     (let n = of_char c;
          d = (if 48 \<le> n \<and> n \<le> 57 then Some (n - 48)
               else if 97 \<le> n \<and> n \<le> 122 then Some (n - 87)
               else if 65 \<le> n \<and> n \<le> 90 then Some (n - 55) else None)
      in case d of None \<Rightarrow> None | Some v \<Rightarrow> if v < radix then Some v else None)"

fun parse_digits :: "nat \<Rightarrow> nat \<Rightarrow> string \<Rightarrow> nat option" where
  "parse_digits radix acc [] = Some acc"
| "parse_digits radix acc (c # cs) =
     (case digit_value radix c of
        None \<Rightarrow> None
      | Some d \<Rightarrow> if acc * radix + d < 2 ^ 64 then parse_digits radix (acc * radix + d) cs else None)"

definition parse_u64 :: "nat \<Rightarrow> string \<Rightarrow> nat option" where
  "parse_u64 radix s =
     (case s of
        [] \<Rightarrow> None
      | c # cs \<Rightarrow>
          if c = CHR ''+'' then (if cs = [] then None else parse_digits radix 0 cs)
          else parse_digits radix 0 s)"

fun trim_0x :: "string \<Rightarrow> string" where
  "trim_0x (a # b # s) =
     (if a = CHR ''0'' \<and> b = CHR ''x'' then trim_0x s else a # b # s)"
| "trim_0x s = s"

definition parse_bytes32 :: "(string \<Rightarrow> string + bytes) \<Rightarrow> string \<Rightarrow> fault + bytes32" where
  "parse_bytes32 hex_decode str =
     (let s = trim_0x str in
      if length s \<noteq> 64 then Inl (Error ''Invalid bytes32 length: expected 64 hex chars'')
      else case hex_decode s of
             Inl e \<Rightarrow> Inl (Error e)
           | Inr bs \<Rightarrow> if length bs \<noteq> 32 then Inl (Panic ''copy_from_slice'') else Inr bs)"

fun split_on :: "char \<Rightarrow> string \<Rightarrow> string list" where
  "split_on c [] = [[]]"
| "split_on c (x # xs) =
     (if x = c then [] # split_on c xs
      else case split_on c xs of [] \<Rightarrow> [[x]] | p # ps \<Rightarrow> (x # p) # ps)"

text \<open>Formatting pads by characters, slicing counts bytes and panics inside a character.\<close>

definition is_continuation :: "char \<Rightarrow> bool" where
  "is_continuation c = (128 \<le> (of_char c :: nat) \<and> (of_char c :: nat) < 192)"

definition char_count :: "string \<Rightarrow> nat" where
  "char_count s = length (filter (\<lambda>c. \<not> is_continuation c) s)"

definition pad_zeros :: "nat \<Rightarrow> string \<Rightarrow> string" where
  "pad_zeros n s = s @ replicate (n - char_count s) (CHR ''0'')"

definition slice_to :: "nat \<Rightarrow> string \<Rightarrow> fault + string" where
  "slice_to n s =
     (if length s < n \<or> (n < length s \<and> is_continuation (s ! n))
      then Inl (Panic ''byte index is not a char boundary'') else Inr (take n s))"

definition usdc_decimals :: nat where "usdc_decimals = 6"

definition parse_usdc_amount :: "string \<Rightarrow> fault + u256" where
  "parse_usdc_amount s =
     (let parts = split_on (CHR ''.'') s in
      if length parts \<noteq> 1 \<and> length parts \<noteq> 2 then Inl (Error ''Invalid amount format'')
      else
        let (whole, frac) = (if length parts = 1 then (parts ! 0, []) else (parts ! 0, parts ! 1)) in
        case parse_u64 10 whole of
          None \<Rightarrow> Inl (Error ''Invalid whole part'')
        | Some w \<Rightarrow>
            (case slice_to 6 (pad_zeros 6 frac) of
               Inl e \<Rightarrow> Inl e
             | Inr digits \<Rightarrow>
                 (case parse_u64 10 digits of
                    None \<Rightarrow> Inl (Error ''Invalid fractional part'')
                  | Some f \<Rightarrow>
                      Inr (ucast (of_nat w * 10 ^ usdc_decimals + of_nat f :: 64 word)))))"

section \<open>The outside world\<close>

record json_rpc_response =
  jr_result :: "string option"
  jr_error :: "string option"

record transaction_receipt =
  tr_block_number :: "string option"
  tr_status :: "string option"

record transaction_receipt_response =
  rr_result :: "transaction_receipt option"
  rr_error :: "string option"

record 'w net =
  post_eth_call :: "'w \<Rightarrow> address \<Rightarrow> bytes \<Rightarrow> (string + json_rpc_response) \<times> 'w"
  post_receipt :: "'w \<Rightarrow> string \<Rightarrow> (string + transaction_receipt_response) \<times> 'w"
  provider_send :: "'w \<Rightarrow> address \<Rightarrow> bytes \<Rightarrow> (string + string) \<times> 'w"
  sleep :: "duration \<Rightarrow> 'w \<Rightarrow> 'w"
  sign_message :: "bytes \<Rightarrow> string + bytes"
  abi_encode :: "sol_call \<Rightarrow> bytes"
  hex_decode :: "string \<Rightarrow> string + bytes"
  u256_of_decimal :: "string \<Rightarrow> string + u256"
  parse_url :: "string \<Rightarrow> string option"

record safe_client_config =
  sc_rpc_url :: string
  sc_chain_id :: nat
  sc_safe_address :: address
  sc_max_wait_secs :: "nat option"

datatype transaction_confirmation =
    TxSuccess string nat
  | TxFailed string nat
  | TxTimeout string

fun is_success :: "transaction_confirmation \<Rightarrow> bool" where
  "is_success (TxSuccess h b) = True"
| "is_success c = False"

definition second :: duration where "second = 1000000000"
definition millisecond :: duration where "millisecond = 1000000"
definition default_max_wait_secs :: nat where "default_max_wait_secs = 120"
definition poll_interval_secs :: nat where "poll_interval_secs = 2"

section \<open>Requests\<close>

definition eth_call :: "('w, 'z) net_scheme \<Rightarrow> 'w \<Rightarrow> address \<Rightarrow> bytes \<Rightarrow> (fault + bytes) \<times> 'w" where
  "eth_call net w to data =
     (case post_eth_call net w to data of
        (Inl e, w') \<Rightarrow> (Inl (Error e), w')
      | (Inr response, w') \<Rightarrow>
          ((case jr_error response of
              Some m \<Rightarrow> Inl (Error (''RPC error: '' @ m))
            | None \<Rightarrow>
                (case jr_result response of
                   None \<Rightarrow> Inl (Error ''No result in response'')
                 | Some r \<Rightarrow>
                     (case hex_decode net (trim_0x r) of Inl e \<Rightarrow> Inl (Error e) | Inr bs \<Rightarrow> Inr bs))),
           w'))"

definition get_ctf_balance ::
  "('w, 'z) net_scheme \<Rightarrow> safe_client_config \<Rightarrow> 'w \<Rightarrow> string \<Rightarrow> (fault + f64) \<times> 'w" where
  "get_ctf_balance net cfg w token_id =
     (case u256_of_decimal net token_id of
        Inl e \<Rightarrow> (Inl (Error (''Invalid token ID: '' @ e)), w)
      | Inr i \<Rightarrow>
          (case eth_call net w ctf_address (abi_encode net (CtfBalanceOf (sc_safe_address cfg) i)) of
             (Inl e, w') \<Rightarrow> (Inl e, w')
           | (Inr result, w') \<Rightarrow>
               (if length result < 32 then Inl (Error ''Invalid balance response'')
                else let balance = be_value (take 32 result) in
                  if 2 ^ 128 \<le> balance then Inl (Panic ''Overflow in to::<u128>'')
                  else Inr (fdiv (f_int (int balance)) (f_lit 1000000)), w')))"

definition get_safe_nonce :: "('w, 'z) net_scheme \<Rightarrow> safe_client_config \<Rightarrow> 'w \<Rightarrow> (fault + u256) \<times> 'w" where
  "get_safe_nonce net cfg w =
     (case eth_call net w (sc_safe_address cfg) (abi_encode net SafeNonce) of
        (Inl e, w') \<Rightarrow> (Inl e, w')
      | (Inr result, w') \<Rightarrow>
          (if length result < 32 then Inl (Error ''Invalid nonce response'')
           else Inr (of_nat (be_value (take 32 result))), w'))"

definition get_transaction_hash ::
  "('w, 'z) net_scheme \<Rightarrow> safe_client_config \<Rightarrow> 'w \<Rightarrow> safe_transaction \<Rightarrow> u256 \<Rightarrow> (fault + bytes32) \<times> 'w" where
  "get_transaction_hash net cfg w tx nonce =
     (case eth_call net w (sc_safe_address cfg)
             (abi_encode net (GetTransactionHash (tx_to tx) (tx_value tx) (tx_data tx)
                (operation_byte (tx_operation tx)) 0 0 0 zero_address zero_address nonce)) of
        (Inl e, w') \<Rightarrow> (Inl e, w')
      | (Inr result, w') \<Rightarrow>
          (if length result < 32 then Inl (Error ''Invalid transaction hash response'')
           else Inr (take 32 result), w'))"

definition sign_safe_tx_hash :: "('w, 'z) net_scheme \<Rightarrow> bytes32 \<Rightarrow> fault + bytes" where
  "sign_safe_tx_hash net tx_hash =
     (case sign_message net tx_hash of
        Inl e \<Rightarrow> Inl (Error (''Failed to sign: '' @ e))
      | Inr sig \<Rightarrow>
          if length sig \<le> 64 then Inl (Panic ''index out of bounds'')
          else
            let v = sig ! 64 in
            if v = 0 \<or> v = 1 then Inr (sig[64 := v + 31])
            else if v = 27 \<or> v = 28 then Inr (sig[64 := v + 4])
            else Inl (Error ''Invalid signature v value''))"

definition send_transaction ::
  "('w, 'z) net_scheme \<Rightarrow> safe_client_config \<Rightarrow> 'w \<Rightarrow> address \<Rightarrow> bytes \<Rightarrow> (string + string) \<times> 'w" where
  "send_transaction net cfg w to data =
     (case parse_url net (sc_rpc_url cfg) of
        Some e \<Rightarrow> (Inl e, w)
      | None \<Rightarrow>
          (case provider_send net w to data of
             (Inl e, w') \<Rightarrow> (Inl (''Failed to send transaction: '' @ e), w')
           | (Inr h, w') \<Rightarrow> (Inr h, w')))"

section \<open>Executing a transaction\<close>

definition max_retries :: nat where "max_retries = 10"
definition retry_delay_ms :: int where "retry_delay_ms = 2000"

definition is_retryable :: "string \<Rightarrow> bool" where
  "is_retryable e = (str_contains e ''GS013'' \<or> str_contains e ''GS026'' \<or> str_contains e ''nonce'')"

text \<open>The body of the loop up to the answer of the network: an early return, or that answer.\<close>

definition send_once ::
  "('w, 'z) net_scheme \<Rightarrow> safe_client_config \<Rightarrow> safe_transaction \<Rightarrow> 'w \<Rightarrow> (fault + (string + string)) \<times> 'w" where
  "send_once net cfg tx w0 =
     (case get_safe_nonce net cfg w0 of
        (Inl e, w) \<Rightarrow> (Inl e, w)
      | (Inr nonce, w) \<Rightarrow>
          (case get_transaction_hash net cfg w tx nonce of
             (Inl e, w) \<Rightarrow> (Inl e, w)
           | (Inr tx_hash, w) \<Rightarrow>
               (case sign_safe_tx_hash net tx_hash of
                  Inl e \<Rightarrow> (Inl e, w)
                | Inr signature \<Rightarrow>
                    (case send_transaction net cfg w (sc_safe_address cfg)
                            (abi_encode net (ExecTransaction (tx_to tx) (tx_value tx) (tx_data tx)
                               (operation_byte (tx_operation tx)) 0 0 0 zero_address zero_address
                               signature)) of
                       (answer, w) \<Rightarrow> (Inr answer, w)))))"

fun execute_attempts ::
  "('w, 'z) net_scheme \<Rightarrow> safe_client_config \<Rightarrow> safe_transaction \<Rightarrow> nat list \<Rightarrow> 'w \<Rightarrow> (fault + string) \<times> 'w" where
  "execute_attempts net cfg tx [] w = (Inl (Error ''Safe transaction failed after 10 retries''), w)"
| "execute_attempts net cfg tx (attempt # rest) w =
     (case send_once net cfg tx w of
        (Inl e, w') \<Rightarrow> (Inl e, w')
      | (Inr (Inr tx_hash), w') \<Rightarrow> (Inr tx_hash, w')
      | (Inr (Inl e), w') \<Rightarrow>
          if is_retryable e \<and> attempt < max_retries
          then execute_attempts net cfg tx rest (sleep net (retry_delay_ms * millisecond) w')
          else (Inl (Error e), w'))"

definition execute_safe_transaction ::
  "('w, 'z) net_scheme \<Rightarrow> safe_client_config \<Rightarrow> 'w \<Rightarrow> safe_transaction \<Rightarrow> (fault + string) \<times> 'w" where
  "execute_safe_transaction net cfg w tx =
     execute_attempts net cfg tx [1..<Suc max_retries] w"

section \<open>Waiting for a confirmation\<close>

definition get_transaction_receipt ::
  "('w, 'z) net_scheme \<Rightarrow> 'w \<Rightarrow> string \<Rightarrow> (string + transaction_receipt option) \<times> 'w" where
  "get_transaction_receipt net w tx_hash =
     (case post_receipt net w tx_hash of
        (Inl e, w') \<Rightarrow> (Inl e, w')
      | (Inr response, w') \<Rightarrow>
          (case rr_error response of
             Some m \<Rightarrow> (Inl (''RPC error: '' @ m), w')
           | None \<Rightarrow> (Inr (rr_result response), w')))"

definition confirmation_of :: "string \<Rightarrow> transaction_receipt \<Rightarrow> transaction_confirmation" where
  "confirmation_of tx_hash receipt =
     (let block_number =
            unwrap_or (Option.bind (tr_block_number receipt) (\<lambda>b. parse_u64 16 (trim_0x b))) 0
      in if tr_status receipt = Some ''0x1'' then TxSuccess tx_hash block_number
         else TxFailed tx_hash block_number)"

fun wait_iterations ::
  "('w, 'z) net_scheme \<Rightarrow> string \<Rightarrow> nat \<Rightarrow> 'w \<Rightarrow> transaction_confirmation \<times> 'w" where
  "wait_iterations net tx_hash 0 w = (TxTimeout tx_hash, w)"
| "wait_iterations net tx_hash (Suc n) w =
     (case get_transaction_receipt net w tx_hash of
        (Inr (Some receipt), w') \<Rightarrow> (confirmation_of tx_hash receipt, w')
      | (Inr None, w') \<Rightarrow> wait_iterations net tx_hash n (sleep net (int poll_interval_secs * second) w')
      | (Inl e, w') \<Rightarrow> wait_iterations net tx_hash n (sleep net (int poll_interval_secs * second) w'))"

definition wait_for_transaction ::
  "('w, 'z) net_scheme \<Rightarrow> safe_client_config \<Rightarrow> 'w \<Rightarrow> string \<Rightarrow> nat option \<Rightarrow> transaction_confirmation \<times> 'w" where
  "wait_for_transaction net cfg w tx_hash max_wait_secs =
     (let max_wait = unwrap_or max_wait_secs (unwrap_or (sc_max_wait_secs cfg) default_max_wait_secs)
      in wait_iterations net tx_hash (max_wait div poll_interval_secs) w)"

section \<open>Split, merge and redeem\<close>

definition call_transaction :: "address \<Rightarrow> bytes \<Rightarrow> safe_transaction" where
  "call_transaction to data = \<lparr>tx_to = to, tx_value = 0, tx_data = data, tx_operation = Call\<rparr>"

definition split_transaction :: "('w, 'z) net_scheme \<Rightarrow> bytes32 \<Rightarrow> u256 \<Rightarrow> bool \<Rightarrow> safe_transaction" where
  "split_transaction net condition_id amount neg_risk =
     (if neg_risk
      then call_transaction neg_risk_adapter_address
             (encode_split_neg_risk (abi_encode net) condition_id amount)
      else call_transaction ctf_address
             (encode_split (abi_encode net) usdc_address condition_id amount))"

text \<open>The amount is narrowed to 128 bits for the log line first, which panics on a larger one.\<close>

definition split_position ::
  "('w, 'z) net_scheme \<Rightarrow> safe_client_config \<Rightarrow> 'w \<Rightarrow> bytes32 \<Rightarrow> u256 \<Rightarrow> bool \<Rightarrow> (fault + string) \<times> 'w" where
  "split_position net cfg w condition_id amount neg_risk =
     (if 2 ^ 128 \<le> unat amount then (Inl (Panic ''Overflow in to::<u128>''), w)
      else execute_safe_transaction net cfg w (split_transaction net condition_id amount neg_risk))"

definition split_usdc ::
  "('w, 'z) net_scheme \<Rightarrow> safe_client_config \<Rightarrow> 'w \<Rightarrow> string \<Rightarrow> string \<Rightarrow> bool \<Rightarrow> (fault + string) \<times> 'w" where
  "split_usdc net cfg w condition_id amount neg_risk =
     (case parse_bytes32 (hex_decode net) condition_id of
        Inl e \<Rightarrow> (Inl e, w)
      | Inr c \<Rightarrow>
          (case parse_usdc_amount amount of
             Inl e \<Rightarrow> (Inl e, w)
           | Inr a \<Rightarrow> split_position net cfg w c a neg_risk))"

definition merge_transaction :: "('w, 'z) net_scheme \<Rightarrow> bytes32 \<Rightarrow> u256 \<Rightarrow> bool \<Rightarrow> safe_transaction" where
  "merge_transaction net condition_id amount neg_risk =
     (if neg_risk
      then call_transaction neg_risk_adapter_address
             (encode_merge_neg_risk (abi_encode net) condition_id amount)
      else call_transaction ctf_address
             (encode_merge (abi_encode net) usdc_address condition_id amount))"

definition merge_positions ::
  "('w, 'z) net_scheme \<Rightarrow> safe_client_config \<Rightarrow> 'w \<Rightarrow> bytes32 \<Rightarrow> u256 \<Rightarrow> bool \<Rightarrow> (fault + string) \<times> 'w" where
  "merge_positions net cfg w condition_id amount neg_risk =
     (if 2 ^ 128 \<le> unat amount then (Inl (Panic ''Overflow in to::<u128>''), w)
      else execute_safe_transaction net cfg w (merge_transaction net condition_id amount neg_risk))"

definition merge_usdc ::
  "('w, 'z) net_scheme \<Rightarrow> safe_client_config \<Rightarrow> 'w \<Rightarrow> string \<Rightarrow> string \<Rightarrow> bool \<Rightarrow> (fault + string) \<times> 'w" where
  "merge_usdc net cfg w condition_id amount neg_risk =
     (case parse_bytes32 (hex_decode net) condition_id of
        Inl e \<Rightarrow> (Inl e, w)
      | Inr c \<Rightarrow>
          (case parse_usdc_amount amount of
             Inl e \<Rightarrow> (Inl e, w)
           | Inr a \<Rightarrow> merge_positions net cfg w c a neg_risk))"

definition redeem ::
  "('w, 'z) net_scheme \<Rightarrow> safe_client_config \<Rightarrow> 'w \<Rightarrow> bytes32 \<Rightarrow> bool \<Rightarrow> u256 list option \<Rightarrow>
   (fault + string) \<times> 'w" where
  "redeem net cfg w condition_id neg_risk amounts =
     (if neg_risk then
        (case amounts of
           None \<Rightarrow> (Inl (Error ''Amounts required for negRisk redeem''), w)
         | Some xs \<Rightarrow> execute_safe_transaction net cfg w
             (call_transaction neg_risk_adapter_address
                (encode_redeem_neg_risk (abi_encode net) condition_id xs)))
      else execute_safe_transaction net cfg w
             (call_transaction ctf_address
                (encode_redeem (abi_encode net) usdc_address condition_id)))"

fun parse_amounts :: "string list \<Rightarrow> fault + u256 list" where
  "parse_amounts [] = Inr []"
| "parse_amounts (s # ss) =
     (case parse_usdc_amount s of
        Inl e \<Rightarrow> Inl e
      | Inr a \<Rightarrow> (case parse_amounts ss of Inl e \<Rightarrow> Inl e | Inr xs \<Rightarrow> Inr (a # xs)))"

definition redeem_str ::
  "('w, 'z) net_scheme \<Rightarrow> safe_client_config \<Rightarrow> 'w \<Rightarrow> string \<Rightarrow> bool \<Rightarrow> string list option \<Rightarrow>
   (fault + string) \<times> 'w" where
  "redeem_str net cfg w condition_id neg_risk amounts =
     (case parse_bytes32 (hex_decode net) condition_id of
        Inl e \<Rightarrow> (Inl e, w)
      | Inr c \<Rightarrow>
          (case amounts of
             None \<Rightarrow> redeem net cfg w c neg_risk None
           | Some ss \<Rightarrow>
               (case parse_amounts ss of
                  Inl e \<Rightarrow> (Inl e, w)
                | Inr xs \<Rightarrow> redeem net cfg w c neg_risk (Some xs))))"

section \<open>Decimal strings\<close>

text \<open>Reference notions: the value of a string of decimal digits, and the printer of an amount with
  six decimals.\<close>

definition is_digit :: "char \<Rightarrow> bool" where
  "is_digit c = (48 \<le> (of_char c :: nat) \<and> (of_char c :: nat) \<le> 57)"

definition dec_value_from :: "nat \<Rightarrow> string \<Rightarrow> nat" where
  "dec_value_from acc s = foldl (\<lambda>a c. a * 10 + (of_char c - 48)) acc s"

abbreviation dec_value :: "string \<Rightarrow> nat" where "dec_value \<equiv> dec_value_from 0"

definition digit_char :: "nat \<Rightarrow> char" where "digit_char d = char_of (48 + d)"

fun decimal :: "nat \<Rightarrow> string" where
  "decimal n = (if n < 10 then [digit_char n] else decimal (n div 10) @ [digit_char (n mod 10)])"

declare decimal.simps [simp del]

fun decimal_fixed :: "nat \<Rightarrow> nat \<Rightarrow> string" where
  "decimal_fixed 0 n = []"
| "decimal_fixed (Suc k) n = decimal_fixed k (n div 10) @ [digit_char (n mod 10)]"

definition format_usdc :: "nat \<Rightarrow> string" where
  "format_usdc a = decimal (a div 10 ^ 6) @ ''.'' @ decimal_fixed 6 (a mod 10 ^ 6)"

lemma dec_value_simps [simp]:
  "dec_value_from acc [] = acc"
  "dec_value_from acc (c # s) = dec_value_from (acc * 10 + (of_char c - 48)) s"
  "dec_value_from acc (s @ t) = dec_value_from (dec_value_from acc s) t"
  by (simp_all add: dec_value_from_def)

lemma dec_value_mono: "acc \<le> dec_value_from acc s"
proof (induction s arbitrary: acc)
  case (Cons c s)
  have "acc \<le> acc * 10 + (of_char c - 48)" by simp
  also have "\<dots> \<le> dec_value_from acc (c # s)" using Cons.IH by simp
  finally show ?case .
qed simp

lemma of_char_digit [simp]: "d < 10 \<Longrightarrow> (of_char (digit_char d) :: nat) = 48 + d"
  by (simp add: digit_char_def)

lemma is_digit_char [simp]: "d < 10 \<Longrightarrow> is_digit (digit_char d)"
  by (simp add: is_digit_def)

lemma digit_value_digit: "is_digit c \<Longrightarrow> digit_value 10 c = Some (of_char c - 48)"
  by (auto simp: digit_value_def is_digit_def Let_def)

lemma digit_distinct:
  assumes "is_digit c" shows "c \<noteq> CHR ''.''" "c \<noteq> CHR ''+''" "\<not> is_continuation c"
  using assms by (auto simp: is_digit_def is_continuation_def)

lemma parse_digits_value:
  "list_all is_digit s \<Longrightarrow> acc < 2 ^ 64 \<Longrightarrow>
   parse_digits 10 acc s = (if dec_value_from acc s < 2 ^ 64 then Some (dec_value_from acc s) else None)"
proof (induction s arbitrary: acc)
  case (Cons c s)
  let ?a = "acc * 10 + (of_char c - 48)"
  show ?case
  proof (cases "?a < 2 ^ 64")
    case True
    then show ?thesis using Cons by (simp add: digit_value_digit)
  next
    case False
    then have "\<not> dec_value_from ?a s < 2 ^ 64" using dec_value_mono [of ?a s] by linarith
    with False Cons.prems show ?thesis by (simp add: digit_value_digit)
  qed
qed simp

lemma parse_u64_value:
  assumes "list_all is_digit s" "s \<noteq> []"
  shows "parse_u64 10 s = (if dec_value s < 2 ^ 64 then Some (dec_value s) else None)"
proof -
  obtain c cs where s: "s = c # cs" using assms(2) by (cases s) auto
  then have "c \<noteq> CHR ''+''" using assms(1) digit_distinct by auto
  then have "parse_u64 10 s = parse_digits 10 0 s" by (simp add: parse_u64_def s)
  then show ?thesis using parse_digits_value [OF assms(1), of 0] by simp
qed

lemma split_on_none: "c \<notin> set s \<Longrightarrow> split_on c s = [s]"
  by (induction s) auto

lemma split_on_one: "c \<notin> set s \<Longrightarrow> c \<notin> set t \<Longrightarrow> split_on c (s @ c # t) = [s, t]"
  by (induction s) (auto simp: split_on_none)

lemma dot_not_digits: "list_all is_digit s \<Longrightarrow> CHR ''.'' \<notin> set s"
  using digit_distinct(1) by (auto simp: list_all_iff)

lemma char_count_digits: "list_all is_digit s \<Longrightarrow> char_count s = length s"
  using digit_distinct(3) by (simp add: char_count_def list_all_iff)

definition six_digits :: "string \<Rightarrow> string" where
  "six_digits f = take 6 (f @ replicate 6 (CHR ''0''))"

lemma is_digit_0 [simp]: "is_digit (CHR ''0'')"
  by (simp add: is_digit_def)

lemma list_all_replicate: "P x \<Longrightarrow> list_all P (replicate n x)"
  by (simp add: list_all_iff)

lemma six_digits_props:
  assumes "list_all is_digit f"
  shows "slice_to 6 (pad_zeros 6 f) = Inr (six_digits f)" "list_all is_digit (six_digits f)"
    "length (six_digits f) = 6"
proof -
  have all: "list_all is_digit (pad_zeros 6 f)"
    using assms by (simp add: pad_zeros_def list_all_replicate)
  have "n < length (pad_zeros 6 f) \<Longrightarrow> \<not> is_continuation (pad_zeros 6 f ! n)" for n
    using all digit_distinct(3) by (auto simp: list_all_iff)
  moreover have "6 \<le> length (pad_zeros 6 f)"
    using assms by (simp add: pad_zeros_def char_count_digits)
  moreover have "take 6 (pad_zeros 6 f) = six_digits f"
    using assms by (simp add: pad_zeros_def six_digits_def char_count_digits take_replicate min_def)
  ultimately show "slice_to 6 (pad_zeros 6 f) = Inr (six_digits f)"
    by (auto simp: slice_to_def)
  show "list_all is_digit (six_digits f)"
    using assms by (auto simp: six_digits_def list_all_iff dest!: in_set_takeD)
  show "length (six_digits f) = 6" by (simp add: six_digits_def)
qed

lemma dec_value_bound: "list_all is_digit s \<Longrightarrow> dec_value s < 10 ^ length s"
proof (induction s rule: rev_induct)
  case (snoc c s)
  then have "of_char c - 48 < (10 :: nat)" by (auto simp: is_digit_def)
  with snoc show ?case by auto
qed simp

text \<open>What the parser makes of any string of digits with or without a fraction: the fraction is cut
  to six digits, and the sum wraps at 64 bits.\<close>

lemma usdc_amount_exact:
  assumes "list_all is_digit w" "w \<noteq> []" "list_all is_digit f"
  shows "parse_usdc_amount (w @ ''.'' @ f) =
     (if dec_value w < 2 ^ 64
      then Inr (of_nat ((dec_value w * 10 ^ 6 + dec_value (six_digits f)) mod 2 ^ 64))
      else Inl (Error ''Invalid whole part''))"
proof -
  note six = six_digits_props [OF assms(3)]
  have "dec_value (six_digits f) < 10 ^ 6"
    using dec_value_bound [OF six(2)] six(3) by simp
  then have "parse_u64 10 (six_digits f) = Some (dec_value (six_digits f))"
    using parse_u64_value [OF six(2)] six(3) by (cases "six_digits f") auto
  moreover have "ucast (of_nat w' * 10 ^ 6 + of_nat d :: 64 word)
      = (of_nat ((w' * 10 ^ 6 + d) mod 2 ^ 64) :: u256)" for w' d :: nat
  proof -
    have "(of_nat w' * 10 ^ 6 + of_nat d :: 64 word) = of_nat (w' * 10 ^ 6 + d)" by simp
    moreover have "unat (of_nat (w' * 10 ^ 6 + d) :: 64 word) = (w' * 10 ^ 6 + d) mod 2 ^ 64"
      by (simp only: unat_of_nat) simp
    ultimately show ?thesis by (metis of_nat_unat)
  qed
  ultimately show ?thesis
    using six(1) parse_u64_value [OF assms(1,2)] dot_not_digits [OF assms(1)] dot_not_digits [OF assms(3)]
    by (simp add: parse_usdc_amount_def split_on_one usdc_decimals_def del: of_nat_add of_nat_mult)
qed

lemma decimal_digits: "list_all is_digit (decimal n) \<and> decimal n \<noteq> [] \<and> dec_value (decimal n) = n"
proof (induction n rule: decimal.induct)
  case (1 n)
  show ?case using "1.IH" by (subst (1 2 3) decimal.simps) auto
qed

lemma decimal_fixed_digits:
  "list_all is_digit (decimal_fixed k n) \<and> length (decimal_fixed k n) = k
   \<and> dec_value (decimal_fixed k n) = n mod 10 ^ k"
proof (induction k arbitrary: n)
  case (Suc k)
  then show ?case by (simp add: mod_mult2_eq mult.commute)
qed simp

lemma parse_format_usdc:
  assumes "a < 2 ^ 64"
  shows "parse_usdc_amount (format_usdc a) = Inr (of_nat a)"
proof -
  let ?w = "a div 10 ^ 6" and ?f = "decimal_fixed 6 (a mod 10 ^ 6)"
  have "?w < 2 ^ 64" using assms by (metis div_le_dividend le_less_trans)
  moreover have "six_digits ?f = ?f" using decimal_fixed_digits by (simp add: six_digits_def)
  moreover have "(?w * 10 ^ 6 + a mod 10 ^ 6) mod 2 ^ 64 = a" using assms by simp
  ultimately show ?thesis
    using usdc_amount_exact [of "decimal ?w" ?f] decimal_digits [of ?w] decimal_fixed_digits [of 6 "a mod 10 ^ 6"]
    by (simp add: format_usdc_def)
qed

text \<open>The amount parser inverts the printer with six decimals: every amount below \<open>2 ^ 64\<close>
  micro-USDC is read back exactly from its decimal form.\<close>

theorem usdc_amount_roundtrip:
  assumes "a < 2 ^ 64"
  shows "parse_usdc_amount (format_usdc a) = Inr (of_nat a)"
  using assms by (rule parse_format_usdc)

theorem usdc_amount_roundtrip_witness:
  "parse_usdc_amount (format_usdc 1500000) = Inr 1500000"
  using usdc_amount_roundtrip [of 1500000] by simp

lemma usdc_amount_wraps:
  "parse_usdc_amount ''18446744073710.0'' = Inr 448384"
proof -
  have "six_digits ''0'' = ''000000''" by (simp add: six_digits_def numeral_eq_Suc)
  then show ?thesis
    using usdc_amount_exact [of "''18446744073710''" "''0''"] by (simp add: is_digit_def)
qed

section \<open>The retry loop\<close>

text \<open>The world before the attempt that follows \<open>k\<close> refusals.\<close>

fun after_refusals :: "('w, 'z) net_scheme \<Rightarrow> safe_client_config \<Rightarrow> safe_transaction \<Rightarrow> 'w \<Rightarrow> nat \<Rightarrow> 'w" where
  "after_refusals net cfg tx w 0 = w"
| "after_refusals net cfg tx w (Suc k) =
     sleep net (retry_delay_ms * millisecond) (snd (send_once net cfg tx (after_refusals net cfg tx w k)))"

definition refused :: "(fault + (string + string)) \<Rightarrow> bool" where
  "refused answer = (case answer of Inr (Inl e) \<Rightarrow> is_retryable e | _ \<Rightarrow> False)"

definition final_answer :: "(fault + (string + string)) \<Rightarrow> fault + string" where
  "final_answer answer =
     (case answer of Inl f \<Rightarrow> Inl f | Inr (Inl e) \<Rightarrow> Inl (Error e) | Inr (Inr h) \<Rightarrow> Inr h)"

lemma after_refusals_shift:
  "after_refusals net cfg tx w (Suc k) =
   after_refusals net cfg tx (sleep net (retry_delay_ms * millisecond) (snd (send_once net cfg tx w))) k"
  by (induction k) simp_all

lemma execute_attempts_step:
  assumes "attempt \<le> max_retries"
  shows "execute_attempts net cfg tx (attempt # rest) w =
    (let (answer, w') = send_once net cfg tx w in
     if refused answer \<and> attempt < max_retries
     then execute_attempts net cfg tx rest (sleep net (retry_delay_ms * millisecond) w')
     else (final_answer answer, w'))"
  by (auto simp: refused_def final_answer_def split: prod.split sum.split)

lemma execute_attempts_bounded:
  assumes "n \<le> max_retries" "0 < n"
  shows "\<exists>k<n.
      (\<forall>j<k. refused (fst (send_once net cfg tx (after_refusals net cfg tx w j))))
      \<and> (k = n - 1 \<or> \<not> refused (fst (send_once net cfg tx (after_refusals net cfg tx w k))))
      \<and> execute_attempts net cfg tx [Suc max_retries - n..<Suc max_retries] w =
         (final_answer (fst (send_once net cfg tx (after_refusals net cfg tx w k))),
          snd (send_once net cfg tx (after_refusals net cfg tx w k)))"
  using assms
proof (induction n arbitrary: w)
  case (Suc n)
  obtain answer w' where one: "send_once net cfg tx w = (answer, w')" by fastforce
  let ?next = "sleep net (retry_delay_ms * millisecond) w'"
  have upt: "[Suc max_retries - Suc n..<Suc max_retries]
      = (max_retries - n) # [Suc max_retries - n..<Suc max_retries]"
    using Suc.prems by (simp add: upt_rec Suc_diff_le)
  have step: "execute_attempts net cfg tx [Suc max_retries - Suc n..<Suc max_retries] w =
      (if refused answer \<and> 0 < n
       then execute_attempts net cfg tx [Suc max_retries - n..<Suc max_retries] ?next
       else (final_answer answer, w'))"
    unfolding upt using Suc.prems by (subst execute_attempts_step) (auto simp: one)
  show ?case
  proof (cases "refused answer \<and> 0 < n")
    case True
    have shift: "after_refusals net cfg tx ?next j = after_refusals net cfg tx w (Suc j)" for j
      by (simp only: after_refusals_shift one snd_conv)
    from Suc.IH [of ?next] Suc.prems True obtain k where k: "k < n"
      "\<forall>j<k. refused (fst (send_once net cfg tx (after_refusals net cfg tx w (Suc j))))"
      "k = n - 1 \<or> \<not> refused (fst (send_once net cfg tx (after_refusals net cfg tx w (Suc k))))"
      "execute_attempts net cfg tx [Suc max_retries - n..<Suc max_retries] ?next =
         (final_answer (fst (send_once net cfg tx (after_refusals net cfg tx w (Suc k)))),
          snd (send_once net cfg tx (after_refusals net cfg tx w (Suc k))))"
      unfolding shift by auto
    have "\<forall>j<Suc k. refused (fst (send_once net cfg tx (after_refusals net cfg tx w j)))"
      using k(2) True one by (auto simp: less_Suc_eq_0_disj)
    then show ?thesis using k True step by (intro exI [of _ "Suc k"]) auto
  next
    case False
    then show ?thesis using step one by (intro exI [of _ 0]) auto
  qed
qed simp

text \<open>C23. The retry loop of a Safe transaction ends after at most ten attempts: there is an attempt
  before which every attempt was answered with a nonce error, whose answer is the result of the
  call, and that is the tenth only if no earlier one was accepted, failed otherwise, or was cut
  short by an error of its own.  The error after the loop is never reached.\<close>

theorem safe_execution_bounded:
  "\<exists>k<10.
     (\<forall>j<k. refused (fst (send_once net cfg tx (after_refusals net cfg tx w j))))
     \<and> (k = 9 \<or> \<not> refused (fst (send_once net cfg tx (after_refusals net cfg tx w k))))
     \<and> execute_safe_transaction net cfg w tx =
        (final_answer (fst (send_once net cfg tx (after_refusals net cfg tx w k))),
         snd (send_once net cfg tx (after_refusals net cfg tx w k)))"
  using execute_attempts_bounded [of 10 net cfg tx w]
  by (simp add: execute_safe_transaction_def max_retries_def)

section \<open>The confirmation loop\<close>

fun after_polls :: "('w, 'z) net_scheme \<Rightarrow> string \<Rightarrow> 'w \<Rightarrow> nat \<Rightarrow> 'w" where
  "after_polls net tx_hash w 0 = w"
| "after_polls net tx_hash w (Suc k) =
     sleep net (int poll_interval_secs * second)
       (snd (get_transaction_receipt net (after_polls net tx_hash w k) tx_hash))"

definition receipt_at :: "('w, 'z) net_scheme \<Rightarrow> string \<Rightarrow> 'w \<Rightarrow> nat \<Rightarrow> transaction_receipt option" where
  "receipt_at net tx_hash w k =
     (case fst (get_transaction_receipt net (after_polls net tx_hash w k) tx_hash) of
        Inr (Some r) \<Rightarrow> Some r | _ \<Rightarrow> None)"

lemma after_polls_shift:
  "after_polls net tx_hash w (Suc k) =
   after_polls net tx_hash
     (sleep net (int poll_interval_secs * second) (snd (get_transaction_receipt net w tx_hash))) k"
  by (induction k) simp_all

lemma wait_iterations_first:
  "fst (wait_iterations net tx_hash n w) =
   (case map_option (\<lambda>k. the (receipt_at net tx_hash w k))
           (List.find (\<lambda>k. receipt_at net tx_hash w k \<noteq> None) [0..<n]) of
      None \<Rightarrow> TxTimeout tx_hash | Some r \<Rightarrow> confirmation_of tx_hash r)"
proof (induction n arbitrary: w)
  case (Suc n)
  obtain answer w' where one: "get_transaction_receipt net w tx_hash = (answer, w')" by fastforce
  let ?next = "sleep net (int poll_interval_secs * second) w'"
  have shift: "receipt_at net tx_hash ?next k = receipt_at net tx_hash w (Suc k)" for k
    by (simp only: receipt_at_def after_polls_shift one snd_conv)
  have find: "List.find (\<lambda>k. P k) [0..<Suc n] =
      (if P 0 then Some 0 else map_option Suc (List.find (\<lambda>k. P (Suc k)) [0..<n]))" for P
  proof -
    have "List.find P (map Suc xs) = map_option Suc (List.find (\<lambda>k. P (Suc k)) xs)" for xs
      by (induction xs) auto
    then show ?thesis by (simp add: upt_conv_Cons map_Suc_upt [symmetric] del: upt_Suc)
  qed
  show ?case
  proof (cases "receipt_at net tx_hash w 0")
    case None
    then have "fst (wait_iterations net tx_hash (Suc n) w) = fst (wait_iterations net tx_hash n ?next)"
      by (simp add: receipt_at_def one split: sum.splits option.splits)
    then show ?thesis
      by (simp add: Suc.IH find None shift option.map_comp o_def del: wait_iterations.simps upt_Suc)
  next
    case (Some r)
    then show ?thesis
      by (simp add: find del: upt_Suc) (simp add: receipt_at_def one split: sum.splits option.splits)
  qed
qed simp

text \<open>Waiting for a transaction polls at most half as often as the limit has seconds and then
  ends: the answer is decided by the first poll that finds a receipt, success exactly if its status
  is \<open>0x1\<close> and failure otherwise, and it is a timeout exactly if none of these polls finds one,
  so with a limit of one second the code reports a timeout without asking at all.\<close>

theorem confirmation_of_first_receipt:
  "fst (wait_for_transaction net cfg w tx_hash limit) =
    (if \<forall>k < unwrap_or limit (unwrap_or (sc_max_wait_secs cfg) 120) div 2. receipt_at net tx_hash w k = None then TxTimeout tx_hash
     else confirmation_of tx_hash
       (the (receipt_at net tx_hash w (LEAST k. receipt_at net tx_hash w k \<noteq> None))))"
proof -
  let ?n = "unwrap_or limit (unwrap_or (sc_max_wait_secs cfg) 120) div 2"
  let ?P = "\<lambda>k. receipt_at net tx_hash w k \<noteq> None"
  have w: "fst (wait_for_transaction net cfg w tx_hash limit)
      = fst (wait_iterations net tx_hash ?n w)"
    by (simp add: wait_for_transaction_def default_max_wait_secs_def poll_interval_secs_def)
  have least: "List.find P [0..<n] = (if \<forall>k<n. \<not> P k then None else Some (LEAST k. P k))"
    for n and P :: "nat \<Rightarrow> bool"
  proof (cases "\<forall>k<n. \<not> P k")
    case False
    then obtain k where "k < n" "P k" by blast
    then have "(LEAST k. P k) < n" "P (LEAST k. P k)"
      using LeastI [of P k] Least_le [of P k] by (blast intro: le_less_trans)+
    moreover have "\<forall>j < (LEAST k. P k). \<not> P j" by (blast dest: not_less_Least)
    moreover have "List.find P [0..<n] = Some m" if "m < n" "P m" "\<forall>j<m. \<not> P j" for m
      unfolding find_Some_iff using that by (intro exI [of _ m]) simp
    ultimately have "List.find P [0..<n] = Some (LEAST k. P k)" by blast
    then show ?thesis using False by simp
  qed (simp add: find_None_iff)
  have pick: "(case map_option f (if A then None else Some m) of None \<Rightarrow> t | Some r \<Rightarrow> g r)
      = (if A then t else g (f m))" for A and f :: "nat \<Rightarrow> 'x" and m t and g :: "'x \<Rightarrow> 'y"
    by simp
  show ?thesis unfolding w wait_iterations_first least not_not by (rule pick)
qed

section \<open>A concrete network\<close>

text \<open>The world counts requests: two transactions are refused with a nonce error, and the receipt
  is found by the third poll.\<close>

definition demo_chain :: "nat net" where
  "demo_chain =
     \<lparr>post_eth_call = (\<lambda>w to d. (Inr \<lparr>jr_result = Some [], jr_error = None\<rparr>, w)),
      post_receipt = (\<lambda>w h. (Inr \<lparr>rr_result = if w < 2 then None
        else Some \<lparr>tr_block_number = Some ''0x2A'', tr_status = Some ''0x1''\<rparr>, rr_error = None\<rparr>, Suc w)),
      provider_send = (\<lambda>w to d. (if w < 2 then Inl ''nonce'' else Inr ''hash'', Suc w)),
      sleep = (\<lambda>d w. w), sign_message = (\<lambda>h. Inr (replicate 64 0 @ [27])), abi_encode = (\<lambda>c. []),
      hex_decode = (\<lambda>s. Inr (replicate 32 0)), u256_of_decimal = (\<lambda>s. Inr 0), parse_url = (\<lambda>s. None)\<rparr>"

definition demo_safe :: safe_client_config where
  "demo_safe = \<lparr>sc_rpc_url = [], sc_chain_id = 137, sc_safe_address = [], sc_max_wait_secs = None\<rparr>"

lemma demo_send_once:
  "send_once demo_chain demo_safe tx w =
     (Inr (if w < 2 then Inl (''Failed to send transaction: '' @ ''nonce'') else Inr ''hash''), Suc w)"
proof -
  have call: "eth_call demo_chain w to d = (Inr (replicate 32 0), w)" for to d
    by (simp add: eth_call_def demo_chain_def)
  have sign: "sign_safe_tx_hash demo_chain h = Inr ((replicate 64 0 @ [27])[64 := 31])" for h
    by (simp add: sign_safe_tx_hash_def demo_chain_def nth_append)
  show ?thesis
    by (simp add: send_once_def get_safe_nonce_def get_transaction_hash_def call sign
        send_transaction_def) (simp add: demo_chain_def demo_safe_def)
qed

lemma demo_after: "after_refusals demo_chain demo_safe tx w k = w + k"
  by (induction k) (simp_all add: demo_send_once, simp_all add: demo_chain_def)

lemma demo_refused: "refused (fst (send_once demo_chain demo_safe tx w)) = (w < 2)"
  by (simp add: demo_send_once refused_def is_retryable_def)

theorem safe_execution_bounded_witness:
  "execute_safe_transaction demo_chain demo_safe 0 (call_transaction [] []) = (Inr ''hash'', 3)"
proof -
  let ?tx = "call_transaction [] []"
  obtain k where k: "\<forall>j<k. j < 2" "k = 9 \<or> \<not> k < 2"
    and run: "execute_safe_transaction demo_chain demo_safe 0 ?tx =
      (final_answer (fst (send_once demo_chain demo_safe ?tx k)), snd (send_once demo_chain demo_safe ?tx k))"
    using safe_execution_bounded [of demo_chain demo_safe ?tx 0] by (auto simp: demo_after demo_refused)
  have "\<not> 2 < k" using k(1) by blast
  with k(2) have "k = 2" by linarith
  then show ?thesis using run by (simp add: demo_send_once final_answer_def)
qed

lemma demo_polls: "after_polls demo_chain h w k = w + k"
  by (induction k) (simp_all add: get_transaction_receipt_def, simp_all add: demo_chain_def)

lemma demo_receipt:
  "receipt_at demo_chain h 0 k =
     (if k < 2 then None else Some \<lparr>tr_block_number = Some ''0x2A'', tr_status = Some ''0x1''\<rparr>)"
  by (simp add: receipt_at_def demo_polls get_transaction_receipt_def) (simp add: demo_chain_def)

theorem confirmation_of_first_receipt_witness:
  "fst (wait_for_transaction demo_chain demo_safe 0 ''hash'' None) = TxSuccess ''hash'' 42
   \<and> fst (wait_for_transaction demo_chain demo_safe 0 ''hash'' (Some 5)) = TxTimeout ''hash''"
proof -
  have least: "(LEAST k. receipt_at demo_chain ''hash'' 0 k \<noteq> None) = 2"
    by (rule Least_equality) (auto simp: demo_receipt split: if_splits)
  have found: "\<not> (\<forall>k < 60. receipt_at demo_chain ''hash'' 0 k = None)" by (auto simp: demo_receipt)
  have none: "\<forall>k < 2. receipt_at demo_chain ''hash'' 0 k = None" by (simp add: demo_receipt)
  have "confirmation_of ''hash'' \<lparr>tr_block_number = Some ''0x2A'', tr_status = Some ''0x1''\<rparr> = TxSuccess ''hash'' 42"
    by (simp add: confirmation_of_def parse_u64_def digit_value_def Let_def)
  then have first: "confirmation_of ''hash'' (the (receipt_at demo_chain ''hash'' 0 2)) = TxSuccess ''hash'' 42"
    by (simp add: demo_receipt)
  have limits: "unwrap_or None (unwrap_or (sc_max_wait_secs demo_safe) 120) div 2 = 60"
    "unwrap_or (Some 5) (unwrap_or (sc_max_wait_secs demo_safe) 120) div 2 = 2"
    by (simp_all add: demo_safe_def)
  show ?thesis
    unfolding confirmation_of_first_receipt limits least if_not_P [OF found] if_P [OF none] first
    by simp
qed

section \<open>The operations\<close>

lemma signature_marked:
  assumes "sign_safe_tx_hash net h = Inr sig"
  shows "sig ! 64 \<in> {31, 32} \<and> (\<exists>raw. sign_message net h = Inr raw \<and> length sig = length raw
    \<and> (\<forall>i < length raw. i \<noteq> 64 \<longrightarrow> sig ! i = raw ! i))"
  using assms by (auto simp: sign_safe_tx_hash_def Let_def split: sum.splits if_splits)

lemma parsed_amount_narrow: "parse_usdc_amount s = Inr a \<Longrightarrow> unat a < 2 ^ 64"
proof -
  have "unat (ucast x :: u256) < 2 ^ 64" for x :: "64 word"
  proof -
    have lt: "unat x < 2 ^ 64" using unsigned_less [of x] by simp
    have "unat (ucast x :: u256) = unat (of_nat (unat x) :: u256)" by (simp only: of_nat_unat)
    also have "\<dots> = unat x" using lt by (simp only: unat_of_nat) (simp del: of_nat_unat)
    finally show ?thesis using lt by simp
  qed
  then show "parse_usdc_amount s = Inr a \<Longrightarrow> unat a < 2 ^ 64"
    by (auto simp: parse_usdc_amount_def Let_def split: if_splits option.splits sum.splits prod.splits)
qed

text \<open>An operation on parsed strings never panics on the size of the amount.\<close>

lemma split_usdc_parsed:
  assumes "parse_bytes32 (hex_decode net) c = Inr cid" "parse_usdc_amount s = Inr a"
  shows "split_usdc net cfg w c s neg =
    execute_safe_transaction net cfg w (split_transaction net cid a neg)"
  using assms parsed_amount_narrow [OF assms(2)] by (simp add: split_usdc_def split_position_def)

lemma merge_usdc_parsed:
  assumes "parse_bytes32 (hex_decode net) c = Inr cid" "parse_usdc_amount s = Inr a"
  shows "merge_usdc net cfg w c s neg =
    execute_safe_transaction net cfg w (merge_transaction net cid a neg)"
  using assms parsed_amount_narrow [OF assms(2)] by (simp add: merge_usdc_def merge_positions_def)

text \<open>Both kinds of market are split and merged by the same call with the same arguments; only the
  contract that receives it differs.\<close>

lemma neg_risk_only_changes_target:
  "tx_data (split_transaction net c a True) = tx_data (split_transaction net c a False)"
  "tx_data (merge_transaction net c a True) = tx_data (merge_transaction net c a False)"
  by (simp_all add: split_transaction_def merge_transaction_def call_transaction_def
      encode_split_neg_risk_def encode_split_def encode_merge_neg_risk_def encode_merge_def)

lemma built_transactions_typed:
  assumes "\<And>call. length (abi_encode net call) < 2 ^ 64"
  shows "tx_typed (split_transaction net c a neg)" "tx_typed (merge_transaction net c a neg)"
  using assms
  by (simp_all add: split_transaction_def merge_transaction_def call_transaction_def tx_typed_def
      neg_risk_adapter_address_def ctf_address_def encode_split_neg_risk_def encode_split_def
      encode_merge_neg_risk_def encode_merge_def)

end
