(* ===== verification/Merge_Executor.thy ===== *)
theory Merge_Executor
  imports Safe_Client Redemption
begin

text \<open>
  The merge executor of the Polymarket poller, \<open>execution/polymarket/poller/merge_executor.rs\<close>,
  \<open>merge_config.rs\<close>, \<open>merge_metrics.rs\<close> and \<open>data_api.rs\<close>: requests are collected per market, a
  cycle drains them and executes each one through the Safe client: read both balances, merge the
  smaller one, wait for the confirmation and for the index, report.  The requests to the CLOB, the
  Data API and the event coordinator are fields of \<open>venue\<close>, which extends the outside world of the
  Safe client.  \<open>format6\<close> is Rust's \<open>format!("{:.6}", x)\<close>.
\<close>

section \<open>The outside world\<close>

text \<open>An activity is the hash under \<open>transactionHash\<close> or else \<open>hash\<close>, when that is a string.\<close>

type_synonym activity = "string option"

record 'w venue = "'w net" +
  get_neg_risk :: "'w \<Rightarrow> string \<Rightarrow> (string + bool) \<times> 'w"
  get_activities :: "'w \<Rightarrow> string \<Rightarrow> (string + activity list) \<times> 'w"
  update_balance_allowance :: "'w \<Rightarrow> (string + unit) \<times> 'w"
  offer_redemption :: "redemption_event \<Rightarrow> 'w \<Rightarrow> 'w"
  utc_now :: "'w \<Rightarrow> timestamp"
  show_address :: "address \<Rightarrow> string"

section \<open>State\<close>

record merge_config =
  auto_merge_min_amount :: f64
  merge_confirmation_timeout_secs :: nat
  merge_indexing_max_attempts :: nat

definition default_merge_config :: merge_config where
  "default_merge_config = \<lparr>auto_merge_min_amount = f1, merge_confirmation_timeout_secs = 60,
     merge_indexing_max_attempts = 60\<rparr>"

record merge_metrics =
  merges_executed :: nat
  merge_failures :: nat

record merge_executor =
  me_safe :: safe_client_config
  me_pending_merges :: "(string, redemption_action) hmap"
  me_config :: merge_config
  me_metrics :: merge_metrics

definition request_merge :: "merge_executor \<Rightarrow> redemption_action \<Rightarrow> merge_executor" where
  "request_merge me action =
     me\<lparr>me_pending_merges := hput (ra_market action) action (me_pending_merges me)\<rparr>"

definition has_pending_merges :: "merge_executor \<Rightarrow> bool" where
  "has_pending_merges me = (me_pending_merges me \<noteq> [])"

definition pending_merge_count :: "merge_executor \<Rightarrow> nat" where
  "pending_merge_count me = length (me_pending_merges me)"

section \<open>Formatting and lookups\<close>

definition format6_rat :: "rat \<Rightarrow> string" where
  "format6_rat q = (if q < 0 then ''-'' else []) @ format_usdc (nat (rne (\<bar>q\<bar> * 10 ^ 6)))"

fun format6 :: "f64 \<Rightarrow> string" where
  "format6 NaN = ''NaN''"
| "format6 PosInf = ''inf''"
| "format6 NegInf = ''-inf''"
| "format6 (Fin q) = format6_rat q"

definition lower_ascii :: "char \<Rightarrow> char" where
  "lower_ascii c = (let n = (of_char c :: nat) in if 65 \<le> n \<and> n \<le> 90 then char_of (n + 32) else c)"

definition eq_ignore_ascii_case :: "string \<Rightarrow> string \<Rightarrow> bool" where
  "eq_ignore_ascii_case a b = (map lower_ascii a = map lower_ascii b)"

definition activity_found :: "string \<Rightarrow> activity list \<Rightarrow> bool" where
  "activity_found tx_hash activities =
     list_ex (\<lambda>h. case h of None \<Rightarrow> False | Some a \<Rightarrow> eq_ignore_ascii_case a tx_hash) activities"

fun index_attempts :: "('w, 'z) venue_scheme \<Rightarrow> string \<Rightarrow> string \<Rightarrow> nat \<Rightarrow> 'w \<Rightarrow> bool \<times> 'w" where
  "index_attempts v wallet tx_hash 0 w = (False, w)"
| "index_attempts v wallet tx_hash (Suc n) w =
     (case get_activities v w wallet of
        (Inr activities, w') \<Rightarrow>
          if activity_found tx_hash activities then (True, w')
          else index_attempts v wallet tx_hash n (sleep v second w')
      | (Inl e, w') \<Rightarrow> index_attempts v wallet tx_hash n (sleep v second w'))"

definition wait_for_merge_indexed ::
  "('w, 'z) venue_scheme \<Rightarrow> string \<Rightarrow> string \<Rightarrow> nat \<Rightarrow> 'w \<Rightarrow> bool \<times> 'w" where
  "wait_for_merge_indexed v wallet tx_hash max_attempts w =
     index_attempts v wallet tx_hash max_attempts w"

section \<open>Executing one merge\<close>

text \<open>The second component of a result lists the events offered to the coordinator; a refusal by the
  coordinator is only logged.\<close>

definition merge_event :: "redemption_action \<Rightarrow> f64 \<Rightarrow> timestamp \<Rightarrow> redemption_event" where
  "merge_event action qty now = RedemptionCompleted
     \<lparr>rc_market = ra_market action, rc_up_asset_id = ra_up_asset_id action,
      rc_down_asset_id = ra_down_asset_id action, rc_quantity = qty,
      rc_quote_received = qty, rc_timestamp = now\<rparr>"

definition emit_redemption_completed ::
  "('w, 'z) venue_scheme \<Rightarrow> redemption_action \<Rightarrow> f64 \<Rightarrow> 'w \<Rightarrow> redemption_event list \<times> 'w" where
  "emit_redemption_completed v action qty w =
     (let ev = merge_event action qty (utc_now v w) in ([ev], offer_redemption v ev w))"

definition count_executed :: "merge_executor \<Rightarrow> merge_executor" where
  "count_executed me = me\<lparr>me_metrics := me_metrics me\<lparr>merges_executed := Suc (merges_executed (me_metrics me))\<rparr>\<rparr>"

definition count_failure :: "merge_executor \<Rightarrow> merge_executor" where
  "count_failure me = me\<lparr>me_metrics := me_metrics me\<lparr>merge_failures := Suc (merge_failures (me_metrics me))\<rparr>\<rparr>"

text \<open>Both branches of the index refresh the balance, whose failure is only logged, and report.\<close>

definition handle_merge_confirmation ::
  "('w, 'z) venue_scheme \<Rightarrow> merge_executor \<Rightarrow> redemption_action \<Rightarrow> f64 \<Rightarrow> transaction_confirmation \<Rightarrow> 'w \<Rightarrow>
   merge_executor \<times> redemption_event list \<times> 'w" where
  "handle_merge_confirmation v me action qty confirmation w =
     (case confirmation of
        TxSuccess tx_hash block_number \<Rightarrow>
          (case wait_for_merge_indexed v (show_address v (sc_safe_address (me_safe me))) tx_hash
                  (merge_indexing_max_attempts (me_config me)) w of
             (indexed, w1) \<Rightarrow>
               (case update_balance_allowance v w1 of
                  (refreshed, w2) \<Rightarrow>
                    (case emit_redemption_completed v action qty w2 of
                       (evs, w3) \<Rightarrow> (count_executed me, evs, w3))))
      | TxFailed tx_hash block_number \<Rightarrow> (count_failure me, [], w)
      | TxTimeout tx_hash \<Rightarrow> (me, [], w))"

definition execute_merge ::
  "('w, 'z) venue_scheme \<Rightarrow> merge_executor \<Rightarrow> redemption_action \<Rightarrow> 'w \<Rightarrow>
   (fault + unit) \<times> merge_executor \<times> redemption_event list \<times> 'w" where
  "execute_merge v me action w =
     (case get_ctf_balance v (me_safe me) w (ra_up_asset_id action) of
        (Inl e, w) \<Rightarrow> (Inl e, me, [], w)
      | (Inr up_qty, w) \<Rightarrow>
     (case get_ctf_balance v (me_safe me) w (ra_down_asset_id action) of
        (Inl e, w) \<Rightarrow> (Inl e, me, [], w)
      | (Inr down_qty, w) \<Rightarrow>
          let min_amount = fmin up_qty down_qty in
          if flt min_amount (auto_merge_min_amount (me_config me)) then (Inr (), me, [], w)
          else
     (case get_neg_risk v w (ra_up_asset_id action) of
        (Inl e, w) \<Rightarrow> (Inl (Error (''Failed to query neg_risk: '' @ e)), me, [], w)
      | (Inr neg_risk, w) \<Rightarrow>
     (case merge_usdc v (me_safe me) w (ra_market action) (format6 min_amount) neg_risk of
        (Inl (Panic p), w) \<Rightarrow> (Inl (Panic p), me, [], w)
      | (Inl (Error e), w) \<Rightarrow> (Inr (), count_failure me, [], w)
      | (Inr tx_hash, w) \<Rightarrow>
     (case wait_for_transaction v (me_safe me) w tx_hash
             (Some (merge_confirmation_timeout_secs (me_config me))) of
        (confirmation, w) \<Rightarrow>
     (case handle_merge_confirmation v me action min_amount confirmation w of
        (me', evs, w) \<Rightarrow> (Inr (), me', evs, w)))))))"

text \<open>A cycle drains the map; an error of one merge is logged and the next one follows.  A panic
  ends the task.\<close>

fun process_actions ::
  "('w, 'z) venue_scheme \<Rightarrow> merge_executor \<Rightarrow> redemption_action list \<Rightarrow> 'w \<Rightarrow>
   string option \<times> merge_executor \<times> redemption_event list \<times> 'w" where
  "process_actions v me [] w = (None, me, [], w)"
| "process_actions v me (action # actions) w =
     (case execute_merge v me action w of
        (Inl (Panic p), me', evs, w') \<Rightarrow> (Some p, me', evs, w')
      | (r, me', evs, w') \<Rightarrow>
          (case process_actions v me' actions w' of
             (p, me'', evs', w'') \<Rightarrow> (p, me'', evs @ evs', w'')))"

definition process_pending_merges ::
  "('w, 'z) venue_scheme \<Rightarrow> merge_executor \<Rightarrow> 'w \<Rightarrow>
   string option \<times> merge_executor \<times> redemption_event list \<times> 'w" where
  "process_pending_merges v me w =
     process_actions v (me\<lparr>me_pending_merges := []\<rparr>) (hvals (me_pending_merges me)) w"

section \<open>Amounts survive the detour through binary64\<close>

text \<open>A balance of \<open>n\<close> millionths of a dollar as the double the code computes from it.\<close>

definition usdc :: "nat \<Rightarrow> f64" where
  "usdc n = fdiv (f_int (int n)) (f_lit 1000000)"

lemma rnd_relative_error:
  assumes "1 / 2 ^ 1000 \<le> q"
  shows "\<bar>rnd q - q\<bar> \<le> q / 2 ^ 53"
proof -
  have q: "0 < q" using assms by (rule less_le_trans [rotated]) simp
  note s = ilog2_spec [OF q]
  have "(2::rat) powi (- 1000) < 2 powi (ilog2 q + 1)"
  proof -
    have "(2::rat) powi (- 1000) = 1 / 2 ^ 1000" by (simp add: power_int_minus field_simps)
    then show ?thesis using assms s(2) by linarith
  qed
  then have "- 1000 < ilog2 q + 1" by (rule powi_less_cancel)
  then have u: "uexp q = ilog2 q - 52" using q by (simp add: uexp_def)
  define e where "e = uexp q"
  define x where "x = q / 2 powi e"
  have p: "0 < (2::rat) powi e" by simp
  have "q = x * 2 powi e" unfolding x_def using p by simp
  moreover have "rnd q = of_int (rne x) * 2 powi e" using q by (simp add: rnd_def x_def e_def)
  ultimately have "rnd q - q = (of_int (rne x) - x) * 2 powi e" by (simp only: left_diff_distrib)
  then have "\<bar>rnd q - q\<bar> = \<bar>of_int (rne x) - x\<bar> * 2 powi e" using p by (simp only: abs_mult abs_of_pos)
  also have "\<dots> \<le> 1 / 2 * 2 powi e"
    using rne_error by (rule mult_right_mono) simp
  also have "\<dots> = 2 powi ilog2 q / 2 ^ 53"
    by (simp add: u e_def power_int_diff)
  also have "\<dots> \<le> q / 2 ^ 53" using s(1) by (rule divide_right_mono) simp
  finally show ?thesis .
qed

lemma f_int_exact: "n \<le> 2 ^ 53 \<Longrightarrow> f_int (int n) = Fin (of_nat n)"
proof -
  assume n: "n \<le> 2 ^ 53"
  then have i: "\<bar>int n\<bar> \<le> 2 ^ 53" by (simp add: nat_le_iff [symmetric])
  have "rnd (of_nat n) = of_nat n"
    by (rule rnd_dyadic [of _ "int n" 0]) (use i in simp_all)
  moreover have "(of_nat n :: rat) < 2 ^ 1024"
  proof -
    have "(of_nat n :: rat) \<le> of_nat (2 ^ 53)" using n by (simp only: of_nat_le_iff)
    also have "\<dots> < 2 ^ 1024" by simp
    finally show ?thesis .
  qed
  ultimately show ?thesis by (simp add: f_int_def f_of_rep)
qed

lemma usdc_fin:
  assumes "n \<le> 2 ^ 53"
  shows "usdc n = Fin (rnd (of_nat n / 10 ^ 6))" "0 \<le> rnd (of_nat n / 10 ^ 6)"
proof -
  have "f_lit 1000000 = Fin 1000000" by simp
  moreover have "f64_ok (Fin (of_nat n))" using f_int_exact [OF assms] f64_ok_consts(5) [of "int n"] by simp
  moreover have "(of_nat n :: rat) / 10 ^ 6 \<le> of_nat n" by (simp add: divide_le_eq)
  ultimately show "usdc n = Fin (rnd (of_nat n / 10 ^ 6))" "0 \<le> rnd (of_nat n / 10 ^ 6)"
    using f_of_between [of "of_nat n" "of_nat n / 10 ^ 6"] f_int_exact [OF assms]
    by (simp_all add: usdc_def)
qed

lemma usdc_mono: "n \<le> m \<Longrightarrow> m \<le> 2 ^ 53 \<Longrightarrow> fmin (usdc n) (usdc m) = usdc n \<and> fmin (usdc m) (usdc n) = usdc n"
proof -
  assume a: "n \<le> m" "m \<le> 2 ^ 53"
  have "rnd (of_nat n / 10 ^ 6) \<le> rnd (of_nat m / 10 ^ 6)"
    by (rule rnd.mono) (use a in \<open>simp add: divide_right_mono\<close>)
  then show ?thesis using usdc_fin(1) [of n] usdc_fin(1) [of m] a by (auto simp: fmin_def)
qed

lemma usdc_min:
  assumes "n \<le> 2 ^ 53" "m \<le> 2 ^ 53"
  shows "fmin (usdc n) (usdc m) = usdc (min n m)"
  using usdc_mono [of n m] usdc_mono [of m n] assms by (cases "n \<le> m") (auto simp: min_def)

lemma rne_near: "\<bar>x - of_int k\<bar> < 1 / 2 \<Longrightarrow> rne x = k"
proof -
  assume "\<bar>x - of_int k\<bar> < 1 / 2"
  with rne_error [of x] have "\<bar>of_int (rne x) - of_int k :: rat\<bar> < 1" by linarith
  then have "\<bar>of_int (rne x - k) :: rat\<bar> < of_int 1" by simp
  then have "\<bar>rne x - k\<bar> < 1" unfolding of_int_abs [symmetric] of_int_less_iff .
  then show ?thesis by simp
qed

lemma format6_usdc:
  assumes "n < 2 ^ 52"
  shows "format6 (usdc n) = format_usdc n"
proof -
  let ?q = "of_nat n / 10 ^ 6 :: rat"
  have "\<bar>rnd ?q * 10 ^ 6 - of_int (int n)\<bar> < 1 / 2"
  proof (cases "n = 0")
    case False
    have "(1::rat) / 2 ^ 1000 \<le> 1 / 10 ^ 6" by simp
    also have "\<dots> \<le> ?q" using False by (simp add: divide_right_mono)
    finally have "\<bar>rnd ?q - ?q\<bar> \<le> ?q / 2 ^ 53" by (rule rnd_relative_error)
    then have "\<bar>rnd ?q - ?q\<bar> * 10 ^ 6 \<le> ?q / 2 ^ 53 * 10 ^ 6" by (rule mult_right_mono) simp
    moreover have "\<bar>rnd ?q - ?q\<bar> * 10 ^ 6 = \<bar>rnd ?q * 10 ^ 6 - of_nat n\<bar>"
    proof -
      have "\<bar>rnd ?q - ?q\<bar> * 10 ^ 6 = \<bar>(rnd ?q - ?q) * 10 ^ 6\<bar>" by (simp only: abs_mult) simp
      then show ?thesis by (simp add: left_diff_distrib)
    qed
    moreover have "(of_nat n :: rat) < of_nat (2 ^ 52)" using assms by (simp only: of_nat_less_iff)
    ultimately show ?thesis by simp
  qed simp
  then have "rne (rnd ?q * 10 ^ 6) = int n" by (rule rne_near)
  moreover have "n \<le> 2 ^ 53" using assms by simp
  ultimately show ?thesis
    using usdc_fin [of n] by (simp add: format6_rat_def)
qed

lemma merge_amount_parsed:
  assumes "n < 2 ^ 52"
  shows "parse_usdc_amount (format6 (usdc n)) = Inr (of_nat n)"
proof -
  have "n < 2 ^ 64" using assms by simp
  then show ?thesis by (simp only: format6_usdc [OF assms] parse_format_usdc)
qed

section \<open>What a merge does\<close>

lemma get_ctf_balance_reads:
  assumes "u256_of_decimal v token = Inr i"
    and "eth_call v w ctf_address (abi_encode v (CtfBalanceOf (sc_safe_address cfg) i)) = (Inr bs, w')"
    and "32 \<le> length bs" "be_value (take 32 bs) = n" "n < 2 ^ 128"
  shows "get_ctf_balance v cfg w token = (Inr (usdc n), w')"
  using assms by (simp add: get_ctf_balance_def usdc_def Let_def)

lemma handle_confirmation_effect:
  "handle_merge_confirmation v me action qty c w = (me', evs, w') \<Longrightarrow>
   (case c of
      TxSuccess h b \<Rightarrow> me' = count_executed me \<and> (\<exists>t. evs = [merge_event action qty t])
    | TxFailed h b \<Rightarrow> me' = count_failure me \<and> evs = []
    | TxTimeout h \<Rightarrow> me' = me \<and> evs = [])"
  by (auto simp: handle_merge_confirmation_def emit_redemption_completed_def Let_def
      split: transaction_confirmation.splits prod.splits)

text \<open>C24. A merge moves exactly what it reports.  With balances of \<open>n\<close> and \<open>m\<close> millionths below
  \<open>2 ^ 52\<close>, read from the chain as doubles, the amount that reaches the contract after the detour
  through formatting and parsing is exactly the smaller balance, and a redemption of that amount is
  reported once if the transaction was accepted and confirmed as successful, and not at all
  otherwise: a rejected, reverted or unconfirmed merge leaves the books alone.\<close>

theorem merge_exact:
  assumes up: "get_ctf_balance v (me_safe me) w (ra_up_asset_id action) = (Inr (usdc n), w1)"
    and down: "get_ctf_balance v (me_safe me) w1 (ra_down_asset_id action) = (Inr (usdc m), w2)"
    and small: "n < 2 ^ 52" "m < 2 ^ 52"
    and thr: "\<not> flt (usdc (min n m)) (auto_merge_min_amount (me_config me))"
    and neg: "get_neg_risk v w2 (ra_up_asset_id action) = (Inr neg_risk, w3)"
    and cond: "parse_bytes32 (hex_decode v) (ra_market action) = Inr cid"
    and exec: "execute_safe_transaction v (me_safe me) w3
        (merge_transaction v cid (of_nat (min n m)) neg_risk) = (answer, w4)"
    and run: "execute_merge v me action w = (r, me', evs, w')"
  shows "case answer of
      Inl (Panic p) \<Rightarrow> r = Inl (Panic p) \<and> evs = []
    | Inl (Error e) \<Rightarrow> r = Inr () \<and> me' = count_failure me \<and> evs = []
    | Inr h \<Rightarrow> r = Inr () \<and>
        (case fst (wait_for_transaction v (me_safe me) w4 h
               (Some (merge_confirmation_timeout_secs (me_config me)))) of
           TxSuccess h' b \<Rightarrow> me' = count_executed me \<and> (\<exists>t. evs = [merge_event action (usdc (min n m)) t])
         | TxFailed h' b \<Rightarrow> me' = count_failure me \<and> evs = []
         | TxTimeout h' \<Rightarrow> me' = me \<and> evs = [])"
proof -
  have mn: "min n m < 2 ^ 52" using small by simp
  have fm: "fmin (usdc n) (usdc m) = usdc (min n m)" using usdc_min [of n m] small by simp
  have mu: "merge_usdc v (me_safe me) w3 (ra_market action) (format6 (usdc (min n m))) neg_risk = (answer, w4)"
    using merge_usdc_parsed [OF cond merge_amount_parsed [OF mn]] exec by simp
  have ex: "execute_merge v me action w =
     (case answer of
        Inl (Panic p) \<Rightarrow> (Inl (Panic p), me, [], w4)
      | Inl (Error e) \<Rightarrow> (Inr (), count_failure me, [], w4)
      | Inr h \<Rightarrow> (case wait_for_transaction v (me_safe me) w4 h
             (Some (merge_confirmation_timeout_secs (me_config me))) of
          (c, w) \<Rightarrow> (case handle_merge_confirmation v me action (usdc (min n m)) c w of
             (me', evs, w) \<Rightarrow> (Inr (), me', evs, w))))"
    by (simp add: execute_merge_def up down Let_def fm thr neg mu split: sum.split fault.split)
  show ?thesis
    using run unfolding ex
    by (auto split: sum.splits fault.splits prod.splits dest!: handle_confirmation_effect)
qed

text \<open>The quantity of the request has no influence: the executor always merges every pair.\<close>

lemma merge_ignores_quantity:
  "execute_merge v me (action\<lparr>ra_quantity := q\<rparr>) w = execute_merge v me action w"
proof -
  have "ra_market (action\<lparr>ra_quantity := q\<rparr>) = ra_market action"
    "ra_up_asset_id (action\<lparr>ra_quantity := q\<rparr>) = ra_up_asset_id action"
    "ra_down_asset_id (action\<lparr>ra_quantity := q\<rparr>) = ra_down_asset_id action"
    by simp_all
  then show ?thesis
    unfolding execute_merge_def handle_merge_confirmation_def emit_redemption_completed_def
      merge_event_def by (simp only:)
qed

text \<open>A world in which everything succeeds: both balances are two dollars.\<close>

definition demo_venue :: "unit venue" where
  "demo_venue =
     \<lparr>post_eth_call = (\<lambda>w to d. (Inr \<lparr>jr_result = Some ''0x'', jr_error = None\<rparr>, w)),
      post_receipt = (\<lambda>w h. (Inr \<lparr>rr_result = Some \<lparr>tr_block_number = None, tr_status = Some ''0x1''\<rparr>,
        rr_error = None\<rparr>, w)),
      provider_send = (\<lambda>w to d. (Inr ''hash'', w)), sleep = (\<lambda>d w. w),
      sign_message = (\<lambda>h. Inr (replicate 64 0 @ [27])), abi_encode = (\<lambda>c. []),
      hex_decode = (\<lambda>s. if s = [] then Inr (to_be_bytes 2000000) else Inr (replicate 32 7)),
      u256_of_decimal = (\<lambda>s. Inr 0), parse_url = (\<lambda>s. None),
      get_neg_risk = (\<lambda>w a. (Inr True, w)), get_activities = (\<lambda>w a. (Inr [Some ''HASH''], w)),
      update_balance_allowance = (\<lambda>w. (Inr (), w)), offer_redemption = (\<lambda>e w. w),
      utc_now = (\<lambda>w. 5), show_address = (\<lambda>a. [])\<rparr>"

definition demo_merger :: merge_executor where
  "demo_merger = \<lparr>me_safe = \<lparr>sc_rpc_url = [], sc_chain_id = 137, sc_safe_address = [],
     sc_max_wait_secs = None\<rparr>, me_pending_merges = [], me_config = default_merge_config,
     me_metrics = \<lparr>merges_executed = 0, merge_failures = 0\<rparr>\<rparr>"

definition demo_redemption :: redemption_action where
  "demo_redemption = \<lparr>ra_market = replicate 64 (CHR ''a''), ra_up_asset_id = ''1'',
     ra_down_asset_id = ''2'', ra_quantity = f1, ra_timestamp = 0\<rparr>"

lemma demo_reads: "eth_call demo_venue w to d = (Inr (to_be_bytes 2000000), w)"
  by (simp add: eth_call_def demo_venue_def)

lemma demo_balance:
  "get_ctf_balance demo_venue cfg w token = (Inr (usdc 2000000), w)"
  by (rule get_ctf_balance_reads [OF _ demo_reads])
    (use be_value_to_be_bytes [of 2000000] in \<open>simp_all add: demo_venue_def to_be_bytes_def\<close>)

lemma demo_sends: "execute_safe_transaction demo_venue cfg w tx = (Inr ''hash'', w)"
proof -
  have u: "[1..<Suc max_retries] = 1 # [2..<Suc max_retries]"
    by (simp add: max_retries_def upt_rec)
  have l: "length (to_be_bytes 2000000) = 32" by (simp add: to_be_bytes_def)
  have s: "sign_safe_tx_hash demo_venue h = Inr ((replicate 64 0 @ [27])[64 := 31])" for h
    by (simp add: sign_safe_tx_hash_def demo_venue_def nth_append)
  have t: "send_transaction demo_venue cfg w a d = (Inr ''hash'', w)" for w a d
    by (simp add: send_transaction_def demo_venue_def)
  show ?thesis
    unfolding execute_safe_transaction_def u
    by (simp add: send_once_def get_safe_nonce_def get_transaction_hash_def demo_reads l s t)
qed

theorem merge_exact_witness:
  "\<exists>t. fst (snd (snd (execute_merge demo_venue demo_merger demo_redemption ())))
     = [merge_event demo_redemption (usdc 2000000) t]"
proof -
  obtain r me' evs w' where run:
    "execute_merge demo_venue demo_merger demo_redemption () = (r, me', evs, w')" by (metis prod.collapse)
  have "\<not> flt (usdc (min 2000000 2000000)) (auto_merge_min_amount (me_config demo_merger))"
    by (simp add: usdc_def demo_merger_def default_merge_config_def f1_def f_int_def)
  moreover have "get_neg_risk demo_venue () (ra_up_asset_id demo_redemption) = (Inr True, ())"
    by (simp add: demo_venue_def)
  moreover have "parse_bytes32 (hex_decode demo_venue) (ra_market demo_redemption) = Inr (replicate 32 7)"
    by (simp add: parse_bytes32_def demo_venue_def demo_redemption_def numeral_eq_Suc)
  moreover have "fst (wait_for_transaction demo_venue cfg () ''hash'' (Some 60)) = TxSuccess ''hash'' 0" for cfg
  proof -
    have "(60::nat) div 2 = Suc 29" by simp
    then show ?thesis
      by (simp only: wait_for_transaction_def Let_def unwrap_or_simps poll_interval_secs_def wait_iterations.simps)
        (simp add: get_transaction_receipt_def confirmation_of_def demo_venue_def)
  qed
  ultimately show ?thesis
    using merge_exact [OF demo_balance demo_balance _ _ _ _ _ demo_sends run] run
    by (simp add: demo_merger_def default_merge_config_def)
qed

end
