(* ===== verification/Rate_Limiter.thy ===== *)
theory Rate_Limiter
  imports F64
begin

text \<open>
  The token bucket of the poller, \<open>execution/polymarket/poller/rate_limiter.rs\<close>: two 64-bit atomic
  counters, the tokens in thousandths and the time of the last refill in milliseconds.  A call is a
  thread whose program counter \<open>pc\<close> stands between two accesses to the counters; \<open>exec\<close> performs
  one access and what follows it up to the next one.  \<open>sys_step\<close> interleaves any number of calls
  with a clock that does not go back; the accesses are taken to be sequentially consistent.
  \<open>refill\<close> and \<open>try_acquire\<close> are the calls run without interruption.
\<close>

section \<open>Configuration and counters\<close>

text \<open>\<open>as u64\<close> of a double truncates and saturates.\<close>

fun f_to_u64 :: "f64 \<Rightarrow> nat" where
  "f_to_u64 NaN = 0"
| "f_to_u64 NegInf = 0"
| "f_to_u64 PosInf = 2 ^ 64 - 1"
| "f_to_u64 (Fin q) = min (nat \<lfloor>q\<rfloor>) (2 ^ 64 - 1)"

definition fixed_point_scale :: nat where "fixed_point_scale = 1000"

record limiter_config =
  rl_max_tokens :: nat
  rl_refill_rate_per_ms :: f64

record limiter =
  rl_tokens :: nat
  rl_last_refill_ms :: nat

definition limiter_new :: "f64 \<Rightarrow> limiter_config \<times> limiter" where
  "limiter_new requests_per_second =
     (let max_tokens = f_to_u64 (fmul (fmul requests_per_second (f_lit 2)) (f_int (int fixed_point_scale)));
          rate = fdiv (fmul requests_per_second (f_int (int fixed_point_scale))) (f_lit 1000)
      in (\<lparr>rl_max_tokens = max_tokens, rl_refill_rate_per_ms = rate\<rparr>,
          \<lparr>rl_tokens = max_tokens, rl_last_refill_ms = 0\<rparr>))"

definition tokens_to_add :: "limiter_config \<Rightarrow> nat \<Rightarrow> nat" where
  "tokens_to_add c elapsed_ms = f_to_u64 (fmul (f_int (int elapsed_ms)) (rl_refill_rate_per_ms c))"

definition capped :: "limiter_config \<Rightarrow> nat \<Rightarrow> nat \<Rightarrow> nat" where
  "capped c current add = min ((current + add) mod 2 ^ 64) (rl_max_tokens c)"

definition f_ceil :: "f64 \<Rightarrow> f64" where
  "f_ceil x = (case x of Fin q \<Rightarrow> Fin (of_int \<lceil>q\<rceil>) | _ \<Rightarrow> x)"

definition wait_ms :: "limiter_config \<Rightarrow> nat" where
  "wait_ms c = max (f_to_u64 (f_ceil (fdiv (f_int (int fixed_point_scale)) (rl_refill_rate_per_ms c)))) 1"

section \<open>One access at a time\<close>

datatype caller = Acquire | TryAcquire | Available

datatype pc =
    Begin caller
  | LoadLast caller nat
  | StampLast caller nat nat nat
  | LoadTokens caller nat
  | AddTokens caller nat nat nat
  | Refilled caller
  | Take caller nat
  | Waiting nat
  | Granted
  | Denied
  | Reported f64

fun exec :: "limiter_config \<Rightarrow> nat \<Rightarrow> limiter \<Rightarrow> pc \<Rightarrow> limiter \<times> pc" where
  "exec c now s (Begin k) = (s, LoadLast k now)"
| "exec c now s (LoadLast k now_ms) =
     (if now_ms \<le> rl_last_refill_ms s then (s, Refilled k)
      else let add = tokens_to_add c (now_ms - rl_last_refill_ms s) in
        if add = 0 then (s, Refilled k) else (s, StampLast k now_ms (rl_last_refill_ms s) add))"
| "exec c now s (StampLast k now_ms last_ms add) =
     (if rl_last_refill_ms s = last_ms then s\<lparr>rl_last_refill_ms := now_ms\<rparr> else s, LoadTokens k add)"
| "exec c now s (LoadTokens k add) =
     (let current = rl_tokens s; new_tokens = capped c current add in
      if current = new_tokens then (s, Refilled k) else (s, AddTokens k add current new_tokens))"
| "exec c now s (AddTokens k add current new_tokens) =
     (if rl_tokens s = current then (s\<lparr>rl_tokens := new_tokens\<rparr>, Refilled k) else (s, LoadTokens k add))"
| "exec c now s (Refilled Acquire) =
     (if fixed_point_scale \<le> rl_tokens s then (s, Take Acquire (rl_tokens s))
      else (s, Waiting (now + wait_ms c)))"
| "exec c now s (Refilled TryAcquire) =
     (if rl_tokens s < fixed_point_scale then (s, Denied) else (s, Take TryAcquire (rl_tokens s)))"
| "exec c now s (Refilled Available) =
     (s, Reported (fdiv (f_int (int (rl_tokens s))) (f_int (int fixed_point_scale))))"
| "exec c now s (Take k current) =
     (if rl_tokens s = current then (s\<lparr>rl_tokens := current - fixed_point_scale\<rparr>, Granted)
      else (s, if k = Acquire then Begin Acquire else Refilled k))"
| "exec c now s (Waiting until) = (s, if now < until then Waiting until else Begin Acquire)"
| "exec c now s Granted = (s, Granted)"
| "exec c now s Denied = (s, Denied)"
| "exec c now s (Reported x) = (s, Reported x)"

section \<open>Any interleaving\<close>

text \<open>\<open>sys_added\<close> is a ghost: the tokens that refills have put into the bucket so far.\<close>

record system =
  sys_clock :: nat
  sys_limiter :: limiter
  sys_threads :: "pc list"
  sys_added :: nat

inductive sys_step :: "limiter_config \<Rightarrow> system \<Rightarrow> system \<Rightarrow> bool" for c where
  tick: "sys_clock y \<le> t \<Longrightarrow> sys_step c y (y\<lparr>sys_clock := t\<rparr>)"
| call: "sys_step c y (y\<lparr>sys_threads := sys_threads y @ [Begin k]\<rparr>)"
| access: "i < length (sys_threads y) \<Longrightarrow>
    exec c (sys_clock y) (sys_limiter y) (sys_threads y ! i) = (s', p') \<Longrightarrow>
    sys_step c y (y\<lparr>sys_limiter := s', sys_threads := (sys_threads y)[i := p'],
      sys_added := sys_added y + (rl_tokens s' - rl_tokens (sys_limiter y))\<rparr>)"

definition sys_init :: "f64 \<Rightarrow> system" where
  "sys_init rps = \<lparr>sys_clock = 0, sys_limiter = snd (limiter_new rps), sys_threads = [], sys_added = 0\<rparr>"

inductive reachable :: "f64 \<Rightarrow> system \<Rightarrow> bool" for rps where
  start: "reachable rps (sys_init rps)"
| more: "reachable rps y \<Longrightarrow> sys_step (fst (limiter_new rps)) y y' \<Longrightarrow> reachable rps y'"

definition grants :: "system \<Rightarrow> nat" where
  "grants y = count_list (sys_threads y) Granted"

section \<open>The bucket invariant\<close>

text \<open>What a thread knows about the value it is about to write.\<close>

fun pc_ok :: "limiter_config \<Rightarrow> pc \<Rightarrow> bool" where
  "pc_ok c (AddTokens k add current new_tokens) = (new_tokens = capped c current add \<and> new_tokens \<noteq> current)"
| "pc_ok c (Take k current) = (fixed_point_scale \<le> current)"
| "pc_ok c p = True"

definition limiter_inv :: "limiter_config \<Rightarrow> system \<Rightarrow> bool" where
  "limiter_inv c y \<longleftrightarrow>
     rl_tokens (sys_limiter y) \<le> rl_max_tokens c
     \<and> list_all (pc_ok c) (sys_threads y)
     \<and> rl_tokens (sys_limiter y) + fixed_point_scale * grants y \<le> rl_max_tokens c + sys_added y"

lemma exec_effect:
  assumes "exec c now s p = (s', p')" "pc_ok c p" "rl_tokens s \<le> rl_max_tokens c"
  shows "rl_tokens s' \<le> rl_max_tokens c \<and> pc_ok c p'
    \<and> rl_tokens s' + fixed_point_scale * of_bool (p' = Granted)
      \<le> rl_tokens s + fixed_point_scale * of_bool (p = Granted) + (rl_tokens s' - rl_tokens s)"
proof (cases "(c, now, s, p)" rule: exec.cases)
  case (5 c now s k add current new_tokens)
  then show ?thesis using assms by (auto simp: capped_def split: if_splits)
qed (use assms in \<open>auto simp: Let_def split: if_splits\<close>)

lemma count_list_update:
  "i < length xs \<Longrightarrow>
   count_list (xs[i := b]) z + of_bool (xs ! i = z) = count_list xs z + of_bool (b = z)"
proof (induction xs arbitrary: i)
  case (Cons x xs)
  show ?case
  proof (cases i)
    case (Suc j)
    then show ?thesis using Cons.IH [of j] Cons.prems by auto
  qed auto
qed simp

lemma sys_step_inv:
  assumes "sys_step c y y'" "limiter_inv c y"
  shows "limiter_inv c y'"
  using assms(1)
proof (cases rule: sys_step.cases)
  case (tick t)
  then show ?thesis using assms(2) by (simp add: limiter_inv_def grants_def)
next
  case (call k)
  then show ?thesis using assms(2) by (simp add: limiter_inv_def grants_def)
next
  case (access i s' p')
  have ok: "pc_ok c (sys_threads y ! i)" and le: "rl_tokens (sys_limiter y) \<le> rl_max_tokens c"
    using assms(2) access(2) by (auto simp: limiter_inv_def list_all_length)
  note e = exec_effect [OF access(3) ok le]
  have c: "count_list ((sys_threads y)[i := p']) Granted + of_bool (sys_threads y ! i = Granted)
      = count_list (sys_threads y) Granted + of_bool (p' = Granted)"
    using access(2) by (rule count_list_update)
  have all: "list_all (pc_ok c) ((sys_threads y)[i := p'])"
    using assms(2) e by (auto simp: limiter_inv_def list_all_iff dest!: set_update_subset_insert [THEN subsetD])
  have "fixed_point_scale * count_list ((sys_threads y)[i := p']) Granted
      + fixed_point_scale * of_bool (sys_threads y ! i = Granted)
      = fixed_point_scale * count_list (sys_threads y) Granted + fixed_point_scale * of_bool (p' = Granted)"
    unfolding distrib_left [symmetric] c by simp
  then show ?thesis
    using e all assms(2) access(1) by (simp add: limiter_inv_def grants_def)
qed

lemma reachable_inv: "reachable rps y \<Longrightarrow> limiter_inv (fst (limiter_new rps)) y"
proof (induction rule: reachable.induct)
  case start
  show ?case by (simp add: limiter_inv_def sys_init_def grants_def limiter_new_def Let_def)
qed (rule sys_step_inv)

text \<open>C25. However the calls interleave, the bucket never holds more than its capacity, and the
  calls that were granted have been paid for by the initial filling and by the refills: a thousand
  units each, none twice.  A limiter for less than half a request per second has a bucket smaller
  than one token: it never grants anything, so \<open>acquire\<close> waits for ever.\<close>

theorem bucket_never_overdrawn:
  assumes "reachable rps y"
  shows "rl_tokens (sys_limiter y) \<le> rl_max_tokens (fst (limiter_new rps))
    \<and> 1000 * grants y \<le> rl_max_tokens (fst (limiter_new rps)) + sys_added y
    \<and> (rl_max_tokens (fst (limiter_new rps)) < 1000 \<longrightarrow> grants y = 0)"
proof -
  let ?c = "fst (limiter_new rps)"
  have "rl_max_tokens ?c < 1000 \<longrightarrow> grants y = 0"
    using assms
  proof (induction rule: reachable.induct)
    case (more y y')
    show ?case
    proof
      assume small: "rl_max_tokens ?c < 1000"
      then have g: "count_list (sys_threads y) Granted = 0" using more.IH by (simp add: grants_def)
      note inv = reachable_inv [OF more.hyps(1), unfolded limiter_inv_def]
      from more.hyps(2) show "grants y' = 0"
      proof (cases rule: sys_step.cases)
        case (access i s' p')
        have "p' \<noteq> Granted"
        proof
          assume "p' = Granted"
          then consider "sys_threads y ! i = Granted"
            | k cur where "sys_threads y ! i = Take k cur" "rl_tokens (sys_limiter y) = cur"
            using access(3) by (cases "(?c, sys_clock y, sys_limiter y, sys_threads y ! i)" rule: exec.cases)
              (auto simp: Let_def split: if_splits)
          then show False
          proof cases
            case 1
            then show False using g access(2) by (metis count_list_0_iff nth_mem)
          next
            case 2
            have "pc_ok ?c (sys_threads y ! i)" using inv access(2) by (auto simp: list_all_length)
            then show False using 2 inv small by (simp add: fixed_point_scale_def)
          qed
        qed
        then show ?thesis
          using g access by (auto simp: grants_def count_list_0_iff dest!: set_update_subset_insert [THEN subsetD])
      qed (use g in \<open>simp_all add: grants_def\<close>)
    qed
  qed (simp add: grants_def sys_init_def)
  then show ?thesis
    using reachable_inv [OF assms] by (auto simp: limiter_inv_def fixed_point_scale_def)
qed

theorem bucket_never_overdrawn_witness:
  "rl_tokens (sys_limiter (sys_init (Fin 8))) \<le> rl_max_tokens (fst (limiter_new (Fin 8)))
    \<and> 1000 * grants (sys_init (Fin 8)) \<le> rl_max_tokens (fst (limiter_new (Fin 8))) + sys_added (sys_init (Fin 8))"
  using bucket_never_overdrawn [OF reachable.start, of "Fin 8"] by simp

section \<open>Calls without interruption\<close>

definition refill :: "limiter_config \<Rightarrow> nat \<Rightarrow> limiter \<Rightarrow> limiter" where
  "refill c now_ms s =
     (if now_ms \<le> rl_last_refill_ms s then s
      else let add = tokens_to_add c (now_ms - rl_last_refill_ms s) in
        if add = 0 then s
        else \<lparr>rl_tokens = capped c (rl_tokens s) add, rl_last_refill_ms = now_ms\<rparr>)"

definition try_acquire :: "limiter_config \<Rightarrow> nat \<Rightarrow> limiter \<Rightarrow> limiter \<times> bool" where
  "try_acquire c now_ms s =
     (let s1 = refill c now_ms s in
      if rl_tokens s1 < fixed_point_scale then (s1, False)
      else (s1\<lparr>rl_tokens := rl_tokens s1 - fixed_point_scale\<rparr>, True))"

text \<open>\<open>acquire\<close> with the clock readings of its successive rounds, each one at least a waiting time
  after the one before; \<open>None\<close> when the readings end before a token was free.\<close>

fun acquire :: "limiter_config \<Rightarrow> limiter \<Rightarrow> nat list \<Rightarrow> limiter option" where
  "acquire c s [] = None"
| "acquire c s (now_ms # later) =
     (let s1 = refill c now_ms s in
      if fixed_point_scale \<le> rl_tokens s1
      then Some (s1\<lparr>rl_tokens := rl_tokens s1 - fixed_point_scale\<rparr>)
      else acquire c s1 later)"

fun waits_between :: "limiter_config \<Rightarrow> nat list \<Rightarrow> bool" where
  "waits_between c (t # t' # ts) = (t + wait_ms c \<le> t' \<and> waits_between c (t' # ts))"
| "waits_between c ts = True"

text \<open>A thread that is not interrupted.\<close>

fun run_pc :: "limiter_config \<Rightarrow> nat \<Rightarrow> nat \<Rightarrow> limiter \<Rightarrow> pc \<Rightarrow> limiter \<times> pc" where
  "run_pc c now 0 s p = (s, p)"
| "run_pc c now (Suc n) s p = (case exec c now s p of (s', p') \<Rightarrow> run_pc c now n s' p')"

lemma refill_is_run: "\<exists>n. run_pc c now n s (Begin k) = (refill c now s, Refilled k)"
proof -
  let ?add = "tokens_to_add c (now - rl_last_refill_ms s)"
  consider "now \<le> rl_last_refill_ms s \<or> ?add = 0"
    | "\<not> now \<le> rl_last_refill_ms s" "?add \<noteq> 0" "rl_tokens s = capped c (rl_tokens s) ?add"
    | "\<not> now \<le> rl_last_refill_ms s" "?add \<noteq> 0" "rl_tokens s \<noteq> capped c (rl_tokens s) ?add"
    by blast
  then show ?thesis
  proof cases
    case 1
    then show ?thesis
      by (intro exI [of _ "Suc (Suc 0)"]) (auto simp: refill_def Let_def)
  next
    case 2
    then show ?thesis
      by (intro exI [of _ "Suc (Suc (Suc (Suc 0)))"]) (auto simp: refill_def Let_def)
  next
    case 3
    then show ?thesis
      by (intro exI [of _ "Suc (Suc (Suc (Suc (Suc 0))))"]) (auto simp: refill_def Let_def)
  qed
qed

lemma run_pc_add: "run_pc c now (m + n) s p = (case run_pc c now m s p of (s', p') \<Rightarrow> run_pc c now n s' p')"
  by (induction m arbitrary: s p) (auto split: prod.splits)

lemma try_acquire_is_run:
  "\<exists>n. run_pc c now n s (Begin TryAcquire) =
     (fst (try_acquire c now s), if snd (try_acquire c now s) then Granted else Denied)"
proof -
  obtain n where n: "run_pc c now n s (Begin TryAcquire) = (refill c now s, Refilled TryAcquire)"
    using refill_is_run by blast
  show ?thesis
  proof (cases "rl_tokens (refill c now s) < fixed_point_scale")
    case True
    then have "run_pc c now (n + 1) s (Begin TryAcquire) = (refill c now s, Denied)"
      unfolding run_pc_add n by simp
    with True show ?thesis by (intro exI [of _ "n + 1"]) (simp only: try_acquire_def Let_def, simp)
  next
    case False
    then have "run_pc c now (n + 2) s (Begin TryAcquire)
        = ((refill c now s)\<lparr>rl_tokens := rl_tokens (refill c now s) - fixed_point_scale\<rparr>, Granted)"
      unfolding run_pc_add n by (simp add: numeral_2_eq_2)
    with False show ?thesis by (intro exI [of _ "n + 2"]) (simp only: try_acquire_def Let_def, simp)
  qed
qed

subsection \<open>A wait is enough\<close>

lemma f_to_u64_mono: "fle x y \<Longrightarrow> f_to_u64 x \<le> f_to_u64 y"
proof (cases "(x, y)" rule: fle.cases)
  case (1 a b)
  assume "fle x y"
  with 1 have "\<lfloor>a\<rfloor> \<le> \<lfloor>b\<rfloor>" by (simp add: floor_mono)
  then show ?thesis using 1 by auto
qed (auto simp: min_def)

lemma f_of_mono: "p \<le> q \<Longrightarrow> fle (f_of p) (f_of q)"
proof -
  assume "p \<le> q"
  then have r: "rnd p \<le> rnd q" by (rule rnd.mono)
  then show ?thesis by (auto simp: f_of_def Let_def)
qed

lemma tokens_to_add_mono:
  assumes "rl_refill_rate_per_ms c = Fin r" "0 \<le> r" "e \<le> e'" "e' \<le> 2 ^ 53"
  shows "tokens_to_add c e \<le> tokens_to_add c e'"
proof -
  have exact: "f_int (int n) = Fin (of_nat n)" if "n \<le> 2 ^ 53" for n
  proof -
    have "\<bar>int n\<bar> \<le> 2 ^ 53" using that by (simp add: nat_le_iff [symmetric])
    then have "rnd (of_nat n) = of_nat n" by (intro rnd_dyadic [of _ "int n" 0]) simp_all
    moreover have "(of_nat n :: rat) \<le> of_nat (2 ^ 53)" using that by (simp only: of_nat_le_iff)
    then have "(of_nat n :: rat) < 2 ^ 1024" by (rule le_less_trans) simp
    ultimately show ?thesis by (simp add: f_int_def f_of_rep)
  qed
  have "(of_nat e :: rat) * r \<le> of_nat e' * r" using assms by (simp add: mult_right_mono)
  then show ?thesis
    using assms exact [of e] exact [of e'] by (simp add: tokens_to_add_def f_to_u64_mono f_of_mono)
qed

lemma refill_last: "rl_last_refill_ms s \<le> t \<Longrightarrow> rl_last_refill_ms (refill c t s) \<le> t"
  by (simp add: refill_def Let_def)

text \<open>When one waiting time is worth a token, \<open>acquire\<close> returns after at most one wait: of any
  two clock readings a waiting time apart the second one finds a token.\<close>

theorem acquire_waits_at_most_once:
  assumes rate: "rl_refill_rate_per_ms c = Fin r" "0 \<le> r"
    and worth: "1000 \<le> tokens_to_add c (wait_ms c)"
    and room: "1000 \<le> rl_max_tokens c" "rl_max_tokens c + tokens_to_add c t' < 2 ^ 64"
    and time: "rl_last_refill_ms s \<le> t" "t + wait_ms c \<le> t'" "t' \<le> 2 ^ 53"
    and tokens: "rl_tokens s \<le> rl_max_tokens c"
  shows "acquire c s [t, t'] \<noteq> None"
proof -
  define s1 where "s1 = refill c t s"
  have last: "rl_last_refill_ms s1 \<le> t" unfolding s1_def using time(1) by (rule refill_last)
  have le: "rl_tokens s1 \<le> rl_max_tokens c"
    using tokens by (simp add: s1_def refill_def Let_def capped_def)
  let ?add = "tokens_to_add c (t' - rl_last_refill_ms s1)"
  have "1000 \<le> ?add"
  proof -
    have "wait_ms c \<le> t' - rl_last_refill_ms s1" "t' - rl_last_refill_ms s1 \<le> 2 ^ 53"
      using last time by linarith+
    then show ?thesis using worth tokens_to_add_mono [OF rate] by (meson order_trans)
  qed
  moreover have "rl_tokens s1 + ?add < 2 ^ 64"
    using le room(2) tokens_to_add_mono [OF rate diff_le_self time(3), of "rl_last_refill_ms s1"]
    by linarith
  moreover have "\<not> t' \<le> rl_last_refill_ms s1"
    using last time(2) by (simp add: wait_ms_def)
  ultimately have "1000 \<le> rl_tokens (refill c t' s1)"
    using room(1) by (simp add: refill_def Let_def capped_def)
  then show ?thesis by (simp add: s1_def fixed_point_scale_def Let_def)
qed

theorem acquire_waits_at_most_once_witness:
  "acquire (fst (limiter_new (Fin 8))) \<lparr>rl_tokens = 0, rl_last_refill_ms = 0\<rparr> [0, 125] \<noteq> None"
proof (rule acquire_waits_at_most_once [of _ 8])
  show "rl_refill_rate_per_ms (fst (limiter_new (Fin 8))) = Fin 8"
    by (simp add: limiter_new_def Let_def f_int_def fixed_point_scale_def)
qed (simp_all add: limiter_new_def Let_def f_int_def fixed_point_scale_def tokens_to_add_def wait_ms_def f_ceil_def)

subsection \<open>Two refills of the same interval\<close>

text \<open>The compare-and-swap on the time of the last refill is not checked: a thread whose swap fails
  adds its tokens all the same.  Two calls that both read the old time put the tokens of the same
  100 milliseconds into the bucket twice.\<close>

lemma interval_refilled_twice:
  fixes c :: limiter_config and s0 :: limiter
  defines "c \<equiv> \<lparr>rl_max_tokens = 16000, rl_refill_rate_per_ms = Fin 8\<rparr>"
    and "s0 \<equiv> \<lparr>rl_tokens = 0, rl_last_refill_ms = 0\<rparr>"
  shows "snd (exec c 100 s0 (LoadLast TryAcquire 100)) = StampLast TryAcquire 100 0 800"
    and "run_pc c 100 3 s0 (StampLast TryAcquire 100 0 800)
      = (\<lparr>rl_tokens = 800, rl_last_refill_ms = 100\<rparr>, Refilled TryAcquire)"
    and "run_pc c 100 3 \<lparr>rl_tokens = 800, rl_last_refill_ms = 100\<rparr> (StampLast TryAcquire 100 0 800)
      = (\<lparr>rl_tokens = 1600, rl_last_refill_ms = 100\<rparr>, Refilled TryAcquire)"
proof -
  have three: "(3::nat) = Suc (Suc (Suc 0))" by simp
  have add: "tokens_to_add c 100 = 800" by (simp add: tokens_to_add_def c_def f_int_def)
  show "snd (exec c 100 s0 (LoadLast TryAcquire 100)) = StampLast TryAcquire 100 0 800"
    by (simp add: s0_def add)
  have cap: "capped c 0 800 = 800" "capped c 800 800 = 1600" by (simp_all add: capped_def c_def)
  show "run_pc c 100 3 s0 (StampLast TryAcquire 100 0 800)
      = (\<lparr>rl_tokens = 800, rl_last_refill_ms = 100\<rparr>, Refilled TryAcquire)"
    "run_pc c 100 3 \<lparr>rl_tokens = 800, rl_last_refill_ms = 100\<rparr> (StampLast TryAcquire 100 0 800)
      = (\<lparr>rl_tokens = 1600, rl_last_refill_ms = 100\<rparr>, Refilled TryAcquire)"
    unfolding three by (simp_all add: s0_def cap)
qed

end
