(* ===== verification/Order_Poller.thy ===== *)
theory Order_Poller
  imports Merge_Executor Rate_Limiter Client_View Manager
begin

text \<open>
  The order status poller of the Polymarket executor, \<open>execution/polymarket/poller/poller.rs\<close>,
  \<open>types.rs\<close>, \<open>config.rs\<close> and \<open>balance_api.rs\<close>.  It keeps the monitored orders, a lifecycle
  engine and the queue of the event coordinator, to which \<open>enqueue_event\<close> appends and never fails
  (\<open>generic_event_coordinator.rs\<close>).  The answers of the exchange are arguments of the operations, an
  error being its text; a poll of one order is one step.  Times are nanoseconds, \<open>now\<close> the reading
  of the clock; \<open>fpowi\<close> is the power function of the platform.
\<close>

section \<open>Data\<close>

record monitored_order =
  mo_order_id :: string
  mo_mint :: string
  mo_market :: "string option"
  mo_side :: order_side
  mo_price :: f64
  mo_original_size :: f64
  mo_last_known_filled :: f64
  mo_signal_id :: "string option"
  mo_added_at :: timestamp
  mo_last_polled :: "timestamp option"
  mo_poll_count :: "32 word"
  mo_consecutive_failures :: "32 word"

definition monitored_new ::
  "timestamp \<Rightarrow> string \<Rightarrow> string \<Rightarrow> string option \<Rightarrow> order_side \<Rightarrow> f64 \<Rightarrow> f64 \<Rightarrow> string option \<Rightarrow>
   monitored_order" where
  "monitored_new now oid mint market side price sz signal =
     \<lparr>mo_order_id = oid, mo_mint = mint, mo_market = market, mo_side = side, mo_price = price,
      mo_original_size = sz, mo_last_known_filled = f0, mo_signal_id = signal, mo_added_at = now,
      mo_last_polled = None, mo_poll_count = 0, mo_consecutive_failures = 0\<rparr>"

definition age :: "timestamp \<Rightarrow> monitored_order \<Rightarrow> duration" where
  "age now m = max 0 (now - mo_added_at m)"

definition time_since_poll :: "timestamp \<Rightarrow> monitored_order \<Rightarrow> duration option" where
  "time_since_poll now m = map_option (\<lambda>t. max 0 (now - t)) (mo_last_polled m)"

definition mo_remaining_size :: "monitored_order \<Rightarrow> f64" where
  "mo_remaining_size m = fsub (mo_original_size m) (mo_last_known_filled m)"

definition is_fully_filled :: "monitored_order \<Rightarrow> bool" where
  "is_fully_filled m = fle (mo_remaining_size m) f0"

definition record_poll_success :: "timestamp \<Rightarrow> f64 \<Rightarrow> monitored_order \<Rightarrow> monitored_order" where
  "record_poll_success now filled m =
     m\<lparr>mo_last_polled := Some now, mo_poll_count := mo_poll_count m + 1, mo_consecutive_failures := 0,
       mo_last_known_filled := (if flt (mo_last_known_filled m) filled then filled else mo_last_known_filled m)\<rparr>"

definition record_poll_failure :: "timestamp \<Rightarrow> monitored_order \<Rightarrow> monitored_order" where
  "record_poll_failure now m =
     m\<lparr>mo_last_polled := Some now, mo_poll_count := mo_poll_count m + 1,
       mo_consecutive_failures := mo_consecutive_failures m + 1\<rparr>"

text \<open>The lexicographic key of the queue, with \<open>now\<close> for an order that was never polled.\<close>

definition poll_priority :: "timestamp \<Rightarrow> monitored_order \<Rightarrow> timestamp \<times> timestamp \<times> nat" where
  "poll_priority now m =
     (mo_added_at m, unwrap_or (mo_last_polled m) now, unat (mo_consecutive_failures m))"

definition priority_le :: "timestamp \<times> timestamp \<times> nat \<Rightarrow> timestamp \<times> timestamp \<times> nat \<Rightarrow> bool" where
  "priority_le p q \<longleftrightarrow> fst p < fst q \<or> fst p = fst q \<and>
     (fst (snd p) < fst (snd q) \<or> fst (snd p) = fst (snd q) \<and> snd (snd p) \<le> snd (snd q))"

record poller_config =
  pc_poll_interval :: duration
  pc_batch_size :: nat
  pc_rate_limit_rps :: f64
  pc_enable_position_sync :: bool
  pc_position_sync_interval :: duration
  pc_max_consecutive_failures :: "32 word"
  pc_failure_backoff_multiplier :: f64
  pc_max_order_age :: duration

definition default_poller_config :: poller_config where
  "default_poller_config =
     \<lparr>pc_poll_interval = 500 * millisecond, pc_batch_size = 20, pc_rate_limit_rps = f_lit 8,
      pc_enable_position_sync = True, pc_position_sync_interval = 30 * second,
      pc_max_consecutive_failures = 10, pc_failure_backoff_multiplier = f_lit (3 / 2),
      pc_max_order_age = 86400 * second\<rparr>"

definition f_to_u64_ms :: "f64 \<Rightarrow> duration" where
  "f_to_u64_ms x = int (f_to_u64 x) * millisecond"

definition calculate_backoff :: "(f64 \<Rightarrow> nat \<Rightarrow> f64) \<Rightarrow> poller_config \<Rightarrow> 32 word \<Rightarrow> duration" where
  "calculate_backoff fpowi c failures =
     f_to_u64_ms (fmul (f_int (pc_poll_interval c div millisecond))
       (fpowi (pc_failure_backoff_multiplier c) (unat failures)))"

record poll_cycle_result =
  pcr_orders_polled :: nat
  pcr_fills_detected :: nat
  pcr_orders_completed :: nat
  pcr_errors :: nat

definition empty_cycle :: poll_cycle_result where
  "empty_cycle = \<lparr>pcr_orders_polled = 0, pcr_fills_detected = 0, pcr_orders_completed = 0, pcr_errors = 0\<rparr>"

definition record_poll :: "bool \<Rightarrow> poll_cycle_result \<Rightarrow> poll_cycle_result" where
  "record_poll had_fill r = r\<lparr>pcr_orders_polled := Suc (pcr_orders_polled r),
     pcr_fills_detected := pcr_fills_detected r + of_bool had_fill\<rparr>"

definition record_completion :: "poll_cycle_result \<Rightarrow> poll_cycle_result" where
  "record_completion r = r\<lparr>pcr_orders_completed := Suc (pcr_orders_completed r)\<rparr>"

definition record_error :: "poll_cycle_result \<Rightarrow> poll_cycle_result" where
  "record_error r = r\<lparr>pcr_errors := Suc (pcr_errors r)\<rparr>"

datatype system_event =
    LimitOrderEv limit_order_event
  | PositionEv position_event
  | ExecutionEv execution_event
  | RedemptionEv redemption_event

record poller =
  pl_monitored :: "(string, monitored_order) hmap"
  pl_engine :: engine
  pl_config :: poller_config
  pl_gauge :: nat
  pl_queue :: "system_event list"

definition poller_new :: "poller_config \<Rightarrow> poller" where
  "poller_new c = \<lparr>pl_monitored = [], pl_engine = engine_new, pl_config = c, pl_gauge = 0, pl_queue = []\<rparr>"

definition enqueue_event :: "limit_order_event \<Rightarrow> poller \<Rightarrow> poller" where
  "enqueue_event ev p = p\<lparr>pl_queue := pl_queue p @ [LimitOrderEv ev]\<rparr>"

definition set_monitored :: "(string, monitored_order) hmap \<Rightarrow> poller \<Rightarrow> poller" where
  "set_monitored ms p = p\<lparr>pl_monitored := ms, pl_gauge := length ms\<rparr>"

section \<open>Monitoring\<close>

definition register_lifecycle_order :: "string \<Rightarrow> monitored_order \<Rightarrow> poller \<Rightarrow> poller" where
  "register_lifecycle_order uuid m p =
     (let e = pl_engine p; oref = ClientOrderId (mo_order_id m) in
      if engine_get e oref \<noteq> None then p
      else case record_place_request uuid e
             \<lparr>pr_lifecycle_id = Some (''live-'' @ mo_order_id m), pr_client_order_id = mo_order_id m,
              pr_mint = mo_mint m, pr_market = mo_market m, pr_side = mo_side m, pr_price = mo_price m,
              pr_size = mo_original_size m, pr_time_in_force = GoodTilCancelled,
              pr_signal_id = mo_signal_id m\<rparr> of
             (e1, LcOk ord) \<Rightarrow> p\<lparr>pl_engine := fst (record_place_success e1 oref (mo_order_id m))\<rparr>
           | (e1, r) \<Rightarrow> p\<lparr>pl_engine := e1\<rparr>)"

definition monitor_order :: "string \<Rightarrow> monitored_order \<Rightarrow> poller \<Rightarrow> poller" where
  "monitor_order uuid m p =
     (let p1 = register_lifecycle_order uuid m p
      in set_monitored (hput (mo_order_id m) m (pl_monitored p1)) p1)"

definition poller_cancel_request :: "string \<Rightarrow> poller \<Rightarrow> poller" where
  "poller_cancel_request oid p =
     p\<lparr>pl_engine := fst (Lifecycle.record_cancel_request (pl_engine p) (ClientOrderId oid))\<rparr>"

definition should_emit_terminal_cancellation :: "string \<Rightarrow> poller \<Rightarrow> poller \<times> bool" where
  "should_emit_terminal_cancellation oid p =
     (let e = pl_engine p; oref = ClientOrderId oid in
      case map_option lc_state (engine_get e oref) of
        Some (Terminal t) \<Rightarrow> (p, False)
      | _ \<Rightarrow>
          (case record_terminal_evidence e oref TCancelled (Some oid) of
             (e1, LcOk ord) \<Rightarrow> (p\<lparr>pl_engine := e1\<rparr>, True)
           | (e1, r) \<Rightarrow> (p\<lparr>pl_engine := e1\<rparr>, False)))"

definition unmonitor_order :: "string \<Rightarrow> poller \<Rightarrow> poller" where
  "unmonitor_order oid p = set_monitored (hdel oid (pl_monitored p)) p"

section \<open>Polling\<close>

definition should_poll :: "(f64 \<Rightarrow> nat \<Rightarrow> f64) \<Rightarrow> poller_config \<Rightarrow> timestamp \<Rightarrow> monitored_order \<Rightarrow> bool" where
  "should_poll fpowi c now m =
     (let min_interval = (if 0 < mo_consecutive_failures m
            then calculate_backoff fpowi c (mo_consecutive_failures m) else pc_poll_interval c)
      in case time_since_poll now m of Some elapsed \<Rightarrow> min_interval \<le> elapsed | None \<Rightarrow> True)"

fun insert_by :: "('a \<Rightarrow> 'a \<Rightarrow> bool) \<Rightarrow> 'a \<Rightarrow> 'a list \<Rightarrow> 'a list" where
  "insert_by le x [] = [x]"
| "insert_by le x (y # ys) = (if le x y then x # y # ys else y # insert_by le x ys)"

text \<open>The stable sort of \<open>sort_by_key\<close>.\<close>

definition stable_sort_by :: "('a \<Rightarrow> 'a \<Rightarrow> bool) \<Rightarrow> 'a list \<Rightarrow> 'a list" where
  "stable_sort_by le xs = foldr (insert_by le) xs []"

definition select_orders_to_poll ::
  "(f64 \<Rightarrow> nat \<Rightarrow> f64) \<Rightarrow> timestamp \<Rightarrow> poller \<Rightarrow> string list" where
  "select_orders_to_poll fpowi now p =
     (let candidates = filter (should_poll fpowi (pl_config p) now) (hvals (pl_monitored p));
          sorted = stable_sort_by (\<lambda>a b. priority_le (poll_priority now a) (poll_priority now b)) candidates
      in map mo_order_id (take (pc_batch_size (pl_config p)) sorted))"

record api_order =
  ao_status :: string
  ao_size_matched :: "f64 option"

definition upper_ascii :: "char \<Rightarrow> char" where
  "upper_ascii c = (let n = (of_char c :: nat) in if 97 \<le> n \<and> n \<le> 122 then char_of (n - 32) else c)"

definition create_fill_event :: "timestamp \<Rightarrow> monitored_order \<Rightarrow> f64 \<Rightarrow> limit_order_event" where
  "create_fill_event now m size_matched =
     OrderPartiallyFilled (mo_order_id m) (mo_mint m) (mo_side m)
       (fsub size_matched (mo_last_known_filled m)) (fsub (mo_original_size m) size_matched)
       (mo_price m) now (mo_signal_id m) None"

definition offer_fill :: "timestamp \<Rightarrow> monitored_order \<Rightarrow> f64 \<Rightarrow> bool \<Rightarrow> poller \<Rightarrow> poller" where
  "offer_fill now m size_matched had_fill p =
     (if had_fill then enqueue_event (create_fill_event now m size_matched) p else p)"

definition finish_cancelled :: "timestamp \<Rightarrow> string \<Rightarrow> string \<Rightarrow> poller \<Rightarrow> poller" where
  "finish_cancelled now oid reason p =
     (case should_emit_terminal_cancellation oid p of
        (p1, emit) \<Rightarrow>
          unmonitor_order oid
            (if emit then enqueue_event (OrderCancelled oid (Some reason) now) p1 else p1))"

record single_poll_result =
  sp_had_fill :: bool
  sp_completed :: bool

definition poll_answered ::
  "timestamp \<Rightarrow> monitored_order \<Rightarrow> api_order \<Rightarrow> string \<Rightarrow> poller \<Rightarrow> poller \<times> single_poll_result" where
  "poll_answered now m api oid p =
     (let size_matched = unwrap_or (ao_size_matched api) f0;
          had_fill = flt (mo_last_known_filled m) size_matched;
          order_status = map upper_ascii (ao_status api);
          p1 = offer_fill now m size_matched had_fill p
      in if order_status = ''CANCELED'' then
           (finish_cancelled now oid ''Cancelled externally'' p1, \<lparr>sp_had_fill = had_fill, sp_completed = True\<rparr>)
         else if order_status = ''INVALID'' then
           (finish_cancelled now oid ''Order invalid (market expired)'' p1,
            \<lparr>sp_had_fill = had_fill, sp_completed = True\<rparr>)
         else
           (case hget (pl_monitored p1) oid of
              None \<Rightarrow> (p1, \<lparr>sp_had_fill = had_fill, sp_completed = True\<rparr>)
            | Some current \<Rightarrow>
                let m' = record_poll_success now size_matched current in
                if is_fully_filled m' \<or> order_status = ''MATCHED''
                then (set_monitored (hdel oid (pl_monitored p1)) p1,
                      \<lparr>sp_had_fill = had_fill, sp_completed = True\<rparr>)
                else (p1\<lparr>pl_monitored := hput oid m' (pl_monitored p1)\<rparr>,
                      \<lparr>sp_had_fill = had_fill, sp_completed = False\<rparr>)))"

definition poll_failed :: "timestamp \<Rightarrow> string \<Rightarrow> string \<Rightarrow> poller \<Rightarrow> poller \<times> (string + single_poll_result)" where
  "poll_failed now err oid p =
     (if str_contains err ''404'' \<or> str_contains err ''not found'' then
        (finish_cancelled now oid ''Order not found (deleted/expired)'' p,
         Inr \<lparr>sp_had_fill = False, sp_completed = True\<rparr>)
      else
        (case hget (pl_monitored p) oid of
           None \<Rightarrow> (p, Inl err)
         | Some m \<Rightarrow>
             let m' = record_poll_failure now m in
             if pc_max_consecutive_failures (pl_config p) \<le> mo_consecutive_failures m'
             then (set_monitored (hdel oid (pl_monitored p)) p, Inl err)
             else (p\<lparr>pl_monitored := hput oid m' (pl_monitored p)\<rparr>, Inl err)))"

definition poll_single_order ::
  "timestamp \<Rightarrow> string + api_order \<Rightarrow> string \<Rightarrow> poller \<Rightarrow> poller \<times> (string + single_poll_result)" where
  "poll_single_order now answer oid p =
     (case hget (pl_monitored p) oid of
        None \<Rightarrow> (p, Inr \<lparr>sp_had_fill = False, sp_completed = True\<rparr>)
      | Some m \<Rightarrow>
          (case answer of
             Inl err \<Rightarrow> poll_failed now err oid p
           | Inr api \<Rightarrow> (case poll_answered now m api oid p of (p1, r) \<Rightarrow> (p1, Inr r))))"

definition prune_stale_orders :: "timestamp \<Rightarrow> poller \<Rightarrow> poller" where
  "prune_stale_orders now p =
     (let stale_ids = map mo_order_id
            (filter (\<lambda>m. pc_max_order_age (pl_config p) < age now m) (hvals (pl_monitored p)));
          ms = foldl (\<lambda>ms oid. hdel oid ms) (pl_monitored p) stale_ids
      in if ms = [] then p\<lparr>pl_monitored := ms\<rparr> else set_monitored ms p)"

text \<open>One cycle; each order carries the clock reading and the answer of its request.\<close>

definition poll_step ::
  "(string \<Rightarrow> timestamp \<times> (string + api_order)) \<Rightarrow> poller \<times> poll_cycle_result \<Rightarrow> string \<Rightarrow>
   poller \<times> poll_cycle_result" where
  "poll_step reply acc oid =
     (case acc of (p, res) \<Rightarrow>
        (case poll_single_order (fst (reply oid)) (snd (reply oid)) oid p of
           (p1, Inr r) \<Rightarrow>
             (p1, let res1 = record_poll (sp_had_fill r) res
                  in if sp_completed r then record_completion res1 else res1)
         | (p1, Inl e) \<Rightarrow> (p1, record_error res)))"

definition poll_cycle ::
  "(f64 \<Rightarrow> nat \<Rightarrow> f64) \<Rightarrow> timestamp \<Rightarrow> (string \<Rightarrow> timestamp \<times> (string + api_order)) \<Rightarrow> timestamp \<Rightarrow>
   poller \<Rightarrow> poller \<times> poll_cycle_result" where
  "poll_cycle fpowi now reply later p =
     (let ids = select_orders_to_poll fpowi now p in
      if ids = [] then (p, empty_cycle)
      else case foldl (poll_step reply) (p, empty_cycle) ids of
             (p1, res) \<Rightarrow> (prune_stale_orders later p1, res))"


section \<open>What the operations do to the engine and the queue\<close>

lemma terminal_evidence_result:
  assumes "record_terminal_evidence e (ClientOrderId c) reason v = (e', r)"
  shows "(\<exists>ord. r = LcOk ord \<and> look e' c = Some ord \<and> lco_is_terminal ord) \<or> (\<forall>ord. r \<noteq> LcOk ord) \<and> e' = e"
proof (cases "hget (client_to_lifecycle e) c")
  case None
  then show ?thesis using assms by (auto simp: record_terminal_evidence_def)
next
  case (Some l)
  have commit: "look (refresh_queue_depth (emit_transition a b (put_order l ord e1))) c = Some ord"
    if "client_to_lifecycle e1 = client_to_lifecycle e" for a b ord e1
    using Some that by (simp add: engine_get_def)
  have dedup: "look (emit_terminal_dedup ev e) c = look e c" for ev
    by (rule look_core) simp
  show ?thesis
  proof (cases "hget (orders e) l")
    case None
    then show ?thesis using assms Some by (auto simp: record_terminal_evidence_def)
  next
    case snap: (Some snap)
    have l: "look e c = Some snap" using Some snap by (simp add: engine_get_def)
    have "ensure_venue_mapping e l x = Inr e1 \<Longrightarrow> client_to_lifecycle e1 = client_to_lifecycle e" for x e1
      using ensure_venue_mapping_core by blast
    then show ?thesis
      using assms Some snap l dedup commit
      by (auto simp: record_terminal_evidence_def Let_def lco_is_terminal_def
          split: option.splits if_splits sum.splits)
  qed
qed

lemma cancelled_evidence_quiet:
  "steps_by quiet c e (fst (record_terminal_evidence e (ClientOrderId c) TCancelled v))"
  using quiet_confirm [of c e v] by (simp add: record_cancel_confirmed_def)

definition open_or_unknown :: "engine \<Rightarrow> string \<Rightarrow> bool" where
  "open_or_unknown e c \<longleftrightarrow> (\<forall>ord. look e c = Some ord \<longrightarrow> \<not> lco_is_terminal ord)"

definition closed_in :: "engine \<Rightarrow> string \<Rightarrow> bool" where
  "closed_in e c \<longleftrightarrow> (\<exists>ord. look e c = Some ord \<and> lco_is_terminal ord)"

lemma closed_not_open: "closed_in e c \<Longrightarrow> \<not> open_or_unknown e c"
  by (auto simp: closed_in_def open_or_unknown_def)

text \<open>A cancellation of the poller: either nothing is emitted and the engine stays, or one event is
  emitted and the record, which was open, is closed.\<close>

lemma should_emit_cases:
  assumes "should_emit_terminal_cancellation oid p = (p1, emit)"
  shows "p1 = p\<lparr>pl_engine := pl_engine p1\<rparr>"
    and "emit \<Longrightarrow> closed_in (pl_engine p1) oid \<and> open_or_unknown (pl_engine p) oid"
    and "\<not> emit \<Longrightarrow> p1 = p"
    and "pl_engine p1 = pl_engine p \<or>
      pl_engine p1 = fst (record_terminal_evidence (pl_engine p) (ClientOrderId oid) TCancelled (Some oid))"
proof -
  let ?e = "pl_engine p"
  obtain e' r where ev: "record_terminal_evidence ?e (ClientOrderId oid) TCancelled (Some oid) = (e', r)"
    by fastforce
  note res = terminal_evidence_result [OF ev]
  have "p1 = p\<lparr>pl_engine := pl_engine p1\<rparr> \<and> (emit \<longrightarrow> closed_in (pl_engine p1) oid \<and> open_or_unknown ?e oid)
    \<and> (\<not> emit \<longrightarrow> p1 = p) \<and> (pl_engine p1 = ?e \<or> pl_engine p1 = e')"
  proof (cases "\<exists>ord t. look ?e oid = Some ord \<and> lc_state ord = Terminal t")
    case True
    then show ?thesis using assms by (auto simp: should_emit_terminal_cancellation_def Let_def)
  next
    case False
    then have "open_or_unknown ?e oid"
      by (auto simp: open_or_unknown_def lco_is_terminal_def elim: lc_is_terminal.elims)
    moreover have "should_emit_terminal_cancellation oid p =
        (p\<lparr>pl_engine := e'\<rparr>, case r of LcOk ord \<Rightarrow> True | _ \<Rightarrow> False)"
      using False ev by (auto simp: should_emit_terminal_cancellation_def Let_def
          split: option.splits lc_state.splits lc_result.splits)
    ultimately show ?thesis
      using assms res by (auto simp: closed_in_def split: lc_result.splits)
  qed
  then show "p1 = p\<lparr>pl_engine := pl_engine p1\<rparr>"
    "emit \<Longrightarrow> closed_in (pl_engine p1) oid \<and> open_or_unknown (pl_engine p) oid"
    "\<not> emit \<Longrightarrow> p1 = p"
    "pl_engine p1 = pl_engine p \<or>
      pl_engine p1 = fst (record_terminal_evidence (pl_engine p) (ClientOrderId oid) TCancelled (Some oid))"
    using ev by auto
qed

lemma finish_cancelled_cases:
  obtains "pl_queue (finish_cancelled now oid reason p) = pl_queue p"
      "pl_engine (finish_cancelled now oid reason p) = pl_engine p"
      "pl_monitored (finish_cancelled now oid reason p) = hdel oid (pl_monitored p)"
  | "pl_queue (finish_cancelled now oid reason p) =
        pl_queue p @ [LimitOrderEv (OrderCancelled oid (Some reason) now)]"
      "closed_in (pl_engine (finish_cancelled now oid reason p)) oid" "open_or_unknown (pl_engine p) oid"
      "pl_engine (finish_cancelled now oid reason p) = pl_engine p \<or>
        pl_engine (finish_cancelled now oid reason p) =
          fst (record_terminal_evidence (pl_engine p) (ClientOrderId oid) TCancelled (Some oid))"
      "pl_monitored (finish_cancelled now oid reason p) = hdel oid (pl_monitored p)"
proof -
  obtain p1 emit where s: "should_emit_terminal_cancellation oid p = (p1, emit)" by fastforce
  note c = should_emit_cases [OF s]
  have frame: "pl_queue p1 = pl_queue p" "pl_monitored p1 = pl_monitored p"
    by (subst c(1), simp)+
  have f: "finish_cancelled now oid reason p =
      unmonitor_order oid (if emit then enqueue_event (OrderCancelled oid (Some reason) now) p1 else p1)"
    by (simp add: finish_cancelled_def s)
  show ?thesis
  proof (cases emit)
    case True
    with c(2,4) frame show ?thesis
      by (intro that(2)) (simp_all add: f unmonitor_order_def set_monitored_def enqueue_event_def)
  next
    case False
    with c(3) frame show ?thesis
      by (intro that(1)) (simp_all add: f unmonitor_order_def set_monitored_def)
  qed
qed

section \<open>The engine of the poller\<close>

text \<open>Every record has been acknowledged, under the id of the venue.\<close>

definition live_engine :: "engine \<Rightarrow> bool" where
  "live_engine e \<longleftrightarrow> sim_engine e \<and> (\<forall>d ord. look e d = Some ord \<longrightarrow> lc_state ord \<noteq> SubmitPending)"

text \<open>A call about \<open>c\<close>: the engine stays live, moves forward, and leaves all other ids alone.\<close>

definition live_step :: "string \<Rightarrow> engine \<Rightarrow> engine \<Rightarrow> bool" where
  "live_step c e e' \<longleftrightarrow> live_engine e' \<and> engine_le e e' \<and> (\<forall>d. d \<noteq> c \<longrightarrow> look e' d = look e d)"

lemma live_step_refl: "live_engine e \<Longrightarrow> live_step c e e"
  by (simp add: live_step_def engine_le_refl)

lemma live_lc_inv: "live_engine e \<Longrightarrow> lc_inv e"
  by (simp add: live_engine_def sim_engine_def)

lemma live_stepI:
  assumes "live_engine e" "lc_rel e e'" "own_venues e'" "cancel_policy e' = Idempotent"
    and "\<And>d. d \<noteq> c \<Longrightarrow> look e' d = look e d"
    and "\<And>ord. look e' c = Some ord \<Longrightarrow> lc_state ord \<noteq> SubmitPending"
  shows "live_step c e e'"
proof -
  note inv = live_lc_inv [OF assms(1)]
  have "lc_state ord \<noteq> SubmitPending" if "look e' d = Some ord" for d ord
  proof (cases "d = c")
    case True
    with that assms(6) show ?thesis by simp
  next
    case False
    with that assms(5) have "look e d = Some ord" by simp
    with assms(1) show ?thesis by (auto simp: live_engine_def)
  qed
  then show ?thesis
    using assms(3-5) lc_rel_inv [OF assms(2) inv] lc_rel_le [OF assms(2) inv]
    by (simp add: live_step_def live_engine_def sim_engine_def)
qed

lemma unknown_unmapped:
  assumes "lc_inv e" "look e c = None"
  shows "hget (client_to_lifecycle e) c = None"
proof (rule ccontr)
  assume "hget (client_to_lifecycle e) c \<noteq> None"
  then obtain l where l: "hget (client_to_lifecycle e) c = Some l" by blast
  have "index_ok (hget (orders e)) (\<lambda>ord. Some (lc_client_order_id ord)) (hget (client_to_lifecycle e))"
    using assms(1) by (simp add: lc_inv_def)
  from index_okD [OF this l] assms(2) l show False by (auto simp: engine_get_def)
qed

lemma live_booked: "live_engine e \<Longrightarrow> look e c = Some ord \<Longrightarrow> booked e c"
  by (auto simp: live_engine_def booked_def)

lemma closed_kept: "engine_le e e' \<Longrightarrow> closed_in e c \<Longrightarrow> closed_in e' c"
  using look_forward by (fastforce simp: closed_in_def)

lemma booked_state:
  assumes "engine_le e e'" "live_engine e" "look e c = Some snap" "look e' c = Some ord"
  shows "lc_state ord \<noteq> SubmitPending"
  using booked_le [OF assms(1) live_booked [OF assms(2,3)]] assms(4) by (auto simp: booked_def)

lemma cancel_live_step:
  assumes "live_engine e"
  shows "live_step c e (fst (Lifecycle.record_cancel_request e (ClientOrderId c)))"
    and "open_or_unknown e d \<Longrightarrow> open_or_unknown (fst (Lifecycle.record_cancel_request e (ClientOrderId c))) d"
proof -
  let ?e' = "fst (Lifecycle.record_cancel_request e (ClientOrderId c))"
  have sim: "lc_inv e" "own_venues e" "cancel_policy e = Idempotent"
    using assms by (simp_all add: live_engine_def sim_engine_def)
  have other: "d \<noteq> c \<Longrightarrow> look ?e' d = look e d" for d
    by (rule steps_by_other [OF sim(1) quiet_cancel])
  have rel: "lc_rel e ?e'" by (rule cancel_request_rel)
  have self: "look ?e' c = look e c \<or>
      (\<exists>snap ord. look e c = Some snap \<and> look ?e' c = Some ord \<and> quiet snap ord)"
    by (rule steps_by_self [OF quiet_cancel])
  show "live_step c e ?e'"
  proof (rule live_stepI [OF assms rel client_cancel(2,3) [OF sim] other])
    fix ord assume "look ?e' c = Some ord"
    with self show "lc_state ord \<noteq> SubmitPending"
      using booked_state [OF lc_rel_le [OF rel sim(1)] assms] assms by (auto simp: live_engine_def)
  qed
  show "open_or_unknown ?e' d" if o: "open_or_unknown e d"
  proof (cases "d = c")
    case True
    have "\<not> lco_is_terminal ord"
      if snap: "look e c = Some snap" "\<not> lco_is_terminal snap" and ord: "look ?e' c = Some ord" for snap ord
    proof -
      obtain l where l: "hget (client_to_lifecycle e) c = Some l" "hget (orders e) l = Some snap"
        using look_split [OF sim(1) snap(1)] by blast
      show ?thesis
        using snap(2) ord l
        by (cases "lc_state snap") (auto simp: record_cancel_request_def engine_get_def Let_def lco_is_terminal_def)
    qed
    moreover have "look e c = None \<Longrightarrow> look ?e' c = None" using self by auto
    ultimately show ?thesis
      using o True unfolding open_or_unknown_def by (cases "look e c") auto
  next
    case False
    then show ?thesis using o other by (simp add: open_or_unknown_def)
  qed
qed

lemma evidence_live_step:
  assumes "live_engine e"
  shows "live_step c e (fst (record_terminal_evidence e (ClientOrderId c) TCancelled (Some c)))"
proof (cases "look e c")
  case None
  with live_lc_inv [OF assms] have "hget (client_to_lifecycle e) c = None" by (rule unknown_unmapped)
  then show ?thesis using assms by (simp add: record_terminal_evidence_def live_step_refl)
next
  case (Some snap)
  let ?e' = "fst (record_terminal_evidence e (ClientOrderId c) TCancelled (Some c))"
  have sim: "lc_inv e" "own_venues e" "cancel_policy e = Idempotent" and st: "lc_state snap \<noteq> SubmitPending"
    using assms Some by (simp_all add: live_engine_def sim_engine_def)
  obtain ord where s: "serves c e (record_cancel_confirmed e (ClientOrderId c) (Some c)) ord"
    using client_confirm [OF sim(1,2) Some st] by blast
  have rel: "lc_rel e ?e'" by (rule terminal_evidence_rel)
  show ?thesis
    by (rule live_stepI [OF assms rel _ _ steps_by_other [OF sim(1) cancelled_evidence_quiet]])
      (use s sim(3) booked_state [OF lc_rel_le [OF rel sim(1)] assms Some] in
        \<open>auto simp: serves_def record_cancel_confirmed_def\<close>)
qed

lemma success_not_terminal:
  assumes "record_place_success e (ClientOrderId c) v = (e', LcOk ord)" "look e c = Some snap"
    "\<not> lco_is_terminal snap"
  shows "\<not> lco_is_terminal ord"
proof -
  obtain l where l: "hget (client_to_lifecycle e) c = Some l" "hget (orders e) l = Some snap"
    using assms(2) by (auto simp: engine_get_def bind_eq_Some_conv)
  show ?thesis
    using assms(1,3)
    by (cases "lc_state snap")
      (auto simp: record_place_success_def l lco_is_terminal_def Let_def split: option.splits sum.splits prod.splits if_splits)
qed

lemma place_leaves_others:
  assumes "lc_inv e" "d \<noteq> pr_client_order_id r"
  shows "look (fst (record_place_request u e r)) d = look e d"
proof (cases "look e d")
  case (Some ord)
  then show ?thesis by (simp add: place_other)
next
  case None
  with assms(1) have "hget (client_to_lifecycle e) d = None" by (rule unknown_unmapped)
  then show ?thesis
    using assms(2) None by (auto simp: record_place_request_def engine_get_def Let_def split: option.splits)
qed

lemma register_live_step:
  assumes "live_engine (pl_engine p)" "look (pl_engine p) (mo_order_id m) = None"
  shows "live_step (mo_order_id m) (pl_engine p) (pl_engine (register_lifecycle_order u m p))"
    and "open_or_unknown (pl_engine (register_lifecycle_order u m p)) (mo_order_id m)"
    and "\<not> fle (mo_original_size m) f0 \<Longrightarrow> hget (orders (pl_engine p)) (''live-'' @ mo_order_id m) = None \<Longrightarrow>
      look (pl_engine (register_lifecycle_order u m p)) (mo_order_id m) \<noteq> None"
proof -
  let ?e = "pl_engine p" and ?c = "mo_order_id m"
  define r where "r = \<lparr>pr_lifecycle_id = Some (''live-'' @ mo_order_id m), pr_client_order_id = mo_order_id m,
              pr_mint = mo_mint m, pr_market = mo_market m, pr_side = mo_side m, pr_price = mo_price m,
              pr_size = mo_original_size m, pr_time_in_force = GoodTilCancelled,
              pr_signal_id = mo_signal_id m\<rparr>"
  have rc: "pr_client_order_id r = ?c" by (simp add: r_def)
  have inv: "lc_inv ?e" by (rule live_lc_inv [OF assms(1)])
  obtain e1 x where e1: "record_place_request u ?e r = (e1, x)" by fastforce
  have reg: "pl_engine (register_lifecycle_order u m p) =
      (case x of LcOk ord \<Rightarrow> fst (record_place_success e1 (ClientOrderId ?c) ?c) | _ \<Rightarrow> e1)"
    using assms(2) e1 by (simp add: register_lifecycle_order_def Let_def r_def split: lc_result.split)
  have rel1: "lc_rel ?e e1" using place_request_rel [of ?e u r] e1 by simp
  note inv1 = lc_rel_inv [OF rel1 inv] and le1 = lc_rel_le [OF rel1 inv]
  have own1: "own_venues e1" "cancel_policy e1 = Idempotent"
    using request_own_venues [where e = ?e and u = u and r = r] assms(1) e1 by (simp_all add: live_engine_def sim_engine_def)
  have other1: "d \<noteq> ?c \<Longrightarrow> look e1 d = look ?e d" for d
    using place_leaves_others [OF inv, of d r u] e1 rc by simp
  have "live_step ?c ?e (pl_engine (register_lifecycle_order u m p))
    \<and> open_or_unknown (pl_engine (register_lifecycle_order u m p)) ?c
    \<and> (\<not> fle (mo_original_size m) f0 \<longrightarrow> hget (orders ?e) (''live-'' @ ?c) = None \<longrightarrow>
        look (pl_engine (register_lifecycle_order u m p)) ?c \<noteq> None)"
  proof (cases x)
    case (LcOk ord)
    have l1: "look e1 ?c = Some ord" "lc_state ord = SubmitPending"
      using place_looks [where u = u and e = ?e and r = r and ord = ord] e1 LcOk rc by auto
    obtain ord' where s: "serves ?c e1 (record_place_success e1 (ClientOrderId ?c) ?c) ord'"
      "lc_state ord' \<noteq> SubmitPending"
      using client_success [OF inv1 own1(1) l1(1)] by blast
    have "\<not> lco_is_terminal ord'"
      using success_not_terminal [of e1 ?c ?c _ ord' ord] s(1) l1
      by (cases "record_place_success e1 (ClientOrderId ?c) ?c") (auto simp: serves_def lco_is_terminal_def)
    let ?e2 = "fst (record_place_success e1 (ClientOrderId ?c) ?c)"
    have rel2: "lc_rel e1 ?e2" by (rule place_success_rel)
    have "live_engine ?e2"
      unfolding live_engine_def sim_engine_def
    proof (intro conjI allI impI)
      show "lc_inv ?e2" by (rule lc_rel_inv [OF rel2 inv1])
      show "own_venues ?e2" "cancel_policy ?e2 = Idempotent" using s(1) own1 by (simp_all add: serves_def)
      fix d o' assume d: "look ?e2 d = Some o'"
      show "lc_state o' \<noteq> SubmitPending"
      proof (cases "d = ?c")
        case True
        then show ?thesis using d s by (simp add: serves_def)
      next
        case False
        then have "look ?e d = Some o'"
          using d other1 steps_by_other [OF inv1 quiet_success] by simp
        then show ?thesis using assms(1) by (auto simp: live_engine_def)
      qed
    qed
    moreover have "engine_le ?e ?e2" using le1 lc_rel_le [OF rel2 inv1] by (rule engine_le_trans)
    moreover have "d \<noteq> ?c \<Longrightarrow> look ?e2 d = look ?e d" for d
      using other1 steps_by_other [OF inv1 quiet_success] by simp
    ultimately show ?thesis
      using LcOk reg s(1) \<open>\<not> lco_is_terminal ord'\<close>
      by (auto simp: live_step_def open_or_unknown_def serves_def)
  next
    case (LcErr err)
    then have same: "e1 = ?e"
      using e1 by (auto simp: record_place_request_def Let_def split: if_splits option.splits)
    have "fle (mo_original_size m) f0 \<or> hget (orders ?e) (''live-'' @ ?c) \<noteq> None"
    proof (rule ccontr)
      assume "\<not> ?thesis"
      moreover have "hget (client_to_lifecycle ?e) ?c = None" using inv assms(2) by (rule unknown_unmapped)
      ultimately show False using e1 LcErr by (auto simp: record_place_request_def r_def Let_def split: option.splits)
    qed
    then show ?thesis
      using LcErr reg same assms by (auto simp: live_step_refl open_or_unknown_def)
  next
    case LcPanic
    then have False
      using e1 by (auto simp: record_place_request_def Let_def split: if_splits option.splits)
    then show ?thesis ..
  qed
  then show "live_step ?c ?e (pl_engine (register_lifecycle_order u m p))"
    "open_or_unknown (pl_engine (register_lifecycle_order u m p)) ?c"
    "\<not> fle (mo_original_size m) f0 \<Longrightarrow> hget (orders ?e) (''live-'' @ ?c) = None \<Longrightarrow>
      look (pl_engine (register_lifecycle_order u m p)) ?c \<noteq> None" by blast+
qed


section \<open>Runs of the poller\<close>

fun about :: "string \<Rightarrow> system_event \<Rightarrow> bool" where
  "about oid (LimitOrderEv ev) = (event_order_id ev = Some oid)"
| "about oid e = False"

fun cancels :: "string \<Rightarrow> system_event \<Rightarrow> bool" where
  "cancels oid (LimitOrderEv (OrderCancelled i r t)) = (i = oid)"
| "cancels oid e = False"

text \<open>Nothing about an order follows its cancellation.\<close>

fun sealed :: "system_event list \<Rightarrow> bool" where
  "sealed [] = True"
| "sealed (e # es) = ((\<forall>oid. cancels oid e \<longrightarrow> \<not> list_ex (about oid) es) \<and> sealed es)"

lemma cancels_about: "cancels oid e \<Longrightarrow> about oid e"
  by (cases "(oid, e)" rule: cancels.cases) auto

lemma sealed_snoc:
  "sealed (es @ [e]) \<longleftrightarrow> sealed es \<and> (\<forall>oid. list_ex (cancels oid) es \<longrightarrow> \<not> about oid e)"
  by (induction es) auto

definition poller_inv :: "poller \<Rightarrow> bool" where
  "poller_inv p \<longleftrightarrow>
     live_engine (pl_engine p)
     \<and> (\<forall>oid m. hget (pl_monitored p) oid = Some m \<longrightarrow> mo_order_id m = oid \<and> open_or_unknown (pl_engine p) oid)
     \<and> (\<forall>oid. list_ex (cancels oid) (pl_queue p) \<longrightarrow> closed_in (pl_engine p) oid)
     \<and> sealed (pl_queue p)"

lemma poller_invD:
  assumes "poller_inv p"
  shows "live_engine (pl_engine p)" "sealed (pl_queue p)"
    "hget (pl_monitored p) oid = Some m \<Longrightarrow> mo_order_id m = oid"
    "hget (pl_monitored p) oid = Some m \<Longrightarrow> open_or_unknown (pl_engine p) oid"
    "list_ex (cancels oid) (pl_queue p) \<Longrightarrow> closed_in (pl_engine p) oid"
  using assms by (auto simp: poller_inv_def)

text \<open>An id is fresh when neither the engine nor an event has seen it: the venue never gives an id twice.\<close>

definition fresh_id :: "poller \<Rightarrow> string \<Rightarrow> bool" where
  "fresh_id p oid \<longleftrightarrow> look (pl_engine p) oid = None \<and> \<not> list_ex (about oid) (pl_queue p)"

inductive poller_run :: "poller_config \<Rightarrow> (string + api_order \<Rightarrow> bool) \<Rightarrow> poller \<Rightarrow> bool" for c ok where
  start: "poller_run c ok (poller_new c)"
| monitored: "poller_run c ok p \<Longrightarrow> fresh_id p (mo_order_id m) \<Longrightarrow> mo_last_known_filled m = f0 \<Longrightarrow>
    poller_run c ok (monitor_order u m p)"
| cancel_asked: "poller_run c ok p \<Longrightarrow> poller_run c ok (poller_cancel_request oid p)"
| unmonitored: "poller_run c ok p \<Longrightarrow> poller_run c ok (unmonitor_order oid p)"
| polled: "poller_run c ok p \<Longrightarrow> ok answer \<Longrightarrow> poller_run c ok (fst (poll_single_order now answer oid p))"
| pruned: "poller_run c ok p \<Longrightarrow> poller_run c ok (prune_stale_orders now p)"

text \<open>A step that keeps the queue, touches the engine for one id only and monitors no more orders.\<close>

lemma keeps_inv:
  assumes "poller_inv p" "live_step oid (pl_engine p) (pl_engine p')" "pl_queue p' = pl_queue p"
    "\<And>d m. hget (pl_monitored p') d = Some m \<Longrightarrow> mo_order_id m = d \<and> open_or_unknown (pl_engine p') d"
  shows "poller_inv p'"
  using assms closed_kept poller_invD(5) [OF assms(1)] poller_invD(2) [OF assms(1)]
  by (auto simp: poller_inv_def live_step_def)

lemma hget_hdel_Some: "hget (hdel k m) d = Some v \<Longrightarrow> d \<noteq> k \<and> hget m d = Some v"
  by (simp split: if_splits)

lemma monitor_inv:
  assumes "poller_inv p" "fresh_id p (mo_order_id m)"
  shows "poller_inv (monitor_order u m p)"
proof -
  let ?p1 = "register_lifecycle_order u m p"
  have look: "look (pl_engine p) (mo_order_id m) = None" using assms(2) by (simp add: fresh_id_def)
  note r = register_live_step [OF poller_invD(1) [OF assms(1)] look, of u]
  have frame: "pl_queue ?p1 = pl_queue p" "pl_monitored ?p1 = pl_monitored p"
    by (simp_all add: register_lifecycle_order_def Let_def split: lc_result.split prod.split)
  show ?thesis
  proof (rule keeps_inv [OF assms(1)])
    show "live_step (mo_order_id m) (pl_engine p) (pl_engine (monitor_order u m p))"
      using r(1) by (simp add: monitor_order_def set_monitored_def Let_def)
    show "pl_queue (monitor_order u m p) = pl_queue p"
      by (simp add: monitor_order_def set_monitored_def Let_def frame)
    fix d m' assume "hget (pl_monitored (monitor_order u m p)) d = Some m'"
    then have "(d = mo_order_id m \<and> m' = m) \<or> (d \<noteq> mo_order_id m \<and> hget (pl_monitored p) d = Some m')"
      by (simp add: monitor_order_def set_monitored_def Let_def frame split: if_splits)
    then show "mo_order_id m' = d \<and> open_or_unknown (pl_engine (monitor_order u m p)) d"
      using r(1,2) poller_invD(3,4) [OF assms(1)]
      by (auto simp: monitor_order_def set_monitored_def Let_def live_step_def open_or_unknown_def)
  qed
qed

lemma cancel_request_inv:
  assumes "poller_inv p" shows "poller_inv (poller_cancel_request oid p)"
proof (rule keeps_inv [OF assms, of oid])
  show "live_step oid (pl_engine p) (pl_engine (poller_cancel_request oid p))"
    using cancel_live_step(1) [OF poller_invD(1) [OF assms]] by (simp add: poller_cancel_request_def)
  fix d m assume "hget (pl_monitored (poller_cancel_request oid p)) d = Some m"
  then have "hget (pl_monitored p) d = Some m" by (simp add: poller_cancel_request_def)
  then show "mo_order_id m = d \<and> open_or_unknown (pl_engine (poller_cancel_request oid p)) d"
    using cancel_live_step(2) [OF poller_invD(1) [OF assms]] poller_invD(3,4) [OF assms]
    by (simp add: poller_cancel_request_def)
qed (simp add: poller_cancel_request_def)

lemma shrink_inv:
  assumes "poller_inv p" "pl_engine p' = pl_engine p" "pl_queue p' = pl_queue p"
    "\<And>d m. hget (pl_monitored p') d = Some m \<Longrightarrow> hget (pl_monitored p) d = Some m"
  shows "poller_inv p'"
  using assms unfolding poller_inv_def by metis

lemma unmonitor_inv: "poller_inv p \<Longrightarrow> poller_inv (unmonitor_order oid p)"
  by (erule shrink_inv) (auto simp: unmonitor_order_def set_monitored_def split: if_splits)

lemma hget_fold_hdel: "hget (foldl (\<lambda>ms oid. hdel oid ms) ms ids) d = Some m \<Longrightarrow> hget ms d = Some m"
  by (induction ids arbitrary: ms) (auto dest: hget_hdel_Some)

lemma prune_inv: "poller_inv p \<Longrightarrow> poller_inv (prune_stale_orders now p)"
  by (erule shrink_inv) (auto simp: prune_stale_orders_def set_monitored_def Let_def split: if_splits dest: hget_fold_hdel)

lemma enqueue_inv:
  assumes "poller_inv p" "hget (pl_monitored p) (mo_order_id m) = Some m'"
  shows "poller_inv (offer_fill now m q had_fill p)"
proof -
  have "\<not> closed_in (pl_engine p) (mo_order_id m)"
    using poller_invD(4) [OF assms] closed_not_open by blast
  then have "\<not> list_ex (cancels (mo_order_id m)) (pl_queue p)"
    using poller_invD(5) [OF assms(1)] by blast
  then show ?thesis
    using assms(1) by (auto simp: poller_inv_def offer_fill_def enqueue_event_def create_fill_event_def sealed_snoc)
qed

lemma finish_inv:
  assumes "poller_inv p"
  shows "poller_inv (finish_cancelled now oid reason p)"
proof (cases rule: finish_cancelled_cases [of now oid reason p])
  case 1
  then show ?thesis by (intro shrink_inv [OF assms]) (auto split: if_splits)
next
  case 2
  let ?p' = "finish_cancelled now oid reason p"
  have st: "live_step oid (pl_engine p) (pl_engine ?p')"
    using 2(4) evidence_live_step [OF poller_invD(1) [OF assms], of oid]
      live_step_refl [OF poller_invD(1) [OF assms], of oid] by auto
  have "\<not> list_ex (cancels oid) (pl_queue p)"
    using 2(3) poller_invD(5) [OF assms, of oid] closed_not_open by blast
  then have "sealed (pl_queue ?p')"
    using 2(1) poller_invD(2) [OF assms] by (auto simp: sealed_snoc)
  moreover have "closed_in (pl_engine ?p') d" if "list_ex (cancels d) (pl_queue ?p')" for d
    using that 2(1,2) st closed_kept poller_invD(5) [OF assms, of d] by (auto simp: live_step_def)
  moreover have "mo_order_id m = d \<and> open_or_unknown (pl_engine ?p') d"
    if "hget (pl_monitored ?p') d = Some m" for d m
  proof -
    have "d \<noteq> oid \<and> hget (pl_monitored p) d = Some m" using that 2(5) hget_hdel_Some by metis
    then show ?thesis
      using st poller_invD(3,4) [OF assms, of d m] by (auto simp: live_step_def open_or_unknown_def)
  qed
  ultimately show ?thesis using st by (auto simp: poller_inv_def live_step_def)
qed

lemma store_inv:
  assumes "poller_inv p" "hget (pl_monitored p) oid = Some m" "mo_order_id m' = mo_order_id m"
  shows "poller_inv (p\<lparr>pl_monitored := hput oid m' (pl_monitored p)\<rparr>)"
  using assms by (auto simp: poller_inv_def)

lemma poll_frames [simp]:
  "pl_monitored (offer_fill now m q b p) = pl_monitored p"
  "pl_engine (offer_fill now m q b p) = pl_engine p"
  "pl_config (offer_fill now m q b p) = pl_config p"
  "mo_order_id (record_poll_success now q m) = mo_order_id m"
  "mo_order_id (record_poll_failure now m) = mo_order_id m"
  by (simp_all add: offer_fill_def enqueue_event_def record_poll_success_def record_poll_failure_def)

lemma unlist_inv: "poller_inv p \<Longrightarrow> poller_inv (set_monitored (hdel oid (pl_monitored p)) p)"
  using unmonitor_inv [of p oid] by (simp add: unmonitor_order_def)

lemma poll_inv:
  assumes "poller_inv p"
  shows "poller_inv (fst (poll_single_order now answer oid p))"
proof (cases "hget (pl_monitored p) oid")
  case None
  then show ?thesis using assms by (simp add: poll_single_order_def)
next
  case (Some m)
  have oid: "mo_order_id m = oid" by (rule poller_invD(3) [OF assms Some])
  show ?thesis
  proof (cases answer)
    case (Inl err)
    then show ?thesis
      using assms Some oid finish_inv [OF assms] unlist_inv [OF assms] store_inv [OF assms Some]
      by (auto simp: poll_single_order_def poll_failed_def Let_def)
  next
    case (Inr api)
    let ?q = "unwrap_or (ao_size_matched api) f0"
    let ?p1 = "offer_fill now m ?q (flt (mo_last_known_filled m) ?q) p"
    have i1: "poller_inv ?p1" by (rule enqueue_inv [OF assms]) (use Some oid in simp)
    show ?thesis
      using Inr Some oid finish_inv [OF i1] unlist_inv [OF i1, of oid] store_inv [OF i1, of oid m]
      by (auto simp: poll_single_order_def poll_answered_def Let_def)
  qed
qed

lemma poller_run_inv: "poller_run c ok p \<Longrightarrow> poller_inv p"
proof (induction rule: poller_run.induct)
  case start
  have "look engine_new d = None" for d by (simp add: engine_get_def engine_new_def)
  then show ?case by (simp add: poller_inv_def poller_new_def live_engine_def sim_engine_new)
qed (auto intro: monitor_inv cancel_request_inv unmonitor_inv poll_inv prune_inv)

text \<open>C26. Over any run of the poller, every order gets at most one cancellation event, and no fill
  or other event about it follows: the report of an external cancellation, an invalidated or a
  vanished order is the last word, however often the venue repeats it.\<close>

theorem cancellation_is_last_word:
  assumes "poller_run c ok p" "pl_queue p = before @ LimitOrderEv (OrderCancelled oid r t) # after"
  shows "\<forall>e \<in> set after. \<not> about oid e"
proof -
  have "sealed (xs @ ys) \<Longrightarrow> sealed ys" for xs ys
    by (induction xs) auto
  then have "sealed (LimitOrderEv (OrderCancelled oid r t) # after)"
    using poller_invD(2) [OF poller_run_inv [OF assms(1)]] unfolding assms(2) by blast
  then show ?thesis by (auto simp: list_ex_iff)
qed

section \<open>Fills add up\<close>

fun fill_of :: "string \<Rightarrow> system_event \<Rightarrow> f64 list" where
  "fill_of oid (LimitOrderEv (OrderPartiallyFilled i m d f r pr t g x)) = (if i = oid then [f] else [])"
| "fill_of oid e = []"

definition fill_sizes :: "string \<Rightarrow> system_event list \<Rightarrow> f64 list" where
  "fill_sizes oid q = concat (map (fill_of oid) q)"

text \<open>The sizes that the venue shows for an order, answer by answer: each size above all earlier ones is a
  fill by the difference.\<close>

fun increments :: "f64 \<Rightarrow> f64 list \<Rightarrow> f64 list" where
  "increments l [] = []"
| "increments l (q # qs) = (if flt l q then fsub q l # increments q qs else increments l qs)"

fun record_high :: "f64 \<Rightarrow> f64 list \<Rightarrow> f64" where
  "record_high l [] = l"
| "record_high l (q # qs) = record_high (if flt l q then q else l) qs"

text \<open>A run that also keeps, for every order, the sizes shown since it is monitored, and goes on to keep
  them when it no longer is.\<close>

definition saw :: "poller \<Rightarrow> string \<Rightarrow> string + api_order \<Rightarrow> (string \<Rightarrow> f64 list) \<Rightarrow> string \<Rightarrow> f64 list" where
  "saw p oid answer H =
     (case (hget (pl_monitored p) oid, answer) of
        (Some m, Inr api) \<Rightarrow> H(oid := H oid @ [unwrap_or (ao_size_matched api) f0])
      | _ \<Rightarrow> H)"

inductive observed_run :: "poller_config \<Rightarrow> poller \<Rightarrow> (string \<Rightarrow> f64 list) \<Rightarrow> bool" for c where
  start: "observed_run c (poller_new c) (\<lambda>oid. [])"
| monitored: "observed_run c p H \<Longrightarrow> fresh_id p (mo_order_id m) \<Longrightarrow> mo_last_known_filled m = f0 \<Longrightarrow>
    observed_run c (monitor_order u m p) (H(mo_order_id m := []))"
| cancel_asked: "observed_run c p H \<Longrightarrow> observed_run c (poller_cancel_request oid p) H"
| unmonitored: "observed_run c p H \<Longrightarrow> observed_run c (unmonitor_order oid p) H"
| polled: "observed_run c p H \<Longrightarrow>
    observed_run c (fst (poll_single_order now answer oid p)) (saw p oid answer H)"
| pruned: "observed_run c p H \<Longrightarrow> observed_run c (prune_stale_orders now p) H"

lemma observed_is_run: "observed_run c p H \<Longrightarrow> poller_run c (\<lambda>a. True) p"
  by (induction rule: observed_run.induct) (auto intro: poller_run.intros)

definition fills_inv :: "poller \<Rightarrow> (string \<Rightarrow> f64 list) \<Rightarrow> bool" where
  "fills_inv p H \<longleftrightarrow> (\<forall>oid. fill_sizes oid (pl_queue p) = increments f0 (H oid)
     \<and> (\<forall>m. hget (pl_monitored p) oid = Some m \<longrightarrow>
          mo_order_id m = oid \<and> mo_last_known_filled m = record_high f0 (H oid)))"

lemma increments_snoc [simp]:
  "increments l (qs @ [q]) = increments l qs @ (if flt (record_high l qs) q then [fsub q (record_high l qs)] else [])"
  "record_high l (qs @ [q]) = (if flt (record_high l qs) q then q else record_high l qs)"
  by (induction qs arbitrary: l) simp_all

text \<open>On a binary grid the fills add up to the largest size shown.\<close>

lemma Max_absorb:
  fixes a b :: int
  assumes "finite S" "a \<le> b" "b \<in> S"
  shows "Max (insert a S) = Max S"
proof -
  have "a \<le> Max S" using assms Max_ge by (metis order.trans)
  moreover have "S \<noteq> {}" using assms(3) by blast
  ultimately show ?thesis using Max_insert [OF assms(1)] by (simp add: max_absorb2)
qed

lemma increments_grid:
  assumes "\<forall>n \<in> set ns. \<bar>n\<bar> \<le> 2 ^ 52" "0 \<le> l" "l \<le> 2 ^ 52"
  shows "\<exists>ds. increments (grid l) (map grid ns) = map grid ds \<and> (\<forall>d \<in> set ds. 0 < d)
    \<and> l + sum_list ds = Max (insert l (set ns))"
  using assms
proof (induction ns arbitrary: l)
  case (Cons n ns)
  show ?case
  proof (cases "l < n")
    case True
    then obtain ds where ds: "increments (grid n) (map grid ns) = map grid ds" "\<forall>d \<in> set ds. 0 < d"
      "n + sum_list ds = Max (insert n (set ns))"
      using Cons.IH [of n] Cons.prems by auto
    have "fsub (grid n) (grid l) = grid (n - l)"
      by (rule fsub_grid) (use True Cons.prems in auto)
    moreover have "Max (insert l (insert n (set ns))) = Max (insert n (set ns))"
      by (rule Max_absorb [of _ l n]) (use True in auto)
    ultimately show ?thesis
      using True ds by (intro exI [of _ "(n - l) # ds"]) simp
  next
    case False
    then obtain ds where ds: "increments (grid l) (map grid ns) = map grid ds" "\<forall>d \<in> set ds. 0 < d"
      "l + sum_list ds = Max (insert l (set ns))"
      using Cons.IH [of l] Cons.prems by auto
    have "Max (insert n (insert l (set ns))) = Max (insert l (set ns))"
      by (rule Max_absorb [of _ n l]) (use False in auto)
    then show ?thesis using False ds by (intro exI [of _ ds]) (simp add: insert_commute)
  qed
qed (intro exI [of _ "[]"], simp)

lemma fills_simps [simp]:
  "fill_sizes oid [] = []"
  "fill_sizes oid (q @ [e]) = fill_sizes oid q @ fill_of oid e"
  by (simp_all add: fill_sizes_def)

lemma no_fills: "\<not> list_ex (about oid) q \<Longrightarrow> fill_sizes oid q = []"
proof (induction q)
  case (Cons e q)
  then have "fill_of oid e = []" by (cases "(oid, e)" rule: fill_of.cases) auto
  with Cons show ?case by (simp add: fill_sizes_def)
qed simp

lemma fills_inv_shrink:
  assumes "fills_inv p H" "\<And>oid. fill_sizes oid (pl_queue p') = fill_sizes oid (pl_queue p)"
    "\<And>d m. hget (pl_monitored p') d = Some m \<Longrightarrow>
       \<exists>m0. hget (pl_monitored p) d = Some m0 \<and> mo_order_id m = mo_order_id m0
         \<and> mo_last_known_filled m = mo_last_known_filled m0"
  shows "fills_inv p' H"
  using assms unfolding fills_inv_def by (metis (full_types))

lemma finish_fills:
  "fills_inv p H \<Longrightarrow> fills_inv (finish_cancelled now oid reason p) H"
  by (cases rule: finish_cancelled_cases [of now oid reason p]; rule fills_inv_shrink)
    (auto split: if_splits)

text \<open>Offering the fill and storing the new total, or dropping the order.\<close>

lemma offered_fills:
  fixes now :: timestamp and q :: f64
  assumes inv: "fills_inv p H" and m: "hget (pl_monitored p) oid = Some m"
  defines "p1 \<equiv> offer_fill now m q (flt (mo_last_known_filled m) q) p"
  shows "fills_inv (p1\<lparr>pl_monitored := hput oid (record_poll_success now q m) (pl_monitored p1)\<rparr>) (H(oid := H oid @ [q]))"
    and "fills_inv (set_monitored (hdel oid (pl_monitored p1)) p1) (H(oid := H oid @ [q]))"
proof -
  have "mo_order_id m = oid" "mo_last_known_filled m = record_high f0 (H oid)"
    using inv m by (auto simp: fills_inv_def)
  then show stored: "fills_inv (p1\<lparr>pl_monitored := hput oid (record_poll_success now q m) (pl_monitored p1)\<rparr>)
      (H(oid := H oid @ [q]))"
    using inv by (auto simp: fills_inv_def p1_def offer_fill_def enqueue_event_def create_fill_event_def record_poll_success_def)
  show "fills_inv (set_monitored (hdel oid (pl_monitored p1)) p1) (H(oid := H oid @ [q]))"
    by (rule fills_inv_shrink [OF stored]) (auto simp: set_monitored_def split: if_splits)
qed

lemma poll_fills:
  assumes inv: "fills_inv p H"
  shows "fills_inv (fst (poll_single_order now answer oid p)) (saw p oid answer H)"
proof (cases "hget (pl_monitored p) oid")
  case None
  then show ?thesis using inv by (simp add: poll_single_order_def saw_def)
next
  case (Some m)
  have keep: "fills_inv (p\<lparr>pl_monitored := hput oid (record_poll_failure now m) (pl_monitored p)\<rparr>) H"
    by (rule fills_inv_shrink [OF inv]) (use Some in \<open>auto simp: record_poll_failure_def split: if_splits\<close>)
  have drop: "fills_inv (set_monitored (hdel oid (pl_monitored p)) p) H"
    by (rule fills_inv_shrink [OF inv]) (auto simp: set_monitored_def split: if_splits)
  show ?thesis
  proof (cases answer)
    case (Inl err)
    then show ?thesis
      using inv Some finish_fills [OF inv] keep drop
      by (auto simp: poll_single_order_def poll_failed_def saw_def Let_def)
  next
    case (Inr api)
    define q where "q = unwrap_or (ao_size_matched api) f0"
    let ?p1 = "offer_fill now m q (flt (mo_last_known_filled m) q) p" and ?H = "H(oid := H oid @ [q])"
    note o = offered_fills [OF inv Some, where now = now and q = q]
    have H: "saw p oid answer H = ?H" using Some Inr by (simp add: saw_def q_def)
    have mon: "hget (pl_monitored ?p1) oid = Some m" using Some by simp
    have fin: "fills_inv (finish_cancelled now oid reason ?p1) ?H" for reason
    proof (cases rule: finish_cancelled_cases [of now oid reason ?p1])
      case 1
      then show ?thesis by (intro fills_inv_shrink [OF o(2)]) (auto simp: set_monitored_def)
    next
      case 2
      then show ?thesis by (intro fills_inv_shrink [OF o(2)]) (auto simp: set_monitored_def)
    qed
    show ?thesis
      unfolding H using Inr Some o fin mon by (auto simp: poll_single_order_def poll_answered_def Let_def q_def [symmetric])
  qed
qed

lemma monitor_fills:
  assumes inv: "fills_inv p H" and "fresh_id p (mo_order_id m)" "mo_last_known_filled m = f0"
  shows "fills_inv (monitor_order u m p) (H(mo_order_id m := []))"
proof -
  have q: "pl_queue (monitor_order u m p) = pl_queue p"
    and mon: "pl_monitored (monitor_order u m p) = hput (mo_order_id m) m (pl_monitored p)"
    by (simp_all add: monitor_order_def register_lifecycle_order_def set_monitored_def Let_def
        split: lc_result.split prod.split)
  have "fill_sizes (mo_order_id m) (pl_queue p) = []"
    using assms(2) by (simp add: fresh_id_def no_fills)
  then show ?thesis using inv assms(3) by (simp add: fills_inv_def q mon)
qed

lemma observed_fills: "observed_run c p H \<Longrightarrow> fills_inv p H"
proof (induction rule: observed_run.induct)
  case start
  then show ?case by (simp add: fills_inv_def poller_new_def)
next
  case (monitored p H m u)
  then show ?case by (intro monitor_fills)
next
  case (cancel_asked p H oid)
  show ?case
    by (rule fills_inv_shrink [OF cancel_asked.IH]) (auto simp: poller_cancel_request_def)
next
  case (unmonitored p H oid)
  show ?case
    by (rule fills_inv_shrink [OF unmonitored.IH])
      (auto simp: unmonitor_order_def set_monitored_def split: if_splits)
next
  case (polled p H now answer oid)
  then show ?case by (intro poll_fills)
next
  case (pruned p H now)
  show ?case
    by (rule fills_inv_shrink [OF pruned.IH])
      (auto simp: prune_stale_orders_def set_monitored_def Let_def split: if_splits dest: hget_fold_hdel)
qed

text \<open>C27. Over any run of the poller, with any answers, the fills reported for an order are exactly the
  steps by which the matched sizes that the venue has shown for it rise above all earlier ones, for as long
  as it was monitored, the answer that cancels or completes it included, and also when it no longer is; a
  monitored order knows the largest size shown.  For sizes on a binary grid, of at most \<open>2 ^ 52\<close>
  units, the fills are positive and add up to the largest size shown.\<close>

theorem fills_add_up:
  assumes "observed_run c p H"
  shows "fill_sizes oid (pl_queue p) = increments f0 (H oid)
    \<and> (\<forall>m. hget (pl_monitored p) oid = Some m \<longrightarrow> mo_last_known_filled m = record_high f0 (H oid))
    \<and> (\<forall>ns. H oid = map grid ns \<and> (\<forall>n \<in> set ns. \<bar>n\<bar> \<le> 2 ^ 52) \<longrightarrow>
         (\<exists>ds. fill_sizes oid (pl_queue p) = map grid ds \<and> (\<forall>d \<in> set ds. 0 < d)
           \<and> sum_list ds = Max (insert 0 (set ns))))"
  using observed_fills [OF assms] increments_grid [of _ 0] unfolding fills_inv_def f0_grid by auto

subsection \<open>A concrete run\<close>

definition demo_monitored :: "string \<Rightarrow> monitored_order" where
  "demo_monitored oid = monitored_new 0 oid ''mint'' None Buy (grid 1) (grid 9) None"

definition demo_answer :: "string \<Rightarrow> int \<Rightarrow> string + api_order" where
  "demo_answer status n = Inr \<lparr>ao_status = status, ao_size_matched = Some (grid n)\<rparr>"

text \<open>Order \<open>x\<close> is filled in part and then cancelled by the venue with a last fill; order \<open>y\<close> is
  filled in part after that.\<close>

definition demo_first :: poller where
  "demo_first = fst (poll_single_order 3 (demo_answer ''LIVE'' 3) ''x''
     (monitor_order [] (demo_monitored ''x'') (poller_new default_poller_config)))"

definition demo_cancelled :: poller where
  "demo_cancelled = fst (poll_single_order 5 (demo_answer ''CANCELED'' 5) ''x'' demo_first)"

definition demo_second :: poller where
  "demo_second = fst (poll_single_order 7 (demo_answer ''LIVE'' 2) ''y''
     (monitor_order [] (demo_monitored ''y'') demo_cancelled))"

lemmas demo_eval = poll_single_order_def poll_answered_def Let_def
        monitor_order_def register_lifecycle_order_def poller_new_def engine_get_def engine_new_def
        record_place_request_def record_place_success_def put_order_def emit_defs
        set_monitored_def hput_def upper_ascii_def offer_fill_def finish_cancelled_def lco_is_terminal_def
        should_emit_terminal_cancellation_def record_terminal_evidence_def venue_conflict_def
        ensure_venue_mapping_def unmonitor_order_def enqueue_event_def
        demo_monitored_def demo_answer_def monitored_new_def create_fill_event_def is_fully_filled_def mo_remaining_size_def record_poll_success_def f0_grid fsub_grid on_metrics_def hdel_def

lemma demo_cancelled_eq:
  "demo_cancelled =
    \<lparr>pl_monitored = [],
     pl_engine = \<lparr>orders =
        [(''live-x'', \<lparr>lc_lifecycle_id = ''live-x'', lc_client_order_id = ''x'', lc_venue_order_id = Some ''x'',
           lc_mint = ''mint'', lc_market = None, lc_side = Buy, lc_price = grid 1, lc_original_size = grid 9,
           lc_remaining_size = grid 9, lc_time_in_force = GoodTilCancelled, lc_state = Terminal TCancelled,
           lc_cancel_requested = True, lc_signal_id = None\<rparr>)],
        client_to_lifecycle = [(''x'', ''live-x'')], venue_to_lifecycle = [(''x'', ''live-x'')],
        metrics = None, mode_label = ''unknown'', cancel_policy = Idempotent\<rparr>,
     pl_config = default_poller_config, pl_gauge = 0,
     pl_queue =
      [LimitOrderEv (OrderPartiallyFilled ''x'' ''mint'' Buy (grid 3) (grid 6) (grid 1) 3 None None),
       LimitOrderEv (OrderPartiallyFilled ''x'' ''mint'' Buy (grid 2) (grid 4) (grid 1) 5 None None),
       LimitOrderEv (OrderCancelled ''x'' (Some ''Cancelled externally'') 5)]\<rparr>"
  by (simp add: demo_cancelled_def demo_first_def demo_eval)

lemma demo_queue:
  "pl_queue demo_second =
    [LimitOrderEv (OrderPartiallyFilled ''x'' ''mint'' Buy (grid 3) (grid 6) (grid 1) 3 None None),
     LimitOrderEv (OrderPartiallyFilled ''x'' ''mint'' Buy (grid 2) (grid 4) (grid 1) 5 None None),
     LimitOrderEv (OrderCancelled ''x'' (Some ''Cancelled externally'') 5),
     LimitOrderEv (OrderPartiallyFilled ''y'' ''mint'' Buy (grid 2) (grid 7) (grid 1) 7 None None)]"
  by (simp add: demo_second_def demo_cancelled_eq demo_eval)

lemma demo_fresh: "fresh_id demo_cancelled ''y''"
  by (simp add: demo_cancelled_eq fresh_id_def engine_get_def)

lemma demo_observed:
  "observed_run default_poller_config demo_second
     ((\<lambda>oid. [])(''x'' := [grid 3, grid 5], ''y'' := [grid 2]))"
proof -
  have new: "mo_last_known_filled (demo_monitored i) = f0" "mo_order_id (demo_monitored i) = i" for i
    by (simp_all add: demo_monitored_def monitored_new_def)
  have "fresh_id (poller_new default_poller_config) ''x''"
    by (simp add: fresh_id_def poller_new_def engine_get_def engine_new_def)
  then have "observed_run default_poller_config demo_second
     (saw (monitor_order [] (demo_monitored ''y'') demo_cancelled) ''y'' (demo_answer ''LIVE'' 2)
       ((saw demo_first ''x'' (demo_answer ''CANCELED'' 5)
         (saw (monitor_order [] (demo_monitored ''x'') (poller_new default_poller_config)) ''x'' (demo_answer ''LIVE'' 3)
            ((\<lambda>oid. [])(''x'' := []))))(''y'' := [])))"
    unfolding demo_second_def using demo_fresh unfolding demo_cancelled_def demo_first_def
    by (metis new observed_run.intros)
  then show ?thesis
    by (simp add: saw_def demo_cancelled_eq demo_first_def demo_eval fun_upd_def cong: if_cong)
qed

lemma demo_reached: "poller_run default_poller_config (\<lambda>a. True) demo_second"
  by (rule observed_is_run [OF demo_observed])

theorem cancellation_is_last_word_witness:
  "\<not> list_ex (about ''x'') (drop 3 (pl_queue demo_second)) \<and> list_ex (about ''y'') (drop 3 (pl_queue demo_second))"
proof -
  let ?y = "LimitOrderEv (OrderPartiallyFilled ''y'' ''mint'' Buy (grid 2) (grid 7) (grid 1) 7 None None)"
  have "\<forall>e \<in> set [?y]. \<not> about ''x'' e"
    by (rule cancellation_is_last_word [OF demo_reached, where before = "take 2 (pl_queue demo_second)"])
      (simp add: demo_queue)
  then show ?thesis by (simp add: demo_queue)
qed

theorem fills_add_up_witness:
  "\<exists>ds. fill_sizes ''x'' (pl_queue demo_second) = map grid ds \<and> list_all (\<lambda>d. 0 < d) ds \<and> sum_list ds = 5
    \<and> fill_sizes ''x'' (pl_queue demo_second) = [grid 3, grid 2]"
proof -
  have "\<exists>ds. fill_sizes ''x'' (pl_queue demo_second) = map grid ds \<and> (\<forall>d \<in> set ds. 0 < d)
      \<and> sum_list ds = Max (insert 0 (set [3, 5]))"
    by (rule fills_add_up [OF demo_observed, of "''x''", THEN conjunct2, THEN conjunct2, rule_format]) simp
  moreover have "fill_sizes ''x'' (pl_queue demo_second) = [grid 3, grid 2]"
    by (simp add: demo_queue fill_sizes_def)
  ultimately show ?thesis by (simp add: list_all_iff)
qed

end
