(* ===== verification/Order_Selection.thy ===== *)
theory Order_Selection
  imports Order_Poller "HOL-Library.Multiset"
begin

text \<open>
  Which orders a poll cycle asks for: the stable sort by priority in \<open>select_orders_to_poll\<close>
  (\<open>execution/polymarket/poller/poller.rs\<close>) permutes and sorts, and over the reachable states of the
  poller the batch holds the oldest due orders.
\<close>

section \<open>The selection\<close>

lemma mset_insert_by: "mset (insert_by le x xs) = add_mset x (mset xs)"
  by (induction xs) auto

lemma mset_stable_sort_by: "mset (stable_sort_by le xs) = mset xs"
  by (induction xs) (simp_all add: stable_sort_by_def mset_insert_by)

lemma set_insert_by: "set (insert_by le x xs) = insert x (set xs)"
  using arg_cong [OF mset_insert_by [of le x xs], of set_mset] by simp

lemma sorted_insert_by:
  assumes "\<And>a b. le a b \<or> le b a" "\<And>a b c. le a b \<Longrightarrow> le b c \<Longrightarrow> le a c"
  shows "sorted_wrt le xs \<Longrightarrow> sorted_wrt le (insert_by le x xs)"
proof (induction xs)
  case (Cons y ys)
  show ?case
  proof (cases "le x y")
    case True
    with Cons.prems assms(2) [OF True] show ?thesis by auto
  next
    case False
    with assms(1) [of x y] Cons show ?thesis by (auto simp: set_insert_by)
  qed
qed simp

lemma sorted_stable_sort_by:
  assumes "\<And>a b. le a b \<or> le b a" "\<And>a b c. le a b \<Longrightarrow> le b c \<Longrightarrow> le a c"
  shows "sorted_wrt le (stable_sort_by le xs)"
  by (induction xs) (use sorted_insert_by [of le, OF assms] in \<open>auto simp: stable_sort_by_def\<close>)

lemma priority_le_order:
  "priority_le p q \<or> priority_le q p"
  "priority_le p q \<Longrightarrow> priority_le q r \<Longrightarrow> priority_le p r"
  "priority_le p q \<Longrightarrow> fst p \<le> fst q"
  by (auto simp: priority_le_def)

lemma poller_run_hwf: "poller_run c ok p \<Longrightarrow> hwf (pl_monitored p)"
proof (induction rule: poller_run.induct)
  case (polled p answer now oid)
  then show ?case
    by (auto simp: poll_single_order_def poll_answered_def poll_failed_def finish_cancelled_def unmonitor_order_def
        set_monitored_def should_emit_terminal_cancellation_def enqueue_event_def Let_def
        split: option.split sum.split prod.split lc_state.split lc_result.split)
next
  case (pruned p now)
  have "hwf ms \<Longrightarrow> hwf (foldl (\<lambda>ms oid. hdel oid ms) ms ids)" for ms :: "(string, monitored_order) hmap" and ids
    by (induction ids arbitrary: ms) auto
  with pruned show ?case by (auto simp: prune_stale_orders_def set_monitored_def Let_def)
qed (auto simp: poller_new_def monitor_order_def register_lifecycle_order_def set_monitored_def poller_cancel_request_def
    unmonitor_order_def Let_def split: lc_result.split prod.split)

definition due_orders :: "(f64 \<Rightarrow> nat \<Rightarrow> f64) \<Rightarrow> timestamp \<Rightarrow> poller \<Rightarrow> monitored_order list" where
  "due_orders fpowi now p = filter (should_poll fpowi (pl_config p) now) (hvals (pl_monitored p))"

lemma due_orders:
  assumes run: "poller_run c ok p"
  shows due_monitored: "m \<in> set (due_orders fpowi now p) \<longleftrightarrow>
      hget (pl_monitored p) (mo_order_id m) = Some m \<and> should_poll fpowi (pl_config p) now m"
    and due_distinct: "distinct (map mo_order_id (due_orders fpowi now p))"
    and due_ids: "{oid. \<exists>m. hget (pl_monitored p) oid = Some m \<and> should_poll fpowi (pl_config p) now m}
      = mo_order_id ` set (due_orders fpowi now p)"
proof -
  note wf = poller_run_hwf [OF run] and inv = poller_run_inv [OF run]
  have vals: "m \<in> set (hvals (pl_monitored p)) \<longleftrightarrow> hget (pl_monitored p) (mo_order_id m) = Some m" for m
    using hvals_iff [OF wf, of m] poller_invD(3) [OF inv] by metis
  then show mon: "m \<in> set (due_orders fpowi now p) \<longleftrightarrow>
      hget (pl_monitored p) (mo_order_id m) = Some m \<and> should_poll fpowi (pl_config p) now m" for m
    by (auto simp: due_orders_def)
  have "map mo_order_id (hvals (pl_monitored p)) = map fst (pl_monitored p)"
    using wf poller_invD(3) [OF inv] by (auto simp: hvals_def)
  then show "distinct (map mo_order_id (due_orders fpowi now p))"
    unfolding due_orders_def using wf by (metis distinct_map_filter)
  show "{oid. \<exists>m. hget (pl_monitored p) oid = Some m \<and> should_poll fpowi (pl_config p) now m}
      = mo_order_id ` set (due_orders fpowi now p)"
    using poller_invD(3) [OF inv] mon by (auto simp: image_iff) metis
qed

text \<open>In every reachable state the orders chosen for a poll are due, none is chosen twice, there are as
  many as the batch allows, and no due order that is passed over is older than a chosen one: within a
  full batch the oldest orders are polled first, and the newest wait.\<close>

theorem selection_oldest_first:
  fixes fpowi :: "f64 \<Rightarrow> nat \<Rightarrow> f64" and now :: timestamp
  assumes run: "poller_run c ok p"
  defines "due \<equiv> {oid. \<exists>m. hget (pl_monitored p) oid = Some m \<and> should_poll fpowi (pl_config p) now m}"
    and "chosen \<equiv> select_orders_to_poll fpowi now p"
  shows "distinct chosen \<and> set chosen \<subseteq> due \<and> length chosen = min (pc_batch_size (pl_config p)) (card due)
    \<and> (\<forall>a \<in> due - set chosen. \<forall>b \<in> set chosen. \<forall>m n. hget (pl_monitored p) a = Some m \<longrightarrow>
         hget (pl_monitored p) b = Some n \<longrightarrow> mo_added_at n \<le> mo_added_at m)"
proof -
  let ?le = "\<lambda>a b. priority_le (poll_priority now a) (poll_priority now b)"
  let ?cs = "due_orders fpowi now p" and ?n = "pc_batch_size (pl_config p)"
  define xs where "xs = stable_sort_by ?le ?cs"
  have chosen: "chosen = map mo_order_id (take ?n xs)"
    by (simp add: chosen_def select_orders_to_poll_def xs_def due_orders_def Let_def)
  have set_xs: "set xs = set ?cs" using arg_cong [OF mset_stable_sort_by [of ?le ?cs], of set_mset] by (simp add: xs_def)
  have due: "due = mo_order_id ` set xs" unfolding due_def set_xs by (rule due_ids [OF run])
  have dist: "distinct (map mo_order_id xs)"
    using due_distinct [OF run, of fpowi now] mset_eq_imp_distinct_iff [of "map mo_order_id xs" "map mo_order_id ?cs"]
    by (simp add: xs_def mset_stable_sort_by)
  have len: "length chosen = min ?n (card due)"
    using distinct_card [OF dist] unfolding chosen due by (simp add: min.commute)
  have older: "mo_added_at n \<le> mo_added_at m" if "m \<in> set (drop ?n xs)" "n \<in> set (take ?n xs)" for m n
  proof -
    have "sorted_wrt ?le (take ?n xs @ drop ?n xs)"
      unfolding append_take_drop_id xs_def
      by (rule sorted_stable_sort_by) (use priority_le_order(1,2) in blast)+
    then have "?le n m" using that unfolding sorted_wrt_append by blast
    from priority_le_order(3) [OF this] show ?thesis by (simp add: poll_priority_def)
  qed
  have mem: "oid \<in> mo_order_id ` A \<Longrightarrow> hget (pl_monitored p) oid = Some v \<Longrightarrow> A \<subseteq> set xs \<Longrightarrow> v \<in> A" for oid v A
    using due_monitored [OF run, of _ fpowi now] by (auto simp: set_xs)
  have "mo_added_at n \<le> mo_added_at m"
    if "a \<in> due - set chosen" "b \<in> set chosen" "hget (pl_monitored p) a = Some m" "hget (pl_monitored p) b = Some n"
    for a b m n
  proof -
    have "a \<in> mo_order_id ` set (drop ?n xs)"
      using that(1) unfolding due chosen set_map by (metis Diff_iff UnE append_take_drop_id image_Un set_append)
    then show ?thesis
      using older [OF mem [OF _ that(3)] mem [OF _ that(4)]] that(2) set_drop_subset set_take_subset
      unfolding chosen set_map by metis
  qed
  moreover have "distinct chosen" "set chosen \<subseteq> due"
    using dist set_take_subset unfolding chosen due take_map [symmetric] by (auto dest: in_set_takeD)
  ultimately show ?thesis using len by blast
qed

lemma demo_due:
  "{oid. \<exists>m. hget (pl_monitored demo_second) oid = Some m \<and>
     should_poll (\<lambda>x n. x) (pl_config demo_second) second m} = {''y''}"
proof -
  have "pl_monitored demo_second = [(''y'', (demo_monitored ''y'')\<lparr>mo_last_polled := Some 7, mo_poll_count := 1,
      mo_last_known_filled := grid 2\<rparr>)]" "pl_config demo_second = default_poller_config"
    by (simp_all add: demo_second_def demo_cancelled_eq demo_eval)
  then show ?thesis
    by (auto simp: should_poll_def time_since_poll_def default_poller_config_def
        demo_monitored_def monitored_new_def second_def millisecond_def Let_def)
qed

theorem selection_oldest_first_witness:
  "select_orders_to_poll (\<lambda>x n. x) second demo_second = [''y'']"
proof -
  let ?c = "select_orders_to_poll (\<lambda>x n. x) second demo_second"
  have "pc_batch_size (pl_config demo_second) = 20"
    by (simp add: demo_second_def demo_cancelled_eq demo_eval default_poller_config_def)
  with selection_oldest_first [OF demo_reached, of "\<lambda>x n. x" second]
  have "set ?c \<subseteq> {''y''}" "length ?c = 1" unfolding demo_due by simp_all
  then show ?thesis by (cases ?c) auto
qed

end
