(* ===== verification/Position_Sync.thy ===== *)
theory Position_Sync
  imports Order_Poller
begin

text \<open>
  Synchronisation of the position manager with the exchange: \<open>sync_positions\<close> of the order poller
  (\<open>execution/polymarket/poller/poller.rs\<close>) over the balance queries of \<open>balance_api.rs\<close>.  The
  query itself is a parameter on the state of the outside world: its answer is an error or the text
  of the field \<open>balance\<close>, if there is one.  The calls of one synchronisation run without
  interruption by other tasks; the token of the rate limiter that each query takes is left out.
\<close>

section \<open>Balance queries\<close>

type_synonym 'w balance_query = "'w \<Rightarrow> string option \<Rightarrow> (string + string option) \<times> 'w"

definition balance_raw :: "string option \<Rightarrow> nat" where
  "balance_raw b = unwrap_or (Option.bind b (parse_u64 10)) 0"

definition get_balance :: "'w balance_query \<Rightarrow> 'w \<Rightarrow> string option \<Rightarrow> (string + f64) \<times> 'w" where
  "get_balance api w token =
     (case api w token of
        (Inl e, w') \<Rightarrow> (Inl e, w')
      | (Inr b, w') \<Rightarrow> (Inr (usdc (balance_raw b)), w'))"

definition get_usdc_balance :: "'w balance_query \<Rightarrow> 'w \<Rightarrow> (string + f64) \<times> 'w" where
  "get_usdc_balance api w = get_balance api w None"

definition get_token_balance :: "'w balance_query \<Rightarrow> 'w \<Rightarrow> string \<Rightarrow> (string + f64) \<times> 'w" where
  "get_token_balance api w token = get_balance api w (Some token)"

section \<open>Synchronisation\<close>

record position_snapshot =
  ps_asset_id :: string
  ps_amount :: f64
  ps_avg_price :: "f64 option"

record position_sync_result =
  psr_positions :: "position_snapshot list"
  psr_available_quote :: f64
  psr_timestamp :: timestamp
  psr_drift_detected :: bool

text \<open>The state of one synchronisation: the manager, the queue of events, the snapshots taken, the
  drift flag and the outside world.\<close>

record 'w sync =
  sy_manager :: pm_state
  sy_queue :: "system_event list"
  sy_positions :: "position_snapshot list"
  sy_drift :: bool
  sy_world :: 'w

definition quote_tolerance :: f64 where "quote_tolerance = f_lit (1 / 100)"
definition amount_tolerance :: f64 where "amount_tolerance = f_lit (1 / 1000000)"

definition drifted :: "f64 \<Rightarrow> f64 \<Rightarrow> f64 \<Rightarrow> bool" where
  "drifted tolerance actual expected = flt tolerance (fabs (fsub actual expected))"

definition sync_quote :: "f64 \<Rightarrow> f64 option \<Rightarrow> 'w sync \<Rightarrow> 'w sync" where
  "sync_quote actual expected_quote y =
     (case expected_quote of
        None \<Rightarrow> y
      | Some expected \<Rightarrow>
          if drifted quote_tolerance actual expected
          then y\<lparr>sy_manager := sync_available_quote (sy_manager y) actual, sy_drift := True\<rparr>
          else y)"

definition sync_token :: "'w balance_query \<Rightarrow> timestamp \<Rightarrow> 'w sync \<Rightarrow> string \<times> f64 \<Rightarrow> 'w sync" where
  "sync_token api now y entry =
     (let (token, expected) = entry in
      case get_token_balance api (sy_world y) token of
        (Inl e, w) \<Rightarrow> y\<lparr>sy_world := w\<rparr>
      | (Inr actual, w) \<Rightarrow>
          let y1 = y\<lparr>sy_world := w, sy_positions := sy_positions y @
                [\<lparr>ps_asset_id = token, ps_amount = actual, ps_avg_price = None\<rparr>]\<rparr>
          in if drifted amount_tolerance actual expected then
               (case reconcile_position (sy_manager y1)
                   \<lparr>xp_asset_id = token, xp_market_id = None, xp_amount = actual, xp_entry_price = None,
                    xp_timestamp = now\<rparr> of
                  (s, r) \<Rightarrow>
                    y1\<lparr>sy_manager := s, sy_drift := True,
                       sy_queue := (case r of Inr ev \<Rightarrow> sy_queue y1 @ [PositionEv ev] | Inl e \<Rightarrow> sy_queue y1)\<rparr>)
             else y1)"

definition sync_positions_with_expected ::
  "'w balance_query \<Rightarrow> timestamp \<Rightarrow> (string \<times> f64) list \<Rightarrow> f64 option \<Rightarrow> pm_state \<Rightarrow> 'w \<Rightarrow>
   (string + position_sync_result) \<times> pm_state \<times> system_event list \<times> 'w" where
  "sync_positions_with_expected api now expected expected_quote s w =
     (case get_usdc_balance api w of
        (Inl e, w') \<Rightarrow> (Inl e, s, [], w')
      | (Inr available, w') \<Rightarrow>
          let y0 = \<lparr>sy_manager = s, sy_queue = [], sy_positions = [], sy_drift = False, sy_world = w'\<rparr>;
            y = foldl (sync_token api now) (sync_quote available expected_quote y0) expected
          in (Inr \<lparr>psr_positions = sy_positions y, psr_available_quote = available, psr_timestamp = now,
                   psr_drift_detected = sy_drift y\<rparr>,
              sy_manager y, sy_queue y, sy_world y))"

text \<open>The bought mints are a hash set; \<open>enum\<close> is the order in which it is iterated.\<close>

definition expected_positions :: "(string set \<Rightarrow> string list) \<Rightarrow> pm_state \<Rightarrow> (string \<times> f64) list" where
  "expected_positions enum s =
     (let positions = hvals (pm_positions s); open_mints = pos_mint ` set positions in
      map (\<lambda>p. (pos_mint p, pos_amount p)) positions
      @ map (\<lambda>mint. (mint, f0)) (filter (\<lambda>mint. mint \<notin> open_mints) (enum (pm_bought_mints s))))"

definition sync_positions ::
  "(string set \<Rightarrow> string list) \<Rightarrow> 'w balance_query \<Rightarrow> timestamp \<Rightarrow> pm_state \<Rightarrow> 'w \<Rightarrow>
   (string + position_sync_result) \<times> pm_state \<times> system_event list \<times> 'w" where
  "sync_positions enum api now s w =
     sync_positions_with_expected api now (expected_positions enum s) (Some (pm_available_quote s)) s w"

section \<open>A second synchronisation finds nothing\<close>

text \<open>An exchange whose answers do not change, and an entry that does not drift from them.\<close>

definition answer :: "(string option \<Rightarrow> string + string option) \<Rightarrow> string \<Rightarrow> string + f64" where
  "answer ans token =
     (case ans (Some token) of Inl e \<Rightarrow> Inl e | Inr b \<Rightarrow> Inr (usdc (balance_raw b)))"

definition calm :: "(string option \<Rightarrow> string + string option) \<Rightarrow> string \<times> f64 \<Rightarrow> bool" where
  "calm ans entry = (case answer ans (fst entry) of
     Inl e \<Rightarrow> True | Inr q \<Rightarrow> \<not> drifted amount_tolerance q (snd entry))"

abbreviation balance_report :: "timestamp \<Rightarrow> string \<Rightarrow> f64 \<Rightarrow> exchange_position" where
  "balance_report now token q \<equiv>
     \<lparr>xp_asset_id = token, xp_market_id = None, xp_amount = q, xp_entry_price = None, xp_timestamp = now\<rparr>"

lemma not_drifted_self: "0 \<le> r \<Longrightarrow> \<not> drifted (f_lit r) q q"
proof -
  assume "0 \<le> r"
  then have "fle f0 (f_lit r)" by (rule f_of_nonneg)
  then show ?thesis by (cases q; cases "f_lit r") (auto simp: drifted_def f0_def fsub_def)
qed

lemma tolerances: "\<not> drifted amount_tolerance q q" "\<not> drifted quote_tolerance q q"
  by (simp_all add: not_drifted_self amount_tolerance_def quote_tolerance_def)

lemma token_balance_answer:
  assumes "\<And>w t. fst (api w t) = ans t"
  shows "fst (get_token_balance api w t) = answer ans t"
  using assms [of w "Some t"]
  by (cases "api w (Some t)") (auto simp: get_token_balance_def get_balance_def answer_def split: sum.splits)

lemma sync_token_cases:
  fixes y :: "'w sync"
  assumes const: "\<And>w t. fst (api w t) = ans t"
  obtains err w where "answer ans t = Inl err" "calm ans (t, e)"
      "sync_token api now y (t, e) = y\<lparr>sy_world := w\<rparr>"
  | q w where "answer ans t = Inr q" "calm ans (t, e)"
      "sync_token api now y (t, e) = y\<lparr>sy_world := w,
         sy_positions := sy_positions y @ [\<lparr>ps_asset_id = t, ps_amount = q, ps_avg_price = None\<rparr>]\<rparr>"
  | q ev w where "answer ans t = Inr q" "\<not> calm ans (t, e)"
      "sync_token api now y (t, e) = y\<lparr>sy_world := w,
         sy_positions := sy_positions y @ [\<lparr>ps_asset_id = t, ps_amount = q, ps_avg_price = None\<rparr>],
         sy_manager := fst (reconcile_position (sy_manager y) (balance_report now t q)), sy_drift := True,
         sy_queue := sy_queue y @ [PositionEv ev]\<rparr>"
proof -
  obtain r w where g: "get_token_balance api (sy_world y) t = (r, w)" by fastforce
  then have r: "answer ans t = r" using token_balance_answer [of api ans "sy_world y" t, OF const] by simp
  show thesis
  proof (cases r)
    case (Inl err)
    then show thesis using g r by (intro that(1)) (simp_all add: sync_token_def calm_def)
  next
    case (Inr q)
    show thesis
    proof (cases "drifted amount_tolerance q e")
      case True
      obtain ev where "snd (reconcile_position (sy_manager y) (balance_report now t q)) = Ok ev"
        by (simp add: reconcile_position_def Let_def)
      then show thesis
        using g r Inr True
        by (intro that(3) [of q ev]) (auto simp: sync_token_def calm_def Let_def split: prod.split)
    next
      case False
      then show thesis using g r Inr by (intro that(2)) (simp_all add: sync_token_def calm_def Let_def)
    qed
  qed
qed

lemma reconciled_amount:
  "held (fst (reconcile_position s x)) a = (if a = xp_asset_id x then xp_amount x else held s a)"
  by (auto simp: held_def reconcile_position_def adopt_position_def exchange_to_position_def Let_def split: option.splits)

lemma reconciled_frame:
  "pm_bought_mints (fst (reconcile_position s x)) = pm_bought_mints s"
  "pm_available_quote (fst (reconcile_position s x)) = pm_available_quote s"
  "hget (pm_positions (fst (reconcile_position s x))) a = None \<longleftrightarrow>
     a \<noteq> xp_asset_id x \<and> hget (pm_positions s) a = None"
  by (auto simp: reconcile_position_def Let_def)

text \<open>What the fold over the entries does to the amounts, the snapshots and the rest of the manager.\<close>

definition mints_of :: "pm_state \<Rightarrow> string set" where
  "mints_of s = {a. hget (pm_positions s) a \<noteq> None}"

definition adopted :: "(string option \<Rightarrow> string + string option) \<Rightarrow> (string \<times> f64) list \<Rightarrow> string set" where
  "adopted ans xs = {t. \<exists>e. (t, e) \<in> set xs \<and> \<not> calm ans (t, e)}"

lemma adopted_simps:
  "adopted ans [] = {}"
  "adopted ans (x # xs) = (if calm ans x then {} else {fst x}) \<union> adopted ans xs"
  by (auto simp: adopted_def) (metis prod.collapse)

lemma sync_token_effect:
  fixes y :: "'w sync" and now :: timestamp
  assumes const: "\<And>w t. fst (api w t) = ans t"
  defines "f \<equiv> sync_token api now"
  shows "pm_bought_mints (sy_manager (f y x)) = pm_bought_mints (sy_manager y)
      \<and> pm_available_quote (sy_manager (f y x)) = pm_available_quote (sy_manager y)"
    and "mints_of (sy_manager (f y x)) = (if calm ans x then {} else {fst x}) \<union> mints_of (sy_manager y)"
    and "held (sy_manager (f y x)) t =
      (if calm ans x \<or> t \<noteq> fst x then held (sy_manager y) t
       else case answer ans t of Inr q \<Rightarrow> q | Inl e \<Rightarrow> f0)"
    and "pm_inv (sy_manager y) \<Longrightarrow> pm_inv (sy_manager (f y x))"
    and "calm ans x \<Longrightarrow> sy_manager (f y x) = sy_manager y \<and> sy_queue (f y x) = sy_queue y
      \<and> sy_drift (f y x) = sy_drift y"
    and "set (sy_positions (f y x)) = set (sy_positions y) \<union>
      {z. ps_asset_id z = fst x \<and> answer ans (ps_asset_id z) = Inr (ps_amount z) \<and> ps_avg_price z = None}"
proof -
  obtain token e where x: "x = (token, e)" by fastforce
  note cs = sync_token_cases [where api = api and ans = ans and t = token and e = e
        and now = now and y = y, OF const]
  show "pm_bought_mints (sy_manager (f y x)) = pm_bought_mints (sy_manager y)
      \<and> pm_available_quote (sy_manager (f y x)) = pm_available_quote (sy_manager y)"
    by (rule cs) (simp_all add: f_def x reconciled_frame)
  show "mints_of (sy_manager (f y x)) = (if calm ans x then {} else {fst x}) \<union> mints_of (sy_manager y)"
    by (rule cs) (auto simp: f_def x mints_of_def reconciled_frame)
  show "held (sy_manager (f y x)) t =
      (if calm ans x \<or> t \<noteq> fst x then held (sy_manager y) t
       else case answer ans t of Inr q \<Rightarrow> q | Inl e \<Rightarrow> f0)"
    by (rule cs) (simp_all add: f_def x reconciled_amount)
  show "pm_inv (sy_manager y) \<Longrightarrow> pm_inv (sy_manager (f y x))"
    by (rule cs) (simp_all add: f_def x reconcile_position_inv)
  show "calm ans x \<Longrightarrow> sy_manager (f y x) = sy_manager y \<and> sy_queue (f y x) = sy_queue y
      \<and> sy_drift (f y x) = sy_drift y"
    by (rule cs) (simp_all add: f_def x)
  show "set (sy_positions (f y x)) = set (sy_positions y) \<union>
      {z. ps_asset_id z = fst x \<and> answer ans (ps_asset_id z) = Inr (ps_amount z) \<and> ps_avg_price z = None}"
    by (rule cs) (auto simp: f_def x intro: position_snapshot.equality)
qed

lemma sync_fold:
  fixes y :: "'w sync" and now :: timestamp
  assumes const: "\<And>w t. fst (api w t) = ans t"
  defines "f \<equiv> foldl (sync_token api now)"
  shows "pm_bought_mints (sy_manager (f y xs)) = pm_bought_mints (sy_manager y)
      \<and> pm_available_quote (sy_manager (f y xs)) = pm_available_quote (sy_manager y)"
    and "mints_of (sy_manager (f y xs)) = mints_of (sy_manager y) \<union> adopted ans xs"
    and "held (sy_manager (f y xs)) t =
      (if t \<in> adopted ans xs then (case answer ans t of Inr q \<Rightarrow> q | Inl e \<Rightarrow> f0) else held (sy_manager y) t)"
    and "pm_inv (sy_manager y) \<Longrightarrow> pm_inv (sy_manager (f y xs))"
    and "adopted ans xs = {} \<Longrightarrow> sy_manager (f y xs) = sy_manager y \<and> sy_queue (f y xs) = sy_queue y
      \<and> sy_drift (f y xs) = sy_drift y"
    and "set (sy_positions (f y xs)) = set (sy_positions y) \<union>
      {z. ps_asset_id z \<in> fst ` set xs \<and> answer ans (ps_asset_id z) = Inr (ps_amount z) \<and> ps_avg_price z = None}"
proof -
  note step = sync_token_effect [where api = api and ans = ans and now = now, OF const]
  show "pm_bought_mints (sy_manager (f y xs)) = pm_bought_mints (sy_manager y)
      \<and> pm_available_quote (sy_manager (f y xs)) = pm_available_quote (sy_manager y)"
    unfolding f_def by (induction xs arbitrary: y) (simp_all add: step(1))
  show "mints_of (sy_manager (f y xs)) = mints_of (sy_manager y) \<union> adopted ans xs"
    unfolding f_def by (induction xs arbitrary: y) (auto simp: step(2) adopted_simps)
  show "held (sy_manager (f y xs)) t =
      (if t \<in> adopted ans xs then (case answer ans t of Inr q \<Rightarrow> q | Inl e \<Rightarrow> f0) else held (sy_manager y) t)"
    unfolding f_def by (induction xs arbitrary: y) (auto simp: step(3) adopted_simps)
  show "pm_inv (sy_manager y) \<Longrightarrow> pm_inv (sy_manager (f y xs))"
    unfolding f_def by (induction xs arbitrary: y) (simp_all add: step(4))
  show "adopted ans xs = {} \<Longrightarrow> sy_manager (f y xs) = sy_manager y \<and> sy_queue (f y xs) = sy_queue y
      \<and> sy_drift (f y xs) = sy_drift y"
    unfolding f_def by (induction xs arbitrary: y) (simp_all add: step(5) adopted_simps split: if_splits)
  show "set (sy_positions (f y xs)) = set (sy_positions y) \<union>
      {z. ps_asset_id z \<in> fst ` set xs \<and> answer ans (ps_asset_id z) = Inr (ps_amount z) \<and> ps_avg_price z = None}"
    unfolding f_def
  proof (induction xs arbitrary: y)
    case (Cons x xs)
    show ?case using Cons.IH [of "sync_token api now y x"] step(6) [of y x] by auto
  qed simp
qed
lemma hvals_positions:
  assumes "pm_inv s"
  shows "p \<in> set (hvals (pm_positions s)) \<longleftrightarrow> hget (pm_positions s) (pos_mint p) = Some p"
proof -
  have "positions_ok (pm_positions s)" using assms by (simp add: pm_inv_def)
  then show ?thesis unfolding positions_ok_def using hvals_iff [of "pm_positions s" p] by metis
qed

lemma expected_entries:
  assumes "pm_inv s" "set (enum (pm_bought_mints s)) = pm_bought_mints s"
  shows "set (expected_positions enum s) = (\<lambda>t. (t, held s t)) ` (mints_of s \<union> pm_bought_mints s)"
proof -
  let ?ps = "set (hvals (pm_positions s))"
  have key: "pos_mint p = t" if "hget (pm_positions s) t = Some p" for t p
    using positions_ok_mint that assms(1) by (auto simp: pm_inv_def)
  have amount: "p \<in> ?ps \<Longrightarrow> held s (pos_mint p) = pos_amount p" for p
    using hvals_positions [OF assms(1)] by (simp add: held_def)
  have open_mints: "pos_mint ` ?ps = mints_of s"
  proof
    show "pos_mint ` ?ps \<subseteq> mints_of s"
      using hvals_positions [OF assms(1)] by (auto simp: mints_of_def)
    show "mints_of s \<subseteq> pos_mint ` ?ps"
    proof
      fix t assume "t \<in> mints_of s"
      then obtain p where p: "hget (pm_positions s) t = Some p" by (auto simp: mints_of_def)
      with key [OF p] have "p \<in> ?ps" using hvals_positions [OF assms(1), of p] by simp
      then show "t \<in> pos_mint ` ?ps" using key [OF p] by auto
    qed
  qed
  have pos: "(\<lambda>p. (pos_mint p, pos_amount p)) ` ?ps = (\<lambda>t. (t, held s t)) ` mints_of s"
    unfolding open_mints [symmetric] image_image by (rule image_cong) (simp_all add: amount)
  have "t \<notin> mints_of s \<Longrightarrow> held s t = f0" for t by (simp add: mints_of_def held_def)
  then show ?thesis
    unfolding expected_positions_def Let_def set_append set_map set_filter pos open_mints assms(2) by auto
qed

lemma adopted_expected:
  assumes "pm_inv s" "set (enum (pm_bought_mints s)) = pm_bought_mints s"
  shows "adopted ans (expected_positions enum s) =
    {t \<in> mints_of s \<union> pm_bought_mints s. \<not> calm ans (t, held s t)}"
  unfolding adopted_def expected_entries [where enum = enum, OF assms] by auto

text \<open>The state from which the entries are synchronised, and the result of the whole call.\<close>

definition sync_start :: "f64 \<Rightarrow> pm_state \<Rightarrow> 'w \<Rightarrow> 'w sync" where
  "sync_start q s w = sync_quote q (Some (pm_available_quote s))
     \<lparr>sy_manager = s, sy_queue = [], sy_positions = [], sy_drift = False, sy_world = w\<rparr>"

lemma sync_start_facts:
  "held (sy_manager (sync_start q s w)) t = held s t"
  "mints_of (sy_manager (sync_start q s w)) = mints_of s"
  "pm_bought_mints (sy_manager (sync_start q s w)) = pm_bought_mints s"
  "sy_positions (sync_start q s w) = []"
  "\<not> drifted quote_tolerance q (pm_available_quote (sy_manager (sync_start q s w)))"
  "pm_inv s \<Longrightarrow> pm_inv (sy_manager (sync_start q s w))"
  using tolerances(2) by (auto simp: sync_start_def sync_quote_def sync_available_quote_def pm_inv_def held_def mints_of_def)

lemma sync_start_calm:
  "\<not> drifted quote_tolerance q (pm_available_quote s) \<Longrightarrow>
   sync_start q s w = \<lparr>sy_manager = s, sy_queue = [], sy_positions = [], sy_drift = False, sy_world = w\<rparr>"
  by (simp add: sync_start_def sync_quote_def)

lemma sync_positions_run:
  assumes const: "\<And>w t. fst (api w t) = ans t" and ok: "ans None = Inr b"
  shows "sync_positions enum api now s w =
    (let y = foldl (sync_token api now) (sync_start (usdc (balance_raw b)) s (snd (api w None)))
           (expected_positions enum s)
     in (Inr \<lparr>psr_positions = sy_positions y, psr_available_quote = usdc (balance_raw b), psr_timestamp = now,
              psr_drift_detected = sy_drift y\<rparr>, sy_manager y, sy_queue y, sy_world y))"
  using const [of w None] ok
  by (cases "api w None") (simp add: sync_positions_def sync_positions_with_expected_def
      get_usdc_balance_def get_balance_def sync_start_def Let_def)

lemma sync_positions_answered:
  assumes "\<And>w t. fst (api w t) = ans t" "sync_positions enum api now s w = (Inr r, z)"
  obtains b where "ans None = Inr b"
  using assms(2) assms(1) [of w None]
  by (cases "ans None") (auto simp: sync_positions_def sync_positions_with_expected_def get_usdc_balance_def
      get_balance_def split: prod.splits sum.splits)

text \<open>C28. Synchronisation settles: against an exchange whose answers do not change, after one completed
  synchronisation the available quote and the amount of every mint that was held or once bought, whenever
  its balance could be read, are within the tolerance of the exchange's answer; a drifted amount has become
  exactly the answer and every other amount is what it was; the reported positions are exactly the
  answers for the tracked mints; and the next synchronisation detects no drift, changes nothing and
  emits nothing.\<close>

theorem synchronisation_settles:
  assumes inv: "pm_inv s" and enum: "set (enum (pm_bought_mints s)) = pm_bought_mints s"
    and const: "\<And>w t. fst (api w t) = ans t"
    and run: "sync_positions enum api now s w = (Inr r, s', evs, w')"
  shows "(\<forall>t \<in> mints_of s \<union> pm_bought_mints s. \<forall>q. answer ans t = Inr q \<longrightarrow> \<not> drifted amount_tolerance q (held s' t))
    \<and> (\<forall>t. held s' t = (case answer ans t of
          Inl e \<Rightarrow> held s t
        | Inr q \<Rightarrow> if t \<in> mints_of s \<union> pm_bought_mints s \<and> drifted amount_tolerance q (held s t) then q else held s t))
    \<and> set (psr_positions r) = {z. ps_asset_id z \<in> mints_of s \<union> pm_bought_mints s
        \<and> answer ans (ps_asset_id z) = Inr (ps_amount z) \<and> ps_avg_price z = None}
    \<and> (\<exists>b. ans None = Inr b \<and> \<not> drifted quote_tolerance (usdc (balance_raw b)) (pm_available_quote s'))
    \<and> (\<exists>r' w''. sync_positions enum api later s' v = (Inr r', s', [], w'') \<and> \<not> psr_drift_detected r')"
proof -
  obtain b where b: "ans None = Inr b" using sync_positions_answered [OF const run] by blast
  let ?q = "usdc (balance_raw b)" and ?xs = "expected_positions enum s"
  define y where "y = foldl (sync_token api now) (sync_start ?q s (snd (api w None))) ?xs"
  note sync = sync_positions_run [where api = api and enum = enum and ans = ans and b = b, OF const b]
  have s': "s' = sy_manager y" and r: "psr_positions r = sy_positions y"
    using run unfolding sync y_def [symmetric] Let_def by auto
  note fold = sync_fold [where api = api and ans = ans and now = now and xs = ?xs
      and y = "sync_start ?q s (snd (api w None))", OF const, folded y_def s', unfolded sync_start_facts]
  note adopt = adopted_expected [where enum = enum, OF inv enum]
  have quote: "\<not> drifted quote_tolerance ?q (pm_available_quote s')"
    using fold(1) sync_start_facts(5) [of ?q s] by metis
  have calm: "calm ans (t, held s' t)" if "t \<in> mints_of s \<union> pm_bought_mints s" for t
    using that tolerances(1) unfolding fold(3) adopt by (auto simp: calm_def split: sum.splits)
  have "mints_of s' \<union> pm_bought_mints s' \<subseteq> mints_of s \<union> pm_bought_mints s"
    using fold(1) unfolding fold(2) adopt by auto
  moreover have "pm_inv s'" using fold(4) sync_start_facts(6) [OF inv] by metis
  ultimately have none: "adopted ans (expected_positions enum s') = {}"
    using calm adopted_expected [where enum = enum and s = s'] enum fold(1) by auto
  have "fst ` set ?xs = mints_of s \<union> pm_bought_mints s"
    using expected_entries [where enum = enum, OF inv enum] by (simp add: image_image)
  moreover have "held s' t = (case answer ans t of
        Inl e \<Rightarrow> held s t
      | Inr q \<Rightarrow> if t \<in> mints_of s \<union> pm_bought_mints s \<and> drifted amount_tolerance q (held s t) then q else held s t)" for t
    unfolding fold(3) adopt by (auto simp: calm_def split: sum.splits)
  moreover note sync_fold(5) [where api = api and ans = ans and now = later and y = "sync_start ?q s' (snd (api v None))",
      OF const none]
  ultimately show ?thesis
    using tolerances(1) b quote fold(6) sync_start_calm [OF quote, where w = "snd (api v None)"]
    unfolding sync Let_def by (simp add: r)
qed

section \<open>A concrete synchronisation\<close>

definition demo_balances :: "unit balance_query" where
  "demo_balances w token =
     (if token = Some ''D'' then Inl ''timeout'' else Inr (Some ''4000000''), w)"

lemma usdc_4000000: "usdc (balance_raw (Some ''4000000'')) = grid (4 * 2 ^ 20)"
proof -
  have "balance_raw (Some ''4000000'') = 4000000"
    by (simp add: balance_raw_def parse_u64_def digit_value_def)
  then show ?thesis using usdc_fin(1) [of 4000000] by (simp add: grid_def)
qed

lemma tolerances_small: "flt amount_tolerance (grid (2 ^ 20))" "flt quote_tolerance (grid (4 * 2 ^ 20))"
proof -
  have "f64_ok (Fin (1 / 2))" by (simp add: rnd_dyadic [of _ 1 "- 1"])
  from f_of_between [OF this, of "1 / 1000000"] f_of_between [OF this, of "1 / 100"]
  show "flt amount_tolerance (grid (2 ^ 20))" "flt quote_tolerance (grid (4 * 2 ^ 20))"
    by (simp_all add: amount_tolerance_def quote_tolerance_def grid_def)
qed

lemma fabs_grid: "fabs (grid n) = grid \<bar>n\<bar>"
  by (simp add: grid_def)

lemma demo_reads_balance:
  "get_usdc_balance demo_balances () = (Inr (grid (4 * 2 ^ 20)), ())"
  "get_token_balance demo_balances () ''U'' = (Inr (grid (4 * 2 ^ 20)), ())"
  "get_token_balance demo_balances () ''D'' = (Inl ''timeout'', ())"
  using usdc_4000000
  by (simp_all add: get_usdc_balance_def get_token_balance_def get_balance_def demo_balances_def)

theorem synchronisation_settles_witness:
  "case sync_positions (\<lambda>S. []) demo_balances 1 demo_pairs () of
     (r, s', evs, w) \<Rightarrow> held s' ''U'' = grid (4 * 2 ^ 20) \<and> length evs = 1
       \<and> fst (snd (snd (sync_positions (\<lambda>S. []) demo_balances 2 s' ()))) = []"
proof -
  obtain r s' evs where run: "sync_positions (\<lambda>S. []) demo_balances 1 demo_pairs () = (Inr r, s', evs, ())"
    "held s' ''U'' = grid (4 * 2 ^ 20)" "length evs = 1"
    using tolerances_small
    by (simp add: sync_positions_def sync_positions_with_expected_def demo_reads_balance sync_quote_def
        drifted_def expected_positions_def sync_token_def demo_pairs_def demo_position_def pm_new_def
        fsub_grid fabs_grid f0_grid reconcile_position_def adopt_position_def held_def sync_available_quote_def hvals_def Let_def)
  have "pm_inv demo_pairs"
    by (simp add: demo_pairs_def demo_position_def pm_inv_def pm_new_def positions_ok_def books_ok_def
        in_flight_ok_def policies_ok_def lanes_ok_def)
  then have "\<exists>r' w''. sync_positions (\<lambda>S. []) demo_balances 2 s' () = (Inr r', s', [], w'') \<and> \<not> psr_drift_detected r'"
    using synchronisation_settles [OF _ _ _ run(1), of "\<lambda>t. fst (demo_balances () t)" 2 "()"]
    by (simp add: demo_pairs_def pm_new_def demo_balances_def)
  with run show ?thesis by auto
qed

section \<open>An answer without a balance\<close>

text \<open>A missing or malformed balance is read as zero and adopted, so the books are emptied.\<close>

lemma unreadable_balance_is_zero: "parse_u64 10 t = None \<Longrightarrow> usdc (balance_raw (Some t)) = f0" "usdc (balance_raw None) = f0"
  using usdc_fin(1) [of 0] by (simp_all add: balance_raw_def f0_def)

lemma unreadable_balance_empties_books:
  assumes "pm_inv s" "set (enum (pm_bought_mints s)) = pm_bought_mints s"
    and const: "\<And>w t. fst (api w t) = ans t" and "ans None = Inr b" "ans (Some t) = Inr None"
    and "t \<in> mints_of s" "drifted amount_tolerance f0 (held s t)"
  shows "held (fst (snd (sync_positions enum api now s w))) t = f0"
proof -
  have a: "answer ans t = Inr f0" using assms(5) unreadable_balance_is_zero by (simp add: answer_def)
  then have "t \<in> adopted ans (expected_positions enum s)"
    using assms(6,7) unfolding adopted_expected [where enum = enum, OF assms(1,2)] by (simp add: calm_def)
  then show ?thesis
    unfolding sync_positions_run [where enum = enum and api = api and ans = ans, OF const assms(4)] Let_def fst_conv snd_conv
    by (subst sync_fold(3) [where api = api and ans = ans, OF const]) (simp add: a)
qed

end
