(* ===== verification/Clob_Executor.thy ===== *)
theory Clob_Executor
  imports Order_Poller
begin

text \<open>
  The live executor of the exchange, \<open>execution/polymarket/executor.rs\<close>, with its configuration
  (\<open>config.rs\<close>) and types (\<open>types.rs\<close>).  The client library, the clock, the identifiers and the
  conversion of floating-point numbers to decimals are fields of the record \<open>clob\<close> over a state \<open>'w\<close>
  of the outside world; \<open>'s\<close> is a signed order.  The price of a match comes parsed.  An \<open>anyhow\<close> error
  is a constructor of \<open>exec_error\<close>.  The order poller and the merge executor are shared with their
  own tasks; each call to them is one step.
\<close>

section \<open>Data\<close>

datatype clob_side = SideBuy | SideSell
datatype clob_order_type = GTC | FOK

record order_args =
  oa_token_id :: string
  oa_price :: rat
  oa_size :: rat
  oa_side :: clob_side

datatype exec_error =
    NotAMarketOrder order_type
  | NotALimitOrder
  | CreateFailed string
  | PostFailed string
  | NoOrderId
  | NotFilled string f64
  | CancelFailed string
  | RetriesExhausted

record post_result =
  pr_order_id :: "string option"
  pr_status :: "string option"
  pr_matched_price :: "f64 option"

record ('w, 's) clob =
  create_order :: "'w \<Rightarrow> order_args \<Rightarrow> nat option \<Rightarrow> (string + 's) \<times> 'w"
  post_order :: "'w \<Rightarrow> 's \<Rightarrow> clob_order_type \<Rightarrow> (string + post_result) \<times> 'w"
  cancel_remote :: "'w \<Rightarrow> string \<Rightarrow> (string + unit) \<times> 'w"
  pause :: "duration \<Rightarrow> 'w \<Rightarrow> 'w"
  decimal_of :: "f64 \<Rightarrow> rat option"
  clob_now :: "'w \<Rightarrow> timestamp"
  clob_uuid :: "'w \<Rightarrow> string \<times> 'w"

record polymarket_config =
  pmc_host :: string
  pmc_private_key :: string
  pmc_chain_id :: nat
  pmc_safe_rpc_url :: "string option"
  pmc_safe_address :: "string option"
  pmc_dry_run :: bool

definition default_polymarket_config :: polymarket_config where
  "default_polymarket_config =
     \<lparr>pmc_host = ''https://clob.polymarket.com'', pmc_private_key = [], pmc_chain_id = 137,
      pmc_safe_rpc_url = None, pmc_safe_address = None, pmc_dry_run = True\<rparr>"

definition has_safe_config :: "polymarket_config \<Rightarrow> bool" where
  "has_safe_config c = (pmc_safe_rpc_url c \<noteq> None \<and> pmc_safe_address c \<noteq> None)"

record polymarket_metrics =
  px_orders_placed :: nat
  px_orders_filled :: nat
  px_orders_cancelled :: nat

record 'w clob_state =
  ce_poller :: poller
  ce_merger :: merge_executor
  ce_metrics :: polymarket_metrics
  ce_world :: 'w

definition to_polyfill_side :: "order_side \<Rightarrow> clob_side" where
  "to_polyfill_side side = (case side of Buy \<Rightarrow> SideBuy | Sell \<Rightarrow> SideSell)"

definition to_polyfill_order_type :: "time_in_force \<Rightarrow> clob_order_type" where
  "to_polyfill_order_type tif =
     (case tif of GoodTilCancelled \<Rightarrow> GTC | FillOrKill \<Rightarrow> FOK | ImmediateOrCancel \<Rightarrow> FOK)"

definition order_args_of :: "('w, 's) clob \<Rightarrow> string \<Rightarrow> f64 \<Rightarrow> f64 \<Rightarrow> order_side \<Rightarrow> order_args" where
  "order_args_of x mint price sz side =
     \<lparr>oa_token_id = mint, oa_price = unwrap_or (decimal_of x price) 0,
      oa_size = unwrap_or (decimal_of x sz) 0, oa_side = to_polyfill_side side\<rparr>"

definition count_placed :: "'w clob_state \<Rightarrow> 'w clob_state" where
  "count_placed s = s\<lparr>ce_metrics := (ce_metrics s)\<lparr>px_orders_placed := Suc (px_orders_placed (ce_metrics s))\<rparr>\<rparr>"

definition count_filled :: "'w clob_state \<Rightarrow> 'w clob_state" where
  "count_filled s = s\<lparr>ce_metrics := (ce_metrics s)\<lparr>px_orders_filled := Suc (px_orders_filled (ce_metrics s))\<rparr>\<rparr>"

definition count_cancelled :: "'w clob_state \<Rightarrow> 'w clob_state" where
  "count_cancelled s =
     s\<lparr>ce_metrics := (ce_metrics s)\<lparr>px_orders_cancelled := Suc (px_orders_cancelled (ce_metrics s))\<rparr>\<rparr>"

section \<open>The retry loops\<close>

definition order_retries :: nat where "order_retries = 3"

definition back_off :: "('w, 's) clob \<Rightarrow> nat \<Rightarrow> 'w \<Rightarrow> 'w" where
  "back_off x attempt w =
     (if attempt < order_retries then pause x (500 * int attempt * millisecond) w else w)"

definition sign_and_post ::
  "('w, 's) clob \<Rightarrow> order_args \<Rightarrow> nat option \<Rightarrow> clob_order_type \<Rightarrow> 'w \<Rightarrow> (exec_error + post_result) \<times> 'w" where
  "sign_and_post x args fee ot w =
     (case create_order x w args fee of
        (Inl e, w1) \<Rightarrow> (Inl (CreateFailed e), w1)
      | (Inr so, w1) \<Rightarrow>
          (case post_order x w1 so ot of
             (Inl e, w2) \<Rightarrow> (Inl (PostFailed e), w2)
           | (Inr result, w2) \<Rightarrow> (Inr result, w2)))"

fun market_attempts ::
  "('w, 's) clob \<Rightarrow> order_args \<Rightarrow> nat list \<Rightarrow> exec_error option \<Rightarrow> 'w \<Rightarrow> (exec_error + post_result) \<times> 'w" where
  "market_attempts x args [] last_error w = (Inl (unwrap_or last_error RetriesExhausted), w)"
| "market_attempts x args (attempt # rest) last_error w =
     (case sign_and_post x args None FOK w of
        (Inr result, w1) \<Rightarrow> (Inr result, w1)
      | (Inl e, w1) \<Rightarrow> market_attempts x args rest (Some e) (back_off x attempt w1))"

fun limit_attempts ::
  "('w, 's) clob \<Rightarrow> order_args \<Rightarrow> clob_order_type \<Rightarrow> nat list \<Rightarrow> exec_error option \<Rightarrow> 'w \<Rightarrow>
   (exec_error + string \<times> bool) \<times> 'w" where
  "limit_attempts x args ot [] last_error w = (Inl (unwrap_or last_error RetriesExhausted), w)"
| "limit_attempts x args ot (attempt # rest) last_error w =
     (case sign_and_post x args (Some 1000) ot w of
        (Inl e, w1) \<Rightarrow> limit_attempts x args ot rest (Some e) (back_off x attempt w1)
      | (Inr result, w1) \<Rightarrow>
          (case pr_order_id result of
             Some oid \<Rightarrow> (Inr (oid, pr_status result = Some ''matched''), w1)
           | None \<Rightarrow> limit_attempts x args ot rest (Some NoOrderId) (back_off x attempt w1)))"

section \<open>Market orders\<close>

fun market_terms :: "order_type \<Rightarrow> (order_side \<times> f64 \<times> f64) option" where
  "market_terms (MarketBuy quote) = Some (Buy, fdiv quote (f_lit (99 / 100)), f_lit (99 / 100))"
| "market_terms (MarketSell amount clear) = Some (Sell, amount, f_lit (1 / 100))"
| "market_terms t = None"

definition market_fill :: "order \<Rightarrow> order_side \<Rightarrow> f64 \<Rightarrow> f64 \<Rightarrow> timestamp \<Rightarrow> execution_event" where
  "market_fill ord side sz price now = ExecOrderFilled
     \<lparr>of_mint = ord_mint ord, of_token_amount_change = (if side = Buy then sz else fneg sz),
      of_quote_amount_change = Some (fmul sz price), of_price = Some price, of_timestamp = now,
      of_slippage = None, of_clear_position = False, of_force_position_clear = False,
      of_execution_latency_in_slots = None, of_confirmed_slot = None, of_confirmed_signature = None,
      of_signal_id = ord_signal_id ord, of_exit_mode = ord_exit_mode ord\<rparr>"

definition clob_market_order ::
  "('w, 's) clob \<Rightarrow> polymarket_config \<Rightarrow> order \<Rightarrow> 'w clob_state \<Rightarrow>
   (exec_error + execution_event) \<times> 'w clob_state" where
  "clob_market_order x c ord s =
     (case market_terms (ord_order_type ord) of
        None \<Rightarrow> (Inl (NotAMarketOrder (ord_order_type ord)), s)
      | Some (side, sz, aggressive_price) \<Rightarrow>
          if pmc_dry_run c then
            let (u, w) = clob_uuid x (ce_world s)
            in (Inr (market_fill ord side sz aggressive_price (clob_now x w)), s\<lparr>ce_world := w\<rparr>)
          else
            (case market_attempts x (order_args_of x (ord_mint ord) aggressive_price sz side)
                    [1..<Suc order_retries] None (ce_world s) of
               (Inl e, w) \<Rightarrow> (Inl e, s\<lparr>ce_world := w\<rparr>)
             | (Inr result, w) \<Rightarrow>
                 let status = unwrap_or (pr_status result) [] in
                 if status = ''matched'' then
                   let price = unwrap_or (pr_matched_price result) aggressive_price
                   in (Inr (market_fill ord side sz price (clob_now x w)),
                       count_filled (count_placed (s\<lparr>ce_world := w\<rparr>)))
                 else (Inl (NotFilled status aggressive_price), s\<lparr>ce_world := w\<rparr>)))"

section \<open>Limit orders\<close>

fun clob_limit_terms :: "order_type \<Rightarrow> (order_side \<times> f64 \<times> f64 \<times> time_in_force) option" where
  "clob_limit_terms (LimitBuy quote lp tif) = Some (Buy, fdiv quote lp, lp, tif)"
| "clob_limit_terms (LimitSell amount lp clear tif) = Some (Sell, amount, lp, tif)"
| "clob_limit_terms t = None"

text \<open>Registering with the poller: the id of the record is only used if none is given.\<close>

definition clob_monitor :: "('w, 's) clob \<Rightarrow> monitored_order \<Rightarrow> 'w clob_state \<Rightarrow> 'w clob_state" where
  "clob_monitor x m s = s\<lparr>ce_poller := monitor_order [] m (ce_poller s)\<rparr>"

definition clob_limit_order ::
  "('w, 's) clob \<Rightarrow> polymarket_config \<Rightarrow> order \<Rightarrow> 'w clob_state \<Rightarrow>
   (exec_error + limit_order_event) \<times> 'w clob_state" where
  "clob_limit_order x c ord s =
     (case clob_limit_terms (ord_order_type ord) of
        None \<Rightarrow> (Inl NotALimitOrder, s)
      | Some (side, sz, price, tif) \<Rightarrow>
          if pmc_dry_run c then
            let (u, w) = clob_uuid x (ce_world s)
            in (Inr (OrderPlaced (''dry-run-'' @ u) (ord_mint ord) (ord_market ord) price sz side
                  (clob_now x w) (ord_signal_id ord) (ord_context ord)), s\<lparr>ce_world := w\<rparr>)
          else
            (case limit_attempts x (order_args_of x (ord_mint ord) price sz side)
                    (to_polyfill_order_type tif) [1..<Suc order_retries] None (ce_world s) of
               (Inl e, w) \<Rightarrow> (Inl e, s\<lparr>ce_world := w\<rparr>)
             | (Inr (oid, was_matched), w) \<Rightarrow>
                 let s1 = count_placed (s\<lparr>ce_world := w\<rparr>) in
                 if was_matched then
                   (Inr (OrderPartiallyFilled oid (ord_mint ord) side sz f0 price (clob_now x w)
                      (ord_signal_id ord) None), count_filled s1)
                 else
                   (Inr (OrderPlaced oid (ord_mint ord) (ord_market ord) price sz side (clob_now x w)
                      (ord_signal_id ord) None),
                    clob_monitor x (monitored_new (clob_now x w) oid (ord_mint ord) (ord_market ord) side
                      price sz (ord_signal_id ord)) s1)))"

section \<open>Cancels, redemptions and queries\<close>

definition clob_cancel_order ::
  "('w, 's) clob \<Rightarrow> polymarket_config \<Rightarrow> string \<Rightarrow> 'w clob_state \<Rightarrow>
   (exec_error + limit_order_event) \<times> 'w clob_state" where
  "clob_cancel_order x c oid s =
     (if pmc_dry_run c
      then (Inr (OrderCancelled oid (Some ''Dry run cancel'') (clob_now x (ce_world s))), s)
      else
        (case cancel_remote x (ce_world s) oid of
           (Inl e, w) \<Rightarrow> (Inl (CancelFailed e), s\<lparr>ce_world := w\<rparr>)
         | (Inr u, w) \<Rightarrow>
             (Inr (OrderCancelled oid (Some ''Cancel requested (awaiting confirmation)'') (clob_now x w)),
              count_cancelled (s\<lparr>ce_world := w, ce_poller := poller_cancel_request oid (ce_poller s)\<rparr>))))"

definition clob_execute_redemption ::
  "('w, 's) clob \<Rightarrow> redemption_action \<Rightarrow> 'w clob_state \<Rightarrow> (exec_error + redemption_event) \<times> 'w clob_state" where
  "clob_execute_redemption x action s =
     (Inr (RedemptionFailed (ra_market action) ''Queued for execution by merge executor''
        (clob_now x (ce_world s))),
      s\<lparr>ce_merger := request_merge (ce_merger s) action\<rparr>)"

text \<open>The pending orders the executor shows are rebuilt from the monitored ones.\<close>

record clob_pending =
  cp_order_id :: string
  cp_mint :: string
  cp_market :: "string option"
  cp_side :: order_side
  cp_price :: f64
  cp_original_size :: f64
  cp_remaining_size :: f64
  cp_last_known_filled :: f64
  cp_placed_at :: timestamp
  cp_time_in_force :: time_in_force
  cp_signal_id :: "string option"

definition clob_pending_new ::
  "timestamp \<Rightarrow> string \<Rightarrow> string \<Rightarrow> string option \<Rightarrow> order_side \<Rightarrow> f64 \<Rightarrow> f64 \<Rightarrow> time_in_force \<Rightarrow>
   string option \<Rightarrow> clob_pending" where
  "clob_pending_new now oid mint market side price sz tif signal =
     \<lparr>cp_order_id = oid, cp_mint = mint, cp_market = market, cp_side = side, cp_price = price,
      cp_original_size = sz, cp_remaining_size = sz, cp_last_known_filled = f0, cp_placed_at = now,
      cp_time_in_force = tif, cp_signal_id = signal\<rparr>"

definition cp_is_filled :: "clob_pending \<Rightarrow> bool" where
  "cp_is_filled p = fle (cp_remaining_size p) f0"

definition update_filled :: "f64 \<Rightarrow> clob_pending \<Rightarrow> clob_pending \<times> f64" where
  "update_filled total_filled p =
     (let new_fill = fsub total_filled (cp_last_known_filled p) in
      (if flt f0 new_fill
       then p\<lparr>cp_last_known_filled := total_filled, cp_remaining_size := fsub (cp_original_size p) total_filled\<rparr>
       else p, new_fill))"

definition monitored_count :: "poller \<Rightarrow> nat" where
  "monitored_count p = length (pl_monitored p)"

definition clob_get_pending_orders :: "timestamp \<Rightarrow> 'w clob_state \<Rightarrow> clob_pending list" where
  "clob_get_pending_orders now s =
     map (\<lambda>m. clob_pending_new now (mo_order_id m) (mo_mint m) (mo_market m) (mo_side m) (mo_price m)
            (mo_original_size m) GoodTilCancelled (mo_signal_id m)) (hvals (pl_monitored (ce_poller s)))"

definition clob_get_pending_order :: "timestamp \<Rightarrow> string \<Rightarrow> 'w clob_state \<Rightarrow> clob_pending option" where
  "clob_get_pending_order now oid s =
     List.find (\<lambda>p. cp_order_id p = oid) (clob_get_pending_orders now s)"

section \<open>Placing an order\<close>

text \<open>A market order and a redemption leave the poller alone.\<close>

lemma clob_counts [simp]:
  "ce_poller (count_placed s) = ce_poller s" "ce_poller (count_filled s) = ce_poller s"
  "ce_poller (count_cancelled s) = ce_poller s"
  by (simp_all add: count_placed_def count_filled_def count_cancelled_def)

lemma clob_market_poller: "ce_poller (snd (clob_market_order x c ord s)) = ce_poller s"
  by (auto simp: clob_market_order_def Let_def split: option.split prod.split sum.split)

lemma clob_redemption_poller: "ce_poller (snd (clob_execute_redemption x act s)) = ce_poller s"
  by (simp add: clob_execute_redemption_def)

text \<open>An id the poller has never seen: the venue gives every order a new one.\<close>

definition unseen :: "poller \<Rightarrow> string \<Rightarrow> bool" where
  "unseen p oid \<longleftrightarrow> fresh_id p oid \<and> hget (pl_monitored p) oid = None
     \<and> hget (orders (pl_engine p)) (''live-'' @ oid) = None"

lemma monitored_new_fields [simp]:
  "mo_order_id (monitored_new now oid mint market side price sz signal) = oid"
  "mo_original_size (monitored_new now oid mint market side price sz signal) = sz"
  "mo_last_known_filled (monitored_new now oid mint market side price sz signal) = f0"
  by (simp_all add: monitored_new_def)

lemma monitor_queue [simp]: "pl_queue (monitor_order u m p) = pl_queue p"
  by (simp add: monitor_order_def register_lifecycle_order_def set_monitored_def Let_def
      split: lc_result.split prod.split)

lemma monitor_entry: "hget (pl_monitored (monitor_order u m p)) (mo_order_id m) = Some m"
  by (simp add: monitor_order_def set_monitored_def Let_def)

lemma monitor_engine: "pl_engine (monitor_order u m p) = pl_engine (register_lifecycle_order u m p)"
  by (simp add: monitor_order_def set_monitored_def Let_def)

lemma placed_order_is_live:
  assumes "poller_inv p" "unseen p (mo_order_id m)" "\<not> fle (mo_original_size m) f0"
  shows "\<exists>lc. look (pl_engine (monitor_order u m p)) (mo_order_id m) = Some lc \<and> \<not> lco_is_terminal lc"
proof -
  have "look (pl_engine p) (mo_order_id m) = None" using assms(2) by (simp add: unseen_def fresh_id_def)
  note r = register_live_step [OF poller_invD(1) [OF assms(1)] this, of u]
  have "hget (orders (pl_engine p)) (''live-'' @ mo_order_id m) = None" using assms(2) by (simp add: unseen_def)
  from r(3) [OF assms(3) this] r(2) show ?thesis
    unfolding monitor_engine open_or_unknown_def by blast
qed

text \<open>What the venue answers to one attempt, and the answers of the attempts of one order: after a failed
  attempt the executor waits, longer every time, and posts the order again, three times at most.\<close>

definition attempt_answer ::
  "('w, 's) clob \<Rightarrow> order_args \<Rightarrow> clob_order_type \<Rightarrow> 'w \<Rightarrow> (exec_error + string \<times> string option) \<times> 'w" where
  "attempt_answer x args ot w =
     (case create_order x w args (Some 1000) of
        (Inl e, w1) \<Rightarrow> (Inl (CreateFailed e), w1)
      | (Inr so, w1) \<Rightarrow>
          (case post_order x w1 so ot of
             (Inl e, w2) \<Rightarrow> (Inl (PostFailed e), w2)
           | (Inr res, w2) \<Rightarrow>
               (case pr_order_id res of
                  None \<Rightarrow> (Inl NoOrderId, w2)
                | Some oid \<Rightarrow> (Inr (oid, pr_status res), w2))))"

inductive answers ::
  "('w, 's) clob \<Rightarrow> order_args \<Rightarrow> clob_order_type \<Rightarrow> nat \<Rightarrow> 'w \<Rightarrow> (exec_error + string \<times> string option) list \<Rightarrow> 'w \<Rightarrow> bool"
  for x args ot where
  accepted: "attempt_answer x args ot w = (Inr a, w1) \<Longrightarrow> answers x args ot k w [Inr a] w1"
| gave_up: "attempt_answer x args ot w = (Inl e, w1) \<Longrightarrow> answers x args ot 3 w [Inl e] w1"
| again: "attempt_answer x args ot w = (Inl e, w1) \<Longrightarrow> k < 3 \<Longrightarrow>
    answers x args ot (Suc k) (pause x (500 * int k * millisecond) w1) as w2 \<Longrightarrow>
    answers x args ot k w (Inl e # as) w2"

lemma answers_shape:
  "answers x args ot k w as w1 \<Longrightarrow> k \<le> 3 \<Longrightarrow> as \<noteq> [] \<and> k + length as \<le> 4 \<and> list_all isl (butlast as)"
  by (induction rule: answers.induct) auto

lemma attempt_sign_and_post:
  "limit_attempts x args ot (k # ks) le w =
     (case attempt_answer x args ot w of
        (Inr (oid, status), w1) \<Rightarrow> (Inr (oid, status = Some ''matched''), w1)
      | (Inl e, w1) \<Rightarrow> limit_attempts x args ot ks (Some e) (back_off x k w1))"
  by (auto simp: sign_and_post_def attempt_answer_def split: prod.split sum.split option.split)

lemma limit_attempts_answers:
  assumes "limit_attempts x args ot [k..<Suc order_retries] le w = (q, w')" "k \<le> 3"
  shows "\<exists>as. answers x args ot k w as w' \<and>
    (case last as of Inl e \<Rightarrow> q = Inl e | Inr (oid, status) \<Rightarrow> q = Inr (oid, status = Some ''matched''))"
  using assms
proof (induction "3 - k" arbitrary: k w le)
  case 0
  then have k: "k = 3" "[k..<Suc order_retries] = [k]" by (simp_all add: order_retries_def)
  obtain a w1 where a: "attempt_answer x args ot w = (a, w1)" by fastforce
  show ?case
    using 0(2) a answers.gave_up [of x args ot w _ w1] answers.accepted [of x args ot w _ w1 3]
    unfolding k(2) attempt_sign_and_post
    by (cases a) (auto simp: k(1) back_off_def order_retries_def)
next
  case (Suc n)
  then have k: "k < 3" "[k..<Suc order_retries] = k # [Suc k..<Suc order_retries]"
    by (simp_all add: order_retries_def upt_rec)
  obtain a w1 where a: "attempt_answer x args ot w = (a, w1)" by fastforce
  show ?case
  proof (cases a)
    case (Inr z)
    then show ?thesis
      using Suc.prems(1) a answers.accepted [of x args ot w z w1 k]
      unfolding k(2) attempt_sign_and_post by (intro exI [of _ "[Inr z]"]) (cases z, auto)
  next
    case (Inl e)
    let ?w2 = "pause x (500 * int k * millisecond) w1"
    have "limit_attempts x args ot [Suc k..<Suc order_retries] (Some e) ?w2 = (q, w')"
      using Suc.prems(1) a Inl k(1) unfolding k(2) attempt_sign_and_post by (simp add: back_off_def order_retries_def)
    then obtain as where as: "answers x args ot (Suc k) ?w2 as w'"
      "case last as of Inl e \<Rightarrow> q = Inl e | Inr (oid, status) \<Rightarrow> q = Inr (oid, status = Some ''matched'')"
      using Suc.hyps(1) [of "Suc k" "Some e" ?w2] Suc.hyps(2) k(1) by (metis (no_types, lifting) Suc_diff_Suc Suc_leI diff_Suc_Suc nat.inject)
    moreover have "as \<noteq> []" using answers_shape [OF as(1)] k(1) by simp
    ultimately show ?thesis
      using answers.again [of x args ot w e w1 k as w'] a Inl k(1) by (intro exI [of _ "Inl e # as"]) simp
  qed
qed

text \<open>C7. The answer that a limit order finally gets decides how it is accounted for, and by exactly one
  channel.  The order is posted three times at most, again only after an attempt without an order id.  When
  the last attempt fails too, its error is returned and nothing is counted or monitored.  When the
  venue matches the order at once, the returned event reports the whole size as filled, and the
  poller is as before, so that it cannot report it again.  With any other status the returned event
  reports the placement, and the order is monitored from its first instant with nothing filled and an open
  lifecycle record.  No event is queued and no other order is touched.\<close>

theorem limit_order_accounted_once:
  assumes inv: "poller_inv (ce_poller s)" and live: "\<not> pmc_dry_run c"
    and terms: "clob_limit_terms (ord_order_type ord) = Some (side, sz, price, tif)" "\<not> fle sz f0"
    and run: "clob_limit_order x c ord s = (r, s')"
    and fresh: "\<And>ev oid. r = Inr ev \<Longrightarrow> event_order_id ev = Some oid \<Longrightarrow> unseen (ce_poller s) oid"
  shows "\<exists>as w. answers x (order_args_of x (ord_mint ord) price sz side) (to_polyfill_order_type tif) 1 (ce_world s) as w
    \<and> ce_world s' = w \<and> length as \<le> 3 \<and> list_all isl (butlast as)
    \<and> poller_inv (ce_poller s') \<and> pl_queue (ce_poller s') = pl_queue (ce_poller s)
    \<and> (case last as of
         Inl e \<Rightarrow> r = Inl e \<and> s' = s\<lparr>ce_world := w\<rparr>
       | Inr (oid, status) \<Rightarrow>
           if status = Some ''matched'' then
             r = Inr (OrderPartiallyFilled oid (ord_mint ord) side sz f0 price (clob_now x w) (ord_signal_id ord) None)
             \<and> s' = count_filled (count_placed (s\<lparr>ce_world := w\<rparr>))
           else
             r = Inr (OrderPlaced oid (ord_mint ord) (ord_market ord) price sz side (clob_now x w) (ord_signal_id ord) None)
             \<and> ce_metrics s' = ce_metrics (count_placed s) \<and> ce_merger s' = ce_merger s
             \<and> hget (pl_monitored (ce_poller s')) oid = Some (monitored_new (clob_now x w) oid (ord_mint ord)
                 (ord_market ord) side price sz (ord_signal_id ord))
             \<and> (\<forall>d. d \<noteq> oid \<longrightarrow> hget (pl_monitored (ce_poller s')) d = hget (pl_monitored (ce_poller s)) d)
             \<and> (\<exists>lc. look (pl_engine (ce_poller s')) oid = Some lc \<and> \<not> lco_is_terminal lc))"
proof -
  let ?args = "order_args_of x (ord_mint ord) price sz side"
  obtain q w where att: "limit_attempts x ?args (to_polyfill_order_type tif) [1..<Suc order_retries] None (ce_world s) = (q, w)"
    by fastforce
  obtain as where as: "answers x ?args (to_polyfill_order_type tif) 1 (ce_world s) as w"
    "case last as of Inl e \<Rightarrow> q = Inl e | Inr (oid, status) \<Rightarrow> q = Inr (oid, status = Some ''matched'')"
    using limit_attempts_answers [OF att] by auto
  have shape: "length as \<le> 3" "list_all isl (butlast as)" using answers_shape [OF as(1)] by auto
  show ?thesis
  proof (cases "last as")
    case (Inl e)
    then have "r = Inl e" "s' = s\<lparr>ce_world := w\<rparr>"
      using run live terms(1) att as(2) by (auto simp: clob_limit_order_def)
    then show ?thesis using as(1) shape inv Inl by (intro exI [of _ as] exI [of _ w]) simp
  next
    case (Inr z)
    obtain oid status where z: "z = (oid, status)" by fastforce
    have q: "q = Inr (oid, status = Some ''matched'')" using as(2) Inr z by simp
    show ?thesis
    proof (cases "status = Some ''matched''")
      case True
      then have "r = Inr (OrderPartiallyFilled oid (ord_mint ord) side sz f0 price (clob_now x w) (ord_signal_id ord) None)"
        "s' = count_filled (count_placed (s\<lparr>ce_world := w\<rparr>))"
        using run live terms(1) att q by (auto simp: clob_limit_order_def Let_def)
      then show ?thesis
        using as(1) shape inv Inr z True
        by (intro exI [of _ as] exI [of _ w]) (simp add: count_filled_def count_placed_def)
    next
      case False
      let ?m = "monitored_new (clob_now x w) oid (ord_mint ord) (ord_market ord) side price sz (ord_signal_id ord)"
      have r: "r = Inr (OrderPlaced oid (ord_mint ord) (ord_market ord) price sz side (clob_now x w) (ord_signal_id ord) None)"
        and s': "s' = clob_monitor x ?m (count_placed (s\<lparr>ce_world := w\<rparr>))"
        using run live terms(1) att q False by (auto simp: clob_limit_order_def Let_def)
      have p: "ce_poller s' = monitor_order [] ?m (ce_poller s)" by (simp add: s' clob_monitor_def)
      have new: "unseen (ce_poller s) (mo_order_id ?m)" using fresh [OF r] by simp
      then have "poller_inv (ce_poller s')" unfolding p by (intro monitor_inv inv) (simp add: unseen_def)
      moreover have "hget (pl_monitored (ce_poller s')) d = (if d = oid then Some ?m else hget (pl_monitored (ce_poller s)) d)" for d
        by (simp add: p monitor_order_def set_monitored_def register_lifecycle_order_def Let_def split: lc_result.split prod.split)
      moreover have "\<exists>lc. look (pl_engine (ce_poller s')) oid = Some lc \<and> \<not> lco_is_terminal lc"
        using placed_order_is_live [OF inv new, of "[]"] terms(2) by (simp add: p)
      ultimately show ?thesis
        using as(1) shape Inr z False r
        by (intro exI [of _ as] exI [of _ w]) (simp add: p, simp add: s' clob_monitor_def count_placed_def)
    qed
  qed
qed

section \<open>Cancelling in two phases\<close>

lemma awaiting_examples [simp]:
  "awaiting (Some ''Cancel requested (awaiting confirmation)'')"
  "\<not> awaiting (Some ''Cancelled externally'')"
  by (simp_all add: awaiting_def)

text \<open>A monitored order whose lifecycle record is open gets its cancellation event.\<close>

lemma cancellation_emitted:
  assumes "poller_inv p" "hget (pl_monitored p) oid = Some m" "look (pl_engine p) oid = Some lc"
  shows "pl_queue (finish_cancelled now oid reason p) = pl_queue p @ [LimitOrderEv (OrderCancelled oid (Some reason) now)]"
    and "pl_monitored (finish_cancelled now oid reason p) = hdel oid (pl_monitored p)"
proof -
  have open_lc: "\<not> lco_is_terminal lc"
    using poller_invD(4) [OF assms(1,2)] assms(3) by (simp add: open_or_unknown_def)
  have "lc_inv (pl_engine p)" "own_venues (pl_engine p)" "lc_state lc \<noteq> SubmitPending"
    using poller_invD(1) [OF assms(1)] assms(3) by (auto simp: live_engine_def sim_engine_def)
  then obtain ord where "serves oid (pl_engine p) (record_cancel_confirmed (pl_engine p) (ClientOrderId oid) (Some oid)) ord"
    using client_confirm assms(3) by blast
  then obtain e1 where ev: "record_terminal_evidence (pl_engine p) (ClientOrderId oid) TCancelled (Some oid) = (e1, LcOk ord)"
    by (cases "record_terminal_evidence (pl_engine p) (ClientOrderId oid) TCancelled (Some oid)")
      (auto simp: serves_def record_cancel_confirmed_def)
  have "should_emit_terminal_cancellation oid p = (p\<lparr>pl_engine := e1\<rparr>, True)"
    using open_lc assms(3) ev
    by (cases "lc_state lc") (simp_all add: should_emit_terminal_cancellation_def Let_def lco_is_terminal_def)
  then show "pl_queue (finish_cancelled now oid reason p) = pl_queue p @ [LimitOrderEv (OrderCancelled oid (Some reason) now)]"
    "pl_monitored (finish_cancelled now oid reason p) = hdel oid (pl_monitored p)"
    by (simp_all add: finish_cancelled_def unmonitor_order_def set_monitored_def enqueue_event_def)
qed

lemma cancel_request_known:
  assumes "poller_inv p" "look (pl_engine p) oid \<noteq> None"
  shows "look (pl_engine (poller_cancel_request oid p)) oid \<noteq> None"
proof -
  have "engine_le (pl_engine p) (pl_engine (poller_cancel_request oid p))"
    using cancel_live_step(1) [OF poller_invD(1) [OF assms(1)], of oid]
    by (simp add: live_step_def poller_cancel_request_def)
  then show ?thesis using assms(2) look_le by blast
qed

text \<open>C8. A cancel has two phases.  The acknowledged request only marks the lifecycle record: the order
  stays monitored and its event changes nothing in the position manager, so that it still counts as
  live.  When a later poll finds it cancelled, what was filled in the meantime is reported first and
  the cancellation after it, nothing else is, and the two events take the order out of the position
  manager and leave every other order as it was.\<close>

theorem cancel_is_two_phase:
  assumes inv: "poller_inv (ce_poller s)" and m: "hget (pl_monitored (ce_poller s)) oid = Some m"
    and known: "look (pl_engine (ce_poller s)) oid \<noteq> None"
    and live: "\<not> pmc_dry_run c" and run: "clob_cancel_order x c oid s = (Inr ack, s')"
    and api: "map upper_ascii (ao_status api) = ''CANCELED''"
    and pm: "ids_unique pm"
  shows "fst (handle_limit_order_event pm ack) = pm
    \<and> hget (pl_monitored (ce_poller s')) oid = Some m \<and> pl_queue (ce_poller s') = pl_queue (ce_poller s)
    \<and> (let total = unwrap_or (ao_size_matched api) f0;
         news = (if flt (mo_last_known_filled m) total then [create_fill_event now m total] else [])
           @ [OrderCancelled oid (Some ''Cancelled externally'') now];
         p' = fst (poll_single_order now (Inr api) oid (ce_poller s'))
       in pl_queue p' = pl_queue (ce_poller s) @ map LimitOrderEv news
         \<and> hget (pl_monitored p') oid = None
         \<and> tracked (apply_limit_events news pm) = (\<lambda>k. if snd k = oid then None else tracked pm k))"
proof -
  let ?p = "poller_cancel_request oid (ce_poller s)"
  obtain w where cancelled: "ack = OrderCancelled oid (Some ''Cancel requested (awaiting confirmation)'') (clob_now x w)"
    "ce_poller s' = ?p"
    using run live by (auto simp: clob_cancel_order_def split: prod.splits sum.splits)
  have p: "pl_monitored ?p = pl_monitored (ce_poller s)" "pl_queue ?p = pl_queue (ce_poller s)"
    by (simp_all add: poller_cancel_request_def)
  have id: "mo_order_id m = oid" by (rule poller_invD(3) [OF inv m])
  define q where "q = unwrap_or (ao_size_matched api) f0"
  let ?p1 = "offer_fill now m q (flt (mo_last_known_filled m) q) ?p"
  have inv1: "poller_inv ?p1"
    by (rule enqueue_inv [OF cancel_request_inv [OF inv]]) (use m id in \<open>simp add: p\<close>)
  obtain lc where lc: "look (pl_engine ?p1) oid = Some lc" using cancel_request_known [OF inv known] by auto
  note fin = cancellation_emitted [OF inv1 _ lc, where m = m and now = now and reason = "''Cancelled externally''"]
  have poll: "fst (poll_single_order now (Inr api) oid ?p) = finish_cancelled now oid ''Cancelled externally'' ?p1"
    using m api by (simp add: poll_single_order_def poll_answered_def p q_def Let_def)
  define news where "news = (if flt (mo_last_known_filled m) q then [create_fill_event now m q] else [])
           @ [OrderCancelled oid (Some ''Cancelled externally'') now]"
  have "pl_queue ?p1 = pl_queue ?p @ map LimitOrderEv (if flt (mo_last_known_filled m) q then [create_fill_event now m q] else [])"
    by (simp add: offer_fill_def enqueue_event_def)
  then have queue: "pl_queue (fst (poll_single_order now (Inr api) oid ?p)) = pl_queue (ce_poller s) @ map LimitOrderEv news"
    using fin(1) m p by (simp add: poll news_def)
  moreover have "hget (pl_monitored (fst (poll_single_order now (Inr api) oid ?p))) oid = None"
    using fin(2) m p by (simp add: poll)
  moreover have "tracked (apply_limit_events news pm) = (\<lambda>k. if snd k = oid then None else tracked pm k)"
    by (simp add: news_def apply_limit_events_def create_fill_event_def id tracked_event ids_unique_fill pm
        on_id_def fun_eq_iff del: handle_limit_order_event.simps)
  ultimately show ?thesis
    using cancelled m p by (simp add: Let_def q_def [symmetric] news_def)
qed
section \<open>A concrete exchange\<close>

text \<open>The world counts the orders on the book.  The answer to the first order is lost on the way.\<close>

definition demo_clob :: "(nat, order_args) clob" where
  "demo_clob =
     \<lparr>create_order = (\<lambda>w a fee. (Inr a, w)),
      post_order = (\<lambda>w a ot. (if w = 0 then Inl ''timeout''
         else Inr \<lparr>pr_order_id = Some ''o'', pr_status = Some ''live'', pr_matched_price = None\<rparr>, Suc w)),
      cancel_remote = (\<lambda>w oid. (Inr (), w)), pause = (\<lambda>d w. w), decimal_of = (\<lambda>x. None),
      clob_now = (\<lambda>w. int w), clob_uuid = (\<lambda>w. ([], w))\<rparr>"

definition demo_live :: polymarket_config where
  "demo_live = default_polymarket_config\<lparr>pmc_dry_run := False\<rparr>"

definition demo_sell :: order where
  "demo_sell = new_limit_sell ''mint'' None (grid 8) (grid 1) False GoodTilCancelled 0 None None"

definition demo_executor :: "nat clob_state" where
  "demo_executor = \<lparr>ce_poller = poller_new default_poller_config, ce_merger = demo_merger,
     ce_metrics = \<lparr>px_orders_placed = 0, px_orders_filled = 0, px_orders_cancelled = 0\<rparr>, ce_world = 0\<rparr>"

definition demo_watched :: monitored_order where
  "demo_watched = monitored_new 2 ''o'' ''mint'' None Sell (grid 1) (grid 8) None"

text \<open>After a lost answer the order is posted again: two orders are on the book, and the executor
  reports and monitors one.\<close>

lemma lost_answer_places_twice:
  "clob_limit_order demo_clob demo_live demo_sell demo_executor =
     (Inr (OrderPlaced ''o'' ''mint'' None (grid 1) (grid 8) Sell 2 None None),
      count_placed (demo_executor\<lparr>ce_world := 2, ce_poller := monitor_order [] demo_watched (ce_poller demo_executor)\<rparr>))"
proof -
  have "[1..<Suc order_retries] = [1, 2, 3]" by (simp add: order_retries_def upt_rec)
  then have "limit_attempts demo_clob a ot [1..<Suc order_retries] None 0 = (Inr (''o'', False), 2)" for a ot
    by (simp add: sign_and_post_def demo_clob_def back_off_def order_retries_def)
  moreover have "clob_now demo_clob w = int w" for w by (simp add: demo_clob_def)
  ultimately show ?thesis
    by (simp add: clob_limit_order_def demo_live_def demo_sell_def new_limit_sell_def demo_executor_def
        demo_watched_def clob_monitor_def count_placed_def Let_def)
qed

lemma demo_start: "poller_inv (poller_new default_poller_config)" "unseen (poller_new default_poller_config) oid"
  using poller_run_inv [OF poller_run.start]
  by (simp_all add: unseen_def fresh_id_def poller_new_def engine_get_def engine_new_def)

theorem limit_order_accounted_once_witness:
  "map_option mo_original_size (hget (pl_monitored (ce_poller (snd
     (clob_limit_order demo_clob demo_live demo_sell demo_executor)))) ''o'') = Some (grid 8)
   \<and> px_orders_placed (ce_metrics (snd (clob_limit_order demo_clob demo_live demo_sell demo_executor))) = 1"
proof -
  have terms: "clob_limit_terms (ord_order_type demo_sell) = Some (Sell, grid 8, grid 1, GoodTilCancelled)"
    by (simp add: demo_sell_def new_limit_sell_def)
  have start: "poller_inv (ce_poller demo_executor)" "unseen (ce_poller demo_executor) oid" for oid
    using demo_start by (simp_all add: demo_executor_def)
  have live: "\<not> pmc_dry_run demo_live" "\<not> fle (grid 8) f0" by (simp_all add: demo_live_def f0_grid)
  have "\<exists>(as :: (exec_error + string \<times> string option) list) (w :: nat). case last as of
       Inl e \<Rightarrow> False
     | Inr (oid, status) \<Rightarrow> oid = ''o'' \<and> map_option mo_original_size
         (hget (pl_monitored (monitor_order [] demo_watched (ce_poller demo_executor))) oid) = Some (grid 8)"
    using limit_order_accounted_once [OF start(1) live(1) terms live(2) lost_answer_places_twice start(2)]
    by (elim ex_forward) (auto simp: count_placed_def split: sum.splits prod.splits if_splits)
  then have "map_option mo_original_size (hget (pl_monitored (monitor_order [] demo_watched (ce_poller demo_executor))) ''o'') = Some (grid 8)"
    by (elim exE) (case_tac "last as"; force)
  then show ?thesis
    unfolding lost_answer_places_twice snd_conv by (simp add: count_placed_def demo_executor_def)
qed

definition demo_watching :: "nat clob_state" where
  "demo_watching = demo_executor\<lparr>ce_poller := monitor_order [] demo_watched (ce_poller demo_executor)\<rparr>"

definition demo_tracking :: pm_state where
  "demo_tracking = fst (handle_limit_order_event (pm_new (grid 0))
     (OrderPlaced ''o'' ''mint'' None (grid 1) (grid 8) Sell 2 None None))"

lemma demo_watching_facts:
  "poller_inv (ce_poller demo_watching)" "hget (pl_monitored (ce_poller demo_watching)) ''o'' = Some demo_watched"
  "look (pl_engine (ce_poller demo_watching)) ''o'' \<noteq> None" "pl_queue (ce_poller demo_watching) = []"
proof -
  have id: "mo_order_id demo_watched = ''o''" "mo_original_size demo_watched = grid 8" by (simp_all add: demo_watched_def)
  have s: "ce_poller demo_watching = monitor_order [] demo_watched (poller_new default_poller_config)"
    by (simp add: demo_watching_def demo_executor_def)
  show "poller_inv (ce_poller demo_watching)"
    unfolding s using demo_start by (intro monitor_inv) (simp_all add: unseen_def)
  show "hget (pl_monitored (ce_poller demo_watching)) ''o'' = Some demo_watched"
    using monitor_entry [of "[]" demo_watched] by (simp add: s id)
  show "look (pl_engine (ce_poller demo_watching)) ''o'' \<noteq> None"
    using placed_order_is_live [of _ demo_watched "[]", OF demo_start(1)] demo_start(2) by (auto simp: s id f0_grid)
  show "pl_queue (ce_poller demo_watching) = []" by (simp add: s poller_new_def)
qed

lemma demo_ids: "ids_unique demo_tracking"
  by (auto simp: demo_tracking_def pm_new_def ids_unique_def one_mint_def book_at_def add_pending_order_def
      remove_in_flight_order_by_level_def Let_def hput_def split: if_splits)

definition demo_acknowledged :: "nat clob_state" where
  "demo_acknowledged = snd (clob_cancel_order demo_clob demo_live ''o'' demo_watching)"

theorem cancel_is_two_phase_witness:
  "pl_queue (fst (poll_single_order 9 (demo_answer ''CANCELED'' 3) ''o'' (ce_poller demo_acknowledged))) =
     [LimitOrderEv (OrderPartiallyFilled ''o'' ''mint'' Sell (grid 3) (grid 5) (grid 1) 9 None None),
      LimitOrderEv (OrderCancelled ''o'' (Some ''Cancelled externally'') 9)]
   \<and> hget (pl_monitored (ce_poller demo_acknowledged)) ''o'' = Some demo_watched"
proof -
  have run: "clob_cancel_order demo_clob demo_live ''o'' demo_watching =
      (Inr (OrderCancelled ''o'' (Some ''Cancel requested (awaiting confirmation)'') 0), demo_acknowledged)"
    by (simp add: demo_acknowledged_def clob_cancel_order_def demo_live_def demo_clob_def demo_watching_def demo_executor_def)
  have api: "map upper_ascii (ao_status \<lparr>ao_status = ''CANCELED'', ao_size_matched = Some (grid 3)\<rparr>) = ''CANCELED''"
    by (simp add: upper_ascii_def)
  have "\<not> pmc_dry_run demo_live" by (simp add: demo_live_def)
  note two = cancel_is_two_phase [OF demo_watching_facts(1,2,3) this run api demo_ids, of 9]
  then show ?thesis
    by (simp add: demo_answer_def demo_watching_facts(4) demo_watched_def create_fill_event_def monitored_new_def
        f0_grid fsub_grid Let_def)
qed

end
