(* ===== verification/Orderbook_Tracker.thy ===== *)
theory Orderbook_Tracker
  imports Paper
begin

text \<open>
  The order books that the trading server keeps of the market, \<open>orderbook_tracker/mod.rs\<close>: a
  snapshot replaces the book of its asset, an update changes one level and then aligns the best levels
  with the prices the exchange states, and books that are not updated any more are evicted.  The event
  types come from a package outside the repository; the records hold the fields that are used.  Time
  stamps of events are milliseconds; \<open>of_millis\<close> is the conversion of the date library, which fails on
  times it cannot hold.  The stable sort compares prices by \<open>partial_cmp\<close> and takes incomparable ones
  as equal; on lists with a NaN price the order is unspecified in the source.
\<close>

section \<open>Data\<close>

record order_summary =
  os_price :: f64
  os_size :: f64

record book_snapshot =
  bk_asset_id :: string
  bk_market :: string
  bk_bids :: "order_summary list"
  bk_asks :: "order_summary list"
  bk_hash :: string
  bk_timestamp :: int
  bk_metadata :: "json option"
  bk_observed_at :: timestamp

record book_update =
  bu_asset_id :: string
  bu_market :: string
  bu_price :: f64
  bu_size :: f64
  bu_side :: trade_side
  bu_hash :: string
  bu_best_bid :: f64
  bu_best_ask :: f64
  bu_timestamp :: int
  bu_observed_at :: timestamp

record tracked_book =
  tb_snapshot :: book_snapshot
  tb_last_update :: timestamp

record tracker =
  tk_books :: "(string, tracked_book) hmap"
  tk_eviction_threshold :: duration

definition default_eviction_threshold :: duration where
  "default_eviction_threshold = 3600 * 1000000000"

definition price_epsilon :: f64 where "price_epsilon = f_lit (1 / 1000000000)"

definition tracker_new :: tracker where
  "tracker_new = \<lparr>tk_books = [], tk_eviction_threshold = default_eviction_threshold\<rparr>"

definition with_eviction_threshold :: "duration \<Rightarrow> tracker" where
  "with_eviction_threshold d = \<lparr>tk_books = [], tk_eviction_threshold = d\<rparr>"

section \<open>Levels\<close>

text \<open>\<open>better side p q\<close>: price \<open>p\<close> comes before price \<open>q\<close> on that side of the book.\<close>

definition better :: "trade_side \<Rightarrow> f64 \<Rightarrow> f64 \<Rightarrow> bool" where
  "better side p q = (case side of TradeBuy \<Rightarrow> flt q p | TradeSell \<Rightarrow> flt p q)"

fun place_level :: "trade_side \<Rightarrow> order_summary \<Rightarrow> order_summary list \<Rightarrow> order_summary list" where
  "place_level side l [] = [l]"
| "place_level side l (m # ms) =
     (if better side (os_price m) (os_price l) then m # place_level side l ms else l # m # ms)"

definition sort_levels :: "trade_side \<Rightarrow> order_summary list \<Rightarrow> order_summary list" where
  "sort_levels side levels = foldr (place_level side) levels []"

definition same_level :: "f64 \<Rightarrow> order_summary \<Rightarrow> bool" where
  "same_level price l = flt (fabs (fsub (os_price l) price)) f_epsilon"

fun remove_level :: "f64 \<Rightarrow> order_summary list \<Rightarrow> order_summary list" where
  "remove_level price [] = []"
| "remove_level price (l # ls) = (if same_level price l then ls else l # remove_level price ls)"

fun resize_level :: "f64 \<Rightarrow> f64 \<Rightarrow> order_summary list \<Rightarrow> order_summary list" where
  "resize_level price sz [] = []"
| "resize_level price sz (l # ls) =
     (if same_level price l then l\<lparr>os_size := sz\<rparr> # ls else l # resize_level price sz ls)"

definition apply_level_update :: "trade_side \<Rightarrow> f64 \<Rightarrow> f64 \<Rightarrow> order_summary list \<Rightarrow> order_summary list" where
  "apply_level_update side price sz levels =
     (if feq sz f0 then remove_level price levels
      else if list_ex (same_level price) levels then resize_level price sz levels
      else sort_levels side (levels @ [\<lparr>os_price = price, os_size = sz\<rparr>]))"

definition near_best :: "f64 \<Rightarrow> f64 \<Rightarrow> bool" where
  "near_best best p = flt (fabs (fsub p best)) price_epsilon"

definition within_best :: "trade_side \<Rightarrow> f64 \<Rightarrow> f64 \<Rightarrow> bool" where
  "within_best side best p =
     (case side of TradeBuy \<Rightarrow> fle p (fadd best price_epsilon) | TradeSell \<Rightarrow> fle (fsub best price_epsilon) p)"

definition best_level_size :: "f64 \<Rightarrow> book_update \<Rightarrow> trade_side \<Rightarrow> f64" where
  "best_level_size best u side =
     (if bu_side u = side \<and> flt (fabs (fsub (bu_price u) best)) price_epsilon then bu_size u else f0)"

definition put_best :: "f64 \<Rightarrow> book_update \<Rightarrow> trade_side \<Rightarrow> order_summary list \<Rightarrow> order_summary list" where
  "put_best best u side levels =
     (let sz = best_level_size best u side in
      case levels of
        [] \<Rightarrow> [\<lparr>os_price = best, os_size = sz\<rparr>]
      | l # rest \<Rightarrow> \<lparr>os_price = best, os_size = (if flt f0 sz then sz else os_size l)\<rparr> # rest)"

definition align_best_level :: "f64 \<Rightarrow> book_update \<Rightarrow> trade_side \<Rightarrow> order_summary list \<Rightarrow> order_summary list" where
  "align_best_level best u side levels =
     (let kept = filter (\<lambda>l. within_best side best (os_price l)) levels;
        has_best = list_ex (\<lambda>l. near_best best (os_price l)) kept
      in sort_levels side (if has_best then kept else put_best best u side kept))"

section \<open>The operations\<close>

definition updated_book :: "book_update \<Rightarrow> book_snapshot \<Rightarrow> book_snapshot" where
  "updated_book u b =
     (let bids = (if bu_side u = TradeBuy then apply_level_update TradeBuy (bu_price u) (bu_size u) (bk_bids b) else bk_bids b);
        asks = (if bu_side u = TradeSell then apply_level_update TradeSell (bu_price u) (bu_size u) (bk_asks b) else bk_asks b)
      in b\<lparr>bk_bids := align_best_level (bu_best_bid u) u TradeBuy bids,
           bk_asks := align_best_level (bu_best_ask u) u TradeSell asks,
           bk_timestamp := bu_timestamp u, bk_hash := bu_hash u, bk_observed_at := bu_observed_at u\<rparr>)"

definition apply_update ::
  "(int \<Rightarrow> timestamp option) \<Rightarrow> timestamp \<Rightarrow> book_update \<Rightarrow> tracker \<Rightarrow> tracker \<times> book_snapshot option" where
  "apply_update of_millis now u t =
     (case hget (tk_books t) (bu_asset_id u) of
        None \<Rightarrow> (t, None)
      | Some tb \<Rightarrow>
          let b = updated_book u (tb_snapshot tb);
            tb' = \<lparr>tb_snapshot = b, tb_last_update = unwrap_or (of_millis (bu_timestamp u)) now\<rparr>
          in (t\<lparr>tk_books := hput (bu_asset_id u) tb' (tk_books t)\<rparr>, Some b))"

definition apply_snapshot ::
  "(int \<Rightarrow> timestamp option) \<Rightarrow> timestamp \<Rightarrow> book_snapshot \<Rightarrow> tracker \<Rightarrow> tracker \<times> book_snapshot" where
  "apply_snapshot of_millis now b t =
     (t\<lparr>tk_books := hput (bk_asset_id b)
          \<lparr>tb_snapshot = b, tb_last_update = unwrap_or (of_millis (bk_timestamp b)) now\<rparr> (tk_books t)\<rparr>, b)"

definition get_orderbook :: "string \<Rightarrow> tracker \<Rightarrow> book_snapshot option" where
  "get_orderbook asset t = map_option tb_snapshot (hget (tk_books t) asset)"

definition market_count :: "tracker \<Rightarrow> nat" where
  "market_count t = length (tk_books t)"

text \<open>A threshold that the date library cannot hold counts as one hour.\<close>

definition chrono_duration :: "duration \<Rightarrow> duration" where
  "chrono_duration d = (if d \<le> (2 ^ 63 - 1) * 1000000 then d else 3600 * 1000000000)"

definition evict_inactive :: "timestamp \<Rightarrow> tracker \<Rightarrow> tracker \<times> string list" where
  "evict_inactive now t =
     (let threshold = chrono_duration (tk_eviction_threshold t);
        evicted = map fst (filter (\<lambda>(m, tb). now - tb_last_update tb > threshold) (tk_books t))
      in (t\<lparr>tk_books := foldl (\<lambda>bs m. hdel m bs) (tk_books t) evicted\<rparr>, evicted))"


section \<open>Sorting\<close>

definition ordered :: "f64 \<Rightarrow> bool" where "ordered p \<longleftrightarrow> p \<noteq> NaN"

abbreviation priced :: "order_summary list \<Rightarrow> bool" where
  "priced ls \<equiv> list_all (\<lambda>l. ordered (os_price l)) ls"

definition best_first :: "trade_side \<Rightarrow> order_summary list \<Rightarrow> bool" where
  "best_first side = sorted_wrt (\<lambda>l m. \<not> better side (os_price m) (os_price l))"

lemma flt_order:
  "ordered x \<Longrightarrow> ordered y \<Longrightarrow> ordered z \<Longrightarrow> \<not> flt y x \<Longrightarrow> \<not> flt z y \<Longrightarrow> \<not> flt z x"
  "flt x y \<Longrightarrow> \<not> flt y x"
  by (cases x; cases y; cases z; simp add: ordered_def)+

lemma better_order:
  assumes "ordered x" "ordered y" "ordered z"
  shows "\<not> better side y x \<Longrightarrow> \<not> better side z y \<Longrightarrow> \<not> better side z x"
  using flt_order(1) [OF assms] flt_order(1) [OF assms(3,2,1)] by (cases side) (auto simp: better_def)

lemma better_asym: "better side x y \<Longrightarrow> \<not> better side y x"
  using flt_order(2) by (cases side) (auto simp: better_def)

lemma set_place [simp]: "set (place_level side l ms) = insert l (set ms)"
  by (induction ms) auto

lemma best_first_place:
  "best_first side ms \<Longrightarrow> priced (l # ms) \<Longrightarrow> best_first side (place_level side l ms)"
proof (induction ms)
  case (Cons m ms)
  have later: "\<not> better side (os_price n) (os_price l)" if "n \<in> set ms" "\<not> better side (os_price m) (os_price l)" for n
    using Cons.prems that better_order [of "os_price l" "os_price m" "os_price n" side]
    by (auto simp: best_first_def list_all_iff)
  show ?case
    using Cons later by (auto simp: best_first_def dest: better_asym)
qed (simp add: best_first_def)

lemma set_sort [simp]: "set (sort_levels side ls) = set ls"
  unfolding sort_levels_def by (induction ls) auto

lemma best_first_sort: "priced ls \<Longrightarrow> best_first side (sort_levels side ls)"
proof (induction ls)
  case (Cons l ls)
  then show ?case
    using best_first_place [of side "sort_levels side ls" l] set_sort [of side ls]
    by (simp add: sort_levels_def list_all_iff)
qed (simp add: sort_levels_def best_first_def)

lemma list_all_sort [simp]: "list_all P (sort_levels side ls) = list_all P ls"
  by (simp add: list_all_iff)

lemma remove_level_subset: "set (remove_level price ls) \<subseteq> set ls"
  by (induction ls) auto

lemma best_first_remove: "best_first side ls \<Longrightarrow> best_first side (remove_level price ls)"
  using remove_level_subset unfolding best_first_def by (induction ls) fastforce+

lemma resize_prices [simp]: "map os_price (resize_level price sz ls) = map os_price ls"
  by (induction ls) auto

lemma priced_map: "priced ls = list_all ordered (map os_price ls)"
  by (simp add: list_all_iff)

lemma best_first_map: "best_first side ls = sorted_wrt (\<lambda>p q. \<not> better side q p) (map os_price ls)"
  by (simp add: best_first_def sorted_wrt_map)

section \<open>Updates\<close>

lemma level_update_ok:
  assumes "best_first side ls" "priced ls" "ordered price"
  shows "best_first side (apply_level_update side price sz ls) \<and> priced (apply_level_update side price sz ls)"
proof -
  have "best_first side (resize_level price sz ls) \<and> priced (resize_level price sz ls)"
    using assms unfolding priced_map best_first_map resize_prices by simp
  moreover have "best_first side (remove_level price ls) \<and> priced (remove_level price ls)"
    using assms best_first_remove remove_level_subset [of price ls] by (auto simp: list_all_iff)
  moreover have "best_first side (sort_levels side (ls @ [\<lparr>os_price = price, os_size = sz\<rparr>]))"
    using assms by (intro best_first_sort) simp
  ultimately show ?thesis using assms by (simp add: apply_level_update_def)
qed

text \<open>A side is aligned with a best price if it is sorted, no level lies beyond the best price, and one
  level is at it, up to the tolerance.\<close>

definition aligned :: "trade_side \<Rightarrow> f64 \<Rightarrow> order_summary list \<Rightarrow> bool" where
  "aligned side best ls \<longleftrightarrow> best_first side ls
     \<and> list_all (\<lambda>l. os_price l = best \<or> within_best side best (os_price l)) ls
     \<and> list_ex (\<lambda>l. os_price l = best \<or> near_best best (os_price l)) ls"

lemma align_ok:
  assumes "priced ls" "ordered best"
  shows "aligned side best (align_best_level best u side ls) \<and> priced (align_best_level best u side ls)"
proof -
  let ?kept = "filter (\<lambda>l. within_best side best (os_price l)) ls"
  define ms where "ms = (if list_ex (\<lambda>l. near_best best (os_price l)) ?kept then ?kept else put_best best u side ?kept)"
  have "priced ?kept" using assms(1) by (auto simp: list_all_iff)
  moreover have "list_all (\<lambda>l. within_best side best (os_price l)) ?kept" by (simp add: list_all_iff)
  ultimately have ms: "priced ms" "list_all (\<lambda>l. os_price l = best \<or> within_best side best (os_price l)) ms"
    "list_ex (\<lambda>l. os_price l = best \<or> near_best best (os_price l)) ms"
    using assms(2) by (cases ?kept; auto simp: ms_def put_best_def Let_def list_all_iff list_ex_iff)+
  have "align_best_level best u side ls = sort_levels side ms" by (simp add: align_best_level_def ms_def Let_def)
  then show ?thesis using ms best_first_sort by (simp add: aligned_def list_ex_iff)
qed


section \<open>The tracker as a machine\<close>

datatype tracker_op = Snapshot book_snapshot | Update book_update | Evict

fun tracker_apply :: "(int \<Rightarrow> timestamp option) \<Rightarrow> tracker \<Rightarrow> timestamp \<times> tracker_op \<Rightarrow> tracker" where
  "tracker_apply of_millis t (now, Snapshot b) = fst (apply_snapshot of_millis now b t)"
| "tracker_apply of_millis t (now, Update u) = fst (apply_update of_millis now u t)"
| "tracker_apply of_millis t (now, Evict) = fst (evict_inactive now t)"

definition side_ok :: "trade_side \<Rightarrow> order_summary list \<Rightarrow> bool" where
  "side_ok side ls \<longleftrightarrow> best_first side ls \<and> priced ls"

definition book_ok :: "book_snapshot \<Rightarrow> bool" where
  "book_ok b \<longleftrightarrow> side_ok TradeBuy (bk_bids b) \<and> side_ok TradeSell (bk_asks b)"

definition update_ok :: "book_update \<Rightarrow> bool" where
  "update_ok u \<longleftrightarrow> ordered (bu_price u) \<and> ordered (bu_best_bid u) \<and> ordered (bu_best_ask u)"

fun op_ok :: "timestamp \<times> tracker_op \<Rightarrow> bool" where
  "op_ok (now, Snapshot b) = book_ok b"
| "op_ok (now, Update u) = update_ok u"
| "op_ok (now, Evict) = True"

definition tracker_ok :: "tracker \<Rightarrow> bool" where
  "tracker_ok t \<longleftrightarrow> hwf (tk_books t) \<and>
     (\<forall>k b. get_orderbook k t = Some b \<longrightarrow> bk_asset_id b = k \<and> book_ok b)"

lemma updated_book_ok:
  assumes "book_ok b" "update_ok u"
  shows "book_ok (updated_book u b)" "aligned TradeBuy (bu_best_bid u) (bk_bids (updated_book u b))"
    "aligned TradeSell (bu_best_ask u) (bk_asks (updated_book u b))"
    "bk_asset_id (updated_book u b) = bk_asset_id b"
proof -
  have "priced (if bu_side u = side then apply_level_update side (bu_price u) (bu_size u) ls else ls)"
    if "side_ok side ls" for side ls
    using that assms(2) level_update_ok [of side ls "bu_price u" "bu_size u"] by (simp add: side_ok_def update_ok_def)
  then have al: "aligned side best (align_best_level best u side
      (if bu_side u = side then apply_level_update side (bu_price u) (bu_size u) ls else ls))
    \<and> priced (align_best_level best u side
      (if bu_side u = side then apply_level_update side (bu_price u) (bu_size u) ls else ls))"
    if "side_ok side ls" "ordered best" for side ls best
    using that by (intro align_ok) auto
  have bids: "side_ok TradeBuy (bk_bids b)" "ordered (bu_best_bid u)"
    and asks: "side_ok TradeSell (bk_asks b)" "ordered (bu_best_ask u)"
    using assms by (simp_all add: book_ok_def update_ok_def)
  show "aligned TradeBuy (bu_best_bid u) (bk_bids (updated_book u b))"
    "aligned TradeSell (bu_best_ask u) (bk_asks (updated_book u b))"
    "bk_asset_id (updated_book u b) = bk_asset_id b"
    using al [OF bids] al [OF asks] by (simp_all add: updated_book_def Let_def)
  then show "book_ok (updated_book u b)"
    using al [OF bids] al [OF asks] by (simp add: book_ok_def side_ok_def aligned_def updated_book_def Let_def)
qed

lemma evict_books:
  "hget (tk_books (fst (evict_inactive now t))) k =
     (if k \<in> set (snd (evict_inactive now t)) then None else hget (tk_books t) k)"
  "hwf (tk_books t) \<Longrightarrow> hwf (tk_books (fst (evict_inactive now t)))"
proof -
  have "hget (foldl (\<lambda>bs m. hdel m bs) bs ms) k = (if k \<in> set ms then None else hget bs k)" for bs :: "(string, tracked_book) hmap" and ms
    by (induction ms arbitrary: bs) auto
  then show "hget (tk_books (fst (evict_inactive now t))) k =
     (if k \<in> set (snd (evict_inactive now t)) then None else hget (tk_books t) k)"
    by (simp add: evict_inactive_def Let_def)
  have "hwf bs \<Longrightarrow> hwf (foldl (\<lambda>bs m. hdel m bs) bs ms)" for bs :: "(string, tracked_book) hmap" and ms
    by (induction ms arbitrary: bs) auto
  then show "hwf (tk_books t) \<Longrightarrow> hwf (tk_books (fst (evict_inactive now t)))"
    by (simp add: evict_inactive_def Let_def)
qed

lemma get_orderbook_put [simp]:
  "get_orderbook k (t\<lparr>tk_books := hput a tb bs\<rparr>) = (if k = a then Some (tb_snapshot tb) else get_orderbook k (t\<lparr>tk_books := bs\<rparr>))"
  by (simp add: get_orderbook_def)

lemma put_book_ok:
  assumes "tracker_ok t" "book_ok (tb_snapshot tb)" "bk_asset_id (tb_snapshot tb) = a"
  shows "tracker_ok (t\<lparr>tk_books := hput a tb (tk_books t)\<rparr>)"
  using assms by (simp add: tracker_ok_def)

lemma apply_update_some:
  assumes "hget (tk_books t) (bu_asset_id u) = Some tb"
  shows "apply_update of_millis now u t =
    (t\<lparr>tk_books := hput (bu_asset_id u) \<lparr>tb_snapshot = updated_book u (tb_snapshot tb),
        tb_last_update = unwrap_or (of_millis (bu_timestamp u)) now\<rparr> (tk_books t)\<rparr>, Some (updated_book u (tb_snapshot tb)))"
  using assms by (simp add: apply_update_def Let_def)

lemma tracker_okD:
  assumes "tracker_ok t" "hget (tk_books t) k = Some tb"
  shows "book_ok (tb_snapshot tb)" "bk_asset_id (tb_snapshot tb) = k"
proof -
  have "get_orderbook k t = Some (tb_snapshot tb)" unfolding get_orderbook_def assms(2) by (rule option.map)
  then show "book_ok (tb_snapshot tb)" "bk_asset_id (tb_snapshot tb) = k"
    using assms(1) unfolding tracker_ok_def by blast+
qed

lemma apply_update_ok:
  assumes "tracker_ok t" "update_ok u"
  shows "tracker_ok (fst (apply_update of_millis now u t))"
proof (cases "hget (tk_books t) (bu_asset_id u)")
  case (Some tb)
  note tb = tracker_okD [OF assms(1) Some]
  show ?thesis
    unfolding apply_update_some [OF Some] fst_conv
    by (rule put_book_ok [OF assms(1)]) (simp_all add: updated_book_ok [OF tb(1) assms(2)] tb(2))
qed (simp add: apply_update_def assms)

lemma tracker_apply_ok: "tracker_ok t \<Longrightarrow> op_ok p \<Longrightarrow> tracker_ok (tracker_apply of_millis t p)"
proof (cases p)
  case (Pair now op)
  assume ok: "tracker_ok t" "op_ok p"
  show ?thesis
  proof (cases op)
    case (Snapshot b)
    then show ?thesis
      using ok Pair by (simp add: apply_snapshot_def put_book_ok)
  next
    case (Update u)
    then show ?thesis using ok Pair by (simp add: apply_update_ok)
  next
    case Evict
    have "get_orderbook k (fst (evict_inactive now t)) =
        (if k \<in> set (snd (evict_inactive now t)) then None else get_orderbook k t)" for k
      by (simp only: get_orderbook_def evict_books) simp
    then have "tracker_ok (fst (evict_inactive now t))"
      using ok(1) evict_books(2) by (simp add: tracker_ok_def)
    then show ?thesis using Evict Pair by simp
  qed
qed

lemma tracker_run_ok: "list_all op_ok ops \<Longrightarrow> tracker_ok (foldl (tracker_apply of_millis) tracker_new ops)"
proof (induction ops rule: rev_induct)
  case Nil
  show ?case by (simp add: tracker_ok_def tracker_new_def get_orderbook_def)
qed (simp add: tracker_apply_ok)

section \<open>Properties\<close>

text \<open>The last event about an asset, and its book as the replay of the events about it alone.\<close>

fun concerns :: "string \<Rightarrow> tracker_op \<Rightarrow> bool" where
  "concerns k (Snapshot s) = (bk_asset_id s = k)"
| "concerns k (Update u) = (bu_asset_id u = k)"
| "concerns k Evict = False"

definition last_about :: "string \<Rightarrow> (timestamp \<times> tracker_op) list \<Rightarrow> tracker_op option" where
  "last_about k ops = List.find (concerns k) (map snd (rev ops))"

fun replay :: "book_snapshot option \<Rightarrow> tracker_op list \<Rightarrow> book_snapshot option" where
  "replay b [] = b"
| "replay b (Snapshot s # ops) = replay (Some s) ops"
| "replay b (Update u # ops) = replay (map_option (updated_book u) b) ops"
| "replay b (Evict # ops) = replay b ops"

lemma last_about_snoc: "last_about k (ops @ [(now, op)]) = (if concerns k op then Some op else last_about k ops)"
  by (simp add: last_about_def)

lemma replay_append: "replay b (xs @ ys) = replay (replay b xs) ys"
  by (induction b xs rule: replay.induct) simp_all

definition shows_event :: "book_snapshot \<Rightarrow> tracker_op option \<Rightarrow> bool" where
  "shows_event b ev = (case ev of
     Some (Snapshot s) \<Rightarrow> b = s
   | Some (Update u) \<Rightarrow> aligned TradeBuy (bu_best_bid u) (bk_bids b) \<and> aligned TradeSell (bu_best_ask u) (bk_asks b)
       \<and> bk_timestamp b = bu_timestamp u \<and> bk_hash b = bu_hash u
   | _ \<Rightarrow> False)"

lemma evicted_book: "get_orderbook k (fst (evict_inactive now t)) =
   (if k \<in> set (snd (evict_inactive now t)) then None else get_orderbook k t)"
  by (simp only: get_orderbook_def evict_books) simp

lemma tracker_step_shows:
  assumes ok: "tracker_ok t" "op_ok (now, op)"
    and old: "\<And>b. get_orderbook k t = Some b \<Longrightarrow> shows_event b ev"
    and b: "get_orderbook k (tracker_apply of_millis t (now, op)) = Some b"
  shows "shows_event b (if concerns k op then Some op else ev)"
proof (cases op)
  case (Snapshot s)
  then show ?thesis using b old by (auto simp: apply_snapshot_def shows_event_def split: if_splits)
next
  case (Update u)
  show ?thesis
  proof (cases "hget (tk_books t) (bu_asset_id u)")
    case None
    then have "get_orderbook (bu_asset_id u) t = None" by (simp add: get_orderbook_def)
    then show ?thesis using Update None b old by (auto simp: apply_update_def)
  next
    case (Some tb)
    note tb = tracker_okD(1) [OF ok(1) Some]
    show ?thesis
      using Update b old ok(2) updated_book_ok(2,3) [OF tb, of u] unfolding Update tracker_apply.simps apply_update_some [OF Some]
      by (auto simp: shows_event_def updated_book_def Let_def split: if_splits)
  qed
next
  case Evict
  then show ?thesis using b old by (simp add: evicted_book split: if_splits)
qed

text \<open>C9. The books follow the exchange.  Over any sequence of snapshots, updates and evictions, with
  snapshots sorted best first and no NaN price, as the feed parser delivers them, every book is filed
  under its own asset with both sides sorted best first, and the last event about the asset shows: after a
  snapshot the book is the snapshot, and after an update no level lies beyond the stated best bid or
  ask, a level is at each of them, and the time and hash are the update's.  Unless books are evicted, the
  book of an asset is the last snapshot with every later update of that asset applied in order,
  and no event of another asset matters.\<close>

theorem tracker_follows_exchange:
  assumes ops: "list_all op_ok ops" and t: "t = foldl (tracker_apply of_millis) tracker_new ops"
  shows "(\<forall>b. get_orderbook k t = Some b \<longrightarrow> bk_asset_id b = k \<and> best_first TradeBuy (bk_bids b)
      \<and> best_first TradeSell (bk_asks b) \<and> shows_event b (last_about k ops))
    \<and> (Evict \<notin> snd ` set ops \<longrightarrow> get_orderbook k t = replay None (filter (concerns k) (map snd ops)))"
proof -
  have "(\<forall>b. get_orderbook k t = Some b \<longrightarrow> shows_event b (last_about k ops))
    \<and> (Evict \<notin> snd ` set ops \<longrightarrow> get_orderbook k t = replay None (filter (concerns k) (map snd ops)))"
    using ops t
  proof (induction ops arbitrary: t rule: rev_induct)
    case Nil
    then show ?case by (simp add: tracker_new_def get_orderbook_def)
  next
    case (snoc p ops)
    obtain now op where p: "p = (now, op)" by fastforce
    let ?t = "foldl (tracker_apply of_millis) tracker_new ops"
    have ok: "tracker_ok ?t" "op_ok (now, op)" using snoc.prems(1) p by (simp_all add: tracker_run_ok)
    have t: "t = tracker_apply of_millis ?t (now, op)" using snoc.prems(2) p by simp
    have old: "\<forall>b. get_orderbook k ?t = Some b \<longrightarrow> shows_event b (last_about k ops)"
      "Evict \<notin> snd ` set ops \<Longrightarrow> get_orderbook k ?t = replay None (filter (concerns k) (map snd ops))"
      using snoc by auto
    have "get_orderbook k t = replay (get_orderbook k ?t) (filter (concerns k) [op])" if "op \<noteq> Evict"
    proof (cases op)
      case (Update u)
      then show ?thesis
        by (cases "hget (tk_books ?t) (bu_asset_id u)")
          (auto simp: t apply_update_def get_orderbook_def Let_def)
    qed (use that in \<open>auto simp: t apply_snapshot_def get_orderbook_def\<close>)
    then show ?case
      using old tracker_step_shows [OF ok, of k "last_about k ops"]
      unfolding p last_about_snoc by (auto simp: t replay_append)
  qed
  then show ?thesis
    using tracker_run_ok [OF ops, of of_millis] unfolding t [symmetric] by (simp add: tracker_ok_def book_ok_def side_ok_def)
qed

text \<open>An empty side that an update leaves empty is filled with a level of size zero at the stated price.\<close>

lemma empty_side_gets_level:
  assumes "bu_side u \<noteq> side"
  shows "align_best_level best u side [] = [\<lparr>os_price = best, os_size = f0\<rparr>]"
  using assms by (simp add: align_best_level_def put_best_def best_level_size_def sort_levels_def)

definition demo_snapshot :: book_snapshot where
  "demo_snapshot = \<lparr>bk_asset_id = ''A'', bk_market = ''M'', bk_bids = [\<lparr>os_price = grid 4, os_size = grid 9\<rparr>],
     bk_asks = [\<lparr>os_price = grid 6, os_size = grid 9\<rparr>], bk_hash = [], bk_timestamp = 1,
     bk_metadata = None, bk_observed_at = 1\<rparr>"

definition demo_update :: book_update where
  "demo_update = \<lparr>bu_asset_id = ''A'', bu_market = ''M'', bu_price = grid 3, bu_size = grid 2, bu_side = TradeBuy,
     bu_hash = [], bu_best_bid = grid 4, bu_best_ask = grid 5, bu_timestamp = 2, bu_observed_at = 2\<rparr>"

theorem tracker_follows_exchange_witness:
  "\<exists>b. get_orderbook ''A'' (foldl (tracker_apply Some) tracker_new [(0, Snapshot demo_snapshot), (0, Update demo_update)]) = Some b
     \<and> aligned TradeSell (grid 5) (bk_asks b) \<and> b = updated_book demo_update demo_snapshot"
proof -
  let ?ops = "[(0, Snapshot demo_snapshot), (0, Update demo_update)]"
  have ok: "list_all op_ok ?ops"
    by (simp add: book_ok_def side_ok_def best_first_def ordered_def demo_snapshot_def update_ok_def
        demo_update_def grid_def)
  have id: "bk_asset_id demo_snapshot = ''A''" "bu_asset_id demo_update = ''A''"
    by (simp_all add: demo_snapshot_def demo_update_def)
  have "last_about ''A'' ?ops = Some (Update demo_update)"
    "replay None (filter (concerns ''A'') (map snd ?ops)) = Some (updated_book demo_update demo_snapshot)"
    "Evict \<notin> snd ` set ?ops"
    by (simp_all add: last_about_def id)
  then show ?thesis
    using tracker_follows_exchange [OF ok refl, of "''A''" Some] by (simp add: shows_event_def demo_update_def)
qed

end
