(* ===== verification/Trade_Handlers.thy ===== *)
theory Trade_Handlers
  imports Clob_Executor Orderbook_Tracker
begin

text \<open>
  The position handler of the trading server, \<open>trade_server/position_handler/\<close>: it turns events,
  timers and signals into calls of the position manager and into tasks that run on an order
  executor, and the part of \<open>process_event\<close> of \<open>trade_server/trade_server.rs\<close> that applies the events
  the executors send back.  The trait of \<open>execution/executor.rs\<close> is the record \<open>executor\<close> of
  operations on a state \<open>'e\<close>.  A spawned task is an element of the list of tasks and runs as one step
  at some later time; the requests of one handler that are awaited together run in their order.
  Notification, persistence and metrics are left out.
\<close>

section \<open>Signals and executors\<close>

datatype signal_action = Entry | Exit | ModifyOrder | CancelOrder

record trade_signal = tradable_signal +
  ts_action :: signal_action
  ts_references_position :: "string option"
  ts_references_order_id :: "string option"
  ts_is_limit_order :: bool
  ts_limit_price :: "f64 option"
  ts_time_in_force :: "time_in_force option"
  ts_market :: "string option"
  ts_is_intent :: bool
  ts_intent :: "order_intent option"
  ts_passes_filter :: bool

text \<open>A trade of a token as the venues report it; the package that declares it is not in the repository.\<close>

record token_trade =
  tt_mint :: string
  tt_spot_price :: "f64 option"
  tt_timestamp :: timestamp

record ('e, 'x) executor =
  ex_market :: "order \<Rightarrow> 'e \<Rightarrow> ('x + execution_event) \<times> 'e"
  ex_limit :: "order \<Rightarrow> 'e \<Rightarrow> ('x + limit_order_event) \<times> 'e"
  ex_cancel :: "string \<Rightarrow> 'e \<Rightarrow> ('x + limit_order_event) \<times> 'e"
  ex_redeem :: "redemption_action \<Rightarrow> 'e \<Rightarrow> ('x + redemption_event) \<times> 'e"
  ex_token_trade :: "token_trade \<Rightarrow> 'e \<Rightarrow> ('x + unit) \<times> 'e"
  ex_signal :: "trade_signal \<Rightarrow> 'e \<Rightarrow> 'e"
  ex_book_snapshot :: "book_snapshot \<Rightarrow> 'e \<Rightarrow> ('x + unit) \<times> 'e"
  ex_book_update :: "book_update \<Rightarrow> 'e \<Rightarrow> ('x + unit) \<times> 'e"
  ex_check_fills :: "trade \<Rightarrow> (string, f64) hmap \<Rightarrow> f64 \<Rightarrow> 'e \<Rightarrow> limit_order_event list \<times> 'e"
  ex_show :: "'x \<Rightarrow> string"
  ex_simulates_fills :: bool
  ex_supports_limit_orders :: bool
  ex_supports_redemption :: bool
  ex_defers_limit_order_events :: bool
  ex_defers_cancel_order_events :: bool

definition fill_event_to_execution_event :: "limit_order_event \<Rightarrow> execution_event option" where
  "fill_event_to_execution_event ev =
     (case ev of
        OrderPartiallyFilled oid mint side filled remaining price ts signal mode \<Rightarrow>
          Some (ExecOrderFilled
            \<lparr>of_mint = mint,
             of_token_amount_change = (case side of Buy \<Rightarrow> filled | Sell \<Rightarrow> fneg filled),
             of_quote_amount_change = Some (case side of Buy \<Rightarrow> fmul (fneg filled) price | Sell \<Rightarrow> fmul filled price),
             of_price = Some price, of_timestamp = ts, of_slippage = Some f0, of_clear_position = False,
             of_force_position_clear = False, of_execution_latency_in_slots = None,
             of_confirmed_slot = None, of_confirmed_signature = None, of_signal_id = signal,
             of_exit_mode = mode\<rparr>)
      | _ \<Rightarrow> None)"

section \<open>The state and the tasks\<close>

text \<open>A market task knows whether a failure is to be handled, a task of an intent the id of its
  in-flight order, and a cancel whether it clears the sell mark of its mint.\<close>

datatype task =
    MarketTask order bool
  | LimitTask order
  | IntentTask order string
  | CancelTask string "string option" bool
  | ModifyTask string order

record 'e server =
  sv_manager :: pm_state
  sv_exec :: 'e
  sv_queue :: "system_event list"
  sv_tasks :: "task list"

definition enqueue :: "system_event \<Rightarrow> 'e server \<Rightarrow> 'e server" where
  "enqueue ev sv = sv\<lparr>sv_queue := sv_queue sv @ [ev]\<rparr>"

definition spawn :: "task \<Rightarrow> 'e server \<Rightarrow> 'e server" where
  "spawn t sv = sv\<lparr>sv_tasks := sv_tasks sv @ [t]\<rparr>"

definition on_manager :: "(pm_state \<Rightarrow> pm_state) \<Rightarrow> 'e server \<Rightarrow> 'e server" where
  "on_manager f sv = sv\<lparr>sv_manager := f (sv_manager sv)\<rparr>"

definition offer_limit :: "('e, 'x) executor \<Rightarrow> limit_order_event \<Rightarrow> 'e server \<Rightarrow> 'e server" where
  "offer_limit x ev sv = (if ex_defers_limit_order_events x then sv else enqueue (LimitOrderEv ev) sv)"

definition offer_cancel :: "('e, 'x) executor \<Rightarrow> limit_order_event \<Rightarrow> 'e server \<Rightarrow> 'e server" where
  "offer_cancel x ev sv =
     (if ex_defers_cancel_order_events x then sv
      else if \<not> ex_defers_limit_order_events x then enqueue (LimitOrderEv ev) sv
      else sv)"

definition sell_failed :: "string \<Rightarrow> pm_state \<Rightarrow> pm_state" where
  "sell_failed mint s = fst (increment_sell_failure_count (release_pending_sell s mint) mint)"

definition release_sell :: "string \<Rightarrow> pm_state \<Rightarrow> pm_state" where
  "release_sell mint s = release_pending_sell s mint"

section \<open>Running a task\<close>

definition run_market :: "('e, 'x) executor \<Rightarrow> order \<Rightarrow> bool \<Rightarrow> 'e server \<Rightarrow> 'e server" where
  "run_market x ord handle_failure sv =
     (case ex_market x ord (sv_exec sv) of
        (Inr ev, e) \<Rightarrow> enqueue (ExecutionEv ev) (sv\<lparr>sv_exec := e\<rparr>)
      | (Inl err, e) \<Rightarrow>
          (if handle_failure then on_manager (sell_failed (ord_mint ord)) (sv\<lparr>sv_exec := e\<rparr>)
           else sv\<lparr>sv_exec := e\<rparr>))"

definition run_limit :: "('e, 'x) executor \<Rightarrow> order \<Rightarrow> 'e server \<Rightarrow> 'e server" where
  "run_limit x ord sv =
     (case ex_limit x ord (sv_exec sv) of
        (Inr ev, e) \<Rightarrow> offer_limit x ev (sv\<lparr>sv_exec := e\<rparr>)
      | (Inl err, e) \<Rightarrow> on_manager (release_sell (ord_mint ord)) (sv\<lparr>sv_exec := e\<rparr>))"

definition run_intent_limit :: "('e, 'x) executor \<Rightarrow> order \<Rightarrow> string \<Rightarrow> 'e server \<Rightarrow> 'e server" where
  "run_intent_limit x ord fid sv =
     (case ex_limit x ord (sv_exec sv) of
        (Inr ev, e) \<Rightarrow> offer_limit x ev (sv\<lparr>sv_exec := e\<rparr>)
      | (Inl err, e) \<Rightarrow> on_manager (\<lambda>s. fst (remove_in_flight_order s (ord_mint ord) fid)) (sv\<lparr>sv_exec := e\<rparr>))"

definition run_cancel ::
  "('e, 'x) executor \<Rightarrow> string \<Rightarrow> string option \<Rightarrow> bool \<Rightarrow> 'e server \<Rightarrow> 'e server" where
  "run_cancel x oid mint clear sv =
     (case ex_cancel x oid (sv_exec sv) of
        (Inr ev, e) \<Rightarrow>
          let sv1 = offer_cancel x ev (sv\<lparr>sv_exec := e\<rparr>)
          in (case mint of
                Some m \<Rightarrow> if clear then on_manager (release_sell m) sv1 else sv1
              | None \<Rightarrow> sv1)
      | (Inl err, e) \<Rightarrow> sv\<lparr>sv_exec := e\<rparr>)"

definition run_modify :: "('e, 'x) executor \<Rightarrow> string \<Rightarrow> order \<Rightarrow> 'e server \<Rightarrow> 'e server" where
  "run_modify x old_id ord sv =
     (case ex_cancel x old_id (sv_exec sv) of
        (Inr ev, e) \<Rightarrow> run_limit x ord (offer_cancel x ev (sv\<lparr>sv_exec := e\<rparr>))
      | (Inl err, e) \<Rightarrow> sv\<lparr>sv_exec := e\<rparr>)"

fun run_task :: "('e, 'x) executor \<Rightarrow> task \<Rightarrow> 'e server \<Rightarrow> 'e server" where
  "run_task x (MarketTask ord handle_failure) sv = run_market x ord handle_failure sv"
| "run_task x (LimitTask ord) sv = run_limit x ord sv"
| "run_task x (IntentTask ord fid) sv = run_intent_limit x ord fid sv"
| "run_task x (CancelTask oid mint clear) sv = run_cancel x oid mint clear sv"
| "run_task x (ModifyTask old_id ord) sv = run_modify x old_id ord sv"

section \<open>Redemptions\<close>

definition handle_redemption_action ::
  "('e, 'x) executor \<Rightarrow> 'e server \<Rightarrow> redemption_action \<Rightarrow> 'e server" where
  "handle_redemption_action x sv action =
     (case ex_redeem x action (sv_exec sv) of
        (Inr ev, e) \<Rightarrow> enqueue (RedemptionEv ev) (sv\<lparr>sv_exec := e\<rparr>)
      | (Inl err, e) \<Rightarrow>
          enqueue (RedemptionEv (RedemptionFailed (ra_market action) (ex_show x err) (ra_timestamp action)))
            (sv\<lparr>sv_exec := e\<rparr>))"

definition process_redemption_actions :: "('e, 'x) executor \<Rightarrow> timestamp \<Rightarrow> 'e server \<Rightarrow> 'e server" where
  "process_redemption_actions x now sv =
     (if ex_supports_redemption x
      then foldl (handle_redemption_action x) sv (reconcile_redemption_policies (sv_manager sv) now)
      else sv)"

section \<open>Events\<close>

record server_config =
  svc_manager :: pm_config
  svc_exit_strategy :: exit_strategy
  svc_max_sell_failures :: u32

text \<open>\<open>handle_position_updated\<close>: the checks before a position is sold, and the order.\<close>

definition exit_order :: "position \<Rightarrow> order" where
  "exit_order p =
     \<lparr>ord_mint = pos_mint p, ord_market = None, ord_order_type = LegacySell (pos_amount p) True,
      ord_price = pos_current_price p, ord_status = Pending,
      ord_timestamp = pos_current_price_updated_time p, ord_signal_slot = None, ord_signal_id = None,
      ord_dex_type = None, ord_venue_order_id = None, ord_exit_mode = None, ord_context = None\<rparr>"

definition handle_position_updated :: "server_config \<Rightarrow> timestamp \<Rightarrow> position \<Rightarrow> 'e server \<Rightarrow> 'e server" where
  "handle_position_updated c now p sv =
     (if \<not> should_exit (svc_exit_strategy c) p now \<or> fle (pos_amount p) f0 then sv
      else if svc_max_sell_failures c \<le> pos_sell_failure_count p then sv
      else
        (case try_mark_pending_sell (sv_manager sv) (pos_mint p) of
           (s, marked) \<Rightarrow>
             if \<not> marked then sv
             else spawn (MarketTask (exit_order p) True) (sv\<lparr>sv_manager := s\<rparr>)))"

fun handle_position_event :: "server_config \<Rightarrow> timestamp \<Rightarrow> position_event \<Rightarrow> 'e server \<Rightarrow> 'e server" where
  "handle_position_event c now (PositionCreated p q) sv = sv"
| "handle_position_event c now (PositionClosed p g pct period signal reason q) sv = sv"
| "handle_position_event c now (PositionUpdated p source q) sv = handle_position_updated c now p sv"

definition apply_execution :: "server_config \<Rightarrow> execution_event \<Rightarrow> 'e server \<Rightarrow> 'e server" where
  "apply_execution c ev sv =
     (case handle_execution (sv_manager sv) ev (cfg_exit_strategy (svc_manager c)) of
        (s, Inr pe) \<Rightarrow> enqueue (PositionEv pe) (sv\<lparr>sv_manager := s\<rparr>)
      | (s, Inl err) \<Rightarrow> sv\<lparr>sv_manager := s\<rparr>)"

definition handle_execution_event ::
  "('e, 'x) executor \<Rightarrow> server_config \<Rightarrow> timestamp \<Rightarrow> execution_event \<Rightarrow> 'e server \<Rightarrow> 'e server" where
  "handle_execution_event x c now ev sv =
     process_redemption_actions x now
       (case ev of
          ExecOrderFilled f \<Rightarrow> apply_execution c ev sv
        | ExecOrderRejected mint reason \<Rightarrow> sv)"

definition timer_order :: "server_config \<Rightarrow> 'e server \<Rightarrow> order \<Rightarrow> 'e server" where
  "timer_order c sv ord =
     (if is_sell (ord_order_type ord) then
        (case hget (pm_positions (sv_manager sv)) (ord_mint ord) of
           None \<Rightarrow> sv
         | Some p \<Rightarrow>
             if svc_max_sell_failures c \<le> pos_sell_failure_count p then sv
             else
               (case try_mark_pending_sell (sv_manager sv) (ord_mint ord) of
                  (s, marked) \<Rightarrow>
                    if \<not> marked then sv else spawn (MarketTask ord True) (sv\<lparr>sv_manager := s\<rparr>)))
      else spawn (MarketTask ord True) sv)"

definition handle_timer_event :: "server_config \<Rightarrow> timestamp \<Rightarrow> 'e server \<Rightarrow> 'e server" where
  "handle_timer_event c now sv =
     (case handle_timer (sv_manager sv) (cfg_exit_strategy (svc_manager c)) now of
        Inl e \<Rightarrow> sv
      | Inr os \<Rightarrow> foldl (timer_order c) sv os)"

definition handle_update_price :: "string \<Rightarrow> f64 \<Rightarrow> timestamp \<Rightarrow> 'e server \<Rightarrow> 'e server" where
  "handle_update_price mint price ts sv =
     (case update_price (sv_manager sv) mint price ts of
        (s, Inr pe) \<Rightarrow> enqueue (PositionEv pe) (sv\<lparr>sv_manager := s\<rparr>)
      | (s, Inl e) \<Rightarrow> sv\<lparr>sv_manager := s\<rparr>)"

section \<open>Signals\<close>

definition handle_entry_signal ::
  "server_config \<Rightarrow> trade_signal \<Rightarrow> 'e server \<Rightarrow> 'e server \<times> (position_error + unit)" where
  "handle_entry_signal c sg sv =
     (case sg_mint sg of
        None \<Rightarrow> (sv, Inr ())
      | Some mint \<Rightarrow>
          (case try_mark_for_buying (sv_manager sv) mint of
             (s, marked) \<Rightarrow>
               if \<not> marked then (sv, Inr ())
               else
                 let sv1 = sv\<lparr>sv_manager := s\<rparr> in
                 (case handle_signal s (cfg_trade_amount (svc_manager c)) (cfg_max_open_positions (svc_manager c))
                         (tradable_signal.truncate sg) of
                    Inr (Some ord) \<Rightarrow> (spawn (MarketTask ord False) sv1, Inr ())
                  | Inr None \<Rightarrow> (sv1, Inr ())
                  | Inl (InsufficientSolBalance a b) \<Rightarrow> (sv1, Inr ())
                  | Inl (MaxOpenPositionsReached n) \<Rightarrow> (sv1, Inr ())
                  | Inl e \<Rightarrow> (sv1, Inl e))))"

definition signal_exit_order :: "timestamp \<Rightarrow> trade_signal \<Rightarrow> string \<Rightarrow> position \<Rightarrow> order" where
  "signal_exit_order now sg mint p =
     (if ts_is_limit_order sg then
        new_limit_sell mint (ts_market sg) (pos_amount p)
          (unwrap_or (ts_limit_price sg) (unwrap_or (pos_current_price p) f0)) True
          (unwrap_or (ts_time_in_force sg) default_tif) (unwrap_or (sg_timestamp sg) now)
          (Some (sg_signal_id sg)) (sg_slot sg)
      else
        \<lparr>ord_mint = mint, ord_market = ts_market sg, ord_order_type = LegacySell (pos_amount p) True,
         ord_price = pos_current_price p, ord_status = Pending,
         ord_timestamp = unwrap_or (sg_timestamp sg) now, ord_signal_slot = sg_slot sg,
         ord_signal_id = Some (sg_signal_id sg), ord_dex_type = None, ord_venue_order_id = None,
         ord_exit_mode = None, ord_context = sg_context sg\<rparr>)"

definition handle_exit_signal ::
  "('e, 'x) executor \<Rightarrow> timestamp \<Rightarrow> trade_signal \<Rightarrow> 'e server \<Rightarrow> 'e server" where
  "handle_exit_signal x now sg sv =
     (case ts_references_position sg of
        None \<Rightarrow> sv
      | Some mint \<Rightarrow>
          (case hget (pm_positions (sv_manager sv)) mint of
             None \<Rightarrow> sv
           | Some p \<Rightarrow>
               if fle (pos_amount p) f0 then sv
               else
                 (case try_mark_pending_sell (sv_manager sv) mint of
                    (s, marked) \<Rightarrow>
                      if \<not> marked then sv
                      else
                        let ord = signal_exit_order now sg mint p
                        in spawn (if ts_is_limit_order sg \<and> ex_supports_limit_orders x
                                  then LimitTask ord else MarketTask ord True) (sv\<lparr>sv_manager := s\<rparr>))))"

definition handle_modify_order_signal :: "timestamp \<Rightarrow> trade_signal \<Rightarrow> 'e server \<Rightarrow> 'e server" where
  "handle_modify_order_signal now sg sv =
     (case ts_references_order_id sg of
        None \<Rightarrow> sv
      | Some oid \<Rightarrow>
          (case ts_references_position sg of
             None \<Rightarrow> sv
           | Some mint \<Rightarrow>
               (case hget (pm_positions (sv_manager sv)) mint of
                  None \<Rightarrow> sv
                | Some p \<Rightarrow>
                    (case ts_limit_price sg of
                       None \<Rightarrow> sv
                     | Some price \<Rightarrow>
                         spawn (ModifyTask oid
                           (new_limit_sell mint (ts_market sg) (pos_amount p) price True
                              (unwrap_or (ts_time_in_force sg) default_tif) (unwrap_or (sg_timestamp sg) now)
                              (Some (sg_signal_id sg)) (sg_slot sg))) sv))))"

definition handle_cancel_order_signal :: "trade_signal \<Rightarrow> 'e server \<Rightarrow> 'e server" where
  "handle_cancel_order_signal sg sv =
     (case ts_references_order_id sg of
        None \<Rightarrow> sv
      | Some oid \<Rightarrow>
          (case ts_references_position sg of
             None \<Rightarrow> sv
           | Some mint \<Rightarrow> spawn (CancelTask oid (Some mint) True) sv))"
section \<open>Intents\<close>

text \<open>The id of an in-flight order is random: \<open>uuid\<close> is the id drawn for the \<open>i\<close>-th placement.\<close>

definition spawn_intent_limit_order ::
  "timestamp \<Rightarrow> string \<Rightarrow> order \<Rightarrow> 'e server \<Rightarrow> 'e server" where
  "spawn_intent_limit_order now fid ord sv =
     (case clob_limit_terms (ord_order_type ord) of
        None \<Rightarrow> sv
      | Some (side, sz, price, tif) \<Rightarrow>
          spawn (IntentTask ord fid)
            (on_manager (\<lambda>s. register_in_flight_order s fid
               \<lparr>fo_id = fid, fo_mint = ord_mint ord, fo_market = ord_market ord, fo_side = side,
                fo_price = price, fo_size = sz, fo_submitted_at = now, fo_signal_id = ord_signal_id ord\<rparr>) sv))"

definition execute_reconciled_order ::
  "('e, 'x) executor \<Rightarrow> timestamp \<Rightarrow> string \<Rightarrow> order \<Rightarrow> 'e server \<Rightarrow> 'e server" where
  "execute_reconciled_order x now fid ord sv =
     (case ord_order_type ord of
        Cancel oid \<Rightarrow> run_cancel x oid None False sv
      | t \<Rightarrow>
          if is_limit t then
            (if ex_supports_limit_orders x then spawn_intent_limit_order now fid ord sv else sv)
          else spawn (MarketTask ord False) sv)"

definition handle_intent_signal ::
  "('e, 'x) executor \<Rightarrow> server_config \<Rightarrow> timestamp \<Rightarrow> (nat \<Rightarrow> string) \<Rightarrow> trade_signal \<Rightarrow> 'e server \<Rightarrow>
   'e server \<times> (position_error + unit)" where
  "handle_intent_signal x c now uuid sg sv =
     (case ts_intent sg of
        None \<Rightarrow> (sv, Inr ())
      | Some intent \<Rightarrow>
          let sv1 = (case oi_redemption_policy intent of
                None \<Rightarrow> sv
              | Some policy \<Rightarrow>
                  process_redemption_actions x now (on_manager (\<lambda>s. update_redemption_policy s policy) sv))
          in case reconcile_intent (sv_manager sv1) (cfg_min_quote_lifetime_ms (svc_manager c)) intent of
               (s, Inl e) \<Rightarrow> (sv1\<lparr>sv_manager := s\<rparr>, Inl e)
             | (s, Inr os) \<Rightarrow>
                 let cancels = filter (\<lambda>ord. is_cancel (ord_order_type ord)) os;
                   placements = filter (\<lambda>ord. \<not> is_cancel (ord_order_type ord)) os;
                   sv2 = foldl (\<lambda>sv ord. execute_reconciled_order x now [] ord sv) (sv1\<lparr>sv_manager := s\<rparr>) cancels
                 in (foldl (\<lambda>sv (i, ord). execute_reconciled_order x now (uuid i) ord sv) sv2
                       (List.enumerate 0 placements), Inr ()))"

definition handle_trade_signal ::
  "('e, 'x) executor \<Rightarrow> server_config \<Rightarrow> timestamp \<Rightarrow> (nat \<Rightarrow> string) \<Rightarrow> trade_signal \<Rightarrow> 'e server \<Rightarrow>
   'e server \<times> (position_error + unit)" where
  "handle_trade_signal x c now uuid sg sv =
     (let sv1 = sv\<lparr>sv_exec := ex_signal x sg (sv_exec sv)\<rparr> in
      if ts_is_intent sg then handle_intent_signal x c now uuid sg sv1
      else
        (case ts_action sg of
           Entry \<Rightarrow> handle_entry_signal c sg sv1
         | Exit \<Rightarrow> (handle_exit_signal x now sg sv1, Inr ())
         | ModifyOrder \<Rightarrow> (handle_modify_order_signal now sg sv1, Inr ())
         | CancelOrder \<Rightarrow> (handle_cancel_order_signal sg sv1, Inr ())))"

text \<open>\<open>process_single_signal\<close>: an error is logged and the next signal follows.\<close>

definition process_single_signal ::
  "('e, 'x) executor \<Rightarrow> server_config \<Rightarrow> timestamp \<Rightarrow> (nat \<Rightarrow> string) \<Rightarrow> trade_signal \<Rightarrow> 'e server \<Rightarrow> 'e server" where
  "process_single_signal x c now uuid sg sv =
     (if ts_passes_filter sg then fst (handle_trade_signal x c now uuid sg sv) else sv)"

section \<open>The event loop\<close>

text \<open>The events that the server and its executors send each other, as \<open>process_event\<close> applies them.\<close>

definition handle_limit_event :: "server_config \<Rightarrow> limit_order_event \<Rightarrow> 'e server \<Rightarrow> 'e server" where
  "handle_limit_event c ev sv =
     (let sv1 = on_manager (\<lambda>s. fst (handle_limit_order_event s ev)) sv
      in case fill_event_to_execution_event ev of
           None \<Rightarrow> sv1
         | Some ee \<Rightarrow> apply_execution c ee sv1)"

definition handle_redemption_event :: "redemption_event \<Rightarrow> 'e server \<Rightarrow> 'e server" where
  "handle_redemption_event ev sv =
     (case handle_redemption (sv_manager sv) ev of
        (s, Inr pes) \<Rightarrow> foldl (\<lambda>sv pe. enqueue (PositionEv pe) sv) (sv\<lparr>sv_manager := s\<rparr>) pes
      | (s, Inl e) \<Rightarrow> sv\<lparr>sv_manager := s\<rparr>)"

fun process_event ::
  "('e, 'x) executor \<Rightarrow> server_config \<Rightarrow> timestamp \<Rightarrow> system_event \<Rightarrow> 'e server \<Rightarrow> 'e server" where
  "process_event x c now (PositionEv ev) sv = handle_position_event c now ev sv"
| "process_event x c now (ExecutionEv ev) sv = handle_execution_event x c now ev sv"
| "process_event x c now (LimitOrderEv ev) sv = handle_limit_event c ev sv"
| "process_event x c now (RedemptionEv ev) sv = handle_redemption_event ev sv"

text \<open>One step of the server: the loop takes the next event, a generator sends a signal, the timer
  fires, the market moves, or a task runs.\<close>

inductive server_step :: "('e, 'x) executor \<Rightarrow> server_config \<Rightarrow> 'e server \<Rightarrow> 'e server \<Rightarrow> bool" for x c where
  event: "sv_queue sv = ev # rest \<Longrightarrow> server_step x c sv (process_event x c now ev (sv\<lparr>sv_queue := rest\<rparr>))"
| signal: "server_step x c sv (process_single_signal x c now uuid sg sv)"
| timer: "server_step x c sv (handle_timer_event c now sv)"
| price: "server_step x c sv (handle_update_price mint p ts sv)"
| task: "sv_tasks sv = ts @ t # us \<Longrightarrow> server_step x c sv (run_task x t (sv\<lparr>sv_tasks := ts @ us\<rparr>))"
| outside: "server_step x c sv (sv\<lparr>sv_exec := e, sv_queue := sv_queue sv @ evs\<rparr>)"

section \<open>The server only acts through the manager's operations\<close>

definition by_ops :: "pm_config \<Rightarrow> pm_state \<Rightarrow> pm_state \<Rightarrow> bool" where
  "by_ops c s s' \<longleftrightarrow> (\<exists>ops. s' = foldl (pm_apply c) s ops)"

named_theorems by_ops_intros

lemma by_ops_refl [simp, by_ops_intros]: "by_ops c s s"
  unfolding by_ops_def by (rule exI [of _ "[]"]) simp

lemma by_ops_trans: "by_ops c s s' \<Longrightarrow> by_ops c s' s'' \<Longrightarrow> by_ops c s s''"
  unfolding by_ops_def by (metis foldl_append)

lemma by_op: "s' = pm_apply c s op \<Longrightarrow> by_ops c s s'"
  unfolding by_ops_def by (rule exI [of _ "[op]"]) simp

lemma by_ops_fold:
  "(\<And>sv y. by_ops c (sv_manager sv) (sv_manager (f sv y))) \<Longrightarrow>
   by_ops c (sv_manager sv) (sv_manager (foldl f sv ys))"
  by (induction ys arbitrary: sv) (auto intro: by_ops_trans)

lemma manager_frames [simp]:
  "sv_manager (enqueue ev sv) = sv_manager sv" "sv_manager (spawn t sv) = sv_manager sv"
  "sv_manager (on_manager f sv) = f (sv_manager sv)"
  "sv_manager (offer_limit x lev sv) = sv_manager sv" "sv_manager (offer_cancel x lev sv) = sv_manager sv"
  by (simp_all add: enqueue_def spawn_def on_manager_def offer_limit_def offer_cancel_def)

lemma sell_failed_ops: "by_ops c s (sell_failed m s)"
  unfolding by_ops_def sell_failed_def by (rule exI [of _ "[OpClearSell m, OpSellFailed m]"]) simp

lemma single_ops [by_ops_intros]:
  "by_ops c s (release_sell m s)" "by_ops c s (fst (remove_in_flight_order s m fid))"
  "by_ops c s (register_in_flight_order s fid f)" "by_ops c s (update_redemption_policy s p)"
  "by_ops c s (fst (handle_limit_order_event s ev))"
  using by_op [of _ c s "OpClearSell m"] by_op [of _ c s "OpRemoveInFlight m fid"]
    by_op [of _ c s "OpRegisterInFlight fid f"] by_op [of _ c s "OpPolicy p"] by_op [of _ c s "OpLimitEvent ev"]
  by (simp_all add: release_sell_def)

lemma result_ops:
  "handle_execution s ev (cfg_exit_strategy c) = (s1, r1) \<Longrightarrow> by_ops c s s1"
  "try_mark_pending_sell s m = (s2, r2) \<Longrightarrow> by_ops c s s2"
  "try_mark_for_buying s m = (s3, r3) \<Longrightarrow> by_ops c s s3"
  "update_price s m p t = (s4, r4) \<Longrightarrow> by_ops c s s4"
  "reconcile_intent s (cfg_min_quote_lifetime_ms c) i = (s5, r5) \<Longrightarrow> by_ops c s s5"
  "handle_redemption s rv = (s6, r6) \<Longrightarrow> by_ops c s s6"
  using by_op [of s1 c s "OpExecution ev"] by_op [of s2 c s "OpMarkSell m"] by_op [of s3 c s "OpMarkBuy m"]
    by_op [of s4 c s "OpUpdatePrice m p t"] by_op [of s5 c s "OpIntent i"] by_op [of s6 c s "OpRedemption rv"]
  by simp_all

lemma task_ops: "by_ops c (sv_manager sv) (sv_manager (run_task x t sv))"
proof (cases t)
  case (MarketTask ord h)
  then show ?thesis by (auto simp: run_market_def sell_failed_ops split: prod.splits sum.splits)
next
  case (ModifyTask old_id ord)
  then show ?thesis
    by (auto simp: run_modify_def run_limit_def intro!: by_ops_intros split: prod.splits sum.splits)
qed (auto simp: run_limit_def run_intent_limit_def run_cancel_def Let_def
    intro!: by_ops_intros split: prod.splits sum.splits option.splits)

lemma redemption_ops: "sv_manager (process_redemption_actions x now sv) = sv_manager sv"
proof -
  have "sv_manager (foldl (handle_redemption_action x) sv as) = sv_manager sv" for as
    by (induction as arbitrary: sv) (auto simp: handle_redemption_action_def split: prod.splits sum.splits)
  then show ?thesis by (simp add: process_redemption_actions_def)
qed

lemma execution_ops: "by_ops (svc_manager c) (sv_manager sv) (sv_manager (apply_execution c ev sv))"
  by (auto simp: apply_execution_def intro: result_ops split: prod.splits sum.splits)

lemma event_ops: "by_ops (svc_manager c) (sv_manager sv) (sv_manager (process_event x c now ev sv))"
proof (cases ev)
  case (PositionEv pe)
  then show ?thesis
    by (cases pe) (auto simp: handle_position_updated_def intro: result_ops split: prod.splits)
next
  case (ExecutionEv ee)
  then show ?thesis
    by (cases ee) (simp_all add: handle_execution_event_def redemption_ops execution_ops)
next
  case (LimitOrderEv lev)
  have "by_ops (svc_manager c) (sv_manager sv) (fst (handle_limit_order_event (sv_manager sv) lev))"
    by (rule by_ops_intros)
  then show ?thesis
    using LimitOrderEv execution_ops [of c "on_manager (\<lambda>s. fst (handle_limit_order_event s lev)) sv"]
    by (auto simp: handle_limit_event_def Let_def intro: by_ops_trans split: option.split)
next
  case (RedemptionEv rv)
  have "sv_manager (foldl (\<lambda>sv pe. enqueue (PositionEv pe) sv) sv pes) = sv_manager sv" for sv :: "'a server" and pes
    by (induction pes arbitrary: sv) auto
  then show ?thesis
    using RedemptionEv by (auto simp: handle_redemption_event_def intro: result_ops split: prod.splits sum.splits)
qed

lemma timer_ops: "by_ops (svc_manager c) (sv_manager sv) (sv_manager (handle_timer_event c now sv))"
proof -
  have "by_ops (svc_manager c) (sv_manager sv) (sv_manager (timer_order c sv ord))" for sv :: "'a server" and ord
    by (auto simp: timer_order_def intro: result_ops split: prod.splits option.splits)
  then show ?thesis
    by (auto simp: handle_timer_event_def intro: by_ops_fold split: sum.split)
qed

lemma reconciled_ops: "by_ops c (sv_manager sv) (sv_manager (execute_reconciled_order x now fid ord sv))"
  by (auto simp: execute_reconciled_order_def run_cancel_def spawn_intent_limit_order_def Let_def
      intro: by_ops_intros split: order_type.split prod.splits sum.splits option.splits)

lemma intent_ops: "by_ops (svc_manager c) (sv_manager sv) (sv_manager (fst (handle_intent_signal x c now uuid sg sv)))"
proof (cases "ts_intent sg")
  case (Some i)
  define sv1 where "sv1 = (case oi_redemption_policy i of None \<Rightarrow> sv | Some policy \<Rightarrow>
      process_redemption_actions x now (on_manager (\<lambda>s. update_redemption_policy s policy) sv))"
  obtain s r where rec: "reconcile_intent (sv_manager sv1) (cfg_min_quote_lifetime_ms (svc_manager c)) i = (s, r)"
    by fastforce
  have "by_ops (svc_manager c) (sv_manager sv) (sv_manager sv1)"
    by (auto simp: sv1_def redemption_ops intro: by_ops_intros split: option.split)
  from by_ops_trans [OF this result_ops(5) [OF rec]] have base: "by_ops (svc_manager c) (sv_manager sv) s" .
  have fold1: "by_ops (svc_manager c) (sv_manager sv2) (sv_manager (foldl (\<lambda>sv ord. execute_reconciled_order x now [] ord sv) sv2 os))" for sv2 os
    by (rule by_ops_fold) (rule reconciled_ops)
  have fold2: "by_ops (svc_manager c) (sv_manager sv2) (sv_manager
      (foldl (\<lambda>sv (i, ord). execute_reconciled_order x now (uuid i) ord sv) sv2 os))" for sv2 os
    by (rule by_ops_fold) (auto intro: reconciled_ops split: prod.split)
  show ?thesis
  proof (cases r)
    case (Inl e)
    then show ?thesis using base by (simp add: handle_intent_signal_def Some sv1_def [symmetric] rec Let_def)
  next
    case (Inr os)
    have eq: "fst (handle_intent_signal x c now uuid sg sv) =
        foldl (\<lambda>sv (i, ord). execute_reconciled_order x now (uuid i) ord sv)
          (foldl (\<lambda>sv ord. execute_reconciled_order x now [] ord sv) (sv1\<lparr>sv_manager := s\<rparr>)
             (filter (\<lambda>ord. is_cancel (ord_order_type ord)) os))
          (List.enumerate 0 (filter (\<lambda>ord. \<not> is_cancel (ord_order_type ord)) os))"
      by (simp add: handle_intent_signal_def Some sv1_def [symmetric] rec Inr Let_def)
    have "by_ops (svc_manager c) (sv_manager sv) (sv_manager (sv1\<lparr>sv_manager := s\<rparr>))" using base by simp
    then show ?thesis unfolding eq by (rule by_ops_trans [OF by_ops_trans [OF _ fold1] fold2])
  qed
qed (simp add: handle_intent_signal_def)

lemma signal_ops: "by_ops (svc_manager c) (sv_manager sv) (sv_manager (process_single_signal x c now uuid sg sv))"
proof -
  have entry: "by_ops (svc_manager c) (sv_manager sv) (sv_manager (fst (handle_entry_signal c sg sv)))" for sv :: "'a server"
    by (auto simp: handle_entry_signal_def Let_def intro: result_ops
        split: option.split prod.split sum.split position_error.split)
  have exit: "by_ops (svc_manager c) (sv_manager sv) (sv_manager (handle_exit_signal x now sg sv))" for sv :: "'a server"
    by (auto simp: handle_exit_signal_def Let_def intro: result_ops split: option.split prod.split)
  show ?thesis
    using entry [of "sv\<lparr>sv_exec := ex_signal x sg (sv_exec sv)\<rparr>"] exit [of "sv\<lparr>sv_exec := ex_signal x sg (sv_exec sv)\<rparr>"]
      intent_ops [of c "sv\<lparr>sv_exec := ex_signal x sg (sv_exec sv)\<rparr>" x now uuid sg]
    by (auto simp: process_single_signal_def handle_trade_signal_def handle_modify_order_signal_def Let_def
        handle_cancel_order_signal_def split: signal_action.split option.split)
qed

lemma server_step_ops:
  "server_step x c sv sv' \<Longrightarrow> by_ops (svc_manager c) (sv_manager sv) (sv_manager sv')"
proof (induction rule: server_step.induct)
  case (event sv ev rest now)
  then show ?case using event_ops [of c "sv\<lparr>sv_queue := rest\<rparr>" x now ev] by simp
next
  case (task sv ts t us)
  then show ?case using task_ops [of "svc_manager c" "sv\<lparr>sv_tasks := ts @ us\<rparr>" x t] by simp
next
  case (price sv m p ts)
  show ?case by (auto simp: handle_update_price_def intro: result_ops split: prod.splits sum.splits)
qed (simp_all add: signal_ops timer_ops)


section \<open>Properties\<close>

abbreviation server_run :: "('e, 'x) executor \<Rightarrow> server_config \<Rightarrow> 'e server \<Rightarrow> 'e server \<Rightarrow> bool" where
  "server_run x c \<equiv> (server_step x c)\<^sup>*\<^sup>*"

lemma server_run_ops:
  "server_run x c sv sv' \<Longrightarrow> by_ops (svc_manager c) (sv_manager sv) (sv_manager sv')"
  by (induction rule: rtranclp_induct) (auto intro: by_ops_trans server_step_ops)

lemma by_ops_inv: "by_ops c s s' \<Longrightarrow> pm_inv s \<Longrightarrow> pm_inv s'"
  unfolding by_ops_def using foldl_invariant [of pm_inv s _ "pm_apply c"] pm_apply_inv by blast

lemma by_ops_bought: "by_ops c s s' \<Longrightarrow> pm_bought_mints s \<subseteq> pm_bought_mints s'"
proof -
  have "pm_bought_mints s \<subseteq> pm_bought_mints (foldl (pm_apply c) s ops)" for ops
    using pm_apply_bought by (induction ops arbitrary: s) fastforce+
  then show "by_ops c s s' \<Longrightarrow> ?thesis" by (auto simp: by_ops_def)
qed

text \<open>The buy mark of a mint is taken before the limits are checked and never given back: after an
  entry signal that was refused because of the balance or of the number of open positions, or dropped
  for a missing price, no later entry signal for the mint has any effect, in any run of the server.\<close>

theorem refused_entry_blocks_mint:
  assumes "sg_mint sg = Some mint" "handle_entry_signal c sg sv = (sv1, r)" "server_run x c sv1 sv2"
    "sg_mint sg' = Some mint"
  shows "handle_entry_signal c sg' sv2 = (sv2, Inr ())"
proof -
  have "mint \<in> pm_bought_mints (sv_manager sv1)"
    using assms(1,2)
    by (auto simp: handle_entry_signal_def try_mark_for_buying_def Let_def spawn_def
        split: if_splits sum.splits option.splits position_error.splits)
  then have "mint \<in> pm_bought_mints (sv_manager sv2)" using by_ops_bought [OF server_run_ops [OF assms(3)]] by blast
  then show ?thesis using assms(4) by (simp add: handle_entry_signal_def try_mark_for_buying_def)
qed

definition entry_signals :: "server_config \<Rightarrow> trade_signal list \<Rightarrow> 'e server \<Rightarrow> 'e server" where
  "entry_signals c sgs sv = foldl (\<lambda>sv sg. fst (handle_entry_signal c sg sv)) sv sgs"

definition opens :: "pm_state \<Rightarrow> trade_signal \<Rightarrow> bool" where
  "opens s sg \<longleftrightarrow> (\<exists>mint price ts. sg_mint sg = Some mint \<and> mint \<noteq> [] \<and> mint \<notin> pm_bought_mints s
     \<and> sg_price sg = Some price \<and> sg_timestamp sg = Some ts)"

lemma entry_opens:
  assumes "opens (sv_manager sv) sg" "of_nat (length (pm_positions (sv_manager sv))) < cfg_max_open_positions (svc_manager c)"
    "\<not> flt (pm_available_quote (sv_manager sv)) (cfg_trade_amount (svc_manager c))"
  obtains ord where "ord_order_type ord = LegacyBuy (cfg_trade_amount (svc_manager c))" "sg_mint sg = Some (ord_mint ord)"
    "fst (handle_entry_signal c sg sv) = spawn (MarketTask ord False)
       (sv\<lparr>sv_manager := (sv_manager sv)\<lparr>pm_bought_mints := insert (ord_mint ord) (pm_bought_mints (sv_manager sv))\<rparr>\<rparr>)"
proof -
  obtain mint price ts where sg: "sg_mint sg = Some mint" "mint \<noteq> []" "mint \<notin> pm_bought_mints (sv_manager sv)"
    "sg_price sg = Some price" "sg_timestamp sg = Some ts" using assms(1) by (auto simp: opens_def)
  show thesis
    by (rule that [of "\<lparr>ord_mint = mint, ord_market = None, ord_order_type = LegacyBuy (cfg_trade_amount (svc_manager c)),
                ord_price = Some price, ord_status = Pending, ord_timestamp = ts,
                ord_signal_slot = sg_slot sg, ord_signal_id = Some (sg_signal_id sg),
                ord_dex_type = None, ord_venue_order_id = None, ord_exit_mode = None,
                ord_context = sg_context sg\<rparr>"])
      (use sg assms(2,3) in \<open>simp_all add: handle_entry_signal_def try_mark_for_buying_def handle_signal_def
        tradable_signal.truncate_def not_le\<close>)
qed

text \<open>The limits on open positions and on the balance are checked against what has been filled, not
  against what has been ordered: signals for different mints that arrive before the first fill all
  become orders, however many they are.\<close>

theorem entries_ignore_pending_orders:
  assumes "of_nat (length (pm_positions (sv_manager sv))) < cfg_max_open_positions (svc_manager c)"
    "\<not> flt (pm_available_quote (sv_manager sv)) (cfg_trade_amount (svc_manager c))"
    "distinct (map sg_mint sgs)" "list_all (opens (sv_manager sv)) sgs"
  shows "\<exists>os. sv_tasks (entry_signals c sgs sv) = sv_tasks sv @ map (\<lambda>ord. MarketTask ord False) os
    \<and> map (\<lambda>ord. Some (ord_mint ord)) os = map sg_mint sgs
    \<and> list_all (\<lambda>ord. ord_order_type ord = LegacyBuy (cfg_trade_amount (svc_manager c))) os"
  using assms
proof (induction sgs arbitrary: sv)
  case (Cons sg sgs)
  obtain ord where o: "ord_order_type ord = LegacyBuy (cfg_trade_amount (svc_manager c))" "sg_mint sg = Some (ord_mint ord)"
    and run: "fst (handle_entry_signal c sg sv) = spawn (MarketTask ord False)
       (sv\<lparr>sv_manager := (sv_manager sv)\<lparr>pm_bought_mints := insert (ord_mint ord) (pm_bought_mints (sv_manager sv))\<rparr>\<rparr>)"
    using entry_opens [of sv sg c] Cons.prems by auto
  define sv1 where "sv1 = fst (handle_entry_signal c sg sv)"
  have "list_all (opens (sv_manager sv1)) sgs"
    using Cons.prems(3,4) o(2) unfolding sv1_def run
    by (auto simp: list_all_iff opens_def spawn_def image_iff) force
  then obtain os where "sv_tasks (entry_signals c sgs sv1) = sv_tasks sv1 @ map (\<lambda>ord. MarketTask ord False) os"
    "map (\<lambda>ord. Some (ord_mint ord)) os = map sg_mint sgs"
    "list_all (\<lambda>ord. ord_order_type ord = LegacyBuy (cfg_trade_amount (svc_manager c))) os"
    using Cons.IH [of sv1] Cons.prems(1,2,3) unfolding sv1_def run by (auto simp: spawn_def)
  then show ?case using o unfolding entry_signals_def sv1_def
    by (intro exI [of _ "ord # os"]) (simp add: run spawn_def)
qed (simp add: entry_signals_def)


section \<open>Exits on the live executor\<close>

text \<open>The live executor behind the trait: the methods it does not override are those of the trait.\<close>

definition clob_executor ::
  "('w, 's) clob \<Rightarrow> polymarket_config \<Rightarrow> (exec_error \<Rightarrow> string) \<Rightarrow> ('w clob_state, exec_error) executor" where
  "clob_executor x pc show_error =
     \<lparr>ex_market = clob_market_order x pc, ex_limit = clob_limit_order x pc,
      ex_cancel = clob_cancel_order x pc, ex_redeem = clob_execute_redemption x,
      ex_token_trade = (\<lambda>t e. (Inr (), e)), ex_signal = (\<lambda>sg e. e),
      ex_book_snapshot = (\<lambda>b e. (Inr (), e)), ex_book_update = (\<lambda>u e. (Inr (), e)),
      ex_check_fills = (\<lambda>t inv quote e. ([], e)), ex_show = show_error, ex_simulates_fills = False,
      ex_supports_limit_orders = True, ex_supports_redemption = True,
      ex_defers_limit_order_events = False, ex_defers_cancel_order_events = True\<rparr>"

definition run_tasks :: "('e, 'x) executor \<Rightarrow> 'e server \<Rightarrow> 'e server" where
  "run_tasks x sv = foldl (\<lambda>sv t. run_task x t sv) (sv\<lparr>sv_tasks := []\<rparr>) (sv_tasks sv)"

text \<open>One round: the position is reported as updated and the tasks that come of it run.\<close>

definition exit_round ::
  "('e, 'x) executor \<Rightarrow> server_config \<Rightarrow> string \<Rightarrow> 'e server \<Rightarrow> timestamp \<Rightarrow> 'e server" where
  "exit_round x c mint sv now =
     (case hget (pm_positions (sv_manager sv)) mint of
        None \<Rightarrow> sv
      | Some p \<Rightarrow> run_tasks x (handle_position_updated c now p sv))"

definition with_failures :: "pm_state \<Rightarrow> string \<Rightarrow> position \<Rightarrow> u32 \<Rightarrow> pm_state" where
  "with_failures s mint p k = s\<lparr>pm_positions := hput mint (p\<lparr>pos_sell_failure_count := k\<rparr>) (pm_positions s)\<rparr>"

lemma hput_twice [simp]: "hput k v (hput k w m) = hput k v m"
  by (induction m) (auto simp: hput_def)

lemma exit_for_any_count:
  assumes "should_exit xs p now" "pos_sell_failure_count p = 0"
  shows "should_exit xs (p\<lparr>pos_sell_failure_count := k\<rparr>) now"
  using assms by (cases xs) (auto simp: configurable_should_exit_def split: if_splits)

lemma clob_refuses_exit:
  "run_market (clob_executor x pc sh) (exit_order p) True sv = on_manager (sell_failed (pos_mint p)) sv"
  by (simp add: run_market_def clob_executor_def clob_market_order_def exit_order_def)

lemma exit_round_fails:
  assumes p: "should_exit (svc_exit_strategy c) p now" "pos_sell_failure_count p = 0" "pos_mint p = mint"
    "\<not> fle (pos_amount p) f0"
    and sv: "sv_tasks sv = []" "mint \<notin> pm_pending_sells s"
  shows "exit_round (clob_executor x pc sh) c mint (sv\<lparr>sv_manager := with_failures s mint p k\<rparr>) now =
    sv\<lparr>sv_manager := with_failures s mint p (if svc_max_sell_failures c \<le> k then k else k + 1)\<rparr>"
proof -
  have e: "should_exit (svc_exit_strategy c) (p\<lparr>pos_sell_failure_count := k\<rparr>) now"
    by (rule exit_for_any_count [OF p(1,2)])
  have "pm_pending_sells s - {mint} = pm_pending_sells s" using sv(2) by simp
  then show ?thesis
    using e p(3,4) sv
    by (cases "svc_max_sell_failures c \<le> k")
      (simp_all add: exit_round_def with_failures_def handle_position_updated_def run_tasks_def
        try_mark_pending_sell_def spawn_def clob_refuses_exit on_manager_def sell_failed_def
        release_pending_sell_def increment_sell_failure_count_def edit_position_def)
qed

definition exit_of :: "string \<Rightarrow> task \<Rightarrow> bool" where
  "exit_of mint t = (case t of MarketTask ord h \<Rightarrow> h \<and> ord_mint ord = mint | _ \<Rightarrow> False)"

definition held_back :: "server_config \<Rightarrow> string \<Rightarrow> pm_state \<Rightarrow> bool" where
  "held_back c mint s \<longleftrightarrow> mint \<in> pm_pending_sells s
     \<or> (\<exists>p. hget (pm_positions s) mint = Some p \<and> svc_max_sell_failures c \<le> pos_sell_failure_count p)"

lemma timer_held_back:
  assumes "held_back c mint (sv_manager sv)"
  shows "filter (exit_of mint) (sv_tasks (handle_timer_event c t sv)) = filter (exit_of mint) (sv_tasks sv)"
proof -
  have fold: "held_back c mint (sv_manager s) \<Longrightarrow>
      filter (exit_of mint) (sv_tasks (foldl (timer_order c) s os)) = filter (exit_of mint) (sv_tasks s)"
    if "list_all (\<lambda>ord. is_sell (ord_order_type ord)) os" for s :: "'a server" and os
    using that
  proof (induction os arbitrary: s)
    case (Cons ord os)
    have "held_back c mint (sv_manager (timer_order c s ord))
        \<and> filter (exit_of mint) (sv_tasks (timer_order c s ord)) = filter (exit_of mint) (sv_tasks s)"
      using Cons.prems
      by (auto simp: timer_order_def try_mark_pending_sell_def spawn_def exit_of_def held_back_def split: option.split)
    then show ?case using Cons by simp
  qed simp
  have "list_all (\<lambda>ord. is_sell (ord_order_type ord)) os" if "handle_timer s xs t = Inr os" for s xs os
    using that by (auto simp: handle_timer_def build_exit_orders_def build_exit_order_def list_all_iff)
  then show ?thesis using fold [of _ sv] assms by (auto simp: handle_timer_event_def split: sum.split)
qed

lemma clob_exit_rounds:
  assumes p: "hget (pm_positions (sv_manager sv)) mint = Some p" "pos_mint p = mint"
    "pos_sell_failure_count p = 0" "\<not> fle (pos_amount p) f0"
    and sv: "sv_tasks sv = []" "mint \<notin> pm_pending_sells (sv_manager sv)"
    and exit: "list_all (should_exit (svc_exit_strategy c) p) ticks"
  shows "foldl (exit_round (clob_executor x pc sh) c mint) sv ticks =
    sv\<lparr>sv_manager := with_failures (sv_manager sv) mint p
         (of_nat (min (length ticks) (unat (svc_max_sell_failures c))))\<rparr>"
  using exit
proof (induction ticks rule: rev_induct)
  case Nil
  have "p\<lparr>pos_sell_failure_count := 0\<rparr> = p" using p(3) by simp
  then have "with_failures (sv_manager sv) mint p 0 = sv_manager sv"
    using p(1) by (simp add: with_failures_def hput_same)
  then show ?case by simp
next
  case (snoc now ticks)
  let ?m = "unat (svc_max_sell_failures c)" and ?n = "length ticks"
  have "(svc_max_sell_failures c \<le> of_nat (min ?n ?m)) = (?m \<le> ?n)"
  proof -
    have "min ?n ?m < 2 ^ LENGTH(32)"
      using unsigned_less [where 'a = nat, of "svc_max_sell_failures c"] by (simp add: min_less_iff_disj)
    then have "unat (of_nat (min ?n ?m) :: u32) = min ?n ?m"
      by (simp add: unsigned_of_nat take_bit_nat_eq_self del: min_less_iff_disj)
    then show ?thesis by (simp add: word_le_nat_alt)
  qed
  moreover have "(of_nat (min ?n ?m) :: u32) + 1 = of_nat (min (Suc ?n) ?m)" if "\<not> ?m \<le> ?n"
    using that by simp
  ultimately show ?case
    using snoc exit_round_fails [OF _ p(3,2,4) sv, of c now x pc sh "of_nat (min ?n ?m)"]
    by (simp add: min_def add.commute [of _ 1] split: if_splits)
qed

text \<open>What may start an automatic exit of the mint: its position is reported as updated, or the timer fires.
  The tasks that come of it, of any mint, run.\<close>

datatype exit_trigger = UpdateAt timestamp | TimerAt timestamp

definition trigger ::
  "('e, 'x) executor \<Rightarrow> server_config \<Rightarrow> string \<Rightarrow> 'e server \<Rightarrow> exit_trigger \<Rightarrow> 'e server" where
  "trigger x c mint sv tr =
     (case tr of UpdateAt now \<Rightarrow> exit_round x c mint sv now
      | TimerAt now \<Rightarrow> run_tasks x (handle_timer_event c now sv))"

definition given_up :: "server_config \<Rightarrow> string \<Rightarrow> position \<Rightarrow> pm_state \<Rightarrow> bool" where
  "given_up c mint p s \<longleftrightarrow> hget (pm_positions s) mint = Some p \<and> svc_max_sell_failures c \<le> pos_sell_failure_count p
     \<and> mint \<notin> pm_pending_sells s"

definition sale_elsewhere :: "string \<Rightarrow> task \<Rightarrow> bool" where
  "sale_elsewhere mint t \<longleftrightarrow> (\<exists>ord. t = MarketTask ord True \<and> ord_mint ord \<noteq> mint)"

lemma sale_elsewhere_market [simp]: "sale_elsewhere mint (MarketTask ord True) \<longleftrightarrow> ord_mint ord \<noteq> mint"
  by (simp add: sale_elsewhere_def)

lemma given_up_elsewhere:
  "given_up c mint p (sv_manager sv) \<Longrightarrow> list_all (sale_elsewhere mint) ts \<Longrightarrow>
   given_up c mint p (sv_manager (foldl (\<lambda>sv t. run_task x t sv) sv ts))
   \<and> sv_tasks (foldl (\<lambda>sv t. run_task x t sv) sv ts) = sv_tasks sv"
proof (induction ts arbitrary: sv)
  case (Cons t ts)
  obtain ord where t: "t = MarketTask ord True" "ord_mint ord \<noteq> mint"
    using Cons.prems(2) by (auto simp: sale_elsewhere_def)
  have "given_up c mint p (sv_manager (run_task x t sv))" "sv_tasks (run_task x t sv) = sv_tasks sv"
    using Cons.prems(1) t(2)
    by (auto simp: t(1) run_market_def given_up_def sell_failed_def release_pending_sell_def enqueue_def on_manager_def
        increment_sell_failure_count_def edit_position_def split: prod.split sum.split option.split)
  then show ?case using Cons by simp
qed simp

lemma timer_given_up:
  assumes "given_up c mint p (sv_manager sv)" "sv_tasks sv = []"
  shows "given_up c mint p (sv_manager (handle_timer_event c now sv))
    \<and> list_all (sale_elsewhere mint) (sv_tasks (handle_timer_event c now sv))"
proof -
  have fold: "given_up c mint p (sv_manager s) \<Longrightarrow> list_all (sale_elsewhere mint) (sv_tasks s) \<Longrightarrow>
      list_all (\<lambda>ord. is_sell (ord_order_type ord)) os \<Longrightarrow>
      given_up c mint p (sv_manager (foldl (timer_order c) s os))
      \<and> list_all (sale_elsewhere mint) (sv_tasks (foldl (timer_order c) s os))" for s :: "'a server" and os
  proof (induction os arbitrary: s)
    case (Cons ord os)
    have "given_up c mint p (sv_manager (timer_order c s ord))
        \<and> list_all (sale_elsewhere mint) (sv_tasks (timer_order c s ord))"
      using Cons.prems
      by (auto simp: timer_order_def given_up_def try_mark_pending_sell_def spawn_def split: option.split)
    then show ?case using Cons by simp
  qed simp
  have "list_all (\<lambda>ord. is_sell (ord_order_type ord)) os" if "handle_timer s xs t = Inr os" for s xs t os
    using that by (auto simp: handle_timer_def build_exit_orders_def build_exit_order_def list_all_iff)
  then show ?thesis using fold assms by (auto simp: handle_timer_event_def split: sum.split)
qed

lemma round_given_up:
  "given_up c mint p (sv_manager sv) \<Longrightarrow> sv_tasks sv = [] \<Longrightarrow> exit_round x c mint sv now = sv"
  by (auto simp: given_up_def exit_round_def handle_position_updated_def run_tasks_def)

lemma triggers_given_up:
  assumes "given_up c mint p (sv_manager sv)" "sv_tasks sv = []"
  shows "given_up c mint p (sv_manager (foldl (trigger x c mint) sv trs)) \<and> sv_tasks (foldl (trigger x c mint) sv trs) = []"
  using assms
proof (induction trs arbitrary: sv)
  case (Cons tr trs)
  have "given_up c mint p (sv_manager (trigger x c mint sv tr)) \<and> sv_tasks (trigger x c mint sv tr) = []"
  proof (cases tr)
    case (UpdateAt now)
    then show ?thesis using Cons.prems round_given_up [OF Cons.prems, of x now] by (simp add: trigger_def)
  next
    case (TimerAt now)
    note t = timer_given_up [OF Cons.prems, of now]
    show ?thesis
      using given_up_elsewhere [of c mint p "(handle_timer_event c now sv)\<lparr>sv_tasks := []\<rparr>" "sv_tasks (handle_timer_event c now sv)" x] t TimerAt
      by (simp add: trigger_def run_tasks_def)
  qed
  then show ?case using Cons.IH by simp
qed simp

text \<open>C5. Updates of a position never sell it on the live executor, although its exit condition holds.
  The order that the handler builds is of the old kind that this executor refuses: each update
  releases the sell mark and counts one failure, the exchange is not contacted and nothing else changes.
  Once the configured number of failures is reached the position is given up: over any further updates
  of it and any timer events, with the tasks they cause, it stays as it is, its mark stays free, and neither
  a further update nor the timer starts a sale of it.\<close>

theorem clob_exit_gives_up:
  fixes x :: "('w, 's) clob" and pc :: polymarket_config and sh :: "exec_error \<Rightarrow> string"
    and c :: server_config and mint :: string and sv :: "'w clob_state server" and ticks :: "timestamp list"
  assumes "hget (pm_positions (sv_manager sv)) mint = Some p" "pos_mint p = mint"
    "pos_sell_failure_count p = 0" "\<not> fle (pos_amount p) f0"
    "sv_tasks sv = []" "mint \<notin> pm_pending_sells (sv_manager sv)"
    "list_all (should_exit (svc_exit_strategy c) p) ticks"
  defines "X \<equiv> clob_executor x pc sh"
  defines "sv' \<equiv> foldl (exit_round X c mint) sv ticks"
  shows "sv' = sv\<lparr>sv_manager := with_failures (sv_manager sv) mint p
         (of_nat (min (length ticks) (unat (svc_max_sell_failures c))))\<rparr>
      \<and> (unat (svc_max_sell_failures c) \<le> length ticks \<longrightarrow>
          (let sv'' = foldl (trigger X c mint) sv' trs
           in hget (pm_positions (sv_manager sv'')) mint = Some (p\<lparr>pos_sell_failure_count := svc_max_sell_failures c\<rparr>)
             \<and> mint \<notin> pm_pending_sells (sv_manager sv'') \<and> exit_round X c mint sv'' now = sv''
             \<and> \<not> list_ex (exit_of mint) (sv_tasks (handle_timer_event c t sv''))))"
proof -
  let ?sv = "sv\<lparr>sv_manager := with_failures (sv_manager sv) mint p
         (of_nat (min (length ticks) (unat (svc_max_sell_failures c))))\<rparr>"
  let ?p = "p\<lparr>pos_sell_failure_count := svc_max_sell_failures c\<rparr>"
  have sv': "sv' = ?sv" unfolding sv'_def X_def by (rule clob_exit_rounds [OF assms(1-7)])
  have after: "given_up c mint ?p (sv_manager (foldl (trigger X c mint) sv' trs))"
    "sv_tasks (foldl (trigger X c mint) sv' trs) = []" if "unat (svc_max_sell_failures c) \<le> length ticks"
    using triggers_given_up [of c mint ?p ?sv X trs] that assms(5,6) unfolding sv'
    by (simp_all add: given_up_def with_failures_def)
  have none: "\<not> list_ex (exit_of mint) ts" if "list_all (sale_elsewhere mint) ts" for ts
    using that by (auto simp: list_all_iff list_ex_iff sale_elsewhere_def exit_of_def)
  show ?thesis
    using sv' after timer_given_up [OF after, THEN conjunct2, THEN none, of t] round_given_up [OF after, of X now]
    by (simp add: given_up_def Let_def)
qed

section \<open>Rejected exits\<close>

text \<open>An executor may answer a market order with a rejection instead of an error, as the paper
  executor does.  The server then neither tells the position manager nor releases the sell mark: no
  update of the position, timer or market exit signal starts another sale of the mint.\<close>

theorem rejected_exit_stays_marked:
  fixes c :: server_config and now :: timestamp
  assumes marked: "mint \<in> pm_pending_sells (sv_manager sv)" and ord: "ord_mint ord = mint"
    and reject: "ex_market x ord (sv_exec sv) = (Inr (ExecOrderRejected mint reason), e)"
    and queue: "sv_queue sv = []"
  defines "sv1 \<equiv> run_task x (MarketTask ord True) sv"
  defines "sv2 \<equiv> process_event x c now (hd (sv_queue sv1)) (sv1\<lparr>sv_queue := []\<rparr>)"
  shows "sv_manager sv2 = sv_manager sv
    \<and> handle_position_updated c t (p\<lparr>pos_mint := mint\<rparr>) sv2 = sv2
    \<and> filter (exit_of mint) (sv_tasks (handle_timer_event c t sv2)) = filter (exit_of mint) (sv_tasks sv2)
    \<and> handle_exit_signal x t (sg\<lparr>ts_references_position := Some mint\<rparr>) sv2 = sv2"
proof -
  have m: "sv_manager sv2 = sv_manager sv"
    using reject queue
    by (simp add: sv2_def sv1_def run_market_def handle_execution_event_def redemption_ops enqueue_def)
  have "filter (exit_of mint) (sv_tasks (handle_timer_event c t sv2)) = filter (exit_of mint) (sv_tasks sv2)"
    using marked by (intro timer_held_back) (simp add: held_back_def m)
  moreover have "handle_position_updated c t (p\<lparr>pos_mint := mint\<rparr>) sv2 = sv2"
    using marked by (simp add: handle_position_updated_def try_mark_pending_sell_def m)
  moreover have "handle_exit_signal x t (sg\<lparr>ts_references_position := Some mint\<rparr>) sv2 = sv2"
    using marked by (simp add: handle_exit_signal_def try_mark_pending_sell_def m split: option.split)
  ultimately show ?thesis using m by blast
qed


section \<open>Intent orders on the live executor\<close>

definition in_flight_entry :: "timestamp \<Rightarrow> string \<Rightarrow> order \<Rightarrow> order_side \<Rightarrow> f64 \<Rightarrow> f64 \<Rightarrow> in_flight_order" where
  "in_flight_entry now fid ord side sz price =
     \<lparr>fo_id = fid, fo_mint = ord_mint ord, fo_market = ord_market ord, fo_side = side,
      fo_price = price, fo_size = sz, fo_submitted_at = now, fo_signal_id = ord_signal_id ord\<rparr>"

lemma handle_execution_book:
  "pm_in_flight_orders (fst (handle_execution s ev x)) = pm_in_flight_orders s
   \<and> pm_pending_limit_orders (fst (handle_execution s ev x)) = pm_pending_limit_orders s"
proof (cases ev)
  case (ExecOrderFilled f)
  obtain s' r where "handle_order_filled s f x = (s', r)" by fastforce
  then show ?thesis
    using ExecOrderFilled handle_order_filled_orders by (simp split: option.split)
qed simp

lemma apply_execution_manager:
  "sv_manager (apply_execution c ev sv) = fst (handle_execution (sv_manager sv) ev (cfg_exit_strategy (svc_manager c)))"
  by (simp add: apply_execution_def split: prod.split sum.split)

lemma apply_execution_book:
  "pm_in_flight_orders (sv_manager (apply_execution c ev sv)) = pm_in_flight_orders (sv_manager sv)"
  "pm_pending_limit_orders (sv_manager (apply_execution c ev sv)) = pm_pending_limit_orders (sv_manager sv)"
  by (simp_all only: apply_execution_manager handle_execution_book)

lemma limit_terms_limit: "clob_limit_terms t = Some z \<Longrightarrow> is_limit t \<and> \<not> is_cancel t"
  by (cases t) simp_all

lemma reconciled_limit:
  assumes "clob_limit_terms (ord_order_type ord) = Some (side, sz, price, tif)" "ex_supports_limit_orders x"
  shows "execute_reconciled_order x now fid ord sv =
    spawn (IntentTask ord fid) (on_manager (\<lambda>s. register_in_flight_order s fid (in_flight_entry now fid ord side sz price)) sv)"
  using assms limit_terms_limit [OF assms(1)]
  by (auto simp: execute_reconciled_order_def spawn_intent_limit_order_def in_flight_entry_def split: order_type.split)

lemma limit_event_ledger:
  "pm_positions (fst (handle_limit_order_event s ev)) = pm_positions s"
  "pm_available_quote (fst (handle_limit_order_event s ev)) = pm_available_quote s"
  by (cases ev; auto simp: add_pending_order_def remove_pending_order_by_id_def remove_in_flight_order_by_level_def
      remove_in_flight_order_def Let_def split: prod.split option.split)+

lemma other_events_in_flight:
  "(\<nexists>oid m market price sz side ts signal ctx. ev = OrderPlaced oid m market price sz side ts signal ctx) \<Longrightarrow>
   pm_in_flight_orders (fst (handle_limit_order_event s ev)) = pm_in_flight_orders s"
  by (cases ev) (auto simp: remove_pending_order_by_id_def Let_def split: prod.split)

lemma in_flight_after_register:
  fixes fid :: string and s :: pm_state
  assumes "fo_mint f = mint"
  defines "s1 \<equiv> register_in_flight_order s fid f" and "F \<equiv> clone_in_flight_orders s mint"
  shows "clone_in_flight_orders s1 mint = hput fid f F"
    and "hget F fid = None \<Longrightarrow> hget (clone_in_flight_orders (fst (remove_in_flight_order s1 mint fid)) mint) = hget F"
    and "pm_positions s1 = pm_positions s" "pm_available_quote s1 = pm_available_quote s"
    and "pm_pending_limit_orders s1 = pm_pending_limit_orders s"
proof -
  have s1: "hget (pm_in_flight_orders s1) mint = Some (hput fid f F)"
    using assms(1) by (simp add: s1_def F_def register_in_flight_order_def add_in_flight_order_def clone_in_flight_orders_def)
  then show "clone_in_flight_orders s1 mint = hput fid f F" by (simp add: clone_in_flight_orders_def)
  show "hget (clone_in_flight_orders (fst (remove_in_flight_order s1 mint fid)) mint) = hget F" if "hget F fid = None"
    using s1 that by (auto simp: remove_in_flight_order_def clone_in_flight_orders_def fun_eq_iff)
  show "pm_positions s1 = pm_positions s" "pm_available_quote s1 = pm_available_quote s"
    "pm_pending_limit_orders s1 = pm_pending_limit_orders s"
    by (simp_all add: s1_def register_in_flight_order_def add_in_flight_order_def)
qed

lemma removed_by_level:
  assumes "hget (pm_in_flight_orders s) mint = Some F" "hget F fid = Some f" "fo_side f = side"
    "in_flight_matches_level f price sz" "hwf F"
  shows "\<exists>k g. hget F k = Some g \<and> fo_side g = side \<and> in_flight_matches_level g price sz
    \<and> clone_in_flight_orders (fst (remove_in_flight_order_by_level s mint side price sz)) mint = hdel k F"
proof -
  let ?P = "\<lambda>(fid, ord). fo_side ord = side \<and> in_flight_matches_level ord price sz"
  have "(fid, f) \<in> set F" using assms(2) by (rule map_of_SomeD)
  then obtain k g where kg: "List.find ?P F = Some (k, g)" using assms(3,4) by (cases "List.find ?P F") (auto simp: find_None_iff)
  then have "(k, g) \<in> set F" "?P (k, g)" by (auto simp: find_Some_iff) (metis nth_mem)
  then have "hget F k = Some g" using assms(5) by simp
  then show ?thesis
    using \<open>?P (k, g)\<close> kg assms(1)
    by (intro exI [of _ k] exI [of _ g]) (simp add: remove_in_flight_order_by_level_def remove_in_flight_order_def clone_in_flight_orders_def)
qed

lemma reconciled_limit_in_flight:
  assumes "clob_limit_terms (ord_order_type ord) = Some (side, sz, price, tif)" "ex_supports_limit_orders x"
  shows "execute_reconciled_order x now fid ord sv = sv\<lparr>sv_tasks := sv_tasks sv @ [IntentTask ord fid],
    sv_manager := register_in_flight_order (sv_manager sv) fid (in_flight_entry now fid ord side sz price)\<rparr>"
  by (simp add: reconciled_limit [OF assms] spawn_def on_manager_def)

text \<open>C4. An order placed for an intent is tracked from before it is sent until the executor has answered,
  with any executor that takes limit orders.  Sending it registers it as in flight and spawns its task and
  leaves positions, cash and pending orders alone.  When the task runs, a refused order is dropped and
  everything is as it was; an answered one stays in flight and its event is queued, unless the executor
  sends its events itself.  What the event does when the loop gets to it: a placement at the order's level
  makes a pending order under the executor's id and takes one in-flight entry at that level away;
  a fill, as of an order that is matched at once, is accounted like any execution but leaves the
  in-flight entry behind; every other answer leaves it too; and only a fill moves positions or cash.\<close>

theorem intent_order_outcomes:
  fixes x :: "('e, 'x) executor" and sv :: "'e server" and c :: server_config
    and ord :: order and t now :: timestamp and fid :: string
  assumes terms: "clob_limit_terms (ord_order_type ord) = Some (side, sz, price, tif)"
    and limits: "ex_supports_limit_orders x"
    and sv: "pm_inv (sv_manager sv)" "hget (clone_in_flight_orders (sv_manager sv) (ord_mint ord)) fid = None"
  defines "m \<equiv> ord_mint ord" and "F \<equiv> clone_in_flight_orders (sv_manager sv) (ord_mint ord)"
  defines "F1 \<equiv> hput fid (in_flight_entry now fid ord side sz price) F"
  defines "sv1 \<equiv> execute_reconciled_order x now fid ord sv"
  defines "sv2 \<equiv> run_task x (IntentTask ord fid) (sv1\<lparr>sv_tasks := sv_tasks sv\<rparr>)"
  shows "sv_tasks sv1 = sv_tasks sv @ [IntentTask ord fid] \<and> clone_in_flight_orders (sv_manager sv1) m = F1
    \<and> pm_positions (sv_manager sv1) = pm_positions (sv_manager sv)
    \<and> pm_available_quote (sv_manager sv1) = pm_available_quote (sv_manager sv)
    \<and> pm_pending_limit_orders (sv_manager sv1) = pm_pending_limit_orders (sv_manager sv)
    \<and> (case fst (ex_limit x ord (sv_exec sv)) of
         Inl e \<Rightarrow> hget (clone_in_flight_orders (sv_manager sv2) m) = hget F
           \<and> pm_positions (sv_manager sv2) = pm_positions (sv_manager sv)
           \<and> pm_available_quote (sv_manager sv2) = pm_available_quote (sv_manager sv)
           \<and> pm_pending_limit_orders (sv_manager sv2) = pm_pending_limit_orders (sv_manager sv)
           \<and> sv_queue sv2 = sv_queue sv
       | Inr ev \<Rightarrow> sv_manager sv2 = sv_manager sv1
           \<and> sv_queue sv2 = sv_queue sv @ (if ex_defers_limit_order_events x then [] else [LimitOrderEv ev])
           \<and> (let s3 = sv_manager (process_event x c t (LimitOrderEv ev) sv2) in
              case ev of
                OrderPlaced oid m' market p q side' ts signal ctx \<Rightarrow>
                  pm_positions s3 = pm_positions (sv_manager sv) \<and> pm_available_quote s3 = pm_available_quote (sv_manager sv)
                  \<and> tracked s3 (m', oid) = Some (pending_new oid m' market side' p q ts signal)
                  \<and> (m' = m \<and> side' = side \<and> in_flight_matches_level (in_flight_entry now fid ord side sz price) p q \<longrightarrow>
                       (\<exists>k f. hget F1 k = Some f \<and> fo_side f = side \<and> in_flight_matches_level f p q
                          \<and> clone_in_flight_orders s3 m = hdel k F1))
              | OrderPartiallyFilled oid m' side' filled remaining p ts signal mode \<Rightarrow>
                  clone_in_flight_orders s3 m = F1
                  \<and> (\<exists>ee. fill_event_to_execution_event ev = Some ee \<and> s3 = fst (handle_execution
                       (fst (handle_limit_order_event (sv_manager sv1) ev)) ee (cfg_exit_strategy (svc_manager c))))
              | _ \<Rightarrow> clone_in_flight_orders s3 m = F1
                  \<and> pm_positions s3 = pm_positions (sv_manager sv) \<and> pm_available_quote s3 = pm_available_quote (sv_manager sv)))"
proof -
  let ?f = "in_flight_entry now fid ord side sz price" and ?s = "sv_manager sv"
  let ?s1 = "register_in_flight_order ?s fid ?f"
  have sv1: "sv1 = sv\<lparr>sv_tasks := sv_tasks sv @ [IntentTask ord fid], sv_manager := ?s1\<rparr>"
    unfolding sv1_def by (rule reconciled_limit_in_flight [OF terms limits])
  have f: "fo_mint ?f = m" "fo_side ?f = side" by (simp_all add: in_flight_entry_def m_def)
  note entry = in_flight_after_register [OF f(1), of ?s fid, folded F_def, unfolded m_def, folded F_def F1_def]
  have none: "hget F fid = None" using sv(2) by (simp add: F_def)
  have wf: "hwf F1"
  proof -
    have "hwf F" using sv(1)
      by (cases "hget (pm_in_flight_orders ?s) (ord_mint ord)")
        (auto simp: F_def clone_in_flight_orders_def pm_inv_def in_flight_ok_def simp del: map_of_eq_Some_iff)
    then show ?thesis by (simp add: F1_def)
  qed
  have first: "sv_tasks sv1 = sv_tasks sv @ [IntentTask ord fid] \<and> clone_in_flight_orders (sv_manager sv1) m = F1
    \<and> pm_positions (sv_manager sv1) = pm_positions ?s \<and> pm_available_quote (sv_manager sv1) = pm_available_quote ?s
    \<and> pm_pending_limit_orders (sv_manager sv1) = pm_pending_limit_orders ?s"
    using entry by (simp add: sv1 m_def F1_def)
  obtain r e where r: "ex_limit x ord (sv_exec sv) = (r, e)" by fastforce
  show ?thesis
  proof (cases r)
    case (Inl err)
    have "sv_manager sv2 = fst (remove_in_flight_order ?s1 m fid)" "sv_queue sv2 = sv_queue sv"
      unfolding sv2_def using r Inl by (simp_all add: sv1 run_intent_limit_def on_manager_def m_def)
    moreover have "pm_positions (fst (remove_in_flight_order ?s1 m fid)) = pm_positions ?s1"
      "pm_available_quote (fst (remove_in_flight_order ?s1 m fid)) = pm_available_quote ?s1"
      "pm_pending_limit_orders (fst (remove_in_flight_order ?s1 m fid)) = pm_pending_limit_orders ?s1"
      by (simp_all add: remove_in_flight_order_def split: option.split)
    ultimately show ?thesis using first entry none r Inl by (simp add: m_def)
  next
    case (Inr ev)
    have sv2: "sv_manager sv2 = ?s1"
      "sv_queue sv2 = sv_queue sv @ (if ex_defers_limit_order_events x then [] else [LimitOrderEv ev])"
      unfolding sv2_def using r Inr by (simp_all add: sv1 run_intent_limit_def offer_limit_def enqueue_def)
    define s' where "s' = fst (handle_limit_order_event ?s1 ev)"
    have s3: "sv_manager (process_event x c t (LimitOrderEv ev) sv2) =
        (case fill_event_to_execution_event ev of None \<Rightarrow> s'
         | Some ee \<Rightarrow> fst (handle_execution s' ee (cfg_exit_strategy (svc_manager c))))"
      by (simp add: handle_limit_event_def Let_def s'_def sv2 apply_execution_manager on_manager_def split: option.split)
    have s': "pm_positions s' = pm_positions ?s" "pm_available_quote s' = pm_available_quote ?s"
      using entry by (simp_all add: s'_def limit_event_ledger)
    have kept: "clone_in_flight_orders s' m = F1"
      if "\<nexists>oid m market price sz side ts signal ctx. ev = OrderPlaced oid m market price sz side ts signal ctx"
      using other_events_in_flight [OF that, of ?s1] entry(1) by (simp add: s'_def clone_in_flight_orders_def m_def F1_def)
    have map: "hget (pm_in_flight_orders ?s1) m = Some F1"
      using f(1) by (simp add: F1_def F_def m_def register_in_flight_order_def add_in_flight_order_def clone_in_flight_orders_def)
    show ?thesis
    proof (cases ev)
      case (OrderPlaced oid m' market p q side' ts signal ctx)
      obtain z where z: "remove_in_flight_order_by_level ?s1 m' side' p q =
          (fst (remove_in_flight_order_by_level ?s1 m' side' p q), z)" by (metis prod.collapse)
      have placed: "s' = add_pending_order (fst (remove_in_flight_order_by_level ?s1 m' side' p q)) m' oid
          (pending_new oid m' market side' p q ts signal)"
        unfolding s'_def OrderPlaced handle_limit_order_event.simps by (subst z) simp
      have "tracked s' (m', oid) = Some (pending_new oid m' market side' p q ts signal)"
        by (simp add: placed tracked_def book_at_def add_pending_order_def)
      moreover have "\<exists>k f. hget F1 k = Some f \<and> fo_side f = side \<and> in_flight_matches_level f p q
          \<and> clone_in_flight_orders s' m = hdel k F1"
        if "m' = m" "side' = side" "in_flight_matches_level ?f p q"
        using removed_by_level [OF map _ f(2) that(3) wf, of fid] that(1,2)
        by (simp add: placed F1_def clone_in_flight_orders_def add_pending_order_def)
      ultimately show ?thesis
        using first r Inr sv2 s' OrderPlaced s3 by (simp add: sv1 fill_event_to_execution_event_def Let_def)
    next
      case (OrderPartiallyFilled oid m' side' filled remaining p ts signal mode)
      obtain ee where ee: "fill_event_to_execution_event ev = Some ee"
        by (simp add: fill_event_to_execution_event_def OrderPartiallyFilled)
      have "clone_in_flight_orders (fst (handle_execution s' ee z)) m = F1" for z
        using kept OrderPartiallyFilled handle_execution_book [of s' ee z] by (simp add: clone_in_flight_orders_def)
      then show ?thesis
        using first r Inr sv2 s3 ee OrderPartiallyFilled unfolding sv1 s'_def by (simp add: Let_def)
    qed (use first r Inr sv2 s' s3 kept in \<open>simp_all add: sv1 fill_event_to_execution_event_def Let_def\<close>)
  qed
qed

lemma placement_terms [simp]:
  "clob_limit_terms (ord_order_type (create_limit_order i l side)) = Some
     (side, (case side of Buy \<Rightarrow> fdiv (fmul (ql_price l) (ql_size l)) (ql_price l) | Sell \<Rightarrow> ql_size l),
      ql_price l, ql_time_in_force l)"
  by (cases side) simp_all

lemma cancel_terms [simp]: "clob_limit_terms (ord_order_type (create_cancel_order i oid)) = None"
  by (simp add: create_cancel_order_def new_cancel_def)

lemma current_in_flight:
  assumes "book_wf pending"
  shows "synthetic_pending fid f \<in> set (hvals (current_orders pending [(fid, f)]))"
  using current_orders_wf [OF assms, of "[(fid, f)]"]
  by (subst hvals_iff) (auto simp: current_orders_def book_wf_def)

definition near :: "in_flight_order \<Rightarrow> quote_level \<Rightarrow> bool" where
  "near f l \<longleftrightarrow> in_flight_matches_level f (ql_price l) (ql_size l)"

definition placements :: "order_side \<Rightarrow> order list \<Rightarrow> order list" where
  "placements side os = filter (\<lambda>ord. map_option fst (clob_limit_terms (ord_order_type ord)) = Some side) os"

text \<open>The entry that is left behind by an order matched at once counts as a live order: with the
  entry in place, no intent places an order near that level on that side again, although nothing is on
  the book.\<close>

theorem matched_order_blocks_level:
  assumes wf: "book_wf (clone_pending_orders s (oi_mint i))"
    and left: "clone_in_flight_orders s (oi_mint i) = [(fid, f)]"
    and want: "(case fo_side f of Buy \<Rightarrow> oi_bids i | Sell \<Rightarrow> oi_asks i) = Some ls" "list_all (near f) ls"
    and run: "reconcile_intent s None i = (s', Inr os)"
  shows "placements (fo_side f) os = []"
proof -
  let ?cur = "current_orders (clone_pending_orders s (oi_mint i)) [(fid, f)]"
  obtain os0 where rec: "compute_reconciliation i ?cur = Inr os0" "set os \<subseteq> set os0"
    using run left retain_affordable_subset [of "pm_available_quote s"]
    by (fastforce simp: reconcile_intent_def clone_pending_orders_def clone_in_flight_orders_def
        apply_intent_debounce_def Let_def split: sum.splits)
  have "synthetic_pending fid f \<in> set (side_of (fo_side f) ?cur)"
    using current_in_flight [OF wf] by (simp add: side_of_def synthetic_pending_def pending_new_def)
  then have "has_matching_order l (side_of (fo_side f) ?cur)" if "near f l" for l
    using that by (auto simp: has_matching_order_def list_ex_iff near_def in_flight_matches_level_def
        matches_level_def synthetic_pending_def pending_new_def intro!: bexI)
  then have none: "missing ?cur (fo_side f) (case fo_side f of Buy \<Rightarrow> oi_bids i | Sell \<Rightarrow> oi_asks i) = []"
    using want by (simp add: missing_def filter_empty_conv list_all_iff)
  have "map_option fst (clob_limit_terms (ord_order_type ord)) \<noteq> Some (fo_side f)" if "ord \<in> set os0" for ord
    using that rec(1) none by (cases "fo_side f") (auto simp: compute_reconciliation_eq split: sum.splits)
  then show ?thesis using rec(2) by (auto simp: placements_def filter_empty_conv)
qed


section \<open>The sell mark guards the exits\<close>

text \<open>The tasks that sell a position of the mint to close it: exits at the market, limit exits, and the
  replacement that a signal sends for an order.  The orders of intents are quotes, not exits.\<close>

definition exits :: "string \<Rightarrow> 'e server \<Rightarrow> nat" where
  "exits mint sv = length (filter (\<lambda>t. case t of MarketTask ord h \<Rightarrow> h \<and> ord_mint ord = mint
     | LimitTask ord \<Rightarrow> ord_mint ord = mint | ModifyTask oid ord \<Rightarrow> ord_mint ord = mint | _ \<Rightarrow> False) (sv_tasks sv))"

definition guarded :: "string \<Rightarrow> 'e server \<Rightarrow> 'e server \<Rightarrow> bool" where
  "guarded mint sv sv' \<longleftrightarrow> exits mint sv' \<le> exits mint sv
     \<or> mint \<notin> pm_pending_sells (sv_manager sv) \<and> mint \<in> pm_pending_sells (sv_manager sv')
       \<and> exits mint sv' = Suc (exits mint sv)"

definition guarded_mono :: "string \<Rightarrow> 'e server \<Rightarrow> 'e server \<Rightarrow> bool" where
  "guarded_mono mint sv sv' \<longleftrightarrow> guarded mint sv sv'
     \<and> pm_pending_sells (sv_manager sv) \<subseteq> pm_pending_sells (sv_manager sv')"

lemma guarded_same: "sv_tasks sv' = sv_tasks sv \<Longrightarrow> guarded mint sv sv'"
  by (simp add: guarded_def exits_def)

lemma guarded_mono_trans: "guarded_mono m sv sv' \<Longrightarrow> guarded_mono m sv' sv'' \<Longrightarrow> guarded_mono m sv sv''"
  by (auto simp: guarded_mono_def guarded_def)

lemma exits_spawn [simp]:
  "exits m (spawn (MarketTask ord h) sv) = (if h \<and> ord_mint ord = m then 1 else 0) + exits m sv"
  "exits m (spawn (LimitTask ord) sv) = (if ord_mint ord = m then 1 else 0) + exits m sv"
  "exits m (spawn (IntentTask ord fid) sv) = exits m sv"
  "exits m (spawn (CancelTask oid mm cl) sv) = exits m sv"
  "exits m (spawn (ModifyTask oid ord) sv) = (if ord_mint ord = m then 1 else 0) + exits m sv"
  "exits m (sv\<lparr>sv_manager := s\<rparr>) = exits m sv" "exits m (enqueue ev sv) = exits m sv"
  "exits m (on_manager g sv) = exits m sv" "exits m (sv\<lparr>sv_exec := e\<rparr>) = exits m sv"
  "exits m (offer_limit x lev sv) = exits m sv" "exits m (offer_cancel x lev sv) = exits m sv"
  "exits m (sv\<lparr>sv_queue := evs\<rparr>) = exits m sv"
  by (simp_all add: exits_def spawn_def enqueue_def on_manager_def offer_limit_def offer_cancel_def)

lemma exits_fold: "(\<And>sv y. exits m (f sv y) = exits m sv) \<Longrightarrow> exits m (foldl f sv ys) = exits m sv"
  by (induction ys arbitrary: sv) simp_all

lemma spawn_manager_marks [simp]: "sv_manager (spawn t sv) = sv_manager sv"
  by (simp add: spawn_def)

lemma mark_then_spawn:
  assumes "try_mark_pending_sell (sv_manager sv) mint = (s, True)"
    "t = MarketTask ord True \<or> t = LimitTask ord" "ord_mint ord = mint"
  shows "guarded_mono m sv (spawn t (sv\<lparr>sv_manager := s\<rparr>))"
  using assms by (auto simp: guarded_mono_def guarded_def try_mark_pending_sell_def split: if_splits)

lemma exits_run_task [simp]: "exits m (run_task x t sv) = exits m sv"
  by (cases t) (auto simp: run_market_def run_limit_def run_intent_limit_def run_cancel_def run_modify_def
      Let_def split: prod.split sum.split option.split)

lemma exits_redemptions [simp]: "exits m (process_redemption_actions x now sv) = exits m sv"
  by (auto simp: process_redemption_actions_def handle_redemption_action_def
      intro: exits_fold split: prod.split sum.split)

lemma exits_execution [simp]: "exits m (apply_execution c ev sv) = exits m sv"
  by (simp add: apply_execution_def split: prod.split sum.split)

lemma exits_reconciled [simp]: "exits m (execute_reconciled_order x now fid ord sv) = exits m sv"
  by (auto simp: execute_reconciled_order_def run_cancel_def spawn_intent_limit_order_def Let_def
      split: order_type.split prod.split sum.split option.split)

lemma guarded_event: "guarded m sv (process_event x c now ev sv)"
proof (cases ev)
  case (PositionEv pe)
  have "guarded m sv (handle_position_updated c now p sv)" for p
    using mark_then_spawn [of sv "pos_mint p" _ _ "exit_order p" m]
    by (auto simp: handle_position_updated_def exit_order_def guarded_mono_def guarded_same split: prod.split)
  then show ?thesis using PositionEv by (cases pe) (simp_all add: guarded_same)
next
  case (ExecutionEv ee)
  then show ?thesis by (cases ee) (simp_all add: handle_execution_event_def guarded_def)
next
  case (LimitOrderEv lev)
  then show ?thesis by (simp add: handle_limit_event_def guarded_def Let_def split: option.split)
next
  case (RedemptionEv rv)
  then show ?thesis
    by (auto simp: handle_redemption_event_def guarded_def exits_fold split: prod.split sum.split)
qed

lemma guarded_timer: "guarded m sv (handle_timer_event c now sv)"
proof -
  have one: "guarded_mono m sv (timer_order c sv ord)" if "is_sell (ord_order_type ord)" for sv :: "'a server" and ord
    using that mark_then_spawn [of sv "ord_mint ord" _ _ ord m]
    by (auto simp: timer_order_def guarded_mono_def guarded_same try_mark_pending_sell_def split: prod.split option.split)
  have all: "guarded_mono m sv (foldl (timer_order c) sv os)" if "list_all (\<lambda>ord. is_sell (ord_order_type ord)) os"
    for sv :: "'a server" and os
    using that
  proof (induction os arbitrary: sv)
    case (Cons ord os)
    then have "guarded_mono m (timer_order c sv ord) (foldl (timer_order c) (timer_order c sv ord) os)" by simp
    with Cons.prems show ?case by (auto intro: guarded_mono_trans one)
  qed (simp add: guarded_mono_def guarded_same)
  have "list_all (\<lambda>ord. is_sell (ord_order_type ord)) os" if "handle_timer s xs t = Inr os" for s xs t os
    using that by (auto simp: handle_timer_def build_exit_orders_def build_exit_order_def list_all_iff)
  then show ?thesis using all by (auto simp: handle_timer_event_def guarded_mono_def guarded_same split: sum.split)
qed

text \<open>A signal that replaces an order of a position.\<close>

definition replaces :: "string \<Rightarrow> trade_signal \<Rightarrow> pm_state \<Rightarrow> bool" where
  "replaces mint sg s \<longleftrightarrow> ts_passes_filter sg \<and> \<not> ts_is_intent sg \<and> ts_action sg = ModifyOrder
     \<and> ts_references_position sg = Some mint \<and> ts_references_order_id sg \<noteq> None \<and> ts_limit_price sg \<noteq> None
     \<and> hget (pm_positions s) mint \<noteq> None"

lemma modify_exits:
  "exits m (handle_modify_order_signal now sg sv) = exits m sv
     + (if ts_references_position sg = Some m \<and> ts_references_order_id sg \<noteq> None \<and> ts_limit_price sg \<noteq> None
           \<and> hget (pm_positions (sv_manager sv)) m \<noteq> None then 1 else 0)"
  "sv_manager (handle_modify_order_signal now sg sv) = sv_manager sv"
  by (auto simp: handle_modify_order_signal_def new_limit_sell_def split: option.split)

lemma replaced_without_mark:
  assumes "replaces mint sg (sv_manager sv)"
  shows "exits mint (process_single_signal x c now uuid sg sv) = Suc (exits mint sv)"
    and "pm_pending_sells (sv_manager (process_single_signal x c now uuid sg sv)) = pm_pending_sells (sv_manager sv)"
  using assms by (auto simp: replaces_def process_single_signal_def handle_trade_signal_def Let_def modify_exits)

lemma guarded_signal: "guarded m sv (process_single_signal x c now uuid sg sv) \<or> replaces m sg (sv_manager sv)"
proof -
  have exit: "guarded m sv (handle_exit_signal x now sg sv)" for sv :: "'a server"
    using mark_then_spawn [of sv _ _ _ _ m]
    by (auto simp: handle_exit_signal_def signal_exit_order_def new_limit_sell_def Let_def guarded_mono_def guarded_same
        split: option.split prod.split)
  have entry: "exits m (fst (handle_entry_signal c sg sv)) = exits m sv" for sv :: "'a server"
    by (auto simp: handle_entry_signal_def Let_def split: option.split prod.split sum.split position_error.split)
  have intent: "exits m (fst (handle_intent_signal x c now uuid sg sv)) = exits m sv" for sv :: "'a server"
    by (auto simp: handle_intent_signal_def Let_def exits_fold split: option.split prod.split sum.split)
  show ?thesis
    using exit [of "sv\<lparr>sv_exec := ex_signal x sg (sv_exec sv)\<rparr>"]
    by (auto simp: process_single_signal_def handle_trade_signal_def modify_exits replaces_def
        handle_cancel_order_signal_def guarded_def Let_def entry intent split: signal_action.split option.split)
qed

text \<open>C6. Exits of a mint are guarded by its sell mark, with one exception: one step of the server
  starts no sale of the mint's position, or exactly one, by a caller for which the mark was free and
  which has taken it, or exactly one that replaces an order because a signal modifies it.  The
  replacement sells the whole position and neither needs nor takes the mark.\<close>

theorem exits_need_the_mark:
  assumes "server_step x c sv sv'"
  shows "exits mint sv' \<le> exits mint sv
     \<or> mint \<notin> pm_pending_sells (sv_manager sv) \<and> mint \<in> pm_pending_sells (sv_manager sv')
       \<and> exits mint sv' = Suc (exits mint sv)
     \<or> (\<exists>now uuid sg. sv' = process_single_signal x c now uuid sg sv \<and> replaces mint sg (sv_manager sv)
       \<and> exits mint sv' = Suc (exits mint sv) \<and> pm_pending_sells (sv_manager sv') = pm_pending_sells (sv_manager sv))"
proof -
  have "guarded mint sv sv' \<or> (\<exists>now uuid sg. sv' = process_single_signal x c now uuid sg sv \<and> replaces mint sg (sv_manager sv))"
    using assms
  proof (cases rule: server_step.cases)
    case (event ev rest now)
    then show ?thesis using guarded_event [of mint "sv\<lparr>sv_queue := rest\<rparr>" x c now ev] by (simp add: guarded_def)
  next
    case (task ts t us)
    have "exits mint (sv\<lparr>sv_tasks := ts @ us\<rparr>) \<le> exits mint sv" using task(2) by (simp add: exits_def)
    then show ?thesis using task(1) by (simp add: guarded_def)
  next
    case (price m p ts)
    then show ?thesis by (simp add: handle_update_price_def guarded_def split: prod.split sum.split)
  next
    case (outside e evs)
    then show ?thesis by (simp add: guarded_same)
  next
    case (signal now uuid sg)
    then show ?thesis using guarded_signal [of mint sv x c now uuid sg] by blast
  qed (simp_all add: guarded_timer)
  then show ?thesis using replaced_without_mark unfolding guarded_def by blast
qed

text \<open>So a position can be on sale twice: after a replacement, with the sell mark still free, an update whose
  exit condition holds starts a second sale of the whole position.\<close>

lemma replaced_and_sold:
  fixes c :: server_config and sg :: trade_signal
  assumes r: "replaces mint sg (sv_manager sv)" and free: "mint \<notin> pm_pending_sells (sv_manager sv)"
    and p: "pos_mint p = mint" "should_exit (svc_exit_strategy c) p t" "\<not> fle (pos_amount p) f0"
      "pos_sell_failure_count p < svc_max_sell_failures c"
  shows "exits mint (handle_position_updated c t p (process_single_signal x c now uuid sg sv)) = exits mint sv + 2"
  using replaced_without_mark [OF r, of x c now uuid] free p
  by (auto simp: handle_position_updated_def try_mark_pending_sell_def exit_order_def not_le split: prod.split)


section \<open>A concrete server\<close>

definition demo_server_config :: server_config where
  "demo_server_config =
     \<lparr>svc_manager = \<lparr>cfg_trade_amount = grid 1, cfg_max_holding_period = 0, cfg_max_open_positions = 1,
        cfg_exit_strategy = NoopExit, cfg_min_quote_lifetime_ms = None\<rparr>,
      svc_exit_strategy = ConfigurableExit \<lparr>xc_take_profit_threshold = grid 1, xc_stop_loss_threshold = grid 1,
        xc_max_holding_period = 0, xc_max_sell_failures = 2\<rparr>,
      svc_max_sell_failures = 2\<rparr>"

abbreviation demo_x :: "(nat clob_state, exec_error) executor" where
  "demo_x \<equiv> clob_executor demo_clob demo_live (\<lambda>e. [])"

definition demo_server :: "pm_state \<Rightarrow> nat clob_state server" where
  "demo_server s = \<lparr>sv_manager = s, sv_exec = demo_executor, sv_queue = [], sv_tasks = []\<rparr>"

definition demo_signal :: "string \<Rightarrow> trade_signal" where
  "demo_signal mint =
     \<lparr>sg_mint = Some mint, sg_price = Some (grid 1), sg_timestamp = Some 0, sg_slot = None,
      sg_signal_id = [], sg_context = None, ts_action = Entry, ts_references_position = None,
      ts_references_order_id = None, ts_is_limit_order = False, ts_limit_price = None,
      ts_time_in_force = None, ts_market = None, ts_is_intent = False, ts_intent = None,
      ts_passes_filter = True\<rparr>"

lemma demo_signal_simps [simp]: "sg_mint (demo_signal mint) = Some mint" "sg_price (demo_signal mint) = Some (grid 1)"
  "sg_timestamp (demo_signal mint) = Some 0"
  by (simp_all add: demo_signal_def)

theorem refused_entry_blocks_mint_witness:
  "handle_entry_signal demo_server_config (demo_signal ''M'')
     (fst (handle_entry_signal demo_server_config (demo_signal ''M'') (demo_server (pm_new (grid 0))))) =
   (fst (handle_entry_signal demo_server_config (demo_signal ''M'') (demo_server (pm_new (grid 0)))), Inr ())"
  by (rule refused_entry_blocks_mint [OF _ prod.collapse [symmetric] rtranclp.rtrancl_refl]) simp_all

theorem entries_ignore_pending_orders_witness:
  "length (sv_tasks (entry_signals demo_server_config [demo_signal ''A'', demo_signal ''B''] (demo_server (pm_new (grid 1))))) = 2"
proof -
  have "\<exists>os. sv_tasks (entry_signals demo_server_config [demo_signal ''A'', demo_signal ''B''] (demo_server (pm_new (grid 1)))) =
      map (\<lambda>ord. MarketTask ord False) os \<and> map (\<lambda>ord. Some (ord_mint ord)) os = [Some ''A'', Some ''B'']"
    using entries_ignore_pending_orders [of "demo_server (pm_new (grid 1))" demo_server_config "[demo_signal ''A'', demo_signal ''B'']"]
    by (auto simp: demo_server_def demo_server_config_def pm_new_def opens_def)
  then show ?thesis by (auto dest: arg_cong [of _ _ length])
qed

definition demo_held :: position where
  "demo_held = fst (get_or_create_position (pm_new (grid 0)) ''M'' None 0 None None None None)\<lparr>pos_amount := grid 8\<rparr>"

definition demo_holding :: pm_state where
  "demo_holding = (pm_new (grid 0))\<lparr>pm_positions := [(''M'', demo_held)]\<rparr>"

lemma demo_held_simps [simp]: "pos_mint demo_held = ''M''" "pos_amount demo_held = grid 8"
  "pos_sell_failure_count demo_held = 0" "pos_entry_time demo_held = 0"
  by (simp_all add: demo_held_def get_or_create_position_def pm_new_def)

lemma demo_holding_simps [simp]: "pm_positions demo_holding = [(''M'', demo_held)]" "pm_pending_sells demo_holding = {}"
  by (simp_all add: demo_holding_def pm_new_def)

theorem clob_exit_gives_up_witness:
  "\<not> list_ex (exit_of ''M'') (sv_tasks (handle_timer_event demo_server_config 6
     (foldl (trigger demo_x demo_server_config ''M'')
       (foldl (exit_round demo_x demo_server_config ''M'') (demo_server demo_holding) [1, 2, 3]) [TimerAt 4, UpdateAt 5])))"
proof -
  have exits: "list_all (should_exit (svc_exit_strategy demo_server_config) demo_held) [1, 2, 3]"
    by (simp add: demo_server_config_def configurable_should_exit_def)
  have start: "hget (pm_positions (sv_manager (demo_server demo_holding))) ''M'' = Some demo_held"
    "sv_tasks (demo_server demo_holding) = []" "''M'' \<notin> pm_pending_sells (sv_manager (demo_server demo_holding))"
    by (simp_all add: demo_server_def)
  have "unat (svc_max_sell_failures demo_server_config) \<le> length [1, 2, 3 :: timestamp]"
    by (simp add: demo_server_config_def)
  moreover have "\<not> fle (pos_amount demo_held) f0" by (simp add: f0_grid)
  ultimately show ?thesis
    using clob_exit_gives_up [OF start(1) demo_held_simps(1,3) _ start(2,3) exits, THEN conjunct2, THEN mp]
    unfolding Let_def by blast
qed

definition demo_rejecting :: "(nat clob_state, exec_error) executor" where
  "demo_rejecting = demo_x\<lparr>ex_market := (\<lambda>ord e. (Inr (ExecOrderRejected (ord_mint ord) []), e))\<rparr>"

definition demo_marked :: pm_state where
  "demo_marked = demo_holding\<lparr>pm_pending_sells := {''M''}\<rparr>"

definition demo_rejected :: "nat clob_state server" where
  "demo_rejected =
     (let sv = run_task demo_rejecting (MarketTask (exit_order demo_held) True) (demo_server demo_marked)
      in process_event demo_rejecting demo_server_config 0 (hd (sv_queue sv)) (sv\<lparr>sv_queue := []\<rparr>))"

theorem rejected_exit_stays_marked_witness:
  "handle_position_updated demo_server_config 1 demo_held demo_rejected = demo_rejected"
proof -
  have sv: "''M'' \<in> pm_pending_sells (sv_manager (demo_server demo_marked))" "ord_mint (exit_order demo_held) = ''M''"
    "sv_queue (demo_server demo_marked) = []" "sv_exec (demo_server demo_marked) = demo_executor"
    by (simp_all add: demo_server_def demo_marked_def exit_order_def)
  have x: "ex_market demo_rejecting (exit_order demo_held) (sv_exec (demo_server demo_marked)) =
      (Inr (ExecOrderRejected ''M'' []), demo_executor)"
    by (simp add: demo_rejecting_def sv)
  have "demo_held\<lparr>pos_mint := ''M''\<rparr> = demo_held" by (simp add: demo_held_def get_or_create_position_def pm_new_def)
  then show ?thesis
    using rejected_exit_stays_marked [OF sv(1,2) x sv(3), THEN conjunct2, THEN conjunct1, of demo_server_config 1 demo_held 0]
    by (simp only: demo_rejected_def Let_def)
qed

lemma grid_finite [simp]: "is_finite (grid n)"
  by (simp add: grid_def)

definition demo_matching :: "(nat, order_args) clob" where
  "demo_matching = demo_clob\<lparr>post_order := (\<lambda>w a ot. (Inr \<lparr>pr_order_id = Some ''o'',
     pr_status = Some ''matched'', pr_matched_price = None\<rparr>, Suc w))\<rparr>"

lemma demo_matched:
  "limit_attempts demo_matching a ot [1..<Suc order_retries] None (ce_world (sv_exec (demo_server s))) = (Inr (''o'', True), 1)"
proof -
  have "[1..<Suc order_retries] = [1, 2, 3]" by (simp add: order_retries_def upt_rec)
  then show ?thesis
    by (simp add: sign_and_post_def demo_matching_def demo_clob_def demo_server_def demo_executor_def)
qed

abbreviation demo_instant :: "(nat clob_state, exec_error) executor" where
  "demo_instant \<equiv> clob_executor demo_matching demo_live (\<lambda>e. [])"

definition demo_after_match :: "nat clob_state server" where
  "demo_after_match = process_event demo_instant demo_server_config 2
     (LimitOrderEv (OrderPartiallyFilled ''o'' ''mint'' Sell (grid 8) f0 (grid 1) 1 None None))
     (run_task demo_instant (IntentTask demo_sell ''F'')
       ((execute_reconciled_order demo_instant 1 ''F'' demo_sell (demo_server demo_holding))\<lparr>sv_tasks := []\<rparr>))"

theorem intent_order_outcomes_witness:
  "clone_in_flight_orders (sv_manager demo_after_match) ''mint'' =
     [(''F'', in_flight_entry 1 ''F'' demo_sell Sell (grid 8) (grid 1))]"
proof -
  have terms: "clob_limit_terms (ord_order_type demo_sell) = Some (Sell, grid 8, grid 1, GoodTilCancelled)"
    and mint: "ord_mint demo_sell = ''mint''" "ord_signal_id demo_sell = None"
    by (simp_all add: demo_sell_def new_limit_sell_def)
  have limits: "ex_supports_limit_orders demo_instant" by (simp add: clob_executor_def)
  have inv: "pm_inv (sv_manager (demo_server demo_holding))"
    by (simp add: demo_server_def demo_holding_def pm_new_def pm_inv_def positions_ok_def books_ok_def in_flight_ok_def
        policies_ok_def lanes_ok_def)
  have none: "clone_in_flight_orders (sv_manager (demo_server demo_holding)) ''mint'' = []"
    "sv_tasks (demo_server demo_holding) = []"
    by (simp_all add: demo_server_def clone_in_flight_orders_def demo_holding_def pm_new_def)
  have "clob_now demo_matching 1 = 1" "\<not> pmc_dry_run demo_live" by (simp_all add: demo_matching_def demo_clob_def demo_live_def)
  then have ans: "fst (ex_limit demo_instant demo_sell (sv_exec (demo_server demo_holding))) =
      Inr (OrderPartiallyFilled ''o'' ''mint'' Sell (grid 8) f0 (grid 1) 1 None None)"
    using demo_matched [of _ _ demo_holding] by (simp add: clob_executor_def clob_limit_order_def terms mint Let_def)
  show ?thesis
    using intent_order_outcomes [OF terms limits inv, of "''F''" 1 demo_server_config 2]
    by (simp add: ans mint none hput_def demo_after_match_def Let_def del: process_event.simps run_task.simps)
qed

definition demo_left :: pm_state where
  "demo_left = (pm_new f0)\<lparr>pm_in_flight_orders := [(''mint'', [(''F'', in_flight_entry 1 ''F'' demo_sell Sell (grid 8) (grid 1))])]\<rparr>"

definition demo_again :: order_intent where
  "demo_again = intent_new ''mint'' None None (Some [level_gtc (grid 1) (grid 8)]) [] 3 None"

theorem matched_order_blocks_level_witness:
  "\<exists>os. snd (reconcile_intent demo_left None demo_again) = Inr os \<and> placements Sell os = []"
proof -
  let ?f = "in_flight_entry 1 ''F'' demo_sell Sell (grid 8) (grid 1)"
  have i: "oi_mint demo_again = ''mint''" "oi_asks demo_again = Some [level_gtc (grid 1) (grid 8)]"
    by (simp_all add: demo_again_def intent_new_def)
  have f: "fo_side ?f = Sell" by (simp add: in_flight_entry_def)
  have n: "list_all (near ?f) [level_gtc (grid 1) (grid 8)]"
    by (simp add: near_def in_flight_matches_level_def in_flight_entry_def level_gtc_def close_to_refl)
  have "validate_intent demo_again = Inr ()"
    by (simp add: validate_intent_def demo_again_def intent_new_def level_gtc_def f0_grid)
  then obtain s' os where run: "reconcile_intent demo_left None demo_again = (s', Inr os)"
    by (auto simp: reconcile_intent_def apply_intent_debounce_def compute_reconciliation_def Let_def)
  have "book_wf (clone_pending_orders demo_left (oi_mint demo_again))"
    by (simp add: clone_pending_orders_def demo_left_def pm_new_def book_wf_def)
  moreover have "clone_in_flight_orders demo_left (oi_mint demo_again) = [(''F'', ?f)]"
    by (simp add: clone_in_flight_orders_def demo_left_def i)
  ultimately show ?thesis
    using matched_order_blocks_level [OF _ _ _ n run, of "''F''"] run by (simp add: i f)
qed

theorem exits_need_the_mark_witness:
  "exits ''M'' (process_event demo_x demo_server_config 1 (PositionEv (PositionUpdated demo_held ManualSource (grid 0)))
     (demo_server demo_holding)) \<le> 1"
proof -
  let ?ev = "PositionEv (PositionUpdated demo_held ManualSource (grid 0))"
  let ?sv = "demo_server demo_holding\<lparr>sv_queue := [?ev]\<rparr>"
  have "server_step demo_x demo_server_config ?sv (process_event demo_x demo_server_config 1 ?ev (?sv\<lparr>sv_queue := []\<rparr>))"
    by (rule server_step.event) simp
  from exits_need_the_mark [OF this, of "''M''"] show ?thesis
    by (auto simp: demo_server_def exits_def)
qed


text \<open>In a dry run a cancel is acknowledged, its event is left to the poller, and the poller knows no
  order: the order stays pending and every later intent cancels it again.\<close>

lemma dry_run_cancel_is_lost:
  "pmc_dry_run pc \<Longrightarrow> run_cancel (clob_executor x pc sh) oid None False sv = sv"
  by (simp add: run_cancel_def clob_executor_def clob_cancel_order_def offer_cancel_def)

end
