(* ===== verification/Ledger.thy ===== *)
theory Ledger
  imports Trade_Handlers
begin

text \<open>
  What the events of the server mean for cash and holdings, as a ledger kept beside the program: the
  available quote, and for every mint held the amount and the entry price.  Fills and completed redemptions
  are booked, every other event leaves the ledger alone.  The lemmas show that the position manager books
  its events in this way and that the handlers and tasks of the server move neither cash nor holdings
  otherwise.
\<close>

section \<open>The ledger\<close>

type_synonym holding = "f64 \<times> f64 option"

record ledger =
  lg_cash :: f64
  lg_holdings :: "string \<Rightarrow> holding option"

definition ledger_of :: "pm_state \<Rightarrow> ledger" where
  "ledger_of s = \<lparr>lg_cash = pm_available_quote s,
     lg_holdings = (\<lambda>m. map_option (\<lambda>p. (pos_amount p, pos_entry_price p)) (hget (pm_positions s) m))\<rparr>"

definition without_dust :: "holding \<Rightarrow> holding option" where
  "without_dust h = (if flt (fabs (fst h)) position_dust_threshold then None else Some h)"

text \<open>Tokens bought are averaged into the entry price, if both prices are known; a clearing sale leaves
  nothing, any other change is added to the amount; what is left as dust is no holding.\<close>

definition fill_holding :: "order_filled \<Rightarrow> holding option \<Rightarrow> holding option" where
  "fill_holding f h =
     (let (amount, entry) = unwrap_or h (f0, Some f0); change = of_token_amount_change f
      in without_dust
        (if flt f0 change then
           (case (of_price f, entry) of
              (Some price, Some e) \<Rightarrow>
                (fadd amount change, Some (fdiv (fadd (fmul amount e) (fmul change price)) (fadd amount change)))
            | _ \<Rightarrow> (amount, entry))
         else (if of_clear_position f then f0 else fadd amount change, entry)))"

definition settle_fill :: "order_filled \<Rightarrow> ledger \<Rightarrow> ledger" where
  "settle_fill f l =
     (if of_force_position_clear f then l\<lparr>lg_holdings := (lg_holdings l)(of_mint f := None)\<rparr>
      else l\<lparr>lg_cash := (if flt f0 (of_token_amount_change f) then fsub (lg_cash l) (fill_cash f)
                          else fadd (lg_cash l) (fill_cash f)),
             lg_holdings := (lg_holdings l)(of_mint f := fill_holding f (lg_holdings l (of_mint f)))\<rparr>)"

definition redeem_holding :: "f64 \<Rightarrow> holding option \<Rightarrow> holding option" where
  "redeem_holding q h = (case h of None \<Rightarrow> None | Some (amount, entry) \<Rightarrow> without_dust (fsub amount q, entry))"

definition settle_redemption :: "redemption_completed \<Rightarrow> ledger \<Rightarrow> ledger" where
  "settle_redemption r l =
     (let up = (lg_holdings l)(rc_up_asset_id r := redeem_holding (rc_quantity r) (lg_holdings l (rc_up_asset_id r)))
      in l\<lparr>lg_cash := fadd (lg_cash l) (rc_quote_received r),
           lg_holdings := up(rc_down_asset_id r := redeem_holding (rc_quantity r) (up (rc_down_asset_id r)))\<rparr>)"

text \<open>The event of a fill of a limit order is booked as the execution event that is made of it.\<close>

fun settle :: "ledger \<Rightarrow> system_event \<Rightarrow> ledger" where
  "settle l (ExecutionEv (ExecOrderFilled f)) = settle_fill f l"
| "settle l (ExecutionEv (ExecOrderRejected mint reason)) = l"
| "settle l (LimitOrderEv ev) =
     (case fill_event_to_execution_event ev of Some (ExecOrderFilled f) \<Rightarrow> settle_fill f l | _ \<Rightarrow> l)"
| "settle l (RedemptionEv (RedemptionCompleted r)) = settle_redemption r l"
| "settle l (RedemptionEv (RedemptionFailed market reason ts)) = l"
| "settle l (PositionEv ev) = l"

section \<open>The manager books fills and redemptions\<close>

lemma ledger_cong:
  "pm_available_quote s' = pm_available_quote s \<Longrightarrow> pm_positions s' = pm_positions s \<Longrightarrow> ledger_of s' = ledger_of s"
  by (simp add: ledger_of_def)

lemma filled_holding:
  "map_option (\<lambda>p. (pos_amount p, pos_entry_price p))
     (if is_dust (fst (filled_position s f)) then None else Some (fst (filled_position s f))) =
   fill_holding f (map_option (\<lambda>p. (pos_amount p, pos_entry_price p)) (hget (pm_positions s) (of_mint f)))"
  by (auto simp: filled_position_def get_or_create_position_def update_position_for_buy_def update_position_for_sell_def
      fill_holding_def without_dust_def is_dust_def Let_def split: option.splits)

lemma ledger_fill: "ledger_of (fst (handle_execution s (ExecOrderFilled f) x)) = settle_fill f (ledger_of s)"
proof (cases "of_force_position_clear f")
  case True
  then show ?thesis by (auto simp: ledger_of_def settle_fill_def fun_eq_iff split: option.split)
next
  case False
  obtain s' ev where h: "handle_order_filled s f x = (s', ev)" by fastforce
  obtain p n where p: "filled_position s f = (p, n)" by fastforce
  have "pm_positions s' = (if is_dust p then hdel (of_mint f) (pm_positions s) else hput (of_mint f) p (pm_positions s))"
    using handle_order_filled_closed(1) [OF p _ h] handle_order_filled_kept(1) [OF p _ h] by simp
  then have "lg_holdings (ledger_of s') = (lg_holdings (ledger_of s))(of_mint f := fill_holding f (lg_holdings (ledger_of s) (of_mint f)))"
    using filled_holding [of s f] p by (auto simp: ledger_of_def fun_eq_iff)
  moreover have "pm_available_quote s' = (if flt f0 (of_token_amount_change f)
      then fsub (pm_available_quote s) (fill_cash f) else fadd (pm_available_quote s) (fill_cash f))"
    using handle_order_filled_cash(1) [OF h] by (simp add: update_quote_balance_def fill_cash_def Let_def)
  ultimately show ?thesis
    using False h by (simp add: settle_fill_def ledger_of_def)
qed

lemma ledger_execution:
  "ledger_of (fst (handle_execution s ev x)) = settle (ledger_of s) (ExecutionEv ev)"
  by (cases ev) (simp_all only: ledger_fill settle.simps, simp add: ledger_of_def)

lemma ledger_leg:
  "lg_holdings (ledger_of (fst (redeem_leg s asset q ts evs))) =
     (lg_holdings (ledger_of s))(asset := redeem_holding q (lg_holdings (ledger_of s) asset))"
  by (auto simp: ledger_of_def redeem_leg_positions leg_left_def redeemed_def redeem_holding_def without_dust_def
      is_dust_def Let_def fun_eq_iff split: option.split)

lemma ledger_redemption: "ledger_of (fst (handle_redemption s ev)) = settle (ledger_of s) (RedemptionEv ev)"
proof (cases ev)
  case (RedemptionCompleted r)
  let ?s = "s\<lparr>pm_available_quote := fadd (pm_available_quote s) (rc_quote_received r),
            pm_total_quote_received := fadd (pm_total_quote_received s) (rc_quote_received r)\<rparr>"
  have "lg_holdings (ledger_of ?s) = lg_holdings (ledger_of s)" by (simp add: ledger_of_def)
  then have "lg_holdings (ledger_of (fst (handle_redemption s ev))) = lg_holdings (settle (ledger_of s) (RedemptionEv ev))"
    unfolding RedemptionCompleted handle_redemption_fst ledger_leg
    by (simp add: settle_redemption_def Let_def)
  moreover have "lg_cash (ledger_of (fst (handle_redemption s ev))) = lg_cash (settle (ledger_of s) (RedemptionEv ev))"
    unfolding RedemptionCompleted handle_redemption_fst by (simp add: ledger_of_def settle_redemption_def Let_def)
  ultimately show ?thesis by (intro ledger.equality) simp_all
qed simp

section \<open>Nothing else moves the ledger\<close>

named_theorems ledger_kept

lemma edit_ledger:
  assumes "\<And>p. pos_amount (f p) = pos_amount p \<and> pos_entry_price (f p) = pos_entry_price p"
  shows "ledger_of (fst (edit_position s mint f)) = ledger_of s"
  using assms by (auto simp: edit_position_def ledger_of_def fun_eq_iff split: option.split)

lemma manager_ledger [ledger_kept]:
  "ledger_of (fst (try_mark_pending_sell s m)) = ledger_of s"
  "ledger_of (fst (try_mark_for_buying s m)) = ledger_of s"
  "ledger_of (release_sell m s) = ledger_of s" "ledger_of (sell_failed m s) = ledger_of s"
  "ledger_of (fst (remove_in_flight_order s m fid)) = ledger_of s"
  "ledger_of (register_in_flight_order s fid g) = ledger_of s"
  "ledger_of (update_redemption_policy s p) = ledger_of s"
  "ledger_of (fst (handle_limit_order_event s ev)) = ledger_of s"
proof -
  show "ledger_of (sell_failed m s) = ledger_of s"
    unfolding sell_failed_def increment_sell_failure_count_def
    by (subst edit_ledger) (simp_all add: release_pending_sell_def ledger_of_def)
  show "ledger_of (fst (handle_limit_order_event s ev)) = ledger_of s"
    by (rule ledger_cong) (simp_all add: limit_event_ledger)
qed (auto simp: try_mark_pending_sell_def try_mark_for_buying_def release_sell_def release_pending_sell_def
    remove_in_flight_order_def register_in_flight_order_def add_in_flight_order_def update_redemption_policy_def
    set_redemption_policy_def ledger_of_def split: option.split)

lemma price_ledger [ledger_kept]: "ledger_of (fst (update_price s m p t)) = ledger_of s"
  using edit_ledger [of "reprice p t" s m]
  by (cases "edit_position s m (reprice p t)") (auto simp: update_price_def reprice_def Let_def split: sum.split)

lemma debounced_ledger: "ledger_of (fst (debounce_side i side desired pending current s ms)) = ledger_of s"
  by (rule ledger_cong) (auto simp: debounce_side_def set_lane_def Let_def split: option.split prod.split)

lemma intent_ledger [ledger_kept]: "ledger_of (fst (reconcile_intent s ms i)) = ledger_of s"
proof -
  have "ledger_of (fst (apply_intent_debounce i pending current s ms)) = ledger_of s" for pending current
    using debounced_ledger by (auto simp: apply_intent_debounce_def Let_def split: option.split prod.split) (metis fst_conv)
  then show ?thesis by (auto simp: reconcile_intent_def Let_def split: prod.split) (metis fst_conv)
qed

abbreviation server_ledger :: "'e server \<Rightarrow> ledger" where
  "server_ledger sv \<equiv> ledger_of (sv_manager sv)"

lemma fold_ledger:
  "(\<And>sv y. server_ledger (f sv y) = server_ledger sv) \<Longrightarrow> server_ledger (foldl f sv ys) = server_ledger sv"
  by (induction ys arbitrary: sv) simp_all

lemma result_ledger:
  "try_mark_pending_sell s m = (s2, r2) \<Longrightarrow> ledger_of s2 = ledger_of s"
  "try_mark_for_buying s m = (s3, r3) \<Longrightarrow> ledger_of s3 = ledger_of s"
  "update_price s m p t = (s4, r4) \<Longrightarrow> ledger_of s4 = ledger_of s"
  "reconcile_intent s ms i = (s5, r5) \<Longrightarrow> ledger_of s5 = ledger_of s"
  using manager_ledger(1) [of s m] manager_ledger(2) [of s m] price_ledger [of s m p t] intent_ledger [of s ms i] by auto

lemma task_ledger: "server_ledger (run_task x t sv) = server_ledger sv"
  by (cases t) (auto simp: run_market_def run_limit_def run_intent_limit_def run_cancel_def run_modify_def Let_def
      ledger_kept split: prod.split sum.split option.split)

lemma redemptions_ledger [ledger_kept]: "server_ledger (process_redemption_actions x now sv) = server_ledger sv"
  by (simp add: redemption_ops)

lemma update_price_ledger: "server_ledger (handle_update_price m p t sv) = server_ledger sv"
  by (auto simp: handle_update_price_def intro: result_ledger split: prod.split sum.split)

lemma position_event_ledger: "server_ledger (handle_position_event c now ev sv) = server_ledger sv"
  by (cases ev) (auto simp: handle_position_updated_def intro: result_ledger split: prod.split)

lemma timer_ledger: "server_ledger (handle_timer_event c now sv) = server_ledger sv"
proof -
  have "server_ledger (timer_order c sv ord) = server_ledger sv" for sv :: "'a server" and ord
    by (auto simp: timer_order_def intro: result_ledger split: prod.split option.split)
  then show ?thesis by (auto simp: handle_timer_event_def fold_ledger split: sum.split)
qed

lemma reconciled_ledger: "server_ledger (execute_reconciled_order x now fid ord sv) = server_ledger sv"
  by (auto simp: execute_reconciled_order_def run_cancel_def spawn_intent_limit_order_def Let_def ledger_kept
      split: order_type.split prod.split sum.split option.split)

lemma intent_signal_ledger: "server_ledger (fst (handle_intent_signal x c now uuid sg sv)) = server_ledger sv"
proof -
  have folds: "server_ledger (foldl (\<lambda>sv ord. execute_reconciled_order x now [] ord sv) sv os) = server_ledger sv"
    "server_ledger (foldl (\<lambda>sv (i, ord). execute_reconciled_order x now (uuid i) ord sv) sv es) = server_ledger sv"
    for sv os es
    by (rule fold_ledger, simp add: reconciled_ledger split: prod.split)+
  show ?thesis
    by (auto simp: handle_intent_signal_def folds Let_def ledger_kept dest: result_ledger(4)
        split: option.split prod.split sum.split)
qed

lemma signal_ledger: "server_ledger (process_single_signal x c now uuid sg sv) = server_ledger sv"
proof -
  have entry: "server_ledger (fst (handle_entry_signal c sg sv)) = server_ledger sv" for sv :: "'a server"
    by (auto simp: handle_entry_signal_def Let_def intro: result_ledger
        split: option.split prod.split sum.split position_error.split)
  have exit: "server_ledger (handle_exit_signal x now sg sv) = server_ledger sv" for sv :: "'a server"
    by (auto simp: handle_exit_signal_def Let_def intro: result_ledger split: option.split prod.split)
  show ?thesis
    by (auto simp: process_single_signal_def handle_trade_signal_def modify_exits(2) handle_cancel_order_signal_def
        intent_signal_ledger entry exit Let_def split: signal_action.split option.split)
qed

text \<open>The events of the server are booked, each exactly once.\<close>

lemma event_ledger: "server_ledger (process_event x c now ev sv) = settle (server_ledger sv) ev"
proof (cases ev)
  case (PositionEv pe)
  then show ?thesis by (simp add: position_event_ledger)
next
  case (ExecutionEv ee)
  then show ?thesis
    by (cases ee) (simp_all only: process_event.simps handle_execution_event_def redemption_ops
        apply_execution_manager execution_event.case ledger_execution settle.simps)
next
  case (LimitOrderEv lev)
  have "settle l (LimitOrderEv lev) = (case fill_event_to_execution_event lev of None \<Rightarrow> l | Some ee \<Rightarrow> settle l (ExecutionEv ee))" for l
    by (auto simp: fill_event_to_execution_event_def split: limit_order_event.split)
  then show ?thesis
    using LimitOrderEv
    by (auto simp: handle_limit_event_def apply_execution_manager ledger_execution ledger_kept Let_def
        simp del: settle.simps split: option.split)
next
  case (RedemptionEv rv)
  have "sv_manager (foldl (\<lambda>sv pe. enqueue (PositionEv pe) sv) sv pes) = sv_manager sv" for sv :: "'a server" and pes
    by (induction pes arbitrary: sv) auto
  then have "sv_manager (handle_redemption_event rv sv) = fst (handle_redemption (sv_manager sv) rv)"
    by (auto simp: handle_redemption_event_def split: prod.split sum.split)
  then show ?thesis using RedemptionEv by (simp add: ledger_redemption del: settle.simps)
qed

end
