(* ===== verification/Server_Loop.thy ===== *)
theory Server_Loop
  imports Ledger
begin

text \<open>
  The loop of the trading server, \<open>trade_server/trade_server.rs\<close>, with its events
  (\<open>domain/system.rs\<close>): market data that is too old is dropped, order book events go through the
  tracker and move the prices of positions, trades are offered to the executors that simulate fills,
  the position handler is called, and the signals the event causes are processed.  The signal
  generators are strategies outside this component: \<open>gen\<close> advances the state of one of them.  The tasks
  that the handlers spawn run between the events, each as one step, in any order and at any later time.
  The clock is read once per event.  Metrics, monitoring and persistence are left out.
\<close>

section \<open>Events\<close>

record spot_price =
  spp_symbol :: string
  spp_price :: f64
  spp_timestamp :: timestamp

datatype loop_event =
    BookSnapshot book_snapshot
  | BookUpdate book_update
  | SpotPrice spot_price
  | VenueTrade trade
  | TokenBuy token_trade
  | TokenSell token_trade
  | TokenSwap token_trade
  | TokenCreate timestamp
  | TimerEv timestamp
  | SignalEv trade_signal
  | Internal system_event

definition timestamp_millis :: "timestamp \<Rightarrow> int" where
  "timestamp_millis t = t div 1000000"

fun limit_order_timestamp :: "limit_order_event \<Rightarrow> timestamp option" where
  "limit_order_timestamp (OrderPlaced oid mint market price sz side ts signal ctx) = Some ts"
| "limit_order_timestamp (OrderPartiallyFilled oid mint side filled remaining price ts signal mode) = Some ts"
| "limit_order_timestamp (OrderCancelled oid reason ts) = Some ts"
| "limit_order_timestamp (OrderExpired oid ts) = Some ts"
| "limit_order_timestamp (OrderRejected reason) = None"

fun timestamp_ms :: "loop_event \<Rightarrow> int option" where
  "timestamp_ms (BookSnapshot b) = Some (bk_timestamp b)"
| "timestamp_ms (BookUpdate u) = Some (bu_timestamp u)"
| "timestamp_ms (VenueTrade t) = Some (tr_timestamp t)"
| "timestamp_ms (SpotPrice p) = Some (timestamp_millis (spp_timestamp p))"
| "timestamp_ms (TokenBuy t) = Some (timestamp_millis (tt_timestamp t))"
| "timestamp_ms (TokenSell t) = Some (timestamp_millis (tt_timestamp t))"
| "timestamp_ms (TokenSwap t) = Some (timestamp_millis (tt_timestamp t))"
| "timestamp_ms (TokenCreate t) = Some (timestamp_millis t)"
| "timestamp_ms (Internal (LimitOrderEv ev)) = map_option timestamp_millis (limit_order_timestamp ev)"
| "timestamp_ms ev = None"

text \<open>The difference of two 64-bit numbers wraps.\<close>

definition latency_ms :: "timestamp \<Rightarrow> loop_event \<Rightarrow> int option" where
  "latency_ms now ev = map_option (\<lambda>ts. signed_take_bit 63 (timestamp_millis now - ts)) (timestamp_ms ev)"

definition event_time :: "(int \<Rightarrow> timestamp option) \<Rightarrow> loop_event \<Rightarrow> timestamp option" where
  "event_time of_millis ev = Option.bind (timestamp_ms ev) of_millis"

fun is_market_event :: "loop_event \<Rightarrow> bool" where
  "is_market_event (BookSnapshot b) = True"
| "is_market_event (BookUpdate u) = True"
| "is_market_event (SpotPrice p) = True"
| "is_market_event (VenueTrade t) = True"
| "is_market_event (TokenBuy t) = True"
| "is_market_event (TokenSell t) = True"
| "is_market_event (TokenSwap t) = True"
| "is_market_event (TokenCreate t) = True"
| "is_market_event ev = False"

section \<open>The state\<close>

record ('e, 'g) loop =
  lp_server :: "'e server"
  lp_tracker :: tracker
  lp_generators :: "'g list"
  lp_stale_dropped :: nat

text \<open>What is outside: the executor, the date library, the strategies and the random ids of orders.\<close>

record ('e, 'x, 'g) environment =
  en_executor :: "('e, 'x) executor"
  en_of_millis :: "int \<Rightarrow> timestamp option"
  en_generate :: "'g \<Rightarrow> loop_event \<Rightarrow> (string + trade_signal list) \<times> 'g"
  en_uuid :: "nat \<Rightarrow> nat \<Rightarrow> string"

record loop_config =
  lc_server :: server_config
  lc_max_latency_ms :: int

section \<open>Order book events\<close>

definition calculate_mid_price :: "order_summary list \<Rightarrow> order_summary list \<Rightarrow> f64 option" where
  "calculate_mid_price bids asks =
     (case (bids, asks) of
        (b # bs, a # as) \<Rightarrow> Some (fdiv (fadd (os_price b) (os_price a)) (f_int 2))
      | (b # bs, []) \<Rightarrow> Some (os_price b)
      | ([], a # as) \<Rightarrow> Some (os_price a)
      | ([], []) \<Rightarrow> None)"

definition update_position_from_snapshot ::
  "(int \<Rightarrow> timestamp option) \<Rightarrow> timestamp \<Rightarrow> book_snapshot \<Rightarrow> 'e server \<Rightarrow> 'e server" where
  "update_position_from_snapshot of_millis now b sv =
     (case calculate_mid_price (bk_bids b) (bk_asks b) of
        None \<Rightarrow> sv
      | Some mid \<Rightarrow> handle_update_price (bk_asset_id b) mid (unwrap_or (of_millis (bk_timestamp b)) now) sv)"

definition build_inventory_map :: "'e server \<Rightarrow> (string, f64) hmap" where
  "build_inventory_map sv =
     foldl (\<lambda>m p. hput (pos_mint p) (pos_amount p) m) [] (hvals (pm_positions (sv_manager sv)))"

definition simulate_fills :: "('e, 'x) executor \<Rightarrow> trade \<Rightarrow> 'e server \<Rightarrow> 'e server" where
  "simulate_fills x t sv =
     (if ex_simulates_fills x then
        (case ex_check_fills x t (build_inventory_map sv) (pm_available_quote (sv_manager sv)) (sv_exec sv) of
           (fills, e) \<Rightarrow> foldl (\<lambda>sv f. enqueue (LimitOrderEv f) sv) (sv\<lparr>sv_exec := e\<rparr>) fills)
      else sv)"

definition process_orderbook_events ::
  "('e, 'x, 'g) environment \<Rightarrow> timestamp \<Rightarrow> loop_event \<Rightarrow> ('e, 'g) loop \<Rightarrow> ('x + loop_event) \<times> ('e, 'g) loop" where
  "process_orderbook_events en now ev lp =
     (let x = en_executor en; sv = lp_server lp in
      case ev of
        BookSnapshot b \<Rightarrow>
          let (t, tracked) = apply_snapshot (en_of_millis en) now b (lp_tracker lp);
            (r, e) = ex_book_snapshot x tracked (sv_exec sv);
            lp1 = lp\<lparr>lp_tracker := t, lp_server := sv\<lparr>sv_exec := e\<rparr>\<rparr>
          in (case r of
                Inl err \<Rightarrow> (Inl err, lp1)
              | Inr u \<Rightarrow> (Inr ev, lp1\<lparr>lp_server := update_position_from_snapshot (en_of_millis en) now tracked (lp_server lp1)\<rparr>))
      | BookUpdate u \<Rightarrow>
          let (r, e) = ex_book_update x u (sv_exec sv);
            lp1 = lp\<lparr>lp_server := sv\<lparr>sv_exec := e\<rparr>\<rparr>
          in (case r of
                Inl err \<Rightarrow> (Inl err, lp1)
              | Inr z \<Rightarrow>
                  (case apply_update (en_of_millis en) now u (lp_tracker lp) of
                     (t, Some b) \<Rightarrow>
                       (Inr (BookSnapshot b),
                        lp1\<lparr>lp_tracker := t,
                            lp_server := update_position_from_snapshot (en_of_millis en) now b (lp_server lp1)\<rparr>)
                   | (t, None) \<Rightarrow>
                       (Inr ev, lp1\<lparr>lp_tracker := t,
                          lp_server := handle_update_price (bu_asset_id u)
                            (fdiv (fadd (bu_best_bid u) (bu_best_ask u)) (f_int 2))
                            (unwrap_or (en_of_millis en (bu_timestamp u)) now) (lp_server lp1)\<rparr>)))
      | VenueTrade t \<Rightarrow> (Inr ev, lp\<lparr>lp_server := simulate_fills x t sv\<rparr>)
      | TimerEv t \<Rightarrow> (Inr ev, lp\<lparr>lp_tracker := fst (evict_inactive now (lp_tracker lp))\<rparr>)
      | _ \<Rightarrow> (Inr ev, lp))"

section \<open>One event\<close>

definition process_token_trade ::
  "('e, 'x) executor \<Rightarrow> token_trade \<Rightarrow> 'e server \<Rightarrow> ('x + unit) \<times> 'e server" where
  "process_token_trade x t sv =
     (case ex_token_trade x t (sv_exec sv) of
        (Inl err, e) \<Rightarrow> (Inl err, sv\<lparr>sv_exec := e\<rparr>)
      | (Inr u, e) \<Rightarrow>
          (Inr (), case tt_spot_price t of
             None \<Rightarrow> sv\<lparr>sv_exec := e\<rparr>
           | Some price \<Rightarrow> handle_update_price (tt_mint t) price (tt_timestamp t) (sv\<lparr>sv_exec := e\<rparr>)))"

definition process_trade_prices ::
  "('e, 'x) executor \<Rightarrow> loop_event \<Rightarrow> 'e server \<Rightarrow> ('x + unit) \<times> 'e server" where
  "process_trade_prices x ev sv =
     (case ev of
        TokenBuy t \<Rightarrow> process_token_trade x t sv
      | TokenSell t \<Rightarrow> process_token_trade x t sv
      | _ \<Rightarrow> (Inr (), sv))"

definition handle_special ::
  "('e, 'x) executor \<Rightarrow> server_config \<Rightarrow> timestamp \<Rightarrow> loop_event \<Rightarrow> 'e server \<Rightarrow> 'e server" where
  "handle_special x c now ev sv =
     (case ev of
        TimerEv t \<Rightarrow> handle_timer_event c t sv
      | Internal iev \<Rightarrow> process_event x c now iev sv
      | _ \<Rightarrow> sv)"

text \<open>First every generator sees the event, then the signals are processed in their order.  An error of a
  generator is logged.\<close>

fun generate_signals ::
  "('g \<Rightarrow> loop_event \<Rightarrow> (string + trade_signal list) \<times> 'g) \<Rightarrow> loop_event \<Rightarrow> 'g list \<Rightarrow> trade_signal list \<times> 'g list" where
  "generate_signals gen ev [] = ([], [])"
| "generate_signals gen ev (g # gs) =
     (let (r, g') = gen g ev; (signals, gs') = generate_signals gen ev gs
      in ((case r of Inl e \<Rightarrow> [] | Inr new \<Rightarrow> new) @ signals, g' # gs'))"

definition process_signals ::
  "('e, 'x, 'g) environment \<Rightarrow> server_config \<Rightarrow> timestamp \<Rightarrow> trade_signal list \<Rightarrow> 'e server \<Rightarrow> 'e server" where
  "process_signals en c now signals sv =
     foldl (\<lambda>sv (i, sg). process_single_signal (en_executor en) c now (en_uuid en i) sg sv) sv
       (List.enumerate 0 signals)"

definition generate_and_process_signals ::
  "('e, 'x, 'g) environment \<Rightarrow> server_config \<Rightarrow> timestamp \<Rightarrow> loop_event \<Rightarrow> ('e, 'g) loop \<Rightarrow> ('e, 'g) loop" where
  "generate_and_process_signals en c now ev lp =
     (case generate_signals (en_generate en) ev (lp_generators lp) of
        (signals, gs) \<Rightarrow>
          lp\<lparr>lp_generators := gs, lp_server := process_signals en c now signals (lp_server lp)\<rparr>)"

definition is_stale :: "loop_config \<Rightarrow> timestamp \<Rightarrow> loop_event \<Rightarrow> bool" where
  "is_stale c now ev =
     (case latency_ms now ev of None \<Rightarrow> False | Some l \<Rightarrow> l > lc_max_latency_ms c \<and> is_market_event ev)"

definition process_loop_event ::
  "('e, 'x, 'g) environment \<Rightarrow> loop_config \<Rightarrow> timestamp \<Rightarrow> loop_event \<Rightarrow> ('e, 'g) loop \<Rightarrow> ('x + unit) \<times> ('e, 'g) loop" where
  "process_loop_event en c now ev lp =
     (if is_stale c now ev then (Inr (), lp\<lparr>lp_stale_dropped := Suc (lp_stale_dropped lp)\<rparr>)
      else
        (case process_orderbook_events en now ev lp of
           (Inl err, lp1) \<Rightarrow> (Inl err, lp1)
         | (Inr ev1, lp1) \<Rightarrow>
             (case process_trade_prices (en_executor en) ev1 (lp_server lp1) of
                (Inl err, sv) \<Rightarrow> (Inl err, lp1\<lparr>lp_server := sv\<rparr>)
              | (Inr u, sv) \<Rightarrow>
                  (Inr (), generate_and_process_signals en (lc_server c) now ev1
                     (lp1\<lparr>lp_server := handle_special (en_executor en) (lc_server c) now ev1 sv\<rparr>)))))"

section \<open>The loop\<close>

text \<open>The coordinator (\<open>event_coordinator/generic_event_coordinator.rs\<close>) delivers the internal events in the
  order in which they were enqueued.  It asks for a timer or an event of the source only when it finds no
  internal event, but one may be enqueued while it waits for the source, so that the others may come at any
  time; an internal event from outside, as the poller sends them, is enqueued.  Between two events any of
  the spawned tasks may run; the runtime drives them beside the loop.  An error of the coordinator is only
  logged.  The loop ends when the coordinator has no more events and when an executor refuses market
  data.\<close>

datatype delivery = Outside loop_event | NextInternal | TaskRuns nat

definition run_spawned :: "('e, 'x) executor \<Rightarrow> nat \<Rightarrow> 'e server \<Rightarrow> 'e server" where
  "run_spawned x i sv =
     (if i < length (sv_tasks sv)
      then run_task x (sv_tasks sv ! i) (sv\<lparr>sv_tasks := take i (sv_tasks sv) @ drop (Suc i) (sv_tasks sv)\<rparr>)
      else sv)"

fun deliver :: "('e, 'x) executor \<Rightarrow> delivery \<Rightarrow> ('e, 'g) loop \<Rightarrow> loop_event option \<times> ('e, 'g) loop" where
  "deliver x (Outside (Internal ev)) lp = (None, lp\<lparr>lp_server := enqueue ev (lp_server lp)\<rparr>)"
| "deliver x (Outside ev) lp = (Some ev, lp)"
| "deliver x NextInternal lp =
     (case sv_queue (lp_server lp) of
        [] \<Rightarrow> (None, lp)
      | ev # rest \<Rightarrow> (Some (Internal ev), lp\<lparr>lp_server := (lp_server lp)\<lparr>sv_queue := rest\<rparr>\<rparr>))"
| "deliver x (TaskRuns i) lp = (None, lp\<lparr>lp_server := run_spawned x i (lp_server lp)\<rparr>)"

fun run_loop ::
  "('e, 'x, 'g) environment \<Rightarrow> loop_config \<Rightarrow> (timestamp \<times> delivery) list \<Rightarrow> ('e, 'g) loop \<Rightarrow> ('x + unit) \<times> ('e, 'g) loop" where
  "run_loop en c [] lp = (Inr (), lp)"
| "run_loop en c ((now, d) # ds) lp =
     (case deliver (en_executor en) d lp of
        (None, lp1) \<Rightarrow> run_loop en c ds lp1
      | (Some ev, lp1) \<Rightarrow>
          (case process_loop_event en c now ev lp1 of
             (Inl err, lp2) \<Rightarrow> (Inl err, lp2)
           | (Inr u, lp2) \<Rightarrow> run_loop en c ds lp2))"


section \<open>The loop is a run of the server\<close>

text \<open>Every event is a sequence of the steps of \<open>Trade_Handlers\<close>, so that what holds for all runs of the
  server holds for the loop.\<close>

lemma step_run: "server_step x c sv sv' \<Longrightarrow> server_run x c sv sv'"
  by (rule r_into_rtranclp)

lemma price_run: "server_run x c sv (handle_update_price mint p ts sv)"
  by (rule step_run, rule server_step.price)

lemma outside_run: "server_run x c sv (sv\<lparr>sv_exec := e, sv_queue := sv_queue sv @ evs\<rparr>)"
  by (rule step_run, rule server_step.outside)

lemma exec_run: "server_run x c sv (sv\<lparr>sv_exec := e\<rparr>)"
proof -
  have "sv\<lparr>sv_exec := e\<rparr> = sv\<lparr>sv_exec := e, sv_queue := sv_queue sv @ []\<rparr>" by (cases sv) simp
  then show ?thesis by (metis outside_run)
qed

lemma snapshot_run: "server_run x c sv (update_position_from_snapshot of_millis now b sv)"
  by (auto simp: update_position_from_snapshot_def price_run split: option.split)

lemma enqueue_all: "foldl (\<lambda>sv f. enqueue (LimitOrderEv f) sv) sv fs = sv\<lparr>sv_queue := sv_queue sv @ map LimitOrderEv fs\<rparr>"
  by (induction fs arbitrary: sv) (simp_all add: enqueue_def)

lemma fills_run: "server_run x c sv (simulate_fills x t sv)"
  using outside_run by (auto simp: simulate_fills_def enqueue_all split: prod.split)

lemma orderbook_run:
  assumes "process_orderbook_events en now ev lp = (r, lp')"
  shows "server_run (en_executor en) c (lp_server lp) (lp_server lp')"
proof (cases ev)
  case (BookSnapshot b)
  then show ?thesis
    using assms rtranclp_trans [OF exec_run snapshot_run]
    by (auto simp: process_orderbook_events_def Let_def exec_run split: prod.splits sum.splits)
next
  case (BookUpdate u)
  then show ?thesis
    using assms rtranclp_trans [OF exec_run snapshot_run] rtranclp_trans [OF exec_run price_run]
    by (auto simp: process_orderbook_events_def Let_def exec_run split: prod.splits sum.splits option.splits)
qed (use assms in \<open>auto simp: process_orderbook_events_def Let_def fills_run\<close>)

lemma trade_prices_run:
  assumes "process_trade_prices x ev sv = (r, sv')"
  shows "server_run x c sv sv'"
proof -
  have "server_run x c sv sv'" if "process_token_trade x t sv = (r, sv')" for t
    using that rtranclp_trans [OF exec_run price_run]
    by (auto simp: process_token_trade_def exec_run split: prod.splits sum.splits option.splits)
  then show ?thesis using assms by (cases ev) (auto simp: process_trade_prices_def)
qed

lemma signals_run: "server_run (en_executor en) c sv (process_signals en c now signals sv)"
proof -
  have "server_run (en_executor en) c sv
      (foldl (\<lambda>sv (i, sg). process_single_signal (en_executor en) c now (en_uuid en i) sg sv) sv ps)" for ps
  proof (induction ps arbitrary: sv)
    case (Cons p ps)
    show ?case
      using rtranclp_trans [OF step_run [OF server_step.signal] Cons] by (cases p) simp
  qed simp
  then show ?thesis by (simp add: process_signals_def)
qed

text \<open>An event from outside is a run; an internal event is one from the state in which it is still queued.\<close>

definition undelivered :: "loop_event \<Rightarrow> 'e server \<Rightarrow> 'e server" where
  "undelivered ev sv = (case ev of Internal iev \<Rightarrow> sv\<lparr>sv_queue := iev # sv_queue sv\<rparr> | _ \<Rightarrow> sv)"

lemma special_run: "server_run x c (undelivered ev sv) (handle_special x c now ev sv)"
proof (cases ev)
  case (Internal iev)
  have "server_step x c (sv\<lparr>sv_queue := iev # sv_queue sv\<rparr>) (process_event x c now iev sv)"
    using server_step.event [of "sv\<lparr>sv_queue := iev # sv_queue sv\<rparr>" iev "sv_queue sv" x c now] by simp
  then show ?thesis using Internal by (simp add: undelivered_def handle_special_def step_run)
next
  case (TimerEv t)
  then show ?thesis by (simp add: undelivered_def handle_special_def step_run server_step.timer)
qed (simp_all add: undelivered_def handle_special_def)

lemma generate_run:
  "server_run (en_executor en) c (lp_server lp) (lp_server (generate_and_process_signals en c now ev lp))"
  by (simp add: generate_and_process_signals_def signals_run split: prod.split)

lemma undelivered_id: "\<nexists>iev. ev = Internal iev \<Longrightarrow> undelivered ev sv = sv"
  by (cases ev) (simp_all add: undelivered_def)

lemma loop_event_run:
  assumes "process_loop_event en c now ev lp = (r, lp')"
  shows "server_run (en_executor en) (lc_server c) (undelivered ev (lp_server lp)) (lp_server lp')"
proof (cases "\<exists>iev. ev = Internal iev")
  case True
  then obtain iev where ev: "ev = Internal iev" by blast
  have "lp_server lp' = lp_server (generate_and_process_signals en (lc_server c) now ev
      (lp\<lparr>lp_server := handle_special (en_executor en) (lc_server c) now ev (lp_server lp)\<rparr>))"
    using assms unfolding ev
    by (auto simp: process_loop_event_def is_stale_def process_orderbook_events_def process_trade_prices_def
        split: option.splits)
  then show ?thesis
    using rtranclp_trans [OF special_run generate_run [of en "lc_server c" "lp\<lparr>lp_server := handle_special (en_executor en)
        (lc_server c) now ev (lp_server lp)\<rparr>" now ev, simplified]] by simp
next
  case False
  note u = undelivered_id [OF False]
  show ?thesis
  proof (cases "is_stale c now ev")
    case True
    then show ?thesis using assms by (auto simp: process_loop_event_def u)
  next
    case fresh: False
    obtain r1 lp1 where ob: "process_orderbook_events en now ev lp = (r1, lp1)" by fastforce
    note run1 = orderbook_run [OF ob, of "lc_server c"]
    show ?thesis
    proof (cases r1)
      case (Inl err)
      then show ?thesis using assms fresh ob run1 by (simp add: process_loop_event_def u)
    next
      case (Inr ev1)
      have ext: "undelivered ev1 sv = sv" for sv
        using ob False Inr unfolding process_orderbook_events_def
        by (cases ev) (auto simp: undelivered_def Let_def split: prod.splits sum.splits option.splits)
      obtain r2 sv2 where tp: "process_trade_prices (en_executor en) ev1 (lp_server lp1) = (r2, sv2)" by fastforce
      note run2 = rtranclp_trans [OF run1 trade_prices_run [OF tp]]
      show ?thesis
      proof (cases r2)
        case (Inl err)
        then show ?thesis using assms fresh ob run2 tp \<open>r1 = Inr ev1\<close> by (auto simp: process_loop_event_def u)
      next
        case (Inr z)
        let ?sv3 = "handle_special (en_executor en) (lc_server c) now ev1 sv2"
        have "lp' = generate_and_process_signals en (lc_server c) now ev1 (lp1\<lparr>lp_server := ?sv3\<rparr>)"
          using assms fresh ob tp \<open>r1 = Inr ev1\<close> Inr by (simp add: process_loop_event_def)
        moreover have "server_run (en_executor en) (lc_server c) sv2 ?sv3"
          using special_run [of "en_executor en" "lc_server c" ev1 sv2 now] unfolding ext .
        ultimately show ?thesis
          using rtranclp_trans [OF rtranclp_trans [OF run2] generate_run [of en "lc_server c" "lp1\<lparr>lp_server := ?sv3\<rparr>" now ev1, simplified]]
          by (simp add: u)
      qed
    qed
  qed
qed

lemma queue_same: "sv_queue sv = q \<Longrightarrow> sv\<lparr>sv_queue := q\<rparr> = sv"
  by (cases sv) simp

lemma spawned_run: "server_run x c sv (run_spawned x i sv)"
proof (cases "i < length (sv_tasks sv)")
  case True
  then have "sv_tasks sv = take i (sv_tasks sv) @ sv_tasks sv ! i # drop (Suc i) (sv_tasks sv)"
    by (rule id_take_nth_drop)
  from server_step.task [OF this, of x c] True show ?thesis by (simp add: run_spawned_def step_run)
qed (simp add: run_spawned_def)

lemma deliver_run:
  "deliver x d lp = (oev, lp1) \<Longrightarrow> server_run x c (lp_server lp)
     (case oev of None \<Rightarrow> lp_server lp1 | Some ev \<Rightarrow> undelivered ev (lp_server lp1))"
proof (induction x d lp rule: deliver.induct)
  case (1 x ev lp)
  have "enqueue ev (lp_server lp) = (lp_server lp)\<lparr>sv_exec := sv_exec (lp_server lp), sv_queue := sv_queue (lp_server lp) @ [ev]\<rparr>"
    by (cases "lp_server lp") (simp add: enqueue_def)
  then have "server_run x c (lp_server lp) (enqueue ev (lp_server lp))" by (metis outside_run)
  then show ?case using 1 by auto
qed (auto simp: undelivered_def queue_same spawned_run split: list.splits)

lemma run_loop_run:
  "run_loop en c ds lp = (r, lp') \<Longrightarrow> server_run (en_executor en) (lc_server c) (lp_server lp) (lp_server lp')"
proof (induction ds arbitrary: lp)
  case (Cons nd ds)
  obtain now d where nd: "nd = (now, d)" by fastforce
  obtain oev lp1 where d: "deliver (en_executor en) d lp = (oev, lp1)" by fastforce
  note run1 = deliver_run [OF d, of "lc_server c"]
  show ?case
  proof (cases oev)
    case None
    then show ?thesis using Cons nd d run1 rtranclp_trans by fastforce
  next
    case (Some ev)
    obtain r1 lp2 where ev: "process_loop_event en c now ev lp1 = (r1, lp2)" by fastforce
    have "server_run (en_executor en) (lc_server c) (lp_server lp) (lp_server lp2)"
      using run1 loop_event_run [OF ev] Some by auto
    then show ?thesis using Cons nd d Some ev rtranclp_trans by (cases r1) fastforce+
  qed
qed simp

text \<open>So the positions change only by methods of the position manager and its maps stay consistent.\<close>

lemma loop_manager_ops:
  assumes run: "run_loop en c ds lp = (r, lp')" and start: "sv_manager (lp_server lp) = pm_new q"
  shows "(\<exists>ops. sv_manager (lp_server lp') = foldl (pm_apply (svc_manager (lc_server c))) (pm_new q) ops)
    \<and> pm_inv (sv_manager (lp_server lp'))"
proof -
  have ops: "by_ops (svc_manager (lc_server c)) (pm_new q) (sv_manager (lp_server lp'))"
    using server_run_ops [OF run_loop_run [OF run]] start by simp
  then show ?thesis using by_ops_inv pm_new_inv unfolding by_ops_def by blast
qed

section \<open>The loop books its events\<close>

text \<open>The internal events that a run processes, in their order.\<close>

fun processed ::
  "('e, 'x, 'g) environment \<Rightarrow> loop_config \<Rightarrow> (timestamp \<times> delivery) list \<Rightarrow> ('e, 'g) loop \<Rightarrow> system_event list" where
  "processed en c [] lp = []"
| "processed en c ((now, d) # ds) lp =
     (case deliver (en_executor en) d lp of
        (None, lp1) \<Rightarrow> processed en c ds lp1
      | (Some ev, lp1) \<Rightarrow>
          (case ev of Internal iev \<Rightarrow> [iev] | _ \<Rightarrow> []) @
          (case process_loop_event en c now ev lp1 of
             (Inl err, lp2) \<Rightarrow> []
           | (Inr u, lp2) \<Rightarrow> processed en c ds lp2))"

abbreviation loop_ledger :: "('e, 'g) loop \<Rightarrow> ledger" where
  "loop_ledger lp \<equiv> server_ledger (lp_server lp)"

lemma snapshot_ledger: "server_ledger (update_position_from_snapshot of_millis now b sv) = server_ledger sv"
  by (simp add: update_position_from_snapshot_def update_price_ledger split: option.split)

lemma simulated_ledger: "server_ledger (simulate_fills x t sv) = server_ledger sv"
  by (simp add: simulate_fills_def enqueue_all split: prod.split)

lemma orderbook_ledger:
  "loop_ledger (snd (process_orderbook_events en now ev lp)) = loop_ledger lp"
  by (cases ev) (auto simp: process_orderbook_events_def Let_def snapshot_ledger update_price_ledger simulated_ledger
    split: prod.split sum.split option.split)

lemma trade_prices_ledger: "server_ledger (snd (process_trade_prices x ev sv)) = server_ledger sv"
  by (cases ev) (auto simp: process_trade_prices_def process_token_trade_def update_price_ledger
      split: prod.split sum.split option.split)

lemma signals_ledger: "server_ledger (process_signals en c now signals sv) = server_ledger sv"
  unfolding process_signals_def by (rule fold_ledger) (simp add: signal_ledger split: prod.split)

lemma special_ledger:
  "server_ledger (handle_special x c now ev sv) =
     (case ev of Internal iev \<Rightarrow> settle (server_ledger sv) iev | _ \<Rightarrow> server_ledger sv)"
  by (cases ev) (simp_all add: handle_special_def timer_ledger event_ledger)

lemma orderbook_internal:
  "process_orderbook_events en now ev lp = (Inr ev1, lp1) \<Longrightarrow> ev1 = Internal iev \<longleftrightarrow> ev = Internal iev"
  by (cases ev) (auto simp: process_orderbook_events_def Let_def split: prod.splits sum.splits option.splits)

lemma loop_event_ledger:
  "loop_ledger (snd (process_loop_event en c now ev lp)) =
     (case ev of Internal iev \<Rightarrow> settle (loop_ledger lp) iev | _ \<Rightarrow> loop_ledger lp)"
proof (cases "is_stale c now ev")
  case True
  then have "is_market_event ev" by (auto simp: is_stale_def split: option.splits)
  with True show ?thesis by (cases ev) (simp_all add: process_loop_event_def)
next
  case False
  obtain r1 lp1 where ob: "process_orderbook_events en now ev lp = (r1, lp1)" by fastforce
  have l1: "loop_ledger lp1 = loop_ledger lp" using orderbook_ledger [of en now ev lp] ob by simp
  show ?thesis
  proof (cases r1)
    case (Inl err)
    then have "\<nexists>iev. ev = Internal iev" using ob by (auto simp: process_orderbook_events_def)
    then show ?thesis using False ob Inl l1 by (cases ev) (simp_all add: process_loop_event_def)
  next
    case (Inr ev1)
    obtain r2 sv2 where tp: "process_trade_prices (en_executor en) ev1 (lp_server lp1) = (r2, sv2)" by fastforce
    have l2: "server_ledger sv2 = loop_ledger lp"
      using trade_prices_ledger [of "en_executor en" ev1 "lp_server lp1"] tp l1 by simp
    note same = orderbook_internal [OF ob [unfolded Inr]]
    show ?thesis
    proof (cases r2)
      case (Inl err)
      then have "\<nexists>iev. ev1 = Internal iev" using tp by (auto simp: process_trade_prices_def)
      then show ?thesis
        using False ob Inr tp Inl l2 same by (cases ev) (simp_all add: process_loop_event_def)
    next
      case (Inr z)
      have "loop_ledger (snd (process_loop_event en c now ev lp)) =
          server_ledger (handle_special (en_executor en) (lc_server c) now ev1 sv2)"
        using False ob tp \<open>r1 = Inr ev1\<close> Inr
        by (simp add: process_loop_event_def generate_and_process_signals_def signals_ledger split: prod.split)
      also have "\<dots> = (case ev of Internal iev \<Rightarrow> settle (loop_ledger lp) iev | _ \<Rightarrow> loop_ledger lp)"
        using same l2 unfolding special_ledger by (cases ev) (auto split: loop_event.split)
      finally show ?thesis .
    qed
  qed
qed

lemma deliver_ledger: "loop_ledger (snd (deliver x d lp)) = loop_ledger lp"
  by (induction x d lp rule: deliver.induct) (auto simp: run_spawned_def task_ledger split: list.split)

section \<open>Properties\<close>

text \<open>C3. Over any run of the loop, with any executor, strategies, market data and interleaving of events
  and spawned tasks, and also when an executor's error ends it, cash and holdings are exactly what the ledger
  makes of the internal events that were processed: every fill and every completed redemption is booked once,
  in the order of processing, and prices, snapshots, trades, timers, signals, orders that are sent, refused
  or cancelled and failed sales move neither cash nor any amount or entry price.\<close>

theorem loop_keeps_ledger:
  assumes "run_loop en c ds lp = (r, lp')"
  shows "ledger_of (sv_manager (lp_server lp')) = foldl settle (ledger_of (sv_manager (lp_server lp))) (processed en c ds lp)"
  using assms
proof (induction ds arbitrary: lp)
  case (Cons nd ds)
  obtain now d where nd: "nd = (now, d)" by fastforce
  obtain oev lp1 where d: "deliver (en_executor en) d lp = (oev, lp1)" by fastforce
  have l1: "loop_ledger lp1 = loop_ledger lp" using deliver_ledger [of "en_executor en" d lp] d by simp
  show ?case
  proof (cases oev)
    case None
    then show ?thesis using Cons nd d l1 by simp
  next
    case (Some ev)
    obtain r1 lp2 where ev: "process_loop_event en c now ev lp1 = (r1, lp2)" by fastforce
    have l2: "loop_ledger lp2 = foldl settle (loop_ledger lp) (case ev of Internal iev \<Rightarrow> [iev] | _ \<Rightarrow> [])"
      using loop_event_ledger [of en c now ev lp1] ev l1 by (cases ev) simp_all
    show ?thesis
    proof (cases r1)
      case (Inl err)
      then show ?thesis using Cons.prems nd d Some ev l2 by auto
    next
      case (Inr u)
      then have "run_loop en c ds lp2 = (r, lp')" using Cons.prems nd d Some ev by simp
      then show ?thesis using Cons.IH [of lp2] nd d Some ev Inr l2 by simp
    qed
  qed
qed simp

text \<open>Market data older than the limit changes nothing but a counter; what the server and its executors
  send each other, timers and signals are never dropped, however late they are.\<close>

lemma only_market_data_is_dropped:
  "is_stale c now ev \<Longrightarrow> is_market_event ev \<and>
     process_loop_event en c now ev lp = (Inr (), lp\<lparr>lp_stale_dropped := Suc (lp_stale_dropped lp)\<rparr>)"
  by (auto simp: is_stale_def process_loop_event_def split: option.splits)

text \<open>The exchange states a best bid of zero for a book without bids.  An update with it leaves a bid of
  size zero at the price zero, and the position is valued at half the best ask, although the server
  takes the ask as the price when a side is empty.\<close>

lemma empty_bid_side_halves_price:
  assumes "bu_side u = TradeSell" "bu_best_bid u = f0" "bk_bids b = []"
    "bk_asks (updated_book u b) = a # as" "os_price a = grid (2 * n)" "\<bar>n\<bar> \<le> 2 ^ 51"
  shows "calculate_mid_price (bk_bids (updated_book u b)) (bk_asks (updated_book u b)) = Some (grid n)"
    and "calculate_mid_price [] (bk_asks (updated_book u b)) = Some (grid (2 * n))"
proof -
  have "bk_bids (updated_book u b) = [\<lparr>os_price = f0, os_size = f0\<rparr>]"
    using assms(1-3) empty_side_gets_level [of u TradeBuy] by (simp add: updated_book_def Let_def)
  moreover have "fadd f0 (grid (2 * n)) = grid (2 * n)"
    using assms(6) fadd_grid [of 0 "2 * n"] by (simp add: f0_grid)
  moreover have "fdiv (grid (2 * n)) (f_int 2) = grid n"
    using assms(6) f_of_grid [of n] by (simp add: grid_def f_int_def)
  ultimately show "calculate_mid_price (bk_bids (updated_book u b)) (bk_asks (updated_book u b)) = Some (grid n)"
    using assms(4,5) by (simp add: calculate_mid_price_def)
  show "calculate_mid_price [] (bk_asks (updated_book u b)) = Some (grid (2 * n))"
    using assms(4,5) by (simp add: calculate_mid_price_def)
qed

section \<open>A concrete loop\<close>

text \<open>A strategy that signals an entry for every snapshot, on the live executor.\<close>

definition demo_environment :: "(nat clob_state, exec_error, unit) environment" where
  "demo_environment =
     \<lparr>en_executor = demo_x, en_of_millis = (\<lambda>ms. Some (ms * 1000000)),
      en_generate = (\<lambda>g ev. (case ev of BookSnapshot b \<Rightarrow> Inr [demo_signal (bk_asset_id b)] | _ \<Rightarrow> Inr [], g)),
      en_uuid = (\<lambda>i j. [])\<rparr>"

definition demo_loop_config :: loop_config where
  "demo_loop_config = \<lparr>lc_server = demo_server_config, lc_max_latency_ms = 1000\<rparr>"

definition demo_loop :: "(nat clob_state, unit) loop" where
  "demo_loop = \<lparr>lp_server = demo_server (pm_new (grid 8)), lp_tracker = tracker_new, lp_generators = [()], lp_stale_dropped = 0\<rparr>"

lemma demo_loop_manager: "sv_manager (lp_server demo_loop) = pm_new (grid 8)"
  by (simp add: demo_loop_def demo_server_def)

text \<open>A fill that comes from outside, a task that is not there and the fill's turn.\<close>

definition demo_bought :: order_filled where
  "demo_bought =
     \<lparr>of_mint = ''A'', of_token_amount_change = grid 4, of_quote_amount_change = Some (grid 2), of_price = Some (grid 1),
      of_timestamp = 0, of_slippage = None, of_clear_position = False, of_force_position_clear = False,
      of_execution_latency_in_slots = None, of_confirmed_slot = None, of_confirmed_signature = None,
      of_signal_id = None, of_exit_mode = None\<rparr>"

definition demo_deliveries :: "(timestamp \<times> delivery) list" where
  "demo_deliveries =
     [(0, Outside (Internal (ExecutionEv (ExecOrderFilled demo_bought)))), (0, TaskRuns 0), (0, NextInternal)]"

theorem loop_keeps_ledger_witness:
  "lg_cash (loop_ledger (snd (run_loop demo_environment demo_loop_config demo_deliveries demo_loop))) = grid 6"
proof -
  let ?lp = "snd (run_loop demo_environment demo_loop_config demo_deliveries demo_loop)"
  have "processed demo_environment demo_loop_config demo_deliveries demo_loop = [ExecutionEv (ExecOrderFilled demo_bought)]"
    by (simp add: demo_deliveries_def demo_loop_def demo_server_def run_spawned_def enqueue_def split: prod.split sum.split)
  then have "loop_ledger ?lp = settle_fill demo_bought (ledger_of (pm_new (grid 8)))"
    using loop_keeps_ledger [of demo_environment demo_loop_config demo_deliveries demo_loop] prod.collapse
    by (metis (no_types) demo_loop_manager foldl.simps settle.simps(1))
  moreover have "fill_cash demo_bought = grid 2"
    by (simp add: fill_cash_def quote_change_def demo_bought_def grid_def)
  ultimately show ?thesis
    by (simp add: settle_fill_def ledger_of_def demo_bought_def pm_new_def f0_grid fsub_grid)
qed

end
