(* ===== verification/Timeline.thy ===== *)
theory Timeline
  imports Server_Loop
begin

text \<open>
  The timeline of a backtest, \<open>backtest/timeline.rs\<close> and \<open>backtest/types.rs\<close>: snapshots, trades and
  spot prices are sorted by time and grouped into ticks, one for each snapshot.  Time stamps of
  snapshots and trades are milliseconds of 64 bits, those of spot prices nanoseconds.  The library's
  \<open>sort_key\<close> is stable, as the sort of the source is.  Log output is left out.
\<close>

section \<open>Data\<close>

text \<open>The errors of backtests (\<open>backtest/error.rs\<close>); those of other libraries are kept as texts.\<close>

datatype backtest_error =
    ParquetReadError string
  | InvalidSchemaError string
  | EmptyDataError string
  | TimelineError string
  | DataCompletenessError nat string
  | IoError string
  | JsonError string

record tick =
  ti_snapshot :: book_snapshot
  ti_trades :: "trade list"
  ti_spot_prices :: "spot_price list"

definition tick_new :: "book_snapshot \<Rightarrow> tick" where
  "tick_new s = \<lparr>ti_snapshot = s, ti_trades = [], ti_spot_prices = []\<rparr>"

definition tick_timestamp :: "tick \<Rightarrow> int" where
  "tick_timestamp k = bk_timestamp (ti_snapshot k)"

definition tick_datetime :: "(int \<Rightarrow> timestamp option) \<Rightarrow> tick \<Rightarrow> timestamp option" where
  "tick_datetime of_millis k = of_millis (bk_timestamp (ti_snapshot k))"

record timeline =
  tl_ticks :: "tick list"
  tl_current_index :: nat

definition i64_max :: int where "i64_max = 2 ^ 63 - 1"

section \<open>Building a timeline\<close>

text \<open>The loop that hands out events to the ticks with the times \<open>cur # nexts\<close>; with \<open>early\<close> the first
  tick takes the events before it as well.  Events that no tick took go to the last one.\<close>

fun collect :: "('a \<Rightarrow> int) \<Rightarrow> bool \<Rightarrow> int list \<Rightarrow> 'a list \<Rightarrow> 'a list list \<times> 'a list" where
  "collect time early [] xs = ([], xs)"
| "collect time early (cur # nexts) xs =
     (let next_ts = (case nexts of [] \<Rightarrow> i64_max | n # ns \<Rightarrow> n);
        here = takeWhile (\<lambda>x. (early \<or> cur \<le> time x) \<and> time x < next_ts) xs;
        (rows, rest) = collect time False nexts (drop (length here) xs)
      in (here # rows, rest))"

definition hand_out :: "('a \<Rightarrow> int) \<Rightarrow> bool \<Rightarrow> int list \<Rightarrow> 'a list \<Rightarrow> 'a list list" where
  "hand_out time early tss xs =
     (case collect time early tss xs of (rows, rest) \<Rightarrow> butlast rows @ [last rows @ rest])"

definition assign_trades :: "trade list \<Rightarrow> tick list \<Rightarrow> tick list" where
  "assign_trades trades ticks =
     map2 (\<lambda>k ts. k\<lparr>ti_trades := ts\<rparr>) ticks (hand_out tr_timestamp False (map tick_timestamp ticks) trades)"

definition assign_spot_prices :: "spot_price list \<Rightarrow> tick list \<Rightarrow> tick list" where
  "assign_spot_prices prices ticks =
     map2 (\<lambda>k ps. k\<lparr>ti_spot_prices := ps\<rparr>) ticks
       (hand_out (\<lambda>p. timestamp_millis (spp_timestamp p)) True (map tick_timestamp ticks) prices)"

definition timeline_new ::
  "book_snapshot list \<Rightarrow> trade list \<Rightarrow> spot_price list option \<Rightarrow> backtest_error + timeline" where
  "timeline_new snapshots trades spots =
     (if snapshots = [] then Inl (EmptyDataError ''No snapshots provided for timeline'')
      else
        let ticks = map tick_new (sort_key bk_timestamp snapshots);
          sorted = sort_key tr_timestamp trades;
          discarded = length (takeWhile (\<lambda>t. tr_timestamp t < tick_timestamp (ticks ! 0)) sorted);
          with_trades = assign_trades (drop discarded sorted) ticks
        in Inr \<lparr>tl_ticks = (case spots of
                   None \<Rightarrow> with_trades
                 | Some ps \<Rightarrow> assign_spot_prices (sort_key spp_timestamp ps) with_trades),
               tl_current_index = 0\<rparr>)"

section \<open>Reading a timeline\<close>

definition timeline_len :: "timeline \<Rightarrow> nat" where "timeline_len line = length (tl_ticks line)"

definition timeline_is_empty :: "timeline \<Rightarrow> bool" where "timeline_is_empty line \<longleftrightarrow> tl_ticks line = []"

definition has_more :: "timeline \<Rightarrow> bool" where
  "has_more line \<longleftrightarrow> tl_current_index line < length (tl_ticks line)"

definition peek_tick :: "timeline \<Rightarrow> tick option" where
  "peek_tick line =
     (if tl_current_index line < length (tl_ticks line) then Some (tl_ticks line ! tl_current_index line) else None)"

definition next_tick :: "timeline \<Rightarrow> tick option \<times> timeline" where
  "next_tick line =
     (if tl_current_index line < length (tl_ticks line)
      then (Some (tl_ticks line ! tl_current_index line), line\<lparr>tl_current_index := Suc (tl_current_index line)\<rparr>)
      else (None, line))"

definition timeline_reset :: "timeline \<Rightarrow> timeline" where
  "timeline_reset line = line\<lparr>tl_current_index := 0\<rparr>"

definition total_trades :: "timeline \<Rightarrow> nat" where
  "total_trades line = sum_list (map (\<lambda>k. length (ti_trades k)) (tl_ticks line))"

definition time_range :: "timeline \<Rightarrow> (int \<times> int) option" where
  "time_range line =
     (if tl_ticks line = [] then None
      else Some (tick_timestamp (hd (tl_ticks line)), tick_timestamp (last (tl_ticks line))))"

section \<open>Windows\<close>

text \<open>The \<open>i\<close>-th window reaches from the \<open>i\<close>-th time up to the next one.\<close>

definition in_window :: "int list \<Rightarrow> nat \<Rightarrow> int \<Rightarrow> bool" where
  "in_window tss i t \<longleftrightarrow> tss ! i \<le> t \<and> (Suc i < length tss \<longrightarrow> t < tss ! Suc i)"

text \<open>What comes before all windows counts for the first one.\<close>

definition in_first :: "int list \<Rightarrow> nat \<Rightarrow> int \<Rightarrow> bool" where
  "in_first tss i t \<longleftrightarrow> i = 0 \<and> t < hd tss"

lemma sorted_split:
  assumes "sorted (map time xs)"
  shows "takeWhile (\<lambda>x. time x < c) xs = filter (\<lambda>x. time x < c) xs"
    and "dropWhile (\<lambda>x. time x < c) xs = filter (\<lambda>x. c \<le> time x) xs"
proof -
  have "filter (\<lambda>x. time x < c) xs = takeWhile (\<lambda>x. time x < c) xs
      \<and> filter (\<lambda>x. c \<le> time x) xs = dropWhile (\<lambda>x. time x < c) xs"
    using assms
  proof (induction xs)
    case (Cons a xs)
    show ?case
    proof (cases "time a < c")
      case True
      with Cons show ?thesis by simp
    next
      case False
      with Cons.prems have "filter (\<lambda>x. time x < c) (a # xs) = []" "filter (\<lambda>x. c \<le> time x) (a # xs) = a # xs"
        by (auto simp: filter_empty_conv filter_id_conv not_less intro: order_trans)
      with False show ?thesis by simp
    qed
  qed simp
  then show "takeWhile (\<lambda>x. time x < c) xs = filter (\<lambda>x. time x < c) xs"
    "dropWhile (\<lambda>x. time x < c) xs = filter (\<lambda>x. c \<le> time x) xs" by simp_all
qed

lemma length_collect: "length (fst (collect time early tss xs)) = length tss"
  by (induction time early tss xs rule: collect.induct) (simp_all add: Let_def case_prod_beta)

lemma hand_out_Cons:
  assumes "early \<or> list_all (\<lambda>x. cur \<le> time x) xs" "sorted (map time xs)"
  shows "hand_out time early (cur # n # ns) xs =
    filter (\<lambda>x. time x < n) xs # hand_out time False (n # ns) (filter (\<lambda>x. n \<le> time x) xs)"
proof -
  have here: "takeWhile (\<lambda>x. (early \<or> cur \<le> time x) \<and> time x < n) xs = filter (\<lambda>x. time x < n) xs"
    unfolding sorted_split(1) [OF assms(2), symmetric]
    using assms(1) by (intro takeWhile_cong) (auto simp: list_all_iff)
  have "drop (length (filter (\<lambda>x. time x < n) xs)) xs = filter (\<lambda>x. n \<le> time x) xs"
    unfolding sorted_split [OF assms(2), symmetric] by (simp add: dropWhile_eq_drop)
  moreover have "fst (collect time False (n # ns) ys) \<noteq> []" for ys
    using length_collect [of time False "n # ns" ys]
    by (cases "fst (collect time False (n # ns) ys)") (simp_all del: collect.simps)
  ultimately show ?thesis
    unfolding hand_out_def collect.simps(2) [of time early cur]
    by (simp add: here Let_def case_prod_beta del: collect.simps)
qed

lemma hand_out_windows:
  assumes "sorted tss" "tss \<noteq> []" "sorted (map time xs)" "early \<or> list_all (\<lambda>x. hd tss \<le> time x) xs"
  shows "hand_out time early tss xs =
    map (\<lambda>i. filter (\<lambda>x. in_window tss i (time x) \<or> in_first tss i (time x)) xs) [0..<length tss]"
  using assms
proof (induction tss arbitrary: early xs)
  case (Cons cur tss)
  show ?case
  proof (cases tss)
    case Nil
    have "filter (\<lambda>x. cur \<le> time x \<or> time x < cur) xs = xs" by (auto simp: filter_id_conv)
    then show ?thesis using Nil
      by (simp add: hand_out_def Let_def in_window_def in_first_def flip: dropWhile_eq_drop)
  next
    case tss: (Cons n ns)
    let ?ys = "filter (\<lambda>x. n \<le> time x) xs"
    have "hand_out time False tss ?ys =
        map (\<lambda>i. filter (\<lambda>x. in_window tss i (time x) \<or> in_first tss i (time x)) ?ys) [0..<length tss]"
      using Cons.prems tss by (intro Cons.IH) (auto simp: list_all_iff intro: sorted_filter)
    moreover have later: "filter (\<lambda>x. in_window tss i (time x) \<or> in_first tss i (time x)) ?ys =
        filter (\<lambda>x. in_window (cur # tss) (Suc i) (time x)) xs" if "i < length tss" for i
    proof -
      have "n \<le> tss ! i" using Cons.prems(1) that sorted_nth_mono [of tss 0 i] by (simp add: tss)
      then show ?thesis
        unfolding filter_filter by (intro filter_cong) (auto simp: in_window_def in_first_def tss)
    qed
    moreover have "filter (\<lambda>x. time x < n) xs =
        filter (\<lambda>x. in_window (cur # tss) 0 (time x) \<or> in_first (cur # tss) 0 (time x)) xs"
      using Cons.prems(1) by (intro filter_cong) (auto simp: in_window_def in_first_def tss)
    moreover have "map (\<lambda>i. filter (\<lambda>x. in_window tss i (time x) \<or> in_first tss i (time x)) ?ys) [0..<length tss] =
        map (\<lambda>i. filter (\<lambda>x. in_window (cur # tss) (Suc i) (time x) \<or> in_first (cur # tss) (Suc i) (time x)) xs)
          [0..<length tss]"
      using later by (intro map_cong refl) (simp add: in_first_def)
    moreover have "hand_out time early (cur # tss) xs = filter (\<lambda>x. time x < n) xs # hand_out time False tss ?ys"
      using Cons.prems hand_out_Cons [of early cur time xs n ns] by (simp add: tss)
    ultimately show ?thesis by (simp add: map_upt_Suc del: upt_Suc)
  qed
qed simp

text \<open>Every time from the first one on lies in exactly one window.\<close>

lemma one_window:
  assumes "sorted tss" "tss \<noteq> []" "hd tss \<le> t"
  shows "\<exists>!i. i < length tss \<and> in_window tss i t"
proof (rule ex_ex1I)
  let ?A = "{i. i < length tss \<and> tss ! i \<le> t}"
  have fin: "finite ?A" "?A \<noteq> {}" using assms(2,3) by (auto simp: hd_conv_nth)
  define m where "m = Max ?A"
  have "m \<in> ?A" unfolding m_def by (rule Max_in [OF fin])
  moreover have "Suc m \<notin> ?A" using Max_ge [OF fin(1), of "Suc m"] not_less_eq_eq [of m m] unfolding m_def by blast
  ultimately show "\<exists>i. i < length tss \<and> in_window tss i t" by (auto simp: in_window_def)
next
  fix i j assume "i < length tss \<and> in_window tss i t" "j < length tss \<and> in_window tss j t"
  moreover have "\<not> a < b" if "a < length tss \<and> in_window tss a t" "b < length tss \<and> in_window tss b t" for a b
  proof
    assume "a < b"
    with that have "tss ! Suc a \<le> tss ! b" by (intro sorted_nth_mono [OF assms(1)]) auto
    with that \<open>a < b\<close> show False by (simp add: in_window_def)
  qed
  ultimately show "i = j" by (meson linorder_neqE_nat)
qed

section \<open>Properties\<close>

lemma assign_trades_windows:
  assumes "map tick_timestamp ticks = tss" "sorted tss" "ticks \<noteq> []" "sorted (map tr_timestamp xs)"
    "list_all (\<lambda>t. hd tss \<le> tr_timestamp t) xs"
  shows "assign_trades xs ticks =
    map (\<lambda>i. (ticks ! i)\<lparr>ti_trades := filter (\<lambda>t. in_window tss i (tr_timestamp t)) xs\<rparr>) [0..<length ticks]"
proof -
  have ne: "tss \<noteq> []" and len: "length ticks = length tss" using assms(1,3) by auto
  have "filter (\<lambda>t. in_window tss i (tr_timestamp t) \<or> in_first tss i (tr_timestamp t)) xs =
      filter (\<lambda>t. in_window tss i (tr_timestamp t)) xs" for i
    using assms(5) by (intro filter_cong) (auto simp: in_first_def list_all_iff)
  then show ?thesis
    unfolding assign_trades_def assms(1)
    by (subst hand_out_windows) (use assms(2,4,5) ne in \<open>auto simp: len intro!: nth_equalityI\<close>)
qed

lemma assign_spots_windows:
  assumes "map tick_timestamp ticks = tss" "sorted tss" "ticks \<noteq> []"
    "sorted (map (\<lambda>p. timestamp_millis (spp_timestamp p)) ps)"
  shows "assign_spot_prices ps ticks =
    map (\<lambda>i. (ticks ! i)\<lparr>ti_spot_prices := filter (\<lambda>p. in_window tss i (timestamp_millis (spp_timestamp p))
       \<or> in_first tss i (timestamp_millis (spp_timestamp p))) ps\<rparr>) [0..<length ticks]"
proof -
  have ne: "tss \<noteq> []" and len: "length ticks = length tss" using assms(1,3) by auto
  show ?thesis
    unfolding assign_spot_prices_def assms(1)
    by (subst hand_out_windows) (use assms(2,4) ne in \<open>auto simp: len intro!: nth_equalityI\<close>)
qed

text \<open>C21. The timeline is the grouping by time.  Its ticks are the snapshots in the order of their times,
  equal times in their given order; the trades of a tick are those from its time up to the time of the
  next tick, so that every trade from the first snapshot on is in exactly one tick and earlier ones are
  dropped; spot prices are grouped in the same way but earlier ones go to the first tick; and within a
  tick both keep the order of their times.\<close>

theorem timeline_groups_by_time:
  "timeline_new snapshots trades spots =
     (if snapshots = [] then Inl (EmptyDataError ''No snapshots provided for timeline'')
      else
        let ordered = sort_key bk_timestamp snapshots;
          tss = map bk_timestamp ordered;
          millis = (\<lambda>p. timestamp_millis (spp_timestamp p))
        in Inr \<lparr>tl_ticks = map (\<lambda>i. \<lparr>ti_snapshot = ordered ! i,
                 ti_trades = filter (\<lambda>t. in_window tss i (tr_timestamp t)) (sort_key tr_timestamp trades),
                 ti_spot_prices = filter (\<lambda>p. in_window tss i (millis p) \<or> in_first tss i (millis p))
                   (sort_key spp_timestamp (unwrap_or spots []))\<rparr>) [0..<length ordered],
               tl_current_index = 0\<rparr>)"
proof (cases "snapshots = []")
  case False
  let ?S = "sort_key bk_timestamp snapshots" and ?T = "sort_key tr_timestamp trades"
  let ?ticks = "map tick_new ?S" and ?tss = "map bk_timestamp (sort_key bk_timestamp snapshots)"
  have ne: "?S \<noteq> []" using False by (metis length_0_conv length_sort)
  have tss: "map tick_timestamp ?ticks = ?tss" by (simp add: tick_timestamp_def tick_new_def)
  have first: "tick_timestamp (?ticks ! 0) = hd ?tss" using ne tss by (metis hd_conv_nth hd_map map_is_Nil_conv)
  define kept where "kept = filter (\<lambda>t. hd ?tss \<le> tr_timestamp t) ?T"
  have kept: "drop (length (takeWhile (\<lambda>t. tr_timestamp t < tick_timestamp (?ticks ! 0)) ?T)) ?T = kept"
    unfolding kept_def first using sorted_split(2) [of tr_timestamp ?T] by (simp add: dropWhile_eq_drop)
  have window: "filter (\<lambda>t. in_window ?tss i (tr_timestamp t)) kept = filter (\<lambda>t. in_window ?tss i (tr_timestamp t)) ?T"
    if "i < length ?S" for i
  proof -
    have "hd ?tss \<le> ?tss ! i" using that ne sorted_nth_mono [of ?tss 0 i] by (simp add: hd_conv_nth hd_map)
    then show ?thesis
      unfolding kept_def filter_filter by (intro filter_cong) (auto simp: in_window_def)
  qed
  define ticks1 where "ticks1 = assign_trades kept ?ticks"
  have ticks1: "ticks1 = map (\<lambda>i. \<lparr>ti_snapshot = ?S ! i,
      ti_trades = filter (\<lambda>t. in_window ?tss i (tr_timestamp t)) ?T, ti_spot_prices = []\<rparr>) [0..<length ?S]"
    unfolding ticks1_def
    by (subst assign_trades_windows [OF tss])
      (use ne window in \<open>auto simp: kept_def list_all_iff tick_new_def intro!: sorted_filter\<close>)
  have tss1: "map tick_timestamp ticks1 = ?tss" "ticks1 \<noteq> []"
    using ne by (auto simp: ticks1 tick_timestamp_def intro!: nth_equalityI)
  have spots: "assign_spot_prices (sort_key spp_timestamp ps) ticks1 = map (\<lambda>i. \<lparr>ti_snapshot = ?S ! i,
      ti_trades = filter (\<lambda>t. in_window ?tss i (tr_timestamp t)) ?T,
      ti_spot_prices = filter (\<lambda>p. in_window ?tss i (timestamp_millis (spp_timestamp p))
        \<or> in_first ?tss i (timestamp_millis (spp_timestamp p))) (sort_key spp_timestamp ps)\<rparr>) [0..<length ?S]" for ps
  proof (subst assign_spots_windows [OF tss1(1) _ tss1(2)])
    have "sorted (map spp_timestamp (sort_key spp_timestamp ps))" by simp
    then show "sorted (map (\<lambda>p. timestamp_millis (spp_timestamp p)) (sort_key spp_timestamp ps))"
      unfolding timestamp_millis_def sorted_map by (rule sorted_wrt_mono_rel [rotated]) (simp add: zdiv_mono1)
  qed (simp_all add: ticks1)
  show ?thesis
    unfolding timeline_new_def Let_def kept ticks1_def [symmetric]
    using False spots by (cases spots) (simp_all add: ticks1)
qed (simp add: timeline_new_def)

end
