(* ===== verification/Backtest_Coordinator.thy ===== *)
theory Backtest_Coordinator
  imports Timeline
begin

text \<open>
  The event coordinator of backtests, \<open>backtest/coordinator.rs\<close>, in both modes: over the ticks of a
  timeline, and streaming over sorted lists of snapshots, book updates, trades and spot prices with an
  order book tracker.  Events that the system enqueues always come first.  A call may skip data: the
  streaming loop is a function with a measure; the loops of the timeline mode, which do not end with a
  timer interval of zero, are partial functions whose value \<open>None\<close> is a call that never returns.
  \<open>of_millis\<close> is the conversion of the date library; the wall clock \<open>now\<close> is only read for times it
  cannot hold.  Every call holds the lock of the state from its first to its last access, so that calls
  do not interleave.  Log output is left out.
\<close>

section \<open>Timers\<close>

record timer_state =
  tm_interval :: duration
  tm_next :: timestamp
  tm_end :: "timestamp option"

definition timer_new :: "duration \<Rightarrow> timestamp \<Rightarrow> timestamp option \<Rightarrow> timer_state" where
  "timer_new interval start end_time = \<lparr>tm_interval = interval, tm_next = start, tm_end = end_time\<rparr>"

definition should_emit :: "timestamp \<Rightarrow> timer_state \<Rightarrow> bool" where
  "should_emit now tm \<longleftrightarrow>
     (case tm_end tm of Some e \<Rightarrow> tm_next tm \<le> e | None \<Rightarrow> True) \<and> tm_next tm \<le> now"

text \<open>An interval that the date library cannot hold counts as one second.\<close>

definition timer_step :: "duration \<Rightarrow> duration" where
  "timer_step d = (if d \<le> (2 ^ 63 - 1) * 1000000 then d else 1000000000)"

definition emit :: "timer_state \<Rightarrow> timestamp \<times> timer_state" where
  "emit tm = (tm_next tm, tm\<lparr>tm_next := tm_next tm + timer_step (tm_interval tm)\<rparr>)"

section \<open>The timeline mode\<close>

record timeline_coordinator =
  tc_timeline :: timeline
  tc_current_tick :: "tick option"
  tc_snapshot_delivered :: bool
  tc_trade_index :: nat
  tc_spot_price_index :: nat
  tc_enqueued :: "loop_event list"
  tc_timer :: timer_state
  tc_now :: timestamp
  tc_exhausted :: bool

definition timeline_coordinator_new ::
  "(int \<Rightarrow> timestamp option) \<Rightarrow> timestamp \<Rightarrow> timeline \<Rightarrow> duration \<Rightarrow> timeline_coordinator" where
  "timeline_coordinator_new of_millis now line interval =
     (let (start, end_time) = (case time_range line of
             Some (s, e) \<Rightarrow> (unwrap_or (of_millis s) now, of_millis e)
           | None \<Rightarrow> (now, None));
        (first, rest) = next_tick line
      in \<lparr>tc_timeline = rest, tc_current_tick = first, tc_snapshot_delivered = False, tc_trade_index = 0,
          tc_spot_price_index = 0, tc_enqueued = [], tc_timer = timer_new interval start end_time,
          tc_now = start, tc_exhausted = False\<rparr>)"

text \<open>The next event of the current tick: its trades, then its spot prices, then its snapshot.\<close>

definition tick_event ::
  "(int \<Rightarrow> timestamp option) \<Rightarrow> timeline_coordinator \<Rightarrow> (loop_event \<times> timeline_coordinator) option" where
  "tick_event of_millis s =
     (case tc_current_tick s of
        None \<Rightarrow> None
      | Some k \<Rightarrow>
          if tc_trade_index s < length (ti_trades k) then
            let t = ti_trades k ! tc_trade_index s
            in Some (VenueTrade t, s\<lparr>tc_trade_index := Suc (tc_trade_index s),
                 tc_now := unwrap_or (of_millis (tr_timestamp t)) (tc_now s)\<rparr>)
          else if tc_spot_price_index s < length (ti_spot_prices k) then
            let p = ti_spot_prices k ! tc_spot_price_index s
            in Some (SpotPrice p, s\<lparr>tc_spot_price_index := Suc (tc_spot_price_index s), tc_now := spp_timestamp p\<rparr>)
          else if \<not> tc_snapshot_delivered s then
            Some (BookSnapshot (ti_snapshot k),
              s\<lparr>tc_now := unwrap_or (of_millis (bk_timestamp (ti_snapshot k))) (tc_now s),
                tc_snapshot_delivered := True\<rparr>)
          else None)"

text \<open>The loop that skips timers up to the end of the tick and stops at one that lies inside it.\<close>

partial_function (option) skip_timers ::
  "timestamp \<Rightarrow> timestamp \<Rightarrow> timer_state \<Rightarrow> (timestamp option \<times> timer_state) option" where
  "skip_timers now tick_end tm =
     (if should_emit tick_end tm then
        let ts = fst (emit tm); tm' = snd (emit tm)
        in if ts > now \<and> ts < tick_end then Some (Some ts, tm')
           else if ts \<ge> tick_end then Some (None, tm')
           else skip_timers now tick_end tm'
      else Some (None, tm))"

definition tick_end :: "(int \<Rightarrow> timestamp option) \<Rightarrow> timeline_coordinator \<Rightarrow> tick \<Rightarrow> timestamp" where
  "tick_end of_millis s k =
     unwrap_or (Option.bind (peek_tick (tc_timeline s)) (\<lambda>n. of_millis (tick_timestamp n)))
       (unwrap_or (tick_datetime of_millis k) (tc_now s) + 1000000000)"

definition tick_timer ::
  "(int \<Rightarrow> timestamp option) \<Rightarrow> timeline_coordinator \<Rightarrow> (timestamp option \<times> timeline_coordinator) option" where
  "tick_timer of_millis s =
     (case tc_current_tick s of
        None \<Rightarrow> Some (None, s)
      | Some k \<Rightarrow>
          (case skip_timers (tc_now s) (tick_end of_millis s k) (tc_timer s) of
             None \<Rightarrow> None
           | Some (None, tm) \<Rightarrow> Some (None, s\<lparr>tc_timer := tm\<rparr>)
           | Some (Some ts, tm) \<Rightarrow> Some (Some ts, s\<lparr>tc_timer := tm, tc_now := ts\<rparr>)))"

definition advance_tick :: "timeline_coordinator \<Rightarrow> timeline_coordinator" where
  "advance_tick s =
     (if tc_current_tick s = None then s
      else s\<lparr>tc_timeline := snd (next_tick (tc_timeline s)), tc_current_tick := fst (next_tick (tc_timeline s)),
             tc_snapshot_delivered := False, tc_trade_index := 0, tc_spot_price_index := 0\<rparr>)"

partial_function (option) timeline_next ::
  "(int \<Rightarrow> timestamp option) \<Rightarrow> timeline_coordinator \<Rightarrow> (loop_event option \<times> timeline_coordinator) option" where
  "timeline_next of_millis s =
     (if tc_exhausted s then Some (None, s)
      else case tc_enqueued s of
        ev # rest \<Rightarrow> Some (Some ev, s\<lparr>tc_enqueued := rest\<rparr>)
      | [] \<Rightarrow>
          (case tick_event of_millis s of
             Some (ev, s') \<Rightarrow> Some (Some ev, s')
           | None \<Rightarrow>
               (case tick_timer of_millis s of
                  None \<Rightarrow> None
                | Some (Some ts, s') \<Rightarrow> Some (Some (TimerEv ts), s')
                | Some (None, s') \<Rightarrow>
                    (if tc_current_tick (advance_tick s') = None
                     then Some (None, (advance_tick s')\<lparr>tc_exhausted := True\<rparr>)
                     else timeline_next of_millis (advance_tick s')))))"

section \<open>The streaming mode\<close>

record streaming_coordinator =
  st_snapshots :: "book_snapshot list"
  st_updates :: "book_update list"
  st_trades :: "trade list"
  st_spot_prices :: "spot_price list option"
  st_tracker :: tracker
  st_enqueued :: "loop_event list"
  st_timer :: timer_state
  st_now :: timestamp
  st_first_ts :: int
  st_exhausted :: bool

definition new_from_data ::
  "(int \<Rightarrow> timestamp option) \<Rightarrow> timestamp \<Rightarrow> book_snapshot list \<Rightarrow> book_update list \<Rightarrow> trade list \<Rightarrow>
   spot_price list option \<Rightarrow> duration \<Rightarrow> streaming_coordinator" where
  "new_from_data of_millis now snapshots updates trades spots interval =
     (let snaps = sort_key bk_timestamp snapshots; upds = sort_key bu_timestamp updates;
        (start, end_time, first_ts) = (case snaps of
             [] \<Rightarrow> (now, None, i64_max)
           | s # ss \<Rightarrow>
               let last_snapshot = bk_timestamp (last snaps);
                 last_update = (if upds = [] then last_snapshot else bu_timestamp (last upds))
               in (unwrap_or (of_millis (bk_timestamp s)) now, of_millis (max last_snapshot last_update), bk_timestamp s))
      in \<lparr>st_snapshots = snaps, st_updates = upds, st_trades = sort_key tr_timestamp trades,
          st_spot_prices = map_option (sort_key spp_timestamp) spots, st_tracker = tracker_new, st_enqueued = [],
          st_timer = timer_new interval start end_time, st_now = start, st_first_ts = first_ts, st_exhausted = False\<rparr>)"

definition peek_time :: "('a \<Rightarrow> int) \<Rightarrow> 'a list \<Rightarrow> int option" where
  "peek_time time xs = (case xs of [] \<Rightarrow> None | x # rest \<Rightarrow> Some (time x))"

fun earlier :: "int option \<Rightarrow> int option \<Rightarrow> int option" where
  "earlier (Some a) (Some b) = Some (min a b)"
| "earlier (Some a) None = Some a"
| "earlier None b = b"

definition peek_next_orderbook_ts :: "streaming_coordinator \<Rightarrow> int option" where
  "peek_next_orderbook_ts s = earlier (peek_time bk_timestamp (st_snapshots s)) (peek_time bu_timestamp (st_updates s))"

datatype orderbook_input = SnapshotInput book_snapshot | UpdateInput book_update

definition pop_next_orderbook_input ::
  "streaming_coordinator \<Rightarrow> orderbook_input option \<times> streaming_coordinator" where
  "pop_next_orderbook_input s =
     (case (st_snapshots s, st_updates s) of
        (b # bs, u # us) \<Rightarrow>
          if bk_timestamp b \<le> bu_timestamp u then (Some (SnapshotInput b), s\<lparr>st_snapshots := bs\<rparr>)
          else (Some (UpdateInput u), s\<lparr>st_updates := us\<rparr>)
      | (b # bs, []) \<Rightarrow> (Some (SnapshotInput b), s\<lparr>st_snapshots := bs\<rparr>)
      | ([], u # us) \<Rightarrow> (Some (UpdateInput u), s\<lparr>st_updates := us\<rparr>)
      | ([], []) \<Rightarrow> (None, s))"

definition spot_millis :: "spot_price \<Rightarrow> int" where "spot_millis p = timestamp_millis (spp_timestamp p)"

definition next_data_ts :: "streaming_coordinator \<Rightarrow> int option" where
  "next_data_ts s =
     earlier (earlier (peek_next_orderbook_ts s) (peek_time tr_timestamp (st_trades s)))
       (peek_time spot_millis (unwrap_or (st_spot_prices s) []))"

text \<open>One pass of the loop delivers an event, goes on with less data, or finds the data exhausted.\<close>

datatype stream_result = Deliver loop_event streaming_coordinator | Again streaming_coordinator | Stop streaming_coordinator

definition due_timer :: "(int \<Rightarrow> timestamp option) \<Rightarrow> int \<Rightarrow> streaming_coordinator \<Rightarrow> bool" where
  "due_timer of_millis next_ts s =
     (case of_millis next_ts of None \<Rightarrow> False | Some t \<Rightarrow> should_emit t (st_timer s))"

definition orderbook_step ::
  "(int \<Rightarrow> timestamp option) \<Rightarrow> timestamp \<Rightarrow> streaming_coordinator \<Rightarrow> stream_result" where
  "orderbook_step of_millis now s =
     (case pop_next_orderbook_input s of
        (None, s') \<Rightarrow> Stop (s'\<lparr>st_exhausted := True\<rparr>)
      | (Some input, s') \<Rightarrow>
          (case (case input of
                   SnapshotInput b \<Rightarrow> map_prod id Some (apply_snapshot of_millis now b (st_tracker s'))
                 | UpdateInput u \<Rightarrow> apply_update of_millis now u (st_tracker s')) of
             (t, None) \<Rightarrow> Again (s'\<lparr>st_tracker := t\<rparr>)
           | (t, Some b) \<Rightarrow>
               Deliver (BookSnapshot b)
                 (s'\<lparr>st_tracker := t, st_now := unwrap_or (of_millis (bk_timestamp b)) (st_now s')\<rparr>)))"

definition spot_step ::
  "(int \<Rightarrow> timestamp option) \<Rightarrow> timestamp \<Rightarrow> int \<Rightarrow> streaming_coordinator \<Rightarrow> stream_result" where
  "spot_step of_millis now next_ts s =
     (case unwrap_or (st_spot_prices s) [] of
        p # rest \<Rightarrow>
          if spot_millis p = next_ts then
            Deliver (SpotPrice p) (s\<lparr>st_spot_prices := Some rest, st_now := spp_timestamp p\<rparr>)
          else orderbook_step of_millis now s
      | [] \<Rightarrow> orderbook_step of_millis now s)"

definition trade_step ::
  "(int \<Rightarrow> timestamp option) \<Rightarrow> timestamp \<Rightarrow> int \<Rightarrow> streaming_coordinator \<Rightarrow> stream_result" where
  "trade_step of_millis now next_ts s =
     (case st_trades s of
        t # rest \<Rightarrow>
          if tr_timestamp t < st_first_ts s then Again (s\<lparr>st_trades := rest\<rparr>)
          else if tr_timestamp t = next_ts then
            Deliver (VenueTrade t)
              (s\<lparr>st_trades := rest, st_now := unwrap_or (of_millis (tr_timestamp t)) (st_now s)\<rparr>)
          else spot_step of_millis now next_ts s
      | [] \<Rightarrow> spot_step of_millis now next_ts s)"

definition stream_step :: "(int \<Rightarrow> timestamp option) \<Rightarrow> timestamp \<Rightarrow> streaming_coordinator \<Rightarrow> stream_result" where
  "stream_step of_millis now s =
     (if st_exhausted s then Stop s
      else case st_enqueued s of
        ev # rest \<Rightarrow> Deliver ev (s\<lparr>st_enqueued := rest\<rparr>)
      | [] \<Rightarrow>
          (case next_data_ts s of
             None \<Rightarrow> Stop (s\<lparr>st_exhausted := True\<rparr>)
           | Some next_ts \<Rightarrow>
               if due_timer of_millis next_ts s then
                 Deliver (TimerEv (fst (emit (st_timer s))))
                   (s\<lparr>st_timer := snd (emit (st_timer s)), st_now := fst (emit (st_timer s))\<rparr>)
               else trade_step of_millis now next_ts s))"

definition data_left :: "streaming_coordinator \<Rightarrow> nat" where
  "data_left s = length (st_snapshots s) + length (st_updates s) + length (st_trades s)"

lemma again_less: "stream_step of_millis now s = Again s' \<Longrightarrow> data_left s' < data_left s"
  by (auto simp: stream_step_def trade_step_def spot_step_def orderbook_step_def pop_next_orderbook_input_def
      data_left_def Let_def split: list.splits option.splits if_splits prod.splits orderbook_input.splits)

function streaming_next ::
  "(int \<Rightarrow> timestamp option) \<Rightarrow> timestamp \<Rightarrow> streaming_coordinator \<Rightarrow> loop_event option \<times> streaming_coordinator" where
  "streaming_next of_millis now s =
     (case stream_step of_millis now s of
        Deliver ev s' \<Rightarrow> (Some ev, s')
      | Again s' \<Rightarrow> streaming_next of_millis now s'
      | Stop s' \<Rightarrow> (None, s'))"
  by pat_completeness auto
termination
  by (relation "measure (\<lambda>(f, now, s). data_left s)") (auto dest: again_less)

declare streaming_next.simps [simp del]

section \<open>The coordinator\<close>

datatype coordinator = TimelineMode timeline_coordinator | StreamingMode streaming_coordinator

fun coord_queue :: "coordinator \<Rightarrow> loop_event list" where
  "coord_queue (TimelineMode s) = tc_enqueued s"
| "coord_queue (StreamingMode s) = st_enqueued s"

fun coord_enqueue :: "loop_event \<Rightarrow> coordinator \<Rightarrow> coordinator" where
  "coord_enqueue ev (TimelineMode s) = TimelineMode (s\<lparr>tc_enqueued := tc_enqueued s @ [ev]\<rparr>)"
| "coord_enqueue ev (StreamingMode s) = StreamingMode (s\<lparr>st_enqueued := st_enqueued s @ [ev]\<rparr>)"

definition enqueue_limit_order_events :: "limit_order_event list \<Rightarrow> coordinator \<Rightarrow> coordinator" where
  "enqueue_limit_order_events evs c = foldl (\<lambda>c ev. coord_enqueue (Internal (LimitOrderEv ev)) c) c evs"

definition enqueued_count :: "coordinator \<Rightarrow> nat" where "enqueued_count c = length (coord_queue c)"

fun current_sim_time :: "coordinator \<Rightarrow> timestamp" where
  "current_sim_time (TimelineMode s) = tc_now s"
| "current_sim_time (StreamingMode s) = st_now s"

fun is_exhausted :: "coordinator \<Rightarrow> bool" where
  "is_exhausted (TimelineMode s) = tc_exhausted s"
| "is_exhausted (StreamingMode s) = st_exhausted s"

fun next_event ::
  "(int \<Rightarrow> timestamp option) \<Rightarrow> timestamp \<Rightarrow> coordinator \<Rightarrow> (loop_event option \<times> coordinator) option" where
  "next_event of_millis now (TimelineMode s) = map_option (map_prod id TimelineMode) (timeline_next of_millis s)"
| "next_event of_millis now (StreamingMode s) = Some (map_prod id StreamingMode (streaming_next of_millis now s))"

end
