(* ===== verification/Coordinator_Runs.thy ===== *)
theory Coordinator_Runs
  imports Backtest_Coordinator
begin

text \<open>
  What the coordinator of backtests delivers.  Both modes return from every call unless the timer
  interval is zero; the events the system enqueues come out in their order; the timeline mode delivers the
  events of its ticks tick by tick, and the streaming mode delivers the books that merging snapshots and
  updates gives, the trades and the spot prices, ordered by their times.
\<close>

section \<open>Calls return\<close>

lemma skip_timers_returns:
  assumes "0 < timer_step (tm_interval tm)"
  shows "\<exists>ts tm'. skip_timers now e tm = Some (ts, tm') \<and> tm_interval tm' = tm_interval tm"
  using assms
proof (induction "nat (e - tm_next tm)" arbitrary: tm rule: less_induct)
  case less
  let ?tm = "snd (emit tm)"
  have next_tm: "tm_interval ?tm = tm_interval tm" "tm_next ?tm = tm_next tm + timer_step (tm_interval tm)"
    by (simp_all add: emit_def)
  show ?case
  proof (cases "should_emit e tm \<and> \<not> (tm_next tm > now \<and> tm_next tm < e) \<and> tm_next tm < e")
    case True
    then have "skip_timers now e tm = skip_timers now e ?tm" by (subst skip_timers.simps) (auto simp: emit_def Let_def)
    moreover have "nat (e - tm_next ?tm) < nat (e - tm_next tm)" using True less.prems next_tm(2) by simp
    ultimately show ?thesis using less.hyps [of ?tm] less.prems next_tm(1) by simp
  next
    case False
    then show ?thesis by (subst skip_timers.simps) (auto simp: emit_def Let_def)
  qed
qed

lemma tick_timer_returns:
  assumes "0 < timer_step (tm_interval (tc_timer s))"
  shows "\<exists>ts s'. tick_timer of_millis s = Some (ts, s') \<and> tm_interval (tc_timer s') = tm_interval (tc_timer s)
    \<and> tc_timeline s' = tc_timeline s \<and> tc_current_tick s' = tc_current_tick s"
proof (cases "tc_current_tick s")
  case (Some k)
  obtain ts tm where tm: "skip_timers (tc_now s) (tick_end of_millis s k) (tc_timer s) = Some (ts, tm)"
    "tm_interval tm = tm_interval (tc_timer s)"
    using skip_timers_returns [OF assms] by blast
  then show ?thesis using Some by (cases ts) (simp_all add: tick_timer_def)
qed (simp add: tick_timer_def)

lemma tick_event_timer: "tick_event of_millis s = Some (ev, s') \<Longrightarrow> tc_timer s' = tc_timer s"
  by (auto simp: tick_event_def Let_def split: option.splits if_splits)

lemma timeline_next_returns:
  assumes "0 < timer_step (tm_interval (tc_timer s))"
  shows "\<exists>r s'. timeline_next of_millis s = Some (r, s') \<and> tm_interval (tc_timer s') = tm_interval (tc_timer s)"
  using assms
proof (induction "length (tl_ticks (tc_timeline s)) - tl_current_index (tc_timeline s)" arbitrary: s rule: less_induct)
  case less
  obtain ts s1 where s1: "tick_timer of_millis s = Some (ts, s1)" "tm_interval (tc_timer s1) = tm_interval (tc_timer s)"
    "tc_timeline s1 = tc_timeline s" "tc_current_tick s1 = tc_current_tick s"
    using tick_timer_returns [OF less.prems] by blast
  have same: "tc_timer (advance_tick s1) = tc_timer s1" by (simp add: advance_tick_def)
  have "\<exists>r s'. timeline_next of_millis (advance_tick s1) = Some (r, s') \<and> tm_interval (tc_timer s') = tm_interval (tc_timer s)"
    if "tc_current_tick (advance_tick s1) \<noteq> None"
    using that s1 less.prems less.hyps [of "advance_tick s1"] same
    by (auto simp: advance_tick_def next_tick_def split: if_splits)
  then show ?case
    using s1(1,2) same tick_event_timer [of of_millis s]
    by (subst timeline_next.simps) (auto split: list.split option.split)
qed

text \<open>With an interval of zero the timer never passes a time at which it stands.\<close>

lemma zero_interval_stuck:
  assumes "timer_step (tm_interval tm) = 0" "should_emit e tm" "tm_next tm \<le> now" "tm_next tm < e"
  shows "skip_timers now e tm = None"
proof -
  have "\<not> (timer_step (tm_interval tm) = 0 \<and> should_emit e tm \<and> tm_next tm \<le> now \<and> tm_next tm < e)"
    if "skip_timers now e tm = Some r" for r
  proof (rule skip_timers.raw_induct [where P = "\<lambda>now e tm r.
      \<not> (timer_step (tm_interval tm) = 0 \<and> should_emit e tm \<and> tm_next tm \<le> now \<and> tm_next tm < e)", OF _ that])
    fix f now e tm r
    assume IH: "\<And>now e tm r. f now e tm = Some r \<Longrightarrow>
        \<not> (timer_step (tm_interval tm) = 0 \<and> should_emit e tm \<and> tm_next tm \<le> now \<and> tm_next tm < e)"
      and eq: "(if should_emit e tm then
          let ts = fst (emit tm); tm' = snd (emit tm)
          in if ts > now \<and> ts < e then Some (Some ts, tm') else if ts \<ge> e then Some (None, tm') else f now e tm'
        else Some (None, tm)) = Some r"
    show "\<not> (timer_step (tm_interval tm) = 0 \<and> should_emit e tm \<and> tm_next tm \<le> now \<and> tm_next tm < e)"
      using eq IH [of now e "snd (emit tm)" r]
      by (auto simp: emit_def Let_def should_emit_def split: if_splits option.splits)
  qed
  then show ?thesis using assms by (cases "skip_timers now e tm") auto
qed

section \<open>Runs\<close>

datatype coord_op = EnqueueOp loop_event | NextOp timestamp

text \<open>The events delivered with a mark for those from the queue; \<open>None\<close> for a call that does not return.\<close>

fun coord_run ::
  "(int \<Rightarrow> timestamp option) \<Rightarrow> coord_op list \<Rightarrow> coordinator \<Rightarrow> ((bool \<times> loop_event) list \<times> coordinator) option" where
  "coord_run of_millis [] c = Some ([], c)"
| "coord_run of_millis (EnqueueOp ev # ops) c = coord_run of_millis ops (coord_enqueue ev c)"
| "coord_run of_millis (NextOp now # ops) c =
     (case next_event of_millis now c of
        None \<Rightarrow> None
      | Some (None, c') \<Rightarrow> coord_run of_millis ops c'
      | Some (Some ev, c') \<Rightarrow>
          map_option (map_prod (\<lambda>out. (coord_queue c \<noteq> [], ev) # out) id) (coord_run of_millis ops c'))"

definition from_queue :: "(bool \<times> loop_event) list \<Rightarrow> loop_event list" where
  "from_queue out = map snd (filter fst out)"

definition from_data :: "(bool \<times> loop_event) list \<Rightarrow> loop_event list" where
  "from_data out = map snd (filter (\<lambda>(q, ev). \<not> q) out)"

fun enqueued_by :: "coord_op list \<Rightarrow> loop_event list" where
  "enqueued_by [] = []"
| "enqueued_by (EnqueueOp ev # ops) = ev # enqueued_by ops"
| "enqueued_by (NextOp now # ops) = enqueued_by ops"

lemma from_simps [simp]:
  "from_queue [] = []" "from_data [] = []"
  "from_queue ((q, ev) # out) = (if q then ev # from_queue out else from_queue out)"
  "from_data ((q, ev) # out) = (if q then from_data out else ev # from_data out)"
  by (simp_all add: from_queue_def from_data_def)

definition books_of :: "loop_event list \<Rightarrow> book_snapshot list" where
  "books_of evs = concat (map (\<lambda>ev. case ev of BookSnapshot b \<Rightarrow> [b] | _ \<Rightarrow> []) evs)"

definition trades_of :: "loop_event list \<Rightarrow> trade list" where
  "trades_of evs = concat (map (\<lambda>ev. case ev of VenueTrade t \<Rightarrow> [t] | _ \<Rightarrow> []) evs)"

definition spots_of :: "loop_event list \<Rightarrow> spot_price list" where
  "spots_of evs = concat (map (\<lambda>ev. case ev of SpotPrice p \<Rightarrow> [p] | _ \<Rightarrow> []) evs)"

fun is_timer :: "loop_event \<Rightarrow> bool" where
  "is_timer (TimerEv t) = True"
| "is_timer ev = False"

definition data_of :: "loop_event list \<Rightarrow> loop_event list" where
  "data_of evs = filter (\<lambda>ev. \<not> is_timer ev) evs"

lemma kinds_simps [simp]:
  "books_of [] = []" "trades_of [] = []" "spots_of [] = []" "data_of [] = []"
  "books_of (ev # evs) = (case ev of BookSnapshot b \<Rightarrow> [b] | _ \<Rightarrow> []) @ books_of evs"
  "trades_of (ev # evs) = (case ev of VenueTrade t \<Rightarrow> [t] | _ \<Rightarrow> []) @ trades_of evs"
  "spots_of (ev # evs) = (case ev of SpotPrice p \<Rightarrow> [p] | _ \<Rightarrow> []) @ spots_of evs"
  "data_of (ev # evs) = (if is_timer ev then data_of evs else ev # data_of evs)"
  by (simp_all add: books_of_def trades_of_def spots_of_def data_of_def)

section \<open>What the timeline mode delivers\<close>

definition tick_events :: "tick \<Rightarrow> loop_event list" where
  "tick_events k = map VenueTrade (ti_trades k) @ map SpotPrice (ti_spot_prices k) @ [BookSnapshot (ti_snapshot k)]"

definition tick_rest :: "timeline_coordinator \<Rightarrow> tick \<Rightarrow> loop_event list" where
  "tick_rest s k = map VenueTrade (drop (tc_trade_index s) (ti_trades k))
     @ map SpotPrice (drop (tc_spot_price_index s) (ti_spot_prices k))
     @ (if tc_snapshot_delivered s then [] else [BookSnapshot (ti_snapshot k)])"

definition timeline_rest :: "timeline_coordinator \<Rightarrow> loop_event list" where
  "timeline_rest s = (case tc_current_tick s of None \<Rightarrow> [] | Some k \<Rightarrow> tick_rest s k)
     @ concat (map tick_events (drop (tl_current_index (tc_timeline s)) (tl_ticks (tc_timeline s))))"

definition timeline_ok :: "timeline_coordinator \<Rightarrow> bool" where
  "timeline_ok s \<longleftrightarrow> (tc_exhausted s \<longrightarrow> tc_current_tick s = None)
     \<and> (tc_current_tick s = None \<longrightarrow> length (tl_ticks (tc_timeline s)) \<le> tl_current_index (tc_timeline s))"

lemma tick_event_rest:
  assumes "tick_event of_millis s = Some (ev, s')"
  shows "timeline_rest s = ev # timeline_rest s' \<and> \<not> is_timer ev \<and> tc_enqueued s' = tc_enqueued s
    \<and> tc_exhausted s' = tc_exhausted s \<and> (timeline_ok s \<longrightarrow> timeline_ok s')"
  using assms
  by (auto simp: tick_event_def timeline_rest_def tick_rest_def timeline_ok_def Let_def Cons_nth_drop_Suc [symmetric]
      split: option.splits if_splits)

lemma tick_event_none:
  assumes "tick_event of_millis s = None"
  shows "case tc_current_tick s of None \<Rightarrow> True | Some k \<Rightarrow> tick_rest s k = []"
  using assms by (auto simp: tick_event_def tick_rest_def Let_def split: option.splits if_splits)

lemma tick_timer_frame:
  assumes "tick_timer of_millis s = Some (ts, s')"
  shows "timeline_rest s' = timeline_rest s" "tc_enqueued s' = tc_enqueued s" "tc_exhausted s' = tc_exhausted s"
    "timeline_ok s' = timeline_ok s" "tc_current_tick s' = tc_current_tick s"
    "\<And>k. tick_rest s' k = tick_rest s k"
  using assms
  by (auto simp: tick_timer_def timeline_rest_def tick_rest_def timeline_ok_def split: option.splits)

lemma advance_rest:
  assumes "timeline_ok s" "case tc_current_tick s of None \<Rightarrow> True | Some k \<Rightarrow> tick_rest s k = []"
  shows "timeline_rest (advance_tick s) = timeline_rest s"
    "tc_enqueued (advance_tick s) = tc_enqueued s" "tc_exhausted (advance_tick s) = tc_exhausted s"
    "tc_current_tick (advance_tick s) = None \<Longrightarrow> timeline_rest s = []"
    "\<not> tc_exhausted s \<Longrightarrow> timeline_ok (advance_tick s)"
  using assms
  by (auto simp: advance_tick_def next_tick_def timeline_rest_def tick_rest_def timeline_ok_def tick_events_def
      Cons_nth_drop_Suc [symmetric] split: option.splits if_splits)

definition timeline_step :: "timeline_coordinator \<Rightarrow> loop_event option \<times> timeline_coordinator \<Rightarrow> bool" where
  "timeline_step s rs \<longleftrightarrow>
     (case rs of (r, s') \<Rightarrow> timeline_ok s' \<and>
        (if tc_exhausted s then r = None \<and> s' = s
         else if tc_enqueued s \<noteq> [] then
           r = Some (hd (tc_enqueued s)) \<and> tc_enqueued s' = tl (tc_enqueued s) \<and> timeline_rest s' = timeline_rest s
             \<and> \<not> tc_exhausted s'
         else tc_enqueued s' = [] \<and>
           (case r of
              None \<Rightarrow> timeline_rest s = [] \<and> timeline_rest s' = [] \<and> tc_exhausted s'
            | Some ev \<Rightarrow> \<not> tc_exhausted s' \<and>
                timeline_rest s = (if is_timer ev then timeline_rest s' else ev # timeline_rest s'))))"

lemma timeline_next_step:
  assumes "timeline_next of_millis s = Some rs" "timeline_ok s"
  shows "timeline_step s rs"
proof -
  have "timeline_ok s \<longrightarrow> timeline_step s rs"
  proof (rule timeline_next.raw_induct [where P = "\<lambda>m s rs. timeline_ok s \<longrightarrow> timeline_step s rs", OF _ assms(1)])
    fix f m s rs
    assume IH: "\<And>m s rs. f m s = Some rs \<Longrightarrow> timeline_ok s \<longrightarrow> timeline_step s rs"
      and eq: "(if tc_exhausted s then Some (None, s)
        else case tc_enqueued s of
          ev # rest \<Rightarrow> Some (Some ev, s\<lparr>tc_enqueued := rest\<rparr>)
        | [] \<Rightarrow>
            (case tick_event m s of
               Some (ev, s') \<Rightarrow> Some (Some ev, s')
             | None \<Rightarrow>
                 (case tick_timer m s of
                    None \<Rightarrow> None
                  | Some (Some ts, s') \<Rightarrow> Some (Some (TimerEv ts), s')
                  | Some (None, s') \<Rightarrow>
                      (if tc_current_tick (advance_tick s') = None
                       then Some (None, (advance_tick s')\<lparr>tc_exhausted := True\<rparr>)
                       else f m (advance_tick s'))))) = Some rs"
    show "timeline_ok s \<longrightarrow> timeline_step s rs"
    proof
      assume ok: "timeline_ok s"
      consider (ex) "tc_exhausted s" | (queue) "\<not> tc_exhausted s" "tc_enqueued s \<noteq> []"
        | (data) ev s' where "\<not> tc_exhausted s" "tc_enqueued s = []" "tick_event m s = Some (ev, s')"
        | (none) "\<not> tc_exhausted s" "tc_enqueued s = []" "tick_event m s = None"
        by (cases "tick_event m s") auto
      then show "timeline_step s rs"
      proof cases
        case ex
        then show ?thesis using eq ok by (auto simp: timeline_step_def)
      next
        case queue
        then obtain ev q where "tc_enqueued s = ev # q" by (cases "tc_enqueued s") auto
        then show ?thesis
          using eq ok queue by (auto simp: timeline_step_def timeline_rest_def tick_rest_def [abs_def] timeline_ok_def
              split: option.split)
      next
        case data
        then show ?thesis using eq ok tick_event_rest [OF data(3)] by (auto simp: timeline_step_def)
      next
        case none
        then obtain ts s1 where t: "tick_timer m s = Some (ts, s1)" using eq by (cases "tick_timer m s") auto
        note frame = tick_timer_frame [OF t]
        show ?thesis
        proof (cases ts)
          case (Some t1)
          then show ?thesis using eq none t frame ok by (auto simp: timeline_step_def)
        next
          case None
          have empty: "case tc_current_tick s1 of None \<Rightarrow> True | Some k \<Rightarrow> tick_rest s1 k = []"
            using tick_event_none [OF none(3)] frame(5,6) by (cases "tc_current_tick s") simp_all
          note adv = advance_rest [OF _ empty]
          show ?thesis
          proof (cases "tc_current_tick (advance_tick s1) = None")
            case True
            have "timeline_rest ((advance_tick s1)\<lparr>tc_exhausted := True\<rparr>) = timeline_rest (advance_tick s1)"
              by (simp add: timeline_rest_def tick_rest_def split: option.split)
            moreover have "timeline_ok ((advance_tick s1)\<lparr>tc_exhausted := True\<rparr>)"
              using adv(5) True frame ok none by (simp add: timeline_ok_def)
            ultimately show ?thesis
              using eq none t \<open>ts = None\<close> True adv frame ok by (auto simp: timeline_step_def)
          next
            case False
            have "f m (advance_tick s1) = Some rs" using eq none t \<open>ts = None\<close> False by simp
            from IH [OF this] have "timeline_step (advance_tick s1) rs" using adv(5) frame ok none by simp
            then show ?thesis
              using adv frame ok none unfolding timeline_step_def by (auto split: option.splits prod.splits)
          qed
        qed
      qed
    qed
  qed
  then show ?thesis using assms(2) by blast
qed

section \<open>Streaming passes\<close>

text \<open>The books that result from snapshots and updates, taken in the order of their times with snapshots
  first: \<open>m\<close> is the book of each asset.  An update of an asset without a book is dropped.\<close>

function merged_books ::
  "(string \<Rightarrow> book_snapshot option) \<Rightarrow> book_snapshot list \<Rightarrow> book_update list \<Rightarrow> book_snapshot list" where
  "merged_books m bs us =
     (case (bs, us) of
        ([], []) \<Rightarrow> []
      | (b # bs', []) \<Rightarrow> b # merged_books (m(bk_asset_id b \<mapsto> b)) bs' []
      | (b # bs', u # us') \<Rightarrow>
          if bk_timestamp b \<le> bu_timestamp u then b # merged_books (m(bk_asset_id b \<mapsto> b)) bs' us
          else (case m (bu_asset_id u) of
                  None \<Rightarrow> merged_books m bs us'
                | Some k \<Rightarrow> updated_book u k # merged_books (m(bu_asset_id u \<mapsto> updated_book u k)) bs us')
      | ([], u # us') \<Rightarrow>
          (case m (bu_asset_id u) of
             None \<Rightarrow> merged_books m bs us'
           | Some k \<Rightarrow> updated_book u k # merged_books (m(bu_asset_id u \<mapsto> updated_book u k)) bs us'))"
  by pat_completeness auto
termination by (relation "measure (\<lambda>(m, bs, us). length bs + length us)") auto

declare merged_books.simps [simp del]

definition books_left :: "streaming_coordinator \<Rightarrow> book_snapshot list" where
  "books_left s = merged_books (\<lambda>a. get_orderbook a (st_tracker s)) (st_snapshots s) (st_updates s)"

definition trades_left :: "streaming_coordinator \<Rightarrow> trade list" where
  "trades_left s = filter (\<lambda>t. st_first_ts s \<le> tr_timestamp t) (st_trades s)"

definition spots_left :: "streaming_coordinator \<Rightarrow> spot_price list" where
  "spots_left s = unwrap_or (st_spot_prices s) []"

text \<open>A pass over the data with the time \<open>d\<close> of the earliest item: which item it takes and what it
  delivers.\<close>

definition all_from :: "int \<Rightarrow> streaming_coordinator \<Rightarrow> bool" where
  "all_from d s \<longleftrightarrow> (\<forall>x \<in> set (st_snapshots s). d \<le> bk_timestamp x) \<and> (\<forall>x \<in> set (st_updates s). d \<le> bu_timestamp x)
     \<and> (\<forall>x \<in> set (st_trades s). d \<le> tr_timestamp x) \<and> (\<forall>x \<in> set (spots_left s). d \<le> spot_millis x)"

inductive data_pass :: "int \<Rightarrow> streaming_coordinator \<Rightarrow> loop_event option \<Rightarrow> streaming_coordinator \<Rightarrow> bool" where
  early_trade: "st_trades s = t # ts \<Longrightarrow> tr_timestamp t < st_first_ts s \<Longrightarrow>
    data_pass d s None (s\<lparr>st_trades := ts\<rparr>)"
| trade: "st_trades s = t # ts \<Longrightarrow> st_first_ts s \<le> tr_timestamp t \<Longrightarrow> tr_timestamp t = d \<Longrightarrow>
    data_pass d s (Some (VenueTrade t)) (s\<lparr>st_trades := ts, st_now := n\<rparr>)"
| spot: "unwrap_or (st_spot_prices s) [] = p # ps \<Longrightarrow> spot_millis p = d \<Longrightarrow>
    data_pass d s (Some (SpotPrice p)) (s\<lparr>st_spot_prices := Some ps, st_now := n\<rparr>)"
| snapshot: "st_snapshots s = b # bs \<Longrightarrow> bk_timestamp b = d \<Longrightarrow>
    (\<And>u us. st_updates s = u # us \<Longrightarrow> bk_timestamp b \<le> bu_timestamp u) \<Longrightarrow>
    (\<lambda>a. get_orderbook a t) = ((\<lambda>a. get_orderbook a (st_tracker s)))(bk_asset_id b \<mapsto> b) \<Longrightarrow>
    data_pass d s (Some (BookSnapshot b)) (s\<lparr>st_snapshots := bs, st_tracker := t, st_now := n\<rparr>)"
| update: "st_updates s = u # us \<Longrightarrow> bu_timestamp u = d \<Longrightarrow>
    (\<And>b bs. st_snapshots s = b # bs \<Longrightarrow> \<not> bk_timestamp b \<le> bu_timestamp u) \<Longrightarrow>
    get_orderbook (bu_asset_id u) (st_tracker s) = Some k \<Longrightarrow>
    (\<lambda>a. get_orderbook a t) = ((\<lambda>a. get_orderbook a (st_tracker s)))(bu_asset_id u \<mapsto> updated_book u k) \<Longrightarrow>
    data_pass d s (Some (BookSnapshot (updated_book u k))) (s\<lparr>st_updates := us, st_tracker := t, st_now := n\<rparr>)"
| lost_update: "st_updates s = u # us \<Longrightarrow> bu_timestamp u = d \<Longrightarrow>
    (\<And>b bs. st_snapshots s = b # bs \<Longrightarrow> \<not> bk_timestamp b \<le> bu_timestamp u) \<Longrightarrow>
    get_orderbook (bu_asset_id u) (st_tracker s) = None \<Longrightarrow>
    (\<lambda>a. get_orderbook a t) = (\<lambda>a. get_orderbook a (st_tracker s)) \<Longrightarrow>
    data_pass d s None (s\<lparr>st_updates := us, st_tracker := t\<rparr>)"

lemma snapshot_books:
  "(\<lambda>a. get_orderbook a (fst (apply_snapshot of_millis now b t))) = (\<lambda>a. get_orderbook a t)(bk_asset_id b \<mapsto> b)"
  "snd (apply_snapshot of_millis now b t) = b"
  by (simp_all add: apply_snapshot_def get_orderbook_def fun_eq_iff)

lemma update_books:
  assumes "get_orderbook (bu_asset_id u) t = Some k"
  shows "(\<lambda>a. get_orderbook a (fst (apply_update of_millis now u t))) =
      (\<lambda>a. get_orderbook a t)(bu_asset_id u \<mapsto> updated_book u k)"
    and "snd (apply_update of_millis now u t) = Some (updated_book u k)"
  using assms by (auto simp: apply_update_def get_orderbook_def fun_eq_iff Let_def)

lemma update_no_book: "get_orderbook (bu_asset_id u) t = None \<Longrightarrow> apply_update of_millis now u t = (t, None)"
  by (simp add: apply_update_def get_orderbook_def)

lemma next_data_head:
  assumes "next_data_ts s = Some d"
  shows "\<And>b bs. st_snapshots s = b # bs \<Longrightarrow> d \<le> bk_timestamp b"
    and "\<And>u us. st_updates s = u # us \<Longrightarrow> d \<le> bu_timestamp u"
    and "\<And>t ts. st_trades s = t # ts \<Longrightarrow> d \<le> tr_timestamp t"
    and "\<And>p ps. spots_left s = p # ps \<Longrightarrow> d \<le> spot_millis p"
    and "(\<exists>b bs. st_snapshots s = b # bs \<and> bk_timestamp b = d) \<or> (\<exists>u us. st_updates s = u # us \<and> bu_timestamp u = d)
      \<or> (\<exists>t ts. st_trades s = t # ts \<and> tr_timestamp t = d) \<or> (\<exists>p ps. spots_left s = p # ps \<and> spot_millis p = d)"
  using assms unfolding next_data_ts_def peek_next_orderbook_ts_def peek_time_def spots_left_def [symmetric]
  by (cases "st_snapshots s"; cases "st_updates s"; cases "st_trades s"; cases "spots_left s"; auto simp: min_def split: if_splits)+

lemma no_data:
  assumes "next_data_ts s = None"
  shows "books_left s = []" "trades_left s = []" "spots_left s = []"
  using assms
  by (auto simp: next_data_ts_def peek_next_orderbook_ts_def peek_time_def books_left_def trades_left_def spots_left_def
      merged_books.simps split: list.splits elim: earlier.elims)

definition passes :: "int \<Rightarrow> streaming_coordinator \<Rightarrow> stream_result \<Rightarrow> bool" where
  "passes d s r \<longleftrightarrow> (case r of Deliver ev s' \<Rightarrow> data_pass d s (Some ev) s' | Again s' \<Rightarrow> data_pass d s None s' | Stop s' \<Rightarrow> False)"

lemma snapshot_pass:
  assumes "st_snapshots s = b # bs" "bk_timestamp b = d"
    "pop_next_orderbook_input s = (Some (SnapshotInput b), s\<lparr>st_snapshots := bs\<rparr>)"
    "\<And>u us. st_updates s = u # us \<Longrightarrow> bk_timestamp b \<le> bu_timestamp u"
  shows "passes d s (orderbook_step of_millis now s)"
proof -
  obtain t where t: "apply_snapshot of_millis now b (st_tracker s) = (t, b)"
    using snapshot_books(2) by (metis prod.collapse)
  then show ?thesis
    using data_pass.snapshot [OF assms(1,2,4)] snapshot_books(1) [of of_millis now b "st_tracker s"] assms(3)
    by (simp add: orderbook_step_def passes_def)
qed

lemma update_pass:
  assumes "st_updates s = u # us" "bu_timestamp u = d"
    "pop_next_orderbook_input s = (Some (UpdateInput u), s\<lparr>st_updates := us\<rparr>)"
    "\<And>b bs. st_snapshots s = b # bs \<Longrightarrow> \<not> bk_timestamp b \<le> bu_timestamp u"
  shows "passes d s (orderbook_step of_millis now s)"
proof (cases "get_orderbook (bu_asset_id u) (st_tracker s)")
  case None
  then show ?thesis
    using data_pass.lost_update [OF assms(1,2,4) None refl] assms(3)
    by (simp add: orderbook_step_def passes_def update_no_book)
next
  case (Some k)
  obtain t where t: "apply_update of_millis now u (st_tracker s) = (t, Some (updated_book u k))"
    using update_books(2) [OF Some] by (metis prod.collapse)
  then show ?thesis
    using data_pass.update [OF assms(1,2,4) Some] update_books(1) [OF Some, where of_millis = of_millis and now = now] assms(3)
    by (simp add: orderbook_step_def passes_def)
qed

lemma orderbook_pass:
  assumes d: "next_data_ts s = Some d"
    and no: "\<And>t ts. st_trades s = t # ts \<Longrightarrow> tr_timestamp t \<noteq> d" "\<And>p ps. spots_left s = p # ps \<Longrightarrow> spot_millis p \<noteq> d"
  shows "passes d s (orderbook_step of_millis now s)"
proof -
  note head = next_data_head [OF d]
  have "(\<exists>b bs. st_snapshots s = b # bs \<and> bk_timestamp b = d) \<or> (\<exists>u us. st_updates s = u # us \<and> bu_timestamp u = d)"
    using head(5) no by blast
  then show ?thesis
  proof (cases "\<exists>b bs. st_snapshots s = b # bs \<and> bk_timestamp b = d")
    case True
    then obtain b bs where b: "st_snapshots s = b # bs" "bk_timestamp b = d" by blast
    then show ?thesis
      using head(2) by (intro snapshot_pass [OF b]) (auto simp: pop_next_orderbook_input_def split: list.split)
  next
    case False
    with head(5) no obtain u us where u: "st_updates s = u # us" "bu_timestamp u = d" by blast
    have "\<not> bk_timestamp b \<le> bu_timestamp u" if "st_snapshots s = b # bs" for b bs
      using head(1) [OF that] False that u(2) by (metis order_antisym)
    then show ?thesis
      by (intro update_pass [OF u]) (auto simp: pop_next_orderbook_input_def u split: list.split)
  qed
qed

lemma data_step_pass:
  assumes d: "next_data_ts s = Some d"
  shows "passes d s (trade_step of_millis now d s)"
proof -
  have spot: "passes d s (spot_step of_millis now d s)" if "\<And>t ts. st_trades s = t # ts \<Longrightarrow> tr_timestamp t \<noteq> d"
    using orderbook_pass [OF d that, where of_millis = of_millis and now = now]
    by (cases "unwrap_or (st_spot_prices s) []") (auto simp: spot_step_def passes_def spots_left_def intro: data_pass.spot)
  show ?thesis
  proof (cases "st_trades s")
    case Nil
    then show ?thesis using spot by (simp add: trade_step_def)
  next
    case (Cons t ts)
    then show ?thesis using spot
      by (auto simp: trade_step_def passes_def intro: data_pass.early_trade data_pass.trade)
  qed
qed

section \<open>What the streaming mode delivers\<close>

text \<open>\<open>delivered s evs s'\<close>: the events \<open>evs\<close> are the difference between what the two states still hold.\<close>

definition delivered :: "streaming_coordinator \<Rightarrow> loop_event list \<Rightarrow> streaming_coordinator \<Rightarrow> bool" where
  "delivered s evs s' \<longleftrightarrow> books_left s = books_of evs @ books_left s' \<and> trades_left s = trades_of evs @ trades_left s'
     \<and> spots_left s = spots_of evs @ spots_left s'"

lemma delivered_refl [simp]: "delivered s [] s"
  by (simp add: delivered_def)

lemma delivered_trans: "delivered s [] s' \<Longrightarrow> delivered s' evs s'' \<Longrightarrow> delivered s evs s''"
  by (simp add: delivered_def)

lemma merged_snapshot:
  assumes "\<And>u us'. us = u # us' \<Longrightarrow> bk_timestamp b \<le> bu_timestamp u"
  shows "merged_books m (b # bs) us = b # merged_books (m(bk_asset_id b \<mapsto> b)) bs us"
  using assms by (subst merged_books.simps) (auto split: list.split)

lemma merged_update:
  assumes "\<And>b bs'. bs = b # bs' \<Longrightarrow> \<not> bk_timestamp b \<le> bu_timestamp u"
  shows "merged_books m bs (u # us) =
    (case m (bu_asset_id u) of
       None \<Rightarrow> merged_books m bs us
     | Some k \<Rightarrow> updated_book u k # merged_books (m(bu_asset_id u \<mapsto> updated_book u k)) bs us)"
  using assms by (subst merged_books.simps) (auto split: list.split)

lemma pass_delivers:
  assumes "data_pass d s r s'"
  shows "delivered s (case r of None \<Rightarrow> [] | Some ev \<Rightarrow> [ev]) s' \<and> (\<forall>ev. r = Some ev \<longrightarrow> \<not> is_timer ev)
    \<and> st_enqueued s' = st_enqueued s \<and> st_exhausted s' = st_exhausted s"
  using assms
proof (cases rule: data_pass.cases)
  case (snapshot b bs t n)
  then show ?thesis
    using merged_snapshot [OF snapshot(5)]
    by (simp add: delivered_def books_left_def trades_left_def spots_left_def)
next
  case (update u us k t n)
  then show ?thesis
    using merged_update [OF update(5)]
    by (simp add: delivered_def books_left_def trades_left_def spots_left_def)
next
  case (lost_update u us t)
  then show ?thesis
    using merged_update [OF lost_update(5)]
    by (simp add: delivered_def books_left_def trades_left_def spots_left_def)
qed (simp_all add: delivered_def books_left_def trades_left_def spots_left_def)

lemma timer_delivers:
  "delivered s [TimerEv t] (s\<lparr>st_timer := tm, st_now := n\<rparr>)"
  by (simp add: delivered_def books_left_def trades_left_def spots_left_def)

lemma exhausted_left: "delivered s [] (s\<lparr>st_exhausted := x\<rparr>)" "delivered s [] (s\<lparr>st_enqueued := q\<rparr>)"
  by (simp_all add: delivered_def books_left_def trades_left_def spots_left_def)

definition streaming_step :: "streaming_coordinator \<Rightarrow> loop_event option \<times> streaming_coordinator \<Rightarrow> bool" where
  "streaming_step s rs \<longleftrightarrow>
     (case rs of (r, s') \<Rightarrow>
        if st_exhausted s then r = None \<and> s' = s
        else if st_enqueued s \<noteq> [] then
          r = Some (hd (st_enqueued s)) \<and> st_enqueued s' = tl (st_enqueued s) \<and> delivered s [] s' \<and> \<not> st_exhausted s'
        else st_enqueued s' = [] \<and> delivered s (case r of None \<Rightarrow> [] | Some ev \<Rightarrow> [ev]) s'
          \<and> (r = None \<longleftrightarrow> st_exhausted s')
          \<and> (r = None \<longrightarrow> books_left s' = [] \<and> trades_left s' = [] \<and> spots_left s' = []))"

text \<open>What one pass with an empty queue does.\<close>

lemma stream_step_data:
  assumes "\<not> st_exhausted s" "st_enqueued s = []"
  obtains (no_data) "next_data_ts s = None" "stream_step of_millis now s = Stop (s\<lparr>st_exhausted := True\<rparr>)"
  | (timer) d where "next_data_ts s = Some d" "due_timer of_millis d s"
      "stream_step of_millis now s = Deliver (TimerEv (fst (emit (st_timer s))))
         (s\<lparr>st_timer := snd (emit (st_timer s)), st_now := fst (emit (st_timer s))\<rparr>)"
  | (deliver) d ev s' where "next_data_ts s = Some d" "\<not> due_timer of_millis d s"
      "stream_step of_millis now s = Deliver ev s'" "data_pass d s (Some ev) s'"
  | (again) d s' where "next_data_ts s = Some d" "\<not> due_timer of_millis d s"
      "stream_step of_millis now s = Again s'" "data_pass d s None s'"
proof (cases "next_data_ts s")
  case None
  then show ?thesis using assms by (intro no_data) (simp_all add: stream_step_def)
next
  case (Some d)
  show ?thesis
  proof (cases "due_timer of_millis d s")
    case True
    then show ?thesis using assms Some by (intro timer) (simp_all add: stream_step_def)
  next
    case False
    have step: "stream_step of_millis now s = trade_step of_millis now d s"
      using assms Some False by (simp add: stream_step_def)
    show ?thesis
      using data_step_pass [OF Some, of of_millis now] deliver [OF Some False] again [OF Some False] step
      by (cases "trade_step of_millis now d s") (simp_all add: passes_def)
  qed
qed

lemma streaming_next_step: "streaming_step s (streaming_next of_millis now s)"
proof (induction of_millis now s rule: streaming_next.induct)
  case (1 of_millis now s)
  consider "st_exhausted s" | ev q where "\<not> st_exhausted s" "st_enqueued s = ev # q"
    | (data) "\<not> st_exhausted s" "st_enqueued s = []" by (cases "st_enqueued s") auto
  then show ?case
  proof cases
    case data
    then show ?thesis
    proof (cases rule: stream_step_data [where of_millis = of_millis and now = now])
      case no_data
      then show ?thesis
        using data Coordinator_Runs.no_data [OF no_data(1)] exhausted_left(1) [of s True]
        by (subst streaming_next.simps) (simp add: streaming_step_def delivered_def)
    next
      case (timer d)
      then show ?thesis
        using data timer_delivers by (subst streaming_next.simps) (simp add: streaming_step_def)
    next
      case (deliver d ev s')
      then show ?thesis
        using data pass_delivers [OF deliver(4)] by (subst streaming_next.simps) (simp add: streaming_step_def)
    next
      case (again d s')
      have "streaming_step s' (streaming_next of_millis now s')" by (rule 1 [OF again(3)])
      moreover have "streaming_next of_millis now s = streaming_next of_millis now s'"
        using again(3) by (subst streaming_next.simps) simp
      ultimately show ?thesis
        using data pass_delivers [OF again(4)] delivered_trans [of s s'] unfolding streaming_step_def
        by (auto split: prod.splits)
    qed
  qed (subst streaming_next.simps, simp add: stream_step_def streaming_step_def exhausted_left)+
qed

section \<open>Runs of both modes\<close>

lemma timeline_ok_exhausted: "timeline_ok s \<Longrightarrow> tc_exhausted s \<Longrightarrow> timeline_rest s = []"
  by (simp add: timeline_ok_def timeline_rest_def)

lemma timeline_enqueue [simp]:
  "timeline_rest (s\<lparr>tc_enqueued := q\<rparr>) = timeline_rest s" "timeline_ok (s\<lparr>tc_enqueued := q\<rparr>) = timeline_ok s"
  by (simp_all add: timeline_rest_def tick_rest_def timeline_ok_def split: option.split)

lemma timeline_run:
  assumes "coord_run of_millis ops (TimelineMode s) = Some (out, c)" "timeline_ok s"
  shows "\<exists>s'. c = TimelineMode s' \<and> timeline_ok s' \<and> timeline_rest s = data_of (from_data out) @ timeline_rest s'
    \<and> tc_enqueued s @ enqueued_by ops = from_queue out @ tc_enqueued s'"
  using assms
proof (induction ops arbitrary: s out)
  case (Cons op ops)
  show ?case
  proof (cases op)
    case (EnqueueOp ev)
    then show ?thesis using Cons.IH [of "s\<lparr>tc_enqueued := tc_enqueued s @ [ev]\<rparr>" out] Cons.prems by simp
  next
    case (NextOp now)
    obtain r s1 where n: "timeline_next of_millis s = Some (r, s1)"
      using Cons.prems(1) NextOp by (cases "timeline_next of_millis s") auto
    have step: "timeline_step s (r, s1)" by (rule timeline_next_step [OF n Cons.prems(2)])
    obtain out1 where run: "coord_run of_millis ops (TimelineMode s1) = Some (out1, c)"
      and out: "out = (case r of None \<Rightarrow> out1 | Some ev \<Rightarrow> (tc_enqueued s \<noteq> [], ev) # out1)"
      using Cons.prems(1) NextOp n by (cases r) auto
    obtain s' where s': "c = TimelineMode s'" "timeline_ok s'" "timeline_rest s1 = data_of (from_data out1) @ timeline_rest s'"
      "tc_enqueued s1 @ enqueued_by ops = from_queue out1 @ tc_enqueued s'"
      using Cons.IH [OF run] step unfolding timeline_step_def by (auto split: prod.splits)
    have "timeline_rest s = data_of (from_data out) @ timeline_rest s'"
      using step s'(3) out by (auto simp: timeline_step_def split: if_splits option.splits)
    moreover have "tc_enqueued s @ enqueued_by ops = from_queue out @ tc_enqueued s'"
      using step s'(4) out by (cases "tc_enqueued s") (auto simp: timeline_step_def split: if_splits option.splits)
    ultimately show ?thesis using s'(1,2) NextOp by simp
  qed
qed auto

lemma streaming_run:
  assumes "coord_run of_millis ops (StreamingMode s) = Some (out, c)"
    "st_exhausted s \<Longrightarrow> books_left s = [] \<and> trades_left s = [] \<and> spots_left s = []"
  shows "\<exists>s'. c = StreamingMode s' \<and> delivered s (from_data out) s'
    \<and> st_enqueued s @ enqueued_by ops = from_queue out @ st_enqueued s'
    \<and> (st_exhausted s' \<longrightarrow> books_left s' = [] \<and> trades_left s' = [] \<and> spots_left s' = [])"
  using assms
proof (induction ops arbitrary: s out)
  case (Cons op ops)
  show ?case
  proof (cases op)
    case (EnqueueOp ev)
    have "delivered s' evs s'' \<longleftrightarrow> delivered (s'\<lparr>st_enqueued := q\<rparr>) evs s''" for s' s'' evs q
      by (simp add: delivered_def books_left_def trades_left_def spots_left_def)
    moreover have "books_left (s\<lparr>st_enqueued := q\<rparr>) = books_left s" "trades_left (s\<lparr>st_enqueued := q\<rparr>) = trades_left s"
      "spots_left (s\<lparr>st_enqueued := q\<rparr>) = spots_left s" for q
      by (simp_all add: books_left_def trades_left_def spots_left_def)
    ultimately show ?thesis
      using EnqueueOp Cons.IH [of "s\<lparr>st_enqueued := st_enqueued s @ [ev]\<rparr>" out] Cons.prems by simp
  next
    case (NextOp now)
    obtain r s1 where n: "streaming_next of_millis now s = (r, s1)" by fastforce
    have step: "streaming_step s (r, s1)" using streaming_next_step [of s of_millis now] n by simp
    obtain out1 where run: "coord_run of_millis ops (StreamingMode s1) = Some (out1, c)"
      and out: "out = (case r of None \<Rightarrow> out1 | Some ev \<Rightarrow> (st_enqueued s \<noteq> [], ev) # out1)"
      using Cons.prems(1) NextOp n by (cases r) auto
    have ex: "st_exhausted s1 \<Longrightarrow> books_left s1 = [] \<and> trades_left s1 = [] \<and> spots_left s1 = []"
      using step Cons.prems(2) by (auto simp: streaming_step_def split: if_splits)
    obtain s' where s': "c = StreamingMode s'" "delivered s1 (from_data out1) s'"
      "st_enqueued s1 @ enqueued_by ops = from_queue out1 @ st_enqueued s'"
      "st_exhausted s' \<longrightarrow> books_left s' = [] \<and> trades_left s' = [] \<and> spots_left s' = []"
      using Cons.IH [OF run ex] by blast
    have "delivered s (from_data out) s'"
      using step s'(2) out by (auto simp: streaming_step_def delivered_def split: if_splits option.splits)
    moreover have "st_enqueued s @ enqueued_by ops = from_queue out @ st_enqueued s'"
      using step s'(3) out by (cases "st_enqueued s") (auto simp: streaming_step_def split: if_splits option.splits)
    ultimately show ?thesis using s'(1,4) NextOp by simp
  qed
qed auto

section \<open>The order of times\<close>

definition sim_ms :: "loop_event \<Rightarrow> int" where
  "sim_ms ev = (case ev of TimerEv t \<Rightarrow> timestamp_millis t | _ \<Rightarrow> unwrap_or (timestamp_ms ev) 0)"

definition data_times :: "streaming_coordinator \<Rightarrow> int set" where
  "data_times s = bk_timestamp ` set (st_snapshots s) \<union> bu_timestamp ` set (st_updates s)
     \<union> tr_timestamp ` set (st_trades s) \<union> spot_millis ` set (spots_left s)"

definition sorted_data :: "streaming_coordinator \<Rightarrow> bool" where
  "sorted_data s \<longleftrightarrow> sorted (map bk_timestamp (st_snapshots s)) \<and> sorted (map bu_timestamp (st_updates s))
     \<and> sorted (map tr_timestamp (st_trades s)) \<and> sorted (map spot_millis (spots_left s))"

lemma stream_frames [simp]:
  "sorted_data (s\<lparr>st_timer := tm, st_now := n\<rparr>) = sorted_data s" "data_times (s\<lparr>st_timer := tm, st_now := n\<rparr>) = data_times s"
  "sorted_data (s\<lparr>st_exhausted := x\<rparr>) = sorted_data s" "data_times (s\<lparr>st_exhausted := x\<rparr>) = data_times s"
  "sorted_data (s\<lparr>st_enqueued := q\<rparr>) = sorted_data s" "data_times (s\<lparr>st_enqueued := q\<rparr>) = data_times s"
  by (simp_all add: sorted_data_def data_times_def spots_left_def)

text \<open>No data and no timer that can still come is earlier than \<open>l\<close>.\<close>

definition expired :: "timer_state \<Rightarrow> bool" where
  "expired tm \<longleftrightarrow> (\<exists>e. tm_end tm = Some e \<and> e < tm_next tm)"

definition in_time :: "(int \<Rightarrow> timestamp option) \<Rightarrow> int \<Rightarrow> streaming_coordinator \<Rightarrow> bool" where
  "in_time of_millis l s \<longleftrightarrow> sorted_data s \<and> (\<forall>d \<in> data_times s. l \<le> d \<and> of_millis d = Some (d * 1000000))
     \<and> 0 \<le> tm_interval (st_timer s) \<and> (expired (st_timer s) \<or> l * 1000000 \<le> tm_next (st_timer s))"

lemma pass_keeps:
  assumes "data_pass d s r s'" "sorted_data s"
  shows "sorted_data s' \<and> data_times s' \<subseteq> data_times s \<and> st_timer s' = st_timer s"
  using assms by (cases rule: data_pass.cases) (auto simp: sorted_data_def data_times_def spots_left_def)

lemma pass_time: "data_pass d s (Some ev) s' \<Longrightarrow> sim_ms ev = d"
  by (erule data_pass.cases) (auto simp: sim_ms_def spot_millis_def updated_book_def Let_def)

lemma next_data_least:
  assumes "next_data_ts s = Some d" "sorted_data s"
  shows "d \<in> data_times s" "\<And>x. x \<in> data_times s \<Longrightarrow> d \<le> x"
proof -
  note head = next_data_head [OF assms(1)]
  show "d \<in> data_times s" using head(5) by (force simp: data_times_def)
  have least: "d \<le> time y" if "sorted (map time ys)" "y \<in> set ys" "\<And>x xs. ys = x # xs \<Longrightarrow> d \<le> time x"
    for time :: "'a \<Rightarrow> int" and ys y using that by (cases ys) fastforce+
  show "d \<le> x" if "x \<in> data_times s" for x
    using that assms(2) least [OF _ _ head(1)] least [OF _ _ head(2)] least [OF _ _ head(3)] least [OF _ _ head(4)]
    by (auto simp: data_times_def sorted_data_def)
qed

lemma timer_step_positive: "0 < timer_step 1000000000"
  by (simp add: timer_step_def)

lemma timer_step_nonneg: "0 \<le> d \<Longrightarrow> 0 \<le> timer_step d"
  by (simp add: timer_step_def)

lemma streaming_next_time:
  assumes "in_time of_millis l s" "streaming_next of_millis now s = (r, s')"
  shows "\<exists>l'. l \<le> l' \<and> in_time of_millis l' s' \<and> (st_enqueued s = [] \<longrightarrow> (\<forall>ev. r = Some ev \<longrightarrow> sim_ms ev = l'))"
  using assms
proof (induction of_millis now s rule: streaming_next.induct)
  case (1 of_millis now s)
  have same: "in_time of_millis l (s\<lparr>st_exhausted := x\<rparr>)" "in_time of_millis l (s\<lparr>st_enqueued := q\<rparr>)" for x q
    using 1(2) by (simp_all add: in_time_def)
  consider "st_exhausted s" | ev q where "\<not> st_exhausted s" "st_enqueued s = ev # q"
    | (data) "\<not> st_exhausted s" "st_enqueued s = []" by (cases "st_enqueued s") auto
  then show ?case
  proof cases
    case 1
    with \<open>streaming_next of_millis now s = (r, s')\<close> \<open>in_time of_millis l s\<close> show ?thesis
      by (subst (asm) streaming_next.simps) (auto simp: stream_step_def)
  next
    case (2 ev q)
    with \<open>streaming_next of_millis now s = (r, s')\<close> same(2) [of q] show ?thesis
      by (subst (asm) streaming_next.simps) (auto simp: stream_step_def)
  next
    case data
    note time = 1(2) [unfolded in_time_def]
    from data show ?thesis
    proof (cases rule: stream_step_data [where of_millis = of_millis and now = now])
      case no_data
      then show ?thesis using 1(3) same(1) [of True] by (subst (asm) streaming_next.simps) auto
    next
      case (timer d)
      let ?t = "tm_next (st_timer s)"
      note least = next_data_least [OF timer(1)]
      have due: "should_emit (d * 1000000) (st_timer s)" using timer(2) least(1) time by (simp add: due_timer_def)
      then have "\<not> expired (st_timer s)" by (auto simp: should_emit_def expired_def split: option.splits)
      then have l: "l \<le> timestamp_millis ?t" "timestamp_millis ?t \<le> d"
        using time due by (auto simp: timestamp_millis_def should_emit_def)
      have step: "0 \<le> timer_step (tm_interval (st_timer s))" using time timer_step_nonneg by blast
      have "timestamp_millis ?t * 1000000 \<le> ?t" unfolding timestamp_millis_def by linarith
      then have "in_time of_millis (timestamp_millis ?t)
          (s\<lparr>st_timer := snd (emit (st_timer s)), st_now := fst (emit (st_timer s))\<rparr>)"
        using time order_trans [OF l(2) least(2)] step by (simp add: in_time_def emit_def)
      moreover have "r = Some (TimerEv ?t)" "s' = s\<lparr>st_timer := snd (emit (st_timer s)), st_now := fst (emit (st_timer s))\<rparr>"
        using 1(3) timer(3) by (simp_all add: streaming_next.simps [of of_millis now s] emit_def)
      ultimately show ?thesis using l(1) by (auto simp: sim_ms_def)
    next
      case (deliver d ev s1)
      note least = next_data_least [OF deliver(1)] and keeps = pass_keeps [OF deliver(4)]
      have "\<not> should_emit (d * 1000000) (st_timer s)" using deliver(2) least(1) time by (simp add: due_timer_def)
      then have "expired (st_timer s) \<or> d * 1000000 \<le> tm_next (st_timer s)"
        by (auto simp: should_emit_def expired_def split: option.splits)
      then have "in_time of_millis d s1" using time keeps least(2) by (auto simp: in_time_def)
      then show ?thesis
        using 1(3) deliver(3) pass_time [OF deliver(4)] least(1) time by (subst (asm) streaming_next.simps) auto
    next
      case (again d s1)
      have "in_time of_millis l s1" using pass_keeps [OF again(4)] time by (auto simp: in_time_def)
      moreover have "streaming_next of_millis now s1 = (r, s')"
        using 1(3) again(3) by (subst (asm) streaming_next.simps) simp
      moreover have "st_enqueued s1 = []" using pass_delivers [OF again(4)] data by simp
      ultimately show ?thesis using 1(1) [OF again(3)] by blast
    qed
  qed
qed

section \<open>The materialised stream\<close>

text \<open>\<open>backtest/runner.rs\<close> keeps a function that builds the whole stream of books in advance, which the
  streaming mode replaces.  It works through groups of equal times.\<close>

fun push_snapshots ::
  "(int \<Rightarrow> timestamp option) \<Rightarrow> timestamp \<Rightarrow> tracker \<Rightarrow> book_snapshot list \<Rightarrow> tracker \<times> book_snapshot list" where
  "push_snapshots of_millis now t [] = (t, [])"
| "push_snapshots of_millis now t (b # bs) =
     (let (t1, k) = apply_snapshot of_millis now b t; (t2, ks) = push_snapshots of_millis now t1 bs in (t2, k # ks))"

fun push_updates ::
  "(int \<Rightarrow> timestamp option) \<Rightarrow> timestamp \<Rightarrow> tracker \<Rightarrow> book_update list \<Rightarrow> tracker \<times> book_snapshot list" where
  "push_updates of_millis now t [] = (t, [])"
| "push_updates of_millis now t (u # us) =
     (let (t1, k) = apply_update of_millis now u t; (t2, ks) = push_updates of_millis now t1 us
      in (t2, (case k of None \<Rightarrow> ks | Some b \<Rightarrow> b # ks)))"

function merge_updates ::
  "(int \<Rightarrow> timestamp option) \<Rightarrow> timestamp \<Rightarrow> tracker \<Rightarrow> book_snapshot list \<Rightarrow> book_update list \<Rightarrow> book_snapshot list" where
  "merge_updates of_millis now t [] [] = []"
| "merge_updates of_millis now t (b # bs) [] = snd (push_snapshots of_millis now t (b # bs))"
| "merge_updates of_millis now t [] (u # us) =
     (let group = takeWhile (\<lambda>x. bu_timestamp x = bu_timestamp u) (u # us);
        (t', out) = push_updates of_millis now t group
      in out @ merge_updates of_millis now t' [] (dropWhile (\<lambda>x. bu_timestamp x = bu_timestamp u) (u # us)))"
| "merge_updates of_millis now t (b # bs) (u # us) =
     (if bk_timestamp b \<le> bu_timestamp u then
        let group = takeWhile (\<lambda>x. bk_timestamp x = bk_timestamp b) (b # bs);
          (t', out) = push_snapshots of_millis now t group
        in out @ merge_updates of_millis now t' (dropWhile (\<lambda>x. bk_timestamp x = bk_timestamp b) (b # bs)) (u # us)
      else
        let group = takeWhile (\<lambda>x. bu_timestamp x = bu_timestamp u) (u # us);
          (t', out) = push_updates of_millis now t group
        in out @ merge_updates of_millis now t' (b # bs) (dropWhile (\<lambda>x. bu_timestamp x = bu_timestamp u) (u # us)))"
  by pat_completeness auto
termination
  by (relation "measure (\<lambda>(f, now, t, bs, us). length bs + length us)")
    (auto simp: le_imp_less_Suc length_dropWhile_le)

definition apply_updates_to_snapshots ::
  "(int \<Rightarrow> timestamp option) \<Rightarrow> timestamp \<Rightarrow> book_snapshot list \<Rightarrow> book_update list \<Rightarrow> book_snapshot list" where
  "apply_updates_to_snapshots of_millis now bs us =
     (if us = [] then bs
      else merge_updates of_millis now tracker_new (sort_key bk_timestamp bs) (sort_key bu_timestamp us))"

abbreviation books :: "tracker \<Rightarrow> string \<Rightarrow> book_snapshot option" where
  "books t \<equiv> (\<lambda>a. get_orderbook a t)"

lemma merged_push_snapshots:
  assumes "list_all (\<lambda>x. \<forall>u us'. us = u # us' \<longrightarrow> bk_timestamp x \<le> bu_timestamp u) xs"
  shows "merged_books (books t) (xs @ bs) us =
    snd (push_snapshots of_millis now t xs) @ merged_books (books (fst (push_snapshots of_millis now t xs))) bs us"
  using assms
proof (induction xs arbitrary: t)
  case (Cons b xs)
  obtain t1 where t1: "apply_snapshot of_millis now b t = (t1, b)" using snapshot_books(2) by (metis prod.collapse)
  then have "books t1 = (books t)(bk_asset_id b \<mapsto> b)" using snapshot_books(1) [of of_millis now b t] by simp
  then show ?case
    using Cons.prems Cons.IH [of t1] t1 by (simp add: merged_snapshot case_prod_beta)
qed simp

lemma merged_push_updates:
  assumes "list_all (\<lambda>x. \<forall>b bs'. bs = b # bs' \<longrightarrow> \<not> bk_timestamp b \<le> bu_timestamp x) xs"
  shows "merged_books (books t) bs (xs @ us) =
    snd (push_updates of_millis now t xs) @ merged_books (books (fst (push_updates of_millis now t xs))) bs us"
  using assms
proof (induction xs arbitrary: t)
  case (Cons u xs)
  then have m: "merged_books (books t) bs (u # xs @ us) =
      (case books t (bu_asset_id u) of
         None \<Rightarrow> merged_books (books t) bs (xs @ us)
       | Some k \<Rightarrow> updated_book u k # merged_books ((books t)(bu_asset_id u \<mapsto> updated_book u k)) bs (xs @ us))"
    by (intro merged_update) auto
  show ?case
  proof (cases "get_orderbook (bu_asset_id u) t")
    case None
    then show ?thesis using Cons m by (simp add: update_no_book case_prod_beta)
  next
    case (Some k)
    obtain t1 where t1: "apply_update of_millis now u t = (t1, Some (updated_book u k))"
      using update_books(2) [OF Some] by (metis prod.collapse)
    then have "books t1 = (books t)(bu_asset_id u \<mapsto> updated_book u k)"
      using update_books(1) [OF Some, of of_millis now] by simp
    then show ?thesis using Cons.prems Cons.IH [of t1] t1 m Some by (simp add: case_prod_beta)
  qed
qed simp

lemma list_all_takeWhile: "(\<And>x. Q x \<Longrightarrow> P x) \<Longrightarrow> list_all P (takeWhile Q xs)"
  by (auto simp: list_all_iff dest: set_takeWhileD)

lemma merge_updates_merged: "merge_updates of_millis now t bs us = merged_books (books t) bs us"
proof (induction of_millis now t bs us rule: merge_updates.induct)
  case (1 of_millis now t)
  show ?case by (simp add: merged_books.simps)
next
  case (2 of_millis now t b bs)
  show ?case
    using merged_push_snapshots [of "[]" "b # bs" t "[]" of_millis now] by (simp add: merged_books.simps list_all_iff)
next
  case (3 of_millis now t u us)
  let ?g = "takeWhile (\<lambda>x. bu_timestamp x = bu_timestamp u) (u # us)"
    and ?r = "dropWhile (\<lambda>x. bu_timestamp x = bu_timestamp u) (u # us)"
  have "merge_updates of_millis now t [] (u # us) =
      snd (push_updates of_millis now t ?g) @ merged_books (books (fst (push_updates of_millis now t ?g))) [] ?r"
    unfolding merge_updates.simps(3) Let_def case_prod_beta
    by (subst "3.IH" [OF refl refl prod.collapse]) (rule refl)
  also have "\<dots> = merged_books (books t) [] (?g @ ?r)"
    by (rule merged_push_updates [symmetric]) (simp add: list_all_iff)
  finally show ?case unfolding takeWhile_dropWhile_id .
next
  case (4 of_millis now t b bs u us)
  show ?case
  proof (cases "bk_timestamp b \<le> bu_timestamp u")
    case True
    let ?g = "takeWhile (\<lambda>x. bk_timestamp x = bk_timestamp b) (b # bs)"
      and ?r = "dropWhile (\<lambda>x. bk_timestamp x = bk_timestamp b) (b # bs)"
    have "merge_updates of_millis now t (b # bs) (u # us) =
        snd (push_snapshots of_millis now t ?g) @ merged_books (books (fst (push_snapshots of_millis now t ?g))) ?r (u # us)"
      unfolding merge_updates.simps(4) Let_def case_prod_beta if_P [OF True]
      by (subst "4.IH"(1) [OF True refl refl prod.collapse]) (rule refl)
    also have "\<dots> = merged_books (books t) (?g @ ?r) (u # us)"
      by (intro merged_push_snapshots [symmetric] list_all_takeWhile) (use True in auto)
    finally show ?thesis unfolding takeWhile_dropWhile_id .
  next
    case False
    let ?g = "takeWhile (\<lambda>x. bu_timestamp x = bu_timestamp u) (u # us)"
      and ?r = "dropWhile (\<lambda>x. bu_timestamp x = bu_timestamp u) (u # us)"
    have "merge_updates of_millis now t (b # bs) (u # us) =
        snd (push_updates of_millis now t ?g) @ merged_books (books (fst (push_updates of_millis now t ?g))) (b # bs) ?r"
      unfolding merge_updates.simps(4) Let_def case_prod_beta if_not_P [OF False]
      by (subst "4.IH"(2) [OF False refl refl prod.collapse]) (rule refl)
    also have "\<dots> = merged_books (books t) (b # bs) (?g @ ?r)"
      by (intro merged_push_updates [symmetric] list_all_takeWhile) (use False in auto)
    finally show ?thesis unfolding takeWhile_dropWhile_id .
  qed
qed

section \<open>Runs end\<close>

lemma timeline_run_returns:
  assumes "0 < timer_step (tm_interval (tc_timer s))"
  shows "\<exists>out c. coord_run of_millis ops (TimelineMode s) = Some (out, c)"
  using assms
proof (induction ops arbitrary: s)
  case (Cons op ops)
  show ?case
  proof (cases op)
    case (EnqueueOp ev)
    then show ?thesis using Cons.IH [of "s\<lparr>tc_enqueued := tc_enqueued s @ [ev]\<rparr>"] Cons.prems by simp
  next
    case (NextOp now)
    obtain r s' where s': "timeline_next of_millis s = Some (r, s')" "tm_interval (tc_timer s') = tm_interval (tc_timer s)"
      using timeline_next_returns [OF Cons.prems] by blast
    then obtain out c where "coord_run of_millis ops (TimelineMode s') = Some (out, c)"
      using Cons.IH [of s'] Cons.prems by auto
    then show ?thesis using NextOp s'(1) by (cases r) auto
  qed
qed simp

definition events_left :: "streaming_coordinator \<Rightarrow> nat" where
  "events_left s = data_left s + length (spots_left s)"

definition work_left :: "int \<Rightarrow> streaming_coordinator \<Rightarrow> nat" where
  "work_left horizon s = events_left s + nat (horizon + 1 - tm_next (st_timer s))"

lemma pass_smaller:
  assumes "data_pass d s r s'"
  shows "events_left s' < events_left s \<and> data_times s' \<subseteq> data_times s \<and> st_timer s' = st_timer s"
  using assms
  by (cases rule: data_pass.cases) (auto simp: events_left_def data_left_def data_times_def spots_left_def)

definition bounded_by :: "(int \<Rightarrow> timestamp option) \<Rightarrow> int \<Rightarrow> streaming_coordinator \<Rightarrow> bool" where
  "bounded_by of_millis horizon s \<longleftrightarrow> st_enqueued s = [] \<and> 0 < timer_step (tm_interval (st_timer s))
     \<and> (\<forall>d \<in> data_times s. \<forall>t. of_millis d = Some t \<longrightarrow> t \<le> horizon)"

lemma next_data_time: "next_data_ts s = Some d \<Longrightarrow> d \<in> data_times s"
  using next_data_head(5) [of s d] by (force simp: data_times_def)

lemma streaming_next_progress:
  assumes "bounded_by of_millis horizon s" "\<not> st_exhausted s" "streaming_next of_millis now s = (r, s')"
  shows "st_exhausted s' \<or> bounded_by of_millis horizon s' \<and> work_left horizon s' < work_left horizon s"
  using assms
proof (induction of_millis now s rule: streaming_next.induct)
  case (1 of_millis now s)
  have empty: "st_enqueued s = []" using 1(2) by (simp add: bounded_by_def)
  from 1(3) empty show ?case
  proof (cases rule: stream_step_data [where of_millis = of_millis and now = now])
    case no_data
    then show ?thesis using 1(4) by (auto simp: streaming_next.simps [of of_millis now s])
  next
    case (timer d)
    obtain t where t: "of_millis d = Some t" "tm_next (st_timer s) \<le> t"
      using timer(2) by (auto simp: due_timer_def should_emit_def split: option.splits)
    then have "tm_next (st_timer s) \<le> horizon" using 1(2) next_data_time [OF timer(1)] by (fastforce simp: bounded_by_def)
    moreover have "s' = s\<lparr>st_timer := snd (emit (st_timer s)), st_now := fst (emit (st_timer s))\<rparr>"
      using 1(4) timer(3) by (simp add: streaming_next.simps [of of_millis now s])
    ultimately show ?thesis
      using 1(2) by (auto simp: bounded_by_def work_left_def events_left_def data_left_def spots_left_def emit_def)
  next
    case (deliver d ev s1)
    then show ?thesis
      using 1(2,4) pass_smaller [OF deliver(4)] pass_delivers [OF deliver(4)]
      by (auto simp: streaming_next.simps [of of_millis now s] bounded_by_def work_left_def)
  next
    case (again d s1)
    have "bounded_by of_millis horizon s1" "\<not> st_exhausted s1" "work_left horizon s1 < work_left horizon s"
      using 1(2,3) pass_smaller [OF again(4)] pass_delivers [OF again(4)]
      by (auto simp: bounded_by_def work_left_def)
    moreover have "streaming_next of_millis now s1 = (r, s')"
      using 1(4) again(3) by (simp add: streaming_next.simps [of of_millis now s])
    ultimately show ?thesis using 1(1) [OF again(3)] by fastforce
  qed
qed

lemma streaming_run_ends:
  assumes "bounded_by of_millis horizon s"
  shows "\<exists>n out c. coord_run of_millis (replicate n (NextOp now)) (StreamingMode s) = Some (out, c) \<and> is_exhausted c"
  using assms
proof (induction "work_left horizon s" arbitrary: s rule: less_induct)
  case less
  show ?case
  proof (cases "st_exhausted s")
    case True
    then show ?thesis by (intro exI [of _ 0]) simp
  next
    case False
    obtain r s' where n: "streaming_next of_millis now s = (r, s')" by fastforce
    have "\<exists>n out c. coord_run of_millis (replicate n (NextOp now)) (StreamingMode s') = Some (out, c) \<and> is_exhausted c"
    proof (cases "st_exhausted s'")
      case True
      then show ?thesis by (intro exI [of _ 0]) simp
    next
      case running: False
      then show ?thesis using streaming_next_progress [OF less.prems False n] less.hyps by blast
    qed
    then obtain k out c where "coord_run of_millis (replicate k (NextOp now)) (StreamingMode s') = Some (out, c)"
      "is_exhausted c" by blast
    then show ?thesis using n by (cases r) (auto intro!: exI [of _ "Suc k"])
  qed
qed

lemma new_bounded:
  assumes "0 < timer_step interval"
  obtains horizon where "bounded_by of_millis horizon (new_from_data of_millis now' bs us ts ps interval)"
proof -
  let ?s = "new_from_data of_millis now' bs us ts ps interval"
  let ?T = "{t. \<exists>d \<in> data_times ?s. of_millis d = Some t}"
  have "finite (data_times ?s)" by (simp add: data_times_def)
  then have "finite ?T" by (rule finite_subset [rotated, OF finite_imageI [of _ "\<lambda>d. the (of_millis d)"]]) force
  then have "bounded_by of_millis (Max (insert 0 ?T)) ?s"
    using assms by (auto simp: bounded_by_def new_from_data_def timer_new_def Let_def case_prod_beta intro!: Max_ge)
  then show ?thesis by (rule that)
qed

lemma new_streaming_ends:
  assumes "0 < timer_step interval"
  shows "\<exists>n out c. coord_run of_millis (replicate n (NextOp now))
    (StreamingMode (new_from_data of_millis now' bs us ts ps interval)) = Some (out, c) \<and> is_exhausted c"
  using new_bounded [OF assms] streaming_run_ends by metis

section \<open>New coordinators\<close>

definition first_time :: "book_snapshot list \<Rightarrow> int" where
  "first_time bs = (case sort_key bk_timestamp bs of [] \<Rightarrow> i64_max | b # rest \<Rightarrow> bk_timestamp b)"

lemma new_timeline:
  assumes "tl_current_index line = 0"
  shows "timeline_ok (timeline_coordinator_new of_millis now line interval)"
    "timeline_rest (timeline_coordinator_new of_millis now line interval) = concat (map tick_events (tl_ticks line))"
    "tc_enqueued (timeline_coordinator_new of_millis now line interval) = []"
    "tm_interval (tc_timer (timeline_coordinator_new of_millis now line interval)) = interval"
  using assms
  by (cases "tl_ticks line"; auto simp: timeline_coordinator_new_def next_tick_def timeline_ok_def timeline_rest_def
      tick_rest_def tick_events_def timer_new_def Let_def split: option.splits prod.splits)+

lemma new_streaming:
  assumes s_def: "s = new_from_data of_millis now bs us ts ps interval"
  shows "books_left s = merged_books Map.empty (sort_key bk_timestamp bs) (sort_key bu_timestamp us)"
    "trades_left s = filter (\<lambda>t. first_time bs \<le> tr_timestamp t) (sort_key tr_timestamp ts)"
    "spots_left s = sort_key spp_timestamp (unwrap_or ps [])"
    "st_enqueued s = []" "\<not> st_exhausted s" "tm_interval (st_timer s) = interval" "sorted_data s"
proof -
  have "(\<lambda>a. get_orderbook a tracker_new) = Map.empty" by (simp add: get_orderbook_def tracker_new_def fun_eq_iff)
  then show "books_left s = merged_books Map.empty (sort_key bk_timestamp bs) (sort_key bu_timestamp us)"
    by (simp add: s_def books_left_def new_from_data_def Let_def case_prod_beta)
  show "trades_left s = filter (\<lambda>t. first_time bs \<le> tr_timestamp t) (sort_key tr_timestamp ts)"
    by (simp add: s_def trades_left_def new_from_data_def first_time_def Let_def split: list.split)
  show spots: "spots_left s = sort_key spp_timestamp (unwrap_or ps [])"
    by (cases ps) (simp_all add: s_def spots_left_def new_from_data_def Let_def case_prod_beta)
  show "st_enqueued s = []" "\<not> st_exhausted s" "tm_interval (st_timer s) = interval"
    by (simp_all add: s_def new_from_data_def timer_new_def Let_def case_prod_beta)
  have "sorted (map spp_timestamp (spots_left s))" by (simp add: spots)
  then have "sorted (map spot_millis (spots_left s))"
    unfolding spot_millis_def timestamp_millis_def sorted_map
    by (rule sorted_wrt_mono_rel [rotated]) (simp add: zdiv_mono1)
  then show "sorted_data s" by (simp add: sorted_data_def s_def new_from_data_def Let_def case_prod_beta)
qed

lemma merged_no_updates: "merged_books m bs [] = bs"
  by (induction bs arbitrary: m) (simp_all add: merged_books.simps)

lemma books_materialised:
  "merged_books Map.empty (sort_key bk_timestamp bs) (sort_key bu_timestamp us) =
   (if us = [] then sort_key bk_timestamp bs else apply_updates_to_snapshots of_millis now bs us)"
proof -
  have "(\<lambda>a. get_orderbook a tracker_new) = Map.empty" by (simp add: get_orderbook_def tracker_new_def fun_eq_iff)
  then show ?thesis by (simp add: apply_updates_to_snapshots_def merge_updates_merged merged_no_updates)
qed

section \<open>Properties\<close>

text \<open>C14. However the system's own events are interleaved, a streaming backtest that has run to its end has
  delivered exactly the books that the materialised stream of snapshots and updates consists of, the
  trades from the first snapshot on, and all spot prices, each once and in the order of their times; and
  the events of the system came out in the order in which they were enqueued.\<close>

theorem streaming_equals_materialised:
  assumes run: "coord_run of_millis ops (StreamingMode (new_from_data of_millis now bs us ts ps interval)) = Some (out, c)"
    and ended: "is_exhausted c"
  shows "books_of (from_data out) =
      (if us = [] then sort_key bk_timestamp bs else apply_updates_to_snapshots of_millis now bs us)
    \<and> trades_of (from_data out) = filter (\<lambda>t. first_time bs \<le> tr_timestamp t) (sort_key tr_timestamp ts)
    \<and> spots_of (from_data out) = sort_key spp_timestamp (unwrap_or ps [])
    \<and> from_queue out @ coord_queue c = enqueued_by ops"
proof -
  let ?s = "new_from_data of_millis now bs us ts ps interval"
  note new = new_streaming [OF refl [of ?s]]
  obtain s' where s': "c = StreamingMode s'" "delivered ?s (from_data out) s'"
    "st_enqueued ?s @ enqueued_by ops = from_queue out @ st_enqueued s'"
    "st_exhausted s' \<longrightarrow> books_left s' = [] \<and> trades_left s' = [] \<and> spots_left s' = []"
    using streaming_run [OF run] new(5) by blast
  then show ?thesis
    using ended new(1-4) unfolding delivered_def books_materialised [of bs us of_millis now] by simp
qed

text \<open>C15. The streaming mode keeps to the order of time, in whole milliseconds: when the date library holds
  the times of the data and the timer does not run backwards, the books, trades, spot prices and timers come
  with ascending milliseconds, whatever the system enqueues in between.  The finer times of spot prices and
  timers are compared without their fraction, so that inside one millisecond the order need not be that of time.\<close>

theorem streaming_chronological:
  assumes run: "coord_run of_millis ops (StreamingMode (new_from_data of_millis now bs us ts ps interval)) = Some (out, c)"
    and times: "\<And>d. d \<in> bk_timestamp ` set bs \<union> bu_timestamp ` set us \<union> tr_timestamp ` set ts
        \<union> spot_millis ` set (unwrap_or ps []) \<Longrightarrow> of_millis d = Some (d * 1000000)"
    and interval: "0 \<le> interval"
  shows "sorted (map sim_ms (from_data out))"
proof -
  let ?s = "new_from_data of_millis now bs us ts ps interval"
  note new = new_streaming [OF refl [of ?s]]
  have data: "data_times ?s = bk_timestamp ` set bs \<union> bu_timestamp ` set us \<union> tr_timestamp ` set ts
      \<union> spot_millis ` set (unwrap_or ps [])"
    unfolding data_times_def new(3) by (simp add: new_from_data_def Let_def case_prod_beta)
  define l where "l = Min (insert (tm_next (st_timer ?s) div 1000000) (data_times ?s))"
  have fin: "finite (data_times ?s)" by (simp add: data)
  then have "l \<le> tm_next (st_timer ?s) div 1000000" "\<And>d. d \<in> data_times ?s \<Longrightarrow> l \<le> d" by (simp_all add: l_def)
  then have "in_time of_millis l ?s"
    using times interval new(6,7) unfolding data [symmetric] by (auto simp: in_time_def)
  moreover have "sorted (map sim_ms (from_data out)) \<and> (\<forall>ev \<in> set (from_data out). l \<le> sim_ms ev)"
    if "coord_run of_millis ops (StreamingMode s) = Some (out, c)" "in_time of_millis l s" for s l
    using that
  proof (induction ops arbitrary: s out l)
    case (Cons op ops)
    show ?case
    proof (cases op)
      case (EnqueueOp ev)
      then show ?thesis
        using Cons.IH [of "s\<lparr>st_enqueued := st_enqueued s @ [ev]\<rparr>" out l] Cons.prems by (simp add: in_time_def)
    next
      case (NextOp now)
      obtain r s1 where n: "streaming_next of_millis now s = (r, s1)" by fastforce
      obtain l1 where l1: "l \<le> l1" "in_time of_millis l1 s1"
        "st_enqueued s = [] \<longrightarrow> (\<forall>ev. r = Some ev \<longrightarrow> sim_ms ev = l1)"
        using streaming_next_time [OF Cons.prems(2) n] by blast
      obtain out1 where "coord_run of_millis ops (StreamingMode s1) = Some (out1, c)"
        and out: "out = (case r of None \<Rightarrow> out1 | Some ev \<Rightarrow> (st_enqueued s \<noteq> [], ev) # out1)"
        using Cons.prems(1) NextOp n by (cases r) auto
      from Cons.IH [OF this(1) l1(2)] show ?thesis
        using l1(1,3) out by (cases r) (auto intro: order_trans)
    qed
  qed simp
  ultimately show ?thesis using run by blast
qed

text \<open>C16. With a timer interval above zero every call of the coordinator returns in both modes, and a
  streaming backtest ends after finitely many calls.\<close>

theorem coordinator_terminates:
  assumes "0 < timer_step interval"
  shows "(\<exists>out c. coord_run of_millis ops (TimelineMode (timeline_coordinator_new of_millis now line interval)) = Some (out, c))
    \<and> (\<exists>n out c. coord_run of_millis (replicate n (NextOp now))
         (StreamingMode (new_from_data of_millis now bs us ts ps interval)) = Some (out, c) \<and> is_exhausted c)"
proof -
  have "tm_interval (tc_timer (timeline_coordinator_new of_millis now line interval)) = interval"
    by (simp add: timeline_coordinator_new_def timer_new_def Let_def case_prod_beta)
  then show ?thesis using timeline_run_returns new_streaming_ends [OF assms] assms by simp
qed

text \<open>A backtest over a timeline delivers the events of its ticks one tick after the other, each tick's
  trades, then its spot prices, then its snapshot, with nothing lost or repeated, and the events of the
  system in the order in which they were enqueued.\<close>

theorem timeline_delivers_ticks:
  assumes run: "coord_run of_millis ops (TimelineMode (timeline_coordinator_new of_millis now line interval)) = Some (out, c)"
    and start: "tl_current_index line = 0"
  shows "(\<exists>rest. concat (map tick_events (tl_ticks line)) = data_of (from_data out) @ rest \<and> (is_exhausted c \<longrightarrow> rest = []))
    \<and> from_queue out @ coord_queue c = enqueued_by ops"
proof -
  note new = new_timeline [OF start, of of_millis now interval]
  obtain s' where "c = TimelineMode s'" "timeline_ok s'"
    "concat (map tick_events (tl_ticks line)) = data_of (from_data out) @ timeline_rest s'"
    "enqueued_by ops = from_queue out @ tc_enqueued s'"
    using timeline_run [OF run new(1)] new(2,3) by auto
  then show ?thesis using timeline_ok_exhausted by auto
qed

text \<open>The timeline mode does not keep to the order of time, although its header says so: the trades of a
  tick happen after its snapshot and are delivered before it.\<close>

lemma timeline_trade_before_snapshot:
  assumes "ti_trades k = [t]" "ti_spot_prices k = []" "tick_timestamp k < tr_timestamp t"
    "of_millis = (\<lambda>ms. Some (ms * 1000000))"
  shows "\<exists>s1 s2. timeline_next of_millis (timeline_coordinator_new of_millis now \<lparr>tl_ticks = [k], tl_current_index = 0\<rparr> interval)
      = Some (Some (VenueTrade t), s1) \<and> timeline_next of_millis s1 = Some (Some (BookSnapshot (ti_snapshot k)), s2)
    \<and> tc_now s2 < tc_now s1"
  using assms
  by (simp add: timeline_coordinator_new_def next_tick_def time_range_def timeline_next.simps tick_event_def
      tick_timestamp_def Let_def)

text \<open>A timer that falls on the time of a tick is never delivered.  With a timer interval that divides the
  distance of the ticks, as the defaults of one second do, no timer ever is.\<close>

lemma timer_on_boundary_lost:
  assumes "tm_next tm = e" "now < e" "0 < timer_step (tm_interval tm)" "\<not> expired tm"
  shows "skip_timers now e tm = Some (None, snd (emit tm))"
  using assms by (subst skip_timers.simps) (auto simp: emit_def should_emit_def expired_def Let_def split: option.splits)

lemma zero_interval_hangs:
  assumes "\<not> tc_exhausted s" "tc_enqueued s = []" "tick_event of_millis s = None" "tc_current_tick s = Some k"
    "timer_step (tm_interval (tc_timer s)) = 0" "should_emit (tick_end of_millis s k) (tc_timer s)"
    "tm_next (tc_timer s) \<le> tc_now s" "tm_next (tc_timer s) < tick_end of_millis s k"
  shows "timeline_next of_millis s = None"
  using assms zero_interval_stuck [OF assms(5,6,7,8)] by (subst timeline_next.simps) (simp add: tick_timer_def)

section \<open>A concrete backtest\<close>

definition demo_tick_trade :: trade where
  "demo_tick_trade = \<lparr>tr_asset_id = ''A'', tr_side = TradeBuy, tr_price = f0, tr_size = f0, tr_timestamp = 5\<rparr>"

definition demo_stream :: coordinator where
  "demo_stream = StreamingMode
     (new_from_data (\<lambda>ms. Some (ms * 1000000)) 0 [demo_snapshot] [demo_update] [demo_tick_trade] None 1000000000)"

text \<open>The demonstration runs to its end.\<close>

lemma demo_stream_ends:
  obtains n out c where "coord_run (\<lambda>ms. Some (ms * 1000000)) (replicate n (NextOp 0)) demo_stream = Some (out, c)"
    "is_exhausted c"
  using new_streaming_ends [of 1000000000] unfolding demo_stream_def by (metis timer_step_positive)

theorem streaming_equals_materialised_witness:
  "\<exists>n out c. coord_run (\<lambda>ms. Some (ms * 1000000)) (replicate n (NextOp 0)) demo_stream = Some (out, c)
    \<and> trades_of (from_data out) = [demo_tick_trade] \<and> length (books_of (from_data out)) = 2"
proof -
  obtain n out c where run: "coord_run (\<lambda>ms. Some (ms * 1000000)) (replicate n (NextOp 0)) demo_stream = Some (out, c)"
    and ended: "is_exhausted c" by (rule demo_stream_ends)
  have "length (apply_updates_to_snapshots (\<lambda>ms. Some (ms * 1000000)) 0 [demo_snapshot] [demo_update]) = 2"
    by (simp add: apply_updates_to_snapshots_def apply_snapshot_def apply_update_def demo_snapshot_def demo_update_def Let_def)
  moreover have "first_time [demo_snapshot] \<le> tr_timestamp demo_tick_trade"
    by (simp add: first_time_def demo_snapshot_def demo_tick_trade_def)
  ultimately show ?thesis
    using streaming_equals_materialised [OF run [unfolded demo_stream_def] ended]
    by (intro exI conjI) (rule run, simp_all)
qed

theorem streaming_chronological_witness:
  "\<exists>n out c. coord_run (\<lambda>ms. Some (ms * 1000000)) (replicate n (NextOp 0)) demo_stream = Some (out, c)
    \<and> sorted (map sim_ms (from_data out))"
proof -
  obtain n out c where run: "coord_run (\<lambda>ms. Some (ms * 1000000)) (replicate n (NextOp 0)) demo_stream = Some (out, c)"
    by (rule demo_stream_ends)
  from streaming_chronological [OF run [unfolded demo_stream_def]] run show ?thesis by auto
qed

theorem coordinator_terminates_witness:
  "\<exists>n out c. coord_run (\<lambda>ms. Some (ms * 1000000)) (replicate n (NextOp 0)) demo_stream = Some (out, c) \<and> is_exhausted c"
proof -
  have "0 < timer_step 1000000000" by (simp add: timer_step_def)
  from coordinator_terminates [OF this] show ?thesis unfolding demo_stream_def by blast
qed

definition demo_timeline :: timeline where
  "demo_timeline = \<lparr>tl_ticks = [\<lparr>ti_snapshot = demo_snapshot, ti_trades = [demo_tick_trade], ti_spot_prices = []\<rparr>],
     tl_current_index = 0\<rparr>"

theorem timeline_delivers_ticks_witness:
  "\<exists>out c rest. coord_run (\<lambda>ms. Some (ms * 1000000)) [NextOp 0, NextOp 0]
      (TimelineMode (timeline_coordinator_new (\<lambda>ms. Some (ms * 1000000)) 0 demo_timeline 1000000000)) = Some (out, c)
    \<and> [VenueTrade demo_tick_trade, BookSnapshot demo_snapshot] = data_of (from_data out) @ rest"
proof -
  let ?s = "timeline_coordinator_new (\<lambda>ms. Some (ms * 1000000)) 0 demo_timeline 1000000000"
  have start: "tl_current_index demo_timeline = 0" by (simp add: demo_timeline_def)
  obtain out c where run: "coord_run (\<lambda>ms. Some (ms * 1000000)) [NextOp 0, NextOp 0] (TimelineMode ?s) = Some (out, c)"
    using timeline_run_returns [of ?s] new_timeline(4) [OF start] timer_step_positive by metis
  from timeline_delivers_ticks [OF run start] run show ?thesis
    by (auto simp: demo_timeline_def tick_events_def)
qed

end
