(* ===== verification/Completeness.thy ===== *)
theory Completeness
  imports Timeline "HOL-Library.List_Lexorder" "HOL-Library.Char_ord"
begin

text \<open>
  The check that recorded data covers its markets well enough for a backtest,
  \<open>backtest/completeness.rs\<close>: events are counted by ticker and outcome, a market with an outcome that has
  too few snapshots or trades or ends too early is incomplete, and the data of incomplete markets can be
  filtered out.  Hash maps iterate in the order of their entries.  The metadata of an event belongs to a
  package outside the repository: \<open>meta\<close> reads it; \<open>parse_end\<close> and \<open>of_millis\<close> are the date library.
  Log output is left out.
\<close>

section \<open>Data\<close>

type_synonym u64 = "64 word"

datatype incomplete_behavior = WarnIncomplete | FilterIncomplete | FailIncomplete

record completeness_config =
  cc_enabled :: bool
  cc_min_snapshot_count :: u64
  cc_max_snapshot_gap_secs :: int
  cc_min_trade_count :: u64
  cc_on_incomplete :: incomplete_behavior

definition completeness_default :: completeness_config where
  "completeness_default = \<lparr>cc_enabled = True, cc_min_snapshot_count = 100, cc_max_snapshot_gap_secs = 120,
     cc_min_trade_count = 10, cc_on_incomplete = FilterIncomplete\<rparr>"

datatype completeness_failure =
    DataEndsBeforeExpiry int
  | InsufficientSnapshots u64 u64
  | InsufficientTrades u64 u64
  | MissingOutcome string

record outcome_completeness =
  oc_outcome :: string
  oc_snapshot_count :: u64
  oc_trade_count :: u64
  oc_last_snapshot_ts :: "int option"
  oc_end_date :: "timestamp option"
  oc_is_complete :: bool
  oc_failure_reasons :: "completeness_failure list"

record market_completeness =
  mc_ticker :: string
  mc_outcomes :: "outcome_completeness list"
  mc_is_complete :: bool
  mc_failure_reasons :: "completeness_failure list"

record completeness_report =
  cr_markets :: "market_completeness list"
  cr_complete_count :: nat
  cr_incomplete_count :: nat

definition complete_tickers :: "completeness_report \<Rightarrow> string set" where
  "complete_tickers r = mc_ticker ` set (filter mc_is_complete (cr_markets r))"

definition incomplete_tickers :: "completeness_report \<Rightarrow> string set" where
  "incomplete_tickers r = mc_ticker ` set (filter (\<lambda>m. \<not> mc_is_complete m) (cr_markets r))"

text \<open>The fields of the metadata that are read, and how the events carry them.\<close>

record market_metadata =
  mm_ticker :: string
  mm_outcome :: "string option"
  mm_end_date :: string

record metadata =
  md_snapshot :: "book_snapshot \<Rightarrow> market_metadata option"
  md_update :: "book_update \<Rightarrow> market_metadata option"
  md_trade :: "trade \<Rightarrow> market_metadata option"

record outcome_data =
  od_snapshot_count :: u64
  od_trade_count :: u64
  od_last_snapshot_ts :: "int option"
  od_end_date :: "timestamp option"

section \<open>Counting\<close>

type_synonym outcomes = "(string \<times> string, outcome_data) hmap"

definition outcome_key :: "market_metadata \<Rightarrow> string \<times> string" where
  "outcome_key m = (mm_ticker m, unwrap_or (mm_outcome m) ''Unknown'')"

definition outcome_entry :: "(string \<Rightarrow> timestamp option) \<Rightarrow> market_metadata \<Rightarrow> outcomes \<Rightarrow> outcome_data" where
  "outcome_entry parse_end m d =
     unwrap_or (hget d (outcome_key m))
       \<lparr>od_snapshot_count = 0, od_trade_count = 0, od_last_snapshot_ts = None, od_end_date = parse_end (mm_end_date m)\<rparr>"

definition add_snapshot ::
  "(string \<Rightarrow> timestamp option) \<Rightarrow> metadata \<Rightarrow> outcomes \<Rightarrow> book_snapshot \<Rightarrow> outcomes" where
  "add_snapshot parse_end md d b =
     (case md_snapshot md b of None \<Rightarrow> d
      | Some m \<Rightarrow>
          let e = outcome_entry parse_end m d
          in hput (outcome_key m)
               (e\<lparr>od_snapshot_count := od_snapshot_count e + 1,
                  od_last_snapshot_ts := Some (case od_last_snapshot_ts e of None \<Rightarrow> bk_timestamp b
                    | Some ts \<Rightarrow> max ts (bk_timestamp b))\<rparr>) d)"

definition add_trade :: "(string \<Rightarrow> timestamp option) \<Rightarrow> metadata \<Rightarrow> outcomes \<Rightarrow> trade \<Rightarrow> outcomes" where
  "add_trade parse_end md d t =
     (case md_trade md t of None \<Rightarrow> d
      | Some m \<Rightarrow>
          let e = outcome_entry parse_end m d
          in hput (outcome_key m) (e\<lparr>od_trade_count := od_trade_count e + 1\<rparr>) d)"

definition outcome_counts ::
  "(string \<Rightarrow> timestamp option) \<Rightarrow> metadata \<Rightarrow> book_snapshot list \<Rightarrow> trade list \<Rightarrow> outcomes" where
  "outcome_counts parse_end md snapshots trades =
     foldl (add_trade parse_end md) (foldl (add_snapshot parse_end md) [] snapshots) trades"

definition add_outcome ::
  "(string, (string \<times> outcome_data) list) hmap \<Rightarrow> (string \<times> string) \<times> outcome_data \<Rightarrow>
   (string, (string \<times> outcome_data) list) hmap" where
  "add_outcome ms = (\<lambda>((ticker, outcome), d). hput ticker (unwrap_or (hget ms ticker) [] @ [(outcome, d)]) ms)"

definition group_by_ticker :: "outcomes \<Rightarrow> (string, (string \<times> outcome_data) list) hmap" where
  "group_by_ticker d = foldl add_outcome [] d"

section \<open>Checking\<close>

text \<open>Whole seconds of a difference of two times, truncated towards zero.\<close>

definition num_seconds :: "duration \<Rightarrow> int" where
  "num_seconds d = sgn d * (\<bar>d\<bar> div 1000000000)"

definition check_outcome ::
  "completeness_config \<Rightarrow> (int \<Rightarrow> timestamp option) \<Rightarrow> string \<Rightarrow> outcome_data \<Rightarrow> outcome_completeness" where
  "check_outcome c of_millis outcome d =
     (let few_snapshots =
            (if od_snapshot_count d < cc_min_snapshot_count c
             then [InsufficientSnapshots (od_snapshot_count d) (cc_min_snapshot_count c)] else []);
        few_trades =
            (if od_trade_count d < cc_min_trade_count c
             then [InsufficientTrades (od_trade_count d) (cc_min_trade_count c)] else []);
        early_end =
            (case (od_last_snapshot_ts d, od_end_date d) of
               (Some last_ts, Some end_date) \<Rightarrow>
                 (case of_millis last_ts of
                    Some last_dt \<Rightarrow>
                      (if num_seconds (end_date - last_dt) > cc_max_snapshot_gap_secs c
                       then [DataEndsBeforeExpiry (num_seconds (end_date - last_dt))] else [])
                  | None \<Rightarrow> [])
             | _ \<Rightarrow> []);
        reasons = few_snapshots @ few_trades @ early_end
      in \<lparr>oc_outcome = outcome, oc_snapshot_count = od_snapshot_count d, oc_trade_count = od_trade_count d,
          oc_last_snapshot_ts = od_last_snapshot_ts d, oc_end_date = od_end_date d,
          oc_is_complete = (reasons = []), oc_failure_reasons = reasons\<rparr>)"

definition missing_outcomes :: "string list \<Rightarrow> completeness_failure list" where
  "missing_outcomes names =
     (if ''Up'' \<in> set names \<or> ''Down'' \<in> set names then
        (if ''Up'' \<notin> set names then [MissingOutcome ''Up''] else []) @
        (if ''Down'' \<notin> set names then [MissingOutcome ''Down''] else [])
      else [])"

definition check_market ::
  "completeness_config \<Rightarrow> (int \<Rightarrow> timestamp option) \<Rightarrow> string \<Rightarrow> (string \<times> outcome_data) list \<Rightarrow> market_completeness" where
  "check_market c of_millis ticker outcomes_data =
     (let outcomes = map (\<lambda>(name, d). check_outcome c of_millis name d) outcomes_data;
        reasons = concat (map oc_failure_reasons outcomes) @ missing_outcomes (map fst outcomes_data);
        sorted = sort_key oc_outcome outcomes
      in \<lparr>mc_ticker = ticker, mc_outcomes = sorted,
          mc_is_complete = (list_all oc_is_complete sorted \<and> reasons = []), mc_failure_reasons = reasons\<rparr>)"

definition check_completeness ::
  "completeness_config \<Rightarrow> (string \<Rightarrow> timestamp option) \<Rightarrow> (int \<Rightarrow> timestamp option) \<Rightarrow> metadata \<Rightarrow>
   book_snapshot list \<Rightarrow> trade list \<Rightarrow> completeness_report" where
  "check_completeness c parse_end of_millis md snapshots trades =
     (let markets = sort_key mc_ticker (map (\<lambda>(ticker, os). check_market c of_millis ticker os)
            (group_by_ticker (outcome_counts parse_end md snapshots trades)));
        complete = length (filter mc_is_complete markets)
      in \<lparr>cr_markets = markets, cr_complete_count = complete, cr_incomplete_count = length markets - complete\<rparr>)"

definition in_tickers :: "string set \<Rightarrow> market_metadata option \<Rightarrow> bool" where
  "in_tickers tickers m = (case m of None \<Rightarrow> False | Some m \<Rightarrow> mm_ticker m \<in> tickers)"

definition filter_complete ::
  "metadata \<Rightarrow> book_snapshot list \<Rightarrow> trade list \<Rightarrow> completeness_report \<Rightarrow> book_snapshot list \<times> trade list" where
  "filter_complete md snapshots trades r =
     (filter (\<lambda>b. in_tickers (complete_tickers r) (md_snapshot md b)) snapshots,
      filter (\<lambda>t. in_tickers (complete_tickers r) (md_trade md t)) trades)"

fun show_int :: "int \<Rightarrow> string" where
  "show_int i = (if i < 0 then CHR ''-'' # digits (nat (- i)) else digits (nat i))"

fun show_failure :: "completeness_failure \<Rightarrow> string" where
  "show_failure (DataEndsBeforeExpiry gap) = ''DATA_ENDS_BEFORE_EXPIRY(gap='' @ show_int gap @ ''s)''"
| "show_failure (InsufficientSnapshots n required) =
     ''LOW_SNAPSHOT('' @ digits (unat n) @ ''/'' @ digits (unat required) @ '')''"
| "show_failure (InsufficientTrades n required) =
     ''LOW_TRADE('' @ digits (unat n) @ ''/'' @ digits (unat required) @ '')''"
| "show_failure (MissingOutcome outcome) = ''MISSING_OUTCOME('' @ outcome @ '')''"

fun join :: "string \<Rightarrow> string list \<Rightarrow> string" where
  "join sep [] = []"
| "join sep [x] = x"
| "join sep (x # y # xs) = x @ sep @ join sep (y # xs)"

definition describe :: "market_completeness \<Rightarrow> string" where
  "describe m = mc_ticker m @ '': '' @ join '', '' (map show_failure (mc_failure_reasons m))"

text \<open>\<open>check_data_completeness\<close> of \<open>backtest/runner.rs\<close>.\<close>

definition check_data_completeness ::
  "completeness_config \<Rightarrow> (string \<Rightarrow> timestamp option) \<Rightarrow> (int \<Rightarrow> timestamp option) \<Rightarrow>
   metadata \<Rightarrow> book_snapshot list \<Rightarrow> book_update list \<Rightarrow> trade list \<Rightarrow>
   backtest_error + (book_snapshot list \<times> book_update list \<times> trade list)" where
  "check_data_completeness c parse_end of_millis md snapshots updates trades =
     (if \<not> cc_enabled c then Inr (snapshots, updates, trades)
      else
        let r = check_completeness c parse_end of_millis md snapshots trades
        in case cc_on_incomplete c of
             WarnIncomplete \<Rightarrow> Inr (snapshots, updates, trades)
           | FilterIncomplete \<Rightarrow>
               let (snapshots', trades') = filter_complete md snapshots trades r
               in Inr (snapshots', filter (\<lambda>u. in_tickers (complete_tickers r) (md_update md u)) updates, trades')
           | FailIncomplete \<Rightarrow>
               if cr_incomplete_count r > 0
               then Inl (DataCompletenessError (cr_incomplete_count r)
                      (join ''; '' (map describe (filter (\<lambda>m. \<not> mc_is_complete m) (cr_markets r)))))
               else Inr (snapshots, updates, trades))"

section \<open>What completeness means\<close>

text \<open>The events of an outcome, and the date of its end: the one of its first event, snapshots before trades.\<close>

definition events_at :: "('a \<Rightarrow> market_metadata option) \<Rightarrow> string \<times> string \<Rightarrow> 'a list \<Rightarrow> 'a list" where
  "events_at meta k xs = filter (\<lambda>x. map_option outcome_key (meta x) = Some k) xs"

definition metas_at :: "metadata \<Rightarrow> string \<times> string \<Rightarrow> book_snapshot list \<Rightarrow> trade list \<Rightarrow> market_metadata list" where
  "metas_at md k snapshots trades =
     List.map_filter (md_snapshot md) (events_at (md_snapshot md) k snapshots)
     @ List.map_filter (md_trade md) (events_at (md_trade md) k trades)"

definition end_of ::
  "(string \<Rightarrow> timestamp option) \<Rightarrow> metadata \<Rightarrow> string \<times> string \<Rightarrow> book_snapshot list \<Rightarrow> trade list \<Rightarrow> timestamp option" where
  "end_of parse_end md k snapshots trades =
     (case metas_at md k snapshots trades of [] \<Rightarrow> None | m # ms \<Rightarrow> parse_end (mm_end_date m))"

definition outcomes_of :: "metadata \<Rightarrow> string \<Rightarrow> book_snapshot list \<Rightarrow> trade list \<Rightarrow> string set" where
  "outcomes_of md ticker snapshots trades =
     {outcome. events_at (md_snapshot md) (ticker, outcome) snapshots \<noteq> [] \<or> events_at (md_trade md) (ticker, outcome) trades \<noteq> []}"

definition covered ::
  "completeness_config \<Rightarrow> (string \<Rightarrow> timestamp option) \<Rightarrow> (int \<Rightarrow> timestamp option) \<Rightarrow> metadata \<Rightarrow>
   book_snapshot list \<Rightarrow> trade list \<Rightarrow> string \<times> string \<Rightarrow> bool" where
  "covered c parse_end of_millis md snapshots trades k \<longleftrightarrow>
     (let books = events_at (md_snapshot md) k snapshots in
      cc_min_snapshot_count c \<le> of_nat (length books)
      \<and> cc_min_trade_count c \<le> of_nat (length (events_at (md_trade md) k trades))
      \<and> (books = [] \<or>
          (case (end_of parse_end md k snapshots trades, of_millis (Max (bk_timestamp ` set books))) of
             (Some end_date, Some last_dt) \<Rightarrow> num_seconds (end_date - last_dt) \<le> cc_max_snapshot_gap_secs c
           | _ \<Rightarrow> True)))"

definition market_covered ::
  "completeness_config \<Rightarrow> (string \<Rightarrow> timestamp option) \<Rightarrow> (int \<Rightarrow> timestamp option) \<Rightarrow> metadata \<Rightarrow>
   book_snapshot list \<Rightarrow> trade list \<Rightarrow> string \<Rightarrow> bool" where
  "market_covered c parse_end of_millis md snapshots trades ticker \<longleftrightarrow>
     (let os = outcomes_of md ticker snapshots trades in
      os \<noteq> {} \<and> (\<forall>outcome \<in> os. covered c parse_end of_millis md snapshots trades (ticker, outcome))
      \<and> (''Up'' \<in> os \<longleftrightarrow> ''Down'' \<in> os))"

section \<open>The counts\<close>

lemma events_snoc [simp]:
  "events_at meta k [] = []"
  "events_at meta k (xs @ [x]) = events_at meta k xs @ (if map_option outcome_key (meta x) = Some k then [x] else [])"
  by (simp_all add: events_at_def)

lemma map_filter_snoc: "List.map_filter f (xs @ [x]) = List.map_filter f xs @ (case f x of None \<Rightarrow> [] | Some y \<Rightarrow> [y])"
  by (induction xs) (auto simp: List.map_filter_simps split: option.split)

lemma map_filter_events: "List.map_filter meta (events_at meta k xs) = [] \<longleftrightarrow> events_at meta k xs = []"
  by (induction xs) (auto simp: List.map_filter_simps events_at_def)

lemma metas_at_simps:
  "metas_at md k [] [] = []"
  "metas_at md k (ss @ [b]) [] = metas_at md k ss [] @ (case md_snapshot md b of None \<Rightarrow> []
     | Some m \<Rightarrow> if outcome_key m = k then [m] else [])"
  "metas_at md k ss (ts @ [t]) = metas_at md k ss ts @ (case md_trade md t of None \<Rightarrow> []
     | Some m \<Rightarrow> if outcome_key m = k then [m] else [])"
  by (auto simp: metas_at_def map_filter_snoc List.map_filter_simps split: option.split)

lemma metas_at_empty:
  "metas_at md k ss ts = [] \<longleftrightarrow> events_at (md_snapshot md) k ss = [] \<and> events_at (md_trade md) k ts = []"
  by (simp add: metas_at_def map_filter_events)

lemma end_of_first:
  "metas_at md k ss ts = metas_at md k ss' ts' @ [m] \<Longrightarrow> end_of parse_end md k ss ts =
     (if metas_at md k ss' ts' = [] then parse_end (mm_end_date m) else end_of parse_end md k ss' ts')"
  "metas_at md k ss ts = metas_at md k ss' ts' \<Longrightarrow> end_of parse_end md k ss ts = end_of parse_end md k ss' ts'"
  by (cases "metas_at md k ss' ts'"; simp add: end_of_def)+

lemma Max_snoc: "xs \<noteq> [] \<Longrightarrow> Max (insert (f x) (f ` set xs)) = max (Max (f ` set xs)) (f x :: int)"
  by (simp add: max.commute)

lemma snapshot_counts:
  "hget (foldl (add_snapshot parse_end md) [] ss) k =
     (let books = events_at (md_snapshot md) k ss in
      if books = [] then None
      else Some \<lparr>od_snapshot_count = of_nat (length books), od_trade_count = 0,
             od_last_snapshot_ts = Some (Max (bk_timestamp ` set books)), od_end_date = end_of parse_end md k ss []\<rparr>)"
proof (induction ss rule: rev_induct)
  case (snoc b ss)
  show ?case
  proof (cases "\<exists>m. md_snapshot md b = Some m \<and> outcome_key m = k")
    case True
    then obtain m where m: "md_snapshot md b = Some m" "outcome_key m = k" by blast
    have "end_of parse_end md k (ss @ [b]) [] = (if events_at (md_snapshot md) k ss = [] then parse_end (mm_end_date m)
        else end_of parse_end md k ss [])"
      using end_of_first(1) [of md k "ss @ [b]" "[]" ss "[]" m parse_end] m by (simp add: metas_at_simps metas_at_empty)
    then show ?thesis
      using snoc m Max_snoc [of "events_at (md_snapshot md) k ss" bk_timestamp b]
      by (auto simp: add_snapshot_def outcome_entry_def Let_def)
  next
    case False
    then have "end_of parse_end md k (ss @ [b]) [] = end_of parse_end md k ss []"
      by (intro end_of_first(2)) (auto simp: metas_at_simps split: option.split)
    then show ?thesis using snoc False by (auto simp: add_snapshot_def Let_def split: option.split)
  qed
qed simp

lemma outcome_counts_at:
  "hget (outcome_counts parse_end md ss ts) k =
     (let books = events_at (md_snapshot md) k ss; trades = events_at (md_trade md) k ts in
      if books = [] \<and> trades = [] then None
      else Some \<lparr>od_snapshot_count = of_nat (length books), od_trade_count = of_nat (length trades),
             od_last_snapshot_ts = (if books = [] then None else Some (Max (bk_timestamp ` set books))),
             od_end_date = end_of parse_end md k ss ts\<rparr>)"
proof (induction ts rule: rev_induct)
  case Nil
  then show ?case by (simp add: outcome_counts_def snapshot_counts Let_def)
next
  case (snoc t ts)
  have step: "outcome_counts parse_end md ss (ts @ [t]) = add_trade parse_end md (outcome_counts parse_end md ss ts) t"
    by (simp add: outcome_counts_def)
  show ?case
  proof (cases "\<exists>m. md_trade md t = Some m \<and> outcome_key m = k")
    case True
    then obtain m where m: "md_trade md t = Some m" "outcome_key m = k" by blast
    have "end_of parse_end md k ss (ts @ [t]) =
        (if events_at (md_snapshot md) k ss = [] \<and> events_at (md_trade md) k ts = [] then parse_end (mm_end_date m)
         else end_of parse_end md k ss ts)"
      using end_of_first(1) [of md k ss "ts @ [t]" ss ts m parse_end] m by (simp add: metas_at_simps metas_at_empty)
    then show ?thesis
      using snoc m by (auto simp: step add_trade_def outcome_entry_def Let_def)
  next
    case False
    then have "end_of parse_end md k ss (ts @ [t]) = end_of parse_end md k ss ts"
      by (intro end_of_first(2)) (auto simp: metas_at_simps split: option.split)
    then show ?thesis using snoc False by (auto simp: step add_trade_def Let_def split: option.split)
  qed
qed

lemma outcome_counts_wf: "hwf (outcome_counts parse_end md ss ts)"
proof -
  have "hwf d \<Longrightarrow> hwf (foldl (add_snapshot parse_end md) d ss)" for d
    by (induction ss arbitrary: d) (auto simp: add_snapshot_def Let_def split: option.split)
  moreover have "hwf d \<Longrightarrow> hwf (foldl (add_trade parse_end md) d ts)" for d
    by (induction ts arbitrary: d) (auto simp: add_trade_def Let_def split: option.split)
  ultimately show ?thesis by (simp add: outcome_counts_def)
qed

lemma add_outcome_entry:
  "add_outcome ms ((ticker, outcome), d) = hput ticker (unwrap_or (hget ms ticker) [] @ [(outcome, d)]) ms"
  by (simp add: add_outcome_def)

lemma group_at:
  "hget (group_by_ticker d) ticker =
     (let os = filter (\<lambda>p. fst (fst p) = ticker) d
      in if os = [] then None else Some (map (\<lambda>p. (snd (fst p), snd p)) os))"
  unfolding group_by_ticker_def
proof (induction d rule: rev_induct)
  case (snoc p d)
  obtain t outcome e where p: "p = ((t, outcome), e)" by (metis prod.exhaust)
  show ?case using snoc by (cases "t = ticker") (auto simp: p add_outcome_entry Let_def)
qed simp

lemma group_wf: "hwf (group_by_ticker d)"
proof -
  have "hwf m \<Longrightarrow> hwf (foldl add_outcome m d)" for m
    by (induction d arbitrary: m) (auto simp: add_outcome_entry)
  then show ?thesis by (simp add: group_by_ticker_def)
qed

section \<open>The verdicts\<close>

lemma outcome_verdict:
  "oc_failure_reasons (check_outcome c of_millis outcome
      \<lparr>od_snapshot_count = n, od_trade_count = k, od_last_snapshot_ts = last_ts, od_end_date = end_date\<rparr>) = [] \<longleftrightarrow>
   cc_min_snapshot_count c \<le> n \<and> cc_min_trade_count c \<le> k
   \<and> (case (end_date, Option.bind last_ts of_millis) of
        (Some e, Some l) \<Rightarrow> num_seconds (e - l) \<le> cc_max_snapshot_gap_secs c | _ \<Rightarrow> True)"
  by (auto simp: check_outcome_def Let_def not_less not_le split: option.splits if_splits)

lemma outcome_complete: "oc_is_complete (check_outcome c f n d) \<longleftrightarrow> oc_failure_reasons (check_outcome c f n d) = []"
  by (simp add: check_outcome_def Let_def)

lemma market_verdict:
  "mc_is_complete (check_market c of_millis ticker os) \<longleftrightarrow>
     (\<forall>(outcome, d) \<in> set os. oc_failure_reasons (check_outcome c of_millis outcome d) = [])
     \<and> (''Up'' \<in> fst ` set os \<longleftrightarrow> ''Down'' \<in> fst ` set os)"
  by (auto simp: check_market_def Let_def missing_outcomes_def list_all_iff outcome_complete)

lemma covered_verdict:
  assumes "hget (outcome_counts parse_end md ss ts) k = Some d"
  shows "oc_failure_reasons (check_outcome c of_millis outcome d) = [] \<longleftrightarrow> covered c parse_end of_millis md ss ts k"
proof -
  obtain n l t e where d: "d = \<lparr>od_snapshot_count = n, od_trade_count = t, od_last_snapshot_ts = l, od_end_date = e\<rparr>"
    by (cases d)
  show ?thesis
    using assms unfolding outcome_counts_at d outcome_verdict
    by (auto simp: Let_def covered_def split: if_splits option.splits)
qed

lemma present_outcome:
  "outcome \<in> outcomes_of md ticker ss ts \<longleftrightarrow> (\<exists>e. ((ticker, outcome), e) \<in> set (outcome_counts parse_end md ss ts))"
  unfolding hget_iff_mem [OF outcome_counts_wf, symmetric] outcome_counts_at by (simp add: outcomes_of_def Let_def)

lemma group_member:
  assumes "(ticker, os) \<in> set (group_by_ticker (outcome_counts parse_end md ss ts))"
  shows "os \<noteq> []" "(outcome, e) \<in> set os \<longleftrightarrow> ((ticker, outcome), e) \<in> set (outcome_counts parse_end md ss ts)"
proof -
  have os: "os = map (\<lambda>p. (snd (fst p), snd p)) (filter (\<lambda>p. fst (fst p) = ticker) (outcome_counts parse_end md ss ts))"
    "filter (\<lambda>p. fst (fst p) = ticker) (outcome_counts parse_end md ss ts) \<noteq> []"
    using assms unfolding hget_iff_mem [OF group_wf, symmetric] group_at Let_def by (simp_all split: if_splits)
  show "os \<noteq> []" using os by simp
  show "(outcome, e) \<in> set os \<longleftrightarrow> ((ticker, outcome), e) \<in> set (outcome_counts parse_end md ss ts)"
    unfolding os(1) by force
qed

lemma group_present:
  "outcomes_of md ticker ss ts \<noteq> {} \<longleftrightarrow> (\<exists>os. (ticker, os) \<in> set (group_by_ticker (outcome_counts parse_end md ss ts)))"
proof
  assume "\<exists>os. (ticker, os) \<in> set (group_by_ticker (outcome_counts parse_end md ss ts))"
  then obtain os where os: "(ticker, os) \<in> set (group_by_ticker (outcome_counts parse_end md ss ts))" by blast
  obtain outcome e where "(outcome, e) \<in> set os" using group_member(1) [OF os] by (cases os) auto
  then show "outcomes_of md ticker ss ts \<noteq> {}" using group_member(2) [OF os] present_outcome by blast
next
  assume "outcomes_of md ticker ss ts \<noteq> {}"
  then obtain outcome e where "((ticker, outcome), e) \<in> set (outcome_counts parse_end md ss ts)"
    using present_outcome by blast
  then have "filter (\<lambda>p. fst (fst p) = ticker) (outcome_counts parse_end md ss ts) \<noteq> []"
    by (auto simp: filter_empty_conv intro!: bexI [of _ "((ticker, outcome), e)"])
  then show "\<exists>os. (ticker, os) \<in> set (group_by_ticker (outcome_counts parse_end md ss ts))"
    unfolding hget_iff_mem [OF group_wf, symmetric] group_at Let_def by simp
qed

lemma group_verdict:
  assumes os: "(ticker, os) \<in> set (group_by_ticker (outcome_counts parse_end md ss ts))"
  shows "mc_is_complete (check_market c of_millis ticker os) \<longleftrightarrow> market_covered c parse_end of_millis md ss ts ticker"
proof -
  note mem = group_member(2) [OF os]
  have verdict: "oc_failure_reasons (check_outcome c of_millis outcome e) = [] \<longleftrightarrow>
      covered c parse_end of_millis md ss ts (ticker, outcome)"
    if "((ticker, outcome), e) \<in> set (outcome_counts parse_end md ss ts)" for outcome e
    by (rule covered_verdict) (use that in \<open>simp only: hget_iff_mem [OF outcome_counts_wf]\<close>)
  have names: "outcome \<in> fst ` set os \<longleftrightarrow> outcome \<in> outcomes_of md ticker ss ts" for outcome
    unfolding present_outcome [of _ md ticker ss ts parse_end] mem [symmetric] by force
  have "(\<forall>(outcome, e) \<in> set os. oc_failure_reasons (check_outcome c of_millis outcome e) = []) \<longleftrightarrow>
      (\<forall>outcome \<in> outcomes_of md ticker ss ts. covered c parse_end of_millis md ss ts (ticker, outcome))"
  proof
    assume all: "\<forall>(outcome, e) \<in> set os. oc_failure_reasons (check_outcome c of_millis outcome e) = []"
    show "\<forall>outcome \<in> outcomes_of md ticker ss ts. covered c parse_end of_millis md ss ts (ticker, outcome)"
    proof
      fix outcome assume "outcome \<in> outcomes_of md ticker ss ts"
      then obtain e where e: "((ticker, outcome), e) \<in> set (outcome_counts parse_end md ss ts)" using present_outcome by blast
      then have "oc_failure_reasons (check_outcome c of_millis outcome e) = []" using all mem by blast
      then show "covered c parse_end of_millis md ss ts (ticker, outcome)" using verdict [OF e] by blast
    qed
  next
    assume all: "\<forall>outcome \<in> outcomes_of md ticker ss ts. covered c parse_end of_millis md ss ts (ticker, outcome)"
    have "oc_failure_reasons (check_outcome c of_millis outcome e) = []" if "(outcome, e) \<in> set os" for outcome e
    proof -
      have e: "((ticker, outcome), e) \<in> set (outcome_counts parse_end md ss ts)" using that mem by blast
      then have "outcome \<in> outcomes_of md ticker ss ts" using present_outcome by blast
      with all show ?thesis using verdict [OF e] by blast
    qed
    then show "\<forall>(outcome, e) \<in> set os. oc_failure_reasons (check_outcome c of_millis outcome e) = []" by blast
  qed
  moreover have "outcomes_of md ticker ss ts \<noteq> {}" using group_present os by blast
  ultimately show ?thesis unfolding market_verdict names market_covered_def Let_def by simp
qed

lemma report_markets:
  "set (cr_markets (check_completeness c parse_end of_millis md ss ts)) =
   (\<lambda>(ticker, os). check_market c of_millis ticker os) ` set (group_by_ticker (outcome_counts parse_end md ss ts))"
  by (simp add: check_completeness_def Let_def)

lemma market_ticker: "mc_ticker (check_market c of_millis ticker os) = ticker"
  by (simp add: check_market_def Let_def)

lemma complete_tickers_iff:
  "ticker \<in> complete_tickers (check_completeness c parse_end of_millis md ss ts) \<longleftrightarrow>
   market_covered c parse_end of_millis md ss ts ticker"
proof
  assume "ticker \<in> complete_tickers (check_completeness c parse_end of_millis md ss ts)"
  then obtain os where "(ticker, os) \<in> set (group_by_ticker (outcome_counts parse_end md ss ts))"
    "mc_is_complete (check_market c of_millis ticker os)"
    by (auto simp: complete_tickers_def report_markets market_ticker)
  then show "market_covered c parse_end of_millis md ss ts ticker" using group_verdict by blast
next
  assume covered: "market_covered c parse_end of_millis md ss ts ticker"
  then have "outcomes_of md ticker ss ts \<noteq> {}" by (simp add: market_covered_def Let_def)
  then obtain os where os: "(ticker, os) \<in> set (group_by_ticker (outcome_counts parse_end md ss ts))"
    using group_present by blast
  then have "mc_is_complete (check_market c of_millis ticker os)" using group_verdict covered by blast
  then show "ticker \<in> complete_tickers (check_completeness c parse_end of_millis md ss ts)"
    using os by (force simp: complete_tickers_def report_markets market_ticker)
qed

lemma nothing_incomplete:
  assumes "\<And>ticker. outcomes_of md ticker ss ts \<noteq> {} \<Longrightarrow> market_covered c parse_end of_millis md ss ts ticker"
  shows "cr_incomplete_count (check_completeness c parse_end of_millis md ss ts) = 0"
proof -
  let ?r = "check_completeness c parse_end of_millis md ss ts"
  have "mc_is_complete m" if "m \<in> set (cr_markets ?r)" for m
    using that assms group_present [of md _ ss ts parse_end] group_verdict unfolding report_markets by fastforce
  then have "filter mc_is_complete (cr_markets ?r) = cr_markets ?r" by (simp add: filter_id_conv)
  then show ?thesis by (simp add: check_completeness_def Let_def)
qed

section \<open>Filtering\<close>

text \<open>Filtering by tickers leaves the events of a ticker alone or removes them all.\<close>

lemma events_at_kept:
  "events_at meta (ticker, outcome) (filter (\<lambda>x. in_tickers T (meta x)) xs) =
   (if ticker \<in> T then events_at meta (ticker, outcome) xs else [])"
  by (induction xs) (auto simp: events_at_def in_tickers_def outcome_key_def split: option.splits)

lemma end_of_cong:
  assumes "events_at (md_snapshot md) k ss = events_at (md_snapshot md) k ss'"
    "events_at (md_trade md) k ts = events_at (md_trade md) k ts'"
  shows "end_of parse_end md k ss ts = end_of parse_end md k ss' ts'"
  using assms by (simp add: end_of_def metas_at_def)

lemma filtered_covered:
  assumes T: "T = {ticker. market_covered c parse_end of_millis md ss ts ticker}"
    and ss': "ss' = filter (\<lambda>b. in_tickers T (md_snapshot md b)) ss"
    and ts': "ts' = filter (\<lambda>t. in_tickers T (md_trade md t)) ts"
    and present: "outcomes_of md ticker ss' ts' \<noteq> {}"
  shows "market_covered c parse_end of_millis md ss' ts' ticker"
proof -
  have "ticker \<in> T"
    using present unfolding outcomes_of_def ss' ts' events_at_kept by (auto split: if_splits)
  then have at: "events_at (md_snapshot md) (ticker, outcome) ss' = events_at (md_snapshot md) (ticker, outcome) ss"
    "events_at (md_trade md) (ticker, outcome) ts' = events_at (md_trade md) (ticker, outcome) ts" for outcome
    unfolding ss' ts' events_at_kept by simp_all
  have "outcomes_of md ticker ss' ts' = outcomes_of md ticker ss ts" by (simp add: outcomes_of_def at)
  moreover have "covered c parse_end of_millis md ss' ts' (ticker, outcome) = covered c parse_end of_millis md ss ts (ticker, outcome)"
    for outcome by (simp add: covered_def at end_of_cong [OF at])
  ultimately show ?thesis using \<open>ticker \<in> T\<close> by (simp add: T market_covered_def)
qed

lemma covered_behavior:
  "market_covered (c\<lparr>cc_on_incomplete := x\<rparr>) parse_end of_millis md ss ts ticker =
   market_covered c parse_end of_millis md ss ts ticker"
  by (simp add: market_covered_def covered_def cong: option.case_cong)

text \<open>C20. Filtering keeps exactly the events, in their order, of the markets that are covered: each outcome
  that the data show has the required numbers of snapshots and trades and does not end too early, and a
  market with one of the outcomes Up and Down has both.  The data that are kept pass the strictest
  setting, which refuses any incomplete market.\<close>

theorem completeness_filter_exact:
  assumes "cc_enabled c" "cc_on_incomplete c = FilterIncomplete"
    and T: "T = {ticker. market_covered c parse_end of_millis md ss ts ticker}"
  shows "\<exists>ss' us' ts'. check_data_completeness c parse_end of_millis md ss us ts = Inr (ss', us', ts')
    \<and> ss' = filter (\<lambda>b. in_tickers T (md_snapshot md b)) ss
    \<and> us' = filter (\<lambda>u. in_tickers T (md_update md u)) us
    \<and> ts' = filter (\<lambda>t. in_tickers T (md_trade md t)) ts
    \<and> check_data_completeness (c\<lparr>cc_on_incomplete := FailIncomplete\<rparr>) parse_end of_millis md ss' us' ts' = Inr (ss', us', ts')"
proof -
  define ss' ts' where ss': "ss' = filter (\<lambda>b. in_tickers T (md_snapshot md b)) ss"
    and ts': "ts' = filter (\<lambda>t. in_tickers T (md_trade md t)) ts"
  have "complete_tickers (check_completeness c parse_end of_millis md ss ts) = T"
    using complete_tickers_iff unfolding T by blast
  moreover have "cr_incomplete_count (check_completeness (c\<lparr>cc_on_incomplete := FailIncomplete\<rparr>) parse_end of_millis md ss' ts') = 0"
    by (rule nothing_incomplete) (unfold covered_behavior, rule filtered_covered [OF T ss' ts'])
  ultimately show ?thesis
    using assms(1,2) by (simp add: check_data_completeness_def filter_complete_def Let_def ss' ts')
qed

definition demo_metadata :: metadata where
  "demo_metadata = \<lparr>md_snapshot = (\<lambda>b. Some \<lparr>mm_ticker = bk_market b, mm_outcome = None, mm_end_date = []\<rparr>),
     md_update = (\<lambda>u. Some \<lparr>mm_ticker = bu_market u, mm_outcome = None, mm_end_date = []\<rparr>),
     md_trade = (\<lambda>t. Some \<lparr>mm_ticker = tr_asset_id t, mm_outcome = None, mm_end_date = []\<rparr>)\<rparr>"

definition demo_completeness :: completeness_config where
  "demo_completeness = completeness_default\<lparr>cc_min_snapshot_count := 1, cc_min_trade_count := 0\<rparr>"

lemma demo_outcomes:
  "events_at (md_snapshot demo_metadata) (ticker, outcome) [b] = (if ticker = bk_market b \<and> outcome = ''Unknown'' then [b] else [])"
  "outcomes_of demo_metadata ticker [b] [] = (if ticker = bk_market b then {''Unknown''} else {})"
  by (auto simp: outcomes_of_def events_at_def demo_metadata_def outcome_key_def)

lemma demo_covered:
  "market_covered demo_completeness (\<lambda>d. None) f demo_metadata [b] [] ticker \<longleftrightarrow> ticker = bk_market b"
  by (auto simp: market_covered_def covered_def demo_outcomes demo_completeness_def completeness_default_def end_of_def
      split: list.splits option.splits)

theorem completeness_filter_exact_witness:
  "check_data_completeness demo_completeness (\<lambda>d. None) Some demo_metadata [demo_snapshot] [] [] =
     Inr ([demo_snapshot], [], [])"
proof -
  have "{bk_market demo_snapshot} =
      {ticker. market_covered demo_completeness (\<lambda>d. None) Some demo_metadata [demo_snapshot] [] ticker}"
    by (auto simp: demo_covered)
  moreover have "cc_enabled demo_completeness" "cc_on_incomplete demo_completeness = FilterIncomplete"
    by (simp_all add: demo_completeness_def completeness_default_def)
  moreover have "in_tickers {bk_market demo_snapshot} (md_snapshot demo_metadata demo_snapshot)"
    by (simp add: in_tickers_def demo_metadata_def)
  ultimately show ?thesis using completeness_filter_exact by fastforce
qed

text \<open>An end date that cannot be read counts as covered, and so does an outcome without any snapshot when
  no snapshots are required.\<close>

lemma unreadable_end_is_covered:
  assumes "\<And>d. parse_end d = None"
  shows "covered c parse_end of_millis md ss ts k \<longleftrightarrow>
    cc_min_snapshot_count c \<le> of_nat (length (events_at (md_snapshot md) k ss))
    \<and> cc_min_trade_count c \<le> of_nat (length (events_at (md_trade md) k ts))"
  using assms by (auto simp: covered_def end_of_def Let_def split: list.split option.split)

end
