(* ===== verification/Backtest_Config.thy ===== *)
theory Backtest_Config
  imports Completeness
begin

text \<open>
  The configuration of a backtest, \<open>backtest/config.rs\<close>: its parts with their defaults, the builder
  functions, the validation, and which events are captured.  \<open>exists\<close> tells which files there are.  The
  defaults of missing fields in a configuration file are those of the constructors.
\<close>

section \<open>Positions\<close>

datatype exit_strategy_mode = ConfigurableMode | NoopMode

record position_config =
  pcf_initial_balance :: f64
  pcf_max_open_positions :: u32
  pcf_max_holding_period :: duration
  pcf_trade_amount :: f64
  pcf_take_profit_threshold :: f64
  pcf_stop_loss_threshold :: f64
  pcf_max_sell_failures :: u32
  pcf_exit_strategy_mode :: exit_strategy_mode

definition position_config_default :: position_config where
  "position_config_default = \<lparr>pcf_initial_balance = f_lit 10000, pcf_max_open_positions = 10,
     pcf_max_holding_period = 3600 * 1000000000, pcf_trade_amount = f_lit 100,
     pcf_take_profit_threshold = f_lit (1 / 5), pcf_stop_loss_threshold = f_lit (1 / 10),
     pcf_max_sell_failures = 3, pcf_exit_strategy_mode = ConfigurableMode\<rparr>"

definition position_config_new :: "f64 \<Rightarrow> u32 \<Rightarrow> duration \<Rightarrow> f64 \<Rightarrow> position_config" where
  "position_config_new balance max_open holding amount =
     position_config_default\<lparr>pcf_initial_balance := balance, pcf_max_open_positions := max_open,
       pcf_max_holding_period := holding, pcf_trade_amount := amount\<rparr>"

definition with_take_profit :: "f64 \<Rightarrow> position_config \<Rightarrow> position_config" where
  "with_take_profit x c = c\<lparr>pcf_take_profit_threshold := x\<rparr>"

definition with_stop_loss :: "f64 \<Rightarrow> position_config \<Rightarrow> position_config" where
  "with_stop_loss x c = c\<lparr>pcf_stop_loss_threshold := x\<rparr>"

definition with_exit_strategy_mode :: "exit_strategy_mode \<Rightarrow> position_config \<Rightarrow> position_config" where
  "with_exit_strategy_mode x c = c\<lparr>pcf_exit_strategy_mode := x\<rparr>"

definition with_noop_exit_strategy :: "position_config \<Rightarrow> position_config" where
  "with_noop_exit_strategy c = with_exit_strategy_mode NoopMode c"

text \<open>A duration that the date library cannot hold counts as one hour.\<close>

definition max_holding_period_chrono :: "position_config \<Rightarrow> duration" where
  "max_holding_period_chrono c =
     (if pcf_max_holding_period c \<le> (2 ^ 63 - 1) * 1000000 then pcf_max_holding_period c else 3600 * 1000000000)"

section \<open>Captured events\<close>

record capture_config =
  cap_token_events :: bool
  cap_orderbook_snapshots :: bool
  cap_orderbook_updates :: bool
  cap_polymarket_trades :: bool
  cap_spot_prices :: bool
  cap_timer_events :: bool
  cap_signal_events :: bool
  cap_position_events :: bool
  cap_execution_events :: bool
  cap_limit_order_events :: bool
  cap_redemption_events :: bool

definition capture_default :: capture_config where
  "capture_default = \<lparr>cap_token_events = True, cap_orderbook_snapshots = True, cap_orderbook_updates = True,
     cap_polymarket_trades = True, cap_spot_prices = True, cap_timer_events = True, cap_signal_events = True,
     cap_position_events = True, cap_execution_events = True, cap_limit_order_events = True,
     cap_redemption_events = True\<rparr>"

fun should_capture :: "capture_config \<Rightarrow> loop_event \<Rightarrow> bool" where
  "should_capture c (TokenBuy t) = cap_token_events c"
| "should_capture c (TokenSell t) = cap_token_events c"
| "should_capture c (TokenSwap t) = cap_token_events c"
| "should_capture c (TokenCreate t) = cap_token_events c"
| "should_capture c (BookSnapshot b) = cap_orderbook_snapshots c"
| "should_capture c (BookUpdate u) = cap_orderbook_updates c"
| "should_capture c (VenueTrade t) = cap_polymarket_trades c"
| "should_capture c (SpotPrice p) = cap_spot_prices c"
| "should_capture c (TimerEv t) = cap_timer_events c"
| "should_capture c (SignalEv s) = cap_signal_events c"
| "should_capture c (Internal (PositionEv e)) = cap_position_events c"
| "should_capture c (Internal (ExecutionEv e)) = cap_execution_events c"
| "should_capture c (Internal (LimitOrderEv e)) = cap_limit_order_events c"
| "should_capture c (Internal (RedemptionEv e)) = cap_redemption_events c"

section \<open>Backtests\<close>

text \<open>The settings of simulated latencies; the seed only selects the random draws.\<close>

record sim_latency = latency_config +
  lat_min_quote_lifetime_ms :: "u64 option"

record backtest_config =
  bc_snapshot_path :: string
  bc_update_path :: string
  bc_trade_path :: string
  bc_spot_event_path :: "string option"
  bc_outcome_filter :: "string option"
  bc_ticker_patterns :: "string list option"
  bc_ticker_time_range_filter :: bool
  bc_ticker_time_range_buffer :: duration
  bc_position :: position_config
  bc_timer_interval :: duration
  bc_output_path :: string
  bc_signal_output_path :: "string option"
  bc_buy_slippage :: f64
  bc_sell_slippage :: f64
  bc_latency :: "sim_latency option"
  bc_completeness :: completeness_config
  bc_capture :: capture_config

definition backtest_config_new :: "string \<Rightarrow> string \<Rightarrow> string \<Rightarrow> string \<Rightarrow> backtest_config" where
  "backtest_config_new snapshot_path update_path trade_path output_path =
     \<lparr>bc_snapshot_path = snapshot_path, bc_update_path = update_path, bc_trade_path = trade_path,
      bc_spot_event_path = None, bc_outcome_filter = None, bc_ticker_patterns = None,
      bc_ticker_time_range_filter = True, bc_ticker_time_range_buffer = 300 * 1000000000,
      bc_position = position_config_default, bc_timer_interval = 1000000000, bc_output_path = output_path,
      bc_signal_output_path = None, bc_buy_slippage = f0, bc_sell_slippage = f0, bc_latency = None,
      bc_completeness = completeness_default, bc_capture = capture_default\<rparr>"

definition with_spot_event_path :: "string \<Rightarrow> backtest_config \<Rightarrow> backtest_config" where
  "with_spot_event_path x c = c\<lparr>bc_spot_event_path := Some x\<rparr>"

definition with_outcome_filter :: "string \<Rightarrow> backtest_config \<Rightarrow> backtest_config" where
  "with_outcome_filter x c = c\<lparr>bc_outcome_filter := Some x\<rparr>"

definition with_ticker_patterns :: "string list \<Rightarrow> backtest_config \<Rightarrow> backtest_config" where
  "with_ticker_patterns x c = c\<lparr>bc_ticker_patterns := Some x\<rparr>"

definition with_ticker_time_range_filter :: "bool \<Rightarrow> backtest_config \<Rightarrow> backtest_config" where
  "with_ticker_time_range_filter x c = c\<lparr>bc_ticker_time_range_filter := x\<rparr>"

definition with_ticker_time_range_buffer :: "duration \<Rightarrow> backtest_config \<Rightarrow> backtest_config" where
  "with_ticker_time_range_buffer x c = c\<lparr>bc_ticker_time_range_buffer := x\<rparr>"

definition with_position_config :: "position_config \<Rightarrow> backtest_config \<Rightarrow> backtest_config" where
  "with_position_config x c = c\<lparr>bc_position := x\<rparr>"

definition with_timer_interval :: "duration \<Rightarrow> backtest_config \<Rightarrow> backtest_config" where
  "with_timer_interval x c = c\<lparr>bc_timer_interval := x\<rparr>"

definition with_slippage :: "f64 \<Rightarrow> f64 \<Rightarrow> backtest_config \<Rightarrow> backtest_config" where
  "with_slippage buy sell c = c\<lparr>bc_buy_slippage := buy, bc_sell_slippage := sell\<rparr>"

definition with_latency :: "sim_latency \<Rightarrow> backtest_config \<Rightarrow> backtest_config" where
  "with_latency x c = c\<lparr>bc_latency := Some x\<rparr>"

definition with_completeness :: "completeness_config \<Rightarrow> backtest_config \<Rightarrow> backtest_config" where
  "with_completeness x c = c\<lparr>bc_completeness := x\<rparr>"

definition with_capture :: "capture_config \<Rightarrow> backtest_config \<Rightarrow> backtest_config" where
  "with_capture x c = c\<lparr>bc_capture := x\<rparr>"

section \<open>Validation\<close>

datatype config_validation_error = FileNotFound string | InvalidValue string

definition validate_config :: "(string \<Rightarrow> bool) \<Rightarrow> backtest_config \<Rightarrow> config_validation_error + unit" where
  "validate_config exists c =
     (if \<not> exists (bc_snapshot_path c) then Inl (FileNotFound (bc_snapshot_path c))
      else if \<not> exists (bc_update_path c) then Inl (FileNotFound (bc_update_path c))
      else if \<not> exists (bc_trade_path c) then Inl (FileNotFound (bc_trade_path c))
      else if fle (pcf_initial_balance (bc_position c)) f0 then Inl (InvalidValue ''initial_balance must be positive'')
      else if fle (pcf_trade_amount (bc_position c)) f0 then Inl (InvalidValue ''trade_amount must be positive'')
      else if flt (bc_buy_slippage c) f0 \<or> flt f1 (bc_buy_slippage c)
      then Inl (InvalidValue ''buy_slippage must be between 0 and 1'')
      else if flt (bc_sell_slippage c) f0 \<or> flt f1 (bc_sell_slippage c)
      then Inl (InvalidValue ''sell_slippage must be between 0 and 1'')
      else Inr ())"

text \<open>The validation lets NaN values and a timer interval of zero pass.\<close>

lemma nan_above: "\<not> flt x NaN" "\<not> flt NaN x"
  by (cases x; simp)+

lemma nan_config_passes:
  assumes "\<And>f. exists f"
  shows "validate_config exists (with_slippage NaN NaN
     (with_position_config (position_config_new NaN n h NaN) (backtest_config_new s u t out))) = Inr ()"
  using assms nan_above
  by (simp add: validate_config_def with_slippage_def with_position_config_def position_config_new_def
      backtest_config_new_def)

lemma zero_interval_passes:
  "validate_config exists (with_timer_interval 0 c) = validate_config exists c"
  by (simp add: validate_config_def with_timer_interval_def)

end
