(* ===== verification/Backtest_Processor.thy ===== *)
theory Backtest_Processor
  imports Backtest_Runs Coordinator_Runs Backtest_Config
begin

text \<open>
  The processing of events in a backtest, \<open>backtest/processor.rs\<close>, and the loop of \<open>backtest/runner.rs\<close>
  that drives it: the events of the coordinator, captured as they are delivered, go to the position
  manager, the simulated executor and the strategy, whose signals become orders that are executed at
  once.  The strategy is outside this component: \<open>bv_generate\<close> advances its state.  The clock, the ids
  of lifecycle records and the draws of latencies that a step reads are its argument of type
  \<open>bp_outside\<close>; a step is one delivered event.  Persistence of signals and log output are left out.
\<close>

section \<open>The state\<close>

record backtest_metrics =
  bm_total_snapshots :: u64
  bm_total_trades :: u64
  bm_total_signals :: u64
  bm_total_orders_placed :: u64
  bm_total_fills :: u64
  bm_total_bid_fills :: u64
  bm_total_ask_fills :: u64
  bm_total_cancels :: u64
  bm_total_quote_received :: f64
  bm_total_quote_spent :: f64
  bm_net_cash_flow :: f64
  bm_final_inventory :: f64
  bm_final_inventory_value :: f64
  bm_final_pnl :: f64
  bm_duration_ms :: u64
  bm_data_start_time :: "timestamp option"
  bm_data_end_time :: "timestamp option"
  bm_total_redemptions :: u64
  bm_total_redemption_value :: f64

definition backtest_metrics_default :: backtest_metrics where
  "backtest_metrics_default = \<lparr>bm_total_snapshots = 0, bm_total_trades = 0, bm_total_signals = 0,
     bm_total_orders_placed = 0, bm_total_fills = 0, bm_total_bid_fills = 0, bm_total_ask_fills = 0,
     bm_total_cancels = 0, bm_total_quote_received = f0, bm_total_quote_spent = f0, bm_net_cash_flow = f0,
     bm_final_inventory = f0, bm_final_inventory_value = f0, bm_final_pnl = f0, bm_duration_ms = 0,
     bm_data_start_time = None, bm_data_end_time = None, bm_total_redemptions = 0,
     bm_total_redemption_value = f0\<rparr>"

text \<open>A captured event: its number, the time of the simulation, and the event that is written to the file.\<close>

record collected_event =
  ce_sequence_id :: nat
  ce_logical_time :: "timestamp option"
  ce_event :: loop_event

record 'g processor =
  bp_manager :: pm_state
  bp_exec :: backtest
  bp_coord :: coordinator
  bp_gen :: 'g
  bp_metrics :: backtest_metrics
  bp_captured :: "collected_event list"

record bp_outside =
  bx_clock :: timestamp
  bx_uuid :: "nat \<Rightarrow> nat \<Rightarrow> string"
  bx_draws :: "nat \<Rightarrow> nat \<Rightarrow> draws"
  bx_lanes :: "quote_lane_key \<Rightarrow> draws"
  bx_released :: "quote_lane_key \<Rightarrow> draws"

record 'g bp_env =
  bv_of_millis :: "int \<Rightarrow> timestamp option"
  bv_generate :: "'g \<Rightarrow> loop_event \<Rightarrow> (string + trade_signal list) \<times> 'g"
  bv_market_of :: "trade \<Rightarrow> string"
  bv_config :: pm_config
  bv_capture :: "loop_event \<Rightarrow> bool"

definition push_event :: "loop_event \<Rightarrow> 'g processor \<Rightarrow> 'g processor" where
  "push_event ev p = p\<lparr>bp_coord := coord_enqueue ev (bp_coord p)\<rparr>"

definition count_event :: "(backtest_metrics \<Rightarrow> backtest_metrics) \<Rightarrow> 'g processor \<Rightarrow> 'g processor" where
  "count_event f p = p\<lparr>bp_metrics := f (bp_metrics p)\<rparr>"

section \<open>Executions\<close>

text \<open>An execution updates the positions, and the resulting position event is enqueued.\<close>

definition bp_handle_execution :: "pm_config \<Rightarrow> execution_event \<Rightarrow> 'g processor \<Rightarrow> 'g processor" where
  "bp_handle_execution c ev p =
     (case handle_execution (bp_manager p) ev (cfg_exit_strategy c) of
        (s, Inr pe) \<Rightarrow> push_event (Internal (PositionEv pe)) (p\<lparr>bp_manager := s\<rparr>)
      | (s, Inl err) \<Rightarrow> p\<lparr>bp_manager := s\<rparr>)"

text \<open>A market order, of a signal or of the timer.\<close>

definition bp_market_order :: "pm_config \<Rightarrow> order \<Rightarrow> 'g processor \<Rightarrow> 'g processor" where
  "bp_market_order c ord p =
     (case bt_execute_market_order (bp_exec p) ord of
        Inl err \<Rightarrow> p
      | Inr ev \<Rightarrow>
          push_event (Internal (ExecutionEv ev))
            (bp_handle_execution c ev
              (count_event (\<lambda>m. m\<lparr>bm_total_orders_placed := bm_total_orders_placed m + 1,
                 bm_total_fills := bm_total_fills m + 1\<rparr>) p)))"

definition bp_cancel_order :: "bp_outside \<Rightarrow> draws \<Rightarrow> string \<Rightarrow> 'g processor \<Rightarrow> 'g processor" where
  "bp_cancel_order x d oid p =
     (case cancel_order_with_lifecycle d (bx_clock x) (bp_exec p) oid of
        (e, Inl err) \<Rightarrow> p\<lparr>bp_exec := e\<rparr>
      | (e, Inr ev) \<Rightarrow>
          if bt_defers e then p\<lparr>bp_exec := e\<rparr>
          else push_event (Internal (LimitOrderEv ev))
            (count_event (\<lambda>m. m\<lparr>bm_total_cancels := bm_total_cancels m + 1\<rparr>) (p\<lparr>bp_exec := e\<rparr>)))"

definition bp_limit_order :: "string \<Rightarrow> draws \<Rightarrow> order \<Rightarrow> 'g processor \<Rightarrow> 'g processor" where
  "bp_limit_order uuid d ord p =
     (case execute_limit_order_with_lifecycle uuid d (bp_exec p) ord of
        (e, Inl err) \<Rightarrow> p\<lparr>bp_exec := e\<rparr>
      | (e, Inr ev) \<Rightarrow>
          if bt_defers e then p\<lparr>bp_exec := e\<rparr>
          else push_event (Internal (LimitOrderEv ev))
            (count_event (\<lambda>m. m\<lparr>bm_total_orders_placed := bm_total_orders_placed m + 1\<rparr>) (p\<lparr>bp_exec := e\<rparr>)))"

definition execute_order ::
  "pm_config \<Rightarrow> bp_outside \<Rightarrow> string \<Rightarrow> draws \<Rightarrow> 'g processor \<Rightarrow> order \<Rightarrow> 'g processor" where
  "execute_order c x uuid d p ord =
     (if is_cancel (ord_order_type ord) then
        (case cancel_order_id (ord_order_type ord) of None \<Rightarrow> p | Some oid \<Rightarrow> bp_cancel_order x d oid p)
      else if is_limit (ord_order_type ord) then bp_limit_order uuid d ord p
      else bp_market_order c ord p)"

section \<open>Signals\<close>

text \<open>A signal changes the position manager and gives the orders to execute.\<close>

definition route_intent :: "pm_config \<Rightarrow> trade_signal \<Rightarrow> pm_state \<Rightarrow> pm_state \<times> order list" where
  "route_intent c sg s =
     (case ts_intent sg of
        None \<Rightarrow> (s, [])
      | Some intent \<Rightarrow>
          let s1 = (case oi_redemption_policy intent of None \<Rightarrow> s | Some policy \<Rightarrow> update_redemption_policy s policy)
          in case reconcile_intent s1 (cfg_min_quote_lifetime_ms c) intent of
               (s2, Inr os) \<Rightarrow> (s2, os)
             | (s2, Inl err) \<Rightarrow> (s2, []))"

definition route_entry :: "pm_config \<Rightarrow> trade_signal \<Rightarrow> pm_state \<Rightarrow> pm_state \<times> order list" where
  "route_entry c sg s =
     (case sg_mint sg of
        None \<Rightarrow> (s, [])
      | Some mint \<Rightarrow>
          (case try_mark_for_buying s mint of
             (s1, marked) \<Rightarrow>
               if \<not> marked then (s1, [])
               else
                 (case handle_signal s1 (cfg_trade_amount c) (cfg_max_open_positions c) (tradable_signal.truncate sg) of
                    Inr (Some ord) \<Rightarrow> (s1, [ord])
                  | Inr None \<Rightarrow> (s1, [])
                  | Inl err \<Rightarrow> (s1, []))))"

definition backtest_exit_order :: "timestamp \<Rightarrow> trade_signal \<Rightarrow> string \<Rightarrow> position \<Rightarrow> order" where
  "backtest_exit_order now sg mint p =
     (if ts_is_limit_order sg then
        new_limit_sell mint (ts_market sg) (pos_amount p)
          (unwrap_or (ts_limit_price sg) (unwrap_or (pos_current_price p) f0)) True
          (unwrap_or (ts_time_in_force sg) default_tif) (unwrap_or (sg_timestamp sg) now)
          (Some (sg_signal_id sg)) (sg_slot sg)
      else
        \<lparr>ord_mint = mint, ord_market = ts_market sg, ord_order_type = MarketSell (pos_amount p) True,
         ord_price = pos_current_price p, ord_status = Pending,
         ord_timestamp = unwrap_or (sg_timestamp sg) now, ord_signal_slot = sg_slot sg,
         ord_signal_id = Some (sg_signal_id sg), ord_dex_type = None, ord_venue_order_id = None,
         ord_exit_mode = None, ord_context = sg_context sg\<rparr>)"

definition route_exit :: "timestamp \<Rightarrow> trade_signal \<Rightarrow> pm_state \<Rightarrow> pm_state \<times> order list" where
  "route_exit now sg s =
     (case ts_references_position sg of
        None \<Rightarrow> (s, [])
      | Some mint \<Rightarrow>
          (case hget (pm_positions s) mint of
             None \<Rightarrow> (s, [])
           | Some p \<Rightarrow>
               if fle (pos_amount p) f0 then (s, [])
               else
                 (case try_mark_pending_sell s mint of
                    (s1, marked) \<Rightarrow> (s1, if marked then [backtest_exit_order now sg mint p] else []))))"

definition route_modify :: "timestamp \<Rightarrow> trade_signal \<Rightarrow> pm_state \<Rightarrow> order list" where
  "route_modify now sg s =
     (case (ts_references_order_id sg, ts_references_position sg) of
        (Some oid, Some mint) \<Rightarrow>
          (case (hget (pm_positions s) mint, ts_limit_price sg) of
             (Some p, Some price) \<Rightarrow>
               [new_cancel mint (ts_market sg) oid (unwrap_or (sg_timestamp sg) now) (Some (sg_signal_id sg)),
                new_limit_sell mint (ts_market sg) (pos_amount p) price True
                  (unwrap_or (ts_time_in_force sg) default_tif) (unwrap_or (sg_timestamp sg) now)
                  (Some (sg_signal_id sg)) (sg_slot sg)]
           | _ \<Rightarrow> [])
      | _ \<Rightarrow> [])"

definition route_cancel :: "timestamp \<Rightarrow> trade_signal \<Rightarrow> pm_state \<Rightarrow> pm_state \<times> order list" where
  "route_cancel now sg s =
     (case (ts_references_order_id sg, ts_references_position sg) of
        (Some oid, Some mint) \<Rightarrow>
          (release_pending_sell s mint,
           [new_cancel mint (ts_market sg) oid (unwrap_or (sg_timestamp sg) now) (Some (sg_signal_id sg))])
      | _ \<Rightarrow> (s, []))"

definition route_signal :: "pm_config \<Rightarrow> timestamp \<Rightarrow> trade_signal \<Rightarrow> pm_state \<Rightarrow> pm_state \<times> order list" where
  "route_signal c now sg s =
     (if ts_is_intent sg then route_intent c sg s
      else
        (case ts_action sg of
           Entry \<Rightarrow> route_entry c sg s
         | Exit \<Rightarrow> route_exit now sg s
         | ModifyOrder \<Rightarrow> (s, route_modify now sg s)
         | CancelOrder \<Rightarrow> route_cancel now sg s))"

definition process_signal ::
  "pm_config \<Rightarrow> bp_outside \<Rightarrow> 'g processor \<Rightarrow> nat \<times> trade_signal \<Rightarrow> 'g processor" where
  "process_signal c x p isg =
     (case isg of (i, sg) \<Rightarrow>
        let p1 = count_event (\<lambda>m. m\<lparr>bm_total_signals := bm_total_signals m + 1\<rparr>) p
        in case route_signal c (bx_clock x) sg (bp_manager p1) of
             (s, os) \<Rightarrow>
               foldl (\<lambda>p (j, ord). execute_order c x (bx_uuid x i j) (bx_draws x i j) p ord)
                 (p1\<lparr>bp_manager := s\<rparr>) (List.enumerate 0 os))"

text \<open>The strategy sees an event and its signals are processed; an error of the strategy ends the backtest.\<close>

definition generate_and_process ::
  "'g bp_env \<Rightarrow> bp_outside \<Rightarrow> loop_event \<Rightarrow> 'g processor \<Rightarrow> (string + unit) \<times> 'g processor" where
  "generate_and_process en x ev p =
     (case bv_generate en (bp_gen p) ev of
        (Inl err, g) \<Rightarrow> (Inl err, p\<lparr>bp_gen := g\<rparr>)
      | (Inr signals, g) \<Rightarrow>
          (Inr (), foldl (process_signal (bv_config en) x) (p\<lparr>bp_gen := g\<rparr>) (List.enumerate 0 signals)))"

text \<open>The strategy sees an event and its signals are dropped.\<close>

definition generate_only :: "'g bp_env \<Rightarrow> loop_event \<Rightarrow> 'g processor \<Rightarrow> (string + unit) \<times> 'g processor" where
  "generate_only en ev p =
     (case bv_generate en (bp_gen p) ev of
        (Inl err, g) \<Rightarrow> (Inl err, p\<lparr>bp_gen := g\<rparr>)
      | (Inr signals, g) \<Rightarrow> (Inr (), p\<lparr>bp_gen := g\<rparr>))"

section \<open>Market data\<close>

definition bp_orderbook_snapshot ::
  "'g bp_env \<Rightarrow> bp_outside \<Rightarrow> loop_event \<Rightarrow> book_snapshot \<Rightarrow> 'g processor \<Rightarrow> (string + unit) \<times> 'g processor" where
  "bp_orderbook_snapshot en x ev b p =
     (let p1 = count_event (\<lambda>m. m\<lparr>bm_total_snapshots := bm_total_snapshots m + 1\<rparr>) p
      in generate_and_process en x ev
           (p1\<lparr>bp_exec := handle_orderbook_snapshot (bk_market b) (bk_asset_id b) (bp_exec p1)\<rparr>))"

fun count_limit_event :: "limit_order_event \<Rightarrow> backtest_metrics \<Rightarrow> backtest_metrics" where
  "count_limit_event (OrderPartiallyFilled oid mint side filled remaining price ts signal mode) m =
     (case side of
        Buy \<Rightarrow> m\<lparr>bm_total_fills := bm_total_fills m + 1, bm_total_bid_fills := bm_total_bid_fills m + 1\<rparr>
      | Sell \<Rightarrow> m\<lparr>bm_total_fills := bm_total_fills m + 1, bm_total_ask_fills := bm_total_ask_fills m + 1\<rparr>)"
| "count_limit_event (OrderPlaced oid mint market price sz side ts signal ctx) m =
     m\<lparr>bm_total_orders_placed := bm_total_orders_placed m + 1\<rparr>"
| "count_limit_event (OrderCancelled oid reason ts) m = m\<lparr>bm_total_cancels := bm_total_cancels m + 1\<rparr>"
| "count_limit_event (OrderExpired oid ts) m = m\<lparr>bm_total_cancels := bm_total_cancels m + 1\<rparr>"
| "count_limit_event (OrderRejected reason) m = m\<lparr>bm_total_cancels := bm_total_cancels m + 1\<rparr>"

definition process_fill :: "pm_config \<Rightarrow> 'g processor \<Rightarrow> limit_order_event \<Rightarrow> 'g processor" where
  "process_fill c p ev =
     (let p1 = count_event (count_limit_event ev) p;
        p2 = (case fill_event_to_execution_event ev of None \<Rightarrow> p1 | Some ee \<Rightarrow> bp_handle_execution c ee p1)
      in p2\<lparr>bp_coord := enqueue_limit_order_events [ev] (bp_coord p2)\<rparr>)"

text \<open>The executor of backtests never refuses a redemption.\<close>

definition bp_redeem :: "'g processor \<Rightarrow> redemption_action \<Rightarrow> 'g processor" where
  "bp_redeem p action =
     push_event (Internal (RedemptionEv (bt_execute_redemption action)))
       (count_event (\<lambda>m. m\<lparr>bm_total_redemptions := bm_total_redemptions m + 1,
          bm_total_redemption_value := fadd (bm_total_redemption_value m) (ra_quantity action)\<rparr>) p)"

definition bp_process_redemptions :: "timestamp \<Rightarrow> 'g processor \<Rightarrow> 'g processor" where
  "bp_process_redemptions now p = foldl bp_redeem p (reconcile_redemption_policies (bp_manager p) now)"

definition bp_inventory :: "pm_state \<Rightarrow> (string, f64) hmap" where
  "bp_inventory s = foldl (\<lambda>m p. hput (pos_mint p) (pos_amount p) m) [] (hvals (pm_positions s))"

definition bp_polymarket_trade :: "'g bp_env \<Rightarrow> bp_outside \<Rightarrow> trade \<Rightarrow> 'g processor \<Rightarrow> 'g processor" where
  "bp_polymarket_trade en x t p =
     (let p1 = count_event (\<lambda>m. m\<lparr>bm_total_trades := bm_total_trades m + 1\<rparr>) p
      in case bt_check_fills_from_trade (bx_lanes x) (bx_released x) (bv_of_millis en) (bx_clock x) (bv_market_of en t)
                (bp_exec p1) t (bp_inventory (bp_manager p1)) (pm_available_quote (bp_manager p1)) of
           (e, evs) \<Rightarrow>
             bp_process_redemptions (bx_clock x) (foldl (process_fill (bv_config en)) (p1\<lparr>bp_exec := e\<rparr>) evs))"

definition bp_timer :: "pm_config \<Rightarrow> timestamp \<Rightarrow> 'g processor \<Rightarrow> 'g processor" where
  "bp_timer c ts p =
     (case handle_timer (bp_manager p) (cfg_exit_strategy c) ts of
        Inl err \<Rightarrow> p
      | Inr os \<Rightarrow> foldl (\<lambda>p ord. bp_market_order c ord p) p os)"

definition bp_redemption :: "'g bp_env \<Rightarrow> redemption_event \<Rightarrow> 'g processor \<Rightarrow> (string + unit) \<times> 'g processor" where
  "bp_redemption en ev p =
     generate_only en (Internal (RedemptionEv ev))
       (case handle_redemption (bp_manager p) ev of
          (s, Inr pes) \<Rightarrow> foldl (\<lambda>p pe. push_event (Internal (PositionEv pe)) p) (p\<lparr>bp_manager := s\<rparr>) pes
        | (s, Inl err) \<Rightarrow> p\<lparr>bp_manager := s\<rparr>)"

section \<open>One event and the loop\<close>

definition bp_process_event ::
  "'g bp_env \<Rightarrow> bp_outside \<Rightarrow> loop_event \<Rightarrow> 'g processor \<Rightarrow> (string + unit) \<times> 'g processor" where
  "bp_process_event en x ev p =
     (case ev of
        BookSnapshot b \<Rightarrow> bp_orderbook_snapshot en x ev b p
      | VenueTrade t \<Rightarrow> (Inr (), bp_polymarket_trade en x t p)
      | SpotPrice s \<Rightarrow> generate_and_process en x ev p
      | TimerEv ts \<Rightarrow> (Inr (), bp_timer (bv_config en) ts p)
      | Internal (LimitOrderEv lev) \<Rightarrow> (Inr (), p\<lparr>bp_manager := fst (handle_limit_order_event (bp_manager p) lev)\<rparr>)
      | Internal (ExecutionEv ee) \<Rightarrow> (Inr (), bp_handle_execution (bv_config en) ee p)
      | Internal (PositionEv pe) \<Rightarrow> generate_only en ev p
      | Internal (RedemptionEv rv) \<Rightarrow> bp_redemption en rv p
      | _ \<Rightarrow> (Inr (), p))"

text \<open>\<open>CapturingEventCoordinator\<close> records what it delivers, if the filter wants it, with the time of the
  simulation after the event.\<close>

definition capture_event :: "'g bp_env \<Rightarrow> loop_event \<Rightarrow> 'g processor \<Rightarrow> 'g processor" where
  "capture_event en ev p =
     (if bv_capture en ev
      then p\<lparr>bp_captured := bp_captured p @
             [\<lparr>ce_sequence_id = length (bp_captured p), ce_logical_time = Some (current_sim_time (bp_coord p)),
               ce_event = ev\<rparr>]\<rparr>
      else p)"

text \<open>\<open>run_event_loop\<close>: \<open>None\<close> is a loop that never ends.\<close>

partial_function (option) run_event_loop ::
  "'g bp_env \<Rightarrow> (nat \<Rightarrow> bp_outside) \<Rightarrow> nat \<Rightarrow> 'g processor \<Rightarrow> ((string + unit) \<times> 'g processor) option" where
  "run_event_loop en xs n p =
     (case next_event (bv_of_millis en) (bx_clock (xs n)) (bp_coord p) of
        None \<Rightarrow> None
      | Some (None, c) \<Rightarrow> Some (Inr (), p\<lparr>bp_coord := c\<rparr>)
      | Some (Some ev, c) \<Rightarrow>
          (case bp_process_event en (xs n) ev (capture_event en ev (p\<lparr>bp_coord := c\<rparr>)) of
             (Inl err, p') \<Rightarrow> Some (Inl err, p')
           | (Inr u, p') \<Rightarrow> run_event_loop en xs (Suc n) p'))"

section \<open>Setting up and finishing\<close>

definition capture_time_range ::
  "(int \<Rightarrow> timestamp option) \<Rightarrow> book_snapshot list \<Rightarrow> backtest_metrics \<Rightarrow> backtest_metrics" where
  "capture_time_range of_millis snapshots m =
     (if snapshots = [] then m
      else m\<lparr>bm_data_start_time := of_millis (bk_timestamp (hd snapshots)),
             bm_data_end_time := of_millis (bk_timestamp (last snapshots))\<rparr>)"

definition exit_strategy_of :: "position_config \<Rightarrow> exit_strategy" where
  "exit_strategy_of c =
     (case pcf_exit_strategy_mode c of
        NoopMode \<Rightarrow> NoopExit
      | ConfigurableMode \<Rightarrow> ConfigurableExit
          \<lparr>xc_take_profit_threshold = pcf_take_profit_threshold c, xc_stop_loss_threshold = pcf_stop_loss_threshold c,
           xc_max_holding_period = max_holding_period_chrono c, xc_max_sell_failures = pcf_max_sell_failures c\<rparr>)"

definition manager_config :: "backtest_config \<Rightarrow> pm_config" where
  "manager_config c =
     \<lparr>cfg_trade_amount = pcf_trade_amount (bc_position c),
      cfg_max_holding_period = max_holding_period_chrono (bc_position c),
      cfg_max_open_positions = pcf_max_open_positions (bc_position c),
      cfg_exit_strategy = exit_strategy_of (bc_position c),
      cfg_min_quote_lifetime_ms = Option.bind (bc_latency c) lat_min_quote_lifetime_ms\<rparr>"

definition executor_builder :: "backtest_config \<Rightarrow> bt_builder" where
  "executor_builder c =
     builder_latency (map_option latency_config.truncate (bc_latency c))
       (builder_enforce True (builder_sell_slippage (bc_sell_slippage c)
         (builder_buy_slippage (bc_buy_slippage c) builder_new)))"

definition initialize_components ::
  "(int \<Rightarrow> timestamp option) \<Rightarrow> timestamp \<Rightarrow> backtest_config \<Rightarrow> book_snapshot list \<Rightarrow> book_update list \<Rightarrow>
   trade list \<Rightarrow> spot_price list option \<Rightarrow> 'g \<Rightarrow> backtest_metrics \<Rightarrow> 'g processor" where
  "initialize_components of_millis now c snapshots updates trades spots g m =
     \<lparr>bp_manager = pm_new (pcf_initial_balance (bc_position c)), bp_exec = builder_build (executor_builder c),
      bp_coord = StreamingMode (new_from_data of_millis now snapshots updates trades spots (bc_timer_interval c)),
      bp_gen = g, bp_metrics = m, bp_captured = []\<rparr>"

definition finalize :: "u64 \<Rightarrow> pm_state \<Rightarrow> backtest_metrics \<Rightarrow> backtest_metrics" where
  "finalize duration s m =
     (let inventory = fsum (map pos_amount (hvals (pm_positions s)));
        value = fsum (List.map_filter position_value (hvals (pm_positions s)));
        net = fsub (pm_total_quote_received s) (pm_total_quote_spent s)
      in m\<lparr>bm_total_quote_received := pm_total_quote_received s, bm_total_quote_spent := pm_total_quote_spent s,
           bm_net_cash_flow := net, bm_final_inventory := inventory, bm_final_inventory_value := value,
           bm_final_pnl := fadd net value, bm_duration_ms := duration\<rparr>)"

text \<open>What a run reads from outside: the metadata and the end dates of markets, the strategy, and the clock.\<close>

record 'g run_outside =
  ro_of_millis :: "int \<Rightarrow> timestamp option"
  ro_parse_end :: "string \<Rightarrow> timestamp option"
  ro_metadata :: metadata
  ro_generate :: "'g \<Rightarrow> loop_event \<Rightarrow> (string + trade_signal list) \<times> 'g"
  ro_market_of :: "trade \<Rightarrow> string"
  ro_now :: timestamp
  ro_steps :: "nat \<Rightarrow> bp_outside"
  ro_duration_ms :: u64

definition env_of :: "'g run_outside \<Rightarrow> backtest_config \<Rightarrow> 'g bp_env" where
  "env_of w c = \<lparr>bv_of_millis = ro_of_millis w, bv_generate = ro_generate w, bv_market_of = ro_market_of w,
     bv_config = manager_config c, bv_capture = should_capture (bc_capture c)\<rparr>"

datatype run_error = DataError backtest_error | StrategyError string

text \<open>\<open>BacktestRunner::run\<close> on the data the loader has read: the metrics and the captured events.\<close>

definition run_backtest ::
  "'g run_outside \<Rightarrow> backtest_config \<Rightarrow> book_snapshot list \<Rightarrow> book_update list \<Rightarrow> trade list \<Rightarrow>
   spot_price list option \<Rightarrow> 'g \<Rightarrow> (run_error + (backtest_metrics \<times> collected_event list)) option" where
  "run_backtest w c snapshots updates trades spots g =
     (if snapshots = [] then Some (Inr (backtest_metrics_default, []))
      else
        (case check_data_completeness (bc_completeness c) (ro_parse_end w) (ro_of_millis w) (ro_metadata w)
                snapshots updates trades of
           Inl err \<Rightarrow> Some (Inl (DataError err))
         | Inr (snapshots', updates', trades') \<Rightarrow>
             if snapshots' = [] then Some (Inr (backtest_metrics_default, []))
             else
               (case run_event_loop (env_of w c) (ro_steps w) 0
                       (initialize_components (ro_of_millis w) (ro_now w) c snapshots' updates' trades' spots g
                          (capture_time_range (ro_of_millis w) snapshots' backtest_metrics_default)) of
                  None \<Rightarrow> None
                | Some (Inl err, p) \<Rightarrow> Some (Inl (StrategyError err))
                | Some (Inr u, p) \<Rightarrow>
                    Some (Inr (finalize (ro_duration_ms w) (bp_manager p) (bp_metrics p), bp_captured p)))))"

end
