(* ===== verification/Processor_Runs.thy ===== *)
theory Processor_Runs
  imports Backtest_Processor
begin

text \<open>
  What holds over a whole backtest: the position manager and the executor are only moved by their own
  operations, no order is ever executed at the market, the loop ends, and the metrics and the captured
  events agree with the recorded data.
\<close>

section \<open>The executor only learns prices from trades of tokens\<close>

abbreviation prices :: "(string, f64) hmap \<Rightarrow> backtest \<Rightarrow> bool" where
  "prices L s \<equiv> be_last_prices s = L"

lemma and_then_keeps: "P (fst m) \<Longrightarrow> (\<And>s x. P s \<Longrightarrow> P (fst (f s x))) \<Longrightarrow> P (fst (and_then m f))"
  unfolding and_then_def by (cases m, cases "snd m") simp_all

lemma try_fold_keeps: "(\<And>s x. P s \<Longrightarrow> P (fst (f s x))) \<Longrightarrow> P s \<Longrightarrow> P (fst (try_fold f s xs))"
proof (induction xs arbitrary: s)
  case (Cons x xs)
  have "P (fst (try_fold f s' xs))" if "P s'" for s' using Cons that by blast
  then have step: "P (fst (and_then (try_fold f s' xs) (\<lambda>s'' evs'. (s'', Ok (evs @ evs')))))" if "P s'" for s' evs
    by (rule and_then_keeps) (simp_all add: that)
  show ?case
    unfolding try_fold.simps
    by (rule and_then_keeps [where P = P], rule Cons.prems(1), rule Cons.prems(2), rule step)
qed simp

lemma prices_upd [simp]:
  "be_last_prices (bt_put oid p s) = be_last_prices s" "be_last_prices (bt_drop oid s) = be_last_prices s"
  "be_last_prices (file_order oid key s) = be_last_prices s" "be_last_prices (unfile_order oid s) = be_last_prices s"
  "be_last_prices (put_lane key st s) = be_last_prices s" "be_last_prices (set_current_time t s) = be_last_prices s"
  "be_last_prices (set_active_until oid t s) = be_last_prices s"
  "be_last_prices (record_market_asset market asset s) = be_last_prices s"
  "be_last_prices (fst (bt_on_engine f wrap s)) = be_last_prices s"
  "be_last_prices (cancel_in_lane oid t key s) = be_last_prices s"
  "be_last_prices (fst (bt_generate_order_id s)) = be_last_prices s"
  by (simp_all add: bt_put_def bt_drop_def file_order_def unfile_order_def put_lane_def set_current_time_def
      set_active_until_def record_market_asset_def bt_on_engine_def cancel_in_lane_def bt_generate_order_id_def Let_def
      split: option.split prod.split lane_state.split)

lemma prices_engine [simp]:
  "be_last_prices (fst (bt_place_request u oid q s)) = be_last_prices s"
  "be_last_prices (fst (bt_place_success oid s)) = be_last_prices s"
  "be_last_prices (fst (bt_cancel_request oid s)) = be_last_prices s"
  "be_last_prices (fst (bt_cancel_confirmed oid s)) = be_last_prices s"
  "be_last_prices (fst (bt_fill_evidence oid sz s)) = be_last_prices s"
  "be_last_prices (fst (confirm_cancelled oid now s)) = be_last_prices s"
proof -
  note keeps = and_then_keeps [where P = "prices (be_last_prices s)"]
  show "be_last_prices (fst (bt_place_request u oid q s)) = be_last_prices s"
    "be_last_prices (fst (bt_place_success oid s)) = be_last_prices s"
    "be_last_prices (fst (bt_cancel_request oid s)) = be_last_prices s"
    "be_last_prices (fst (bt_fill_evidence oid sz s)) = be_last_prices s"
    by (auto simp: bt_place_request_def bt_place_success_def bt_cancel_request_def bt_fill_evidence_def intro!: keeps)
  show confirmed: "be_last_prices (fst (bt_cancel_confirmed oid s)) = be_last_prices s"
    by (auto simp: bt_cancel_confirmed_def Let_def intro!: keeps)
  then show "be_last_prices (fst (confirm_cancelled oid now s)) = be_last_prices s"
    by (auto simp: confirm_cancelled_def intro!: keeps)
qed

lemma prices_activate [simp]:
  "be_last_prices (fst (activate_placing d now key sq l c s)) = be_last_prices s"
  "be_last_prices (fst (activate_replacement d now key sq s)) = be_last_prices s"
proof -
  note keeps = and_then_keeps [where P = "prices (be_last_prices s)"]
  show "be_last_prices (fst (activate_placing d now key sq l c s)) = be_last_prices s"
    by (auto simp: activate_placing_def Let_def intro!: keeps split: lc_state.split option.split)
  show "be_last_prices (fst (activate_replacement d now key sq s)) = be_last_prices s"
    by (auto simp: activate_replacement_def Let_def intro!: keeps split: lc_state.split)
qed

lemma prices_replace [simp]: "be_last_prices (fst (replace_with d now key oid r sq s)) = be_last_prices s"
  by (simp add: replace_with_def split: option.split)

lemma prices_advance [simp]:
  "be_last_prices (fst (advance_lane lat now s key)) = be_last_prices s"
  "be_last_prices (fst (advance_time lat now s)) = be_last_prices s"
proof -
  have lane: "be_last_prices (fst (advance_lane lat now t key)) = be_last_prices t" for t key
    by (auto simp: advance_lane_def intro!: and_then_keeps [where P = "prices (be_last_prices t)"] split: option.split lane_state.split)
  then show "be_last_prices (fst (advance_lane lat now s key)) = be_last_prices s" .
  show "be_last_prices (fst (advance_time lat now s)) = be_last_prices s"
    unfolding advance_time_def Let_def
    by (rule try_fold_keeps [where P = "prices (be_last_prices s)"]) (simp_all add: lane)
qed

lemma prices_orders [simp]:
  "be_last_prices (fst (execute_limit_order_with_lifecycle u d s ord)) = be_last_prices s"
  "be_last_prices (fst (cancel_order_with_lifecycle d clock s oid)) = be_last_prices s"
proof -
  note keeps = and_then_keeps [where P = "prices (be_last_prices s)"]
  have enter: "be_last_prices (fst (enter_lane u d ts l key oid q t)) = be_last_prices t" for ts l key oid q t
    by (auto simp: enter_lane_def Let_def intro!: and_then_keeps [where P = "prices (be_last_prices t)"]
        split: option.split lane_state.split)
  have at_once: "be_last_prices (fst (place_at_once u d ts oid q t)) = be_last_prices t" for ts oid q t
    by (auto simp: place_at_once_def Let_def intro!: and_then_keeps [where P = "prices (be_last_prices t)"])
  obtain s1 new_id where gen: "bt_generate_order_id (set_current_time (ord_timestamp ord) s) = (s1, new_id)"
    "be_last_prices s1 = be_last_prices s"
    using prices_upd(11) [of "set_current_time (ord_timestamp ord) s"]
    by (cases "bt_generate_order_id (set_current_time (ord_timestamp ord) s)") simp
  show "be_last_prices (fst (execute_limit_order_with_lifecycle u d s ord)) = be_last_prices s"
    by (auto simp: execute_limit_order_with_lifecycle_def Let_def gen enter at_once intro!: keeps split: option.split)
  show "be_last_prices (fst (cancel_order_with_lifecycle d clock s oid)) = be_last_prices s"
    by (auto simp: cancel_order_with_lifecycle_def Let_def intro!: keeps split: option.split)
qed

lemma prices_trade [simp]:
  "be_last_prices (fst (bt_check_fills_from_trade lat lat' fm clock market s tr inventory aq)) = be_last_prices s"
proof -
  note keeps = and_then_keeps [where P = "prices (be_last_prices s)"]
  have apply_fill: "be_last_prices (ba_exec (fst (bt_apply_fill ts oid p q a))) = be_last_prices (ba_exec a)" for ts oid p q a
  proof -
    obtain s1 r where ev: "bt_fill_evidence oid q (ba_exec a) = (s1, r)" "be_last_prices s1 = be_last_prices (ba_exec a)"
      using prices_engine(5) [of oid q "ba_exec a"] by (cases "bt_fill_evidence oid q (ba_exec a)") simp
    have track: "ba_exec (bt_track_fill p z b) = ba_exec b" for z b by (simp add: bt_track_fill_def Let_def)
    show ?thesis by (cases r) (simp_all add: bt_apply_fill_def Let_def ev track split: prod.split)
  qed
  have try_fill: "be_last_prices (ba_exec (fst (try_fill_order ts tr m inventory aq a oid))) = be_last_prices (ba_exec a)"
    for ts m a oid by (auto simp: try_fill_order_def Let_def apply_fill split: option.split)
  have fill: "be_last_prices (ba_exec (fst (fill_all ts tr m inventory aq t))) = be_last_prices t" for ts m t
    unfolding fill_all_def
    by (rule try_fold_keeps [where P = "\<lambda>a. prices (be_last_prices t) (ba_exec a)"]) (simp_all add: try_fill bt_pass_start_def)
  have release: "be_last_prices (fst (release_filled lat ts t oid)) = be_last_prices t" for lat ts t oid
    by (simp add: release_filled_def Let_def split: option.split lane_state.split)
  have drops: "be_last_prices (foldl (\<lambda>s oid. bt_drop oid s) t oids) = be_last_prices t" for t oids
    by (induction oids arbitrary: t) simp_all
  have pass: "be_last_prices (fst (case fill_all ts tr m inventory aq t of
        (a, Inl err) \<Rightarrow> (ba_exec a, Err err)
      | (a, Inr evs') \<Rightarrow>
          let t = foldl (\<lambda>s oid. bt_drop oid s) (ba_exec a) (ba_remove a)
          in and_then (try_fold (release_filled lat' ts) t (ba_remove a)) (\<lambda>s evs''. (s, Ok (evs @ evs' @ evs''))))) = L"
    if "be_last_prices t = L" for ts m t evs L
  proof (cases "fill_all ts tr m inventory aq t")
    case (Pair a r)
    have a: "be_last_prices (ba_exec a) = L" using fill [of ts m t] Pair that by simp
    have "be_last_prices (fst (try_fold (release_filled lat' ts) t oids)) = L" if "be_last_prices t = L" for t oids
      by (rule try_fold_keeps [where P = "prices L"]) (simp_all add: release that)
    then have "be_last_prices (fst (and_then (try_fold (release_filled lat' ts) t oids) (\<lambda>s x. (s, g x)))) = L"
      if "be_last_prices t = L" for t oids and g :: "limit_order_event list \<Rightarrow> bt_error + limit_order_event list"
      by (intro and_then_keeps [where P = "prices L"]) (simp_all add: that)
    then show ?thesis by (cases r) (simp_all add: Pair Let_def a drops)
  qed
  have "be_last_prices (fst (handle_polymarket_trade lat lat' fm clock market s tr inventory aq)) = be_last_prices s"
    unfolding handle_polymarket_trade_def Let_def
    by (rule keeps) (simp_all add: pass [unfolded Let_def])
  then show ?thesis
    by (auto simp: bt_check_fills_from_trade_def split: prod.splits sum.splits)
qed

section \<open>What a handler does\<close>

fun is_token_op :: "bt_op \<Rightarrow> bool" where
  "is_token_op (BtTokenTrade mint price) = True"
| "is_token_op op = False"

definition exec_moves :: "backtest \<Rightarrow> backtest \<Rightarrow> bool" where
  "exec_moves e e' \<longleftrightarrow> (\<exists>ops. e' = foldl bt_apply e ops \<and> list_all (\<lambda>op. \<not> is_token_op op) ops)"

lemma exec_moves_refl [simp]: "exec_moves e e"
  unfolding exec_moves_def by (rule exI [of _ "[]"]) simp

lemma exec_moves_trans: "exec_moves e e' \<Longrightarrow> exec_moves e' e'' \<Longrightarrow> exec_moves e e''"
  unfolding exec_moves_def by (metis foldl_append list_all_append)

lemma exec_move: "e' = bt_apply e op \<Longrightarrow> \<not> is_token_op op \<Longrightarrow> exec_moves e e'"
  unfolding exec_moves_def by (rule exI [of _ "[op]"]) simp

lemma exec_moves_prices: "exec_moves e e' \<Longrightarrow> be_last_prices e' = be_last_prices e"
proof -
  have step: "be_last_prices (bt_apply e op) = be_last_prices e" if "\<not> is_token_op op" for e op
    using that by (cases op) (simp_all add: handle_orderbook_snapshot_def)
  have "be_last_prices (foldl bt_apply e ops) = be_last_prices e" if "list_all (\<lambda>op. \<not> is_token_op op) ops" for e ops
    using that by (induction ops arbitrary: e) (simp_all add: step)
  then show "exec_moves e e' \<Longrightarrow> ?thesis" by (auto simp: exec_moves_def)
qed

fun is_execution :: "system_event \<Rightarrow> bool" where
  "is_execution (ExecutionEv ev) = True"
| "is_execution ev = False"

fun is_position :: "system_event \<Rightarrow> bool" where
  "is_position (PositionEv ev) = True"
| "is_position ev = False"

text \<open>The fills that were not fills of limit orders.\<close>

definition market_fills :: "backtest_metrics \<Rightarrow> u64" where
  "market_fills m = bm_total_fills m - (bm_total_bid_fills m + bm_total_ask_fills m)"

definition enqueue_internal :: "coordinator \<Rightarrow> system_event list \<Rightarrow> coordinator" where
  "enqueue_internal k evs = foldl (\<lambda>k ev. coord_enqueue (Internal ev) k) k evs"

text \<open>A handler enqueues the events \<open>evs\<close>.  As long as the executor knows no price there is no execution
  among them.\<close>

definition acts :: "pm_config \<Rightarrow> 'g processor \<Rightarrow> system_event list \<Rightarrow> 'g processor \<Rightarrow> bool" where
  "acts c p evs p' \<longleftrightarrow>
     by_ops c (bp_manager p) (bp_manager p') \<and> exec_moves (bp_exec p) (bp_exec p')
     \<and> bp_coord p' = enqueue_internal (bp_coord p) evs \<and> bp_captured p' = bp_captured p
     \<and> bm_total_snapshots (bp_metrics p') = bm_total_snapshots (bp_metrics p)
     \<and> bm_total_trades (bp_metrics p') = bm_total_trades (bp_metrics p)
     \<and> (be_last_prices (bp_exec p) = [] \<longrightarrow>
          market_fills (bp_metrics p') = market_fills (bp_metrics p) \<and> list_all (\<lambda>ev. \<not> is_execution ev) evs)"

lemma enqueue_internal_simps [simp]:
  "enqueue_internal k [] = k" "enqueue_internal k (ev # evs) = enqueue_internal (coord_enqueue (Internal ev) k) evs"
  "enqueue_internal k (evs @ evs') = enqueue_internal (enqueue_internal k evs) evs'"
  by (simp_all add: enqueue_internal_def)

lemma acts_refl [simp]: "acts c p [] p"
  by (simp add: acts_def)

lemma acts_trans: "acts c p evs p' \<Longrightarrow> acts c p' evs' p'' \<Longrightarrow> acts c p (evs @ evs') p''"
  unfolding acts_def by (auto intro: by_ops_trans exec_moves_trans dest: exec_moves_prices)

lemma acts_none: "\<exists>evs. acts c p evs p"
  by (rule exI [of _ "[]"]) simp

lemma acts_fold:
  assumes "\<And>p y. \<exists>evs. acts c p evs (f p y)"
  shows "\<exists>evs. acts c p evs (foldl f p ys)"
proof (induction ys arbitrary: p)
  case Nil
  show ?case by (rule exI [of _ "[]"]) simp
next
  case (Cons y ys)
  obtain evs evs' where "acts c p evs (f p y)" "acts c (f p y) evs' (foldl f (f p y) ys)" using assms Cons by blast
  then show ?case using acts_trans by fastforce
qed

lemma acts_push: "\<not> is_execution ev \<Longrightarrow> acts c p [ev] (push_event (Internal ev) p)"
  by (simp add: acts_def push_event_def)

lemma acts_push_known: "be_last_prices (bp_exec p) \<noteq> [] \<Longrightarrow> acts c p [ev] (push_event (Internal ev) p)"
  by (simp add: acts_def push_event_def)

lemma acts_count:
  "(\<And>m. market_fills (f m) = market_fills m \<and> bm_total_snapshots (f m) = bm_total_snapshots m
      \<and> bm_total_trades (f m) = bm_total_trades m) \<Longrightarrow> acts c p [] (count_event f p)"
  by (simp add: acts_def count_event_def)

lemma acts_exec: "exec_moves (bp_exec p) e \<Longrightarrow> acts c p [] (p\<lparr>bp_exec := e\<rparr>)"
  by (simp add: acts_def)

lemma acts_manager: "by_ops c (bp_manager p) s \<Longrightarrow> acts c p [] (p\<lparr>bp_manager := s\<rparr>)"
  by (simp add: acts_def)

lemma acts_gen: "acts c p [] (p\<lparr>bp_gen := g\<rparr>)"
  by (simp add: acts_def)

lemmas acts_step = acts_trans [where evs = "[]", simplified]
lemmas acts_then = acts_trans [where evs' = "[]", simplified]

lemma execution_acts: "\<exists>evs. list_all is_position evs \<and> acts c p evs (bp_handle_execution c ev p)"
proof (cases "handle_execution (bp_manager p) ev (cfg_exit_strategy c)")
  case (Pair s r)
  have "acts c p [] (p\<lparr>bp_manager := s\<rparr>)" by (rule acts_manager) (rule result_ops(1) [OF Pair])
  then show ?thesis
    using acts_step [OF _ acts_push [of "PositionEv pe" for pe]] Pair
    by (cases r) (force simp: bp_handle_execution_def)+
qed

lemma market_acts: "\<exists>evs. acts c p evs (bp_market_order c ord p)"
proof (cases "bt_execute_market_order (bp_exec p) ord")
  case (Inl err)
  then show ?thesis using acts_none by (simp add: bp_market_order_def)
next
  case (Inr ev)
  then have known: "be_last_prices (bp_exec p) \<noteq> []"
    by (auto simp: bt_execute_market_order_def split: option.splits)
  let ?p = "count_event (\<lambda>m. m\<lparr>bm_total_orders_placed := bm_total_orders_placed m + 1, bm_total_fills := bm_total_fills m + 1\<rparr>) p"
  have first: "acts c p [] ?p" using known by (simp add: acts_def count_event_def)
  obtain evs where second: "acts c ?p evs (bp_handle_execution c ev ?p)" using execution_acts by blast
  then have "exec_moves (bp_exec ?p) (bp_exec (bp_handle_execution c ev ?p))" unfolding acts_def by blast
  from exec_moves_prices [OF this] known have "be_last_prices (bp_exec (bp_handle_execution c ev ?p)) \<noteq> []"
    by (simp add: count_event_def)
  from acts_push_known [OF this] have third: "acts c (bp_handle_execution c ev ?p) [ExecutionEv ev]
      (push_event (Internal (ExecutionEv ev)) (bp_handle_execution c ev ?p))" .
  show ?thesis
    unfolding bp_market_order_def Inr sum.case by (rule exI, rule acts_step [OF first acts_trans [OF second third]])
qed

lemma deferred_acts:
  assumes "exec_moves (bp_exec p) e"
    "\<And>m. market_fills (f m) = market_fills m \<and> bm_total_snapshots (f m) = bm_total_snapshots m
      \<and> bm_total_trades (f m) = bm_total_trades m"
  shows "\<exists>evs. acts c p evs (case r of Inl err \<Rightarrow> p\<lparr>bp_exec := e\<rparr>
    | Inr ev \<Rightarrow> if bt_defers e then p\<lparr>bp_exec := e\<rparr>
        else push_event (Internal (LimitOrderEv ev)) (count_event f (p\<lparr>bp_exec := e\<rparr>)))"
proof -
  have moved: "acts c p [] (p\<lparr>bp_exec := e\<rparr>)" by (rule acts_exec) (rule assms(1))
  have "acts c p [LimitOrderEv ev] (push_event (Internal (LimitOrderEv ev)) (count_event f (p\<lparr>bp_exec := e\<rparr>)))" for ev
    by (rule acts_step [OF acts_step [OF moved acts_count [OF assms(2)]] acts_push]) simp
  with moved show ?thesis by (cases r; cases "bt_defers e") auto
qed

lemma order_acts: "\<exists>evs. acts c p evs (execute_order c x u d p ord)"
proof -
  have "\<exists>evs. acts c p evs (bp_cancel_order x d oid p)" for oid
  proof (cases "cancel_order_with_lifecycle d (bx_clock x) (bp_exec p) oid")
    case (Pair e r)
    have "exec_moves (bp_exec p) e" by (rule exec_move [of _ _ "BtCancel d (bx_clock x) oid"]) (simp_all add: Pair)
    then show ?thesis unfolding bp_cancel_order_def Pair prod.case by (rule deferred_acts) (simp add: market_fills_def)
  qed
  moreover have "\<exists>evs. acts c p evs (bp_limit_order u d ord p)"
  proof (cases "execute_limit_order_with_lifecycle u d (bp_exec p) ord")
    case (Pair e r)
    have "exec_moves (bp_exec p) e" by (rule exec_move [of _ _ "BtPlace u d ord"]) (simp_all add: Pair)
    then show ?thesis unfolding bp_limit_order_def Pair prod.case by (rule deferred_acts) (simp add: market_fills_def)
  qed
  ultimately show ?thesis
    using market_acts acts_none by (auto simp: execute_order_def split: option.split)
qed

section \<open>What an event does\<close>

lemma route_ops: "by_ops c s (fst (route_signal c now sg s))"
proof -
  have intent: "by_ops c s (fst (route_intent c sg s))"
  proof (cases "ts_intent sg")
    case (Some i)
    let ?s1 = "case oi_redemption_policy i of None \<Rightarrow> s | Some policy \<Rightarrow> update_redemption_policy s policy"
    obtain s2 r where rec: "reconcile_intent ?s1 (cfg_min_quote_lifetime_ms c) i = (s2, r)" by fastforce
    have "by_ops c s ?s1" by (auto intro: by_ops_intros split: option.split)
    from by_ops_trans [OF this result_ops(5) [OF rec]] show ?thesis
      by (cases r) (simp_all add: route_intent_def Some rec Let_def)
  qed (simp add: route_intent_def)
  have entry: "by_ops c s (fst (route_entry c sg s))"
    by (auto simp: route_entry_def intro: result_ops split: option.split prod.split sum.split)
  have exit: "by_ops c s (fst (route_exit now sg s))"
    by (auto simp: route_exit_def intro: result_ops split: option.split prod.split)
  have cancel: "by_ops c s (fst (route_cancel now sg s))"
    using single_ops(1) by (auto simp: route_cancel_def release_sell_def split: option.split)
  show ?thesis by (simp add: route_signal_def intent entry exit cancel split: signal_action.split)
qed

lemma signal_acts: "\<exists>evs. acts c p evs (process_signal c x p isg)"
proof (cases isg)
  case (Pair i sg)
  let ?p = "count_event (\<lambda>m. m\<lparr>bm_total_signals := bm_total_signals m + 1\<rparr>) p"
  obtain s os where route: "route_signal c (bx_clock x) sg (bp_manager ?p) = (s, os)" by fastforce
  have "acts c p [] (?p\<lparr>bp_manager := s\<rparr>)"
    by (rule acts_step [OF acts_count acts_manager], simp add: market_fills_def)
      (use route_ops [of c "bp_manager ?p" "bx_clock x" sg] route in simp)
  moreover obtain evs where "acts c (?p\<lparr>bp_manager := s\<rparr>) evs
      (foldl (\<lambda>p (j, ord). execute_order c x (bx_uuid x i j) (bx_draws x i j) p ord) (?p\<lparr>bp_manager := s\<rparr>)
        (List.enumerate 0 os))"
    using acts_fold [of c "\<lambda>p (j, ord). execute_order c x (bx_uuid x i j) (bx_draws x i j) p ord"] order_acts
    by (metis (mono_tags, lifting) case_prod_beta)
  ultimately show ?thesis using acts_step unfolding process_signal_def Pair prod.case Let_def route by blast
qed

lemma generate_acts: "generate_and_process en x ev p = (r, p') \<Longrightarrow> \<exists>evs. acts (bv_config en) p evs p'"
proof (cases "bv_generate en (bp_gen p) ev")
  case (Pair out g)
  assume eq: "generate_and_process en x ev p = (r, p')"
  show ?thesis
  proof (cases out)
    case (Inl err)
    with eq Pair have "p' = p\<lparr>bp_gen := g\<rparr>" by (simp add: generate_and_process_def)
    then show ?thesis by (auto intro: exI [of _ "[]"] simp: acts_gen)
  next
    case (Inr signals)
    with eq Pair have p': "p' = foldl (process_signal (bv_config en) x) (p\<lparr>bp_gen := g\<rparr>) (List.enumerate 0 signals)"
      by (simp add: generate_and_process_def)
    obtain evs where "acts (bv_config en) (p\<lparr>bp_gen := g\<rparr>) evs p'"
      unfolding p' using acts_fold [of "bv_config en" "process_signal (bv_config en) x", OF signal_acts] by blast
    from acts_step [OF acts_gen this] show ?thesis by blast
  qed
qed

lemma only_acts: "generate_only en ev p = (r, p') \<Longrightarrow> acts c p [] p'"
  by (auto simp: generate_only_def acts_gen split: prod.splits sum.splits)

lemma fill_acts: "\<exists>evs. acts c p evs (process_fill c p ev)"
proof -
  let ?p1 = "count_event (count_limit_event ev) p"
  let ?p2 = "case fill_event_to_execution_event ev of None \<Rightarrow> ?p1 | Some ee \<Rightarrow> bp_handle_execution c ee ?p1"
  have "acts c p [] ?p1"
    by (rule acts_count, cases ev) (auto simp: market_fills_def split: order_side.split)
  moreover obtain evs where "acts c ?p1 evs ?p2"
    using execution_acts acts_none by (cases "fill_event_to_execution_event ev") force+
  moreover have "acts c ?p2 [LimitOrderEv ev] (push_event (Internal (LimitOrderEv ev)) ?p2)" by (rule acts_push) simp
  ultimately have "acts c p (evs @ [LimitOrderEv ev]) (push_event (Internal (LimitOrderEv ev)) ?p2)"
    by (blast intro: acts_step acts_trans)
  moreover have "process_fill c p ev = push_event (Internal (LimitOrderEv ev)) ?p2"
    by (simp add: process_fill_def Let_def push_event_def enqueue_limit_order_events_def)
  ultimately show ?thesis by auto
qed

lemma redeem_acts: "\<exists>evs. acts c p evs (bp_process_redemptions now p)"
proof -
  have "\<exists>evs. acts c q evs (bp_redeem q action)" for q :: "'a processor" and action
    unfolding bp_redeem_def by (rule exI, rule acts_step [OF acts_count acts_push]) (simp_all add: market_fills_def)
  then show ?thesis unfolding bp_process_redemptions_def by (rule acts_fold)
qed

text \<open>The counters of market data are moved by its delivery alone.\<close>

definition counted :: "loop_event \<Rightarrow> 'g processor \<Rightarrow> 'g processor" where
  "counted ev p =
     (case ev of
        BookSnapshot b \<Rightarrow> count_event (\<lambda>m. m\<lparr>bm_total_snapshots := bm_total_snapshots m + 1\<rparr>) p
      | VenueTrade t \<Rightarrow> count_event (\<lambda>m. m\<lparr>bm_total_trades := bm_total_trades m + 1\<rparr>) p
      | _ \<Rightarrow> p)"

text \<open>What an event of the system leads to: executions and redemptions to position events, others to nothing.\<close>

definition consequences :: "loop_event \<Rightarrow> system_event list \<Rightarrow> bool" where
  "consequences ev evs \<longleftrightarrow>
     (case ev of
        Internal (ExecutionEv ee) \<Rightarrow> list_all is_position evs
      | Internal (RedemptionEv rv) \<Rightarrow> list_all is_position evs
      | Internal iev \<Rightarrow> evs = []
      | _ \<Rightarrow> True)"

lemma trade_acts: "\<exists>evs. acts (bv_config en) (counted (VenueTrade t) p) evs (bp_polymarket_trade en x t p)"
proof -
  let ?c = "bv_config en" and ?p1 = "counted (VenueTrade t) p"
  obtain e evs where fills: "bt_check_fills_from_trade (bx_lanes x) (bx_released x) (bv_of_millis en) (bx_clock x)
      (bv_market_of en t) (bp_exec ?p1) t (bp_inventory (bp_manager ?p1)) (pm_available_quote (bp_manager ?p1)) = (e, evs)"
    by fastforce
  have "exec_moves (bp_exec ?p1) e"
    by (rule exec_move [of _ _ "BtTrade (bx_lanes x) (bx_released x) (bv_of_millis en) (bx_clock x) (bv_market_of en t) t
        (bp_inventory (bp_manager ?p1)) (pm_available_quote (bp_manager ?p1))"]) (simp_all add: fills)
  then have first: "acts ?c ?p1 [] (?p1\<lparr>bp_exec := e\<rparr>)" by (rule acts_exec)
  obtain evs1 where second: "acts ?c (?p1\<lparr>bp_exec := e\<rparr>) evs1 (foldl (process_fill ?c) (?p1\<lparr>bp_exec := e\<rparr>) evs)"
    using acts_fold [of ?c "process_fill ?c", OF fill_acts] by blast
  obtain evs2 where "acts ?c (foldl (process_fill ?c) (?p1\<lparr>bp_exec := e\<rparr>) evs) evs2
      (bp_process_redemptions (bx_clock x) (foldl (process_fill ?c) (?p1\<lparr>bp_exec := e\<rparr>) evs))"
    using redeem_acts by blast
  from acts_step [OF first acts_trans [OF second this]] show ?thesis
    using fills by (auto simp: bp_polymarket_trade_def counted_def Let_def)
qed

lemma redemption_acts:
  assumes "bp_redemption en ev p = (r, p')"
  shows "\<exists>evs. list_all is_position evs \<and> acts c p evs p'"
proof -
  obtain s res where rec: "handle_redemption (bp_manager p) ev = (s, res)" by fastforce
  have first: "acts c p [] (p\<lparr>bp_manager := s\<rparr>)" by (rule acts_manager) (rule result_ops(6) [OF rec])
  have pushes: "acts c q (map PositionEv pes) (foldl (\<lambda>p pe. push_event (Internal (PositionEv pe)) p) q pes)"
    for q :: "'a processor" and pes
  proof (induction pes arbitrary: q)
    case (Cons pe pes)
    have "acts c q [PositionEv pe] (push_event (Internal (PositionEv pe)) q)" by (rule acts_push) simp
    from acts_trans [OF this Cons] show ?case by simp
  qed simp
  let ?pes = "case res of Inl err \<Rightarrow> [] | Inr pes \<Rightarrow> pes"
  have "generate_only en (Internal (RedemptionEv ev))
      (foldl (\<lambda>p pe. push_event (Internal (PositionEv pe)) p) (p\<lparr>bp_manager := s\<rparr>) ?pes) = (r, p')"
    using assms by (cases res) (simp_all add: bp_redemption_def rec)
  from acts_then [OF acts_step [OF first pushes] only_acts [OF this]]
  have "acts c p (map PositionEv ?pes) p'" .
  moreover have "list_all is_position (map PositionEv ?pes)" by (simp add: list_all_iff)
  ultimately show ?thesis by blast
qed

lemma event_acts:
  assumes "bp_process_event en x ev p = (r, p')"
  shows "\<exists>evs. consequences ev evs \<and> acts (bv_config en) (counted ev p) evs p'"
proof (cases ev)
  case (BookSnapshot b)
  let ?p1 = "counted ev p"
  have moved: "exec_moves (bp_exec ?p1) (handle_orderbook_snapshot (bk_market b) (bk_asset_id b) (bp_exec ?p1))"
    by (rule exec_move [of _ _ "BtSnapshot (bk_market b) (bk_asset_id b)"]) simp_all
  have "generate_and_process en x ev (?p1\<lparr>bp_exec := handle_orderbook_snapshot (bk_market b) (bk_asset_id b) (bp_exec ?p1)\<rparr>) = (r, p')"
    using assms BookSnapshot by (simp add: bp_process_event_def bp_orderbook_snapshot_def counted_def Let_def)
  then show ?thesis
    using generate_acts acts_step [OF acts_exec [OF moved]] BookSnapshot by (fastforce simp: consequences_def)
next
  case (VenueTrade t)
  then show ?thesis
    using assms trade_acts [of en t p x] by (auto simp: bp_process_event_def consequences_def)
next
  case (SpotPrice sp)
  then show ?thesis
    using assms generate_acts by (fastforce simp: bp_process_event_def consequences_def counted_def)
next
  case (TimerEv t)
  have "\<exists>evs. acts (bv_config en) p evs (bp_timer (bv_config en) t p)"
    unfolding bp_timer_def handle_timer_def by (simp add: acts_fold market_acts)
  then show ?thesis using assms TimerEv by (auto simp: bp_process_event_def consequences_def counted_def)
next
  case (Internal iev)
  show ?thesis
  proof (cases iev)
    case (PositionEv pe)
    then show ?thesis
      using assms Internal only_acts by (fastforce simp: bp_process_event_def consequences_def counted_def)
  next
    case (ExecutionEv ee)
    then show ?thesis
      using assms Internal execution_acts by (fastforce simp: bp_process_event_def consequences_def counted_def)
  next
    case (LimitOrderEv lev)
    then show ?thesis
      using assms Internal acts_manager [OF single_ops(5)]
      by (fastforce simp: bp_process_event_def consequences_def counted_def)
  next
    case (RedemptionEv rv)
    then show ?thesis
      using assms Internal redemption_acts by (fastforce simp: bp_process_event_def consequences_def counted_def)
  qed
qed (use assms acts_none in \<open>auto simp: bp_process_event_def consequences_def counted_def\<close>)

section \<open>Runs of the loop\<close>

text \<open>\<open>loop_run en xs n p evs r p'\<close>: the loop delivers the events \<open>evs\<close> one after the other and ends with \<open>r\<close>.\<close>

inductive loop_run ::
  "'g bp_env \<Rightarrow> (nat \<Rightarrow> bp_outside) \<Rightarrow> nat \<Rightarrow> 'g processor \<Rightarrow> loop_event list \<Rightarrow> string + unit \<Rightarrow> 'g processor \<Rightarrow> bool"
  for en xs where
  loop_ended: "next_event (bv_of_millis en) (bx_clock (xs n)) (bp_coord p) = Some (None, k) \<Longrightarrow>
    loop_run en xs n p [] (Inr ()) (p\<lparr>bp_coord := k\<rparr>)"
| loop_failed: "next_event (bv_of_millis en) (bx_clock (xs n)) (bp_coord p) = Some (Some ev, k) \<Longrightarrow>
    bp_process_event en (xs n) ev (capture_event en ev (p\<lparr>bp_coord := k\<rparr>)) = (Inl err, p') \<Longrightarrow>
    loop_run en xs n p [ev] (Inl err) p'"
| loop_went_on: "next_event (bv_of_millis en) (bx_clock (xs n)) (bp_coord p) = Some (Some ev, k) \<Longrightarrow>
    bp_process_event en (xs n) ev (capture_event en ev (p\<lparr>bp_coord := k\<rparr>)) = (Inr u, p1) \<Longrightarrow>
    loop_run en xs (Suc n) p1 evs r p' \<Longrightarrow> loop_run en xs n p (ev # evs) r p'"

lemma run_loop:
  assumes "run_event_loop en xs n p = Some rp"
  shows "\<exists>evs. loop_run en xs n p evs (fst rp) (snd rp)"
proof (rule run_event_loop.raw_induct [where P = "\<lambda>en xs n p rp. \<exists>evs. loop_run en xs n p evs (fst rp) (snd rp)",
      OF _ assms])
  fix loop en xs n p rp
  assume IH: "\<And>en xs n p rp. loop en xs n p = Some rp \<Longrightarrow> \<exists>evs. loop_run en xs n p evs (fst rp) (snd rp)"
    and body: "(case next_event (bv_of_millis en) (bx_clock (xs n)) (bp_coord p) of
        None \<Rightarrow> None
      | Some (None, c) \<Rightarrow> Some (Inr (), p\<lparr>bp_coord := c\<rparr>)
      | Some (Some ev, c) \<Rightarrow>
          (case bp_process_event en (xs n) ev (capture_event en ev (p\<lparr>bp_coord := c\<rparr>)) of
             (Inl err, p') \<Rightarrow> Some (Inl err, p')
           | (Inr u, p') \<Rightarrow> loop en xs (Suc n) p')) = Some rp"
  then obtain r k where nx: "next_event (bv_of_millis en) (bx_clock (xs n)) (bp_coord p) = Some (r, k)"
    by (auto split: option.splits)
  show "\<exists>evs. loop_run en xs n p evs (fst rp) (snd rp)"
  proof (cases r)
    case None
    then show ?thesis using body nx loop_ended by fastforce
  next
    case (Some ev)
    obtain res p1 where ev: "bp_process_event en (xs n) ev (capture_event en ev (p\<lparr>bp_coord := k\<rparr>)) = (res, p1)" by fastforce
    show ?thesis
    proof (cases res)
      case (Inl err)
      then show ?thesis using body nx Some ev loop_failed by fastforce
    next
      case (Inr u)
      then have "loop en xs (Suc n) p1 = Some rp" using body nx Some ev by simp
      then obtain evs where "loop_run en xs (Suc n) p1 evs (fst rp) (snd rp)" using IH by blast
      then have "loop_run en xs n p (ev # evs) (fst rp) (snd rp)"
        by (rule loop_went_on [of en xs n p, OF nx [unfolded Some] ev [unfolded Inr]])
      then show ?thesis by blast
    qed
  qed
qed

text \<open>An event is captured before it is processed.\<close>

lemma capture_frames [simp]:
  "bp_manager (capture_event en ev p) = bp_manager p" "bp_exec (capture_event en ev p) = bp_exec p"
  "bp_coord (capture_event en ev p) = bp_coord p" "bp_metrics (capture_event en ev p) = bp_metrics p"
  by (simp_all add: capture_event_def)

lemma counted_frames [simp]:
  "bp_manager (counted ev p) = bp_manager p" "bp_exec (counted ev p) = bp_exec p" "bp_coord (counted ev p) = bp_coord p"
  "bp_captured (counted ev p) = bp_captured p" "market_fills (bp_metrics (counted ev p)) = market_fills (bp_metrics p)"
  "bm_total_snapshots (bp_metrics (counted ev p)) = bm_total_snapshots (bp_metrics p) + of_nat (length (books_of [ev]))"
  "bm_total_trades (bp_metrics (counted ev p)) = bm_total_trades (bp_metrics p) + of_nat (length (trades_of [ev]))"
  by (simp_all add: counted_def count_event_def market_fills_def split: loop_event.split)

definition numbered :: "'g processor \<Rightarrow> bool" where
  "numbered p \<longleftrightarrow> map ce_sequence_id (bp_captured p) = [0..<length (bp_captured p)]"

lemma captured:
  "map ce_event (bp_captured (capture_event en ev p)) = map ce_event (bp_captured p) @ filter (bv_capture en) [ev]"
  "numbered p \<Longrightarrow> numbered (capture_event en ev p)"
  by (simp_all add: capture_event_def numbered_def)

text \<open>One step of the loop with the streaming coordinator.\<close>

definition is_system :: "loop_event \<Rightarrow> bool" where
  "is_system ev \<longleftrightarrow> (\<exists>iev. ev = Internal iev)"

lemma data_not_system:
  assumes "streaming_next of_millis now s = (Some ev, s')" "st_enqueued s = []"
  shows "\<not> is_system ev"
  using assms
proof (induction of_millis now s rule: streaming_next.induct)
  case (1 of_millis now s)
  note unfold = streaming_next.simps [of of_millis now s]
  show ?case
  proof (cases "st_exhausted s")
    case True
    with 1(2) show ?thesis by (simp add: unfold stream_step_def)
  next
    case False
    from False 1(3) show ?thesis
    proof (cases rule: stream_step_data [where of_millis = of_millis and now = now])
      case no_data
      with 1(2) show ?thesis by (simp add: unfold)
    next
      case (timer d)
      with 1(2) show ?thesis by (auto simp: unfold is_system_def)
    next
      case (deliver d ev' s1)
      from deliver(4) have "\<not> is_system ev'" by (cases rule: data_pass.cases) (simp_all add: is_system_def)
      with deliver(3) 1(2) show ?thesis by (simp add: unfold)
    next
      case (again d s1)
      then show ?thesis using 1(1) [OF again(3)] 1(2,3) pass_delivers [OF again(4)] by (simp add: unfold)
    qed
  qed
qed

definition system_queue :: "'g processor \<Rightarrow> system_event list \<Rightarrow> streaming_coordinator \<Rightarrow> bool" where
  "system_queue p q s \<longleftrightarrow> bp_coord p = StreamingMode s \<and> st_enqueued s = map Internal q"

lemma enqueue_streaming:
  "enqueue_internal (StreamingMode s) evs = StreamingMode (s\<lparr>st_enqueued := st_enqueued s @ map Internal evs\<rparr>)"
  by (induction evs arbitrary: s) simp_all

lemma delivered_append: "delivered s evs s' \<Longrightarrow> delivered s' evs' s'' \<Longrightarrow> delivered s (evs @ evs') s''"
  by (simp add: delivered_def books_of_def trades_of_def spots_of_def)

lemma delivered_system: "is_system ev \<Longrightarrow> delivered s [ev] (s\<lparr>st_enqueued := q\<rparr>)"
  by (auto simp: is_system_def delivered_def books_left_def trades_left_def spots_left_def)

text \<open>One turn of the loop: the system's own events first, and what is enqueued behind them.\<close>

definition turn :: "'g processor \<Rightarrow> system_event list \<Rightarrow> streaming_coordinator \<Rightarrow> loop_event \<Rightarrow>
    system_event list \<Rightarrow> streaming_coordinator \<Rightarrow> 'g processor \<Rightarrow> bool" where
  "turn p q s ev evs s' p' \<longleftrightarrow>
     system_queue p' (tl q @ evs) s' \<and> delivered s [ev] s' \<and> \<not> st_exhausted s' \<and> consequences ev evs
     \<and> (q \<noteq> [] \<longrightarrow> ev = Internal (hd q) \<and> s'\<lparr>st_enqueued := []\<rparr> = s\<lparr>st_enqueued := []\<rparr>)
     \<and> (q = [] \<longrightarrow> \<not> is_system ev)"

lemma streaming_turn:
  assumes queue: "system_queue p q s" "\<not> st_exhausted s"
    and nx: "next_event of_millis now (bp_coord p) = Some (Some ev, k)"
    and proc: "bp_process_event en x ev (capture_event en ev (p\<lparr>bp_coord := k\<rparr>)) = (r, p')"
  obtains evs s' where "turn p q s ev evs s' p'"
    "acts (bv_config en) (counted ev (capture_event en ev (p\<lparr>bp_coord := k\<rparr>))) evs p'"
    "q = [] \<Longrightarrow> streaming_next of_millis now s = (Some ev, s'\<lparr>st_enqueued := []\<rparr>)"
proof -
  obtain s1 where s1: "k = StreamingMode s1" "streaming_next of_millis now s = (Some ev, s1)"
    using nx queue(1) by (cases "streaming_next of_millis now s") (auto simp: system_queue_def)
  have step: "streaming_step s (Some ev, s1)" using streaming_next_step [of s of_millis now] s1(2) by simp
  obtain evs where evs: "consequences ev evs"
    "acts (bv_config en) (counted ev (capture_event en ev (p\<lparr>bp_coord := k\<rparr>))) evs p'" using event_acts [OF proc] by blast
  let ?s' = "s1\<lparr>st_enqueued := st_enqueued s1 @ map Internal evs\<rparr>"
  have coord: "bp_coord p' = StreamingMode ?s'" using evs(2) s1(1) by (simp add: acts_def enqueue_streaming)
  have queue1: "st_enqueued s1 = map Internal (tl q)" "\<not> st_exhausted s1"
    using step queue by (cases q; auto simp: system_queue_def streaming_step_def)+
  have first: "delivered s [ev] s1 \<and> (q \<noteq> [] \<longrightarrow> ev = Internal (hd q) \<and> s1\<lparr>st_enqueued := []\<rparr> = s\<lparr>st_enqueued := []\<rparr>)
      \<and> (q = [] \<longrightarrow> \<not> is_system ev)"
  proof (cases q)
    case Nil
    then show ?thesis using step queue data_not_system [OF s1(2)] by (simp add: system_queue_def streaming_step_def)
  next
    case (Cons iev q')
    then have "ev = Internal iev \<and> s1 = s\<lparr>st_enqueued := map Internal q'\<rparr>"
      using s1(2) queue by (simp add: streaming_next.simps [of of_millis now s] stream_step_def system_queue_def)
    then show ?thesis using Cons delivered_system [of ev s] by (simp add: is_system_def)
  qed
  have "delivered s [ev] ?s'"
    using delivered_append [of s "[ev]" s1 "[]" ?s'] first exhausted_left(2) [of s1] by simp
  then have "turn p q s ev evs ?s' p'"
    using first evs(1) coord queue1 by (simp add: turn_def system_queue_def)
  moreover have "q = [] \<Longrightarrow> streaming_next of_millis now s = (Some ev, ?s'\<lparr>st_enqueued := []\<rparr>)"
    using s1(2) queue1(1) by simp
  ultimately show ?thesis using that evs(2) by blast
qed

section \<open>What a run of the loop does\<close>

lemma run_moves:
  assumes "loop_run en xs n p evs r p'"
  shows "by_ops (bv_config en) (bp_manager p) (bp_manager p') \<and> exec_moves (bp_exec p) (bp_exec p')"
  using assms
proof (induction rule: loop_run.induct)
  case (loop_failed n p ev k err p')
  then show ?case using event_acts [OF loop_failed(2)] by (auto simp: acts_def)
next
  case (loop_went_on n p ev k u p1 evs r p')
  then show ?case
    using event_acts [OF loop_went_on(2)] by (auto simp: acts_def intro: by_ops_trans exec_moves_trans)
qed simp

lemma run_data:
  assumes "loop_run en xs n p evs r p'" "system_queue p q s" "\<not> st_exhausted s"
  shows "(r = Inr () \<longrightarrow> books_left s = books_of evs \<and> trades_left s = trades_of evs \<and> spots_left s = spots_of evs)
    \<and> bm_total_snapshots (bp_metrics p') = bm_total_snapshots (bp_metrics p) + of_nat (length (books_of evs))
    \<and> bm_total_trades (bp_metrics p') = bm_total_trades (bp_metrics p) + of_nat (length (trades_of evs))
    \<and> map ce_event (bp_captured p') = map ce_event (bp_captured p) @ filter (bv_capture en) evs
    \<and> (numbered p \<longrightarrow> numbered p')"
  using assms
proof (induction arbitrary: q s rule: loop_run.induct)
  case (loop_ended n p k)
  then obtain st where st: "k = StreamingMode st" "streaming_next (bv_of_millis en) (bx_clock (xs n)) s = (None, st)"
    by (cases "streaming_next (bv_of_millis en) (bx_clock (xs n)) s") (auto simp: system_queue_def)
  then have "streaming_step s (None, st)" using streaming_next_step [of s] by metis
  then show ?case
    using loop_ended(3) by (auto simp: streaming_step_def delivered_def numbered_def split: if_splits)
next
  case (loop_failed n p ev k err p')
  obtain evs s' where t: "turn p q s ev evs s' p'"
    and a: "acts (bv_config en) (counted ev (capture_event en ev (p\<lparr>bp_coord := k\<rparr>))) evs p'"
    by (rule streaming_turn [OF loop_failed(3,4,1,2)])
  show ?case using a captured(1) [of en ev "p\<lparr>bp_coord := k\<rparr>"]
    captured(2) [of "p\<lparr>bp_coord := k\<rparr>" en ev] by (simp add: acts_def numbered_def)
next
  case (loop_went_on n p ev k u p1 evs r p')
  obtain new s' where t: "turn p q s ev new s' p1"
    and a: "acts (bv_config en) (counted ev (capture_event en ev (p\<lparr>bp_coord := k\<rparr>))) new p1"
    by (rule streaming_turn [OF loop_went_on(5,6,1,2)])
  then have "system_queue p1 (tl q @ new) s'" "\<not> st_exhausted s'" "delivered s [ev] s'" by (simp_all add: turn_def)
  with loop_went_on.IH [OF this(1,2)] a captured(1) [of en ev "p\<lparr>bp_coord := k\<rparr>"]
    captured(2) [of "p\<lparr>bp_coord := k\<rparr>" en ev] show ?case
    by (simp add: acts_def numbered_def delivered_def)
qed

lemma run_market:
  assumes "loop_run en xs n p evs r p'" "system_queue p q s" "\<not> st_exhausted s"
    "be_last_prices (bp_exec p) = []" "list_all (\<lambda>iev. \<not> is_execution iev) q"
  shows "market_fills (bp_metrics p') = market_fills (bp_metrics p)
    \<and> list_all (\<lambda>ev. \<forall>iev. ev = Internal iev \<longrightarrow> \<not> is_execution iev) evs"
  using assms
proof (induction arbitrary: q s rule: loop_run.induct)
  case (loop_failed n p ev k err p')
  obtain evs s' where t: "turn p q s ev evs s' p'"
    and a: "acts (bv_config en) (counted ev (capture_event en ev (p\<lparr>bp_coord := k\<rparr>))) evs p'"
    by (rule streaming_turn [OF loop_failed(3,4,1,2)])
  show ?case using a t loop_failed(5,6) by (cases q) (auto simp: acts_def turn_def is_system_def)
next
  case (loop_went_on n p ev k u p1 evs r p')
  obtain new s' where t: "turn p q s ev new s' p1"
    and a: "acts (bv_config en) (counted ev (capture_event en ev (p\<lparr>bp_coord := k\<rparr>))) new p1"
    by (rule streaming_turn [OF loop_went_on(5,6,1,2)])
  have "be_last_prices (bp_exec p1) = []" "list_all (\<lambda>iev. \<not> is_execution iev) (tl q @ new)"
    using a loop_went_on(7,8) exec_moves_prices [of "bp_exec p" "bp_exec p1"] by (cases q; simp add: acts_def)+
  moreover have "system_queue p1 (tl q @ new) s'" "\<not> st_exhausted s'" using t by (simp_all add: turn_def)
  ultimately have "market_fills (bp_metrics p') = market_fills (bp_metrics p1)
      \<and> list_all (\<lambda>ev. \<forall>iev. ev = Internal iev \<longrightarrow> \<not> is_execution iev) evs" by (intro loop_went_on.IH)
  then show ?case using a t loop_went_on(7,8) by (cases q) (auto simp: acts_def turn_def is_system_def)
qed simp

section \<open>The loop ends\<close>

text \<open>Executions and redemptions lead to position events, and those to nothing.\<close>

fun is_weighty :: "system_event \<Rightarrow> bool" where
  "is_weighty (ExecutionEv ev) = True"
| "is_weighty (RedemptionEv ev) = True"
| "is_weighty ev = False"

lemma position_not_weighty: "list_all is_position evs \<Longrightarrow> filter is_weighty evs = []"
proof -
  have "is_position ev \<Longrightarrow> \<not> is_weighty ev" for ev by (cases ev) simp_all
  then show "list_all is_position evs \<Longrightarrow> ?thesis" by (auto simp: list_all_iff filter_empty_conv)
qed

definition queue_weight :: "system_event list \<Rightarrow> nat \<times> nat" where
  "queue_weight q = (length (filter is_weighty q), length q)"

lemma consequences_lighter:
  assumes "consequences (Internal iev) evs"
  shows "(queue_weight (q @ evs), queue_weight (iev # q)) \<in> less_than <*lex*> less_than"
  using assms by (cases iev) (auto simp: consequences_def queue_weight_def position_not_weighty)

lemma loop_returns:
  assumes "system_queue p q s" "\<not> st_exhausted s" "bounded_by (bv_of_millis en) h (s\<lparr>st_enqueued := []\<rparr>)"
  shows "run_event_loop en xs n p \<noteq> None"
  using assms
proof (induction "(work_left h (s\<lparr>st_enqueued := []\<rparr>), queue_weight q)" arbitrary: p q s n
    rule: wf_induct_rule [OF wf_lex_prod [OF wf_less_than wf_lex_prod [OF wf_less_than wf_less_than]]])
  case less: 1
  obtain r s1 where nx: "streaming_next (bv_of_millis en) (bx_clock (xs n)) s = (r, s1)" by fastforce
  then have step: "next_event (bv_of_millis en) (bx_clock (xs n)) (bp_coord p) = Some (r, StreamingMode s1)"
    using less(2) by (simp add: system_queue_def)
  show ?case
  proof (cases r)
    case None
    then show ?thesis using step by (simp add: run_event_loop.simps [of en xs n p])
  next
    case (Some ev)
    obtain res p1 where proc: "bp_process_event en (xs n) ev (capture_event en ev (p\<lparr>bp_coord := StreamingMode s1\<rparr>)) = (res, p1)"
      by fastforce
    obtain evs s' where t: "turn p q s ev evs s' p1"
      and data: "q = [] \<Longrightarrow> streaming_next (bv_of_millis en) (bx_clock (xs n)) s = (Some ev, s'\<lparr>st_enqueued := []\<rparr>)"
      by (rule streaming_turn [OF less(2,3) step [unfolded Some] proc]) blast
    have "run_event_loop en xs (Suc n) p1 \<noteq> None"
    proof (cases q)
      case Nil
      then have empty: "s\<lparr>st_enqueued := []\<rparr> = s" using less(2) by (simp add: system_queue_def)
      from streaming_next_progress [OF less(4) [unfolded empty] less(3) data [OF Nil]] t
      have "bounded_by (bv_of_millis en) h (s'\<lparr>st_enqueued := []\<rparr>)"
        "work_left h (s'\<lparr>st_enqueued := []\<rparr>) < work_left h (s\<lparr>st_enqueued := []\<rparr>)"
        unfolding empty by (simp_all add: turn_def)
      then show ?thesis using less(1) [of s' "tl q @ evs" p1] t by (simp add: turn_def)
    next
      case (Cons iev q')
      then have same: "s'\<lparr>st_enqueued := []\<rparr> = s\<lparr>st_enqueued := []\<rparr>" "consequences (Internal iev) evs"
        using t by (auto simp: turn_def)
      then show ?thesis
        using less(1) [of s' "tl q @ evs" p1] less(4) t consequences_lighter [OF same(2), of q'] Cons by (simp add: turn_def)
    qed
    then show ?thesis
      using step Some proc by (cases res) (simp_all add: run_event_loop.simps [of en xs n p])
  qed
qed

lemma new_queue: "system_queue (initialize_components fm now c ss us ts ps g m) []
    (new_from_data fm now ss us ts ps (bc_timer_interval c))"
  by (simp add: system_queue_def initialize_components_def new_from_data_def Let_def case_prod_beta)

lemma backtest_cases:
  assumes "run_backtest w c ss us ts ps g = Some (Inr (m, captured))"
    "check_data_completeness (bc_completeness c) (ro_parse_end w) (ro_of_millis w) (ro_metadata w) ss us ts = Inr (ss', us', ts')"
    "ss' \<noteq> []" "ss \<noteq> []"
  obtains evs p' where
    "loop_run (env_of w c) (ro_steps w) 0
       (initialize_components (ro_of_millis w) (ro_now w) c ss' us' ts' ps g
          (capture_time_range (ro_of_millis w) ss' backtest_metrics_default)) evs (Inr ()) p'"
    "m = finalize (ro_duration_ms w) (bp_manager p') (bp_metrics p')" "captured = bp_captured p'"
proof -
  let ?p = "initialize_components (ro_of_millis w) (ro_now w) c ss' us' ts' ps g
      (capture_time_range (ro_of_millis w) ss' backtest_metrics_default)"
  obtain r p' where r: "run_event_loop (env_of w c) (ro_steps w) 0 ?p = Some (r, p')"
    using assms by (auto simp: run_backtest_def split: option.splits)
  with assms have "r = Inr ()" "m = finalize (ro_duration_ms w) (bp_manager p') (bp_metrics p')" "captured = bp_captured p'"
    by (auto simp: run_backtest_def split: sum.splits)
  then show ?thesis using run_loop [OF r] that by auto
qed

section \<open>Orders at the market\<close>

lemma market_order_fails: "be_last_prices (bp_exec p) = [] \<Longrightarrow> bp_market_order c ord p = p"
  by (simp add: bp_market_order_def bt_execute_market_order_def)

lemma timer_idle: "be_last_prices (bp_exec p) = [] \<Longrightarrow> bp_timer c t p = p"
proof -
  have "foldl (\<lambda>p ord. bp_market_order c ord p) p os = p" if "be_last_prices (bp_exec p) = []" for os
    using that by (induction os) (simp_all add: market_order_fails)
  then show "be_last_prices (bp_exec p) = [] \<Longrightarrow> ?thesis" by (simp add: bp_timer_def split: sum.split)
qed

text \<open>An exit at the market does not happen, and its mark stays, so that no later signal can exit either.\<close>

lemma market_exit_sticks:
  assumes "ts_action sg = Exit" "\<not> ts_is_intent sg" "\<not> ts_is_limit_order sg" "ts_references_position sg = Some mint"
    "hget (pm_positions (bp_manager p)) mint = Some q" "\<not> fle (pos_amount q) f0"
    "mint \<notin> pm_pending_sells (bp_manager p)" "be_last_prices (bp_exec p) = []"
  shows "bp_manager (process_signal c x p (i, sg)) =
      (bp_manager p)\<lparr>pm_pending_sells := insert mint (pm_pending_sells (bp_manager p))\<rparr>
    \<and> route_signal c now sg (bp_manager (process_signal c x p (i, sg))) = (bp_manager (process_signal c x p (i, sg)), [])"
proof -
  let ?s = "(bp_manager p)\<lparr>pm_pending_sells := insert mint (pm_pending_sells (bp_manager p))\<rparr>"
  have first: "route_signal c now sg (bp_manager p) = (?s, [backtest_exit_order now sg mint q])" for now
    using assms by (simp add: route_signal_def route_exit_def try_mark_pending_sell_def)
  have "ord_order_type (backtest_exit_order now sg mint q) = MarketSell (pos_amount q) True" for now
    using assms(3) by (simp add: backtest_exit_order_def)
  then have at_market: "execute_order c x u d p' (backtest_exit_order now sg mint q) = p'"
    if "be_last_prices (bp_exec p') = []" for u d p' now
    using that by (simp add: execute_order_def market_order_fails)
  have "bp_manager (process_signal c x p (i, sg)) = ?s"
    using assms(8) by (simp add: process_signal_def count_event_def first at_market)
  moreover have "route_signal c now sg ?s = (?s, [])"
    using assms by (simp add: route_signal_def route_exit_def try_mark_pending_sell_def)
  ultimately show ?thesis by simp
qed

text \<open>With a timer interval of zero, which the validation of the settings accepts, the timer is delivered
  again and again and the backtest of a single snapshot never returns.\<close>

definition stuck :: "'g bp_env \<Rightarrow> 'g processor \<Rightarrow> bool" where
  "stuck en p \<longleftrightarrow> (\<exists>s d. bp_coord p = StreamingMode s \<and> \<not> st_exhausted s \<and> st_enqueued s = []
     \<and> next_data_ts s = Some d \<and> due_timer (bv_of_millis en) d s \<and> timer_step (tm_interval (st_timer s)) = 0
     \<and> be_last_prices (bp_exec p) = [])"

lemma stuck_forever: "loop_run en xs n p evs r p' \<Longrightarrow> \<not> stuck en p"
proof (induction rule: loop_run.induct)
  case (loop_went_on n p ev k u p1 evs r p')
  show ?case
  proof
    assume "stuck en p"
    then obtain s d where s: "bp_coord p = StreamingMode s" "\<not> st_exhausted s" "st_enqueued s = []"
      "next_data_ts s = Some d" "due_timer (bv_of_millis en) d s" "timer_step (tm_interval (st_timer s)) = 0"
      "be_last_prices (bp_exec p) = []" by (auto simp: stuck_def)
    let ?s = "s\<lparr>st_timer := snd (emit (st_timer s)), st_now := fst (emit (st_timer s))\<rparr>"
    have "streaming_next (bv_of_millis en) (bx_clock (xs n)) s = (Some (TimerEv (fst (emit (st_timer s)))), ?s)"
      using s by (simp add: streaming_next.simps [of _ _ s] stream_step_def)
    then have "bp_coord p1 = StreamingMode ?s" "bp_exec p1 = bp_exec p"
      using loop_went_on(1,2) s(1,7) by (auto simp: bp_process_event_def timer_idle)
    moreover have "next_data_ts ?s = Some d" "due_timer (bv_of_millis en) d ?s"
      using s(4-6) by (simp_all add: next_data_ts_def peek_next_orderbook_ts_def due_timer_def emit_def should_emit_def
          split: option.splits)
    ultimately have "stuck en p1" using s by (auto simp: stuck_def emit_def)
    with loop_went_on.IH show False by contradiction
  qed
next
  case (loop_ended n p k)
  then show ?case
    by (auto simp: stuck_def streaming_next.simps [of _ _ s for s] stream_step_def split: option.splits)
next
  case (loop_failed n p ev k err p')
  then show ?case
    by (auto simp: stuck_def streaming_next.simps [of _ _ s for s] stream_step_def bp_process_event_def split: option.splits)
qed

lemma zero_interval_never_ends:
  assumes "bc_timer_interval c = 0" "\<not> cc_enabled (bc_completeness c)" "ro_of_millis w (bk_timestamp b) = Some t"
  shows "run_backtest w c [b] [] [] None g = None"
proof -
  let ?p = "initialize_components (ro_of_millis w) (ro_now w) c [b] [] [] None g
      (capture_time_range (ro_of_millis w) [b] backtest_metrics_default)"
  let ?s = "new_from_data (ro_of_millis w) (ro_now w) [b] [] [] None (bc_timer_interval c)"
  have "next_data_ts ?s = Some (bk_timestamp b)" "due_timer (ro_of_millis w) (bk_timestamp b) ?s"
    "timer_step (tm_interval (st_timer ?s)) = 0" "\<not> st_exhausted ?s" "st_enqueued ?s = []"
    using assms(1,3) by (simp_all add: new_from_data_def next_data_ts_def peek_next_orderbook_ts_def peek_time_def
        due_timer_def should_emit_def timer_new_def timer_step_def Let_def)
  then have "stuck (env_of w c) ?p"
    by (simp add: stuck_def env_of_def initialize_components_def builder_build_def)
  then have "run_event_loop (env_of w c) (ro_steps w) 0 ?p = None"
    using run_loop [of "env_of w c" "ro_steps w" 0 ?p] stuck_forever [of "env_of w c" "ro_steps w" 0 ?p]
    by (cases "run_event_loop (env_of w c) (ro_steps w) 0 ?p") blast+
  then show ?thesis using assms(2) by (simp add: run_backtest_def check_data_completeness_def)
qed

section \<open>Properties\<close>

text \<open>C17. A backtest moves the position manager and the executor only by their own operations, so that the
  invariants of both hold at its end: in particular no lane of quotes ever has two pending orders when
  latencies are simulated.  However long it runs, the executor never learns a price: market orders always
  fail, every fill that is counted is the fill of a limit order, and no execution is ever among the
  events.\<close>

theorem backtest_refines_parts:
  assumes run: "run_event_loop (env_of w c) xs 0 (initialize_components fm now c ss us ts ps g
      (capture_time_range fm ss backtest_metrics_default)) = Some (r, p)"
  shows "(\<exists>ops. bp_manager p = foldl (pm_apply (manager_config c)) (pm_new (pcf_initial_balance (bc_position c))) ops)
    \<and> (\<exists>ops. bp_exec p = foldl bt_apply (builder_build (executor_builder c)) ops)
    \<and> pm_inv (bp_manager p) \<and> bt_inv {} (bp_exec p)
    \<and> (\<forall>ord. bt_execute_market_order (bp_exec p) ord = Inl (BtNoPriceData (ord_mint ord)))
    \<and> bm_total_fills (bp_metrics p) = bm_total_bid_fills (bp_metrics p) + bm_total_ask_fills (bp_metrics p)
    \<and> (\<forall>ev \<in> set (bp_captured p). \<forall>ee. ce_event ev \<noteq> Internal (ExecutionEv ee))"
proof -
  let ?p = "initialize_components fm now c ss us ts ps g (capture_time_range fm ss backtest_metrics_default)"
  obtain evs where evs: "loop_run (env_of w c) xs 0 ?p evs r p" using run_loop [OF run] by auto
  have start: "bp_manager ?p = pm_new (pcf_initial_balance (bc_position c))"
    "bp_exec ?p = builder_build (executor_builder c)" "bp_captured ?p = []" "market_fills (bp_metrics ?p) = 0"
    "be_last_prices (bp_exec ?p) = []" "bv_config (env_of w c) = manager_config c"
    by (simp_all add: initialize_components_def builder_build_def market_fills_def capture_time_range_def
        backtest_metrics_default_def env_of_def)
  have running: "\<not> st_exhausted (new_from_data fm now ss us ts ps (bc_timer_interval c))"
    by (rule new_streaming(5) [OF refl])
  have moves: "by_ops (manager_config c) (pm_new (pcf_initial_balance (bc_position c))) (bp_manager p)"
    "exec_moves (builder_build (executor_builder c)) (bp_exec p)" using run_moves [OF evs] start by simp_all
  note market = run_market [OF evs new_queue running start(5), simplified]
  have "map ce_event (bp_captured p) = filter (bv_capture (env_of w c)) evs"
    using run_data [OF evs new_queue running] start(3) by simp
  then have "ce_event ev \<in> set evs" if "ev \<in> set (bp_captured p)" for ev
    using that by (metis filter_is_subset image_eqI list.set_map subset_code(1))
  then have "\<forall>ev \<in> set (bp_captured p). \<forall>ee. ce_event ev \<noteq> Internal (ExecutionEv ee)"
    using market by (fastforce simp: list_all_iff)
  moreover have "bt_execute_market_order (bp_exec p) ord = Inl (BtNoPriceData (ord_mint ord))" for ord
    using exec_moves_prices [OF moves(2)] start(2,5) by (simp add: bt_execute_market_order_def)
  moreover have "bm_total_fills (bp_metrics p) = bm_total_bid_fills (bp_metrics p) + bm_total_ask_fills (bp_metrics p)"
    using market start(4) by (simp add: market_fills_def)
  ultimately show ?thesis
    using moves by_ops_inv [OF moves(1) pm_new_inv] bt_reachable unfolding by_ops_def exec_moves_def by metis
qed

text \<open>C18. A backtest with a timer interval above zero always returns, whatever the data, the strategy and the
  settings are.\<close>

theorem backtest_ends:
  assumes "0 < timer_step (bc_timer_interval c)"
  shows "run_backtest w c ss us ts ps g \<noteq> None"
proof -
  have "\<exists>r p. run_event_loop (env_of w c) xs n (initialize_components (ro_of_millis w) now c ss us ts ps g m) = Some (r, p)"
    for xs n now ss us ts m
  proof -
    let ?s = "new_from_data (ro_of_millis w) now ss us ts ps (bc_timer_interval c)"
    obtain h where h: "bounded_by (ro_of_millis w) h ?s" by (rule new_bounded [OF assms])
    then have "?s\<lparr>st_enqueued := []\<rparr> = ?s" by (simp add: bounded_by_def)
    with h have "run_event_loop (env_of w c) xs n
        (initialize_components (ro_of_millis w) now c ss us ts ps g m) \<noteq> None"
      by (intro loop_returns [OF new_queue new_streaming(5) [OF refl]]) (simp add: env_of_def)
    then show ?thesis by auto
  qed
  then have returns: "run_event_loop (env_of w c) xs n (initialize_components (ro_of_millis w) now c ss us ts ps g m) = None
      \<longleftrightarrow> False" for xs n now ss us ts m by simp
  show ?thesis by (auto simp: run_backtest_def returns split: sum.split option.split)
qed

text \<open>C19. A backtest that returns metrics has shown the whole recorded data, once and in order: the events of
  its loop hold exactly the materialised stream of books, the trades from the first snapshot on and all
  spot prices, of the data that the check of completeness leaves, and the counters of the metrics are the
  numbers of its books and trades.  The captured events are those among the events of the loop that the
  capture configuration asks for, whichever it is, numbered from zero without gaps.  Without a snapshot
  nothing is run, shown or counted.\<close>

theorem backtest_sees_all_data:
  assumes run: "run_backtest w c ss us ts ps g = Some (Inr (m, captured))"
  shows "if ss = [] then captured = [] \<and> m = backtest_metrics_default
    else \<exists>ss' us' ts'. check_data_completeness (bc_completeness c) (ro_parse_end w) (ro_of_millis w) (ro_metadata w)
          ss us ts = Inr (ss', us', ts')
      \<and> (if ss' = [] then captured = [] \<and> m = backtest_metrics_default
         else \<exists>evs p'. loop_run (env_of w c) (ro_steps w) 0
               (initialize_components (ro_of_millis w) (ro_now w) c ss' us' ts' ps g
                  (capture_time_range (ro_of_millis w) ss' backtest_metrics_default)) evs (Inr ()) p'
           \<and> books_of evs =
               (if us' = [] then sort_key bk_timestamp ss' else apply_updates_to_snapshots (ro_of_millis w) (ro_now w) ss' us')
           \<and> trades_of evs = filter (\<lambda>t. first_time ss' \<le> tr_timestamp t) (sort_key tr_timestamp ts')
           \<and> spots_of evs = sort_key spp_timestamp (unwrap_or ps [])
           \<and> map ce_event captured = filter (should_capture (bc_capture c)) evs
           \<and> map ce_sequence_id captured = [0..<length captured]
           \<and> bm_total_snapshots m = of_nat (length (books_of evs))
           \<and> bm_total_trades m = of_nat (length (trades_of evs)))"
proof (cases "ss = []")
  case True
  then show ?thesis using run by (simp add: run_backtest_def)
next
  case False
  obtain ss' us' ts' where complete: "check_data_completeness (bc_completeness c) (ro_parse_end w) (ro_of_millis w)
      (ro_metadata w) ss us ts = Inr (ss', us', ts')"
    using run False by (auto simp: run_backtest_def split: sum.splits)
  show ?thesis
  proof (cases "ss' = []")
    case True
    then show ?thesis using run False complete by (simp add: run_backtest_def)
  next
    case some: False
    let ?s = "new_from_data (ro_of_millis w) (ro_now w) ss' us' ts' ps (bc_timer_interval c)"
    let ?p = "initialize_components (ro_of_millis w) (ro_now w) c ss' us' ts' ps g
        (capture_time_range (ro_of_millis w) ss' backtest_metrics_default)"
    obtain evs p' where evs: "loop_run (env_of w c) (ro_steps w) 0 ?p evs (Inr ()) p'"
      "m = finalize (ro_duration_ms w) (bp_manager p') (bp_metrics p')" "captured = bp_captured p'"
      by (rule backtest_cases [OF run complete some False])
    note new = new_streaming [OF refl [of ?s]]
    note data = run_data [OF evs(1) new_queue new(5)]
    have start: "bp_captured ?p = []" "bm_total_snapshots (bp_metrics ?p) = 0" "bm_total_trades (bp_metrics ?p) = 0"
      by (simp_all add: initialize_components_def capture_time_range_def backtest_metrics_default_def)
    have kept: "map ce_event captured = filter (should_capture (bc_capture c)) evs"
      using data start(1) evs(3) by (simp add: env_of_def)
    have "numbered ?p" by (simp add: numbered_def start)
    then have ids: "map ce_sequence_id captured = [0..<length captured]" using data evs(3) by (simp add: numbered_def)
    have stream: "books_of evs = (if us' = [] then sort_key bk_timestamp ss' else apply_updates_to_snapshots (ro_of_millis w) (ro_now w) ss' us')"
      "trades_of evs = filter (\<lambda>t. first_time ss' \<le> tr_timestamp t) (sort_key tr_timestamp ts')"
      "spots_of evs = sort_key spp_timestamp (unwrap_or ps [])"
      using data new(1,2,3) books_materialised [of ss' us' "ro_of_millis w" "ro_now w"] by simp_all
    have counts: "bm_total_snapshots m = of_nat (length (books_of evs))" "bm_total_trades m = of_nat (length (trades_of evs))"
      using data start evs(2) by (simp_all add: finalize_def Let_def)
    show ?thesis
      unfolding if_not_P [OF False]
      by (rule exI [of _ ss'], rule exI [of _ us'], rule exI [of _ ts'], unfold if_not_P [OF some],
          intro exI [of _ evs] exI [of _ p'] conjI complete evs(1) stream kept ids counts)
  qed
qed

section \<open>A concrete backtest\<close>

text \<open>One snapshot, no completeness check, and a strategy that never signals.\<close>

definition demo_backtest :: backtest_config where
  "demo_backtest = (backtest_config_new ''s'' ''u'' ''t'' ''o'')
     \<lparr>bc_completeness := completeness_default\<lparr>cc_enabled := False\<rparr>\<rparr>"

definition demo_run :: "unit run_outside" where
  "demo_run = \<lparr>ro_of_millis = (\<lambda>ms. Some (ms * 1000000)), ro_parse_end = (\<lambda>d. None), ro_metadata = demo_metadata,
     ro_generate = (\<lambda>g ev. (Inr [], g)), ro_market_of = tr_asset_id, ro_now = 0,
     ro_steps = (\<lambda>n. \<lparr>bx_clock = 0, bx_uuid = (\<lambda>i j. []), bx_draws = (\<lambda>i j. demo_draws), bx_lanes = (\<lambda>k. demo_draws),
       bx_released = (\<lambda>k. demo_draws)\<rparr>), ro_duration_ms = 0\<rparr>"

lemma demo_interval: "0 < timer_step (bc_timer_interval demo_backtest)"
  by (simp add: demo_backtest_def backtest_config_new_def timer_step_positive)

lemma demo_never_fails: "loop_run (env_of demo_run c) xs n p evs r p' \<Longrightarrow> r = Inr ()"
proof (induction rule: loop_run.induct)
  case (loop_failed n p ev k err p')
  then show ?case
    by (auto simp: bp_process_event_def bp_orderbook_snapshot_def bp_redemption_def generate_and_process_def
        generate_only_def env_of_def demo_run_def Let_def split: loop_event.splits system_event.splits)
qed auto

lemma demo_loop_returns:
  "\<exists>p. run_event_loop (env_of demo_run demo_backtest) xs n
     (initialize_components (ro_of_millis demo_run) now demo_backtest ss us ts ps g m) = Some (Inr (), p)"
proof -
  let ?s = "new_from_data (ro_of_millis demo_run) now ss us ts ps (bc_timer_interval demo_backtest)"
  obtain h where h: "bounded_by (ro_of_millis demo_run) h ?s" by (rule new_bounded [OF demo_interval])
  then have "?s\<lparr>st_enqueued := []\<rparr> = ?s" by (simp add: bounded_by_def)
  with h have "run_event_loop (env_of demo_run demo_backtest) xs n
      (initialize_components (ro_of_millis demo_run) now demo_backtest ss us ts ps g m) \<noteq> None"
    by (intro loop_returns [OF new_queue new_streaming(5) [OF refl]]) (simp add: env_of_def)
  then show ?thesis using run_loop demo_never_fails by fastforce
qed

theorem backtest_refines_parts_witness:
  "\<exists>p. run_event_loop (env_of demo_run demo_backtest) (ro_steps demo_run) 0
      (initialize_components (ro_of_millis demo_run) 0 demo_backtest [demo_snapshot] [] [demo_tick_trade] None ()
        (capture_time_range (ro_of_millis demo_run) [demo_snapshot] backtest_metrics_default)) = Some (Inr (), p)
    \<and> pm_inv (bp_manager p)"
proof -
  obtain p where p: "run_event_loop (env_of demo_run demo_backtest) (ro_steps demo_run) 0
      (initialize_components (ro_of_millis demo_run) 0 demo_backtest [demo_snapshot] [] [demo_tick_trade] None ()
        (capture_time_range (ro_of_millis demo_run) [demo_snapshot] backtest_metrics_default)) = Some (Inr (), p)"
    using demo_loop_returns by blast
  with backtest_refines_parts [OF p] show ?thesis by blast
qed

theorem backtest_ends_witness:
  "run_backtest demo_run demo_backtest [demo_snapshot] [demo_update] [demo_tick_trade] None () \<noteq> None"
  by (rule backtest_ends) (rule demo_interval)

lemma demo_backtest_returns:
  obtains m captured where
    "run_backtest demo_run demo_backtest [demo_snapshot] [] [demo_tick_trade] None () = Some (Inr (m, captured))"
  using demo_loop_returns [of "ro_steps demo_run" 0 "ro_now demo_run" "[demo_snapshot]" "[]" "[demo_tick_trade]" None "()"
      "capture_time_range (ro_of_millis demo_run) [demo_snapshot] backtest_metrics_default"]
  by (auto simp: run_backtest_def check_data_completeness_def demo_backtest_def)

theorem backtest_sees_all_data_witness:
  "\<exists>m captured. run_backtest demo_run demo_backtest [demo_snapshot] [] [demo_tick_trade] None () = Some (Inr (m, captured))
    \<and> bm_total_snapshots m = 1 \<and> bm_total_trades m = 1 \<and> map ce_sequence_id captured = [0..<length captured]"
proof -
  obtain m captured where run:
    "run_backtest demo_run demo_backtest [demo_snapshot] [] [demo_tick_trade] None () = Some (Inr (m, captured))"
    by (rule demo_backtest_returns)
  have complete: "check_data_completeness (bc_completeness demo_backtest) (ro_parse_end demo_run) (ro_of_millis demo_run)
      (ro_metadata demo_run) [demo_snapshot] [] [demo_tick_trade] = Inr ([demo_snapshot], [], [demo_tick_trade])"
    by (simp add: check_data_completeness_def demo_backtest_def)
  have "first_time [demo_snapshot] \<le> tr_timestamp demo_tick_trade"
    by (simp add: first_time_def demo_snapshot_def demo_tick_trade_def)
  then have "bm_total_snapshots m = 1 \<and> bm_total_trades m = 1 \<and> map ce_sequence_id captured = [0..<length captured]"
    using backtest_sees_all_data [OF run] unfolding complete by auto
  then show ?thesis using run by blast
qed

end
