(* ===== verification/Feed_Parser.thy ===== *)
theory Feed_Parser
  imports Orderbook_Tracker Safe_Client
begin

text \<open>
  The parser of the messages of the exchange, \<open>tx-sub/crates/polymarket-sub/src/parser/\<close>: JSON values
  become trades, price changes and books.  The JSON reader is a library; its values are the datatype
  \<open>jvalue\<close> with the accessors that the code uses.  Decimal numbers are read as the standard library
  reads them: the exact decimal value, rounded once.  Errors carry the text of the code without the
  value it appends.
\<close>

section \<open>JSON values\<close>

datatype jnumber = PosInt "64 word" | NegInt int | Float f64

datatype jvalue =
    JNull
  | JBool bool
  | JNumber jnumber
  | JString string
  | JArray "jvalue list"
  | JObject "(string \<times> jvalue) list"

fun jget :: "string \<Rightarrow> jvalue \<Rightarrow> jvalue option" where
  "jget k (JObject kvs) = map_of kvs k"
| "jget k v = None"

fun as_str :: "jvalue \<Rightarrow> string option" where
  "as_str (JString s) = Some s"
| "as_str v = None"

fun as_array :: "jvalue \<Rightarrow> jvalue list option" where
  "as_array (JArray vs) = Some vs"
| "as_array v = None"

fun as_i64 :: "jvalue \<Rightarrow> int option" where
  "as_i64 (JNumber (PosInt n)) = (if uint n < 2 ^ 63 then Some (uint n) else None)"
| "as_i64 (JNumber (NegInt i)) = Some i"
| "as_i64 v = None"

fun as_u64 :: "jvalue \<Rightarrow> 64 word option" where
  "as_u64 (JNumber (PosInt n)) = Some n"
| "as_u64 v = None"

section \<open>Numbers in texts\<close>

definition parse_i64 :: "string \<Rightarrow> int option" where
  "parse_i64 s =
     (if take 1 s = ''-'' then
        (if drop 1 s = [] then None
         else case parse_digits 10 0 (drop 1 s) of
                None \<Rightarrow> None | Some n \<Rightarrow> if n \<le> 2 ^ 63 then Some (- int n) else None)
      else (case parse_u64 10 s of None \<Rightarrow> None | Some n \<Rightarrow> if n < 2 ^ 63 then Some (int n) else None))"

definition parse_u32 :: "string \<Rightarrow> 32 word option" where
  "parse_u32 s = (case parse_u64 10 s of None \<Rightarrow> None | Some n \<Rightarrow> if n < 2 ^ 32 then Some (of_nat n) else None)"

definition digits_value :: "string \<Rightarrow> nat" where
  "digits_value s = foldl (\<lambda>a c. 10 * a + (of_char c - 48)) 0 s"

definition lower :: "char \<Rightarrow> char" where
  "lower c = (let n = (of_char c :: nat) in if 65 \<le> n \<and> n \<le> 90 then char_of (n + 32) else c)"

definition split_sign :: "string \<Rightarrow> bool \<times> string" where
  "split_sign s = (if take 1 s = ''-'' then (True, drop 1 s) else if take 1 s = ''+'' then (False, drop 1 s) else (False, s))"

text \<open>The exponent of a number: nothing, or \<open>e\<close> with an optional sign and at least one digit.\<close>

definition parse_exponent :: "string \<Rightarrow> int option" where
  "parse_exponent s =
     (case s of
        [] \<Rightarrow> Some 0
      | c # cs \<Rightarrow>
          (case split_sign cs of (neg, ds) \<Rightarrow>
             if lower c = CHR ''e'' \<and> ds \<noteq> [] \<and> list_all is_digit ds
             then Some ((if neg then -1 else 1) * int (digits_value ds)) else None))"

text \<open>Digits with an optional point and at least one digit in all, and an exponent.\<close>

definition parse_decimal :: "string \<Rightarrow> rat option" where
  "parse_decimal s =
     (let ip = takeWhile is_digit s; r = dropWhile is_digit s;
        fp = (if take 1 r = ''.'' then takeWhile is_digit (drop 1 r) else []);
        r' = (if take 1 r = ''.'' then dropWhile is_digit (drop 1 r) else r)
      in if ip = [] \<and> fp = [] then None
         else map_option (\<lambda>e. of_nat (digits_value (ip @ fp)) * 10 powi (e - int (length fp))) (parse_exponent r'))"

definition parse_f64 :: "string \<Rightarrow> f64 option" where
  "parse_f64 s =
     (case split_sign s of (neg, body) \<Rightarrow>
        let name = map lower body;
          v = (if name = ''nan'' then Some NaN
               else if name = ''inf'' \<or> name = ''infinity'' then Some PosInf
               else map_option f_of (parse_decimal body))
        in if neg then map_option fneg v else v)"

section \<open>Fields\<close>

datatype parse_error =
    Missing string
  | NotANumber string
  | OutOfRange string
  | Negative string
  | InvalidSide string
  | EmptyList string
  | EmptyText string

type_synonym 'a parsed = "parse_error + 'a"

definition bind_ok :: "'a parsed \<Rightarrow> ('a \<Rightarrow> 'b parsed) \<Rightarrow> 'b parsed" where
  "bind_ok r f = (case r of Inl e \<Rightarrow> Inl e | Inr x \<Rightarrow> f x)"

definition ok_or :: "parse_error \<Rightarrow> 'a option \<Rightarrow> 'a parsed" where
  "ok_or e x = (case x of None \<Rightarrow> Inl e | Some y \<Rightarrow> Inr y)"

definition text_field :: "string \<Rightarrow> jvalue \<Rightarrow> string parsed" where
  "text_field k v = ok_or (Missing k) (Option.bind (jget k v) as_str)"

definition array_field :: "string \<Rightarrow> jvalue \<Rightarrow> jvalue list parsed" where
  "array_field k v = ok_or (Missing k) (Option.bind (jget k v) as_array)"

definition number_field :: "string \<Rightarrow> jvalue \<Rightarrow> f64 parsed" where
  "number_field k v = bind_ok (text_field k v) (\<lambda>s. ok_or (NotANumber k) (parse_f64 s))"

text \<open>A number between zero and one; not-a-number is not contained in the range.\<close>

definition unit_field :: "string \<Rightarrow> jvalue \<Rightarrow> f64 parsed" where
  "unit_field k v =
     bind_ok (number_field k v) (\<lambda>x. if fle f0 x \<and> fle x f1 then Inr x else Inl (OutOfRange k))"

text \<open>A size: negative ones are refused, but the comparison lets not-a-number and infinity through.\<close>

definition size_field :: "string \<Rightarrow> jvalue \<Rightarrow> f64 parsed" where
  "size_field k v = bind_ok (number_field k v) (\<lambda>x. if flt x f0 then Inl (Negative k) else Inr x)"

definition side_field :: "string \<Rightarrow> jvalue \<Rightarrow> trade_side parsed" where
  "side_field k v =
     bind_ok (text_field k v) (\<lambda>s. if s = ''BUY'' then Inr TradeBuy else if s = ''SELL'' then Inr TradeSell
       else Inl (InvalidSide s))"

definition timestamp_field :: "jvalue \<Rightarrow> int parsed" where
  "timestamp_field v =
     (case Option.bind (jget ''timestamp'' v) as_str of
        Some s \<Rightarrow> ok_or (NotANumber ''timestamp'') (parse_i64 s)
      | None \<Rightarrow> ok_or (Missing ''timestamp'') (Option.bind (jget ''timestamp'' v) as_i64))"

definition fee_field :: "jvalue \<Rightarrow> 32 word parsed" where
  "fee_field v =
     (case Option.bind (jget ''fee_rate_bps'' v) as_str of
        Some s \<Rightarrow> ok_or (NotANumber ''fee_rate_bps'') (parse_u32 s)
      | None \<Rightarrow> map_sum id ucast (ok_or (Missing ''fee_rate_bps'') (Option.bind (jget ''fee_rate_bps'' v) as_u64)))"

fun parse_all :: "('a \<Rightarrow> 'b parsed) \<Rightarrow> 'a list \<Rightarrow> 'b list parsed" where
  "parse_all f [] = Inr []"
| "parse_all f (x # xs) = bind_ok (f x) (\<lambda>y. bind_ok (parse_all f xs) (\<lambda>ys. Inr (y # ys)))"

section \<open>Messages\<close>

record feed_trade = trade +
  ft_market :: string
  ft_observed_at :: timestamp
  ft_fee_rate_bps :: "32 word"
  ft_metadata :: "json option"

definition parse_last_trade_price :: "(string \<Rightarrow> json option) \<Rightarrow> jvalue \<Rightarrow> timestamp \<Rightarrow> feed_trade parsed" where
  "parse_last_trade_price meta v observed_at =
     bind_ok (text_field ''asset_id'' v) (\<lambda>asset_id.
     bind_ok (text_field ''market'' v) (\<lambda>market.
     bind_ok (unit_field ''price'' v) (\<lambda>price.
     bind_ok (number_field ''size'' v) (\<lambda>sz.
     bind_ok (side_field ''side'' v) (\<lambda>side.
     bind_ok (timestamp_field v) (\<lambda>ts.
     bind_ok (fee_field v) (\<lambda>fee.
     Inr \<lparr>tr_asset_id = asset_id, tr_side = side, tr_price = price, tr_size = sz, tr_timestamp = ts,
          ft_market = market, ft_observed_at = observed_at, ft_fee_rate_bps = fee,
          ft_metadata = meta asset_id\<rparr>)))))))"

record price_change =
  pc_asset_id :: string
  pc_price :: f64
  pc_size :: f64
  pc_side :: trade_side
  pc_hash :: string
  pc_best_bid :: f64
  pc_best_ask :: f64

record price_change_event =
  pe_market :: string
  pe_price_changes :: "price_change list"
  pe_timestamp :: int
  pe_observed_at :: timestamp

definition parse_single_price_change :: "jvalue \<Rightarrow> price_change parsed" where
  "parse_single_price_change v =
     bind_ok (text_field ''asset_id'' v) (\<lambda>asset_id.
     bind_ok (unit_field ''price'' v) (\<lambda>price.
     bind_ok (size_field ''size'' v) (\<lambda>sz.
     bind_ok (side_field ''side'' v) (\<lambda>side.
     bind_ok (text_field ''hash'' v) (\<lambda>hash.
     if hash = [] then Inl (EmptyText ''hash'') else
     bind_ok (unit_field ''best_bid'' v) (\<lambda>best_bid.
     bind_ok (unit_field ''best_ask'' v) (\<lambda>best_ask.
     Inr \<lparr>pc_asset_id = asset_id, pc_price = price, pc_size = sz, pc_side = side, pc_hash = hash,
          pc_best_bid = best_bid, pc_best_ask = best_ask\<rparr>)))))))"

definition parse_price_change :: "jvalue \<Rightarrow> timestamp \<Rightarrow> price_change_event parsed" where
  "parse_price_change v observed_at =
     bind_ok (text_field ''market'' v) (\<lambda>market.
     bind_ok (timestamp_field v) (\<lambda>ts.
     bind_ok (array_field ''price_changes'' v) (\<lambda>vs.
     if vs = [] then Inl (EmptyList ''price_changes'') else
     bind_ok (parse_all parse_single_price_change vs) (\<lambda>changes.
     Inr \<lparr>pe_market = market, pe_price_changes = changes, pe_timestamp = ts, pe_observed_at = observed_at\<rparr>))))"

definition parse_order_summary :: "jvalue \<Rightarrow> order_summary parsed" where
  "parse_order_summary v =
     bind_ok (unit_field ''price'' v) (\<lambda>price.
     bind_ok (size_field ''size'' v) (\<lambda>sz.
     Inr \<lparr>os_price = price, os_size = sz\<rparr>))"

record book_message =
  bm_asset_id :: string
  bm_market :: string
  bm_bids :: "order_summary list"
  bm_asks :: "order_summary list"
  bm_hash :: string
  bm_timestamp :: int
  bm_observed_at :: timestamp

text \<open>The stable sorts compare by \<open>partial_cmp\<close>, as those of the order book tracker.\<close>

definition parse_book :: "jvalue \<Rightarrow> timestamp \<Rightarrow> book_message parsed" where
  "parse_book v observed_at =
     bind_ok (text_field ''asset_id'' v) (\<lambda>asset_id.
     bind_ok (text_field ''market'' v) (\<lambda>market.
     bind_ok (timestamp_field v) (\<lambda>ts.
     bind_ok (text_field ''hash'' v) (\<lambda>hash.
     bind_ok (array_field ''bids'' v) (\<lambda>bvs.
     bind_ok (parse_all parse_order_summary bvs) (\<lambda>bids.
     bind_ok (array_field ''asks'' v) (\<lambda>avs.
     bind_ok (parse_all parse_order_summary avs) (\<lambda>asks.
     Inr \<lparr>bm_asset_id = asset_id, bm_market = market, bm_bids = sort_levels TradeBuy bids,
          bm_asks = sort_levels TradeSell asks, bm_hash = hash, bm_timestamp = ts,
          bm_observed_at = observed_at\<rparr>))))))))"

text \<open>One message of the socket: what it broadcasts, or the label under which the error is counted.\<close>

datatype feed_event = TradeOut feed_trade | PriceChangeOut price_change_event | BookOut book_message

datatype feed_result = Broadcast feed_event | ParseFailed string parse_error | Skipped

definition broadcast :: "string \<Rightarrow> ('a \<Rightarrow> feed_event) \<Rightarrow> 'a parsed \<Rightarrow> feed_result" where
  "broadcast event_type out r = (case r of Inl e \<Rightarrow> ParseFailed event_type e | Inr x \<Rightarrow> Broadcast (out x))"

definition parse_message :: "(string \<Rightarrow> json option) \<Rightarrow> jvalue \<Rightarrow> timestamp \<Rightarrow> feed_result" where
  "parse_message meta v observed_at =
     (let event_type = unwrap_or (Option.bind (jget ''event_type'' v) as_str) ''unknown''
      in if event_type = ''last_trade_price'' then broadcast event_type TradeOut (parse_last_trade_price meta v observed_at)
         else if event_type = ''price_change'' then broadcast event_type PriceChangeOut (parse_price_change v observed_at)
         else if event_type = ''book'' then broadcast event_type BookOut (parse_book v observed_at)
         else Skipped)"

section \<open>What a parsed message holds\<close>

definition in_unit :: "f64 \<Rightarrow> bool" where "in_unit x \<longleftrightarrow> fle f0 x \<and> fle x f1"

lemma in_unit_ordered: "in_unit x \<Longrightarrow> ordered x"
  by (auto simp: in_unit_def ordered_def)

lemma bind_ok_Inr [simp]: "bind_ok r f = Inr y \<longleftrightarrow> (\<exists>x. r = Inr x \<and> f x = Inr y)"
  by (cases r) (simp_all add: bind_ok_def)

lemma if_err [simp]: "(if b then Inl e else r) = Inr y \<longleftrightarrow> \<not> b \<and> r = Inr y"
  by simp

lemma unit_field_Inr: "unit_field k v = Inr x \<longleftrightarrow> number_field k v = Inr x \<and> in_unit x"
  by (auto simp: unit_field_def in_unit_def)

lemma size_field_Inr: "size_field k v = Inr x \<longleftrightarrow> number_field k v = Inr x \<and> \<not> flt x f0"
  by (auto simp: size_field_def)

lemma parse_all_Inr: "parse_all f xs = Inr ys \<Longrightarrow> list_all2 (\<lambda>x y. f x = Inr y) xs ys"
  by (induction xs arbitrary: ys) auto

lemma parse_all_set:
  assumes "parse_all f xs = Inr ys" "\<And>x y. f x = Inr y \<Longrightarrow> P y"
  shows "list_all P ys"
  using parse_all_Inr [OF assms(1)] by (induction rule: list_all2_induct) (simp_all add: assms(2))

lemma parsed_change:
  assumes "parse_single_price_change v = Inr c"
  shows "in_unit (pc_price c) \<and> in_unit (pc_best_bid c) \<and> in_unit (pc_best_ask c) \<and> \<not> flt (pc_size c) f0
    \<and> pc_hash c \<noteq> []"
  using assms by (auto simp: parse_single_price_change_def unit_field_Inr size_field_Inr)

lemma parsed_level: "parse_order_summary v = Inr l \<Longrightarrow> in_unit (os_price l) \<and> \<not> flt (os_size l) f0"
  by (auto simp: parse_order_summary_def unit_field_Inr size_field_Inr)

lemma parsed_changes:
  assumes "parse_price_change v now = Inr ev"
  shows "pe_price_changes ev \<noteq> [] \<and> list_all (\<lambda>c. in_unit (pc_price c) \<and> in_unit (pc_best_bid c)
    \<and> in_unit (pc_best_ask c) \<and> \<not> flt (pc_size c) f0 \<and> pc_hash c \<noteq> []) (pe_price_changes ev)"
proof -
  from assms obtain vs changes where vs: "vs \<noteq> []" "parse_all parse_single_price_change vs = Inr changes"
    "pe_price_changes ev = changes" by (auto simp: parse_price_change_def)
  then have "changes \<noteq> []" using list_all2_lengthD [OF parse_all_Inr [OF vs(2)]] by auto
  with vs parse_all_set [OF vs(2) parsed_change] show ?thesis by simp
qed

lemma parsed_book:
  assumes "parse_book v now = Inr b"
  shows "list_all (\<lambda>l. in_unit (os_price l) \<and> \<not> flt (os_size l) f0) (bm_bids b @ bm_asks b)
    \<and> best_first TradeBuy (bm_bids b) \<and> best_first TradeSell (bm_asks b)"
proof -
  from assms obtain bvs bids avs asks where b: "parse_all parse_order_summary bvs = Inr bids"
    "parse_all parse_order_summary avs = Inr asks"
    "bm_bids b = sort_levels TradeBuy bids" "bm_asks b = sort_levels TradeSell asks"
    by (auto simp: parse_book_def)
  have levels: "list_all (\<lambda>l. in_unit (os_price l) \<and> \<not> flt (os_size l) f0) bids"
    "list_all (\<lambda>l. in_unit (os_price l) \<and> \<not> flt (os_size l) f0) asks"
    by (rule parse_all_set [OF b(1)], rule parsed_level, assumption, rule parse_all_set [OF b(2)], rule parsed_level, assumption)
  then have "priced bids" "priced asks" by (auto simp: list_all_iff in_unit_ordered)
  with levels b(3,4) best_first_sort show ?thesis by simp
qed

section \<open>Reading back what was written\<close>

text \<open>A reference writer: decimals with \<open>k\<close> digits after the point, and books and price changes with them.\<close>

fun low_digits :: "nat \<Rightarrow> nat \<Rightarrow> string" where
  "low_digits 0 n = []"
| "low_digits (Suc k) n = low_digits k (n div 10) @ [char_of (48 + n mod 10)]"

definition decimal_text :: "nat \<Rightarrow> nat \<Rightarrow> nat \<Rightarrow> string" where
  "decimal_text w k n = low_digits w (n div 10 ^ k) @ CHR ''.'' # low_digits k n"

lemma digits_value_append: "digits_value (s @ [c]) = 10 * digits_value s + (of_char c - 48)"
  by (simp add: digits_value_def)

lemma low_digits_props: "list_all is_digit (low_digits k n) \<and> length (low_digits k n) = k
    \<and> digits_value (low_digits k n) = n mod 10 ^ k"
proof (induction k arbitrary: n)
  case (Suc k)
  have "is_digit (char_of (48 + n mod 10))" "of_char (char_of (48 + n mod 10) :: char) = 48 + n mod 10"
    by (simp_all add: is_digit_def of_char_of)
  moreover have "10 * (n div 10 mod 10 ^ k) + n mod 10 = n mod 10 ^ Suc k"
    by (simp add: mod_mult2_eq)
  ultimately show ?case using Suc [of "n div 10"] by (simp add: digits_value_append)
qed (simp add: digits_value_def)

lemma digits_span:
  assumes "list_all is_digit ds"
  shows "takeWhile is_digit ds = ds" "dropWhile is_digit ds = []"
  using assms by (simp_all add: list_all_iff)

lemma low_digits_append: "low_digits w (n div 10 ^ k) @ low_digits k n = low_digits (w + k) n"
proof (induction k arbitrary: n)
  case (Suc k)
  have "n div 10 ^ Suc k = n div 10 div 10 ^ k" by (simp add: div_mult2_eq)
  then show ?case using Suc [of "n div 10"] by simp
qed simp

lemma parse_decimal_text:
  assumes "0 < w" "n < 10 ^ (w + k)"
  shows "parse_f64 (decimal_text w k n) = Some (f_of (of_nat n / 10 ^ k))"
proof -
  let ?is = "low_digits w (n div 10 ^ k)" and ?ds = "low_digits k n"
  have is_prop: "list_all is_digit ?is" "length ?is = w" and ds_prop: "list_all is_digit ?ds" "length ?ds = k"
    using low_digits_props by blast+
  have point: "\<not> is_digit CHR ''.''" by (simp add: is_digit_def)
  have val: "digits_value (?is @ ?ds) = n"
    using low_digits_props [of "w + k" n] assms(2) by (simp add: low_digits_append)
  have first: "takeWhile is_digit (decimal_text w k n) = ?is" "dropWhile is_digit (decimal_text w k n) = CHR ''.'' # ?ds"
    using is_prop(1) point by (simp_all add: decimal_text_def takeWhile_append2 dropWhile_append2 list_all_iff)
  have "parse_decimal (decimal_text w k n) = Some (of_nat n * 10 powi (- int k))"
    using is_prop ds_prop assms(1) by (auto simp: parse_decimal_def Let_def first digits_span val parse_exponent_def)
  moreover have "(of_nat n :: rat) * 10 powi (- int k) = of_nat n / 10 ^ k"
    by (simp add: power_int_minus divide_inverse)
  ultimately have "parse_decimal (decimal_text w k n) = Some (of_nat n / 10 ^ k)" by simp
  moreover have "split_sign (decimal_text w k n) = (False, decimal_text w k n)"
  proof (cases ?is)
    case (Cons c cs)
    then have "is_digit c" using is_prop(1) by simp
    then have "c \<noteq> CHR ''-''" "c \<noteq> CHR ''+''" by (auto simp: is_digit_def)
    then show ?thesis using Cons by (simp add: split_sign_def decimal_text_def)
  qed (use is_prop assms(1) in simp)
  moreover have "CHR ''.'' \<in> set (map lower (decimal_text w k n))"
    by (auto simp: decimal_text_def lower_def)
  then have "map lower (decimal_text w k n) \<notin> {''nan'', ''inf'', ''infinity''}" by auto
  ultimately show ?thesis by (simp add: parse_f64_def)
qed

text \<open>Numbers of thousandths, below a million.\<close>

definition units :: "nat \<Rightarrow> f64" where "units n = f_of (of_nat n / 1000)"

definition write_units :: "nat \<Rightarrow> jvalue" where "write_units n = JString (decimal_text 6 3 n)"

lemma read_units: "jget k v = Some (write_units n) \<Longrightarrow> n < 10 ^ 9 \<Longrightarrow> number_field k v = Inr (units n)"
  using parse_decimal_text [of 6 n 3]
  by (simp add: number_field_def text_field_def write_units_def units_def ok_or_def bind_ok_def)

lemma units_nonneg: "\<not> flt (units n) f0"
proof -
  have "fle f0 x \<Longrightarrow> \<not> flt x f0" for x by (cases x) (auto simp: f0_def)
  then show ?thesis using f_of_nonneg [of "of_nat n / 1000"] by (simp add: units_def)
qed

lemma units_in_unit: "n \<le> 1000 \<Longrightarrow> in_unit (units n)"
  using f_of_between [of 1 "of_nat n / 1000"] f64_ok_consts
  by (simp add: units_def in_unit_def f0_def f1_def)

fun write_side :: "trade_side \<Rightarrow> jvalue" where
  "write_side TradeBuy = JString ''BUY''"
| "write_side TradeSell = JString ''SELL''"

record quoted_change =
  qc_asset_id :: string
  qc_price :: nat
  qc_size :: nat
  qc_side :: trade_side
  qc_hash :: string
  qc_best_bid :: nat
  qc_best_ask :: nat

definition write_change :: "quoted_change \<Rightarrow> jvalue" where
  "write_change q = JObject [(''asset_id'', JString (qc_asset_id q)), (''price'', write_units (qc_price q)),
     (''size'', write_units (qc_size q)), (''side'', write_side (qc_side q)), (''hash'', JString (qc_hash q)),
     (''best_bid'', write_units (qc_best_bid q)), (''best_ask'', write_units (qc_best_ask q))]"

definition change_of :: "quoted_change \<Rightarrow> price_change" where
  "change_of q = \<lparr>pc_asset_id = qc_asset_id q, pc_price = units (qc_price q), pc_size = units (qc_size q),
     pc_side = qc_side q, pc_hash = qc_hash q, pc_best_bid = units (qc_best_bid q), pc_best_ask = units (qc_best_ask q)\<rparr>"

definition quoted_ok :: "quoted_change \<Rightarrow> bool" where
  "quoted_ok q \<longleftrightarrow> qc_price q \<le> 1000 \<and> qc_best_bid q \<le> 1000 \<and> qc_best_ask q \<le> 1000 \<and> qc_size q < 10 ^ 9 \<and> qc_hash q \<noteq> []"

lemma read_change:
  assumes "quoted_ok q"
  shows "parse_single_price_change (write_change q) = Inr (change_of q)"
proof -
  let ?v = "write_change q"
  have bounds: "qc_price q < 10 ^ 9" "qc_best_bid q < 10 ^ 9" "qc_best_ask q < 10 ^ 9" "qc_size q < 10 ^ 9"
    using assms by (auto simp: quoted_ok_def)
  have "jget ''price'' ?v = Some (write_units (qc_price q))" "jget ''size'' ?v = Some (write_units (qc_size q))"
    "jget ''best_bid'' ?v = Some (write_units (qc_best_bid q))" "jget ''best_ask'' ?v = Some (write_units (qc_best_ask q))"
    by (simp_all add: write_change_def)
  note fields = this [THEN read_units]
  have "unit_field ''price'' ?v = Inr (units (qc_price q))" "unit_field ''best_bid'' ?v = Inr (units (qc_best_bid q))"
    "unit_field ''best_ask'' ?v = Inr (units (qc_best_ask q))" "size_field ''size'' ?v = Inr (units (qc_size q))"
    using fields bounds assms by (simp_all add: unit_field_Inr size_field_Inr units_in_unit units_nonneg quoted_ok_def)
  moreover have "text_field ''asset_id'' ?v = Inr (qc_asset_id q)" "text_field ''hash'' ?v = Inr (qc_hash q)"
    "side_field ''side'' ?v = Inr (qc_side q)"
    by (cases "qc_side q"; simp add: write_change_def text_field_def side_field_def ok_or_def bind_ok_def)+
  ultimately show ?thesis
    using assms by (simp add: parse_single_price_change_def change_of_def quoted_ok_def bind_ok_def)
qed

definition write_changes :: "string \<Rightarrow> int \<Rightarrow> quoted_change list \<Rightarrow> jvalue" where
  "write_changes market ts qs = JObject [(''event_type'', JString ''price_change''), (''market'', JString market),
     (''timestamp'', JNumber (if 0 \<le> ts then PosInt (of_int ts) else NegInt ts)),
     (''price_changes'', JArray (map write_change qs))]"

lemma read_changes: "list_all quoted_ok qs \<Longrightarrow> parse_all parse_single_price_change (map write_change qs) = Inr (map change_of qs)"
  by (induction qs) (simp_all add: read_change bind_ok_def)

text \<open>C12. A price change message that is written with decimals of three digits is read back exactly: every
  change in its order with the nearest binary numbers of its prices and size.\<close>

theorem price_change_roundtrip:
  assumes "list_all quoted_ok qs" "qs \<noteq> []" "- (2 ^ 63) \<le> ts" "ts < 2 ^ 63"
  shows "parse_message meta (write_changes market ts qs) observed_at =
    Broadcast (PriceChangeOut \<lparr>pe_market = market, pe_price_changes = map change_of qs, pe_timestamp = ts,
      pe_observed_at = observed_at\<rparr>)"
proof -
  let ?v = "write_changes market ts qs"
  have "timestamp_field ?v = Inr ts"
    using assms(3,4) by (auto simp: timestamp_field_def write_changes_def ok_or_def uint_word_of_int take_bit_eq_mod)
  moreover have "text_field ''market'' ?v = Inr market" "array_field ''price_changes'' ?v = Inr (map write_change qs)"
    by (simp_all add: write_changes_def text_field_def array_field_def ok_or_def)
  ultimately have "parse_price_change ?v observed_at = Inr \<lparr>pe_market = market, pe_price_changes = map change_of qs,
      pe_timestamp = ts, pe_observed_at = observed_at\<rparr>"
    using assms(1,2) by (simp add: parse_price_change_def read_changes bind_ok_def)
  moreover have "Option.bind (jget ''event_type'' ?v) as_str = Some ''price_change''" by (simp add: write_changes_def)
  ultimately show ?thesis by (simp add: parse_message_def broadcast_def Let_def)
qed

definition demo_quoted :: quoted_change where
  "demo_quoted = \<lparr>qc_asset_id = ''A'', qc_price = 520, qc_size = 150500, qc_side = TradeBuy, qc_hash = ''0x12'',
     qc_best_bid = 520, qc_best_ask = 530\<rparr>"

theorem price_change_roundtrip_witness:
  "parse_message (\<lambda>a. None) (write_changes ''M'' 1699564800123 [demo_quoted]) 0 =
    Broadcast (PriceChangeOut \<lparr>pe_market = ''M'', pe_price_changes = [change_of demo_quoted],
      pe_timestamp = 1699564800123, pe_observed_at = 0\<rparr>)"
  using price_change_roundtrip [of "[demo_quoted]" 1699564800123 "\<lambda>a. None" "''M''" 0]
  by (simp add: quoted_ok_def demo_quoted_def)

text \<open>A size that is not a number is accepted in a price change and in a level of a book; the size of a
  trade is not looked at at all.\<close>

lemma nan_size_accepted:
  assumes "n \<le> 1000"
  shows "parse_order_summary (JObject [(''price'', write_units n), (''size'', JString ''nan'')]) =
    Inr \<lparr>os_price = units n, os_size = NaN\<rparr>"
proof -
  let ?v = "JObject [(''price'', write_units n), (''size'', JString ''nan'')]"
  have "number_field ''price'' ?v = Inr (units n)" using assms by (intro read_units) simp_all
  moreover have "parse_f64 ''nan'' = Some NaN" by (simp add: parse_f64_def split_sign_def lower_def)
  then have "number_field ''size'' ?v = Inr NaN" by (simp add: number_field_def text_field_def ok_or_def bind_ok_def)
  ultimately have "unit_field ''price'' ?v = Inr (units n)" "size_field ''size'' ?v = Inr NaN"
    using assms by (simp_all add: unit_field_Inr size_field_Inr units_in_unit)
  then show ?thesis by (simp add: parse_order_summary_def bind_ok_def)
qed

lemma trade_size_unchecked:
  assumes "parse_last_trade_price meta (JObject kvs) now = Inr t" "parse_f64 z = Some x"
  shows "parse_last_trade_price meta (JObject ((''size'', JString z) # kvs)) now = Inr (t\<lparr>tr_size := x\<rparr>)"
proof -
  let ?v = "JObject kvs" and ?w = "JObject ((''size'', JString z) # kvs)"
  have tf: "text_field k ?w = text_field k ?v" if "k \<noteq> ''size''" for k using that by (simp add: text_field_def)
  have same: "text_field ''asset_id'' ?w = text_field ''asset_id'' ?v" "text_field ''market'' ?w = text_field ''market'' ?v"
    "unit_field ''price'' ?w = unit_field ''price'' ?v" "side_field ''side'' ?w = side_field ''side'' ?v"
    "timestamp_field ?w = timestamp_field ?v" "fee_field ?w = fee_field ?v"
    by (simp_all add: tf unit_field_def number_field_def side_field_def timestamp_field_def fee_field_def split: option.split)
  have "number_field ''size'' ?w = Inr x" using assms(2) by (simp add: number_field_def text_field_def ok_or_def bind_ok_def)
  moreover obtain a m p y s ts fee where "text_field ''asset_id'' ?v = Inr a" "text_field ''market'' ?v = Inr m"
    "unit_field ''price'' ?v = Inr p" "number_field ''size'' ?v = Inr y" "side_field ''side'' ?v = Inr s"
    "timestamp_field ?v = Inr ts" "fee_field ?v = Inr fee"
    "t = \<lparr>tr_asset_id = a, tr_side = s, tr_price = p, tr_size = y, tr_timestamp = ts, ft_market = m,
          ft_observed_at = now, ft_fee_rate_bps = fee, ft_metadata = meta a\<rparr>"
    using assms(1) unfolding parse_last_trade_price_def bind_ok_Inr by (elim exE conjE) simp
  ultimately show ?thesis by (simp add: parse_last_trade_price_def same bind_ok_def)
qed

end
