(* ===== verification/Feed_Publisher.thy ===== *)
theory Feed_Publisher
  imports Feed_Parser Machine "HOL-Library.Multiset" "HOL-Library.Sublist"
begin

text \<open>
  The publisher of order books, \<open>tx-sub/crates/polymarket-sub/src/redis_orderbook_publisher.rs\<close>: parsed
  price changes and books become events that are sent to Redis; updates that could not be sent wait in a
  bounded buffer.  Whether the \<open>n\<close>-th attempt to send reaches any of the targets is an argument, \<open>up n\<close>; the
  state keeps what was sent in its order.  Each branch of the select loop is one step, as nothing else
  changes the buffer; the shutdown flushes twice more, as two ticks do.  The metadata of an update is not kept,
  as the server does not read it.  The counters and gauges are left out.
\<close>

section \<open>The state\<close>

datatype market_event = BookSent book_snapshot | UpdateSent book_update

record publisher =
  pu_buffer :: "book_update list"
  pu_sent :: "market_event list"
  pu_attempts :: nat
  pu_dropped :: "book_update list"

definition publisher_new :: publisher where
  "publisher_new = \<lparr>pu_buffer = [], pu_sent = [], pu_attempts = 0, pu_dropped = []\<rparr>"

definition buffer_max :: nat where "buffer_max = 1000"
definition flush_limit :: nat where "flush_limit = 100"

section \<open>Sending\<close>

text \<open>An event counts as sent when at least one of the targets took it.\<close>

definition publish_market_event :: "bool list \<Rightarrow> bool" where
  "publish_market_event results \<longleftrightarrow> list_ex (\<lambda>r. r) results \<or> results = []"

definition publish_event :: "(nat \<Rightarrow> bool) \<Rightarrow> market_event \<Rightarrow> publisher \<Rightarrow> bool \<times> publisher" where
  "publish_event up ev p =
     (let p1 = p\<lparr>pu_attempts := Suc (pu_attempts p)\<rparr>
      in if up (pu_attempts p) then (True, p1\<lparr>pu_sent := pu_sent p @ [ev]\<rparr>) else (False, p1))"

text \<open>\<open>flush_buffer\<close> with the number of events it may still send.\<close>

primrec flush :: "(nat \<Rightarrow> bool) \<Rightarrow> nat \<Rightarrow> publisher \<Rightarrow> publisher" where
  "flush up 0 p = p"
| "flush up (Suc n) p =
     (case pu_buffer p of
        [] \<Rightarrow> p
      | u # us \<Rightarrow>
          (case publish_event up (UpdateSent u) p of
             (False, p') \<Rightarrow> p'
           | (True, p') \<Rightarrow> flush up n (p'\<lparr>pu_buffer := us\<rparr>)))"

definition flush_buffer :: "(nat \<Rightarrow> bool) \<Rightarrow> publisher \<Rightarrow> publisher" where
  "flush_buffer up p = flush up flush_limit p"

definition flush_if_any :: "(nat \<Rightarrow> bool) \<Rightarrow> publisher \<Rightarrow> publisher" where
  "flush_if_any up p = (if pu_buffer p = [] then p else flush_buffer up p)"

text \<open>A full buffer loses its oldest update.\<close>

definition buffer_update :: "book_update \<Rightarrow> publisher \<Rightarrow> publisher" where
  "buffer_update u p =
     (if buffer_max \<le> length (pu_buffer p)
      then p\<lparr>pu_buffer := tl (pu_buffer p) @ [u], pu_dropped := pu_dropped p @ [hd (pu_buffer p)]\<rparr>
      else p\<lparr>pu_buffer := pu_buffer p @ [u]\<rparr>)"

definition publish_update :: "(nat \<Rightarrow> bool) \<Rightarrow> publisher \<Rightarrow> book_update \<Rightarrow> publisher" where
  "publish_update up p u =
     (case publish_event up (UpdateSent u) p of (True, p') \<Rightarrow> p' | (False, p') \<Rightarrow> buffer_update u p')"

section \<open>Events\<close>

definition update_of :: "price_change_event \<Rightarrow> price_change \<Rightarrow> book_update" where
  "update_of ev c =
     \<lparr>bu_asset_id = pc_asset_id c, bu_market = pe_market ev, bu_price = pc_price c, bu_size = pc_size c,
      bu_side = pc_side c, bu_hash = pc_hash c, bu_best_bid = pc_best_bid c, bu_best_ask = pc_best_ask c,
      bu_timestamp = pe_timestamp ev, bu_observed_at = pe_observed_at ev\<rparr>"

definition snapshot_of :: "(string \<Rightarrow> json option) \<Rightarrow> book_message \<Rightarrow> book_snapshot" where
  "snapshot_of meta b =
     \<lparr>bk_asset_id = bm_asset_id b, bk_market = bm_market b, bk_bids = bm_bids b, bk_asks = bm_asks b,
      bk_hash = bm_hash b, bk_timestamp = bm_timestamp b, bk_metadata = meta (bm_asset_id b),
      bk_observed_at = bm_observed_at b\<rparr>"

datatype publisher_op = OnPriceChange price_change_event | OnBook "string \<Rightarrow> json option" book_message | OnTick

fun publisher_step :: "(nat \<Rightarrow> bool) \<Rightarrow> publisher \<Rightarrow> publisher_op \<Rightarrow> publisher" where
  "publisher_step up p (OnPriceChange ev) =
     foldl (publish_update up) (flush_if_any up p) (map (update_of ev) (pe_price_changes ev))"
| "publisher_step up p (OnBook meta b) = snd (publish_event up (BookSent (snapshot_of meta b)) p)"
| "publisher_step up p OnTick = flush_if_any up p"

definition publisher_run :: "(nat \<Rightarrow> bool) \<Rightarrow> publisher_op list \<Rightarrow> publisher" where
  "publisher_run up ops = foldl (publisher_step up) publisher_new ops"

section \<open>Nothing is lost silently\<close>

fun updates_of_op :: "publisher_op \<Rightarrow> book_update list" where
  "updates_of_op (OnPriceChange ev) = map (update_of ev) (pe_price_changes ev)"
| "updates_of_op op = []"

fun books_of_op :: "publisher_op \<Rightarrow> book_snapshot list" where
  "books_of_op (OnBook meta b) = [snapshot_of meta b]"
| "books_of_op op = []"

definition sent_updates :: "publisher \<Rightarrow> book_update list" where
  "sent_updates p = List.map_filter (\<lambda>ev. case ev of UpdateSent u \<Rightarrow> Some u | BookSent b \<Rightarrow> None) (pu_sent p)"

definition sent_books :: "publisher \<Rightarrow> book_snapshot list" where
  "sent_books p = List.map_filter (\<lambda>ev. case ev of UpdateSent u \<Rightarrow> None | BookSent b \<Rightarrow> Some b) (pu_sent p)"

lemma sent_simps [simp]:
  "sent_updates (p\<lparr>pu_sent := pu_sent p @ [UpdateSent u]\<rparr>) = sent_updates p @ [u]"
  "sent_updates (p\<lparr>pu_sent := pu_sent p @ [BookSent b]\<rparr>) = sent_updates p"
  "sent_books (p\<lparr>pu_sent := pu_sent p @ [UpdateSent u]\<rparr>) = sent_books p"
  "sent_books (p\<lparr>pu_sent := pu_sent p @ [BookSent b]\<rparr>) = sent_books p @ [b]"
  "sent_updates (p\<lparr>pu_buffer := x\<rparr>) = sent_updates p" "sent_books (p\<lparr>pu_buffer := x\<rparr>) = sent_books p"
  "sent_updates (p\<lparr>pu_attempts := n\<rparr>) = sent_updates p" "sent_books (p\<lparr>pu_attempts := n\<rparr>) = sent_books p"
  "sent_updates (p\<lparr>pu_dropped := x\<rparr>) = sent_updates p" "sent_books (p\<lparr>pu_dropped := x\<rparr>) = sent_books p"
  by (simp_all add: sent_updates_def sent_books_def List.map_filter_def)

text \<open>The updates that a publisher has been given are the sent, the waiting and the dropped ones; the ones
  that are not sent keep their order.\<close>

definition given :: "book_update list \<Rightarrow> book_snapshot list \<Rightarrow> publisher \<Rightarrow> bool" where
  "given us bs p \<longleftrightarrow>
     mset (sent_updates p) + mset (pu_dropped p @ pu_buffer p) = mset us
     \<and> subseq (pu_dropped p @ pu_buffer p) us \<and> subseq (sent_books p) bs \<and> length (pu_buffer p) \<le> buffer_max"

lemma given_attempt [simp]: "given us bs (p\<lparr>pu_attempts := n\<rparr>) = given us bs p"
  by (simp add: given_def)

lemma given_flush: "given us bs p \<Longrightarrow> given us bs (flush up n p)"
proof (induction n arbitrary: p)
  case (Suc n)
  show ?case
  proof (cases "pu_buffer p")
    case (Cons u rest)
    have "subseq (pu_dropped p @ rest) (pu_dropped p @ u # rest)"
      by (rule list_emb_append_mono) (simp_all add: list_emb_Cons)
    then have "given us bs (p\<lparr>pu_attempts := Suc (pu_attempts p), pu_sent := pu_sent p @ [UpdateSent u], pu_buffer := rest\<rparr>)"
      using Suc.prems Cons sent_simps(1) [of "p\<lparr>pu_attempts := Suc (pu_attempts p)\<rparr>" u]
        sent_simps(3) [of "p\<lparr>pu_attempts := Suc (pu_attempts p)\<rparr>" u]
      by (auto simp: given_def intro: subseq_order.trans)
    then show ?thesis using Suc Cons by (simp add: publish_event_def Let_def)
  qed (use Suc.prems in simp)
qed simp

lemma given_update:
  assumes "given us bs p"
  shows "given (us @ [u]) bs (publish_update up p u)"
proof -
  let ?p = "p\<lparr>pu_attempts := Suc (pu_attempts p)\<rparr>"
  have p: "given us bs ?p" using assms by simp
  show ?thesis
  proof (cases "up (pu_attempts p)")
    case True
    have "subseq (pu_dropped p @ pu_buffer p) (us @ [u])"
      using assms subseq_order.trans list_emb_prefix unfolding given_def by blast
    then show ?thesis
      using True assms sent_simps(1) [of ?p u] sent_simps(3) [of ?p u]
      by (simp add: publish_update_def publish_event_def given_def Let_def)
  next
    case False
    have "subseq (pu_dropped p @ pu_buffer p @ [u]) (us @ [u])"
      using assms unfolding given_def by (metis append_assoc list_emb_append_mono subseq_order.order_refl)
    then have "given (us @ [u]) bs (buffer_update u ?p)"
      using assms by (cases "pu_buffer p") (auto simp: given_def buffer_update_def buffer_max_def)
    then show ?thesis using False by (simp add: publish_update_def publish_event_def Let_def)
  qed
qed

lemma given_updates: "given us bs p \<Longrightarrow> given (us @ vs) bs (foldl (publish_update up) p vs)"
proof (induction vs arbitrary: p us)
  case (Cons v vs)
  from Cons.IH [OF given_update [OF Cons.prems]] show ?case by simp
qed simp

lemma given_step:
  assumes "given us bs p"
  shows "given (us @ updates_of_op x) (bs @ books_of_op x) (publisher_step up p x)"
proof (cases x)
  case (OnPriceChange ev)
  have "given us bs (flush_if_any up p)" using assms given_flush by (simp add: flush_if_any_def flush_buffer_def)
  from given_updates [OF this] OnPriceChange show ?thesis by simp
next
  case (OnBook meta b)
  let ?p = "p\<lparr>pu_attempts := Suc (pu_attempts p)\<rparr>"
  have "subseq (sent_books p) (bs @ [c])" "subseq (sent_books p @ [c]) (bs @ [c])" for c
    using assms subseq_order.trans list_emb_prefix unfolding given_def
    by (blast, metis list_emb_append_mono subseq_order.order_refl)
  then show ?thesis
    using OnBook assms sent_simps(2) [of ?p] sent_simps(4) [of ?p]
    by (simp add: publish_event_def given_def Let_def)
next
  case OnTick
  then show ?thesis using assms given_flush by (simp add: flush_if_any_def flush_buffer_def)
qed

lemma run_given: "given (concat (map updates_of_op ops)) (concat (map books_of_op ops)) (publisher_run up ops)"
proof (induction ops rule: rev_induct)
  case Nil
  show ?case by (simp add: publisher_run_def publisher_new_def given_def sent_updates_def sent_books_def List.map_filter_def)
next
  case (snoc x ops)
  from given_step [OF this, of x up] show ?case by (simp add: publisher_run_def)
qed

section \<open>Order\<close>

fun outputs_of_op :: "publisher_op \<Rightarrow> market_event list" where
  "outputs_of_op (OnPriceChange ev) = map (\<lambda>c. UpdateSent (update_of ev c)) (pe_price_changes ev)"
| "outputs_of_op (OnBook meta b) = [BookSent (snapshot_of meta b)]"
| "outputs_of_op OnTick = []"

abbreviation always :: "nat \<Rightarrow> bool" where "always \<equiv> (\<lambda>_. True)"

lemma updates_no_outage:
  "\<exists>n. foldl (publish_update always) p us = p\<lparr>pu_sent := pu_sent p @ map UpdateSent us, pu_attempts := n\<rparr>"
proof (induction us arbitrary: p)
  case Nil
  show ?case by (rule exI [of _ "pu_attempts p"]) simp
next
  case (Cons u us)
  show ?case using Cons [of "p\<lparr>pu_attempts := Suc (pu_attempts p), pu_sent := pu_sent p @ [UpdateSent u]\<rparr>"]
    by (auto simp: publish_update_def publish_event_def Let_def)
qed

lemma no_outage_in_order:
  "pu_sent (publisher_run always ops) = concat (map outputs_of_op ops) \<and> pu_buffer (publisher_run always ops) = []
    \<and> pu_dropped (publisher_run always ops) = []"
proof (induction ops rule: rev_induct)
  case Nil
  show ?case by (simp add: publisher_run_def publisher_new_def)
next
  case (snoc x ops)
  let ?p = "publisher_run always ops"
  have run: "publisher_run always (ops @ [x]) = publisher_step always ?p x" by (simp add: publisher_run_def)
  have idle: "flush_if_any always ?p = ?p" using snoc by (simp add: flush_if_any_def)
  show ?case
  proof (cases x)
    case (OnPriceChange ev)
    obtain n where "foldl (publish_update always) ?p (map (update_of ev) (pe_price_changes ev)) =
        ?p\<lparr>pu_sent := pu_sent ?p @ map UpdateSent (map (update_of ev) (pe_price_changes ev)), pu_attempts := n\<rparr>"
      using updates_no_outage by blast
    with run idle snoc OnPriceChange show ?thesis by simp
  qed (use run idle snoc in \<open>simp_all add: publish_event_def Let_def\<close>)
qed

lemma flush_all_up:
  assumes "n \<le> length (pu_buffer p)"
  shows "\<exists>k. flush always n p = p\<lparr>pu_sent := pu_sent p @ map UpdateSent (take n (pu_buffer p)),
    pu_buffer := drop n (pu_buffer p), pu_attempts := k\<rparr>"
  using assms
proof (induction n arbitrary: p)
  case 0
  show ?case by (rule exI [of _ "pu_attempts p"]) simp
next
  case (Suc n)
  then obtain u us where u: "pu_buffer p = u # us" "n \<le> length us" by (cases "pu_buffer p") auto
  let ?p = "p\<lparr>pu_attempts := Suc (pu_attempts p), pu_sent := pu_sent p @ [UpdateSent u], pu_buffer := us\<rparr>"
  have "flush always (Suc n) p = flush always n ?p" using u by (simp add: publish_event_def Let_def)
  then show ?case using Suc.IH [of ?p] u by auto
qed

text \<open>After an outage the buffer is flushed by a hundred updates at a time, and the update that triggered the
  flush is sent before the ones that still wait.\<close>

lemma newer_update_overtakes:
  assumes "flush_limit < length (pu_buffer p)" "pe_price_changes ev = [c]"
  shows "\<exists>k. publisher_step always p (OnPriceChange ev) =
    p\<lparr>pu_sent := pu_sent p @ map UpdateSent (take flush_limit (pu_buffer p)) @ [UpdateSent (update_of ev c)],
      pu_buffer := drop flush_limit (pu_buffer p), pu_attempts := k\<rparr>"
proof -
  obtain k where "flush_buffer always p = p\<lparr>pu_sent := pu_sent p @ map UpdateSent (take flush_limit (pu_buffer p)),
      pu_buffer := drop flush_limit (pu_buffer p), pu_attempts := k\<rparr>"
    using flush_all_up [of flush_limit p] assms(1) by (auto simp: flush_buffer_def)
  moreover have "pu_buffer p \<noteq> []" using assms(1) by auto
  ultimately show ?thesis
    using assms(2) by (intro exI [of _ "Suc k"]) (simp add: flush_if_any_def publish_update_def publish_event_def Let_def)
qed

section \<open>From the socket to the books\<close>

text \<open>What reaches the publisher comes from the parser, in any order and however often.\<close>

fun parsed_op :: "publisher_op \<Rightarrow> bool" where
  "parsed_op (OnPriceChange ev) = (\<exists>v now. parse_price_change v now = Inr ev)"
| "parsed_op (OnBook meta b) = (\<exists>v now. parse_book v now = Inr b)"
| "parsed_op OnTick = True"

text \<open>What the server makes of a received event.\<close>

fun received :: "market_event \<Rightarrow> tracker_op" where
  "received (BookSent b) = Snapshot b"
| "received (UpdateSent u) = Update u"

abbreviation unit_prices :: "order_summary list \<Rightarrow> bool" where
  "unit_prices ls \<equiv> list_all (\<lambda>l. in_unit (os_price l)) ls"

fun feed_ok :: "market_event \<Rightarrow> bool" where
  "feed_ok (BookSent b) = (book_ok b \<and> unit_prices (bk_bids b) \<and> unit_prices (bk_asks b))"
| "feed_ok (UpdateSent u) = (in_unit (bu_price u) \<and> in_unit (bu_best_bid u) \<and> in_unit (bu_best_ask u))"

lemma parsed_outputs:
  assumes "parsed_op x"
  shows "list_all (\<lambda>u. feed_ok (UpdateSent u)) (updates_of_op x) \<and> list_all (\<lambda>b. feed_ok (BookSent b)) (books_of_op x)"
proof (cases x)
  case (OnPriceChange ev)
  then obtain v now where "parse_price_change v now = Inr ev" using assms by auto
  from parsed_changes [OF this] OnPriceChange show ?thesis by (auto simp: list_all_iff update_of_def)
next
  case (OnBook meta b)
  then obtain v now where "parse_book v now = Inr b" using assms by auto
  from parsed_book [OF this] OnBook show ?thesis
    by (auto simp: list_all_iff snapshot_of_def book_ok_def side_ok_def in_unit_ordered)
qed simp

lemma sent_ok:
  assumes "list_all parsed_op ops" "ev \<in> set (pu_sent (publisher_run up ops))"
  shows "feed_ok ev"
proof -
  note run = run_given [of ops up, unfolded given_def]
  have outputs: "u \<in> set (concat (map updates_of_op ops)) \<Longrightarrow> feed_ok (UpdateSent u)"
    "b \<in> set (concat (map books_of_op ops)) \<Longrightarrow> feed_ok (BookSent b)" for u b
    using assms(1) parsed_outputs by (fastforce simp: list_all_iff)+
  show ?thesis
  proof (cases ev)
    case (UpdateSent u)
    then have "u \<in> set (sent_updates (publisher_run up ops))"
      using assms(2) by (auto simp: sent_updates_def List.map_filter_def intro!: image_eqI [of _ _ ev])
    moreover have "set_mset (mset (concat (map updates_of_op ops))) =
        set_mset (mset (sent_updates (publisher_run up ops)) + mset (pu_dropped (publisher_run up ops) @ pu_buffer (publisher_run up ops)))"
      using run by simp
    ultimately have "u \<in> set (concat (map updates_of_op ops))" by (simp only: set_mset_mset set_mset_union) blast
    then show ?thesis using outputs(1) UpdateSent by blast
  next
    case (BookSent b)
    then have "b \<in> set (sent_books (publisher_run up ops))"
      using assms(2) by (auto simp: sent_books_def List.map_filter_def intro!: image_eqI [of _ _ ev])
    moreover have "subseq (sent_books (publisher_run up ops)) (concat (map books_of_op ops))" using run by blast
    ultimately have "b \<in> set (concat (map books_of_op ops))" by (auto dest: list_emb_set)
    then show ?thesis using outputs(2) BookSent by blast
  qed
qed

lemma received_iff [simp]:
  "received ev = Snapshot b \<longleftrightarrow> ev = BookSent b" "Snapshot b = received ev \<longleftrightarrow> ev = BookSent b"
  "received ev = Update u \<longleftrightarrow> ev = UpdateSent u" "Update u = received ev \<longleftrightarrow> ev = UpdateSent u"
  "received ev \<noteq> Evict" "Evict \<noteq> received ev"
  by (cases ev; auto)+

lemma unit_map: "unit_prices ls = list_all in_unit (map os_price ls)"
  by (simp add: list_all_iff)

lemma unit_update:
  assumes "unit_prices ls" "in_unit price"
  shows "unit_prices (apply_level_update side price sz ls)"
proof -
  have "unit_prices (resize_level price sz ls)" using assms(1) unfolding unit_map resize_prices .
  moreover have "unit_prices (remove_level price ls)"
    using assms(1) remove_level_subset [of price ls] by (auto simp: list_all_iff)
  ultimately show ?thesis using assms by (simp add: apply_level_update_def)
qed

lemma unit_align: "unit_prices ls \<Longrightarrow> in_unit best \<Longrightarrow> unit_prices (align_best_level best u side ls)"
proof -
  assume ok: "unit_prices ls" "in_unit best"
  define kept where "kept = filter (\<lambda>l. within_best side best (os_price l)) ls"
  have "unit_prices kept" using ok(1) by (auto simp: kept_def list_all_iff)
  moreover from this have "unit_prices (put_best best u side kept)"
    using ok(2) by (cases kept) (simp_all add: put_best_def Let_def)
  ultimately show ?thesis by (simp add: align_best_level_def Let_def kept_def [symmetric])
qed

definition feed_tracker :: "tracker \<Rightarrow> bool" where
  "feed_tracker t \<longleftrightarrow> tracker_ok t \<and>
     (\<forall>a b. get_orderbook a t = Some b \<longrightarrow> unit_prices (bk_bids b) \<and> unit_prices (bk_asks b))"

lemma feed_apply:
  assumes "feed_tracker t" "op = Evict \<or> (\<exists>ev. feed_ok ev \<and> op = received ev)"
  shows "feed_tracker (tracker_apply of_millis t (now, op))"
proof -
  have step: "op_ok (now, op)"
    using assms(2) by (cases op) (auto simp: update_ok_def in_unit_ordered)
  have ok: "tracker_ok (tracker_apply of_millis t (now, op))"
    using assms(1) step tracker_apply_ok by (simp add: feed_tracker_def)
  moreover have "unit_prices (bk_bids b) \<and> unit_prices (bk_asks b)"
    if get: "get_orderbook a (tracker_apply of_millis t (now, op)) = Some b" for a b
  proof (cases op)
    case (Snapshot s)
    then have "feed_ok (BookSent s)" using assms(2) by auto
    then show ?thesis
      using get assms(1) Snapshot by (auto simp: apply_snapshot_def feed_tracker_def split: if_splits)
  next
    case (Update u)
    then have u: "feed_ok (UpdateSent u)" using assms(2) by auto
    show ?thesis
    proof (cases "hget (tk_books t) (bu_asset_id u)")
      case None
      then show ?thesis using get assms(1) Update by (simp add: apply_update_def feed_tracker_def)
    next
      case (Some tb)
      then have "get_orderbook (bu_asset_id u) t = Some (tb_snapshot tb)" by (simp add: get_orderbook_def)
      then have "unit_prices (bk_bids (tb_snapshot tb))" "unit_prices (bk_asks (tb_snapshot tb))"
        using assms(1) unfolding feed_tracker_def by blast+
      then have "unit_prices (bk_bids (updated_book u (tb_snapshot tb)))" "unit_prices (bk_asks (updated_book u (tb_snapshot tb)))"
        using u by (simp_all add: updated_book_def Let_def unit_align unit_update)
      then show ?thesis
        using get assms(1) Update by (auto simp: apply_update_some [OF Some] feed_tracker_def split: if_splits)
    qed
  next
    case Evict
    have "get_orderbook a t = Some b"
      using get by (simp add: Evict get_orderbook_def evict_books split: if_splits)
    then show ?thesis using assms(1) unfolding feed_tracker_def by blast
  qed
  ultimately show ?thesis unfolding feed_tracker_def by blast
qed

interpretation feed: machine "tracker_apply of_millis"
  "\<lambda>(now, op). op = Evict \<or> (\<exists>ev. feed_ok ev \<and> op = received ev)" feed_tracker for of_millis
  by unfold_locales (auto intro: feed_apply)

section \<open>Properties\<close>

text \<open>C11. The publisher loses nothing silently: over any run and any outages every update it was given is
  either sent once, waiting or dropped, the updates that are not sent keep their order, the buffer never
  holds more than a thousand, and books are sent at most once and in their order.\<close>

theorem publisher_conserves:
  "mset (sent_updates (publisher_run up ops)) + mset (pu_dropped (publisher_run up ops)) + mset (pu_buffer (publisher_run up ops))
      = mset (concat (map updates_of_op ops))
    \<and> subseq (pu_dropped (publisher_run up ops) @ pu_buffer (publisher_run up ops)) (concat (map updates_of_op ops))
    \<and> length (pu_buffer (publisher_run up ops)) \<le> buffer_max
    \<and> subseq (sent_books (publisher_run up ops)) (concat (map books_of_op ops))"
  using run_given [of ops up] by (simp add: given_def add.assoc)

text \<open>C10. Whatever messages arrive, and whatever outages, losses, repetitions and evictions come between them and the
  server: every book that the server tracks is sorted from its best level, belongs to its asset, and holds
  only prices between zero and one.\<close>

theorem feed_never_breaks_books:
  assumes parsed: "list_all parsed_op ops"
    and events: "list_all (\<lambda>(now, op). op = Evict \<or> op \<in> received ` set (pu_sent (publisher_run up ops))) events"
    and book: "get_orderbook a (foldl (tracker_apply of_millis) tracker_new events) = Some b"
  shows "bk_asset_id b = a \<and> best_first TradeBuy (bk_bids b) \<and> best_first TradeSell (bk_asks b)
    \<and> unit_prices (bk_bids b) \<and> unit_prices (bk_asks b)"
proof -
  have "list_all (\<lambda>(now, op). op = Evict \<or> (\<exists>ev. feed_ok ev \<and> op = received ev)) events"
    using events sent_ok [OF parsed] by (fastforce simp: list_all_iff)
  then have "feed_tracker (foldl (tracker_apply of_millis) tracker_new events)"
    by (intro feed.run_inv) (simp_all add: feed_tracker_def tracker_ok_def tracker_new_def get_orderbook_def)
  with book show ?thesis by (simp add: feed_tracker_def tracker_ok_def book_ok_def side_ok_def)
qed

definition demo_book_json :: jvalue where
  "demo_book_json = JObject [(''event_type'', JString ''book''), (''asset_id'', JString ''A''), (''market'', JString ''M''),
     (''timestamp'', JString ''5''), (''hash'', JString ''h''), (''bids'', JArray []), (''asks'', JArray [])]"

definition demo_book_message :: book_message where
  "demo_book_message = \<lparr>bm_asset_id = ''A'', bm_market = ''M'', bm_bids = [], bm_asks = [], bm_hash = ''h'',
     bm_timestamp = 5, bm_observed_at = 0\<rparr>"

theorem feed_never_breaks_books_witness:
  "\<exists>b. get_orderbook ''A'' (foldl (tracker_apply Some) tracker_new [(0, Snapshot (snapshot_of (\<lambda>a. None) demo_book_message))]) = Some b
    \<and> best_first TradeBuy (bk_bids b)"
proof -
  let ?ops = "[OnBook (\<lambda>a. None) demo_book_message]"
  have "parse_i64 ''5'' = Some 5" by (simp add: parse_i64_def parse_u64_def digit_value_def)
  then have "parse_book demo_book_json 0 = Inr demo_book_message"
    by (simp add: parse_book_def demo_book_json_def demo_book_message_def text_field_def array_field_def timestamp_field_def
        ok_or_def bind_ok_def sort_levels_def)
  then have "list_all parsed_op ?ops" by auto
  moreover have "list_all (\<lambda>(now, op). op = Evict \<or> op \<in> received ` set (pu_sent (publisher_run always ?ops)))
      [(0, Snapshot (snapshot_of (\<lambda>a. None) demo_book_message))]"
    by (simp add: no_outage_in_order)
  moreover obtain b where "get_orderbook ''A'' (foldl (tracker_apply Some) tracker_new
      [(0, Snapshot (snapshot_of (\<lambda>a. None) demo_book_message))]) = Some b"
    by (simp add: apply_snapshot_def demo_book_message_def snapshot_of_def)
  ultimately show ?thesis using feed_never_breaks_books by blast
qed

end
