(* ===== verification/Discovery.thy ===== *)
theory Discovery
  imports Machine "HOL-Library.Word"
begin

text \<open>
  The discovery of markets and the subscriptions to their feeds,
  \<open>tx-sub/crates/polymarket-sub/src/\<close>: \<open>api_client.rs\<close> (events of the API, retries), \<open>market_discovery.rs\<close> with
  \<open>market_metadata_cache.rs\<close>, \<open>market_metadata_loader.rs\<close>, \<open>subscription_manager.rs\<close>, \<open>types.rs\<close> (subscription
  state, event rates) and the decision of \<open>health_monitor.rs\<close>.  The answers of the API, the reading of JSON lists
  and of dates are arguments.  A set of assets stands for the order in which a hash set is listed.  Timers,
  channels, the waits between attempts and the gauges are left out.
\<close>

section \<open>Events of the API\<close>

record api_market =
  am_id :: string
  am_condition_id :: "string option"
  am_clob_token_ids :: "string option"

record api_event =
  ae_id :: string
  ae_ticker :: string
  ae_title :: "string option"
  ae_end_date :: "string option"
  ae_active :: bool
  ae_markets :: "api_market list"

record detailed_market =
  de_slug :: string
  de_outcomes :: string
  de_clob_token_ids :: string

record discovered_market =
  dm_event_id :: string
  dm_ticker :: string
  dm_title :: string
  dm_end_date :: timestamp
  dm_condition_id :: string
  dm_asset_ids :: "string list"

record market_info =
  mi_event_id :: string
  mi_ticker :: string
  mi_title :: string
  mi_end_date :: string
  mi_outcome :: "string option"

record readers =
  rd_strings :: "string \<Rightarrow> string list option"
  rd_time :: "string \<Rightarrow> timestamp option"
  rd_show_time :: "timestamp \<Rightarrow> string"

text \<open>The asset ids of all markets of the event; a list that cannot be read counts as empty.\<close>

definition event_asset_ids :: "readers \<Rightarrow> api_market list \<Rightarrow> string list" where
  "event_asset_ids x markets =
     concat (List.map_filter (\<lambda>m. Option.bind (am_clob_token_ids m) (rd_strings x)) markets)"

definition from_api_event :: "readers \<Rightarrow> api_event \<Rightarrow> discovered_market option" where
  "from_api_event x ev =
     (case (ae_title ev, Option.bind (ae_end_date ev) (rd_time x), ae_markets ev) of
        (Some title, Some end_date, m # ms) \<Rightarrow>
          (case am_condition_id m of
             None \<Rightarrow> None
           | Some condition_id \<Rightarrow>
               let ids = event_asset_ids x (m # ms)
               in if ids = [] then None
                  else Some \<lparr>dm_event_id = ae_id ev, dm_ticker = ae_ticker ev, dm_title = title,
                         dm_end_date = end_date, dm_condition_id = condition_id, dm_asset_ids = ids\<rparr>)
      | _ \<Rightarrow> None)"

definition parse_outcome_mappings :: "readers \<Rightarrow> detailed_market \<Rightarrow> (string \<times> string) list option" where
  "parse_outcome_mappings x m =
     (case (rd_strings x (de_outcomes m), rd_strings x (de_clob_token_ids m)) of
        (Some os, Some ids) \<Rightarrow> if length os \<noteq> length ids \<or> os = [] then None else Some (zip ids os)
      | _ \<Rightarrow> None)"

text \<open>One request with its retries: \<open>ans\<close> is the answer of each attempt; the error of the last one is returned.\<close>

primrec attempts :: "(nat \<Rightarrow> 'e + 'a) \<Rightarrow> nat \<Rightarrow> nat \<Rightarrow> 'e + 'a" where
  "attempts ans attempt 0 = ans attempt"
| "attempts ans attempt (Suc n) =
     (case ans attempt of Inr x \<Rightarrow> Inr x | Inl e \<Rightarrow> attempts ans (Suc attempt) n)"

definition fetch :: "nat \<Rightarrow> (nat \<Rightarrow> 'e + 'a) \<Rightarrow> 'e + 'a" where
  "fetch retries ans = attempts ans 0 retries"

section \<open>Discovery\<close>

definition batch_size :: nat where "batch_size = 100"
definition offset_limit :: nat where "offset_limit = 10000"

text \<open>The pages of the API from an offset on; \<open>page off\<close> is the answer after its retries.\<close>

function fetch_pages :: "(nat \<Rightarrow> 'e + api_event list) \<Rightarrow> nat \<Rightarrow> 'e + api_event list" where
  "fetch_pages page off =
     (case page off of
        Inl e \<Rightarrow> Inl e
      | Inr evs \<Rightarrow>
          if length evs < batch_size \<or> offset_limit < off + batch_size then Inr evs
          else (case fetch_pages page (off + batch_size) of Inl e \<Rightarrow> Inl e | Inr rest \<Rightarrow> Inr (evs @ rest)))"
  by pat_completeness auto
termination
  by (relation "measure (\<lambda>(page, off). Suc offset_limit - off)") (auto simp: batch_size_def offset_limit_def)

declare fetch_pages.simps [simp del]

definition fetch_all_events :: "nat \<Rightarrow> (nat \<Rightarrow> nat \<Rightarrow> 'e + api_event list) \<Rightarrow> 'e + api_event list" where
  "fetch_all_events retries api = fetch_pages (\<lambda>off. fetch retries (api off)) 0"

definition matches_pattern :: "string list \<Rightarrow> api_event \<Rightarrow> bool" where
  "matches_pattern patterns ev \<longleftrightarrow> list_ex (\<lambda>p. str_prefix p (ae_ticker ev)) patterns"

definition filter_and_convert_events :: "readers \<Rightarrow> string list \<Rightarrow> api_event list \<Rightarrow> discovered_market list" where
  "filter_and_convert_events x patterns evs =
     sort_key dm_end_date (List.map_filter (from_api_event x) (filter (matches_pattern patterns) evs))"

definition market_entries :: "readers \<Rightarrow> discovered_market \<Rightarrow> 'e + detailed_market \<Rightarrow> (string \<times> market_info) list" where
  "market_entries x m answer =
     (case answer of
        Inl e \<Rightarrow> []
      | Inr d \<Rightarrow>
          (case parse_outcome_mappings x d of
             None \<Rightarrow> []
           | Some mapping \<Rightarrow>
               map (\<lambda>(asset, outcome). (asset, \<lparr>mi_event_id = dm_event_id m, mi_ticker = dm_ticker m,
                  mi_title = dm_title m, mi_end_date = rd_show_time x (dm_end_date m), mi_outcome = Some outcome\<rparr>))
                 mapping))"

type_synonym metadata_cache = "(string, market_info) hmap"

definition insert_batch :: "(string \<times> market_info) list \<Rightarrow> metadata_cache \<Rightarrow> metadata_cache" where
  "insert_batch entries cache = foldl (\<lambda>c (k, v). hput k v c) cache entries"

definition populate_metadata_cache ::
  "readers \<Rightarrow> (string \<Rightarrow> 'e + detailed_market) \<Rightarrow> discovered_market list \<Rightarrow> metadata_cache \<Rightarrow> metadata_cache \<times> nat" where
  "populate_metadata_cache x by_slug markets cache =
     (let entries = concat (map (\<lambda>m. market_entries x m (by_slug (dm_ticker m))) markets)
      in (insert_batch entries cache, length entries))"

text \<open>A round of discovery: the markets that are broadcast, and the cache.\<close>

definition discover_and_broadcast ::
  "readers \<Rightarrow> string list \<Rightarrow> nat \<Rightarrow> (nat \<Rightarrow> nat \<Rightarrow> 'e + api_event list) \<Rightarrow> (string \<Rightarrow> nat \<Rightarrow> 'e + detailed_market) \<Rightarrow>
   metadata_cache \<Rightarrow> ('e + discovered_market list) \<times> metadata_cache" where
  "discover_and_broadcast x patterns retries api slug_api cache =
     (case fetch_all_events retries api of
        Inl e \<Rightarrow> (Inl e, cache)
      | Inr evs \<Rightarrow>
          let markets = filter_and_convert_events x patterns evs
          in (Inr markets, fst (populate_metadata_cache x (\<lambda>slug. fetch retries (slug_api slug)) markets cache)))"

section \<open>Loading of metadata without discovery\<close>

text \<open>The pages are read until one is short: there is no limit on the offset, so the loop may not end (\<open>None\<close>).\<close>

partial_function (option) loader_pages ::
  "(nat \<Rightarrow> 'e + api_event list) \<Rightarrow> nat \<Rightarrow> api_event list \<Rightarrow> ('e + api_event list) option" where
  "loader_pages page off acc =
     (case page off of
        Inl e \<Rightarrow> Some (Inl e)
      | Inr evs \<Rightarrow>
          if evs = [] \<or> length evs < batch_size then Some (Inr (acc @ evs))
          else loader_pages page (off + batch_size) (acc @ evs))"

datatype 'e load_error = Load_Api 'e | Load_No_Markets

definition load_metadata_for_assets ::
  "readers \<Rightarrow> nat \<Rightarrow> (nat \<Rightarrow> nat \<Rightarrow> 'e + api_event list) \<Rightarrow> (string \<Rightarrow> nat \<Rightarrow> 'e + detailed_market) \<Rightarrow>
   string list \<Rightarrow> metadata_cache \<Rightarrow> (('e load_error + nat) \<times> metadata_cache) option" where
  "load_metadata_for_assets x retries api slug_api asset_ids cache =
     (case loader_pages (\<lambda>off. fetch retries (api off)) 0 [] of
        None \<Rightarrow> None
      | Some (Inl e) \<Rightarrow> Some (Inl (Load_Api e), cache)
      | Some (Inr evs) \<Rightarrow>
          let markets = filter (\<lambda>m. list_ex (\<lambda>a. a \<in> set asset_ids) (dm_asset_ids m))
                (List.map_filter (from_api_event x) evs)
          in if markets = [] then Some (Inl Load_No_Markets, cache)
             else
               let entries = concat (map (\<lambda>m. filter (\<lambda>(a, i). a \<in> set asset_ids)
                     (market_entries x m (fetch retries (slug_api (dm_ticker m))))) markets);
                 cache' = insert_batch entries cache
               in Some (Inr (length cache'), cache'))"

definition load_metadata_for_tag ::
  "readers \<Rightarrow> nat \<Rightarrow> (nat \<Rightarrow> nat \<Rightarrow> 'e + api_event list) \<Rightarrow> (string \<Rightarrow> nat \<Rightarrow> 'e + detailed_market) \<Rightarrow>
   metadata_cache \<Rightarrow> (('e load_error + nat) \<times> metadata_cache) option" where
  "load_metadata_for_tag x retries api slug_api cache =
     (case loader_pages (\<lambda>off. fetch retries (api off)) 0 [] of
        None \<Rightarrow> None
      | Some (Inl e) \<Rightarrow> Some (Inl (Load_Api e), cache)
      | Some (Inr evs) \<Rightarrow>
          let markets = List.map_filter (from_api_event x) evs
          in if markets = [] then Some (Inr 0, cache)
             else
               let entries = concat (map (\<lambda>m. market_entries x m (fetch retries (slug_api (dm_ticker m)))) markets);
                 cache' = insert_batch entries cache
               in Some (Inr (length cache'), cache'))"

section \<open>Subscriptions\<close>

record subscription_state =
  ss_current_assets :: "string set"
  ss_last_updated :: timestamp
  ss_total_markets :: nat

definition subscription_state_new :: "timestamp \<Rightarrow> subscription_state" where
  "subscription_state_new now = \<lparr>ss_current_assets = {}, ss_last_updated = now, ss_total_markets = 0\<rparr>"

definition calculate_diff :: "string set \<Rightarrow> subscription_state \<Rightarrow> string set \<times> string set" where
  "calculate_diff assets s = (assets - ss_current_assets s, ss_current_assets s - assets)"

definition subscription_update :: "timestamp \<Rightarrow> string set \<Rightarrow> nat \<Rightarrow> subscription_state \<Rightarrow> subscription_state" where
  "subscription_update now assets n s =
     s\<lparr>ss_current_assets := assets, ss_last_updated := now, ss_total_markets := n\<rparr>"

definition subscription_len :: "subscription_state \<Rightarrow> nat" where
  "subscription_len s = card (ss_current_assets s)"

definition build_asset_set :: "discovered_market list \<Rightarrow> string set \<times> nat" where
  "build_asset_set markets = (\<Union>m \<in> set markets. set (dm_asset_ids m), length markets)"

text \<open>The loop over the markets: the assets taken so far, and the counts of the included and dropped markets.\<close>

fun limit_loop ::
  "nat \<Rightarrow> nat \<Rightarrow> discovered_market list \<Rightarrow> string set \<Rightarrow> nat \<Rightarrow> nat \<Rightarrow> string set \<times> nat" where
  "limit_loop limit n [] assets included dropped = (assets, dropped)"
| "limit_loop limit n (m # ms) assets included dropped =
     (let fits = card assets + length (dm_asset_ids m) \<le> limit;
        assets' = (if fits then assets \<union> set (dm_asset_ids m) else assets);
        included' = (if fits then Suc included else included);
        dropped' = (if fits then dropped else Suc dropped)
      in if limit \<le> card assets' then (assets', dropped' + (n - included'))
         else limit_loop limit n ms assets' included' dropped')"

definition apply_subscription_limit :: "nat \<Rightarrow> string set \<Rightarrow> discovered_market list \<Rightarrow> string set \<times> nat" where
  "apply_subscription_limit limit assets markets =
     (if card assets \<le> limit then (assets, 0) else limit_loop limit (length markets) markets {} 0 0)"

record subscription_message =
  sm_asset_ids :: "string set"
  sm_markets_count :: nat

text \<open>A round of discovery reaches the manager: what it broadcasts, if anything.\<close>

definition process_market_update ::
  "nat \<Rightarrow> timestamp \<Rightarrow> discovered_market list \<Rightarrow> subscription_state \<Rightarrow> subscription_message option \<times> subscription_state" where
  "process_market_update limit now markets s =
     (if markets = [] then (None, s)
      else
        let (assets, n) = build_asset_set markets;
          (additions, removals) = calculate_diff assets s
        in if additions = {} \<and> removals = {} then (None, s)
           else
             let final = fst (apply_subscription_limit limit assets markets)
             in (Some \<lparr>sm_asset_ids = final, sm_markets_count = n\<rparr>, subscription_update now final n s))"

section \<open>Event rates\<close>

text \<open>Seconds since the epoch; the counts are 64-bit words.\<close>

record rate_tracker =
  rt_events_per_second :: "(nat, 64 word) hmap"
  rt_total_events :: "64 word"

definition rate_tracker_new :: rate_tracker where
  "rate_tracker_new = \<lparr>rt_events_per_second = [], rt_total_events = 0\<rparr>"

definition record_event :: "nat \<Rightarrow> rate_tracker \<Rightarrow> rate_tracker" where
  "record_event now t =
     t\<lparr>rt_events_per_second := hput now (unwrap_or (hget (rt_events_per_second t) now) 0 + 1) (rt_events_per_second t),
       rt_total_events := rt_total_events t + 1\<rparr>"

definition rate_since :: "nat \<Rightarrow> rate_tracker \<Rightarrow> 64 word" where
  "rate_since cutoff t = sum_list (map snd (filter (\<lambda>(s, n). cutoff \<le> s) (rt_events_per_second t)))"

definition get_rate_per_minute :: "nat \<Rightarrow> rate_tracker \<Rightarrow> 64 word" where
  "get_rate_per_minute now t = rate_since (now - 60) t"

text \<open>The cutoff is a signed time that is read as an unsigned one.\<close>

definition prune_old :: "int \<Rightarrow> rate_tracker \<Rightarrow> rate_tracker" where
  "prune_old cutoff t =
     (let cutoff_ts = nat (cutoff mod 2 ^ 64)
      in t\<lparr>rt_events_per_second := filter (\<lambda>(s, n). cutoff_ts \<le> s) (rt_events_per_second t)\<rparr>)"

record health_config =
  hc_min_events_per_minute :: "64 word"
  hc_event_tracking_window_secs :: nat

text \<open>A tick of the health check: whether the process exits, and the pruned tracker.\<close>

definition health_check ::
  "health_config \<Rightarrow> nat \<Rightarrow> nat \<Rightarrow> subscription_state \<Rightarrow> rate_tracker \<Rightarrow> bool \<times> rate_tracker" where
  "health_check c uptime now s t =
     (if uptime < 60 then (False, t)
      else
        (subscription_len s > 0 \<and> get_rate_per_minute now t < hc_min_events_per_minute c,
         prune_old (int now - int (hc_event_tracking_window_secs c)) t))"

text \<open>Events and health checks, with the second of each; the subscriptions are those at the check.\<close>

datatype rate_op = Rate_Event nat | Rate_Check nat nat subscription_state

definition rate_time :: "rate_op \<Rightarrow> nat" where
  "rate_time r = (case r of Rate_Event now \<Rightarrow> now | Rate_Check now uptime s \<Rightarrow> now)"

definition rate_step :: "health_config \<Rightarrow> rate_tracker \<Rightarrow> rate_op \<Rightarrow> rate_tracker" where
  "rate_step c t r =
     (case r of Rate_Event now \<Rightarrow> record_event now t | Rate_Check now uptime s \<Rightarrow> snd (health_check c uptime now s t))"

definition rate_run :: "health_config \<Rightarrow> rate_op list \<Rightarrow> rate_tracker" where
  "rate_run c = foldl (rate_step c) rate_tracker_new"

definition subscription_step :: "nat \<Rightarrow> subscription_state \<Rightarrow> timestamp \<times> discovered_market list \<Rightarrow> subscription_state" where
  "subscription_step limit s r = snd (process_market_update limit (fst r) (snd r) s)"

definition subscription_run :: "nat \<Rightarrow> subscription_state \<Rightarrow> (timestamp \<times> discovered_market list) list \<Rightarrow> subscription_state" where
  "subscription_run limit = foldl (subscription_step limit)"

section \<open>The pages of the API\<close>

definition last_page :: "'e + api_event list \<Rightarrow> bool" where
  "last_page answer \<longleftrightarrow> (case answer of Inl e \<Rightarrow> True | Inr evs \<Rightarrow> length evs < batch_size)"

lemma loader_pages_step:
  "loader_pages page off acc =
     (if last_page (page off) then Some (case page off of Inl e \<Rightarrow> Inl e | Inr evs \<Rightarrow> Inr (acc @ evs))
      else loader_pages page (off + batch_size) (acc @ projr (page off)))"
  by (subst loader_pages.simps) (auto simp: last_page_def batch_size_def split: sum.splits)

lemma loader_pages_ends:
  "last_page (page (off + n * batch_size)) \<Longrightarrow> \<exists>y. loader_pages page off acc = Some y"
proof (induction n arbitrary: off acc)
  case 0
  then show ?case by (subst loader_pages_step) simp
next
  case (Suc n)
  then have "last_page (page (off + batch_size + n * batch_size))" by (simp add: ac_simps)
  from Suc.IH [OF this] show ?case by (subst loader_pages_step) auto
qed

lemma loader_pages_last:
  "loader_pages page off acc = Some y \<Longrightarrow> \<exists>n. last_page (page (off + n * batch_size))"
proof (induction page off acc y rule: loader_pages.raw_induct [rotated, consumes 1, case_names step])
  case (step loader page off acc y)
  show ?case
  proof (cases "last_page (page off)")
    case True
    then show ?thesis by (intro exI [of _ 0]) simp
  next
    case False
    with step(2) obtain acc' where "loader page (off + batch_size) acc' = Some y"
      by (auto simp: last_page_def batch_size_def split: sum.splits if_splits)
    then obtain n where "last_page (page (off + batch_size + n * batch_size))" using step(1) by blast
    then show ?thesis by (intro exI [of _ "Suc n"]) (simp add: ac_simps)
  qed
qed

lemma loader_pages_complete:
  "\<forall>k < n. \<not> last_page (page (off + k * batch_size)) \<Longrightarrow> page (off + n * batch_size) = Inr evs \<Longrightarrow>
   length evs < batch_size \<Longrightarrow>
   loader_pages page off acc = Some (Inr (acc @ concat (map (\<lambda>k. projr (page (off + k * batch_size))) [0..<Suc n])))"
proof (induction n arbitrary: off acc)
  case 0
  then show ?case by (subst loader_pages_step) (simp add: last_page_def)
next
  case (Suc n)
  have full: "\<forall>k < n. \<not> last_page (page (off + batch_size + k * batch_size))"
  proof (intro allI impI)
    fix k assume "k < n"
    then show "\<not> last_page (page (off + batch_size + k * batch_size))"
      using Suc.prems(1) [rule_format, of "Suc k"] by (simp add: ac_simps)
  qed
  have last: "page (off + batch_size + n * batch_size) = Inr evs" using Suc.prems(2) by (simp add: ac_simps)
  have "\<not> last_page (page off)" using Suc.prems(1) [rule_format, of 0] by simp
  then have "loader_pages page off acc = Some (Inr ((acc @ projr (page off)) @
      concat (map (\<lambda>k. projr (page (off + batch_size + k * batch_size))) [0..<Suc n])))"
    using Suc.IH [OF full last Suc.prems(3)] by (subst loader_pages_step) simp
  moreover have "[0..<Suc (Suc n)] = 0 # map Suc [0..<Suc n]"
    by (simp add: map_Suc_upt upt_conv_Cons del: upt_Suc)
  ultimately show ?case by (simp add: ac_simps comp_def del: upt_Suc)
qed

lemma from_api_event_assets: "from_api_event x ev = Some m \<Longrightarrow> dm_asset_ids m \<noteq> []"
  unfolding from_api_event_def by (auto simp: Let_def split: option.splits list.splits if_splits)

lemma discovered_markets_sorted:
  assumes "fst (discover_and_broadcast x patterns retries api slug_api cache) = Inr ms"
  shows "sorted (map dm_end_date ms) \<and> (\<forall>m \<in> set ms. dm_asset_ids m \<noteq> [])"
proof -
  obtain evs where ms: "ms = filter_and_convert_events x patterns evs"
    using assms by (auto simp: discover_and_broadcast_def Let_def split: sum.splits)
  have "dm_asset_ids m \<noteq> []" if "m \<in> set ms" for m
    using that unfolding ms filter_and_convert_events_def
    by (auto simp: map_filter_def simp del: not_None_eq dest: from_api_event_assets)
  then show ?thesis by (simp add: ms filter_and_convert_events_def)
qed

text \<open>Loading of metadata returns exactly if some page of the API, after its retries, is an error or not full; the
  loop itself has no bound, unlike the one of discovery, which always returns.\<close>

theorem loading_returns_iff:
  "load_metadata_for_tag x retries api slug_api cache \<noteq> None \<longleftrightarrow>
     (\<exists>n. last_page (fetch retries (api (n * batch_size))))"
proof -
  let ?page = "\<lambda>off. fetch retries (api off)"
  have "load_metadata_for_tag x retries api slug_api cache \<noteq> None \<longleftrightarrow> (\<exists>y. loader_pages ?page 0 [] = Some y)"
    by (auto simp: load_metadata_for_tag_def Let_def split: option.splits sum.splits)
  then show ?thesis using loader_pages_ends [of ?page 0] loader_pages_last [of ?page 0 "[]"] by auto
qed

section \<open>Subscriptions\<close>

lemma limit_loop_inv:
  "finite assets \<Longrightarrow> card assets \<le> limit \<Longrightarrow>
   finite (fst (limit_loop limit n ms assets i d)) \<and> card (fst (limit_loop limit n ms assets i d)) \<le> limit \<and>
   assets \<subseteq> fst (limit_loop limit n ms assets i d)"
proof (induction limit n ms assets i d rule: limit_loop.induct)
  case (1 limit n assets i d)
  then show ?case by simp
next
  case (2 limit n m ms assets i d)
  define a where "a = (if card assets + length (dm_asset_ids m) \<le> limit then assets \<union> set (dm_asset_ids m) else assets)"
  have "card (assets \<union> set (dm_asset_ids m)) \<le> card assets + length (dm_asset_ids m)"
    by (meson card_Un_le card_length add_left_mono order_trans)
  then have a: "finite a" "card a \<le> limit" "assets \<subseteq> a"
    using 2(2,3) by (auto simp: a_def)
  from "2.IH" [OF refl refl refl refl] a show ?case
    by (auto simp: Let_def a_def split: if_splits)
qed

lemma limit_loop_soonest:
  "finite assets \<Longrightarrow> card assets + sum_list (map (length \<circ> dm_asset_ids) (take k ms)) \<le> limit \<Longrightarrow>
   (\<Union>m \<in> set (take k ms). set (dm_asset_ids m)) \<subseteq> fst (limit_loop limit n ms assets i d)"
proof (induction k arbitrary: ms assets i d)
  case 0
  then show ?case by simp
next
  case (Suc k)
  show ?case
  proof (cases ms)
    case Nil
    then show ?thesis by simp
  next
    case (Cons m ms')
    let ?a = "assets \<union> set (dm_asset_ids m)"
    have le: "card ?a \<le> card assets + length (dm_asset_ids m)"
      by (meson card_Un_le card_length add_left_mono order_trans)
    have fits: "card assets + length (dm_asset_ids m) \<le> limit" using Suc.prems(2) Cons by simp
    have rest: "card ?a + sum_list (map (length \<circ> dm_asset_ids) (take k ms')) \<le> limit"
      using Suc.prems(2) le by (simp add: Cons comp_def)
    show ?thesis
    proof (cases "limit \<le> card ?a")
      case True
      with rest have "sum_list (map (length \<circ> dm_asset_ids) (take k ms')) = 0" by linarith
      then have "\<forall>m \<in> set (take k ms'). dm_asset_ids m = []" by (auto simp: sum_list_eq_0_iff)
      with True fits show ?thesis by (auto simp: Cons Let_def)
    next
      case False
      have fin: "finite ?a" using Suc.prems(1) by simp
      have "set (dm_asset_ids m) \<subseteq> fst (limit_loop limit n ms' ?a (Suc i) d)"
        using limit_loop_inv [of ?a limit n ms' "Suc i" d] fits le Suc.prems(1) by auto
      with Suc.IH [OF fin rest, of "Suc i" d] False fits show ?thesis by (auto simp: Cons Let_def)
    qed
  qed
qed

lemma subscription_round:
  assumes "ms \<noteq> []" "card (ss_current_assets s) \<le> limit" "finite (ss_current_assets s)"
  shows "ss_current_assets (snd (process_market_update limit now ms s)) =
     fst (apply_subscription_limit limit (fst (build_asset_set ms)) ms)"
  using assms
  by (auto simp: process_market_update_def build_asset_set_def calculate_diff_def subscription_update_def
      Let_def apply_subscription_limit_def split: if_splits)

lemma subscription_round_quiet:
  "card (fst (build_asset_set ms)) \<le> limit \<Longrightarrow> ss_current_assets s = fst (build_asset_set ms) \<Longrightarrow>
   process_market_update limit now ms s = (None, s)"
  by (auto simp: process_market_update_def calculate_diff_def Let_def split: prod.splits)

lemma apply_limit_bounds:
  "finite assets \<Longrightarrow> finite (fst (apply_subscription_limit limit assets ms)) \<and>
     card (fst (apply_subscription_limit limit assets ms)) \<le> limit"
  using limit_loop_inv [of "{}" limit "length ms" ms 0 0] by (simp add: apply_subscription_limit_def)

definition within_limit :: "nat \<Rightarrow> subscription_state \<Rightarrow> bool" where
  "within_limit limit s \<longleftrightarrow> finite (ss_current_assets s) \<and> card (ss_current_assets s) \<le> limit"

lemma round_within_limit:
  assumes "within_limit limit s"
  shows "within_limit limit (snd (process_market_update limit now ms s))"
proof (cases "ms = []")
  case False
  have "finite (fst (build_asset_set ms))" by (simp add: build_asset_set_def)
  then show ?thesis
    using False assms apply_limit_bounds [of "fst (build_asset_set ms)" limit ms]
    by (simp add: subscription_round within_limit_def)
qed (simp add: assms process_market_update_def)

interpretation subs: machine "subscription_step limit" "\<lambda>_. True" "within_limit limit" for limit
  by unfold_locales (simp add: subscription_step_def round_within_limit)

lemma soonest_taken:
  assumes "sum_list (map (length \<circ> dm_asset_ids) (take k ms)) \<le> limit"
  shows "(\<Union>m \<in> set (take k ms). set (dm_asset_ids m)) \<subseteq>
     fst (apply_subscription_limit limit (fst (build_asset_set ms)) ms)"
proof -
  have "(\<Union>m \<in> set (take k ms). set (dm_asset_ids m)) \<subseteq> fst (build_asset_set ms)"
    by (auto simp: build_asset_set_def dest: in_set_takeD)
  with limit_loop_soonest [of "{}" k ms limit "length ms" 0 0] assms show ?thesis
    by (simp add: apply_subscription_limit_def)
qed

text \<open>C13. After any rounds of discovery and a last one that found markets, the manager is subscribed to at most the
  configured number of assets and to every asset of the first markets of the round as far as their assets fit the
  limit together; when all assets of the round fit, it is subscribed to exactly them and the same markets found
  again change and broadcast nothing.\<close>

theorem subscriptions_follow_discovery:
  assumes "ms \<noteq> []"
  shows "let s = subscription_run limit (subscription_state_new start) (rounds @ [(now, ms)]);
           assets = (\<Union>m \<in> set ms. set (dm_asset_ids m))
         in subscription_len s \<le> limit \<and>
            (\<forall>k. sum_list (map (length \<circ> dm_asset_ids) (take k ms)) \<le> limit \<longrightarrow>
                 (\<Union>m \<in> set (take k ms). set (dm_asset_ids m)) \<subseteq> ss_current_assets s) \<and>
            (card assets \<le> limit \<longrightarrow>
               ss_current_assets s = assets \<and> (\<forall>later. process_market_update limit later ms s = (None, s)))"
proof -
  let ?s = "subscription_run limit (subscription_state_new start) rounds"
  have start: "within_limit limit (subscription_state_new start)"
    by (simp add: subscription_state_new_def within_limit_def)
  have old: "within_limit limit ?s"
    using subs.run_inv [OF start, of rounds] by (simp add: subscription_run_def list_all_iff)
  have s: "subscription_run limit (subscription_state_new start) (rounds @ [(now, ms)]) =
      snd (process_market_update limit now ms ?s)"
    by (simp add: subscription_run_def subscription_step_def)
  have assets: "(\<Union>m \<in> set ms. set (dm_asset_ids m)) = fst (build_asset_set ms)"
    by (simp add: build_asset_set_def)
  have now: "ss_current_assets (snd (process_market_update limit now ms ?s)) =
      fst (apply_subscription_limit limit (fst (build_asset_set ms)) ms)"
    using assms old by (simp add: subscription_round within_limit_def)
  show ?thesis
    unfolding s assets Let_def subscription_len_def
    using round_within_limit [OF old, of now ms, unfolded within_limit_def] soonest_taken [of _ ms limit] now
    by (auto simp: apply_subscription_limit_def intro!: subscription_round_quiet)
qed

definition demo_market :: "string \<Rightarrow> int \<Rightarrow> string list \<Rightarrow> discovered_market" where
  "demo_market ticker end_date ids =
     \<lparr>dm_event_id = ticker, dm_ticker = ticker, dm_title = ticker, dm_end_date = end_date,
      dm_condition_id = ticker, dm_asset_ids = ids\<rparr>"

lemma subscriptions_follow_discovery_witness:
  "let ms = [demo_market ''a'' 1 [''up'', ''down''], demo_market ''b'' 2 [''x'', ''y'', ''z'']];
       s = subscription_run 4 (subscription_state_new 0) ([] @ [(7, ms)])
   in subscription_len s \<le> 4 \<and> {''up'', ''down''} \<subseteq> ss_current_assets s"
  using subscriptions_follow_discovery
      [of "[demo_market ''a'' 1 [''up'', ''down''], demo_market ''b'' 2 [''x'', ''y'', ''z'']]" 4 0 "[]" 7]
  by (auto simp: Let_def demo_market_def dest: spec [of _ 1])

text \<open>Above the limit the difference is taken against all assets, so the same markets are broadcast in every round.\<close>

lemma over_limit_broadcasts_every_round:
  "let ms = [demo_market ''a'' 1 [''up'', ''down''], demo_market ''b'' 2 [''x'', ''y'', ''z'']];
       s = subscription_run 4 (subscription_state_new 0) [(7, ms)]
   in process_market_update 4 8 ms s = (Some \<lparr>sm_asset_ids = {''up'', ''down''}, sm_markets_count = 2\<rparr>, s\<lparr>ss_last_updated := 8\<rparr>)"
  by (simp add: Let_def demo_market_def subscription_run_def subscription_step_def process_market_update_def build_asset_set_def
      calculate_diff_def apply_subscription_limit_def subscription_update_def subscription_state_new_def)

text \<open>The loop goes on behind a market that does not fit, and counts it twice when a later one fills the limit.\<close>

lemma later_market_overtakes:
  "let ms = [demo_market ''a'' 1 [''up'', ''down''], demo_market ''b'' 2 [''x'', ''y''], demo_market ''c'' 3 [''z'']]
   in apply_subscription_limit 3 (fst (build_asset_set ms)) ms = ({''up'', ''down'', ''z''}, 2)"
  by (auto simp: Let_def demo_market_def build_asset_set_def apply_subscription_limit_def)

section \<open>Event rates\<close>

lemma rate_since_put:
  "hwf m \<Longrightarrow>
   sum_list (map snd (filter (\<lambda>(s, n). c \<le> s) (hput now (unwrap_or (hget m now) 0 + 1) m))) =
   sum_list (map snd (filter (\<lambda>(s, n). c \<le> s) m)) + (if c \<le> now then 1 else (0 :: 64 word))"
proof (induction m)
  case Nil
  then show ?case by (simp add: hput_def unwrap_or_def)
next
  case (Cons p m)
  obtain s n where p: "p = (s, n)" by (cases p)
  have "hget m now = None" if "s = now" using Cons.prems that by (simp add: p map_of_eq_None_iff)
  with Cons show ?case by (auto simp: p hput_def unwrap_or_def split: option.splits)
qed

definition rate_events :: "rate_op list \<Rightarrow> nat \<Rightarrow> nat" where
  "rate_events rs c = length (filter (\<lambda>r. case r of Rate_Event s \<Rightarrow> c \<le> s | _ \<Rightarrow> False) rs)"

lemma rate_since_record:
  "hwf (rt_events_per_second t) \<Longrightarrow> rate_since c (record_event now t) = rate_since c t + (if c \<le> now then 1 else 0)"
  by (simp add: rate_since_def record_event_def rate_since_put)

lemma rate_since_prune:
  "nat (p mod 2 ^ 64) \<le> c \<Longrightarrow> rate_since c (prune_old p t) = rate_since c t"
  by (auto simp: rate_since_def prune_old_def Let_def intro!: arg_cong [of _ _ sum_list] arg_cong [of _ _ "map snd"] filter_cong)

lemma rate_run_inv:
  assumes "60 \<le> hc_event_tracking_window_secs c" "\<forall>r \<in> set rs. rate_time r \<le> now \<and> hc_event_tracking_window_secs c \<le> rate_time r"
    "now < 2 ^ 64"
  shows "hwf (rt_events_per_second (rate_run c rs)) \<and>
     (\<forall>k \<ge> now - 60. rate_since k (rate_run c rs) = of_nat (rate_events rs k))"
  using assms(2)
proof (induction rs rule: rev_induct)
  case Nil
  then show ?case by (simp add: rate_run_def rate_tracker_new_def rate_since_def rate_events_def)
next
  case (snoc r rs)
  then have IH: "hwf (rt_events_per_second (rate_run c rs))"
      "\<And>k. now - 60 \<le> k \<Longrightarrow> rate_since k (rate_run c rs) = of_nat (rate_events rs k)"
    by auto
  show ?case
  proof (cases r)
    case (Rate_Event s)
    with IH show ?thesis
      by (simp add: rate_run_def rate_step_def rate_since_record rate_events_def)
         (simp add: record_event_def)
  next
    case (Rate_Check s uptime st)
    have w: "hc_event_tracking_window_secs c \<le> s" "s \<le> now" using snoc.prems Rate_Check by (auto simp: rate_time_def)
    then have m: "nat ((int s - int (hc_event_tracking_window_secs c)) mod 2 ^ 64) = s - hc_event_tracking_window_secs c"
      using assms(3) by (simp add: of_nat_diff [symmetric] del: of_nat_diff)
    have le: "s - hc_event_tracking_window_secs c \<le> k" if "now - 60 \<le> k" for k
      using assms(1) w that by linarith
    have wf: "hwf (rt_events_per_second (prune_old p t))" if "hwf (rt_events_per_second t)" for p t
      using that by (auto simp: prune_old_def Let_def intro: distinct_map_filter)
    from IH Rate_Check le m wf show ?thesis
      by (auto simp: rate_run_def rate_step_def health_check_def rate_since_prune rate_events_def)
  qed
qed

text \<open>When events and health checks come in any order at times of the present tracking window, which is at least a
  minute, the rate that a check reads is the number of events of the last minute, so a check after the first minute
  ends the process exactly when there are subscriptions and fewer events than the minimum came.\<close>

theorem health_rate_exact:
  assumes "60 \<le> hc_event_tracking_window_secs c"
    "\<forall>r \<in> set rs. rate_time r \<le> now \<and> hc_event_tracking_window_secs c \<le> rate_time r"
    "now < 2 ^ 64" "length rs < 2 ^ 64" "60 \<le> uptime"
  shows "fst (health_check c uptime now s (rate_run c rs)) \<longleftrightarrow>
     subscription_len s > 0 \<and> rate_events rs (now - 60) < unat (hc_min_events_per_minute c)"
proof -
  have "rate_events rs (now - 60) < 2 ^ 64"
    unfolding rate_events_def by (rule le_less_trans [OF length_filter_le assms(4)])
  then have "unat (get_rate_per_minute now (rate_run c rs)) = rate_events rs (now - 60)"
    using rate_run_inv [OF assms(1-3)] by (simp add: get_rate_per_minute_def unsigned_of_nat take_bit_nat_eq_self)
  with assms(5) show ?thesis by (simp add: health_check_def word_less_nat_alt)
qed

lemma health_rate_exact_witness:
  "let c = \<lparr>hc_min_events_per_minute = 3, hc_event_tracking_window_secs = 60\<rparr>;
       s = \<lparr>ss_current_assets = {''up''}, ss_last_updated = 0, ss_total_markets = 1\<rparr>
   in fst (health_check c 100 200 s
        (rate_run c [Rate_Event 130, Rate_Check 135 70 s, Rate_Event 150, Rate_Event 199]))"
  using health_rate_exact
      [of "\<lparr>hc_min_events_per_minute = 3, hc_event_tracking_window_secs = 60\<rparr>"
          "[Rate_Event 130, Rate_Check 135 70 \<lparr>ss_current_assets = {''up''}, ss_last_updated = 0, ss_total_markets = 1\<rparr>,
            Rate_Event 150, Rate_Event 199]" 200 100
          "\<lparr>ss_current_assets = {''up''}, ss_last_updated = 0, ss_total_markets = 1\<rparr>"]
  by (simp add: Let_def rate_time_def rate_events_def subscription_len_def)

end
