(* ===== verification/Reconcile_Round.thy ===== *)
theory Reconcile_Round
  imports Clob_Executor "HOL-Library.Multiset"
begin

text \<open>
  One round of quoting: the engine computes the orders of an intent, the executor sends them, and the
  limit order events that answer them go through the position manager.  The events are those of the program:
  a placement is what the executor returns for a resting order, with the size it reads back from the
  order, and a cancellation is what the poller emits when the venue has confirmed it.
\<close>

section \<open>Confirmations\<close>

text \<open>The event confirms the order: it rests with the terms the executor sent, or it is gone.\<close>

fun confirms :: "order \<Rightarrow> limit_order_event \<Rightarrow> bool" where
  "confirms ord (OrderPlaced oid mint market price sz side ts signal ctx) =
     (mint = ord_mint ord \<and>
      map_option (\<lambda>(side, sz, price, tif). (side, sz, price)) (clob_limit_terms (ord_order_type ord)) = Some (side, sz, price))"
| "confirms ord (OrderCancelled oid reason ts) =
     (cancel_order_id (ord_order_type ord) = Some oid \<and> \<not> awaiting reason)"
| "confirms ord ev = False"

text \<open>The executor's placements and the poller's cancellations do.\<close>

lemma executor_confirms:
  "clob_limit_order x c ord s = (Inr (OrderPlaced oid mint market price sz side ts signal ctx), s') \<Longrightarrow>
   confirms ord (OrderPlaced oid mint market price sz side ts signal ctx)"
  by (auto simp: clob_limit_order_def Let_def split: option.splits prod.splits if_splits sum.splits)

lemma poller_confirms:
  assumes "poller_inv (ce_poller s)" "hget (pl_monitored (ce_poller s)) oid = Some m"
    "look (pl_engine (ce_poller s)) oid = Some lc"
    "cancel_order_id (ord_order_type ord) = Some oid"
    "reason \<in> {''Cancelled externally'', ''Order invalid (market expired)'', ''Order not found (deleted/expired)''}"
  shows "\<exists>ev. pl_queue (finish_cancelled now oid reason (ce_poller s)) = pl_queue (ce_poller s) @ [LimitOrderEv ev]
    \<and> confirms ord ev"
  using cancellation_emitted(1) [OF assms(1-3), of now reason] assms(4,5) by (auto simp: awaiting_def)

fun placed_id :: "limit_order_event \<Rightarrow> string option" where
  "placed_id (OrderPlaced oid mint market price sz side ts signal ctx) = Some oid"
| "placed_id ev = None"

fun cancelled_id :: "limit_order_event \<Rightarrow> string option" where
  "cancelled_id (OrderCancelled oid reason ts) = Some oid"
| "cancelled_id ev = None"

definition new_ids :: "limit_order_event list \<Rightarrow> string list" where
  "new_ids evs = concat (map (\<lambda>ev. case placed_id ev of None \<Rightarrow> [] | Some k \<Rightarrow> [k]) evs)"

definition gone_ids :: "limit_order_event list \<Rightarrow> string set" where
  "gone_ids evs = {k. Some k \<in> cancelled_id ` set evs}"

lemma ids_simps [simp]:
  "new_ids [] = []" "gone_ids [] = {}"
  "new_ids (ev # evs) = (case placed_id ev of None \<Rightarrow> new_ids evs | Some k \<Rightarrow> k # new_ids evs)"
  "gone_ids (ev # evs) = (case cancelled_id ev of None \<Rightarrow> gone_ids evs | Some k \<Rightarrow> insert k (gone_ids evs))"
  by (auto simp: new_ids_def gone_ids_def split: option.split)

section \<open>What the confirmations do to the tracked orders\<close>

abbreviation confirmation :: "limit_order_event \<Rightarrow> bool" where
  "confirmation ev \<equiv> \<exists>ord. confirms ord ev"

lemma confirmed_kept:
  "list_all confirmation evs \<Longrightarrow> k \<notin> set (new_ids evs) \<Longrightarrow> k \<notin> gone_ids evs \<Longrightarrow> foldl track_event T evs (a, k) = T (a, k)"
proof (induction evs arbitrary: T)
  case (Cons ev evs)
  then show ?case by (cases ev) (auto simp: on_id_def)
qed simp

lemma confirmed_gone:
  "list_all confirmation evs \<Longrightarrow> k \<notin> set (new_ids evs) \<Longrightarrow> k \<in> gone_ids evs \<or> T (a, k) = None \<Longrightarrow>
   foldl track_event T evs (a, k) = None"
proof (induction evs arbitrary: T)
  case (Cons ev evs)
  then show ?case by (cases ev) (auto simp: on_id_def)
qed simp

lemma confirmed_placed:
  assumes "list_all confirmation evs" "distinct (new_ids evs)" "k \<notin> gone_ids evs"
    "OrderPlaced k mint market price sz side ts signal ctx \<in> set evs"
  shows "foldl track_event T evs (mint, k) = Some (pending_new k mint market side price sz ts signal)"
  using assms
proof (induction evs arbitrary: T)
  case (Cons ev evs)
  show ?case
  proof (cases "OrderPlaced k mint market price sz side ts signal ctx \<in> set evs")
    case True
    then show ?thesis using Cons by (cases ev) auto
  next
    case False
    then have ev: "ev = OrderPlaced k mint market price sz side ts signal ctx" using Cons.prems(4) by simp
    then show ?thesis using Cons.prems confirmed_kept [of evs k "track_event T ev" mint] by simp
  qed
qed simp

lemma confirmed_own_ids:
  assumes "list_all confirmation evs" "distinct (new_ids evs)" "\<forall>k \<in> set (new_ids evs). \<forall>a. T (a, k) = None"
  shows "own_ids T evs"
  using assms
proof (induction evs arbitrary: T)
  case (Cons ev evs)
  have "own_ids (track_event T ev) evs"
    by (rule Cons.IH; use Cons.prems in \<open>cases ev\<close>) (auto simp: on_id_def)
  moreover have "own_id T ev" using Cons.prems by (cases ev) auto
  ultimately show ?case by simp
qed simp

section \<open>The book of the next round\<close>

definition book_of :: "pm_state \<Rightarrow> string \<Rightarrow> (string, pending_order) hmap" where
  "book_of s mint = unwrap_or (hget (pm_pending_limit_orders s) mint) []"

lemma book_of_tracked: "hget (book_of s mint) k = tracked s (mint, k)"
  by (simp add: book_of_def tracked_def book_at_def split: option.split)

lemma book_of_wf: "pm_inv s \<Longrightarrow> book_wf (book_of s mint)"
  by (cases "hget (pm_pending_limit_orders s) mint")
    (auto simp: book_of_def pm_inv_def intro: books_ok_book, simp add: book_wf_def)

lemma limit_events_inv: "pm_inv s \<Longrightarrow> pm_inv (apply_limit_events evs s)"
  unfolding apply_limit_events_def by (induction evs arbitrary: s) (simp_all add: handle_limit_order_event_inv)

lemma engine_orders:
  assumes "compute_reconciliation i m = Ok os"
  shows "set os = create_cancel_order i ` (set (stale m Buy (oi_bids i)) \<union> set (stale m Sell (oi_asks i)))
    \<union> (\<lambda>l. create_limit_order i l Buy) ` set (missing m Buy (oi_bids i))
    \<union> (\<lambda>l. create_limit_order i l Sell) ` set (missing m Sell (oi_asks i))"
  using assms by (auto simp: compute_reconciliation_eq split: sum.splits)

lemma limit_confirmed:
  "confirms (create_limit_order i l side) ev \<Longrightarrow> \<exists>k market ts signal ctx.
     ev = OrderPlaced k (oi_mint i) market (ql_price l) (read_back_size side l) side ts signal ctx"
  by (cases ev; cases side)
    (auto simp: read_back_size_def create_limit_order_def new_limit_buy_def new_limit_sell_def with_exit_mode_def
      with_context_def Let_def split: option.splits)

lemma cancel_confirmed:
  "confirms (create_cancel_order i oid) ev \<Longrightarrow> cancelled_id ev = Some oid \<and> placed_id ev = None"
  by (cases ev) (auto simp: create_cancel_order_def new_cancel_def)

definition desired :: "order_intent \<Rightarrow> order_side \<Rightarrow> quote_level list option" where
  "desired i side = (case side of Buy \<Rightarrow> oi_bids i | Sell \<Rightarrow> oi_asks i)"

definition rests :: "order_side \<Rightarrow> quote_level \<Rightarrow> pending_order \<Rightarrow> bool" where
  "rests side l p \<longleftrightarrow> po_side p = side \<and> po_price p = ql_price l \<and> po_remaining_size p = read_back_size side l"

text \<open>After one round the book of the intent's mint holds the old orders that were not stale and an order
  for every level that was missing, and nothing else.\<close>

lemma round_book:
  assumes inv: "pm_inv s" "ids_unique s"
    and os: "compute_reconciliation i (book_of s (oi_mint i)) = Ok os"
    and evs: "set sent = set os" "list_all2 confirms sent evs"
    and ids: "distinct (new_ids evs)" "\<forall>k \<in> set (new_ids evs). \<forall>a. tracked s (a, k) = None"
  defines "m \<equiv> book_of s (oi_mint i)" and "b \<equiv> book_of (apply_limit_events evs s) (oi_mint i)"
  defines "C \<equiv> set (stale m Buy (oi_bids i)) \<union> set (stale m Sell (oi_asks i))"
  shows "hget m k = Some p \<Longrightarrow> k \<notin> C \<Longrightarrow> hget b k = Some p"
    and "hget b k = Some p \<Longrightarrow> (hget m k = Some p \<and> k \<notin> C) \<or> (\<exists>l \<in> set (missing m (po_side p) (desired i (po_side p))). rests (po_side p) l p)"
    and "l \<in> set (missing m side (desired i side)) \<Longrightarrow> \<exists>k p. hget b k = Some p \<and> rests side l p"
proof -
  have conf: "list_all confirmation evs"
    using evs(2) by (induction rule: list_all2_induct) auto
  have tr: "hget b k = foldl track_event (tracked s) evs (oi_mint i, k)" for k
    using limit_events_tracked [OF confirmed_own_ids [OF conf ids] inv(2)] by (simp add: b_def book_of_tracked)
  have m: "hget m k = tracked s (oi_mint i, k)" for k by (simp add: m_def book_of_tracked)
  have answered: "\<exists>ev \<in> set evs. confirms ord ev" if "ord \<in> set os" for ord
    using that evs(2) unfolding evs(1) [symmetric] by (metis in_set_conv_nth list_all2_conv_all_nth nth_mem)
  have asked: "\<exists>ord \<in> set os. confirms ord ev" if "ev \<in> set evs" for ev
    using that evs(2) unfolding evs(1) [symmetric] by (metis in_set_conv_nth list_all2_conv_all_nth nth_mem)
  note eng = engine_orders [OF os, folded m_def]
  have limit: "\<exists>side l. l \<in> set (missing m side (desired i side)) \<and> ord = create_limit_order i l side"
    if "ord \<in> set os" "\<nexists>c. c \<in> C \<and> ord = create_cancel_order i c" for ord
    using that unfolding eng C_def desired_def by (auto split: order_side.split)
  have limit_in: "create_limit_order i l side \<in> set os" if "l \<in> set (missing m side (desired i side))" for l side
    using that unfolding eng desired_def by (cases side) auto
  have gone: "gone_ids evs = C"
  proof
    show "gone_ids evs \<subseteq> C"
    proof
      fix c assume "c \<in> gone_ids evs"
      then obtain ev where ev: "ev \<in> set evs" "cancelled_id ev = Some c" by (force simp: gone_ids_def)
      then obtain ord where ord: "ord \<in> set os" "confirms ord ev" using asked by blast
      show "c \<in> C"
      proof (cases "\<exists>d. d \<in> C \<and> ord = create_cancel_order i d")
        case True
        then show ?thesis using ord(2) ev(2) cancel_confirmed by fastforce
      next
        case False
        then show ?thesis using limit [OF ord(1)] ord(2) ev(2) limit_confirmed by fastforce
      qed
    qed
    show "C \<subseteq> gone_ids evs"
    proof
      fix c assume "c \<in> C"
      then have "create_cancel_order i c \<in> set os" unfolding eng C_def by blast
      then obtain ev where "ev \<in> set evs" "cancelled_id ev = Some c" using answered cancel_confirmed by blast
      then show "c \<in> gone_ids evs" by (force simp: gone_ids_def)
    qed
  qed
  have live_C: "hget m c \<noteq> None" if "c \<in> C" for c
    using that live_iff [OF book_of_wf [OF inv(1)], of _ "oi_mint i"] unfolding C_def stale_def m_def
    by (auto simp: set_side_of split: option.splits)
  have placed: "\<exists>p. hget b k = Some p \<and> rests side l p"
    if ev: "OrderPlaced k (oi_mint i) market (ql_price l) (read_back_size side l) side ts signal ctx \<in> set evs"
    for k market side l ts signal ctx
  proof -
    have "k \<in> set (new_ids evs)" using ev by (force simp: new_ids_def)
    then have "k \<notin> gone_ids evs" using ids(2) live_C m unfolding gone by metis
    from confirmed_placed [OF conf ids(1) this ev] show ?thesis by (simp add: tr rests_def pending_new_def)
  qed
  show "hget m k = Some p \<Longrightarrow> k \<notin> C \<Longrightarrow> hget b k = Some p"
    using confirmed_kept [OF conf, of k "tracked s" "oi_mint i"] ids(2) by (force simp: tr m gone)
  show "l \<in> set (missing m side (desired i side)) \<Longrightarrow> \<exists>k p. hget b k = Some p \<and> rests side l p"
    using answered [OF limit_in] limit_confirmed placed by blast
  assume p: "hget b k = Some p"
  show "(hget m k = Some p \<and> k \<notin> C) \<or> (\<exists>l \<in> set (missing m (po_side p) (desired i (po_side p))). rests (po_side p) l p)"
  proof (cases "k \<in> set (new_ids evs)")
    case False
    then show ?thesis
      using p confirmed_kept [OF conf False, of "tracked s" "oi_mint i"] confirmed_gone [OF conf False, of "tracked s" "oi_mint i"]
      by (cases "k \<in> C") (auto simp: tr m gone)
  next
    case True
    then obtain ev where ev: "ev \<in> set evs" "placed_id ev = Some k" by (auto simp: new_ids_def split: option.splits)
    then obtain ord where ord: "ord \<in> set os" "confirms ord ev" using asked by blast
    then have "\<nexists>c. c \<in> C \<and> ord = create_cancel_order i c" using ev(2) cancel_confirmed by fastforce
    then obtain side l where l: "l \<in> set (missing m side (desired i side))" "ord = create_limit_order i l side"
      using limit [OF ord(1)] by blast
    then obtain market ts signal ctx where
      "ev = OrderPlaced k (oi_mint i) market (ql_price l) (read_back_size side l) side ts signal ctx"
      using limit_confirmed ord(2) ev(2) by fastforce
    then have "rests side l p" using placed ev(1) p by fastforce
    then show ?thesis using l(1) by (auto simp: rests_def)
  qed
qed

lemma round_settled:
  assumes m: "book_wf m" and b: "book_wf b" and ok: "list_all level_ok (unwrap_or d [])"
    and kept: "\<And>k p. hget m k = Some p \<Longrightarrow> po_side p = side \<Longrightarrow> k \<notin> set (stale m side d) \<Longrightarrow> hget b k = Some p"
    and only: "\<And>k p. hget b k = Some p \<Longrightarrow> po_side p = side \<Longrightarrow>
      (hget m k = Some p \<and> k \<notin> set (stale m side d)) \<or> (\<exists>l \<in> set (missing m side d). rests side l p)"
    and new: "\<And>l. l \<in> set (missing m side d) \<Longrightarrow> \<exists>k p. hget b k = Some p \<and> rests side l p"
  shows "stale b side d = []" "missing b side d = []"
proof -
  have fits: "matches_level p (ql_price l) (ql_size l)" if "l \<in> set (missing m side d)" "rests side l p" for l p
    using that ok by (intro placed_matches) (auto simp: rests_def missing_def list_all_iff split: option.splits)
  have wanted: "has_matching_level p ls" if "d = Some ls" "p \<in> live b" "po_side p = side" for p ls
  proof -
    have "hget b (po_order_id p) = Some p" using that(2) live_iff [OF b] by blast
    from only [OF this that(3)] show ?thesis
    proof
      assume "hget m (po_order_id p) = Some p \<and> po_order_id p \<notin> set (stale m side d)"
      then show ?thesis using that live_iff [OF m] by (auto simp: stale_def set_side_of)
    next
      assume "\<exists>l \<in> set (missing m side d). rests side l p"
      then show ?thesis using fits that(1) by (auto simp: has_matching_level_def list_ex_iff missing_def)
    qed
  qed
  then show "stale b side d = []" by (auto simp: stale_def filter_empty_conv set_side_of split: option.split)
  have "has_matching_order l (side_of side b)" if d: "d = Some ls" and l: "l \<in> set ls" for l ls
  proof (cases "l \<in> set (missing m side d)")
    case True
    then obtain k p where p: "hget b k = Some p" "rests side l p" using new by blast
    then have "po_order_id p = k" using b by (auto simp: book_wf_def simp del: map_of_eq_Some_iff)
    then have "p \<in> live b" using live_iff [OF b] p(1) by blast
    then show ?thesis
      using fits [OF True p(2)] p(2) by (auto simp: has_matching_order_def list_ex_iff set_side_of rests_def)
  next
    case False
    with l d obtain c where c: "c \<in> live m" "po_side c = side" "matches_level c (ql_price l) (ql_size l)"
      by (auto simp: missing_def has_matching_order_def list_ex_iff set_side_of)
    then have id: "hget m (po_order_id c) = Some c" using live_iff [OF m] by blast
    have "po_order_id c \<notin> set (stale m side d)"
      using c l d live_inj [OF m c(1)] by (auto simp: stale_def set_side_of has_matching_level_def list_ex_iff)
    from kept [OF id c(2) this] have "c \<in> live b" using live_iff [OF b] by blast
    with c show ?thesis by (auto simp: has_matching_order_def list_ex_iff set_side_of)
  qed
  then show "missing b side d = []" by (auto simp: missing_def filter_empty_conv split: option.split)
qed

section \<open>Properties\<close>

text \<open>C29. Reconciliation converges in one round.  An intent whose levels have ordinary magnitude (prices
  between \<open>2^-20\<close> and \<open>2^20\<close>, sizes between \<open>2^-20\<close> and \<open>2^30\<close>) is reconciled with the orders of
  a consistent manager.  When every order the engine computes is confirmed, in any order, by the events of the
  executor and the poller, a placement with the size read back from quote amount and price and under an id
  of its own, and the manager has processed these events, then the same intent has nothing left to
  cancel or to place.\<close>

theorem reconciliation_converges:
  assumes inv: "pm_inv s" "ids_unique s"
    and lv: "list_all level_ok (unwrap_or (oi_bids i) [])" "list_all level_ok (unwrap_or (oi_asks i) [])"
    and os: "compute_reconciliation i (book_of s (oi_mint i)) = Ok os"
    and evs: "mset sent = mset os" "list_all2 confirms sent evs"
    and ids: "distinct (new_ids evs)" "\<forall>k \<in> set (new_ids evs). \<forall>a. tracked s (a, k) = None"
  shows "compute_reconciliation i (book_of (apply_limit_events evs s) (oi_mint i)) = Ok []"
proof -
  let ?m = "book_of s (oi_mint i)" and ?b = "book_of (apply_limit_events evs s) (oi_mint i)"
  have m: "book_wf ?m" and b: "book_wf ?b" using inv(1) by (simp_all add: book_of_wf limit_events_inv)
  note rb = round_book [OF inv os mset_eq_setD [OF evs(1)] evs(2) ids]
  have other: "k \<notin> set (stale ?m side' d)" if "hget ?m k = Some p" "po_side p \<noteq> side'" for k p side' d
  proof
    assume "k \<in> set (stale ?m side' d)"
    then obtain q where "q \<in> live ?m" "po_side q = side'" "po_order_id q = k"
      by (auto simp: stale_def set_side_of split: option.splits)
    then show False using live_iff [OF m, of q] that by simp
  qed
  have settled: "stale ?b side (desired i side) = [] \<and> missing ?b side (desired i side) = []" for side
  proof -
    have ok: "list_all level_ok (unwrap_or (desired i side) [])" using lv by (cases side) (simp_all add: desired_def)
    have C: "k \<notin> set (stale ?m Buy (oi_bids i)) \<union> set (stale ?m Sell (oi_asks i)) \<longleftrightarrow> k \<notin> set (stale ?m side (desired i side))"
      if "hget ?m k = Some p" "po_side p = side" for k p
      using other [OF that(1), of Buy] other [OF that(1), of Sell] that(2) by (cases side) (auto simp: desired_def)
    have kept: "hget ?b k = Some p" if "hget ?m k = Some p" "po_side p = side" "k \<notin> set (stale ?m side (desired i side))" for k p
      using rb(1) [OF that(1)] C [OF that(1,2)] that(3) by blast
    have only: "(hget ?m k = Some p \<and> k \<notin> set (stale ?m side (desired i side))) \<or> (\<exists>l \<in> set (missing ?m side (desired i side)). rests side l p)"
      if "hget ?b k = Some p" "po_side p = side" for k p
      using rb(2) [OF that(1)] C [of k p] that(2) by blast
    show ?thesis using round_settled [OF m b ok kept only rb(3)] by blast
  qed
  have "\<exists>u. validate_intent i = Inr u" using os by (simp add: compute_reconciliation_eq split: sum.splits)
  then show ?thesis
    using settled [of Buy] settled [of Sell] by (auto simp: compute_reconciliation_eq desired_def)
qed

definition demo_quoting :: pm_state where
  "demo_quoting = (pm_new f0)\<lparr>pm_pending_limit_orders := [(''M'', demo_book)]\<rparr>"

definition demo_confirmations :: "limit_order_event list" where
  "demo_confirmations =
     [OrderPlaced ''C'' ''M'' None (Fin 2) (read_back_size Buy (demo_level 2 8)) Buy 7 None None,
      OrderCancelled ''B'' (Some ''Cancelled externally'') 7, OrderCancelled ''A'' (Some ''Cancelled externally'') 7]"

theorem reconciliation_converges_witness:
  "compute_reconciliation demo_intent (book_of (apply_limit_events demo_confirmations demo_quoting) ''M'') = Ok []"
proof -
  let ?sent = "[create_limit_order demo_intent (demo_level 2 8) Buy, create_cancel_order demo_intent ''B'',
    create_cancel_order demo_intent ''A'']"
  have mint: "oi_mint demo_intent = ''M''" by (simp add: demo_intent_def intent_new_def)
  have inv: "pm_inv demo_quoting" "ids_unique demo_quoting"
    by (auto simp: demo_quoting_def demo_book_def pending_new_def pm_inv_def pm_new_def positions_ok_def books_ok_def
        book_wf_def in_flight_ok_def policies_ok_def lanes_ok_def ids_unique_def one_mint_def book_at_def split: if_splits)
  have book: "book_of demo_quoting ''M'' = demo_book" by (simp add: book_of_def demo_quoting_def)
  have lv: "list_all level_ok (unwrap_or (oi_bids demo_intent) [])" "list_all level_ok (unwrap_or (oi_asks demo_intent) [])"
    by (simp_all add: demo_intent_def intent_new_def demo_level_def level_gtc_def level_ok_def)
  have conf: "list_all2 confirms ?sent demo_confirmations"
    by (simp add: demo_confirmations_def read_back_size_def create_limit_order_def create_cancel_order_def new_cancel_def
        new_limit_buy_def with_exit_mode_def demo_intent_def intent_new_def demo_level_def level_gtc_def awaiting_def
        del: fmul.simps fdiv.simps)
  have ids: "distinct (new_ids demo_confirmations)"
    "\<forall>k \<in> set (new_ids demo_confirmations). \<forall>a. tracked demo_quoting (a, k) = None"
    by (simp_all add: demo_confirmations_def tracked_def book_at_def demo_quoting_def demo_book_def)
  show ?thesis
    using reconciliation_converges [OF inv lv _ _ conf ids, unfolded mint book, OF demo_reconciliation] by simp
qed

end
