(* ===== verification/Spec2Isabelle.thy ===== *)
theory Spec2Isabelle
  imports Lifecycle Manager Book Paper_Pass Backtest_Runs Order_Selection Position_Sync Server_Loop Processor_Runs
    Feed_Publisher Discovery Reconcile_Round
begin

text \<open>
  A verification development for the trading server of this repository, \<open>src/crates/trade-server\<close> (below
  \<open>TS\<close> stands for its directory \<open>src\<close>), the order book of its exchange client, \<open>src/crates/polyfill-rs\<close>,
  and the subscriber that feeds it, \<open>src/crates/tx-sub/crates/polymarket-sub\<close>.  This theory only collects
  the others.

  \<^bold>\<open>The program.\<close>  Market data reaches the trading server as events.  Strategies turn events into signals, the
  position handler turns signals into orders, an executor (paper, backtest or live) executes orders and
  answers with events, and the position manager keeps positions, cash, pending orders and the marks that
  keep an order from being sent twice.  The live executor hands its orders to a poller that watches them at
  the exchange and synchronises the positions; redemptions of paired outcome tokens go through a queue to
  contract calls of a Safe wallet.  A backtest replaces the live event source by a coordinator over
  recorded data and the executor by a simulation of quotes, latencies and fills.

  \<^bold>\<open>The theories, in the order of their imports.\<close>
  \<^item> \<open>Prelude\<close>, \<open>F64\<close>, \<open>Machine\<close>, \<open>Sorted_Map\<close>: what the components share.  A \<open>HashMap\<close> is an association list
    with unique keys (\<open>hmap\<close>; its order stands for the iteration order), a \<open>BTreeMap\<close> a sorted one; \<open>f64\<close> is
    binary64 with rounding to nearest, infinities and not-a-number, executable; the locales of \<open>Machine\<close> are
    the contract of a stateful component (an invariant that every call keeps, progress that no call takes
    back) and are interpreted on the calls of the engine, the manager, the book and the simulated
    executors.
  \<^item> \<open>Orders\<close>, \<open>Lifecycle\<close>, \<open>Client_View\<close> (\<open>TS/execution/order.rs\<close>, \<open>events.rs\<close>, \<open>lifecycle/\<close>): the vocabulary of
    orders and the engine that follows each order from its request to a terminal state.  Its maps always
    agree, records never move back, a terminal order is final and counted once.
  \<^item> \<open>PositionState\<close>, \<open>Exits\<close>, \<open>Fills\<close>, \<open>Redemption\<close>, \<open>Reconcile\<close>, \<open>Intents\<close>, \<open>Manager\<close> (\<open>TS/position/\<close>): the state of
    the position manager with one function per method, from the exit strategies to the reconciliation of
    an intent with the live orders.  Cash is exactly initial plus received minus spent, pending orders are a
    plain map under limit order events, the budget and the lifetime of quotes are respected, the maps stay
    consistent, and the marks are locks.
  \<^item> \<open>Ticks\<close>, \<open>Book\<close> (\<open>polyfill-rs/src/types.rs\<close>, \<open>utils.rs\<close>, \<open>book.rs\<close>): fixed-point prices in 32-bit and 64-bit words
    that wrap around as in a release build, and the depth-limited book, which shows only levels of the
    unlimited one.
  \<^item> \<open>Paper\<close>, \<open>Paper_Pass\<close>, \<open>Backtest\<close>, \<open>Backtest_Lanes\<close>, \<open>Backtest_Runs\<close> (\<open>TS/execution/paper/\<close>, \<open>backtest/\<close>): the two
    simulated executors, each against the lifecycle engine: their books agree with it, a trade fills an
    order at most once and only when it may, and a lane never holds two quotes.
  \<^item> \<open>Safe_Codec\<close>, \<open>Safe_Client\<close>, \<open>Merge_Executor\<close>, \<open>Rate_Limiter\<close>, \<open>Order_Poller\<close>, \<open>Order_Selection\<close>, \<open>Position_Sync\<close>,
    \<open>Clob_Executor\<close> (\<open>TS/client/polymarket/\<close>, \<open>TS/execution/polymarket/\<close>): the live side.  Packed transactions are
    read back as they were written, retries and waits are bounded, a merge sends exactly the smaller balance,
    the token bucket is never overdrawn under any interleaving, the fills that are reported add up, and a
    cancellation is the last word on an order.
  \<^item> \<open>Reconcile_Round\<close>: a round of quoting across manager, engine, executor and poller.  After the orders of an
    intent are confirmed, by the events that executor and poller emit, the same intent has nothing left to do.
  \<^item> \<open>Orderbook_Tracker\<close>, \<open>Trade_Handlers\<close>, \<open>Ledger\<close>, \<open>Server_Loop\<close> (\<open>TS/orderbook_tracker/\<close>, \<open>TS/trade_server/\<close>,
    \<open>TS/event_coordinator/generic_event_coordinator.rs\<close>): the books of the server, the handlers of events and
    signals with the tasks they spawn, and the loop, in which the spawned tasks run between the events.  A book
    is the last snapshot with the later updates of its asset; whatever the interleaving, cash and holdings are
    what a ledger makes of the events that were processed, and a step of the server sends one exit at most, by
    the caller that took the mark or as the replacement of an order by a signal, which takes no mark.
  \<^item> \<open>Timeline\<close>, \<open>Backtest_Coordinator\<close>, \<open>Coordinator_Runs\<close>, \<open>Completeness\<close>, \<open>Backtest_Config\<close>, \<open>Backtest_Processor\<close>,
    \<open>Processor_Runs\<close> (\<open>TS/backtest/\<close>): the data of a backtest, its delivery in order, and the whole run, which
    ends, shows the strategy all the data, and moves manager and executor only by their calls.
  \<^item> \<open>Feed_Parser\<close>, \<open>Feed_Publisher\<close>, \<open>Discovery\<close> (\<open>src/crates/tx-sub/crates/polymarket-sub/src\<close>): the subscriber that feeds
    the server.  Messages are read back as they were written, the publisher loses no update silently, the
    books of the server stay sorted and within their range whatever happens on the way, and the subscriptions
    follow the discovered markets within their limit.

  \<^bold>\<open>How code becomes definitions.\<close>  A struct is a record, an enum a datatype, a method a function that returns
  the new state and its result; errors are values of a sum.  Definitions keep the names of the code except
  where they clash; a prefix of a component (\<open>pm_\<close>, \<open>bt_\<close>, \<open>clob_\<close>, \<open>bp_\<close>) tells methods of the same name
  apart.  Words are used for \<open>u32\<close> and \<open>u64\<close> and wrap around; times are integers in nanoseconds, milliseconds where
  the code has them; \<open>i64\<close> sums of times are not cut off.  A call that holds a lock from its first to its
  last access is one step; the rate limiter, whose accesses are separate, is a step relation over single
  accesses.  A spawned task is a step of its own that may run at any later time.  The clock is read once
  for each event; draws of random numbers, ids, signatures, hashes and answers of networks are arguments.

  \<^bold>\<open>Parameters.\<close>  Code outside the repository is an argument of the definitions that use it: the conversion of
  milliseconds of the date library, the ABI encoder, the parsers of the numbers of contracts, the JSON reader, the
  HTTP client of the exchange, the contracts, the strategies.  No theorem assumes more of them than its
  statement names.

  \<^bold>\<open>Loops.\<close>  Loops over data are structural recursion or carry a measure.  Retries and waits recurse on the
  number of attempts that the code allows, ten for a transaction and half the seconds of the limit for a
  confirmation, so that no fuel is chosen.  Loops that may never end, the timers of the timeline mode,
  the loop of a backtest and the pages of the metadata loader, are partial functions whose value \<open>None\<close> is a
  call that never returns; that they do return is a theorem (\<open>coordinator_terminates\<close>, \<open>backtest_ends\<close>, \<open>loading_returns_iff\<close>), with the settings under which
  they do not: a timer interval of zero, and an exchange that never sends a short page.

  \<^bold>\<open>Not modelled.\<close>  Network and file input and output (HTTP and WebSocket clients, Redis, Parquet and JSON files,
  the API server and notifiers), log output and the registration of metrics, cryptographic signing, the
  Solana executor with the generated parsers of third-party programs, decimal arithmetic of a third-party
  crate in the client library (market impact, analytics), examples and tests.  What the parts named above
  leave out is said in the text at the head of their theories.
\<close>

end
